(* ===== verification/PyPrelude.thy ===== *)
theory PyPrelude
  imports Complex_Main "HOL-Library.AList"
begin

text \<open>
  Shared vocabulary of the development.  The program is Python; this theory fixes how its
  values, dictionaries, exceptions and loops are read.
  \<^item> A value decoded from JSON (a manifest field, a rule, an audit record) is a \<open>pyval\<close>,
    with Python's equality (\<open>True == 1 == 1.0\<close>, dictionaries compared without order),
    hashability and truth value.  A float is exact: a rational, an infinity or NaN.
  \<^item> A \<open>dict\<close> keeps its insertion order, so it is an association list with distinct keys;
    \<open>dget\<close>, \<open>dset\<close> and \<open>dpop\<close> are \<open>d.get(k)\<close>, \<open>d[k] = v\<close> and \<open>d.pop(k, None)\<close>.
  \<^item> A function that may raise returns \<open>'e + 'a\<close>, the exception on the left; \<open>bindE\<close>
    sequences such steps and \<open>mapE\<close> is a loop that stops at the first exception.
  \<^item> A \<open>str\<close> is a \<open>string\<close>, so a character stands for a code point below 256.
\<close>

named_theorems py_simps "evaluation of the Python-level operations"
named_theorems py_defs "definitions of small source helpers"

subsection \<open>Exceptions as values\<close>

definition bindE :: "'e + 'a \<Rightarrow> ('a \<Rightarrow> 'e + 'b) \<Rightarrow> 'e + 'b" where
  "bindE m f = (case m of Inl e \<Rightarrow> Inl e | Inr x \<Rightarrow> f x)"

lemma bindE_simps [simp, py_simps]:
  "bindE (Inl e) f = Inl e"
  "bindE (Inr x) f = f x"
  by (simp_all add: bindE_def)

lemma bindE_Inr_iff: "bindE m f = Inr y \<longleftrightarrow> (\<exists>x. m = Inr x \<and> f x = Inr y)"
  by (cases m) simp_all

lemma bindE_Inl_iff: "bindE m f = Inl e \<longleftrightarrow> m = Inl e \<or> (\<exists>x. m = Inr x \<and> f x = Inl e)"
  by (cases m) auto

lemma bindE_InrE [elim]:
  assumes "bindE m f = Inr y"
  obtains x where "m = Inr x" and "f x = Inr y"
  using assms by (auto simp: bindE_Inr_iff)

lemma bindE_assoc: "bindE (bindE m f) g = bindE m (\<lambda>x. bindE (f x) g)"
  by (cases m) simp_all

definition guardE :: "bool \<Rightarrow> 'e \<Rightarrow> 'e + unit" where
  "guardE b e = (if b then Inr () else Inl e)"

lemma guardE_simps [simp, py_simps]:
  "guardE True e = Inr ()"
  "guardE False e = Inl e"
  by (simp_all add: guardE_def)

lemma guardE_Inr_iff [simp]: "guardE b e = Inr u \<longleftrightarrow> b"
  by (simp add: guardE_def)

lemma guardE_Inl_iff [simp]: "guardE b e = Inl e' \<longleftrightarrow> \<not> b \<and> e' = e"
  by (auto simp: guardE_def)

fun mapE :: "('a \<Rightarrow> 'e + 'b) \<Rightarrow> 'a list \<Rightarrow> 'e + 'b list" where
  "mapE f [] = Inr []"
| "mapE f (x # xs) = bindE (f x) (\<lambda>y. bindE (mapE f xs) (\<lambda>ys. Inr (y # ys)))"

lemma mapE_cong [fundef_cong]:
  assumes "xs = ys" and "\<And>x. x \<in> set ys \<Longrightarrow> f x = g x"
  shows "mapE f xs = mapE g ys"
  using assms(2) unfolding assms(1) by (induction ys) auto

lemma mapE_Inr_iff:
  "mapE f xs = Inr ys \<longleftrightarrow> list_all2 (\<lambda>x y. f x = Inr y) xs ys"
  by (induction xs arbitrary: ys) (auto simp: bindE_Inr_iff list_all2_Cons1)

lemma mapE_in: "mapE f xs = Inr ys \<Longrightarrow> x \<in> set xs \<Longrightarrow> \<exists>y \<in> set ys. f x = Inr y"
  by (induction xs arbitrary: ys) (auto simp: bindE_Inr_iff)

lemma mapE_length: "mapE f xs = Inr ys \<Longrightarrow> length ys = length xs"
  by (simp add: mapE_Inr_iff list_all2_lengthD)

text \<open>A loop over a list whose body threads a state and may raise.\<close>

fun foldE :: "('a \<Rightarrow> 's \<Rightarrow> 'e + 's) \<Rightarrow> 'a list \<Rightarrow> 's \<Rightarrow> 'e + 's" where
  "foldE f [] s = Inr s"
| "foldE f (x # xs) s = bindE (f x s) (foldE f xs)"

lemma foldE_append: "foldE f (xs @ ys) s = bindE (foldE f xs s) (foldE f ys)"
  by (induction xs arbitrary: s) (auto simp: bindE_def split: sum.split)

lemma foldE_total:
  assumes "good s" and "\<And>x s. x \<in> set xs \<Longrightarrow> good s \<Longrightarrow> \<exists>t. f x s = Inr t \<and> good t"
  shows "\<exists>t. foldE f xs s = Inr t \<and> good t"
  using assms
proof (induction xs arbitrary: s)
  case (Cons x xs)
  from Cons.prems(2) [of x s] Cons.prems(1) obtain u where "f x s = Inr u" "good u" by auto
  with Cons.IH [of u] Cons.prems(2) show ?case by simp
qed simp

text \<open>
  The interface of a state that only ever moves in one direction: every step that succeeds
  keeps \<open>ok\<close> and does not lose anything \<open>le\<close> measures.  The authority matrix (a team layer
  only tightens) and the audit anchors (an anchor only rises) are instances.
\<close>

locale ratchet =
  fixes le :: "'s \<Rightarrow> 's \<Rightarrow> bool"
    and ok :: "'s \<Rightarrow> bool"
    and step :: "'a \<Rightarrow> 's \<Rightarrow> 'e + 's"
  assumes le_refl: "ok s \<Longrightarrow> le s s"
    and le_trans: "le r s \<Longrightarrow> le s t \<Longrightarrow> le r t"
    and step_ok: "ok s \<Longrightarrow> step a s = Inr t \<Longrightarrow> ok t"
    and step_le: "ok s \<Longrightarrow> step a s = Inr t \<Longrightarrow> le s t"
begin

lemma run_ok_le: "ok s \<Longrightarrow> foldE step as s = Inr t \<Longrightarrow> ok t \<and> le s t"
proof (induction as arbitrary: s)
  case Nil
  then show ?case by (simp add: le_refl)
next
  case (Cons a as)
  from Cons.prems(2) obtain u where u: "step a s = Inr u" "foldE step as u = Inr t"
    by auto
  with Cons.prems(1) have "ok u" "le s u" by (auto intro: step_ok step_le)
  with Cons.IH u(2) show ?case by (blast intro: le_trans)
qed

lemma run_visits:
  assumes "ok s" "foldE step as s = Inr t" "a \<in> set as"
  shows "\<exists>s1 t1. ok s1 \<and> step a s1 = Inr t1 \<and> le s s1 \<and> le t1 t"
  using assms
proof (induction as arbitrary: s)
  case (Cons b as)
  from Cons.prems(2) obtain u where u: "step b s = Inr u" "foldE step as u = Inr t"
    by auto
  with Cons.prems(1) have ok: "ok u" "le s u" by (auto intro: step_ok step_le)
  show ?case
  proof (cases "a = b")
    case True
    with u ok Cons.prems(1) show ?thesis using run_ok_le le_refl by blast
  next
    case False
    with Cons.IH [OF ok(1) u(2)] Cons.prems(3) ok(2) show ?thesis by (auto intro: le_trans)
  qed
qed simp

lemma run_ok: "ok s \<Longrightarrow> foldE step as s = Inr t \<Longrightarrow> ok t"
  using run_ok_le by blast

lemma run_le: "ok s \<Longrightarrow> foldE step as s = Inr t \<Longrightarrow> le s t"
  using run_ok_le by blast

end

subsection \<open>Values\<close>

datatype pyfloat = Fin rat | PInf | NInf | NaN

datatype pyval =
    PNone
  | PBool bool
  | PInt int
  | PFloat pyfloat
  | PStr string
  | PList "pyval list"
  | PDict "(string \<times> pyval) list"

type_synonym pydict = "(string \<times> pyval) list"

text \<open>Comparison of numbers; every comparison with NaN is false.\<close>

fun num_eq :: "pyfloat \<Rightarrow> pyfloat \<Rightarrow> bool" where
  "num_eq (Fin a) (Fin b) = (a = b)"
| "num_eq PInf PInf = True"
| "num_eq NInf NInf = True"
| "num_eq _ _ = False"

fun num_le :: "pyfloat \<Rightarrow> pyfloat \<Rightarrow> bool" where
  "num_le NaN _ = False"
| "num_le _ NaN = False"
| "num_le NInf _ = True"
| "num_le _ PInf = True"
| "num_le (Fin a) (Fin b) = (a \<le> b)"
| "num_le _ _ = False"

definition num_lt :: "pyfloat \<Rightarrow> pyfloat \<Rightarrow> bool" where
  "num_lt a b = (num_le a b \<and> \<not> num_eq a b)"

lemma num_le_trans: "num_le a b \<Longrightarrow> num_le b c \<Longrightarrow> num_le a c"
  by (cases a; cases b; cases c) auto

lemma num_le_refl_iff: "num_le a a \<longleftrightarrow> a \<noteq> NaN"
  by (cases a) auto

fun num_of :: "pyval \<Rightarrow> pyfloat option" where
  "num_of (PBool b) = Some (Fin (if b then 1 else 0))"
| "num_of (PInt i) = Some (Fin (of_int i))"
| "num_of (PFloat x) = Some x"
| "num_of _ = None"

fun py_eq :: "pyval \<Rightarrow> pyval \<Rightarrow> bool"
  and py_eqs :: "pyval list \<Rightarrow> pyval list \<Rightarrow> bool"
  and py_eqd :: "pydict \<Rightarrow> pydict \<Rightarrow> bool"
where
  "py_eq PNone b = (b = PNone)"
| "py_eq (PStr s) b = (b = PStr s)"
| "py_eq (PList xs) b = (case b of PList ys \<Rightarrow> py_eqs xs ys | _ \<Rightarrow> False)"
| "py_eq (PDict xs) b =
     (case b of PDict ys \<Rightarrow> length xs = length ys \<and> py_eqd xs ys | _ \<Rightarrow> False)"
| "py_eq (PBool c) b =
     (case num_of b of Some y \<Rightarrow> num_eq (Fin (if c then 1 else 0)) y | None \<Rightarrow> False)"
| "py_eq (PInt i) b = (case num_of b of Some y \<Rightarrow> num_eq (Fin (of_int i)) y | None \<Rightarrow> False)"
| "py_eq (PFloat x) b = (case num_of b of Some y \<Rightarrow> num_eq x y | None \<Rightarrow> False)"
| "py_eqs [] ys = (ys = [])"
| "py_eqs (x # xs) ys = (case ys of [] \<Rightarrow> False | y # ys' \<Rightarrow> py_eq x y \<and> py_eqs xs ys')"
| "py_eqd [] ys = True"
| "py_eqd ((k, v) # xs) ys =
     (case map_of ys k of None \<Rightarrow> False | Some w \<Rightarrow> py_eq v w \<and> py_eqd xs ys)"

lemma py_eq_str [simp]: "py_eq v (PStr s) \<longleftrightarrow> v = PStr s"
  by (cases v) auto

lemma py_eq_none [simp]: "py_eq v PNone \<longleftrightarrow> v = PNone"
  by (cases v) auto

text \<open>\<open>x in xs\<close> on a list or a tuple.\<close>

definition py_in :: "pyval \<Rightarrow> pyval list \<Rightarrow> bool" where
  "py_in v xs = list_ex (py_eq v) xs"

lemma py_in_strs: "py_in v (map PStr ss) \<longleftrightarrow> (\<exists>s \<in> set ss. v = PStr s)"
  by (auto simp: py_in_def list_ex_iff)

lemma py_in_simps [simp]:
  "py_in v [] = False"
  "py_in v (x # xs) = (py_eq v x \<or> py_in v xs)"
  by (simp_all add: py_in_def)

fun hashable :: "pyval \<Rightarrow> bool" where
  "hashable (PList _) = False"
| "hashable (PDict _) = False"
| "hashable _ = True"

fun truthy :: "pyval \<Rightarrow> bool" where
  "truthy PNone = False"
| "truthy (PBool b) = b"
| "truthy (PInt i) = (i \<noteq> 0)"
| "truthy (PFloat x) = (x \<noteq> Fin 0)"
| "truthy (PStr s) = (s \<noteq> [])"
| "truthy (PList xs) = (xs \<noteq> [])"
| "truthy (PDict xs) = (xs \<noteq> [])"

lemma num_eq_trans: "num_eq a b \<Longrightarrow> num_eq b c \<Longrightarrow> num_eq a c"
  by (cases a; cases b; cases c) auto

lemma py_eq_num:
  "num_of a = Some x \<Longrightarrow> py_eq a b \<longleftrightarrow> (\<exists>y. num_of b = Some y \<and> num_eq x y)"
  by (cases a) (auto split: option.splits)

lemma py_eq_num_of: "py_eq a b \<Longrightarrow> num_of a = None \<longleftrightarrow> num_of b = None"
  by (cases a; cases b) auto

lemma py_eq_trans:
  assumes "hashable a" "py_eq a b" "py_eq b c"
  shows "py_eq a c"
proof (cases "num_of a")
  case None
  with assms show ?thesis by (cases a) auto
next
  case (Some x)
  with assms(2) obtain y where y: "num_of b = Some y" "num_eq x y"
    using py_eq_num by blast
  with assms(3) obtain z where "num_of c = Some z" "num_eq y z"
    using py_eq_num by blast
  with Some y(2) show ?thesis using py_eq_num num_eq_trans by blast
qed

text \<open>\<open>set(xs) <= set(ys)\<close> for lists of hashable values.\<close>

definition set_le :: "pyval list \<Rightarrow> pyval list \<Rightarrow> bool" where
  "set_le xs ys = list_all (\<lambda>x. py_in x ys) xs"

lemma set_le_trans:
  assumes "list_all hashable xs" "set_le xs ys" "set_le ys zs"
  shows "set_le xs zs"
  using assms py_eq_trans
  unfolding set_le_def py_in_def list_all_iff list_ex_iff by blast

text \<open>\<open>xs.index(v)\<close>, \<open>None\<close> where Python raises \<open>ValueError\<close>.\<close>

fun index_of :: "pyval \<Rightarrow> pyval list \<Rightarrow> nat option" where
  "index_of v [] = None"
| "index_of v (x # xs) =
     (if py_eq v x then Some 0 else map_option Suc (index_of v xs))"

lemma index_of_None: "index_of v xs = None \<longleftrightarrow> \<not> py_in v xs"
  by (induction xs) auto

text \<open>\<open>isinstance\<close> tests; a \<open>bool\<close> is an \<open>int\<close> for Python.\<close>

fun is_pystr :: "pyval \<Rightarrow> bool" where
  "is_pystr (PStr _) = True"
| "is_pystr _ = False"

fun is_pybool :: "pyval \<Rightarrow> bool" where
  "is_pybool (PBool _) = True"
| "is_pybool _ = False"

fun is_pylist :: "pyval \<Rightarrow> bool" where
  "is_pylist (PList _) = True"
| "is_pylist _ = False"

fun the_str :: "pyval \<Rightarrow> string" where
  "the_str (PStr s) = s"
| "the_str _ = []"

fun the_list :: "pyval \<Rightarrow> pyval list" where
  "the_list (PList xs) = xs"
| "the_list _ = []"

lemma is_pystr_iff: "is_pystr v \<longleftrightarrow> (\<exists>s. v = PStr s)"
  by (cases v) auto

lemma is_pybool_iff: "is_pybool v \<longleftrightarrow> (\<exists>b. v = PBool b)"
  by (cases v) auto

lemma is_pylist_iff: "is_pylist v \<longleftrightarrow> (\<exists>xs. v = PList xs)"
  by (cases v) auto

text \<open>
  \<open>if not isinstance(v, list): raise e\<close> and the same for a string and a dictionary: go on with
  the content, or raise.
\<close>

definition with_str :: "pyval \<Rightarrow> 'e \<Rightarrow> (string \<Rightarrow> 'e + 'b) \<Rightarrow> 'e + 'b" where
  "with_str v e f = (case v of PStr s \<Rightarrow> f s | _ \<Rightarrow> Inl e)"

definition with_list :: "pyval \<Rightarrow> 'e \<Rightarrow> (pyval list \<Rightarrow> 'e + 'b) \<Rightarrow> 'e + 'b" where
  "with_list v e f = (case v of PList xs \<Rightarrow> f xs | _ \<Rightarrow> Inl e)"

definition with_dict :: "pyval \<Rightarrow> 'e \<Rightarrow> ((string \<times> pyval) list \<Rightarrow> 'e + 'b) \<Rightarrow> 'e + 'b" where
  "with_dict v e f = (case v of PDict d \<Rightarrow> f d | _ \<Rightarrow> Inl e)"

definition with_some :: "'a option \<Rightarrow> 'e \<Rightarrow> ('a \<Rightarrow> 'e + 'b) \<Rightarrow> 'e + 'b" where
  "with_some v e f = (case v of Some x \<Rightarrow> f x | None \<Rightarrow> Inl e)"

lemma with_str_simps [simp]:
  "with_str (PStr s) e f = f s" "with_str PNone e f = Inl e" "with_str (PBool b) e f = Inl e"
  "with_str (PInt i) e f = Inl e" "with_str (PFloat x) e f = Inl e"
  "with_str (PList xs) e f = Inl e" "with_str (PDict d) e f = Inl e"
  by (simp_all add: with_str_def)

lemma with_list_simps [simp]:
  "with_list (PList xs) e g = g xs" "with_list PNone e g = Inl e" "with_list (PBool b) e g = Inl e"
  "with_list (PInt i) e g = Inl e" "with_list (PFloat x) e g = Inl e"
  "with_list (PStr s) e g = Inl e" "with_list (PDict d) e g = Inl e"
  by (simp_all add: with_list_def)

lemma with_dict_simps [simp]:
  "with_dict (PDict d) e h = h d" "with_dict PNone e h = Inl e" "with_dict (PBool b) e h = Inl e"
  "with_dict (PInt i) e h = Inl e" "with_dict (PFloat x) e h = Inl e"
  "with_dict (PStr s) e h = Inl e" "with_dict (PList xs) e h = Inl e"
  by (simp_all add: with_dict_def)

lemma with_some_simps [simp]: "with_some (Some x) e k = k x" "with_some None e k = Inl e"
  by (simp_all add: with_some_def)

lemma with_Inr_iff:
  "with_str v e f = Inr y \<longleftrightarrow> (\<exists>s. v = PStr s \<and> f s = Inr y)"
  "with_list v e g = Inr y \<longleftrightarrow> (\<exists>xs. v = PList xs \<and> g xs = Inr y)"
  "with_dict v e h = Inr y \<longleftrightarrow> (\<exists>d. v = PDict d \<and> h d = Inr y)"
  "with_some m e k = Inr y \<longleftrightarrow> (\<exists>x. m = Some x \<and> k x = Inr y)"
  by (cases v; simp)+ (cases m; simp)

lemma with_str_Inl_iff:
  "with_str v e f = Inl e' \<longleftrightarrow> (\<not> is_pystr v \<and> e' = e) \<or> (\<exists>s. v = PStr s \<and> f s = Inl e')"
  by (cases v) auto

lemma with_list_Inl_iff:
  "with_list v e g = Inl e' \<longleftrightarrow> (\<not> is_pylist v \<and> e' = e) \<or> (\<exists>xs. v = PList xs \<and> g xs = Inl e')"
  by (cases v) auto

lemma with_some_Inl_iff:
  "with_some m e k = Inl e' \<longleftrightarrow> (m = None \<and> e' = e) \<or> (\<exists>x. m = Some x \<and> k x = Inl e')"
  by (cases m) auto

lemmas okE = bindE_Inr_iff guardE_Inr_iff with_Inr_iff sum.inject

subsection \<open>Dictionaries\<close>

definition dget :: "('k \<times> 'v) list \<Rightarrow> 'k \<Rightarrow> 'v option" where
  "dget d k = map_of d k"

definition dset :: "'k \<Rightarrow> 'v \<Rightarrow> ('k \<times> 'v) list \<Rightarrow> ('k \<times> 'v) list" where
  "dset k v d = AList.update k v d"

definition dpop :: "'k \<Rightarrow> ('k \<times> 'v) list \<Rightarrow> ('k \<times> 'v) list" where
  "dpop k d = AList.delete k d"

definition dkeys :: "('k \<times> 'v) list \<Rightarrow> 'k list" where
  "dkeys d = map fst d"

definition wf_dict :: "('k \<times> 'v) list \<Rightarrow> bool" where
  "wf_dict d = distinct (dkeys d)"

text \<open>\<open>d.get(k)\<close> with Python's default \<open>None\<close>.\<close>

definition dgetN :: "pydict \<Rightarrow> string \<Rightarrow> pyval" where
  "dgetN d k = (case dget d k of Some v \<Rightarrow> v | None \<Rightarrow> PNone)"

lemma dget_simps [simp]:
  "dget [] k = None"
  "dget ((k', v) # d) k = (if k = k' then Some v else dget d k)"
  by (simp_all add: dget_def)

lemma dget_dset [simp]: "dget (dset k v d) k' = (if k' = k then Some v else dget d k')"
  by (simp add: dget_def dset_def update_conv')

lemma dget_dpop [simp]: "dget (dpop k d) k' = (if k' = k then None else dget d k')"
  by (simp add: dget_def dpop_def delete_conv')

lemma dkeys_simps [simp]: "dkeys [] = []" "dkeys ((k, v) # d) = k # dkeys d"
  by (simp_all add: dkeys_def)

lemma wf_dict_nil [simp]: "wf_dict []"
  by (simp add: wf_dict_def)

lemma wf_dict_dset [simp]: "wf_dict d \<Longrightarrow> wf_dict (dset k v d)"
  by (simp add: wf_dict_def dkeys_def dset_def distinct_update)

lemma wf_dict_dpop [simp]: "wf_dict d \<Longrightarrow> wf_dict (dpop k d)"
  by (simp add: wf_dict_def dkeys_def dpop_def distinct_delete)

lemma set_dkeys_dset: "set (dkeys (dset k v d)) = insert k (set (dkeys d))"
  by (auto simp: dkeys_def dset_def dom_update)

lemma dget_None_iff: "dget d k = None \<longleftrightarrow> k \<notin> set (dkeys d)"
  by (simp add: dget_def dkeys_def map_of_eq_None_iff)

lemma dget_Some_in: "dget d k = Some v \<Longrightarrow> (k, v) \<in> set d"
  by (simp add: dget_def map_of_SomeD)

lemma dget_in: "wf_dict d \<Longrightarrow> (k, v) \<in> set d \<Longrightarrow> dget d k = Some v"
  by (simp add: dget_def wf_dict_def dkeys_def map_of_is_SomeI)

lemma dset_new: "dget d k = None \<Longrightarrow> dset k v d = d @ [(k, v)]"
  by (induction d) (auto simp: dset_def split: if_splits)

lemma wf_dict_snoc [simp]: "dget d k = None \<Longrightarrow> wf_dict (d @ [(k, v)]) = wf_dict d"
  by (auto simp: wf_dict_def dget_None_iff dkeys_def)

lemma dkeys_dset_old: "dget d k \<noteq> None \<Longrightarrow> dkeys (dset k v d) = dkeys d"
  by (induction d) (auto simp: dset_def split: if_splits)

lemma length_dset_new: "dget d k = None \<Longrightarrow> length (dset k v d) = Suc (length d)"
  by (simp add: dset_new)

lemma length_dset_old: "dget d k \<noteq> None \<Longrightarrow> length (dset k v d) = length d"
  by (induction d) (auto simp: dset_def split: if_splits)

lemma length_dpop_le: "length (dpop k d) \<le> length d"
  by (simp add: dpop_def length_delete_le)

subsection \<open>Strings\<close>

definition starts_with :: "string \<Rightarrow> string \<Rightarrow> bool" where
  "starts_with s p = (take (length p) s = p)"

definition ends_with :: "string \<Rightarrow> string \<Rightarrow> bool" where
  "ends_with s p = (length p \<le> length s \<and> drop (length s - length p) s = p)"

text \<open>\<open>p in s\<close> on strings.\<close>

fun has_infix :: "string \<Rightarrow> string \<Rightarrow> bool" where
  "has_infix p [] = (p = [])"
| "has_infix p (c # cs) = (starts_with (c # cs) p \<or> has_infix p cs)"

text \<open>\<open>s.partition(c)\<close> for a one-character separator: before, found, after.\<close>

fun partition_at :: "char \<Rightarrow> string \<Rightarrow> string \<times> bool \<times> string" where
  "partition_at c [] = ([], False, [])"
| "partition_at c (x # xs) =
     (if x = c then ([], True, xs)
      else (case partition_at c xs of (a, f, b) \<Rightarrow> (x # a, f, b)))"

text \<open>\<open>s.split(c)\<close> for a one-character separator: never empty.\<close>

fun split_on :: "char \<Rightarrow> string \<Rightarrow> string list" where
  "split_on c [] = [[]]"
| "split_on c (x # xs) =
     (if x = c then [] # split_on c xs
      else (case split_on c xs of [] \<Rightarrow> [[x]] | w # ws \<Rightarrow> (x # w) # ws))"

lemma split_on_nonempty [simp]: "split_on c s \<noteq> []"
  by (induction s) (auto split: list.splits)

lemma partition_at_not_found:
  "c \<notin> set s \<Longrightarrow> partition_at c s = (s, False, [])"
  by (induction s) auto

lemma partition_at_append:
  "c \<notin> set a \<Longrightarrow> partition_at c (a @ c # b) = (a, True, b)"
  by (induction a) auto

lemma partition_at_found:
  "partition_at c s = (a, True, b) \<Longrightarrow> s = a @ c # b \<and> c \<notin> set a"
  by (induction s arbitrary: a) (auto split: if_splits prod.splits)

text \<open>ASCII whitespace as \<open>str.strip\<close> and \<open>str.isspace\<close> see it below 256.\<close>

definition is_space :: "char \<Rightarrow> bool" where
  "is_space c = (of_char c \<in> {9, 10, 11, 12, 13, 28, 29, 30, 31, 32, 133, 160 :: nat})"

definition lstrip :: "string \<Rightarrow> string" where
  "lstrip s = dropWhile is_space s"

definition strip :: "string \<Rightarrow> string" where
  "strip s = rev (lstrip (rev (lstrip s)))"

lemma set_strip: "set (strip s) \<subseteq> set s"
  by (auto simp: strip_def lstrip_def dest!: set_dropWhileD)

lemma starts_with_append [simp]: "starts_with (p @ s) p"
  by (simp add: starts_with_def)

lemma ends_with_append [simp]: "ends_with (r @ p) p"
  by (simp add: ends_with_def)

lemma starts_with_iff: "starts_with s p \<longleftrightarrow> (\<exists>r. s = p @ r)"
  unfolding starts_with_def by (metis append_eq_conv_conj append_take_drop_id)

subsection \<open>The process environment\<close>

text \<open>\<open>env.get(name, "")\<close> on the environment variables.\<close>

type_synonym env = "(string \<times> string) list"

definition env_get :: "env \<Rightarrow> string \<Rightarrow> string" where
  "env_get env k = (case dget env k of Some v \<Rightarrow> v | None \<Rightarrow> [])"

text \<open>
  \<open>str(v)\<close>: a string is itself; how the interpreter prints any other value is the argument
  \<open>render\<close>.
\<close>

definition py_str :: "(pyval \<Rightarrow> string) \<Rightarrow> pyval \<Rightarrow> string" where
  "py_str render v = (case v of PStr s \<Rightarrow> s | _ \<Rightarrow> render v)"

lemma py_str_PStr [simp]: "py_str render (PStr s) = s"
  by (simp add: py_str_def)

definition is_lower :: "char \<Rightarrow> bool" where
  "is_lower c = (97 \<le> (of_char c :: nat) \<and> of_char c \<le> (122 :: nat))"

definition is_upper :: "char \<Rightarrow> bool" where
  "is_upper c = (65 \<le> (of_char c :: nat) \<and> of_char c \<le> (90 :: nat))"

definition is_digit :: "char \<Rightarrow> bool" where
  "is_digit c = (48 \<le> (of_char c :: nat) \<and> of_char c \<le> (57 :: nat))"

text \<open>\<open>str.upper\<close> and \<open>str.lower\<close> on ASCII letters; other characters stay.\<close>

definition char_upper :: "char \<Rightarrow> char" where
  "char_upper c = (if is_lower c then char_of (of_char c - 32 :: nat) else c)"

definition char_lower :: "char \<Rightarrow> char" where
  "char_lower c = (if is_upper c then char_of (of_char c + 32 :: nat) else c)"

text \<open>\<open>str(n)\<close> for a natural number.\<close>

fun show_nat :: "nat \<Rightarrow> string" where
  "show_nat n = (if n < 10 then [char_of (48 + n)] else show_nat (n div 10) @ [char_of (48 + n mod 10)])"

declare show_nat.simps [simp del]

lemma length_show_nat: "n < 10 ^ k \<Longrightarrow> 0 < k \<Longrightarrow> length (show_nat n) \<le> k"
proof (induction k arbitrary: n)
  case (Suc k)
  show ?case
  proof (cases "n < 10")
    case True
    then show ?thesis by (subst show_nat.simps) simp
  next
    case False
    with Suc.prems have "n div 10 < 10 ^ k" "0 < k" by (auto intro!: Nat.gr0I)
    with Suc.IH [of "n div 10"] False show ?thesis by (subst show_nat.simps) simp
  qed
qed simp

text \<open>\<open>[0-9a-fA-F]{n}\<close> on the whole string.\<close>

definition hex_string :: "nat \<Rightarrow> string \<Rightarrow> bool" where
  "hex_string n s =
     (length s = n \<and>
      list_all (\<lambda>c. is_digit c \<or> c \<in> set ''abcdef'' \<or> c \<in> set ''ABCDEF'') s)"

text \<open>\<open>int(s)\<close> on a string: optional sign, digits, single underscores between digits.\<close>

fun digits_value :: "string \<Rightarrow> bool \<Rightarrow> int \<Rightarrow> int option" where
  "digits_value [] ok acc = (if ok then Some acc else None)"
| "digits_value (c # cs) ok acc =
     (if is_digit c then digits_value cs True (acc * 10 + (of_char c - 48))
      else if c = CHR ''_'' \<and> ok then digits_value cs False acc
      else None)"

definition int_of_str :: "string \<Rightarrow> int option" where
  "int_of_str s =
     (case strip s of
        [] \<Rightarrow> None
      | c # cs \<Rightarrow>
          if c = CHR ''-'' then map_option uminus (digits_value cs False 0)
          else if c = CHR ''+'' then digits_value cs False 0
          else digits_value (c # cs) False 0)"

definition dget_or :: "pydict \<Rightarrow> string \<Rightarrow> pyval \<Rightarrow> pyval" where
  "dget_or d k dflt = (case dget d k of Some v \<Rightarrow> v | None \<Rightarrow> dflt)"

text \<open>\<open>str.lower\<close> below 256.\<close>

definition lower_char :: "char \<Rightarrow> char" where
  "lower_char c =
     (if 192 \<le> (of_char c :: nat) \<and> of_char c \<le> (222 :: nat) \<and> of_char c \<noteq> (215 :: nat)
      then char_of (of_char c + 32 :: nat) else char_lower c)"

definition lower :: "string \<Rightarrow> string" where
  "lower s = map lower_char s"

definition rstrip :: "string \<Rightarrow> string" where
  "rstrip s = rev (lstrip (rev s))"

end
