(* ===== verification/CallLog.thy ===== *)
theory CallLog
  imports PyPrelude
begin

text \<open>
  Code that calls the world outside: a computation returns the calls it made, in order, and its result
  or the exception that ended it.  \<open>silent\<close> and \<open>yields\<close> state what it never calls and what its results
  satisfy, and \<open>agree\<close> that two records have the same values at some keys.
\<close>

type_synonym ('c, 'e, 'a) logged = "'c list \<times> ('e + 'a)"

definition retW :: "'a \<Rightarrow> ('c, 'e, 'a) logged" where
  "retW x = ([], Inr x)"

definition liftW :: "'e + 'a \<Rightarrow> ('c, 'e, 'a) logged" where
  "liftW r = ([], r)"

definition bindW :: "('c, 'e, 'a) logged \<Rightarrow> ('a \<Rightarrow> ('c, 'e, 'b) logged) \<Rightarrow> ('c, 'e, 'b) logged" where
  "bindW m f =
     (case snd m of Inl e \<Rightarrow> (fst m, Inl e) | Inr x \<Rightarrow> (fst m @ fst (f x), snd (f x)))"

definition tellW :: "'c list \<Rightarrow> ('c, 'e, 'a) logged \<Rightarrow> ('c, 'e, 'a) logged" where
  "tellW cs m = (cs @ fst m, snd m)"

lemma retW_simps [simp]: "fst (retW x) = []" "snd (retW x) = Inr x"
  by (simp_all add: retW_def)

lemma liftW_simps [simp]: "fst (liftW r) = []" "snd (liftW r) = r"
  by (simp_all add: liftW_def)

lemma tellW_simps [simp]: "fst (tellW cs m) = cs @ fst m" "snd (tellW cs m) = snd m"
  by (simp_all add: tellW_def)

lemma snd_bindW [simp]: "snd (bindW m f) = bindE (snd m) (\<lambda>x. snd (f x))"
  by (auto simp: bindW_def bindE_def split: sum.split)

lemma fst_bindW: "fst (bindW m f) = fst m @ (case snd m of Inl e \<Rightarrow> [] | Inr x \<Rightarrow> fst (f x))"
  by (auto simp: bindW_def split: sum.split)

lemma in_bindW: "c \<in> set (fst (bindW m f)) \<longleftrightarrow> c \<in> set (fst m) \<or> (\<exists>x. snd m = Inr x \<and> c \<in> set (fst (f x)))"
  by (auto simp: fst_bindW split: sum.split)

lemma bindW_Inr: "snd m = Inr x \<Longrightarrow> bindW m f = (fst m @ fst (f x), snd (f x))"
  by (simp add: bindW_def)

lemma bindW_assoc: "bindW (bindW m f) g = bindW m (\<lambda>x. bindW (f x) g)"
  by (auto simp: bindW_def split: sum.split)

text \<open>Calls of some kind do not occur in a computation.\<close>

definition silent :: "('c \<Rightarrow> bool) \<Rightarrow> ('c, 'e, 'a) logged \<Rightarrow> bool" where
  "silent p m = (filter p (fst m) = [])"

named_theorems silents "computations without calls of a kind"

lemma silent_basic [silents, simp]:
  "silent p (retW x)" "silent p (liftW r)"
  "silent p (tellW cs m) \<longleftrightarrow> filter p cs = [] \<and> silent p m"
  by (simp_all add: silent_def)

lemma silent_bindW [silents, intro]:
  "silent p m \<Longrightarrow> (\<And>x. snd m = Inr x \<Longrightarrow> silent p (f x)) \<Longrightarrow> silent p (bindW m f)"
  by (auto simp: silent_def fst_bindW split: sum.split)

lemma silent_notin: "silent p m \<Longrightarrow> p c \<Longrightarrow> c \<notin> set (fst m)"
  by (auto simp: silent_def filter_empty_conv)

text \<open>What every result of a computation satisfies.\<close>

definition yields :: "('a \<Rightarrow> bool) \<Rightarrow> ('c, 'e, 'a) logged \<Rightarrow> bool" where
  "yields P m = (\<forall>x. snd m = Inr x \<longrightarrow> P x)"

lemma yieldsD: "yields P m \<Longrightarrow> snd m = Inr x \<Longrightarrow> P x"
  by (simp add: yields_def)

lemma yields_basic [simp]:
  "yields P (retW x) = P x" "yields P (tellW cs m) = yields P m"
  "yields P (liftW (Inr x)) = P x" "yields P (liftW (Inl e))"
  by (simp_all add: yields_def)

lemma yields_liftW: "yields P (liftW r) = (\<forall>x. r = Inr x \<longrightarrow> P x)"
  by (simp add: yields_def)

lemma yields_bindW: "yields Q m \<Longrightarrow> (\<And>x. Q x \<Longrightarrow> yields P (f x)) \<Longrightarrow> yields P (bindW m f)"
  by (auto simp: yields_def bindE_Inr_iff)

lemma yields_bindW_any: "(\<And>x. snd m = Inr x \<Longrightarrow> yields P (f x)) \<Longrightarrow> yields P (bindW m f)"
  by (auto simp: yields_def bindE_Inr_iff)

lemma yields_mono: "yields Q m \<Longrightarrow> (\<And>x. Q x \<Longrightarrow> P x) \<Longrightarrow> yields P m"
  by (auto simp: yields_def)

text \<open>Two records that agree on some keys.\<close>

definition agree :: "string set \<Rightarrow> pydict \<Rightarrow> pydict \<Rightarrow> bool" where
  "agree K d d' = (\<forall>k \<in> K. dget d' k = dget d k)"

lemma agree_refl [simp]: "agree K d d"
  by (simp add: agree_def)

lemma agree_dset [simp]: "k \<notin> K \<Longrightarrow> agree K d (dset k v d') = agree K d d'"
  by (auto simp: agree_def)

lemma agree_dpop [simp]: "k \<notin> K \<Longrightarrow> agree K d (dpop k d') = agree K d d'"
  by (auto simp: agree_def)

lemma agree_trans: "agree K a b \<Longrightarrow> agree K b c \<Longrightarrow> agree K a c"
  by (simp add: agree_def)

lemma agree_dgetN: "agree K d d' \<Longrightarrow> k \<in> K \<Longrightarrow> dgetN d' k = dgetN d k"
  by (simp add: agree_def dgetN_def)

end
