(* ===== verification/ReviewBinding.thy ===== *)
theory ReviewBinding
  imports CallLog
begin

text \<open>
  Which commit an approval covers: \<open>src/pipeline/review_verdict_binding.py\<close> records the reviewed
  commit next to the verdict, \<open>src/pipeline/review_merge_binding.py\<close> compares it with the tip of the
  branch before a merge and moves it only after the pipeline's own push.  Git is a parameter.
\<close>

definition short :: "pyval \<Rightarrow> string" where
  "short sha = (case sha of PStr s \<Rightarrow> if s \<noteq> [] then take 12 s else ''none'' | _ \<Rightarrow> ''none'')"

definition RERUN :: string where
  "RERUN = ''re-run review_story''"

definition story_fields :: "pyval \<Rightarrow> pydict" where
  "story_fields story = (case story of PDict d \<Rightarrow> d | _ \<Rightarrow> [])"

text \<open>\<open>check\<close>: the answer and its reason; \<open>render\<close> is \<open>repr\<close>.\<close>

definition check :: "(pyval \<Rightarrow> string) \<Rightarrow> pyval \<Rightarrow> pyval \<Rightarrow> bool \<times> string" where
  "check render story head =
     (let verdict = dgetN (story_fields story) ''review_verdict'';
          bound = dgetN (story_fields story) ''review_verdict_sha'' in
      if verdict \<noteq> PStr ''APPROVE''
      then (False, ''review verdict is '' @ render verdict @ '', not 'APPROVE'; '' @ RERUN)
      else if \<not> is_pystr bound \<or> \<not> truthy bound
      then (False, ''the approval is not bound to a reviewed commit (review_verdict_sha='' @ render bound @
              '') so it cannot cover branch head '' @ short head @ ''; '' @ RERUN)
      else if \<not> is_pystr head \<or> \<not> truthy head
      then (False, ''branch head unavailable (got '' @ render head @ ''); the approval covers '' @ short bound @
              '' and cannot be matched; '' @ RERUN)
      else if bound \<noteq> head
      then (False, ''approved '' @ short bound @ '' but the branch head is '' @ short head @
              ''; the review does not cover the commit being merged; '' @ RERUN)
      else (True, ''approval covers branch head '' @ short head))"

definition approved_at :: "pydict \<Rightarrow> string \<Rightarrow> bool" where
  "approved_at story sha \<longleftrightarrow> sha \<noteq> [] \<and> dgetN story ''review_verdict'' = PStr ''APPROVE'' \<and>
     dgetN story ''review_verdict_sha'' = PStr sha"

lemma check_iff: "fst (check render (PDict story) head) \<longleftrightarrow> (\<exists>sha. head = PStr sha \<and> approved_at story sha)"
  by (auto simp: check_def Let_def story_fields_def approved_at_def is_pystr_iff)

lemma check_refuses_without_story: "\<not> fst (check render v head)" if "\<And>d. v \<noteq> PDict d"
  using that by (cases v) (auto simp: check_def Let_def story_fields_def dgetN_def)

text \<open>
  The remote tip after a fetch.  \<open>git fetch origin\<close> answers with its exit code, \<open>git rev-parse\<close> with
  code and output, None where the process does not start.
\<close>

definition branch_head_sha ::
  "int option \<Rightarrow> (string \<Rightarrow> (int \<times> string) option) \<Rightarrow> string \<Rightarrow> pyval" where
  "branch_head_sha fetched rev_parse branch =
     (if branch = [] then PNone
      else if fetched \<noteq> Some 0 then PNone
      else (case rev_parse (''refs/remotes/origin/'' @ branch) of
              Some (code, out) \<Rightarrow>
                if code \<noteq> 0 \<or> strip out = [] then PNone else PStr (strip out)
            | None \<Rightarrow> PNone))"

definition bind_verdict :: "string \<Rightarrow> pyval \<Rightarrow> string \<Rightarrow> pydict \<Rightarrow> pydict" where
  "bind_verdict verdict reviewed_sha now story =
     dset ''review_verdict_ts'' (PStr now)
       (dset ''review_verdict_sha'' (if truthy reviewed_sha then reviewed_sha else PStr [])
         (dset ''review_verdict'' (PStr verdict) story))"

definition rebind_after_pipeline_push :: "string \<Rightarrow> pyval \<Rightarrow> pydict \<Rightarrow> bool \<times> pydict" where
  "rebind_after_pipeline_push now pushed_sha story =
     (if dgetN story ''review_verdict'' \<noteq> PStr ''APPROVE'' then (False, story)
      else if \<not> is_pystr pushed_sha \<or> \<not> truthy pushed_sha then (False, story)
      else if dgetN story ''review_verdict_sha'' = pushed_sha then (False, story)
      else (True, bind_verdict ''APPROVE'' pushed_sha now story))"

lemma rebind_other_fields:
  assumes "k \<notin> {''review_verdict'', ''review_verdict_sha'', ''review_verdict_ts''}"
  shows "dget (snd (rebind_after_pipeline_push now sha story)) k = dget story k"
  using assms by (simp add: rebind_after_pipeline_push_def bind_verdict_def)

lemma rebind_verdict [simp]:
  "dgetN (snd (rebind_after_pipeline_push now sha story)) ''review_verdict'' = dgetN story ''review_verdict''"
  by (simp add: rebind_after_pipeline_push_def bind_verdict_def dgetN_def)

lemma rebind_binds:
  "dgetN story ''review_verdict'' = PStr ''APPROVE'' \<Longrightarrow> s \<noteq> [] \<Longrightarrow>
     approved_at (snd (rebind_after_pipeline_push now (PStr s) story)) s"
  by (auto simp: rebind_after_pipeline_push_def bind_verdict_def approved_at_def dgetN_def)

lemma agree_rebind:
  "K \<inter> {''review_verdict'', ''review_verdict_sha'', ''review_verdict_ts''} = {} \<Longrightarrow>
     agree K d (snd (rebind_after_pipeline_push now sha d)) "
  unfolding agree_def by (intro ballI rebind_other_fields) auto

end
