(* ===== verification/ReworkBrief.thy ===== *)
theory ReworkBrief
  imports PyPrelude
begin

text \<open>
  The briefs the merge gate hands back to an implementer: \<open>src/pipeline/rebase_conflict_feedback.py\<close>
  (a rebase conflict), \<open>_ci_rework_feedback\<close> and \<open>_parse_pytest_excerpt\<close> of
  \<open>src/pipeline/ci.py\<close> (a red CI run), and \<open>_merge_ci_rework_feedback\<close> of
  \<open>src/pipeline/advance_merge.py\<close>, which keeps the earlier review feedback in front of them.
\<close>

abbreviation NL :: string where
  "NL \<equiv> [CHR 0x0A]"

subsection \<open>Lines\<close>

text \<open>The characters below 256 at which \<open>str.splitlines\<close> breaks; a carriage return takes a newline with it.\<close>

definition is_break :: "char \<Rightarrow> bool" where
  "is_break c = (of_char c \<in> {10, 11, 12, 13, 28, 29, 30, 133 :: nat})"

function splitlines :: "string \<Rightarrow> string list" where
  "splitlines [] = []"
| "splitlines (c # cs) =
     (if is_break c
      then [] # splitlines (if c = CHR 0x0D \<and> starts_with cs NL then tl cs else cs)
      else (case splitlines cs of [] \<Rightarrow> [[c]] | w # ws \<Rightarrow> (c # w) # ws))"
  by pat_completeness auto
termination by (relation "measure length") auto

subsection \<open>Conflicted files\<close>

text \<open>\<open>_CONFLICT_LINE\<close>: what stands after \<open>CONFLICT (...): Merge conflict in\<close>.\<close>

definition conflict_path :: "string \<Rightarrow> string option" where
  "conflict_path line =
     (if starts_with line ''CONFLICT (''
      then (case partition_at (CHR '')'') (drop 10 line) of (_, found, rest) \<Rightarrow>
              if found \<and> starts_with rest '': Merge conflict in '' \<and> drop 20 rest \<noteq> []
              then Some (drop 20 rest) else None)
      else None)"

definition control_char :: "char \<Rightarrow> bool" where
  "control_char c = ((of_char c :: nat) < 32 \<or> (of_char c :: nat) = 127)"

definition repo_relative :: "string \<Rightarrow> bool" where
  "repo_relative p =
     (p \<noteq> [] \<and> \<not> starts_with p ''/'' \<and> \<not> has_infix ''..'' p \<and> \<not> list_ex control_char p)"

fun collect_files :: "string list \<Rightarrow> string list \<Rightarrow> string list" where
  "collect_files files [] = files"
| "collect_files files (line # lines) =
     (case conflict_path line of
        None \<Rightarrow> collect_files files lines
      | Some raw \<Rightarrow>
          let path = strip raw in
          collect_files (if repo_relative path \<and> path \<notin> set files then files @ [path] else files) lines)"

definition parse_conflict_files :: "string \<Rightarrow> string list" where
  "parse_conflict_files error = collect_files [] (splitlines error)"

lemma collect_files_good:
  "distinct files \<and> list_all repo_relative files \<Longrightarrow>
     distinct (collect_files files ls) \<and> list_all repo_relative (collect_files files ls)"
  by (induction files ls rule: collect_files.induct) (auto split: option.splits simp: Let_def)

subsection \<open>The conflict brief\<close>

definition brief_head :: "string \<Rightarrow> string \<Rightarrow> string \<Rightarrow> string list \<Rightarrow> string" where
  "brief_head attempt max_attempts branch files =
     ''REBASE CONFLICT - attempt '' @ attempt @ ''/'' @ max_attempts @ NL @ NL @
     ''The merge gate could not rebase your branch onto origin/'' @ branch @ '', '' @
     ''so it aborted the rebase and handed the conflict back to you. Resolve it '' @
     ''in your worktree, in this order:'' @ NL @ NL @
     ''1. Run `git fetch origin && git rebase '' @
     ''origin/'' @ branch @ ''` in the worktree.'' @ NL @
     ''2. For each conflicted file, read BOTH sides '' @
     ''(`git log origin/'' @ branch @ '' -3 -- <file>`) and keep the intent of '' @
     ''both: never drop master's change, never revert your own.'' @ NL @
     (if files \<noteq> [] then ''   Conflicted files:'' @ NL
      else ''   No conflicted paths were parsed from git's output - run the '' @
           ''rebase and resolve whatever git reports.'' @ NL)"

definition brief_tail :: string where
  "brief_tail =
     NL @ ''3. `git add` each resolved file, then `git rebase --continue`.'' @ NL @
     ''4. Run the full test suite; it must be green before you finish.'' @ NL @
     ''5. Do NOT `git push` (the merge gate pushes) and do NOT merge master '' @
     ''into the branch.'' @ NL @
     ''6. If a conflict cannot be resolved preserving both intents, end the '' @
     ''turn with a line `REBASE-CONFLICT-UNRESOLVED: <path> :: <why>` and '' @
     ''make no commit.'' @ NL"

definition file_line :: "string \<Rightarrow> string" where
  "file_line path = ''   - '' @ path @ NL"

text \<open>The loop over the files: those that fit, and how many do not.\<close>

fun list_files :: "int \<Rightarrow> int \<Rightarrow> string list \<Rightarrow> string list \<times> nat" where
  "list_files budget used [] = ([], 0)"
| "list_files budget used (path # rest) =
     (let line = file_line path; reserve = (if rest = [] then 0 else 60) in
      if used + int (length line) + reserve > budget then ([], length (path # rest))
      else (case list_files budget (used + int (length line)) rest of
              (listed, overflow) \<Rightarrow> (line # listed, overflow)))"

definition overflow_line :: "nat \<Rightarrow> string" where
  "overflow_line n =
     (if n = 0 then []
      else ''   - ... and '' @ show_nat n @ '' more conflicted files '' @ ''(see git status)'' @ NL)"

definition brief_body :: "string \<Rightarrow> string list \<Rightarrow> string" where
  "brief_body preamble files =
     (case list_files (2000 - int (length preamble) - int (length brief_tail) - 60) 0 files of
        (listed, overflow) \<Rightarrow> concat listed @ overflow_line overflow)"

definition conflict_rework_feedback :: "string \<Rightarrow> string \<Rightarrow> string \<Rightarrow> string \<Rightarrow> string" where
  "conflict_rework_feedback error attempt max_attempts branch =
     (let files = parse_conflict_files error;
          preamble = brief_head attempt max_attempts branch files
      in take 2000 (preamble @ brief_body preamble files @ brief_tail))"

text \<open>\<open>parse_unresolved\<close>: the reason on the last line that starts with the marker.\<close>

definition UNRESOLVED_PREFIX :: string where
  "UNRESOLVED_PREFIX = ''REBASE-CONFLICT-UNRESOLVED:''"

definition parse_unresolved :: "string \<Rightarrow> string option" where
  "parse_unresolved summary =
     (case filter (\<lambda>line. starts_with line UNRESOLVED_PREFIX) (splitlines summary) of
        [] \<Rightarrow> None
      | found \<Rightarrow>
          let cleaned = strip (filter (\<lambda>c. \<not> control_char c) (drop 27 (last found)))
          in if cleaned = [] then None else Some (take 300 cleaned))"

subsection \<open>Bounds\<close>

lemma list_files_fits:
  assumes "list_files budget used files = (listed, overflow)" "used \<le> budget"
  shows "used + int (length (concat listed)) \<le> budget"
  using assms
proof (induction budget used files arbitrary: listed rule: list_files.induct)
  case (2 budget used path rest)
  let ?reserve = "if rest = [] then 0 else 60 :: int"
  show ?case
  proof (cases "used + int (length (file_line path)) + ?reserve > budget")
    case True
    with 2(2,3) show ?thesis by (auto simp: Let_def)
  next
    case False
    with 2(2) obtain l where l: "list_files budget (used + int (length (file_line path))) rest = (l, overflow)"
      "listed = file_line path # l" by (auto simp: Let_def split: prod.splits)
    from False have "used + int (length (file_line path)) \<le> budget" by (auto split: if_splits)
    with 2(1) [OF refl refl False l(1)] l(2) show ?thesis by simp
  qed
qed auto

lemma list_files_prefix:
  "list_files budget used files = (listed, overflow) \<Longrightarrow>
     \<exists>n \<le> length files. listed = map file_line (take n files) \<and> overflow = length files - n"
proof (induction budget used files arbitrary: listed rule: list_files.induct)
  case (2 budget used path rest)
  show ?case
  proof (cases "used + int (length (file_line path)) + (if rest = [] then 0 else 60) > budget")
    case True
    with 2(2) show ?thesis by (intro exI [of _ 0]) (auto simp: Let_def)
  next
    case False
    with 2(2) obtain l where l: "list_files budget (used + int (length (file_line path))) rest = (l, overflow)"
      "listed = file_line path # l" by (auto simp: Let_def split: prod.splits)
    from 2(1) [OF refl refl False l(1)] obtain n where
      "n \<le> length rest" "l = map file_line (take n rest)" "overflow = length rest - n" by blast
    with l(2) show ?thesis by (intro exI [of _ "Suc n"]) auto
  qed
qed auto

lemma length_overflow_line: "n < 10 ^ 7 \<Longrightarrow> length (overflow_line n) \<le> 60"
  using length_show_nat [of n 7] by (simp add: overflow_line_def)

lemma length_brief_tail: "length brief_tail = 366"
  by (simp add: brief_tail_def)

lemma length_brief_head:
  "length (brief_head attempt max_attempts branch files) \<le>
     length attempt + length max_attempts + 3 * length branch + 521"
  by (simp add: brief_head_def)

text \<open>
  A conflict brief never exceeds 2000 characters and never loses a rule: for branch names of at
  most 255 characters it is the preamble, the first conflicted files, a line counting exactly those
  left out, and the complete numbered rules; the files named are distinct repo-relative paths.
\<close>

lemma conflict_brief_keeps_its_rules:
  assumes "length branch \<le> 255" "length attempt + length max_attempts \<le> 200"
    and "length (parse_conflict_files err) < 10 ^ 7"
  shows "\<exists>n \<le> length (parse_conflict_files err).
    conflict_rework_feedback err attempt max_attempts branch =
      brief_head attempt max_attempts branch (parse_conflict_files err) @
      concat (map file_line (take n (parse_conflict_files err))) @
      overflow_line (length (parse_conflict_files err) - n) @ brief_tail \<and>
    length (conflict_rework_feedback err attempt max_attempts branch) \<le> 2000 \<and>
    distinct (parse_conflict_files err) \<and> list_all repo_relative (parse_conflict_files err)"
proof -
  let ?files = "parse_conflict_files err"
  let ?top = "brief_head attempt max_attempts branch ?files"
  let ?budget = "2000 - int (length ?top) - int (length brief_tail) - 60"
  obtain listed overflow where l: "list_files ?budget 0 ?files = (listed, overflow)" by fastforce
  from list_files_prefix [OF l] obtain n where n: "n \<le> length ?files"
    "listed = map file_line (take n ?files)" "overflow = length ?files - n" by blast
  have "0 \<le> ?budget"
    using length_brief_head [of attempt max_attempts branch ?files] length_brief_tail assms(1,2) by linarith
  from list_files_fits [OF l this] have "int (length (concat listed)) \<le> ?budget" by simp
  moreover have "length (overflow_line overflow) \<le> 60"
    using n(3) assms(3) by (intro length_overflow_line) linarith
  ultimately have "length (?top @ brief_body ?top ?files @ brief_tail) \<le> 2000"
    using l by (simp add: brief_body_def)
  moreover have "distinct ?files \<and> list_all repo_relative ?files"
    unfolding parse_conflict_files_def by (rule collect_files_good) simp
  ultimately show ?thesis
    using n l by (intro exI [of _ n]) (simp add: conflict_rework_feedback_def Let_def brief_body_def)
qed

definition two_conflicts :: string where
  "two_conflicts = ''CONFLICT (content): Merge conflict in a.py'' @ NL @
     ''CONFLICT (modify/delete): b.py deleted in HEAD'' @ NL @ ''CONFLICT (add/add): Merge conflict in ../c''"

lemma conflict_brief_keeps_its_rules_witness:
  "parse_conflict_files two_conflicts = [''a.py''] \<and>
   (\<exists>n \<le> 1. conflict_rework_feedback two_conflicts ''1'' ''2'' ''main'' =
      brief_head ''1'' ''2'' ''main'' [''a.py''] @
      concat (map file_line (take n [''a.py''])) @ overflow_line (1 - n) @ brief_tail)"
proof -
  have p: "parse_conflict_files two_conflicts = [''a.py'']" by code_simp
  show ?thesis
    using conflict_brief_keeps_its_rules [of "''main''" "''1''" "''2''" two_conflicts] unfolding p by auto
qed

subsection \<open>The CI brief\<close>

text \<open>Below 256: \<open>\\w\<close>, and the pytest line \<open>_parse_pytest_excerpt\<close> searches for.\<close>

definition is_word :: "char \<Rightarrow> bool" where
  "is_word c = (is_digit c \<or> is_lower c \<or> is_upper c \<or> c = CHR ''_'' \<or>
     (of_char c :: nat) \<in> {170, 178, 179, 181, 185, 186, 188, 189, 190} \<or>
     (192 \<le> (of_char c :: nat) \<and> (of_char c :: nat) \<noteq> 215 \<and> (of_char c :: nat) \<noteq> 247))"

definition is_file_char :: "char \<Rightarrow> bool" where
  "is_file_char c = (is_word c \<or> c \<in> set ''./-'')"

definition is_exc_char :: "char \<Rightarrow> bool" where
  "is_exc_char c = (is_lower c \<or> is_upper c \<or> c = CHR ''_'')"

text \<open>\<open>\\s*(.+)\<close>: white space, given back one character at a time until something is left to match.\<close>

definition assertion_of :: "string \<Rightarrow> string option" where
  "assertion_of s =
     (let rest = lstrip s; blank = dropWhile (\<lambda>c. c = CHR 0x0A) (rev (takeWhile is_space s)) in
      if rest \<noteq> [] then Some (takeWhile (\<lambda>c. c \<noteq> CHR 0x0A) rest)
      else (case blank of [] \<Rightarrow> None | c # _ \<Rightarrow> Some [c]))"

definition excerpt_here :: "string \<Rightarrow> (string \<times> string \<times> string) option" where
  "excerpt_here s =
     (let path = takeWhile is_file_char s; s1 = drop (length path) s in
      if \<not> (4 \<le> length path \<and> ends_with path ''.py'' \<and> starts_with s1 '':'') then None else
      let num = takeWhile is_digit (tl s1); s2 = drop (length num) (tl s1) in
      if \<not> (num \<noteq> [] \<and> starts_with s2 '':'') then None else
      let s3 = lstrip (tl s2); exc = takeWhile is_exc_char s3; s4 = drop (length exc) s3 in
      if \<not> (s3 \<noteq> tl s2 \<and> 6 \<le> length exc \<and> ends_with exc ''Error'' \<and> starts_with s4 '':'') then None else
      map_option (\<lambda>a. (path, num, a)) (assertion_of (tl s4)))"

fun search_excerpt :: "string \<Rightarrow> (string \<times> string \<times> string) option" where
  "search_excerpt [] = None"
| "search_excerpt (c # cs) = (case excerpt_here (c # cs) of Some r \<Rightarrow> Some r | None \<Rightarrow> search_excerpt cs)"

definition parse_pytest_excerpt :: "string \<Rightarrow> string option" where
  "parse_pytest_excerpt gate_error =
     (case search_excerpt gate_error of
        None \<Rightarrow> None
      | Some (path, line, assertion) \<Rightarrow> Some (''On '' @ path @ '':'' @ line @ '', '' @ assertion @ '' fails''))"

definition CI_FEEDBACK_MARKER :: string where
  "CI_FEEDBACK_MARKER = ''The merge-gate CI check failed on your submitted branch''"

definition ci_base :: "string \<Rightarrow> string" where
  "ci_base gate_error =
     CI_FEEDBACK_MARKER @ '' Gate error: '' @ gate_error @ NL @ NL @
     (if list_ex (\<lambda>k. has_infix k (map char_lower gate_error))
           [''lint'', ''ruff'', ''eslint'', ''clippy'', ''golangci'']
      then ''This is a LINT failure, not a test failure - the test suite may already pass, so re-running tests alone proves nothing. Run the project's lint command (e.g. `ruff check .` for Python) from the repo root, fix every finding, and commit.''
      else ''The bug could be in the implementation OR in a test file you wrote; re-examine both against the spec and make a targeted fix.'') @
     NL @ NL @
     ''A NEW COMMIT on your branch is REQUIRED - CI runs on your pushed commits, and exiting without committing a change cannot alter the CI result.''"

text \<open>The counter is a number of the manifest; \<open>render\<close> prints it.\<close>

fun minus_one :: "pyval \<Rightarrow> pyval" where
  "minus_one (PInt i) = PInt (i - 1)"
| "minus_one (PFloat (Fin q)) = PFloat (Fin (q - 1))"
| "minus_one v = v"

definition ci_rework_feedback :: "(pyval \<Rightarrow> string) \<Rightarrow> string \<Rightarrow> pyval \<Rightarrow> string" where
  "ci_rework_feedback render gate_error attempts =
     (if (case num_of attempts of Some x \<Rightarrow> num_lt x (Fin 2) | None \<Rightarrow> False) then ci_base gate_error
      else ''PREVIOUS REWORK ATTEMPT '' @ render (minus_one attempts) @ '' DID NOT FIX THIS. '' @
        ci_base gate_error @
        (case parse_pytest_excerpt gate_error of
           None \<Rightarrow> []
         | Some excerpt \<Rightarrow> NL @ NL @ excerpt @ NL @ ''Do not call done until the full suite passes.''))"

subsection \<open>Keeping the earlier feedback\<close>

fun find_in :: "string \<Rightarrow> string \<Rightarrow> nat option" where
  "find_in p [] = (if p = [] then Some 0 else None)"
| "find_in p (c # cs) = (if starts_with (c # cs) p then Some 0 else map_option Suc (find_in p cs))"

definition PRIOR_FEEDBACK_HEADER :: string where
  "PRIOR_FEEDBACK_HEADER = ''Earlier review feedback on this branch (still relevant - address it too):''"

definition merge_ci_rework_feedback :: "string \<Rightarrow> string \<Rightarrow> string" where
  "merge_ci_rework_feedback prior ci_feedback =
     (let prior = strip prior in
      if prior = [] then ci_feedback else
      let prior = (case find_in CI_FEEDBACK_MARKER prior of Some i \<Rightarrow> rstrip (take i prior) | None \<Rightarrow> prior);
          prior = (if starts_with prior PRIOR_FEEDBACK_HEADER
                   then strip (drop (length PRIOR_FEEDBACK_HEADER) prior) else prior)
      in if prior = [] then ci_feedback
         else PRIOR_FEEDBACK_HEADER @ NL @ prior @ NL @ NL @ ci_feedback)"

lemma merge_feedback_keeps_brief: "ends_with (merge_ci_rework_feedback prior brief) brief"
  using ends_with_append [of "[]" brief] ends_with_append [of "PRIOR_FEEDBACK_HEADER @ NL @ _ @ NL @ NL" brief]
  by (simp add: merge_ci_rework_feedback_def Let_def)

text \<open>
  From the second round on the brief begins with its round number and not with the marker, so the
  next round keeps that line as if a reviewer had written it.
\<close>

definition shown_int :: "pyval \<Rightarrow> string" where
  "shown_int v = (case v of PInt i \<Rightarrow> show_nat (nat i) | _ \<Rightarrow> [])"

lemma later_ci_rounds_stack:
  "merge_ci_rework_feedback
       (merge_ci_rework_feedback [] (ci_rework_feedback shown_int ''ci fail: t'' (PInt 2)))
       (ci_rework_feedback shown_int ''ci fail: t'' (PInt 3)) =
     PRIOR_FEEDBACK_HEADER @ NL @ ''PREVIOUS REWORK ATTEMPT 1 DID NOT FIX THIS.'' @ NL @ NL @
     ci_rework_feedback shown_int ''ci fail: t'' (PInt 3)"
  by code_simp

lemma first_ci_rounds_do_not_stack:
  "merge_ci_rework_feedback
       (merge_ci_rework_feedback ''fix x'' (ci_rework_feedback shown_int ''ci fail: t'' (PInt 1)))
       (ci_rework_feedback shown_int ''ci fail: t'' (PInt 2)) =
     merge_ci_rework_feedback ''fix x'' (ci_rework_feedback shown_int ''ci fail: t'' (PInt 2))"
  by code_simp

end
