(* ===== verification/CiGate.thy ===== *)
theory CiGate
  imports ReworkBrief "HOL-Library.Char_ord" "HOL-Library.List_Lexorder"
begin

text \<open>
  What the merge gate asks before it lands a branch, from \<open>src/pipeline/ci.py\<close>: the state of the CI
  checks (one poll, and the blocking poller of a human's merge), the bound on waiting for pending
  checks, the check that nobody rewrote the acceptance fixtures, and the re-run of the tests and the
  build in the rebased worktree.  The code host, git, the file system, SHA-256 and the commands run
  are parameters.
\<close>

subsection \<open>The state of the checks\<close>

definition PASS :: string where "PASS = ''pass''"
definition FAIL :: string where "FAIL = ''fail''"
definition PENDING :: string where "PENDING = ''pending''"
definition CANCELLED :: string where "CANCELLED = ''cancelled''"
definition UNREADABLE :: string where "UNREADABLE = ''unreadable''"
definition NONE :: string where "NONE = ''none''"

lemmas ci_states = PASS_def FAIL_def PENDING_def CANCELLED_def UNREADABLE_def NONE_def

record ci_result =
  ci_state :: string
  ci_error :: string

definition ci :: "string \<Rightarrow> string \<Rightarrow> ci_result" where
  "ci s e = \<lparr>ci_state = s, ci_error = e\<rparr>"

lemma ci_simps [simp]: "ci_state (ci s e) = s" "ci_error (ci s e) = e"
  by (simp_all add: ci_def)

definition ci_val :: "ci_result \<Rightarrow> pyval" where
  "ci_val r = PDict [(''state'', PStr (ci_state r)), (''error'', PStr (ci_error r))]"

definition aggregate_ci_states :: "(string \<times> string) list \<Rightarrow> string" where
  "aggregate_ci_states snapshot =
     (let states = set (map snd snapshot) in
      if FAIL \<in> states then FAIL
      else if CANCELLED \<in> states then CANCELLED
      else if PENDING \<in> states then PENDING
      else if states = {PASS} then PASS
      else UNREADABLE)"

text \<open>One answer of the code host: unreadable with a reason, or check names with states and a detail.\<close>

datatype checks = NotReadable string | Checks "(string \<times> string) list" string

record code_host =
  checks_snapshot :: "string \<Rightarrow> string \<Rightarrow> checks"
  ci_configured :: bool
  failure_excerpt :: "string \<Rightarrow> string option"

definition ci_status_once :: "bool \<Rightarrow> code_host \<Rightarrow> string \<Rightarrow> string \<Rightarrow> ci_result" where
  "ci_status_once gate host branch sha =
     (if \<not> gate then ci PASS ''CI gate disabled'' else
      case checks_snapshot host branch sha of
        NotReadable why \<Rightarrow> if \<not> ci_configured host then ci NONE why else ci UNREADABLE why
      | Checks snapshot detail \<Rightarrow>
          if snapshot = [] then (if \<not> ci_configured host then ci NONE [] else ci PENDING [])
          else
            let state = aggregate_ci_states snapshot; detail = take 300 detail in
            if state = FAIL
            then (case failure_excerpt host branch of
                    Some excerpt \<Rightarrow>
                      ci FAIL (if excerpt = [] then detail else detail @ NL @ NL @ excerpt)
                  | None \<Rightarrow> ci FAIL detail)
            else if state = CANCELLED then ci CANCELLED detail
            else if state = UNREADABLE then ci UNREADABLE ''unrecognised CI state''
            else ci state [])"

text \<open>
  The poller: each round reads the clock and polls once; the answer comes with the reruns asked for.
  None while the rounds given do not end it.
\<close>

fun ci_rounds :: "rat \<Rightarrow> bool \<Rightarrow> nat \<Rightarrow> (rat \<times> ci_result) list \<Rightarrow> (ci_result \<times> nat) option" where
  "ci_rounds deadline rerun_done reruns [] = None"
| "ci_rounds deadline rerun_done reruns ((now, result) # rest) =
     (if \<not> now < deadline then Some (ci PENDING ''CI did not complete within timeout'', reruns)
      else if ci_state result \<in> {PASS, FAIL, NONE, UNREADABLE} then Some (result, reruns)
      else if ci_state result = CANCELLED then
        (if rerun_done then Some (result, reruns) else ci_rounds deadline True (Suc reruns) rest)
      else ci_rounds deadline rerun_done reruns rest)"

definition ci_status :: "bool \<Rightarrow> rat \<Rightarrow> rat \<Rightarrow> (rat \<times> ci_result) list \<Rightarrow> (ci_result \<times> nat) option" where
  "ci_status gate start timeout rounds =
     (if \<not> gate then Some (ci PASS ''CI gate disabled'', 0)
      else ci_rounds (start + timeout) False 0 rounds)"

lemma ci_rounds_reruns:
  "ci_rounds deadline done n rounds = Some (r, m) \<Longrightarrow> m \<le> (if done then n else Suc n)"
  by (induction deadline "done" n rounds rule: ci_rounds.induct) (auto split: if_splits)

lemma ci_rounds_ends:
  "(now, r) \<in> set rounds \<Longrightarrow> deadline \<le> now \<Longrightarrow> \<exists>x. ci_rounds deadline done n rounds = Some x"
proof (induction rounds arbitrary: "done" n)
  case (Cons round rest)
  show ?case
  proof (cases "(now, r) = round")
    case True
    with Cons.prems(2) show ?thesis by (cases round) auto
  next
    case False
    with Cons.prems have "(now, r) \<in> set rest" by auto
    from Cons.IH [OF this Cons.prems(2)]
    have "\<exists>a b. ci_rounds deadline d m rest = Some (a, b)" for d m by auto
    then show ?thesis by (cases round) simp
  qed
qed simp

text \<open>\<open>_ci_pending_expired\<close>; \<open>instant\<close> reads an ISO time, None where that raises.\<close>

definition ci_pending_expired :: "(string \<Rightarrow> rat option) \<Rightarrow> rat \<Rightarrow> int \<Rightarrow> int \<Rightarrow> pyval \<Rightarrow> bool" where
  "ci_pending_expired instant now max_attempts timeout v =
     (case v of
        PStr s \<Rightarrow> (case instant s of Some since \<Rightarrow> of_int (max_attempts * timeout) \<le> now - since | None \<Rightarrow> False)
      | _ \<Rightarrow> False)"

lemma aggregate_pass: "aggregate_ci_states s = PASS \<longleftrightarrow> s \<noteq> [] \<and> list_all (\<lambda>x. snd x = PASS) s"
proof -
  have "set (map snd s) = {PASS} \<longleftrightarrow> s \<noteq> [] \<and> list_all (\<lambda>x. snd x = PASS) s"
    by (cases s) (auto simp: list_all_iff)
  then show ?thesis by (auto simp: aggregate_ci_states_def Let_def ci_states list_all_iff)
qed

lemma aggregate_range: "aggregate_ci_states s \<in> {FAIL, CANCELLED, PENDING, PASS, UNREADABLE}"
  by (simp add: aggregate_ci_states_def Let_def)

text \<open>The states a merge is stopped on; every other one lets it go on.\<close>

definition blocking_state :: "string \<Rightarrow> bool" where
  "blocking_state s = (s \<in> {FAIL, CANCELLED, UNREADABLE, PENDING})"

text \<open>
  C28: With the CI gate on, a poll lets a merge go on in exactly two cases: the repository declares no
  CI and the host reported no checks or could not be read, or the host reported at least one check
  and every check of it passed.
\<close>

theorem ci_never_passes_vacuously:
  shows "blocking_state (ci_state (ci_status_once True host branch sha)) \<longleftrightarrow>
    \<not> (case checks_snapshot host branch sha of
         NotReadable why \<Rightarrow> \<not> ci_configured host
       | Checks s d \<Rightarrow> if s = [] then \<not> ci_configured host else list_all (\<lambda>x. snd x = PASS) s)"
proof (cases "checks_snapshot host branch sha")
  case (NotReadable why)
  then show ?thesis by (simp add: ci_status_once_def blocking_state_def ci_states)
next
  case (Checks s d)
  show ?thesis
  proof (cases "s = []")
    case True
    with Checks show ?thesis by (simp add: ci_status_once_def blocking_state_def ci_states)
  next
    case False
    from aggregate_range [of s] show ?thesis
      using Checks False aggregate_pass [of s]
      by (auto simp: ci_status_once_def blocking_state_def Let_def split: option.splits)
         (auto simp: ci_states)
  qed
qed

subsection \<open>The acceptance fixtures\<close>

datatype gate_exn = GateKeyError | GateTypeError | GateAttributeError | GateRaised string

record checkout =
  co_env :: env
  co_now :: string
  co_dirs :: "string \<Rightarrow> bool"
  co_join :: "string \<Rightarrow> string \<Rightarrow> string"
  co_file :: "string \<Rightarrow> string \<Rightarrow> string option"
  co_sha256 :: "string \<Rightarrow> string"
  co_utf8 :: "string \<Rightarrow> string"
  co_test_command :: "string \<Rightarrow> string \<times> string list"
  co_scope :: "string list \<Rightarrow> string list \<Rightarrow> string \<Rightarrow> string list option"
  co_is_pytest :: "string list \<Rightarrow> bool"
  co_own_tests :: "string \<Rightarrow> string \<Rightarrow> string list"
  co_head :: "string \<Rightarrow> string option"
  co_run :: "string list \<Rightarrow> string \<Rightarrow> int \<times> string \<times> string"
  co_build_gate :: bool
  co_build_command :: "string \<Rightarrow> (string \<times> string list) option"

text \<open>\<open>Path(v).is_dir()\<close>: the empty path is the current directory, and only a string makes a path.\<close>

definition path_is_dir :: "(string \<Rightarrow> bool) \<Rightarrow> pyval \<Rightarrow> gate_exn + bool" where
  "path_is_dir dirs v = (case v of PStr p \<Rightarrow> Inr (p = [] \<or> dirs p) | _ \<Rightarrow> Inl GateTypeError)"

text \<open>The entries of \<open>story.get("acceptance") or []\<close> with their paths.\<close>

definition entry_of :: "pyval \<Rightarrow> gate_exn + (pyval \<times> pyval)" where
  "entry_of v =
     (case v of
        PDict e \<Rightarrow> (case dget e ''path'' of None \<Rightarrow> Inl GateKeyError
                     | Some path \<Rightarrow> Inr (path, if truthy (dgetN e ''source'') then dgetN e ''source'' else PStr []))
      | _ \<Rightarrow> Inl GateTypeError)"

definition acceptance_entries :: "pydict \<Rightarrow> gate_exn + (pyval \<times> pyval) list" where
  "acceptance_entries story =
     (let v = dgetN story ''acceptance'' in
      if \<not> truthy v then Inr [] else with_list v GateTypeError (mapE entry_of))"

definition acceptance_sources :: "pydict \<Rightarrow> gate_exn + pydict" where
  "acceptance_sources story =
     bindE (acceptance_entries story) (\<lambda>entries.
     foldE (\<lambda>(path, source) d.
         if \<not> hashable path then Inl GateTypeError
         else Inr (case path of PStr p \<Rightarrow> dset p source d | _ \<Rightarrow> d))
       entries [])"

definition fixture_tampered ::
  "checkout \<Rightarrow> string \<Rightarrow> bool \<Rightarrow> pydict \<Rightarrow> string \<times> pyval \<Rightarrow> gate_exn + bool" where
  "fixture_tampered w worktree tdd_split sources d =
     (case co_file w worktree (fst d) of
        None \<Rightarrow> Inr True
      | Some content \<Rightarrow>
          if snd d = PStr (co_sha256 w content) then Inr False
          else if tdd_split then Inr True
          else (let original = (case dget sources (fst d) of Some v \<Rightarrow> v | None \<Rightarrow> PStr []) in
            if \<not> truthy original then Inr True
            else (case original of
                    PStr source \<Rightarrow> Inr (\<not> starts_with content (co_utf8 w source))
                  | _ \<Rightarrow> Inl GateAttributeError)))"

definition acceptance_tampered :: "checkout \<Rightarrow> pydict \<Rightarrow> string \<Rightarrow> gate_exn + string list" where
  "acceptance_tampered w story worktree =
     (let digests = dgetN story ''acceptance_digests'' in
      if \<not> truthy digests then Inr []
      else
        bindE (acceptance_sources story) (\<lambda>sources.
        with_dict digests GateAttributeError (\<lambda>ds.
        bindE (mapE (\<lambda>d. bindE (fixture_tampered w worktree (truthy (dgetN story ''tdd_split'')) sources d)
                 (\<lambda>b. Inr (fst d, b))) ds) (\<lambda>checked.
        Inr (sort (map fst (filter snd checked)))))))"

subsection \<open>Tests and build in the rebased worktree\<close>

definition last_chars :: "nat \<Rightarrow> string \<Rightarrow> string" where
  "last_chars n s = drop (length s - n) s"

fun join_with :: "string \<Rightarrow> string list \<Rightarrow> string" where
  "join_with sep [] = []"
| "join_with sep [s] = s"
| "join_with sep (s # t # ss) = s @ sep @ join_with sep (t # ss)"

definition graded_by :: "int \<times> string \<times> string \<Rightarrow> ci_result" where
  "graded_by r = (case r of (code, out, err) \<Rightarrow>
     if code = 0 then ci PASS [] else ci FAIL (last_chars 500 (strip (out @ err))))"

definition test_record ::
  "checkout \<Rightarrow> string list \<Rightarrow> string \<Rightarrow> int \<times> string \<times> string \<Rightarrow> string option \<Rightarrow> pyval" where
  "test_record w cmd cwd r sha = (case r of (code, out, err) \<Rightarrow> PDict
     [(''cmd'', PList (map PStr cmd)), (''cwd'', PStr cwd), (''returncode'', PInt code),
      (''stdout_tail'', PStr (last_chars 2000 out)), (''stderr_tail'', PStr (last_chars 2000 err)),
      (''ts'', PStr (co_now w)), (''sha'', case sha of Some h \<Rightarrow> PStr h | None \<Rightarrow> PNone)])"

text \<open>The command to run; None when there is no fixture and the operator did not ask for the suite.\<close>

definition reverify_command ::
  "checkout \<Rightarrow> pydict \<Rightarrow> string \<Rightarrow> string \<Rightarrow> gate_exn + (string \<times> string list) option" where
  "reverify_command w story worktree key =
     (case co_test_command w worktree of (cwd, cmd) \<Rightarrow>
      bindE (acceptance_entries story) (\<lambda>entries.
      if truthy (dgetN story ''acceptance'') then
        bindE (mapE (\<lambda>(path, _). with_str path GateTypeError (\<lambda>p. Inr (co_join w worktree p))) entries) (\<lambda>paths.
        Inr (Some (cwd, case co_scope w cmd paths cwd of Some scoped \<Rightarrow> scoped | None \<Rightarrow> cmd)))
      else if (case dget (co_env w) ''PIPELINE_REVERIFY_FULL_SUITE'' of Some v \<Rightarrow> v | None \<Rightarrow> ''0'') = ''0''
      then Inr None
      else Inr (Some (cwd, if key \<noteq> [] \<and> co_is_pytest w cmd
                           then cmd @ map (co_join w worktree) (co_own_tests w worktree key) else cmd))))"

definition reverify_acceptance ::
  "checkout \<Rightarrow> pydict \<Rightarrow> pyval \<Rightarrow> string \<Rightarrow> gate_exn + (ci_result \<times> pydict)" where
  "reverify_acceptance w story worktree key =
     (if \<not> truthy worktree then Inr (ci NONE [], story)
      else with_str worktree GateTypeError (\<lambda>wt.
        if \<not> co_dirs w wt then Inr (ci NONE [], story)
        else bindE (acceptance_tampered w story wt) (\<lambda>tampered.
          if tampered \<noteq> []
          then Inr (ci FAIL (''acceptance fixture modified since dispatch: '' @ join_with '', '' tampered), story)
          else bindE (reverify_command w story wt key) (\<lambda>command.
            case command of
              None \<Rightarrow> Inr (ci NONE [], story)
            | Some (cwd, cmd) \<Rightarrow>
                let r = co_run w cmd cwd
                in Inr (graded_by r, dset ''last_test_check'' (test_record w cmd cwd r (co_head w wt)) story)))))"

definition reverify_build :: "checkout \<Rightarrow> pyval \<Rightarrow> gate_exn + ci_result" where
  "reverify_build w worktree =
     (if \<not> co_build_gate w then Inr (ci NONE ''build gate disabled'')
      else if \<not> truthy worktree then Inr (ci NONE [])
      else with_str worktree GateTypeError (\<lambda>wt.
        if \<not> co_dirs w wt then Inr (ci NONE [])
        else (case co_build_command w wt of
                None \<Rightarrow> Inr (ci NONE [])
              | Some (cwd, cmd) \<Rightarrow> Inr (graded_by (co_run w cmd cwd)))))"

text \<open>What the gate accepts of a fixture: the recorded digest, or, outside a TDD split, the source with an appendix.\<close>

definition fixture_kept :: "checkout \<Rightarrow> pydict \<Rightarrow> string \<Rightarrow> string \<times> pyval \<Rightarrow> bool" where
  "fixture_kept w story wt d =
     (case co_file w wt (fst d) of
        None \<Rightarrow> False
      | Some content \<Rightarrow>
          snd d = PStr (co_sha256 w content) \<or>
          (\<not> truthy (dgetN story ''tdd_split'') \<and>
           (case acceptance_sources story of
              Inr sources \<Rightarrow>
                (case dget sources (fst d) of
                   Some (PStr source) \<Rightarrow> source \<noteq> [] \<and> starts_with content (co_utf8 w source)
                 | _ \<Rightarrow> False)
            | Inl _ \<Rightarrow> False)))"

lemma untampered_kept:
  assumes "acceptance_tampered w story wt = Inr []" "truthy (dgetN story ''acceptance_digests'')"
    "dgetN story ''acceptance_digests'' = PDict ds" "d \<in> set ds"
  shows "fixture_kept w story wt d"
proof -
  let ?check = "\<lambda>sources d. fixture_tampered w wt (truthy (dgetN story ''tdd_split'')) sources d"
  have nil: "sort (xs :: string list) = [] \<longleftrightarrow> xs = []" for xs
    by (metis set_empty set_sort)
  from assms(1,2) obtain sources checked where
    src: "acceptance_sources story = Inr sources" and
    chk: "mapE (\<lambda>d. bindE (?check sources d) (\<lambda>b. Inr (fst d, b))) ds = Inr checked" and
    none: "filter snd checked = []"
    unfolding acceptance_tampered_def Let_def assms(3) by (simp add: bindE_Inr_iff nil) blast
  from mapE_in [OF chk assms(4)] none have "?check sources d = Inr False"
    by (auto simp: bindE_Inr_iff filter_empty_conv)
  then show ?thesis
    using src unfolding fixture_tampered_def fixture_kept_def
    by (auto split: option.splits if_splits pyval.splits simp: Let_def)
qed

text \<open>
  The pre-merge re-run lets no rewritten test fixture through: in an existing worktree it answers
  without failing only if every fixture recorded at dispatch is still there with its digest, or, outside
  a TDD split, begins with its whole original source.
\<close>

lemma rewritten_fixtures_fail:
  assumes "reverify_acceptance w story (PStr wt) key = Inr (result, story')"
    and "wt \<noteq> []" "co_dirs w wt" "ci_state result \<noteq> FAIL"
    and "dgetN story ''acceptance_digests'' = PDict digests" "d \<in> set digests"
  shows "fixture_kept w story wt d"
proof -
  from assms(1-4) have "acceptance_tampered w story wt = Inr []"
    by (auto simp: reverify_acceptance_def bindE_Inr_iff split: if_splits)
  moreover from assms(5,6) have "truthy (dgetN story ''acceptance_digests'')" by (cases digests) auto
  ultimately show ?thesis using assms(5,6) by (rule untampered_kept)
qed

definition demo_checkout :: checkout where
  "demo_checkout =
     \<lparr>co_env = [], co_now = ''t'', co_dirs = (\<lambda>p. p = ''/w''), co_join = (\<lambda>a b. a @ ''/'' @ b),
      co_file = (\<lambda>wt p. if p = ''t.py'' then Some ''assert a; more'' else None),
      co_sha256 = (\<lambda>s. ''digest of '' @ s), co_utf8 = (\<lambda>s. s),
      co_test_command = (\<lambda>wt. (wt, [''pytest''])), co_scope = (\<lambda>cmd paths cwd. Some (cmd @ paths)),
      co_is_pytest = (\<lambda>cmd. True), co_own_tests = (\<lambda>wt key. []), co_head = (\<lambda>wt. Some ''c0ffee''),
      co_run = (\<lambda>cmd cwd. (0, ''ok'', [])), co_build_gate = True, co_build_command = (\<lambda>wt. None)\<rparr>"

definition demo_graded :: pydict where
  "demo_graded =
     [(''acceptance'', PList [PDict [(''path'', PStr ''t.py''), (''source'', PStr ''assert a'')]]),
      (''acceptance_digests'', PDict [(''t.py'', PStr ''digest of assert a'')])]"

lemma rewritten_fixtures_fail_witness:
  "fixture_kept demo_checkout demo_graded ''/w'' (''t.py'', PStr ''digest of assert a'')"
proof -
  obtain story' where "reverify_acceptance demo_checkout demo_graded (PStr ''/w'') ''s1'' = Inr (ci PASS [], story')"
  proof -
    have "(case reverify_acceptance demo_checkout demo_graded (PStr ''/w'') ''s1'' of
             Inr (r, s) \<Rightarrow> ci_state r = ''pass'' \<and> ci_error r = [] | _ \<Rightarrow> False)" by code_simp
    with that show thesis by (auto simp: ci_def PASS_def split: sum.splits)
  qed
  from rewritten_fixtures_fail [OF this, of "[(''t.py'', PStr ''digest of assert a'')]"] show ?thesis
    by (simp add: demo_checkout_def demo_graded_def ci_states dgetN_def)
qed

lemma appended_fixture_passes_and_rewritten_fails:
  "map (\<lambda>w. case reverify_acceptance w demo_graded (PStr ''/w'') ''s1'' of Inr (r, s) \<Rightarrow> ci_state r | _ \<Rightarrow> [])
     [demo_checkout, demo_checkout\<lparr>co_file := \<lambda>wt p. Some ''assert b''\<rparr>,
      demo_checkout\<lparr>co_file := \<lambda>wt p. None\<rparr>] = [''pass'', ''fail'', ''fail'']"
  by code_simp

end
