(* ===== verification/Identity.thy ===== *)
theory Identity
  imports PyPrelude
begin

text \<open>
  Who is asking: \<open>src/app/identity.py\<close> (principals, the rules of their construction, the
  shared-secret provider) and \<open>src/pipeline/actor.py\<close> (the principal and correlation id bound
  for one request).  A principal is a record of the data class' fields; \<open>mk_principal\<close> is its
  constructor with the checks of \<open>__post_init__\<close>.  The context variables are the record
  \<open>bound_request\<close>, and a \<open>with bind_...\<close> block is a function run under the changed record.
\<close>

subsection \<open>Principals\<close>

definition ROLES :: "string list" where
  "ROLES = [''author'', ''owner'', ''approver'', ''delegate'', ''admin'']"

definition PRINCIPAL_TYPES :: "string list" where
  "PRINCIPAL_TYPES = [''human'', ''agent'', ''system'']"

record principal =
  subject :: string
  roles :: "string list"
  scopes :: "string list"
  email :: string
  auth_method :: string
  correlation_id :: string
  principal_type :: string
  client_id :: string
  team_scope :: string

datatype identity_error =
    BadPrincipalType | BadTeamScope | TeamScopeNotAgent | BadSubject | BadRole | BadScope
  | MissingCredential | BadCredential

text \<open>\<open>[a-z0-9][a-z0-9._-]*\<close>\<close>

definition scope_segment :: "string \<Rightarrow> bool" where
  "scope_segment s =
     (case s of
        [] \<Rightarrow> False
      | c # cs \<Rightarrow> (is_lower c \<or> is_digit c) \<and>
          list_all (\<lambda>x. is_lower x \<or> is_digit x \<or> x \<in> set ''._-'') cs)"

text \<open>\<open>TEAM_SCOPE_PATTERN.fullmatch\<close>: two segments around the one slash.\<close>

definition team_scope_pattern :: "string \<Rightarrow> bool" where
  "team_scope_pattern s =
     (case partition_at CHR ''/'' s of
        (org, found, team) \<Rightarrow> found \<and> scope_segment org \<and> scope_segment team)"

definition mk_principal :: "principal \<Rightarrow> identity_error + principal" where
  "mk_principal p =
     bindE (guardE (principal_type p \<in> set PRINCIPAL_TYPES) BadPrincipalType) (\<lambda>_.
     bindE (if principal_type p = ''agent''
            then guardE (team_scope_pattern (team_scope p)) BadTeamScope
            else guardE (team_scope p = []) TeamScopeNotAgent) (\<lambda>_.
     bindE (guardE (strip (subject p) \<noteq> []) BadSubject) (\<lambda>_.
     bindE (guardE (list_all (\<lambda>r. r \<in> set ROLES) (roles p)) BadRole) (\<lambda>_.
     bindE (guardE (list_all (\<lambda>s. s \<noteq> []) (scopes p)) BadScope) (\<lambda>_.
     Inr p)))))"

text \<open>\<open>Principal(subject=..., auth_method=...)\<close> with the other fields at their defaults.\<close>

definition default_principal :: "string \<Rightarrow> string \<Rightarrow> principal" where
  "default_principal sub auth =
     \<lparr>subject = sub, roles = [], scopes = [], email = [], auth_method = auth,
      correlation_id = [], principal_type = ''human'', client_id = [], team_scope = []\<rparr>"

definition LOCAL_OPERATOR :: principal where
  "LOCAL_OPERATOR =
     default_principal ''local-operator'' ''shared-secret''\<lparr>roles := ROLES, scopes := [''*'']\<rparr>"

definition SYSTEM_SUBJECT_PREFIX :: string where
  "SYSTEM_SUBJECT_PREFIX = ''system:''"

definition SYSTEM_AUTH_METHOD :: string where
  "SYSTEM_AUTH_METHOD = ''system''"

definition SYSTEM_SCHEDULER :: principal where
  "SYSTEM_SCHEDULER =
     default_principal ''system:scheduler'' SYSTEM_AUTH_METHOD\<lparr>principal_type := ''system''\<rparr>"

definition SYSTEM_WORKER :: principal where
  "SYSTEM_WORKER =
     default_principal ''system:worker'' SYSTEM_AUTH_METHOD\<lparr>principal_type := ''system''\<rparr>"

text \<open>The facts every constructed principal has.\<close>

definition principal_ok :: "principal \<Rightarrow> bool" where
  "principal_ok p =
     (principal_type p \<in> set PRINCIPAL_TYPES \<and>
      (if principal_type p = ''agent'' then team_scope_pattern (team_scope p)
       else team_scope p = []) \<and>
      strip (subject p) \<noteq> [] \<and> set (roles p) \<subseteq> set ROLES \<and> [] \<notin> set (scopes p))"

lemma mk_principal_iff: "mk_principal p = Inr q \<longleftrightarrow> q = p \<and> principal_ok p"
  unfolding mk_principal_def principal_ok_def
  by (cases "principal_type p = ''agent''")
     (auto simp: bindE_Inr_iff list_all_iff)

lemma scope_segment_no_slash: "scope_segment s \<Longrightarrow> CHR ''/'' \<notin> set s"
  by (auto simp: scope_segment_def list_all_iff is_lower_def is_digit_def split: list.splits)

subsection \<open>The shared-secret provider\<close>

text \<open>
  \<open>expected\<close> is what the configured value or callable yields: anything, so a value of
  Python.  Comparing the UTF-8 encodings is comparing the strings.
\<close>

definition authenticate :: "pyval \<Rightarrow> string option \<Rightarrow> identity_error + principal" where
  "authenticate expected credential =
     (case credential of
        None \<Rightarrow> Inl MissingCredential
      | Some c \<Rightarrow>
          if c = [] then Inl MissingCredential
          else with_str expected BadCredential (\<lambda>e.
            bindE (guardE (e \<noteq> []) BadCredential) (\<lambda>_.
            bindE (guardE (c = e) BadCredential) (\<lambda>_. Inr LOCAL_OPERATOR))))"

lemma authenticate_iff:
  "authenticate expected credential = Inr p \<longleftrightarrow>
     p = LOCAL_OPERATOR \<and> (\<exists>c. credential = Some c \<and> c \<noteq> [] \<and> expected = PStr c)"
  by (cases credential) (auto simp: authenticate_def bindE_Inr_iff with_Inr_iff)

subsection \<open>The request context\<close>

definition ANONYMOUS :: principal where
  "ANONYMOUS = default_principal ''anonymous'' ''none''"

record bound_request =
  bound :: "principal option"
  correlation :: "string option"

definition no_request :: bound_request where
  "no_request = \<lparr>bound = None, correlation = None\<rparr>"

definition bind_principal :: "principal \<Rightarrow> (bound_request \<Rightarrow> 'a) \<Rightarrow> bound_request \<Rightarrow> 'a" where
  "bind_principal p body rq = body (rq\<lparr>bound := Some p\<rparr>)"

definition current_principal :: "bound_request \<Rightarrow> principal" where
  "current_principal rq = (case bound rq of Some p \<Rightarrow> p | None \<Rightarrow> LOCAL_OPERATOR)"

definition actor_id :: "bound_request \<Rightarrow> string" where
  "actor_id rq = subject (current_principal rq)"

definition actor_type :: "bound_request \<Rightarrow> string" where
  "actor_type rq = principal_type (current_principal rq)"

definition actor_client :: "bound_request \<Rightarrow> string" where
  "actor_client rq = client_id (current_principal rq)"

definition correlation_char :: "char \<Rightarrow> bool" where
  "correlation_char c = (is_lower c \<or> is_upper c \<or> is_digit c \<or> c \<in> set ''._-'')"

definition correlation_id_ok :: "string \<Rightarrow> bool" where
  "correlation_id_ok s = (1 \<le> length s \<and> length s \<le> 64 \<and> list_all correlation_char s)"

text \<open>\<open>fresh\<close> is the id \<open>new_correlation_id\<close> mints.\<close>

definition request_correlation_id :: "string \<Rightarrow> string option \<Rightarrow> string" where
  "request_correlation_id fresh candidate =
     (case candidate of
        Some c \<Rightarrow> if c \<noteq> [] \<and> correlation_id_ok c then c else fresh
      | None \<Rightarrow> fresh)"

definition bind_correlation_id :: "string \<Rightarrow> (bound_request \<Rightarrow> 'a) \<Rightarrow> bound_request \<Rightarrow> 'a" where
  "bind_correlation_id v body rq = body (rq\<lparr>correlation := Some v\<rparr>)"

definition current_correlation_id :: "bound_request \<Rightarrow> string" where
  "current_correlation_id rq = (case correlation rq of Some v \<Rightarrow> v | None \<Rightarrow> [])"

lemma current_principal_bound [simp]:
  "current_principal (rq\<lparr>bound := Some p\<rparr>) = p"
  by (simp add: current_principal_def)

text \<open>The reserved principals pass their own constructor and are told apart by subject.\<close>

lemma reserved_principals_ok:
  "mk_principal LOCAL_OPERATOR = Inr LOCAL_OPERATOR"
  "mk_principal SYSTEM_SCHEDULER = Inr SYSTEM_SCHEDULER"
  "mk_principal SYSTEM_WORKER = Inr SYSTEM_WORKER"
  "mk_principal ANONYMOUS = Inr ANONYMOUS"
  by code_simp+

lemma subject_simps [simp]:
  "subject LOCAL_OPERATOR = ''local-operator''"
  "subject SYSTEM_SCHEDULER = ''system:scheduler''"
  "subject SYSTEM_WORKER = ''system:worker''"
  "subject ANONYMOUS = ''anonymous''"
  by (simp_all add: LOCAL_OPERATOR_def SYSTEM_SCHEDULER_def SYSTEM_WORKER_def ANONYMOUS_def
      default_principal_def)

lemma auth_method_simps [simp]:
  "auth_method LOCAL_OPERATOR = ''shared-secret''"
  "auth_method SYSTEM_SCHEDULER = ''system''"
  "auth_method SYSTEM_WORKER = ''system''"
  "auth_method ANONYMOUS = ''none''"
  by (simp_all add: LOCAL_OPERATOR_def SYSTEM_SCHEDULER_def SYSTEM_WORKER_def ANONYMOUS_def
      default_principal_def SYSTEM_AUTH_METHOD_def)

lemma principal_type_simps [simp]:
  "principal_type LOCAL_OPERATOR = ''human''"
  "principal_type SYSTEM_SCHEDULER = ''system''"
  "principal_type SYSTEM_WORKER = ''system''"
  "principal_type ANONYMOUS = ''human''"
  by (simp_all add: LOCAL_OPERATOR_def SYSTEM_SCHEDULER_def SYSTEM_WORKER_def ANONYMOUS_def
      default_principal_def)

end
