(* ===== verification/PluginLoader.thy ===== *)
theory PluginLoader
  imports PyPrelude
begin

text \<open>
  \<open>src/app/plugin_loader.py\<close>: operator-selected plugins.  The environment is a list of
  variables; the importable modules are the argument \<open>world\<close> (a module name to its attributes,
  \<open>None\<close> where the import fails), and \<open>stdlib\<close> the interpreter's own module names.  Loading
  returns the modules it imported beside its result, so that "checked before imported" is a
  statement about the model.
\<close>

datatype plugin_error =
    InvalidSeam | TwoSources | NeedsAllowlist | BadSpec | PrivateAttr | StdlibModule
  | NotAllowlisted | ImportFailed | NoSuchAttr | NotCallable | ForeignAttr | SelectorConflict
  | EmptyEntry | TooMany | Duplicate | MissingMethods "string list" | NoFactory | FactoryFailed

text \<open>What the loader looks at in an object: callable, \<open>__module__\<close>, its callable methods.\<close>

record pyobj =
  obj_id :: nat
  is_callable :: bool
  obj_module :: string
  methods :: "string list"

type_synonym pymodule = "(string \<times> pyobj) list"
type_synonym world = "string \<Rightarrow> pymodule option"
type_synonym 'a loading = "string list \<times> (plugin_error + 'a)"

definition MAX_PLUGINS :: nat where
  "MAX_PLUGINS = 64"

definition ALLOWLIST_ENV :: string where
  "ALLOWLIST_ENV = ''PIPELINE_PLUGIN_MODULES''"

subsection \<open>Specs and variable names\<close>

fun ident_re :: "string \<Rightarrow> bool" where
  "ident_re [] = False"
| "ident_re (c # cs) =
     ((is_lower c \<or> is_upper c \<or> c = CHR ''_'') \<and>
      list_all (\<lambda>x. is_lower x \<or> is_upper x \<or> is_digit x \<or> x = CHR ''_'') cs)"

text \<open>\<open>SPEC_RE\<close>: a dotted path, one colon, one identifier.\<close>

definition spec_re :: "string \<Rightarrow> bool" where
  "spec_re s =
     (case partition_at CHR '':'' s of
        (m, found, a) \<Rightarrow> found \<and> list_all ident_re (split_on CHR ''.'' m) \<and> ident_re a)"

fun seam_re :: "string \<Rightarrow> bool" where
  "seam_re [] = False"
| "seam_re (c # cs) = (is_lower c \<and> list_all (\<lambda>x. is_lower x \<or> x = CHR ''_'') cs)"

definition plugin_env_name :: "string \<Rightarrow> plugin_error + string" where
  "plugin_env_name seam =
     (if seam_re seam then Inr (''PIPELINE_'' @ map char_upper seam @ ''_PLUGIN'')
      else Inl InvalidSeam)"

definition plugin_names :: "string \<Rightarrow> plugin_error + string \<times> string" where
  "plugin_names seam = bindE (plugin_env_name seam) (\<lambda>n. Inr (n, n @ ''S''))"

definition reject_two_sources :: "env \<Rightarrow> string \<Rightarrow> plugin_error + string \<times> string" where
  "reject_two_sources env seam =
     bindE (plugin_names seam) (\<lambda>(s, p).
     bindE (guardE (\<not> (strip (env_get env s) \<noteq> [] \<and> strip (env_get env p) \<noteq> [])) TwoSources) (\<lambda>_.
     Inr (s, p)))"

definition allowlist :: "env \<Rightarrow> string list" where
  "allowlist env =
     (let raw = strip (env_get env ALLOWLIST_ENV) in
      if raw = [] then []
      else filter (\<lambda>e. e \<noteq> []) (map strip (split_on CHR '','' raw)))"

definition in_allowlist :: "string list \<Rightarrow> string \<Rightarrow> bool" where
  "in_allowlist al m = list_ex (\<lambda>prefix. m = prefix \<or> starts_with m (prefix @ ''.'')) al"

definition check_module_permitted :: "string list \<Rightarrow> env \<Rightarrow> string \<Rightarrow> plugin_error + unit" where
  "check_module_permitted stdlib env m =
     bindE (guardE (hd (split_on CHR ''.'' m) \<notin> set stdlib) StdlibModule) (\<lambda>_.
     guardE (\<not> (allowlist env \<noteq> [] \<and> \<not> in_allowlist (allowlist env) m)) NotAllowlisted)"

definition plugin_spec :: "env \<Rightarrow> string \<Rightarrow> plugin_error + string option" where
  "plugin_spec env seam =
     bindE (plugin_env_name seam) (\<lambda>n.
     Inr (let s = strip (env_get env n) in if s = [] then None else Some s))"

definition require_allowlist :: "env \<Rightarrow> string \<Rightarrow> plugin_error + unit" where
  "require_allowlist env seam =
     bindE (plugin_spec env seam) (\<lambda>s.
     guardE (\<not> (s \<noteq> None \<and> allowlist env = [])) NeedsAllowlist)"

definition require_methods :: "pyobj \<Rightarrow> string list \<Rightarrow> plugin_error + unit" where
  "require_methods obj names =
     (let missing = filter (\<lambda>n. n \<notin> set (methods obj)) names in
      guardE (missing = []) (MissingMethods missing))"

subsection \<open>Resolving one spec\<close>

definition static_check :: "string list \<Rightarrow> env \<Rightarrow> string \<Rightarrow> plugin_error + string \<times> string" where
  "static_check stdlib env spec =
     bindE (guardE (spec_re spec) BadSpec) (\<lambda>_.
       case partition_at CHR '':'' spec of (m, found, a) \<Rightarrow>
       bindE (guardE (\<not> starts_with a ''_'') PrivateAttr) (\<lambda>_.
       bindE (check_module_permitted stdlib env m) (\<lambda>_. Inr (m, a))))"

definition pick_attr :: "string \<Rightarrow> string \<Rightarrow> pymodule \<Rightarrow> plugin_error + pyobj" where
  "pick_attr m a attrs =
     with_some (dget attrs a) NoSuchAttr (\<lambda>target.
     bindE (guardE (is_callable target) NotCallable) (\<lambda>_.
     bindE (guardE (obj_module target = m \<or> starts_with (obj_module target) (m @ ''.'')) ForeignAttr)
       (\<lambda>_. Inr target)))"

definition resolve_spec :: "string list \<Rightarrow> world \<Rightarrow> env \<Rightarrow> string \<Rightarrow> pyobj loading" where
  "resolve_spec stdlib world env spec =
     (case static_check stdlib env spec of
        Inl e \<Rightarrow> ([], Inl e)
      | Inr (m, a) \<Rightarrow> ([m], with_some (world m) ImportFailed (pick_attr m a)))"

subsection \<open>The two loaders\<close>

text \<open>\<open>selector\<close>: the legacy selector variable of the seam with its default, if it has one.\<close>

definition check_no_conflict :: "env \<Rightarrow> (string \<times> string option) option \<Rightarrow> plugin_error + unit" where
  "check_no_conflict env selector =
     (case selector of
        None \<Rightarrow> Inr ()
      | Some (var, dflt) \<Rightarrow>
          let v = strip (env_get env var) in
          guardE (\<not> (v \<noteq> [] \<and> Some v \<noteq> dflt)) SelectorConflict)"

text \<open>One accepted spec: resolve it, then check the required methods.\<close>

definition load_spec ::
  "string list \<Rightarrow> world \<Rightarrow> env \<Rightarrow> string list \<Rightarrow> string \<Rightarrow> pyobj loading" where
  "load_spec stdlib world env required spec =
     (case resolve_spec stdlib world env spec of
        (ms, r) \<Rightarrow>
          (ms, bindE r (\<lambda>f.
               bindE (if required = [] then Inr () else require_methods f required) (\<lambda>_. Inr f))))"

definition load_plugin ::
  "string list \<Rightarrow> world \<Rightarrow> env \<Rightarrow> string \<Rightarrow> (string \<times> string option) option \<Rightarrow> string list \<Rightarrow>
   pyobj option loading" where
  "load_plugin stdlib world env seam selector required =
     (case bindE (reject_two_sources env seam) (\<lambda>_. plugin_spec env seam) of
        Inl e \<Rightarrow> ([], Inl e)
      | Inr None \<Rightarrow> ([], Inr None)
      | Inr (Some spec) \<Rightarrow>
          (case check_no_conflict env selector of
             Inl e \<Rightarrow> ([], Inl e)
           | Inr _ \<Rightarrow>
               (case load_spec stdlib world env required spec of
                  (ms, r) \<Rightarrow> (ms, bindE r (\<lambda>f. Inr (Some f))))))"

fun load_specs ::
  "string list \<Rightarrow> world \<Rightarrow> env \<Rightarrow> string list \<Rightarrow> string list \<Rightarrow> pyobj list loading" where
  "load_specs stdlib world env required [] = ([], Inr [])"
| "load_specs stdlib world env required (spec # specs) =
     (case load_spec stdlib world env required spec of
        (ms, Inl e) \<Rightarrow> (ms, Inl e)
      | (ms, Inr f) \<Rightarrow>
          (case load_specs stdlib world env required specs of
             (ns, r) \<Rightarrow> (ms @ ns, bindE r (\<lambda>fs. Inr (f # fs)))))"

definition plugin_list_specs ::
  "env \<Rightarrow> string \<Rightarrow> (string \<times> string option) option \<Rightarrow> plugin_error + string list" where
  "plugin_list_specs env seam selector =
     bindE (reject_two_sources env seam) (\<lambda>(_, name).
       let raw = strip (env_get env name);
           specs = map strip (split_on CHR '','' raw) in
       if raw = [] then Inr []
       else
         bindE (guardE (list_all (\<lambda>s. s \<noteq> []) specs) EmptyEntry) (\<lambda>_.
         bindE (guardE (length specs \<le> MAX_PLUGINS) TooMany) (\<lambda>_.
         bindE (guardE (distinct specs) Duplicate) (\<lambda>_.
         bindE (check_no_conflict env selector) (\<lambda>_. Inr specs)))))"

definition load_plugin_list ::
  "string list \<Rightarrow> world \<Rightarrow> env \<Rightarrow> string \<Rightarrow> (string \<times> string option) option \<Rightarrow> string list \<Rightarrow>
   pyobj list loading" where
  "load_plugin_list stdlib world env seam selector required =
     (case plugin_list_specs env seam selector of
        Inl e \<Rightarrow> ([], Inl e)
      | Inr specs \<Rightarrow> load_specs stdlib world env required specs)"

subsection \<open>What may be imported, what may be returned\<close>

text \<open>A module the static checks let through, and a factory they may hand out.\<close>

definition importable :: "string list \<Rightarrow> env \<Rightarrow> string \<Rightarrow> bool" where
  "importable stdlib env m =
     (list_all ident_re (split_on CHR ''.'' m) \<and>
      hd (split_on CHR ''.'' m) \<notin> set stdlib \<and>
      (allowlist env = [] \<or> in_allowlist (allowlist env) m))"

definition genuine :: "string list \<Rightarrow> world \<Rightarrow> env \<Rightarrow> string list \<Rightarrow> pyobj \<Rightarrow> bool" where
  "genuine stdlib world env required f =
     (\<exists>m a attrs. importable stdlib env m \<and> ident_re a \<and> \<not> starts_with a ''_'' \<and>
        world m = Some attrs \<and> dget attrs a = Some f \<and> is_callable f \<and>
        (obj_module f = m \<or> starts_with (obj_module f) (m @ ''.'')) \<and>
        set required \<subseteq> set (methods f))"

lemma static_check_importable:
  assumes "static_check stdlib env spec = Inr (m, a)"
  shows "importable stdlib env m \<and> ident_re a \<and> \<not> starts_with a ''_''"
  using assms
  by (auto simp: static_check_def importable_def check_module_permitted_def spec_re_def okE
      split: prod.splits)

lemma require_methods_Inr: "require_methods f names = Inr u \<longleftrightarrow> set names \<subseteq> set (methods f)"
  by (auto simp: require_methods_def Let_def filter_empty_conv)

lemma load_spec_imports:
  assumes "m \<in> set (fst (load_spec stdlib world env required spec))"
  shows "importable stdlib env m"
proof -
  from assms obtain a where "static_check stdlib env spec = Inr (m, a)"
    by (auto simp: load_spec_def resolve_spec_def split: sum.splits prod.splits)
  then show ?thesis by (blast dest: static_check_importable)
qed

lemma load_spec_genuine:
  assumes "snd (load_spec stdlib world env required spec) = Inr f"
  shows "genuine stdlib world env required f"
proof -
  from assms obtain m a attrs where
    s: "static_check stdlib env spec = Inr (m, a)" "world m = Some attrs"
      "pick_attr m a attrs = Inr f" and
    r: "required = [] \<or> (\<exists>u. require_methods f required = Inr u)"
    by (auto simp: load_spec_def resolve_spec_def okE split: sum.splits prod.splits if_splits)
  from r have "set required \<subseteq> set (methods f)" by (auto simp: require_methods_Inr)
  moreover from s(3) have "dget attrs a = Some f" "is_callable f"
    "obj_module f = m \<or> starts_with (obj_module f) (m @ ''.'')"
    by (auto simp: pick_attr_def okE)
  ultimately show ?thesis
    using static_check_importable [OF s(1)] s(2) unfolding genuine_def by blast
qed

lemma load_specs_imports:
  "m \<in> set (fst (load_specs stdlib world env required specs)) \<Longrightarrow> importable stdlib env m"
proof (induction specs)
  case (Cons s specs)
  obtain ms r where l: "load_spec stdlib world env required s = (ms, r)" by fastforce
  have head: "x \<in> set ms \<Longrightarrow> importable stdlib env x" for x
    using load_spec_imports [of x stdlib world env required s] l by simp
  from Cons.prems l show ?case
    by (cases r) (auto intro: head Cons.IH split: prod.splits)
qed simp

lemma load_specs_genuine:
  "snd (load_specs stdlib world env required specs) = Inr fs \<Longrightarrow>
   length fs = length specs \<and> (\<forall>f \<in> set fs. genuine stdlib world env required f)"
proof (induction specs arbitrary: fs)
  case (Cons s specs)
  obtain ms r where l: "load_spec stdlib world env required s = (ms, r)" by fastforce
  from Cons.prems l obtain f gs where
    f: "r = Inr f" "snd (load_specs stdlib world env required specs) = Inr gs" "fs = f # gs"
    by (cases r) (auto simp: okE split: prod.splits)
  from f(1) l have "genuine stdlib world env required f"
    using load_spec_genuine [of stdlib world env required s f] by simp
  with Cons.IH [OF f(2)] f(3) show ?case by simp
qed simp

lemma plugin_list_specs_bound:
  "plugin_list_specs env seam selector = Inr specs \<Longrightarrow> length specs \<le> MAX_PLUGINS \<and> distinct specs"
  by (auto simp: plugin_list_specs_def okE Let_def split: prod.splits if_splits)

lemma load_plugin_imports:
  "m \<in> set (fst (load_plugin stdlib world env seam selector required)) \<Longrightarrow> importable stdlib env m"
  unfolding load_plugin_def
  by (auto split: sum.splits option.splits prod.splits)
     (metis fst_conv load_spec_imports)

lemma load_plugin_list_imports:
  "m \<in> set (fst (load_plugin_list stdlib world env seam selector required)) \<Longrightarrow>
   importable stdlib env m"
  unfolding load_plugin_list_def
  by (auto split: sum.splits dest: load_specs_imports)

lemma load_plugin_genuine:
  assumes "snd (load_plugin stdlib world env seam selector required) = Inr (Some f)"
  shows "genuine stdlib world env required f"
proof -
  from assms obtain spec where
    "snd (load_spec stdlib world env required spec) = Inr f"
    by (auto simp: load_plugin_def okE split: sum.splits option.splits prod.splits) (metis snd_conv)
  then show ?thesis by (rule load_spec_genuine)
qed

text \<open>
  Whatever the environment holds and whether or not loading succeeds, every module the two
  loaders import has passed the static checks: a dotted identifier path, not a module of the
  interpreter, inside the allowlist when one is set.
\<close>

lemma only_permitted_modules_imported:
  "set (fst (load_plugin stdlib world env seam selector required)) \<union>
   set (fst (load_plugin_list stdlib world env seam selector required))
     \<subseteq> {m. importable stdlib env m}"
  using load_plugin_imports load_plugin_list_imports by blast

text \<open>
  A list of factories comes back only when every one of them is a public callable defined by
  an importable module, with every required method; there are at most 64, one for each listed
  spec.
\<close>

lemma loaded_factories_genuine:
  assumes "snd (load_plugin_list stdlib world env seam selector required) = Inr fs"
  shows "length fs \<le> MAX_PLUGINS \<and> list_all (genuine stdlib world env required) fs"
proof -
  from assms obtain specs where
    s: "plugin_list_specs env seam selector = Inr specs"
      "snd (load_specs stdlib world env required specs) = Inr fs"
    by (auto simp: load_plugin_list_def split: sum.splits)
  from load_specs_genuine [OF s(2)] plugin_list_specs_bound [OF s(1)] show ?thesis
    by (simp add: list_all_iff)
qed

definition demo_obj :: pyobj where
  "demo_obj = \<lparr>obj_id = 1, is_callable = True, obj_module = ''ov.sinks'', methods = [''send'']\<rparr>"

definition demo_env :: env where
  "demo_env = [(''PIPELINE_SINK_PLUGINS'', '' ov.sinks:mk ''), (ALLOWLIST_ENV, ''ov'')]"

definition demo_world :: world where
  "demo_world m = (if m = ''ov.sinks'' then Some [(''mk'', demo_obj)] else None)"

lemma loaded_factories_genuine_witness:
  "list_all (genuine [''os''] demo_world demo_env [''send'']) [demo_obj]"
proof -
  have "snd (load_plugin_list [''os''] demo_world demo_env ''sink'' None [''send'']) = Inr [demo_obj]"
    by code_simp
  from loaded_factories_genuine [OF this] show ?thesis by simp
qed

end
