(* ===== verification/Policy.thy ===== *)
theory Policy
  imports Identity PluginLoader
begin

text \<open>
  \<open>src/app/policy.py\<close>: the actions, the grants of the reserved principals, \<open>LocalPolicy\<close>, plan
  visibility, the fail-closed wrapper and the selection of the live authorizer.  An authorizer's
  answer is whatever its \<open>allow\<close> returns, or an exception.  The live plugin authorizer is the
  cached entry of \<open>_PLUGIN_AUTHORIZERS\<close>, passed as state.
\<close>

datatype action =
    PLAN_INGEST | PLAN_APPROVE | PLAN_REJECT | PLAN_DISPATCH | PLAN_PAUSE | STORY_PATCH
  | STORY_INTERRUPT | DECISION_ANSWER | STORY_MERGE | STORY_MARK_DONE | CONFIG_WRITE
  | DECISION_RECORD

fun action_value :: "action \<Rightarrow> string" where
  "action_value PLAN_INGEST = ''plan:ingest''"
| "action_value PLAN_APPROVE = ''plan:approve''"
| "action_value PLAN_REJECT = ''plan:reject''"
| "action_value PLAN_DISPATCH = ''plan:dispatch''"
| "action_value PLAN_PAUSE = ''plan:pause''"
| "action_value STORY_PATCH = ''story:patch''"
| "action_value STORY_INTERRUPT = ''story:interrupt''"
| "action_value DECISION_ANSWER = ''decision:answer''"
| "action_value STORY_MERGE = ''story:merge''"
| "action_value STORY_MARK_DONE = ''story:mark_done''"
| "action_value CONFIG_WRITE = ''config:write''"
| "action_value DECISION_RECORD = ''decision:record''"

definition ACTIONS :: "action list" where
  "ACTIONS = [PLAN_INGEST, PLAN_APPROVE, PLAN_REJECT, PLAN_DISPATCH, PLAN_PAUSE, STORY_PATCH,
     STORY_INTERRUPT, DECISION_ANSWER, STORY_MERGE, STORY_MARK_DONE, CONFIG_WRITE, DECISION_RECORD]"

text \<open>What a caller may pass as the action: a member, a raw string, any other object.\<close>

datatype action_arg = Act action | Raw string | OtherObject

definition coerce_action :: "action_arg \<Rightarrow> action option" where
  "coerce_action a =
     (case a of
        Act x \<Rightarrow> Some x
      | Raw s \<Rightarrow> List.find (\<lambda>x. action_value x = s) ACTIONS
      | OtherObject \<Rightarrow> None)"

lemma action_value_inj: "action_value a = action_value b \<longleftrightarrow> a = b"
  by (cases a; cases b) simp_all

lemma coerce_action_value [simp]: "coerce_action (Raw (action_value a)) = Some a"
  by (cases a) (simp_all add: coerce_action_def ACTIONS_def)

lemma coerce_action_Act [simp]: "coerce_action (Act a) = Some a"
  by (simp add: coerce_action_def)

record resource =
  r_tenant :: string
  r_team :: string
  r_repo :: string
  r_plan :: string
  r_story :: string
  r_owner :: string
  r_delegates :: "pyval list"

definition SYSTEM_PRINCIPAL_GRANTS :: "(string \<times> action list) list" where
  "SYSTEM_PRINCIPAL_GRANTS =
     [(subject SYSTEM_SCHEDULER, [PLAN_DISPATCH, STORY_MERGE, STORY_INTERRUPT]),
      (subject SYSTEM_WORKER, [STORY_PATCH])]"

definition system_grants :: "string \<Rightarrow> action list" where
  "system_grants sub = (case dget SYSTEM_PRINCIPAL_GRANTS sub of Some as \<Rightarrow> as | None \<Rightarrow> [])"

definition UNAUTHENTICATED_AUTH_METHODS :: "string list" where
  "UNAUTHENTICATED_AUTH_METHODS = [[], ''none'']"

definition LOCAL_OPERATOR_SUBJECT :: string where
  "LOCAL_OPERATOR_SUBJECT = subject LOCAL_OPERATOR"

subsection \<open>The local policy\<close>

definition can_view :: "principal option \<Rightarrow> resource option \<Rightarrow> bool" where
  "can_view po ro =
     (case (po, ro) of
        (Some p, Some r) \<Rightarrow>
          if subject p = LOCAL_OPERATOR_SUBJECT then True
          else if r_owner r \<noteq> [] \<and> subject p = r_owner r then True
          else py_in (PStr (subject p)) (r_delegates r)
      | _ \<Rightarrow> False)"

definition is_system :: "principal \<Rightarrow> bool" where
  "is_system p =
     (starts_with (subject p) SYSTEM_SUBJECT_PREFIX \<or> auth_method p = SYSTEM_AUTH_METHOD)"

definition is_authenticated :: "principal \<Rightarrow> bool" where
  "is_authenticated p = (auth_method p \<notin> set UNAUTHENTICATED_AUTH_METHODS)"

definition owner_actions :: "action list" where
  "owner_actions = [PLAN_APPROVE, PLAN_REJECT, PLAN_DISPATCH, STORY_MERGE, DECISION_ANSWER,
     STORY_PATCH, STORY_INTERRUPT, STORY_MARK_DONE, PLAN_PAUSE, CONFIG_WRITE]"

definition owns_or_delegate :: "principal \<Rightarrow> resource \<Rightarrow> bool" where
  "owns_or_delegate p r =
     ((r_owner r \<noteq> [] \<and> subject p = r_owner r) \<or> py_in (PStr (subject p)) (r_delegates r))"

definition allow_ingest :: "principal \<Rightarrow> resource option \<Rightarrow> bool" where
  "allow_ingest p ro =
     (if subject p = LOCAL_OPERATOR_SUBJECT then True
      else case ro of
        None \<Rightarrow> False
      | Some r \<Rightarrow> if r_owner r = [] then True else subject p = r_owner r)"

definition allow_resolved :: "principal \<Rightarrow> action \<Rightarrow> resource option \<Rightarrow> bool" where
  "allow_resolved p a ro =
     (if is_system p then a \<in> set (system_grants (subject p))
      else if a = PLAN_INGEST \<and> is_authenticated p then allow_ingest p ro
      else if (case ro of Some r \<Rightarrow> a \<in> set owner_actions \<and> owns_or_delegate p r | None \<Rightarrow> False)
        then True
      else if a = DECISION_RECORD then
        (if subject p = LOCAL_OPERATOR_SUBJECT then True
         else principal_type p \<in> {''human'', ''agent''} \<and> is_authenticated p \<and>
              can_view (Some p) ro)
      else subject p = LOCAL_OPERATOR_SUBJECT)"

definition local_allow :: "principal option \<Rightarrow> action_arg \<Rightarrow> resource option \<Rightarrow> bool" where
  "local_allow po act ro =
     (case po of
        None \<Rightarrow> False
      | Some p \<Rightarrow> (case coerce_action act of None \<Rightarrow> False | Some a \<Rightarrow> allow_resolved p a ro))"

subsection \<open>The fail-closed wrapper\<close>

datatype answer = Raised | Returned pyval

type_synonym allow_fn = "principal option \<Rightarrow> action_arg \<Rightarrow> resource option \<Rightarrow> answer"

definition is_allowed :: "allow_fn \<Rightarrow> principal option \<Rightarrow> action_arg \<Rightarrow> resource option \<Rightarrow> bool" where
  "is_allowed allow p a r =
     (case allow p a r of
        Raised \<Rightarrow> False
      | Returned v \<Rightarrow> v = PBool True)"

definition local_policy :: allow_fn where
  "local_policy p a r = Returned (PBool (local_allow p a r))"

lemma is_allowed_local [simp]: "is_allowed local_policy p a r = local_allow p a r"
  by (simp add: is_allowed_def local_policy_def)

subsection \<open>The live authorizer\<close>

datatype authorizer = LocalPolicy | PluginAuthorizer pyobj

type_synonym auth_cache = "(string \<times> pyobj) list"

text \<open>\<open>build\<close> is calling the plugin factory: an object, or \<open>None\<close> when the call raises.\<close>

definition default_authorizer ::
  "string list \<Rightarrow> world \<Rightarrow> (pyobj \<Rightarrow> pyobj option) \<Rightarrow> env \<Rightarrow> auth_cache \<Rightarrow>
   (plugin_error + authorizer) \<times> auth_cache" where
  "default_authorizer stdlib world build env cache =
     (case cache of
        (_, live) # _ \<Rightarrow> (Inr (PluginAuthorizer live), cache)
      | [] \<Rightarrow>
          (case plugin_spec env ''authorizer'' of
             Inl e \<Rightarrow> (Inl e, cache)
           | Inr None \<Rightarrow> (Inr LocalPolicy, cache)
           | Inr (Some spec) \<Rightarrow>
               (case bindE (require_allowlist env ''authorizer'') (\<lambda>_.
                     bindE (snd (load_plugin stdlib world env ''authorizer'' None [])) (\<lambda>fo.
                     with_some fo NoFactory (\<lambda>factory.
                     with_some (build factory) FactoryFailed (\<lambda>built.
                     bindE (require_methods built [''allow'']) (\<lambda>_. Inr built))))) of
                  Inl e \<Rightarrow> (Inl e, cache)
                | Inr built \<Rightarrow> (Inr (PluginAuthorizer built), dset spec built cache))))"

text \<open>Calls of \<open>default_authorizer\<close> in a row, each under the environment of its moment.\<close>

fun authorizer_run ::
  "string list \<Rightarrow> world \<Rightarrow> (pyobj \<Rightarrow> pyobj option) \<Rightarrow> env list \<Rightarrow> auth_cache \<Rightarrow>
   (plugin_error + authorizer) list" where
  "authorizer_run stdlib world build [] cache = []"
| "authorizer_run stdlib world build (env # envs) cache =
     (case default_authorizer stdlib world build env cache of
        (r, cache') \<Rightarrow> r # authorizer_run stdlib world build envs cache')"

subsection \<open>Lemmas\<close>

lemma local_operator_not_system: "subject p = LOCAL_OPERATOR_SUBJECT \<Longrightarrow>
    \<not> starts_with (subject p) SYSTEM_SUBJECT_PREFIX"
  by (simp add: LOCAL_OPERATOR_SUBJECT_def starts_with_def SYSTEM_SUBJECT_PREFIX_def)

lemma allow_owner_action:
  "a \<in> set owner_actions \<Longrightarrow> \<not> is_system p \<Longrightarrow>
   allow_resolved p a ro \<longleftrightarrow>
     subject p = LOCAL_OPERATOR_SUBJECT \<or> (\<exists>r. ro = Some r \<and> owns_or_delegate p r)"
  by (auto simp: allow_resolved_def owner_actions_def split: option.splits)

lemma default_authorizer_live:
  "default_authorizer stdlib world build env ((s, o1) # rest) =
     (Inr (PluginAuthorizer o1), (s, o1) # rest)"
  by (simp add: default_authorizer_def)

lemma authorizer_run_live:
  "authorizer_run stdlib world build envs ((s, o1) # rest) =
     replicate (length envs) (Inr (PluginAuthorizer o1))"
  by (induction envs) (simp_all add: default_authorizer_live)

lemma authorizer_built:
  assumes "default_authorizer stdlib world build env [] = (Inr (PluginAuthorizer o1), cache)"
  shows "\<exists>spec factory. plugin_spec env ''authorizer'' = Inr (Some spec) \<and> cache = [(spec, o1)] \<and>
    allowlist env \<noteq> [] \<and> genuine stdlib world env [] factory \<and> build factory = Some o1 \<and>
    ''allow'' \<in> set (methods o1)"
proof -
  from assms obtain spec where sp: "plugin_spec env ''authorizer'' = Inr (Some spec)"
    by (auto simp: default_authorizer_def split: sum.splits option.splits)
  with assms obtain fo factory u v where
    b: "require_allowlist env ''authorizer'' = Inr u"
      "snd (load_plugin stdlib world env ''authorizer'' None []) = Inr fo"
      "fo = Some factory" "build factory = Some o1" "require_methods o1 [''allow''] = Inr v"
      "cache = dset spec o1 []"
    by (auto simp: default_authorizer_def okE split: sum.splits)
  from b(1) sp have "allowlist env \<noteq> []" by (auto simp: require_allowlist_def okE)
  moreover have "genuine stdlib world env [] factory"
    using load_plugin_genuine b(2,3) by blast
  moreover have "''allow'' \<in> set (methods o1)"
    using b(5) by (simp add: require_methods_Inr)
  ultimately show ?thesis using sp b(4,6) by (auto simp: dset_def)
qed

lemma authorizer_local:
  assumes "default_authorizer stdlib world build env [] = (Inr LocalPolicy, cache)"
  shows "plugin_spec env ''authorizer'' = Inr None \<and> cache = []"
  using assms by (auto simp: default_authorizer_def split: sum.splits option.splits)

lemma authorizer_error:
  assumes "default_authorizer stdlib world build env [] = (Inl e, cache)"
  shows "cache = []"
  using assms by (auto simp: default_authorizer_def split: sum.splits option.splits)

text \<open>Taking ownership away from a resource.\<close>

definition disowned :: "resource \<Rightarrow> resource" where
  "disowned r = r\<lparr>r_owner := [], r_delegates := []\<rparr>"

lemma owns_or_delegate_disowned [simp]: "\<not> owns_or_delegate p (disowned r)"
  by (simp add: owns_or_delegate_def disowned_def)

lemma can_view_disowned: "can_view (Some p) (Some (disowned r)) \<Longrightarrow> subject p = LOCAL_OPERATOR_SUBJECT"
  by (simp add: can_view_def disowned_def split: if_splits)

subsection \<open>Properties\<close>

text \<open>
  Whatever a plan's manifest says about owners and delegates, a reserved system principal
  (by subject prefix or by auth method) is allowed exactly the actions of its grant row; in
  particular none of them ever approves, ingests, answers a decision or writes configuration.
\<close>

lemma system_principals_confined:
  assumes "is_system p"
  shows "local_allow (Some p) act ro \<longleftrightarrow>
    (case coerce_action act of
       None \<Rightarrow> False
     | Some a \<Rightarrow>
         (subject p = ''system:scheduler'' \<and> a \<in> {PLAN_DISPATCH, STORY_MERGE, STORY_INTERRUPT}) \<or>
         (subject p = ''system:worker'' \<and> a = STORY_PATCH))"
  using assms
  by (auto simp: local_allow_def allow_resolved_def system_grants_def SYSTEM_PRINCIPAL_GRANTS_def
      split: option.splits)

lemma system_principals_confined_witness:
  "is_system SYSTEM_WORKER \<and>
   \<not> local_allow (Some SYSTEM_WORKER) (Act PLAN_APPROVE)
       (Some \<lparr>r_tenant = [], r_team = [], r_repo = [], r_plan = ''p'', r_story = [],
              r_owner = ''system:worker'', r_delegates = [PStr ''system:worker'']\<rparr>)"
proof -
  have s: "is_system SYSTEM_WORKER" by code_simp
  show ?thesis using s system_principals_confined [OF s, of "Act PLAN_APPROVE"] by simp
qed

text \<open>
  Ownership is additive for every action but ingest: what a principal may do on a resource
  with its owner and delegates removed, it may do on the resource itself.
\<close>

lemma ownership_only_adds:
  assumes "coerce_action act \<noteq> Some PLAN_INGEST"
    and "local_allow (Some p) act (Some (disowned r))"
  shows "local_allow (Some p) act (Some r)"
proof -
  from assms obtain a where a: "coerce_action act = Some a" "a \<noteq> PLAN_INGEST"
    "allow_resolved p a (Some (disowned r))"
    by (auto simp: local_allow_def split: option.splits)
  have "allow_resolved p a (Some r)"
  proof (cases "\<not> is_system p \<and> a \<in> set owner_actions")
    case True
    with a(3) show ?thesis
      using allow_owner_action [of a p "Some r"] allow_owner_action [of a p "Some (disowned r)"]
      by simp
  next
    case False
    then show ?thesis
      using a(2,3) can_view_disowned [of p r] by (auto simp: allow_resolved_def split: if_splits)
  qed
  with a(1) show ?thesis by (simp add: local_allow_def)
qed

lemma ownership_only_adds_witness:
  "local_allow (Some LOCAL_OPERATOR) (Raw ''plan:approve'')
     (Some \<lparr>r_tenant = [], r_team = [], r_repo = [], r_plan = ''p'', r_story = [],
            r_owner = ''alice'', r_delegates = []\<rparr>)"
  by (rule ownership_only_adds; code_simp)

text \<open>
  A principal that nobody authenticated and that does not present the operator's subject
  never ingests a plan and never records a decision; the ten owner actions are open to it only
  through a manifest that names its subject.
\<close>

lemma unauthenticated_needs_manifest:
  assumes "\<not> is_authenticated p" "\<not> is_system p" "subject p \<noteq> LOCAL_OPERATOR_SUBJECT"
  shows "local_allow (Some p) act ro \<longleftrightarrow>
    (\<exists>a r. coerce_action act = Some a \<and> ro = Some r \<and>
       a \<notin> {PLAN_INGEST, DECISION_RECORD} \<and> owns_or_delegate p r)"
proof (cases "coerce_action act")
  case None
  then show ?thesis by (simp add: local_allow_def)
next
  case (Some a)
  with assms show ?thesis
    by (cases a)
       (auto simp: local_allow_def allow_resolved_def owner_actions_def split: option.splits)
qed

lemma unauthenticated_needs_manifest_witness:
  "\<not> local_allow (Some ANONYMOUS) (Act PLAN_INGEST) None"
proof -
  have "\<not> is_authenticated ANONYMOUS" "\<not> is_system ANONYMOUS"
    "subject ANONYMOUS \<noteq> LOCAL_OPERATOR_SUBJECT" by code_simp+
  from unauthenticated_needs_manifest [OF this, of "Act PLAN_INGEST" None] show ?thesis by simp
qed

text \<open>
  The source says an unauthenticated caller may never create a plan, whatever subject it
  presents; a principal with auth method "none" and the operator's subject passes the last rule.
\<close>

lemma unauthenticated_operator_ingests:
  "mk_principal (default_principal ''local-operator'' ''none'') =
     Inr (default_principal ''local-operator'' ''none'') \<and>
   \<not> is_authenticated (default_principal ''local-operator'' ''none'') \<and>
   local_allow (Some (default_principal ''local-operator'' ''none'')) (Act PLAN_INGEST) None"
  by code_simp

text \<open>
  The authorizer of a process is settled once: after the first plugin authorizer is built,
  every later call under any environment returns that object, and it was built by a genuine
  factory under a configured allowlist, with an \<open>allow\<close> method.
\<close>

lemma authorizer_pinned:
  assumes "default_authorizer stdlib world build env [] = (Inr (PluginAuthorizer o1), cache)"
  shows "authorizer_run stdlib world build envs cache =
           replicate (length envs) (Inr (PluginAuthorizer o1)) \<and>
         allowlist env \<noteq> [] \<and> ''allow'' \<in> set (methods o1) \<and>
         (\<exists>factory. genuine stdlib world env [] factory \<and> build factory = Some o1)"
  using authorizer_built [OF assms] authorizer_run_live by auto

definition demo_factory :: pyobj where
  "demo_factory = \<lparr>obj_id = 1, is_callable = True, obj_module = ''ov'', methods = []\<rparr>"

definition demo_authorizer :: pyobj where
  "demo_authorizer = \<lparr>obj_id = 2, is_callable = False, obj_module = ''ov'', methods = [''allow'']\<rparr>"

lemma authorizer_pinned_witness:
  "authorizer_run [''os''] (\<lambda>m. if m = ''ov'' then Some [(''mk'', demo_factory)] else None)
     (\<lambda>f. Some demo_authorizer) [[], []] [(''ov:mk'', demo_authorizer)] =
   replicate 2 (Inr (PluginAuthorizer demo_authorizer))"
proof -
  have "default_authorizer [''os'']
      (\<lambda>m. if m = ''ov'' then Some [(''mk'', demo_factory)] else None) (\<lambda>f. Some demo_authorizer)
      [(''PIPELINE_AUTHORIZER_PLUGIN'', ''ov:mk''), (ALLOWLIST_ENV, ''ov'')] [] =
    (Inr (PluginAuthorizer demo_authorizer), [(''ov:mk'', demo_authorizer)])"
    by code_simp
  from authorizer_pinned [OF this, of "[[], []]", THEN conjunct1] show ?thesis
    by (simp add: numeral_2_eq_2 del: authorizer_run.simps)
qed

end
