(* ===== verification/AuditChain.thy ===== *)
theory AuditChain
  imports Identity "HOL-Library.Char_ord" "HOL-Library.List_Lexorder"
begin

text \<open>
  \<open>src/pipeline/audit.py\<close>: the hash-chained, append-only streams.  A file is the sequence of
  its lines, each blank, not JSON, or a decoded value, and whether the last one is closed by a
  newline (an append after a torn tail lands on that very line).  The canonical form of a record
  sorts its keys at every level; \<open>digest\<close> is the hash of a canonical record, any function: what
  collision resistance buys is stated as an explicit collision.  Python's \<open>int()\<close> on the stored
  \<open>seq\<close> and the errors it raises are part of an append.
\<close>

subsection \<open>Files of JSON lines\<close>

datatype line = Blank | Junk | Json pyval

record lines_file =
  rows :: "line list"
  closed :: bool

type_synonym stream = "lines_file option"

definition empty_file :: lines_file where
  "empty_file = \<lparr>rows = [], closed = True\<rparr>"

text \<open>The records a reader meets: the lines that are not blank.\<close>

definition content :: "stream \<Rightarrow> line list" where
  "content st = (case st of None \<Rightarrow> [] | Some f \<Rightarrow> filter (\<lambda>l. l \<noteq> Blank) (rows f))"

text \<open>
  Writing one line at the end of the file.  On an unclosed tail the text joins the last line:
  white space in front leaves a JSON line JSON, anything else makes it junk.
\<close>

definition joined :: "line \<Rightarrow> line \<Rightarrow> line" where
  "joined old new = (if old = Blank then new else Junk)"

definition write_line :: "line \<Rightarrow> lines_file \<Rightarrow> lines_file" where
  "write_line l f =
     (if closed f \<or> rows f = [] then \<lparr>rows = rows f @ [l], closed = True\<rparr>
      else \<lparr>rows = butlast (rows f) @ [joined (last (rows f)) l], closed = True\<rparr>)"

definition created :: "stream \<Rightarrow> lines_file" where
  "created st = (case st of None \<Rightarrow> empty_file | Some f \<Rightarrow> f)"

text \<open>A file whose next append starts a line of its own.\<close>

definition clean :: "stream \<Rightarrow> bool" where
  "clean st = (case st of None \<Rightarrow> True | Some f \<Rightarrow> closed f \<or> rows f = [] \<or> last (rows f) = Blank)"

lemma content_simps [simp]:
  "content None = []"
  "content (Some empty_file) = []"
  by (simp_all add: content_def empty_file_def)

lemma content_created [simp]: "content (Some (created st)) = content st"
  by (simp add: created_def content_def empty_file_def split: option.split)

lemma clean_created [simp]: "clean (Some (created st)) = clean st"
  by (simp add: created_def clean_def empty_file_def split: option.split)

lemma clean_write [simp]: "clean (Some (write_line l f))"
  by (simp add: clean_def write_line_def)

lemma content_write:
  assumes "clean (Some f)" "l \<noteq> Blank"
  shows "content (Some (write_line l f)) = content (Some f) @ [l]"
proof (cases "closed f \<or> rows f = []")
  case True
  with assms(2) show ?thesis by (simp add: content_def write_line_def)
next
  case False
  with assms(1) have b: "last (rows f) = Blank" by (simp add: clean_def)
  from False obtain ls x where "rows f = ls @ [x]" by (metis rev_exhaust)
  with b have "rows f = ls @ [Blank]" by simp
  with False assms(2) show ?thesis by (simp add: content_def write_line_def joined_def)
qed

lemma content_write_torn:
  assumes "\<not> clean (Some f)"
  shows "content (Some (write_line l f)) = butlast (content (Some f)) @ [Junk]"
proof -
  from assms have u: "\<not> closed f" "rows f \<noteq> []" "last (rows f) \<noteq> Blank"
    by (auto simp: clean_def)
  from u(2) obtain ls x where "rows f = ls @ [x]" by (metis rev_exhaust)
  with u show ?thesis by (simp add: content_def write_line_def joined_def butlast_append)
qed

subsection \<open>The canonical form\<close>

text \<open>\<open>json.dumps(record, sort_keys=True, ...)\<close>, up to the text: keys sorted at every level.\<close>

primrec canonv :: "pyval \<Rightarrow> pyval" where
  "canonv PNone = PNone"
| "canonv (PBool b) = PBool b"
| "canonv (PInt i) = PInt i"
| "canonv (PFloat x) = PFloat x"
| "canonv (PStr s) = PStr s"
| "canonv (PList xs) = PList (map canonv xs)"
| "canonv (PDict d) = PDict (sort_key fst (map (map_prod id canonv) d))"

definition canonical :: "pydict \<Rightarrow> pydict" where
  "canonical d = sort_key fst (map (map_prod id canonv) d)"

lemma map_of_insort: "map_of (insort_key fst x xs) = map_of (x # xs)"
  by (induction xs) (auto simp: fun_eq_iff)

lemma map_of_sort [simp]: "map_of (sort_key fst xs) = map_of xs"
  by (induction xs) (auto simp: map_of_insort fun_eq_iff)

lemma dget_canonical [simp]: "dget (canonical d) k = map_option canonv (dget d k)"
proof -
  have "map_of (map (map_prod id canonv) d) k = map_option canonv (map_of d k)"
    by (induction d) auto
  then show ?thesis by (simp add: canonical_def dget_def)
qed

lemma dpop_canonical: "dpop k (canonical d) = canonical (dpop k d)"
proof -
  have "filter (\<lambda>x. k \<noteq> fst x) (map (map_prod id canonv) d) =
      map (map_prod id canonv) (filter (\<lambda>x. k \<noteq> fst x) d)"
    by (induction d) auto
  then show ?thesis
    by (simp add: dpop_def AList.delete_eq canonical_def filter_sort split_def)
qed

lemma sort_key_idem: "sort_key f (sort_key f xs) = sort_key f xs"
  by (simp add: sort_key_id_if_sorted)

lemma canonical_sorted_map:
  assumes "\<And>k x. (k, x) \<in> set d \<Longrightarrow> g (g x) = g x"
  shows "sort_key fst (map (map_prod id g) (sort_key fst (map (map_prod id g) d))) =
    sort_key fst (map (map_prod id g) d)"
proof -
  have "map (map_prod id g) (sort_key fst (map (map_prod id g) d)) =
      sort_key fst (map (map_prod id g) d)"
    by (rule map_idI) (use assms in \<open>auto simp: image_iff\<close>)
  then show ?thesis by (simp add: sort_key_idem)
qed

lemma canonv_idem [simp]: "canonv (canonv v) = canonv v"
proof (induction v)
  case (PList xs)
  then show ?case by simp
next
  case (PDict d)
  have "canonv (canonv x) = canonv x" if "(k, x) \<in> set d" for k x
    using that PDict by (force simp: snds.simps)
  then show ?case using canonical_sorted_map [of d canonv] by simp
qed simp_all

lemma canonical_idem [simp]: "canonical (canonical d) = canonical d"
  unfolding canonical_def by (rule canonical_sorted_map) simp

lemma canonv_str [simp]: "canonv v = PStr s \<longleftrightarrow> v = PStr s"
  by (cases v) auto

lemma canonv_int [simp]: "canonv v = PInt i \<longleftrightarrow> v = PInt i"
  by (cases v) auto

subsection \<open>Records\<close>

definition record_hash :: "(pydict \<Rightarrow> string) \<Rightarrow> pydict \<Rightarrow> string" where
  "record_hash digest r = digest (canonical (dpop ''hash'' r))"

lemma record_hash_canonical [simp]: "record_hash digest (canonical r) = record_hash digest r"
  by (simp add: record_hash_def dpop_canonical)

text \<open>\<open>_tail\<close>: the last record, \<open>None\<close> for a missing file and for an unusable last line.\<close>

definition tail_record :: "stream \<Rightarrow> pydict option" where
  "tail_record st =
     (case rev (content st) of
        Json (PDict r) # _ \<Rightarrow> Some r
      | _ \<Rightarrow> None)"

datatype io = IoOk | IoOpenError | IoReadError | IoWriteError

datatype exn = TypeErr | ValueErr | OverflowErr | OSErr

fun py_int :: "pyval \<Rightarrow> exn + int" where
  "py_int (PInt i) = Inr i"
| "py_int (PBool b) = Inr (if b then 1 else 0)"
| "py_int (PFloat (Fin q)) = Inr (if q < 0 then \<lceil>q\<rceil> else \<lfloor>q\<rfloor>)"
| "py_int (PFloat NaN) = Inl ValueErr"
| "py_int (PFloat PInf) = Inl OverflowErr"
| "py_int (PFloat NInf) = Inl OverflowErr"
| "py_int (PStr s) = (case int_of_str s of Some i \<Rightarrow> Inr i | None \<Rightarrow> Inl ValueErr)"
| "py_int PNone = Inl TypeErr"
| "py_int (PList _) = Inl TypeErr"
| "py_int (PDict _) = Inl TypeErr"

definition next_seq :: "pydict option \<Rightarrow> exn + int" where
  "next_seq previous =
     (case previous of
        None \<Rightarrow> Inr 0
      | Some p \<Rightarrow> bindE (py_int (dget_or p ''seq'' (PInt 0))) (\<lambda>n. Inr (n + 1)))"

definition next_prev_hash :: "pydict option \<Rightarrow> pyval" where
  "next_prev_hash previous =
     (case previous of None \<Rightarrow> PStr [] | Some p \<Rightarrow> dget_or p ''hash'' (PStr []))"

text \<open>The arguments of an append: action, outcome, target and detail.\<close>

record audit_entry =
  a_action :: string
  a_outcome :: string
  a_target :: pydict
  a_detail :: pydict

definition audit_body ::
  "bound_request \<Rightarrow> string \<Rightarrow> audit_entry \<Rightarrow> int \<Rightarrow> pyval \<Rightarrow> pydict" where
  "audit_body rq now e seq prev =
     [(''seq'', PInt seq), (''prev_hash'', prev), (''ts'', PStr now),
      (''actor'', PStr (actor_id rq)), (''principal_type'', PStr (actor_type rq)),
      (''client_id'', PStr (actor_client rq)),
      (''correlation_id'', PStr (current_correlation_id rq)),
      (''action'', PStr (a_action e)), (''outcome'', PStr (a_outcome e)),
      (''target'', PDict (a_target e)), (''detail'', PDict (a_detail e))]"

text \<open>\<open>record["hash"] = _record_hash(record)\<close>\<close>

definition sealed :: "(pydict \<Rightarrow> string) \<Rightarrow> pydict \<Rightarrow> pydict" where
  "sealed digest r = dset ''hash'' (PStr (record_hash digest r)) r"

text \<open>
  \<open>_append_at\<close>: the file exists from the moment it is opened; the record is written only when
  its position could be read off the tail.
\<close>

definition append_at ::
  "(pydict \<Rightarrow> string) \<Rightarrow> io \<Rightarrow> bound_request \<Rightarrow> string \<Rightarrow> audit_entry \<Rightarrow> stream \<Rightarrow>
   (exn + pydict) \<times> stream" where
  "append_at digest io rq now e st =
     (if io = IoOpenError then (Inl OSErr, st)
      else
        let f = created st; previous = tail_record (Some f) in
        if io = IoReadError then (Inl OSErr, Some f)
        else case next_seq previous of
          Inl x \<Rightarrow> (Inl x, Some f)
        | Inr seq \<Rightarrow>
            let r = sealed digest (audit_body rq now e seq (next_prev_hash previous)) in
            if io = IoWriteError then (Inl OSErr, Some f)
            else (Inr r, Some (write_line (Json (PDict (canonical r))) f)))"

text \<open>\<open>record_audit\<close>: an \<open>OSError\<close> is logged and dropped; anything else reaches the caller.\<close>

definition record_audit ::
  "(pydict \<Rightarrow> string) \<Rightarrow> io \<Rightarrow> bound_request \<Rightarrow> string \<Rightarrow> audit_entry \<Rightarrow> stream \<Rightarrow>
   (exn + unit) \<times> stream" where
  "record_audit digest io rq now e st =
     (case append_at digest io rq now e st of
        (Inr _, st') \<Rightarrow> (Inr (), st')
      | (Inl x, st') \<Rightarrow> (if x = OSErr then Inr () else Inl x, st'))"

subsection \<open>Verification\<close>

fun verify_lines :: "(pydict \<Rightarrow> string) \<Rightarrow> line list \<Rightarrow> string \<Rightarrow> nat \<Rightarrow> nat option" where
  "verify_lines digest [] prev i = None"
| "verify_lines digest (l # ls) prev i =
     (case l of
        Json (PDict r) \<Rightarrow>
          if \<not> py_eq (dgetN r ''seq'') (PInt (int i)) then Some i
          else if \<not> py_eq (dgetN r ''prev_hash'') (PStr prev) then Some i
          else if \<not> py_eq (dgetN r ''hash'') (PStr (record_hash digest r)) then Some i
          else verify_lines digest ls (the_str (dget_or r ''hash'' (PStr []))) (Suc i)
      | _ \<Rightarrow> Some i)"

definition verify_chain_at :: "(pydict \<Rightarrow> string) \<Rightarrow> stream \<Rightarrow> nat option" where
  "verify_chain_at digest st = verify_lines digest (content st) [] 0"

text \<open>The three links a chain of records is made of, as a specification of the verifier.\<close>

fun chained :: "(pydict \<Rightarrow> string) \<Rightarrow> string \<Rightarrow> nat \<Rightarrow> pydict list \<Rightarrow> bool" where
  "chained digest prev i [] = True"
| "chained digest prev i (r # rs) =
     (py_eq (dgetN r ''seq'') (PInt (int i)) \<and> dgetN r ''prev_hash'' = PStr prev \<and>
      dgetN r ''hash'' = PStr (record_hash digest r) \<and>
      chained digest (record_hash digest r) (Suc i) rs)"

definition json_lines :: "pydict list \<Rightarrow> line list" where
  "json_lines rs = map (\<lambda>r. Json (PDict r)) rs"

definition chain_head :: "(pydict \<Rightarrow> string) \<Rightarrow> string \<Rightarrow> pydict list \<Rightarrow> string" where
  "chain_head digest prev rs = (if rs = [] then prev else record_hash digest (last rs))"

lemma dgetN_str: "dgetN r k = PStr s \<longleftrightarrow> dget r k = Some (PStr s)"
  by (auto simp: dgetN_def split: option.split)

lemma dget_or_str: "dget_or r k (PStr []) = PStr s \<longleftrightarrow> dget r k = Some (PStr s) \<or> (dget r k = None \<and> s = [])"
  by (auto simp: dget_or_def split: option.split)

lemma verify_lines_None_iff:
  "verify_lines digest ls prev i = None \<longleftrightarrow>
     (\<exists>rs. ls = json_lines rs \<and> chained digest prev i rs)"
proof (induction ls arbitrary: prev i)
  case Nil
  then show ?case by (simp add: json_lines_def)
next
  case (Cons l ls)
  show ?case
  proof (cases "\<exists>r. l = Json (PDict r)")
    case True
    then obtain r where "l = Json (PDict r)" ..
    moreover have "(\<exists>rs. ls = json_lines rs \<and> P \<and> chained digest p j rs) \<longleftrightarrow>
        P \<and> (\<exists>rs. ls = json_lines rs \<and> chained digest p j rs)" for P p j by blast
    ultimately show ?thesis
      by (auto simp: Cons.IH json_lines_def Cons_eq_map_conv dgetN_str dget_or_def)
  next
    case False
    then show ?thesis
      by (auto simp: json_lines_def split: line.split pyval.split)
  qed
qed

lemma chained_append:
  "chained digest prev i (rs @ ss) \<longleftrightarrow>
     chained digest prev i rs \<and> chained digest (chain_head digest prev rs) (i + length rs) ss"
  by (induction rs arbitrary: prev i) (auto simp: chain_head_def)

lemma verify_lines_append_Some:
  "verify_lines digest ls prev i = Some j \<Longrightarrow> verify_lines digest (ls @ ms) prev i = Some j"
  by (induction ls arbitrary: prev i) (auto split: line.splits pyval.splits if_splits)

lemma verify_lines_Some_less:
  "verify_lines digest ls prev i = Some j \<Longrightarrow> i \<le> j \<and> j < i + length ls"
  by (induction ls arbitrary: prev i) (fastforce split: line.splits pyval.splits if_splits)+

lemma verify_chain_None_iff:
  "verify_chain_at digest st = None \<longleftrightarrow>
     (\<exists>rs. content st = json_lines rs \<and> chained digest [] 0 rs)"
  by (simp add: verify_chain_at_def verify_lines_None_iff)

lemma intact_intro:
  "content st = json_lines rs \<Longrightarrow> chained digest [] 0 rs \<Longrightarrow> verify_chain_at digest st = None"
  by (auto simp: verify_chain_None_iff)

lemma tail_record_json:
  "content st = json_lines rs \<Longrightarrow>
   tail_record st = (if rs = [] then None else Some (last rs))"
  by (cases rs rule: rev_cases) (auto simp: tail_record_def json_lines_def)

lemma json_lines_snoc: "json_lines rs @ [Json (PDict r)] = json_lines (rs @ [r])"
  by (simp add: json_lines_def)

lemma json_lines_append: "json_lines (rs @ ss) = json_lines rs @ json_lines ss"
  by (simp add: json_lines_def)

lemma py_eq_int_py_int: "py_eq v (PInt i) \<Longrightarrow> py_int v = Inr i"
proof (cases v)
  case (PFloat x)
  assume "py_eq v (PInt i)"
  with PFloat have "x = Fin (of_int i)" by (cases x) auto
  with PFloat show ?thesis by simp
qed auto

text \<open>What an append needs of the tail of an intact chain.\<close>

lemma intact_position:
  assumes "content st = json_lines rs" "chained digest [] 0 rs"
  shows "next_seq (tail_record st) = Inr (int (length rs))"
    and "next_prev_hash (tail_record st) = PStr (chain_head digest [] rs)"
proof -
  show "next_seq (tail_record st) = Inr (int (length rs))"
  proof (cases rs rule: rev_cases)
    case Nil
    then show ?thesis using tail_record_json [OF assms(1)] by (simp add: next_seq_def)
  next
    case (snoc ss r)
    with assms(2) have e: "py_eq (dgetN r ''seq'') (PInt (int (length ss)))"
      by (simp add: chained_append)
    then have "dget_or r ''seq'' (PInt 0) = dgetN r ''seq''"
      by (auto simp: dget_or_def dgetN_def split: option.splits)
    with e py_eq_int_py_int show ?thesis
      using snoc tail_record_json [OF assms(1)] by (simp add: next_seq_def)
  qed
  show "next_prev_hash (tail_record st) = PStr (chain_head digest [] rs)"
  proof (cases rs rule: rev_cases)
    case Nil
    then show ?thesis
      using tail_record_json [OF assms(1)] by (simp add: next_prev_hash_def chain_head_def)
  next
    case (snoc ss r)
    with assms(2) have "dget r ''hash'' = Some (PStr (record_hash digest r))"
      by (simp add: chained_append dgetN_str)
    then show ?thesis using snoc tail_record_json [OF assms(1)]
      by (simp add: next_prev_hash_def chain_head_def dget_or_def)
  qed
qed

text \<open>A sealed record with the right position continues the chain in its canonical form.\<close>

lemma dpop_dset: "dpop k (dset k v d) = dpop k d"
  unfolding dpop_def dset_def by (induction d) (auto simp: AList.delete_eq)

lemma record_hash_sealed [simp]: "record_hash digest (sealed digest r) = record_hash digest r"
  by (simp add: record_hash_def sealed_def dpop_dset)

lemma sealed_fields [simp]:
  "k \<noteq> ''hash'' \<Longrightarrow> dget (sealed digest r) k = dget r k"
  "dget (sealed digest r) ''hash'' = Some (PStr (record_hash digest r))"
  by (simp_all add: sealed_def)

lemma sealed_chained:
  assumes "dget r ''seq'' = Some (PInt (int i))" "dget r ''prev_hash'' = Some (PStr prev)"
  shows "chained digest prev i [canonical (sealed digest r)]"
  using assms by (simp add: dgetN_def)

subsection \<open>The contract of a chained stream\<close>

text \<open>
  What the verifier and the anchor rely on from whoever appends: on an intact stream an append
  only adds lines at the end and leaves the stream intact and clean.  The audit stream and the
  decision stream both provide it.
\<close>

locale chained_stream =
  fixes append :: "'q \<Rightarrow> stream \<Rightarrow> stream"
    and digest :: "pydict \<Rightarrow> string"
  assumes append_grows:
    "clean st \<Longrightarrow> verify_chain_at digest st = None \<Longrightarrow>
     \<exists>ls. content (append q st) = content st @ ls \<and> clean (append q st) \<and>
          verify_chain_at digest (append q st) = None"
begin

definition run :: "'q list \<Rightarrow> stream \<Rightarrow> stream" where
  "run qs st = fold append qs st"

lemma run_grows:
  "clean st \<Longrightarrow> verify_chain_at digest st = None \<Longrightarrow>
   \<exists>ls. content (run qs st) = content st @ ls \<and> clean (run qs st) \<and>
        verify_chain_at digest (run qs st) = None"
proof (induction qs arbitrary: st)
  case Nil
  then show ?case by (simp add: run_def)
next
  case (Cons q qs)
  from append_grows [OF Cons.prems, of q] obtain ls where
    "content (append q st) = content st @ ls" "clean (append q st)"
    "verify_chain_at digest (append q st) = None" by blast
  moreover from Cons.IH [OF this(2,3)] obtain ms where
    "content (run qs (append q st)) = content (append q st) @ ms" "clean (run qs (append q st))"
    "verify_chain_at digest (run qs (append q st)) = None" by blast
  ultimately show ?case by (simp add: run_def)
qed

lemma run_from_nothing: "verify_chain_at digest (run qs None) = None"
  using run_grows [of None qs] by (simp add: clean_def verify_chain_at_def)

end

subsection \<open>The audit stream\<close>

text \<open>The three ways an append ends.\<close>

lemma append_at_cases:
  obtains (ok) seq where
      "io = IoOk" "next_seq (tail_record st) = Inr seq"
      "append_at digest io rq now e st =
         (Inr (sealed digest (audit_body rq now e seq (next_prev_hash (tail_record st)))),
          Some (write_line (Json (PDict (canonical (sealed digest
            (audit_body rq now e seq (next_prev_hash (tail_record st))))))) (created st)))"
  | (failed) x where "append_at digest io rq now e st = (Inl x, Some (created st))"
  | (unopened) "io = IoOpenError" "append_at digest io rq now e st = (Inl OSErr, st)"
proof -
  have t: "tail_record (Some (created st)) = tail_record st" by (simp add: tail_record_def)
  show thesis
  proof (cases "io = IoOpenError")
    case True
    then show thesis by (intro unopened) (simp_all add: append_at_def)
  next
    case False
    show thesis
    proof (cases "next_seq (tail_record st)")
      case (Inl x)
      with False show thesis
        by (intro failed [of "if io = IoReadError then OSErr else x"])
           (simp add: append_at_def t Let_def)
    next
      case (Inr seq)
      show thesis
      proof (cases "io = IoOk")
        case True
        with Inr show thesis by (intro ok [of seq]) (simp_all add: append_at_def t Let_def)
      next
        case noOk: False
        with False have "io = IoWriteError \<or> io = IoReadError" by (cases io) auto
        with Inr show thesis by (intro failed [of OSErr]) (auto simp: append_at_def t Let_def)
      qed
    qed
  qed
qed

lemma append_at_intact:
  assumes "clean st" "content st = json_lines rs" "chained digest [] 0 rs"
  shows "\<exists>ss. content (snd (append_at digest io rq now e st)) = json_lines (rs @ ss) \<and>
    chained digest [] 0 (rs @ ss) \<and> clean (snd (append_at digest io rq now e st)) \<and>
    length ss \<le> 1"
proof (cases rule: append_at_cases [of io st digest rq now e])
  case (ok seq)
  from intact_position [OF assms(2,3)] ok(2) have
    p: "seq = int (length rs)" "next_prev_hash (tail_record st) = PStr (chain_head digest [] rs)"
    by auto
  define r where "r = sealed digest (audit_body rq now e seq (next_prev_hash (tail_record st)))"
  have "chained digest (chain_head digest [] rs) (length rs) [canonical r]"
    unfolding r_def by (rule sealed_chained) (simp_all add: audit_body_def p)
  with assms(3) have "chained digest [] 0 (rs @ [canonical r])"
    by (simp only: chained_append) simp
  moreover have "content (snd (append_at digest io rq now e st)) = json_lines (rs @ [canonical r])"
    using ok(3) assms(1,2) by (simp add: content_write r_def [symmetric] json_lines_snoc)
  ultimately show ?thesis using ok(3) by (intro exI [of _ "[canonical r]"]) simp
next
  case (failed x)
  with assms show ?thesis by (intro exI [of _ "[]"]) simp
next
  case unopened
  with assms show ?thesis by (intro exI [of _ "[]"]) simp
qed

text \<open>One call of \<open>append_at\<close>: the state of the disk, the request, the clock, the arguments.\<close>

type_synonym audit_call = "io \<times> bound_request \<times> string \<times> audit_entry"

definition do_append :: "(pydict \<Rightarrow> string) \<Rightarrow> audit_call \<Rightarrow> stream \<Rightarrow> stream" where
  "do_append digest c st = (case c of (io, rq, now, e) \<Rightarrow> snd (append_at digest io rq now e st))"

interpretation audit_stream: chained_stream "do_append digest" digest for digest
proof unfold_locales
  fix st and q :: audit_call
  assume c: "clean st" and v: "verify_chain_at digest st = None"
  obtain io rq now e where q: "q = (io, rq, now, e)" by (cases q)
  from v obtain rs where rs: "content st = json_lines rs" "chained digest [] 0 rs"
    by (auto simp: verify_chain_None_iff)
  from append_at_intact [OF c rs, of io rq now e] obtain ss where
    "content (do_append digest q st) = json_lines (rs @ ss)" "chained digest [] 0 (rs @ ss)"
    "clean (do_append digest q st)" by (auto simp: do_append_def q)
  then show "\<exists>ls. content (do_append digest q st) = content st @ ls \<and>
      clean (do_append digest q st) \<and> verify_chain_at digest (do_append digest q st) = None"
    using rs(1) intact_intro json_lines_append by metis
qed

lemma append_at_altered:
  fixes io :: io
  assumes "clean st" "verify_chain_at digest st = Some j"
  shows "verify_chain_at digest (snd (append_at digest io rq now e st)) = Some j"
  using assms
  by (cases rule: append_at_cases [of io st digest rq now e])
     (simp_all add: verify_chain_at_def content_write verify_lines_append_Some)

text \<open>Two chains that end in the same hash: equal canonical records, or a collision.\<close>

definition payload :: "pydict \<Rightarrow> pydict" where
  "payload r = canonical (dpop ''hash'' r)"

definition collision :: "(pydict \<Rightarrow> string) \<Rightarrow> pydict list \<Rightarrow> pydict list \<Rightarrow> bool" where
  "collision digest rs ss =
     (\<exists>r \<in> set rs. \<exists>s \<in> set ss. payload r \<noteq> payload s \<and> digest (payload r) = digest (payload s))"

lemma canonv_num: "py_eq v (PInt i) \<Longrightarrow> canonv v = v"
  by (cases v) auto

lemma payload_fields [simp]:
  "k \<noteq> ''hash'' \<Longrightarrow> dget (payload r) k = map_option canonv (dget r k)"
  by (simp add: payload_def)

lemma payload_seq:
  assumes "payload r = payload s"
    and "py_eq (dgetN r ''seq'') (PInt i)" "py_eq (dgetN s ''seq'') (PInt j)"
  shows "i = j"
proof -
  from assms(1) have m: "map_option canonv (dget r ''seq'') = map_option canonv (dget s ''seq'')"
    using payload_fields [of "''seq''" r] payload_fields [of "''seq''" s] by simp
  from assms(2,3) obtain v w where v: "dget r ''seq'' = Some v" "dget s ''seq'' = Some w"
    by (auto simp: dgetN_def split: option.splits)
  with assms(2,3) have e: "py_eq v (PInt i)" "py_eq w (PInt j)" by (auto simp: dgetN_def)
  with m v have "v = w" by (simp add: canonv_num)
  with py_eq_int_py_int [OF e(1)] py_eq_int_py_int [OF e(2)] show "i = j" by simp
qed

lemma payload_prev_hash:
  assumes "payload r = payload s" "dgetN r ''prev_hash'' = PStr a" "dgetN s ''prev_hash'' = PStr b"
  shows "a = b"
proof -
  have "map_option canonv (dget r ''prev_hash'') = map_option canonv (dget s ''prev_hash'')"
    using assms(1) payload_fields [of "''prev_hash''" r] payload_fields [of "''prev_hash''" s]
    by simp
  with assms(2,3) show ?thesis by (simp add: dgetN_str)
qed

lemma chains_agree:
  assumes "chained digest [] 0 (rs @ [r])" "chained digest [] 0 (ss @ [s])"
    and "record_hash digest r = record_hash digest s"
    and "\<not> collision digest (rs @ [r]) (ss @ [s])"
  shows "map payload (rs @ [r]) = map payload (ss @ [s])"
  using assms
proof (induction rs arbitrary: r s ss rule: rev_induct)
  case Nil
  from Nil.prems(3,4) have p: "payload r = payload s"
    by (auto simp: collision_def record_hash_def payload_def)
  from Nil.prems(1,2) have "py_eq (dgetN r ''seq'') (PInt (int 0))"
    "py_eq (dgetN s ''seq'') (PInt (int (length ss)))" by (auto simp: chained_append)
  from payload_seq [OF p this] have "ss = []" by simp
  with p show ?case by simp
next
  case (snoc q rs)
  from snoc.prems(3,4) have p: "payload r = payload s"
    by (auto simp: collision_def record_hash_def payload_def)
  from snoc.prems(1,2) have "py_eq (dgetN r ''seq'') (PInt (int (Suc (length rs))))"
    "py_eq (dgetN s ''seq'') (PInt (int (length ss)))" by (auto simp: chained_append)
  from payload_seq [OF p this] have "length ss = Suc (length rs)" by linarith
  then obtain ss' q' where ss: "ss = ss' @ [q']" by (cases ss rule: rev_cases) auto
  from snoc.prems(1,2) ss have "dgetN r ''prev_hash'' = PStr (record_hash digest q)"
    "dgetN s ''prev_hash'' = PStr (record_hash digest q')"
    by (auto simp: chained_append chain_head_def)
  from payload_prev_hash [OF p this] have "record_hash digest q = record_hash digest q'" .
  moreover have "chained digest [] 0 (rs @ [q])" "chained digest [] 0 (ss' @ [q'])"
    using snoc.prems(1,2) ss by (auto simp: chained_append)
  moreover have "\<not> collision digest (rs @ [q]) (ss' @ [q'])"
    using snoc.prems(4) ss by (auto simp: collision_def)
  ultimately have "map payload (rs @ [q]) = map payload (ss' @ [q'])" using snoc.IH by blast
  with p ss show ?case by simp
qed

text \<open>The records of a stream and the hash it ends in.\<close>

definition stream_records :: "stream \<Rightarrow> pydict list" where
  "stream_records st =
     concat (map (\<lambda>l. case l of Json (PDict r) \<Rightarrow> [r] | _ \<Rightarrow> []) (content st))"

definition head_hash :: "stream \<Rightarrow> pyval option" where
  "head_hash st = map_option (\<lambda>r. dgetN r ''hash'') (tail_record st)"

lemma stream_records_json: "content st = json_lines rs \<Longrightarrow> stream_records st = rs"
proof -
  have "concat (map (\<lambda>l. case l of Json (PDict r) \<Rightarrow> [r] | _ \<Rightarrow> []) (json_lines rs)) = rs" for rs
    by (induction rs) (simp_all add: json_lines_def)
  then show "content st = json_lines rs \<Longrightarrow> stream_records st = rs"
    by (simp add: stream_records_def)
qed

lemma intact_records:
  assumes "verify_chain_at digest st = None"
  shows "content st = json_lines (stream_records st) \<and> chained digest [] 0 (stream_records st)"
proof -
  from assms obtain rs where "content st = json_lines rs" "chained digest [] 0 rs"
    by (auto simp: verify_chain_None_iff)
  moreover from this(1) have "stream_records st = rs" by (rule stream_records_json)
  ultimately show ?thesis by simp
qed

lemma head_hash_intact:
  assumes "verify_chain_at digest st = None"
  shows "head_hash st =
    (if stream_records st = [] then None
     else Some (PStr (record_hash digest (last (stream_records st)))))"
proof -
  from intact_records [OF assms] have
    c: "content st = json_lines (stream_records st)" "chained digest [] 0 (stream_records st)"
    by auto
  show ?thesis
  proof (cases "stream_records st" rule: rev_cases)
    case Nil
    then show ?thesis using tail_record_json [OF c(1)] by (simp add: head_hash_def)
  next
    case (snoc rs r)
    with c(2) have "dgetN r ''hash'' = PStr (record_hash digest r)" by (simp add: chained_append)
    with snoc show ?thesis using tail_record_json [OF c(1)] by (simp add: head_hash_def)
  qed
qed

subsection \<open>Properties\<close>

text \<open>
  No append, whatever the disk, the clock, the caller and its arguments, changes what the
  verifier says of a stream that ends in a complete line: an intact chain stays intact and an
  altered one stays altered at the same record.
\<close>

lemma append_keeps_verdict:
  assumes "clean st"
  shows "verify_chain_at digest (snd (append_at digest io rq now e st)) =
    verify_chain_at digest st"
proof (cases "verify_chain_at digest st")
  case None
  then show ?thesis
    using audit_stream.append_grows [OF assms None, of "(io, rq, now, e)"]
    by (auto simp: do_append_def)
next
  case (Some j)
  with append_at_altered [OF assms Some] show ?thesis by simp
qed

definition demo_entry :: audit_entry where
  "demo_entry = \<lparr>a_action = ''plan:approve'', a_outcome = ''allowed'', a_target = [], a_detail = []\<rparr>"

text \<open>A stand-in for the hash in examples: the number of fields.\<close>

definition demo_digest :: "pydict \<Rightarrow> string" where
  "demo_digest d = replicate (length d) CHR ''a''"

lemma append_keeps_verdict_witness:
  "verify_chain_at demo_digest
     (snd (append_at demo_digest IoOk no_request ''t'' demo_entry
        (Some \<lparr>rows = [Junk], closed = True\<rparr>))) = Some 0"
proof -
  have "clean (Some \<lparr>rows = [Junk], closed = True\<rparr>)" by (simp add: clean_def)
  from append_keeps_verdict [OF this, of demo_digest IoOk no_request "''t''" demo_entry]
  show ?thesis by (simp add: verify_chain_at_def content_def)
qed

text \<open>
  C16: Tamper evidence.  Two streams that both verify and end in the same hash hold the same
  records, field for field in canonical form, or a record of one and a record of the other are a
  collision of the hash function.
\<close>

theorem tamper_evident:
  assumes "verify_chain_at digest st = None" "verify_chain_at digest st' = None"
    and "head_hash st = head_hash st'"
  shows "map payload (stream_records st) = map payload (stream_records st') \<or>
    collision digest (stream_records st) (stream_records st')"
proof (cases "stream_records st" rule: rev_cases)
  case Nil
  with assms show ?thesis by (auto simp: head_hash_intact split: if_splits)
next
  case (snoc rs r)
  with assms have "stream_records st' \<noteq> []" by (auto simp: head_hash_intact split: if_splits)
  then obtain ss s where ss: "stream_records st' = ss @ [s]"
    by (cases "stream_records st'" rule: rev_cases) auto
  from assms snoc ss have "record_hash digest r = record_hash digest s"
    by (simp add: head_hash_intact)
  then show ?thesis
    using chains_agree [of digest rs r ss s] snoc ss
      intact_records [OF assms(1)] intact_records [OF assms(2)] by metis
qed

theorem tamper_evident_witness:
  "map payload (stream_records (snd (append_at demo_digest IoOk no_request ''t'' demo_entry None))) =
     map payload (stream_records (snd (append_at demo_digest IoOk no_request ''u'' demo_entry None))) \<or>
   collision demo_digest
     (stream_records (snd (append_at demo_digest IoOk no_request ''t'' demo_entry None)))
     (stream_records (snd (append_at demo_digest IoOk no_request ''u'' demo_entry None)))"
  by (rule tamper_evident; code_simp)

text \<open>
  Every stream that only appends ever wrote verifies: from no file at all, any sequence of
  append calls (failed writes and failed opens among them) leaves an intact chain, and so does
  any of its beginnings, which is why a cut tail is invisible to the chain alone.
\<close>

lemma appended_streams_verify:
  "verify_chain_at digest (fold (do_append digest) calls None) = None \<and>
   verify_lines digest (take k (content (fold (do_append digest) calls None))) [] 0 = None"
proof -
  have v: "verify_chain_at digest (fold (do_append digest) calls None) = None"
    using audit_stream.run_from_nothing [of digest calls] by (simp add: audit_stream.run_def)
  have "verify_lines digest (take k ls) [] 0 = None" if "verify_lines digest ls [] 0 = None" for ls
    using verify_lines_append_Some [of digest "take k ls" "[]" 0 _ "drop k ls"] that
    by (cases "verify_lines digest (take k ls) [] 0") auto
  with v show ?thesis by (simp add: verify_chain_at_def)
qed

text \<open>
  The audit write that must never change its caller's decision does raise: a tail record
  whose \<open>seq\<close> is not a number makes \<open>int()\<close> fail and only \<open>OSError\<close> is caught, so the exception
  reaches the authorization path.
\<close>

lemma record_audit_raises:
  "fst (record_audit digest IoOk rq now e
     (Some \<lparr>rows = [Json (PDict [(''seq'', PNone)])], closed = True\<rparr>)) = Inl TypeErr"
  by (simp add: record_audit_def append_at_def created_def tail_record_def content_def
      next_seq_def dget_or_def)

text \<open>
  An append to an intact stream whose last line lacks its newline reports success, but its
  text joins that line: the last record and the new one are both lost, and the chain is broken
  from there on.
\<close>

lemma torn_tail_loses_records:
  assumes "\<not> clean st" "verify_chain_at digest st = None"
  shows "(\<exists>r. fst (append_at digest IoOk rq now e st) = Inr r) \<and>
    content (snd (append_at digest IoOk rq now e st)) = butlast (content st) @ [Junk] \<and>
    verify_chain_at digest (snd (append_at digest IoOk rq now e st)) =
      Some (length (content st) - 1)"
proof -
  from assms(2) obtain rs where rs: "content st = json_lines rs" "chained digest [] 0 rs"
    by (auto simp: verify_chain_None_iff)
  have t: "tail_record (Some (created st)) = tail_record st" by (simp add: tail_record_def)
  obtain r where r: "append_at digest IoOk rq now e st =
      (Inr r, Some (write_line (Json (PDict (canonical r))) (created st)))"
    using intact_position(1) [OF rs] by (simp add: append_at_def t Let_def)
  have c: "content (Some (write_line l (created st))) = butlast (content st) @ [Junk]" for l
    using content_write_torn [of "created st" l] assms(1) by simp
  from assms(1) have "content st \<noteq> []"
    by (auto simp: clean_def content_def filter_empty_conv split: option.splits)
  moreover have "verify_lines digest (ls @ [Junk]) prev i = Some (i + length ls)"
    if "chained digest prev i qs" "ls = json_lines qs" for ls qs prev i
    using that by (induction qs arbitrary: ls prev i) (auto simp: json_lines_def dgetN_str dget_or_def)
  moreover have "butlast (content st) = json_lines (butlast rs)"
    using rs(1) by (simp add: json_lines_def map_butlast)
  moreover have "length (json_lines (butlast rs)) = length (content st) - 1"
    using rs(1) by (simp add: json_lines_def)
  moreover have "chained digest [] 0 (butlast rs)"
    using rs(2) by (cases rs rule: rev_cases) (auto simp: chained_append)
  ultimately show ?thesis using r c by (simp add: verify_chain_at_def)
qed

lemma torn_tail_loses_records_witness:
  "verify_chain_at demo_digest
     (snd (append_at demo_digest IoOk no_request ''u'' demo_entry
       (map_option (\<lambda>f. f\<lparr>closed := False\<rparr>)
          (snd (append_at demo_digest IoOk no_request ''t'' demo_entry None))))) = Some 0"
proof -
  let ?st = "map_option (\<lambda>f. f\<lparr>closed := False\<rparr>)
    (snd (append_at demo_digest IoOk no_request ''t'' demo_entry None))"
  have "\<not> clean ?st" "verify_chain_at demo_digest ?st = None" "length (content ?st) = 1"
    by code_simp+
  with torn_tail_loses_records [OF this(1,2), of no_request "''u''" demo_entry]
  show ?thesis by simp
qed

end
