(* ===== verification/Ownership.thy ===== *)
theory Ownership
  imports AuditChain
begin

text \<open>
  \<open>src/pipeline/ownership.py\<close>: who owns a plan after an ingest.  The plan file and the manifest
  are dictionaries; a call yields the ownership to persist or an exception, and the audit records
  it wrote.  \<open>render\<close> is \<open>str()\<close> on values that are not strings.
\<close>

datatype own_exn = OwnerRefused | DelegatesRefused | ChangeRefused | OwnTypeError

definition MAX_LENIENT_OWNER :: nat where
  "MAX_LENIENT_OWNER = 256"

text \<open>\<open>_FORBIDDEN_CHARS\<close> among the code points below 256.\<close>

definition forbidden_char :: "char \<Rightarrow> bool" where
  "forbidden_char c =
     (of_char c < (32 :: nat) \<or> of_char c = (127 :: nat) \<or>
      ((128 :: nat) \<le> of_char c \<and> of_char c < (160 :: nat)))"

definition single_line :: "string \<Rightarrow> bool" where
  "single_line s = (\<not> list_ex forbidden_char s)"

definition alnum :: "char \<Rightarrow> bool" where
  "alnum c = (is_lower c \<or> is_upper c \<or> is_digit c)"

text \<open>\<open>SUBJECT_RE.fullmatch\<close>\<close>

definition subject_re :: "string \<Rightarrow> bool" where
  "subject_re s =
     (case s of
        [] \<Rightarrow> False
      | c # cs \<Rightarrow> alnum c \<and> length cs \<le> 63 \<and> list_all (\<lambda>x. alnum x \<or> x \<in> set ''._@:-'') cs)"

definition subject_or_none :: "pyval \<Rightarrow> string option" where
  "subject_or_none v =
     (case v of
        PStr s \<Rightarrow> if \<not> single_line s then None
                  else if subject_re (strip s) then Some (strip s) else None
      | _ \<Rightarrow> None)"

record ownership =
  o_owner :: string
  o_delegates :: "pyval list"

definition named_owner :: "pyval \<Rightarrow> string \<Rightarrow> own_exn + string" where
  "named_owner v ingested_by =
     (if truthy v then
        with_some (subject_or_none v) OwnerRefused (\<lambda>_. Inr (the_str v))
      else
        bindE (guardE (single_line ingested_by) OwnerRefused) (\<lambda>_.
        bindE (guardE (strip ingested_by \<noteq> []) OwnerRefused) (\<lambda>_.
        bindE (guardE (length (strip ingested_by) \<le> MAX_LENIENT_OWNER) OwnerRefused) (\<lambda>_.
        Inr ingested_by))))"

text \<open>\<open>plan.get("delegates") or []\<close>\<close>

definition or_empty :: "pyval \<Rightarrow> pyval" where
  "or_empty v = (if truthy v then v else PList [])"

definition clean_delegate :: "pyval \<Rightarrow> own_exn + pyval" where
  "clean_delegate v =
     with_str v DelegatesRefused (\<lambda>s.
     bindE (guardE (strip s \<noteq> []) DelegatesRefused) (\<lambda>_. Inr (PStr s)))"

definition ownership_from_plan :: "pydict \<Rightarrow> string \<Rightarrow> own_exn + ownership" where
  "ownership_from_plan plan ingested_by =
     bindE (named_owner (dgetN plan ''owner'') ingested_by) (\<lambda>ow.
     with_list (or_empty (dgetN plan ''delegates'')) DelegatesRefused (\<lambda>ds.
     bindE (mapE clean_delegate ds) (\<lambda>cleaned.
     Inr \<lparr>o_owner = ow, o_delegates = cleaned\<rparr>)))"

text \<open>\<open>list(v)\<close>: the elements of a list, the characters of a string, the keys of a mapping.\<close>

definition py_list :: "pyval \<Rightarrow> own_exn + pyval list" where
  "py_list v =
     (case v of
        PList xs \<Rightarrow> Inr xs
      | PStr s \<Rightarrow> Inr (map (\<lambda>c. PStr [c]) s)
      | PDict d \<Rightarrow> Inr (map PStr (dkeys d))
      | _ \<Rightarrow> Inl OwnTypeError)"

definition current_ownership :: "(pyval \<Rightarrow> string) \<Rightarrow> pydict \<Rightarrow> own_exn + ownership" where
  "current_ownership render prior =
     bindE (py_list (or_empty (dgetN prior ''delegates''))) (\<lambda>ds.
     Inr \<lparr>o_owner = (if truthy (dgetN prior ''owner'') then py_str render (dgetN prior ''owner'')
                     else []),
          o_delegates = ds\<rparr>)"

definition same_ownership :: "ownership \<Rightarrow> ownership \<Rightarrow> bool" where
  "same_ownership a b = (o_owner a = o_owner b \<and> py_eqs (o_delegates a) (o_delegates b))"

definition change_entry :: "string \<Rightarrow> pydict \<Rightarrow> audit_entry" where
  "change_entry outc detail =
     \<lparr>a_action = ''plan:ownership_change'', a_outcome = outc, a_target = [], a_detail = detail\<rparr>"

definition first_ownership :: "ownership \<Rightarrow> string \<Rightarrow> ownership \<times> audit_entry list" where
  "first_ownership requested actor =
     (if actor \<noteq> subject LOCAL_OPERATOR then
        (\<lparr>o_owner = actor, o_delegates = []\<rparr>,
         if o_owner requested \<noteq> actor \<or> o_delegates requested \<noteq> [] then
           [change_entry ''ignored''
              [(''ignored_owner'', PStr (o_owner requested)),
               (''ignored_delegates'', PInt (int (length (o_delegates requested))))]]
         else [])
      else (requested, []))"

definition proposed_ownership ::
  "(pyval \<Rightarrow> string) \<Rightarrow> pydict \<Rightarrow> ownership \<Rightarrow> ownership \<Rightarrow> ownership" where
  "proposed_ownership render plan requested current =
     \<lparr>o_owner = (if truthy (dgetN plan ''owner'') then strip (py_str render (dgetN plan ''owner''))
                 else o_owner current),
      o_delegates = (if dget plan ''delegates'' \<noteq> None then o_delegates requested
                     else o_delegates current)\<rparr>"

definition may_change :: "string \<Rightarrow> ownership \<Rightarrow> bool" where
  "may_change actor current =
     (actor = subject LOCAL_OPERATOR \<or> (o_owner current \<noteq> [] \<and> actor = o_owner current))"

definition resolve_ownership ::
  "(pyval \<Rightarrow> string) \<Rightarrow> pydict \<Rightarrow> pydict \<Rightarrow> string \<Rightarrow> (own_exn + ownership) \<times> audit_entry list" where
  "resolve_ownership render plan prior actor =
     (case ownership_from_plan plan actor of
        Inl e \<Rightarrow> (Inl e, [])
      | Inr req \<Rightarrow>
          let requested = req\<lparr>o_owner := strip (o_owner req)\<rparr> in
          if prior = [] then
            (case first_ownership requested actor of (o1, es) \<Rightarrow> (Inr o1, es))
          else
            (case current_ownership render prior of
               Inl e \<Rightarrow> (Inl e, [])
             | Inr current \<Rightarrow>
                 let proposed = proposed_ownership render plan requested current in
                 if same_ownership proposed current then (Inr current, [])
                 else
                   let entry = change_entry (if may_change actor current then ''allowed'' else ''denied'')
                         [(''from_owner'', PStr (o_owner current)),
                          (''to_owner'', PStr (o_owner proposed)),
                          (''delegates_changed'',
                           PBool (\<not> py_eqs (o_delegates proposed) (o_delegates current)))] in
                   if may_change actor current then (Inr proposed, [entry])
                   else (Inl ChangeRefused, [entry])))"

text \<open>
  The ingest around it: a \<open>ValueError\<close> is a refusal that leaves the manifest as it was, otherwise
  the two fields are written to the manifest that is saved.
\<close>

definition save_ownership :: "ownership \<Rightarrow> pydict \<Rightarrow> pydict" where
  "save_ownership ow manifest =
     dset ''delegates'' (PList (o_delegates ow)) (dset ''owner'' (PStr (o_owner ow)) manifest)"

definition ingest_ownership ::
  "(pyval \<Rightarrow> string) \<Rightarrow> string \<times> pydict \<Rightarrow> pydict \<Rightarrow> pydict" where
  "ingest_ownership render c manifest =
     (case fst (resolve_ownership render (snd c) manifest (fst c)) of
        Inl _ \<Rightarrow> manifest
      | Inr ow \<Rightarrow> save_ownership ow manifest)"

text \<open>A manifest whose ownership was written by an ingest.\<close>

definition owned_by :: "string \<Rightarrow> string list \<Rightarrow> pydict \<Rightarrow> bool" where
  "owned_by ow ds manifest =
     (dget manifest ''owner'' = Some (PStr ow) \<and> dget manifest ''delegates'' = Some (PList (map PStr ds)))"

subsection \<open>Lemmas\<close>

lemma py_eqs_strs [simp]: "py_eqs xs (map PStr ds) \<longleftrightarrow> xs = map PStr ds"
  by (induction ds arbitrary: xs) (case_tac xs; auto)+

lemma or_empty_list [simp]: "or_empty (PList xs) = PList xs"
  by (simp add: or_empty_def)

lemma owned_current:
  assumes "owned_by ow ds manifest"
  shows "current_ownership render manifest = Inr \<lparr>o_owner = ow, o_delegates = map PStr ds\<rparr>"
  using assms by (auto simp: owned_by_def current_ownership_def dgetN_def py_list_def)

lemma owned_not_empty: "owned_by ow ds manifest \<Longrightarrow> manifest \<noteq> []"
  by (auto simp: owned_by_def)

lemma owned_save: "owned_by ow ds (save_ownership \<lparr>o_owner = ow, o_delegates = map PStr ds\<rparr> m)"
  by (simp add: owned_by_def save_ownership_def)

lemma clean_delegate_Inr: "clean_delegate v = Inr y \<longleftrightarrow> (\<exists>s. v = PStr s \<and> strip s \<noteq> [] \<and> y = PStr s)"
  by (auto simp: clean_delegate_def okE)

lemma mapE_clean: "mapE clean_delegate ds = Inr out \<Longrightarrow> \<exists>ss. out = map PStr ss"
proof (induction ds arbitrary: out)
  case (Cons d ds)
  from Cons.prems obtain s rest where "out = PStr s # rest" "mapE clean_delegate ds = Inr rest"
    by (auto simp: clean_delegate_Inr bindE_Inr_iff)
  with Cons.IH show ?case by (metis list.simps(9))
qed simp

text \<open>What one ingest can make of an owned manifest.\<close>

lemma ingest_owned_cases:
  assumes "owned_by ow ds manifest"
  shows "\<exists>ow' ds'. owned_by ow' ds' (ingest_ownership render (actor, plan) manifest) \<and>
    (actor = ''local-operator'' \<or> (ow \<noteq> [] \<and> actor = ow) \<or> (ow' = ow \<and> ds' = ds))"
proof (cases "fst (resolve_ownership render plan manifest actor)")
  case (Inl e)
  with assms show ?thesis by (auto simp: ingest_ownership_def)
next
  case (Inr res)
  let ?cur = "\<lparr>o_owner = ow, o_delegates = map PStr ds\<rparr>"
  from Inr obtain req where req: "ownership_from_plan plan actor = Inr req"
    by (auto simp: resolve_ownership_def split: sum.splits)
  let ?new = "proposed_ownership render plan (req\<lparr>o_owner := strip (o_owner req)\<rparr>) ?cur"
  from Inr req owned_current [OF assms] owned_not_empty [OF assms] have
    r: "res = (if same_ownership ?new ?cur then ?cur else ?new)"
      "same_ownership ?new ?cur \<or> may_change actor ?cur"
    by (auto simp: resolve_ownership_def Let_def split: if_splits)
  have i: "ingest_ownership render (actor, plan) manifest = save_ownership res manifest"
    using Inr by (simp add: ingest_ownership_def)
  show ?thesis
  proof (cases "same_ownership ?new ?cur")
    case True
    with r(1) have "owned_by ow ds (save_ownership res manifest)" by (simp add: owned_save)
    with i show ?thesis by auto
  next
    case False
    from req obtain out where "mapE clean_delegate out = Inr (o_delegates req)"
      by (auto simp: ownership_from_plan_def okE)
    from mapE_clean [OF this] obtain rs where "o_delegates req = map PStr rs" ..
    then obtain ss where "o_delegates ?new = map PStr ss"
      by (cases "dget plan ''delegates''") (auto simp: proposed_ownership_def)
    with False r(1) have "owned_by (o_owner res) ss (save_ownership res manifest)"
      by (simp add: owned_by_def save_ownership_def)
    moreover from False r(2) have "actor = ''local-operator'' \<or> (ow \<noteq> [] \<and> actor = ow)"
      by (simp add: may_change_def)
    ultimately show ?thesis using i by auto
  qed
qed

lemma ingests_keep_owner:
  assumes "owned_by ow ds manifest"
    and "list_all (\<lambda>c. fst c \<noteq> ''local-operator'' \<and> fst c \<noteq> ow) ingests"
  shows "owned_by ow ds (fold (ingest_ownership render) ingests manifest)"
  using assms
proof (induction ingests arbitrary: manifest)
  case (Cons c ingests)
  obtain actor plan where c: "c = (actor, plan)" by (cases c)
  with Cons.prems(2) have "actor \<noteq> ''local-operator''" "actor \<noteq> ow" by auto
  with ingest_owned_cases [OF Cons.prems(1), of render actor plan] c have
    "owned_by ow ds (ingest_ownership render c manifest)" by auto
  with Cons.IH Cons.prems(2) show ?case by simp
qed simp

subsection \<open>Properties\<close>

text \<open>
  C24: Ownership is fixed by its owner.  However often others ingest a plan, with whatever owner
  and delegates their plan files name, the manifest's owner and delegates stay; only the current
  owner and the local operator change them.
\<close>

theorem strangers_never_take_over:
  assumes "owned_by ow ds manifest"
    and "list_all (\<lambda>c. fst c \<noteq> ''local-operator'' \<and> fst c \<noteq> ow) ingests"
  shows "owned_by ow ds (fold (ingest_ownership render) ingests manifest)"
  using assms by (rule ingests_keep_owner)

theorem strangers_never_take_over_witness:
  "owned_by ''alice'' [] (fold (ingest_ownership (\<lambda>_. []))
     [(''mallory'', [(''owner'', PStr ''mallory'')]), (''eve'', [(''delegates'', PList [PStr ''eve''])])]
     [(''owner'', PStr ''alice''), (''delegates'', PList [])])"
  by (rule strangers_never_take_over; code_simp)

text \<open>
  On the first ingest the caller becomes the owner: whatever the plan file names, a caller
  other than the local operator owns the plan and delegates nothing, and a naming that was thus
  ignored is audited.
\<close>

lemma first_ingest_owner:
  assumes "actor \<noteq> ''local-operator''" "resolve_ownership render plan [] actor = (Inr ow, es)"
  shows "ow = \<lparr>o_owner = actor, o_delegates = []\<rparr> \<and>
    (es = [] \<longleftrightarrow>
      (\<exists>req. ownership_from_plan plan actor = Inr req \<and> strip (o_owner req) = actor \<and> o_delegates req = []))"
  using assms
  by (auto simp: resolve_ownership_def first_ownership_def Let_def split: sum.splits if_splits)

lemma first_ingest_owner_witness:
  "resolve_ownership (\<lambda>_. []) [(''owner'', PStr ''bob'')] [] ''alice'' =
     (Inr \<lparr>o_owner = ''alice'', o_delegates = []\<rparr>,
      [change_entry ''ignored'' [(''ignored_owner'', PStr ''bob''), (''ignored_delegates'', PInt 0)]]) \<and>
   \<not> (\<exists>req. ownership_from_plan [(''owner'', PStr ''bob'')] ''alice'' = Inr req \<and>
        strip (o_owner req) = ''alice'' \<and> o_delegates req = [])"
proof -
  have r: "resolve_ownership (\<lambda>_. []) [(''owner'', PStr ''bob'')] [] ''alice'' =
     (Inr \<lparr>o_owner = ''alice'', o_delegates = []\<rparr>,
      [change_entry ''ignored'' [(''ignored_owner'', PStr ''bob''), (''ignored_delegates'', PInt 0)]])"
    by code_simp
  from first_ingest_owner [OF _ r] show ?thesis using r by simp
qed

end
