(* ===== verification/Authorization.thy ===== *)
theory Authorization
  imports Policy Ownership
begin

text \<open>
  \<open>src/pipeline/authorization.py\<close>: the one place the service asks the policy.  A decision yields
  a refusal or none, or the exception that reached the caller, and the things it recorded in
  order: the metric, the sidecar notification, the audit record.  The authorizer in force is the
  result of \<open>default_authorizer\<close>: an \<open>allow\<close> function, or the plugin error it raised.
\<close>

definition DISABLING_VALUES :: "string list" where
  "DISABLING_VALUES = [''0'', ''false'', ''no'', ''off'', ''disabled'']"

definition enforcement_enabled :: "env \<Rightarrow> bool" where
  "enforcement_enabled env =
     (map char_lower (strip (env_get env ''PIPELINE_POLICY_ENFORCE'')) \<notin> set DISABLING_VALUES)"

definition DEFAULT_TEAM :: string where
  "DEFAULT_TEAM = ''local''"

definition AGENT_FORBIDDEN_ACTIONS :: "string list" where
  "AGENT_FORBIDDEN_ACTIONS = [''plan:approve'', ''config:write'']"

text \<open>\<open>manifest if isinstance(manifest, dict) else {}\<close> and \<open>str(data.get(k) or default)\<close>\<close>

definition manifest_dict :: "pyval \<Rightarrow> pydict" where
  "manifest_dict v = (case v of PDict d \<Rightarrow> d | _ \<Rightarrow> [])"

definition str_or :: "(pyval \<Rightarrow> string) \<Rightarrow> pydict \<Rightarrow> string \<Rightarrow> string \<Rightarrow> string" where
  "str_or render d k dflt = (if truthy (dgetN d k) then py_str render (dgetN d k) else dflt)"

datatype auth_exn = AuthPlugin plugin_error | AuthTypeError

definition resource_for ::
  "(pyval \<Rightarrow> string) \<Rightarrow> pyval \<Rightarrow> string \<Rightarrow> string option \<Rightarrow> auth_exn + resource" where
  "resource_for render manifest plan_name story_key =
     (let d = manifest_dict manifest in
      case py_list (or_empty (dgetN d ''delegates'')) of
        Inl _ \<Rightarrow> Inl AuthTypeError
      | Inr ds \<Rightarrow>
          Inr \<lparr>r_tenant = [], r_team = str_or render d ''team'' DEFAULT_TEAM,
               r_repo = str_or render d ''repo_root'' [], r_plan = plan_name,
               r_story = (case story_key of Some k \<Rightarrow> k | None \<Rightarrow> []),
               r_owner = str_or render d ''owner'' [], r_delegates = ds\<rparr>)"

definition manifest_team :: "(pyval \<Rightarrow> string) \<Rightarrow> pyval \<Rightarrow> string" where
  "manifest_team render manifest = strip (str_or render (manifest_dict manifest) ''team'' [])"

definition team_scope_covers :: "string \<Rightarrow> string \<Rightarrow> bool" where
  "team_scope_covers scope team =
     (case partition_at CHR ''/'' scope of (_, _, scope_team) \<Rightarrow> team \<noteq> [] \<and> scope_team = team)"

definition agent_structural_denial :: "principal \<Rightarrow> string \<Rightarrow> string option \<Rightarrow> string" where
  "agent_structural_denial p label team =
     (if principal_type p \<noteq> ''agent'' then []
      else if label \<in> set AGENT_FORBIDDEN_ACTIONS then ''agent_principal''
      else case team of
        Some t \<Rightarrow> if \<not> team_scope_covers (team_scope p) t then ''agent_team_scope'' else []
      | None \<Rightarrow> [])"

text \<open>The label of an action: its value, or \<open>str()\<close> of what the caller passed.\<close>

definition action_label :: "string \<Rightarrow> action_arg \<Rightarrow> string" where
  "action_label other a =
     (case a of Act x \<Rightarrow> action_value x | Raw s \<Rightarrow> s | OtherObject \<Rightarrow> other)"

datatype trace =
    Metric string bool
  | Sidecar string string string
  | Audited audit_entry
  | HostAudited audit_entry

record refusal =
  f_action :: string
  f_subject :: string
  f_plan :: string

definition decision_entry :: "string \<Rightarrow> bool \<Rightarrow> principal \<Rightarrow> string \<Rightarrow> string option \<Rightarrow> audit_entry" where
  "decision_entry label allowed p plan story =
     \<lparr>a_action = label, a_outcome = (if allowed then ''allowed'' else ''denied''),
      a_target = [(''plan'', PStr plan), (''story'', PStr (case story of Some k \<Rightarrow> k | None \<Rightarrow> []))],
      a_detail = [(''principal'', PStr (subject p))]\<rparr>"

text \<open>Who decides: the structural rules for agents first, then the authorizer.\<close>

definition policy_decision ::
  "(pyval \<Rightarrow> string) \<Rightarrow> plugin_error + allow_fn \<Rightarrow> principal \<Rightarrow> action_arg \<Rightarrow> pyval \<Rightarrow> string \<Rightarrow>
   string option \<Rightarrow> auth_exn + bool" where
  "policy_decision render auth p act manifest plan story =
     (case auth of
        Inl e \<Rightarrow> Inl (AuthPlugin e)
      | Inr allow \<Rightarrow>
          bindE (resource_for render manifest plan story) (\<lambda>r.
          Inr (is_allowed allow (Some p) act (Some r))))"

definition authorize ::
  "(pyval \<Rightarrow> string) \<Rightarrow> string \<Rightarrow> env \<Rightarrow> plugin_error + allow_fn \<Rightarrow> bound_request \<Rightarrow> action_arg \<Rightarrow> pyval \<Rightarrow>
   string \<Rightarrow> string option \<Rightarrow> bool \<Rightarrow> (auth_exn + refusal option) \<times> trace list" where
  "authorize render other env auth rq act manifest plan story record_allowed =
     (if \<not> enforcement_enabled env then (Inr None, [])
      else
        let label = action_label other act; p = current_principal rq;
            why = agent_structural_denial p label (Some (manifest_team render manifest)) in
        case (if why \<noteq> [] then Inr False else policy_decision render auth p act manifest plan story) of
          Inl e \<Rightarrow> (Inl e, [])
        | Inr allowed \<Rightarrow>
            if allowed then
              (Inr None, Metric label True #
                (if record_allowed then [Audited (decision_entry label True p plan story)] else []))
            else
              (Inr (Some \<lparr>f_action = label, f_subject = subject p, f_plan = plan\<rparr>),
               [Metric label False, Sidecar label (subject p) why,
                Audited (decision_entry label False p plan story)]))"

definition host_entry :: "string \<Rightarrow> bool \<Rightarrow> string \<Rightarrow> principal \<Rightarrow> string \<Rightarrow> audit_entry" where
  "host_entry label allowed what p why =
     \<lparr>a_action = label, a_outcome = (if allowed then ''allowed'' else ''denied''), a_target = [],
      a_detail = [(''what'', PStr what), (''principal'', PStr (subject p))] @
                 (if why \<noteq> [] then [(''reason'', PStr why)] else [])\<rparr>"

definition refusal_for_host_config ::
  "(pyval \<Rightarrow> string) \<Rightarrow> string \<Rightarrow> env \<Rightarrow> plugin_error + allow_fn \<Rightarrow> bound_request \<Rightarrow> action_arg \<Rightarrow> string \<Rightarrow>
   (auth_exn + refusal option) \<times> trace list" where
  "refusal_for_host_config render other env auth rq act what =
     (if \<not> enforcement_enabled env then (Inr None, [])
      else
        let label = action_label other act; p = current_principal rq;
            why = agent_structural_denial p label None in
        case (if why \<noteq> [] then Inr False
              else policy_decision render auth p act (PDict []) [] None) of
          Inl e \<Rightarrow> (Inl e, [])
        | Inr allowed \<Rightarrow>
            (Inr (if allowed then None
                  else Some \<lparr>f_action = label, f_subject = subject p, f_plan = what\<rparr>),
             [HostAudited (host_entry label allowed what p why)]))"

subsection \<open>Lemmas\<close>

lemma resource_for_owned:
  assumes "owned_by ow ds d"
  shows "\<exists>r. resource_for render (PDict d) plan story = Inr r \<and>
    r_owner r = ow \<and> r_delegates r = map PStr ds"
  using assms
  by (auto simp: resource_for_def manifest_dict_def owned_by_def dgetN_def py_list_def str_or_def
      Let_def)

lemma authorize_allowed:
  assumes "enforcement_enabled env"
    and "fst (authorize render other env auth rq act manifest plan story rec) = Inr None"
  shows "agent_structural_denial (current_principal rq) (action_label other act)
           (Some (manifest_team render manifest)) = [] \<and>
    policy_decision render auth (current_principal rq) act manifest plan story = Inr True"
  using assms by (auto simp: authorize_def Let_def split: sum.splits if_splits)

subsection \<open>Properties\<close>

text \<open>
  C29: No authorizer can hand an agent human authority or another team's plan: with enforcement
  on, an agent that \<open>authorize\<close> lets through acts on a plan whose manifest declares the agent's
  own team, and neither approves nor writes configuration, nor does the host-scoped path let it
  write configuration, whatever the plugin answers.
\<close>

theorem agents_confined:
  assumes "enforcement_enabled env" "principal_type (current_principal rq) = ''agent''"
  shows "(fst (authorize render other env auth rq act manifest plan story rec) \<noteq> Inr None \<or>
      (action_label other act \<notin> {''plan:approve'', ''config:write''} \<and>
       manifest_team render manifest \<noteq> [] \<and>
       snd (snd (partition_at CHR ''/'' (team_scope (current_principal rq)))) =
         manifest_team render manifest)) \<and>
    fst (refusal_for_host_config render other env auth rq (Act CONFIG_WRITE) what) \<noteq> Inr None"
proof
  show "fst (authorize render other env auth rq act manifest plan story rec) \<noteq> Inr None \<or>
      (action_label other act \<notin> {''plan:approve'', ''config:write''} \<and>
       manifest_team render manifest \<noteq> [] \<and>
       snd (snd (partition_at CHR ''/'' (team_scope (current_principal rq)))) =
         manifest_team render manifest)"
    using authorize_allowed [OF assms(1), of render other auth rq act manifest plan story rec] assms(2)
    by (auto simp: agent_structural_denial_def AGENT_FORBIDDEN_ACTIONS_def team_scope_covers_def
        split: prod.splits if_splits)
  show "fst (refusal_for_host_config render other env auth rq (Act CONFIG_WRITE) what) \<noteq> Inr None"
    using assms by (simp add: refusal_for_host_config_def agent_structural_denial_def
        action_label_def AGENT_FORBIDDEN_ACTIONS_def Let_def)
qed

definition demo_agent :: principal where
  "demo_agent = default_principal ''bot'' ''oidc''\<lparr>principal_type := ''agent'', team_scope := ''acme/web''\<rparr>"

theorem agents_confined_witness:
  "fst (authorize (\<lambda>_. []) [] [] (Inr (\<lambda>_ _ _. Returned (PBool True)))
      (no_request\<lparr>bound := Some demo_agent\<rparr>) (Act PLAN_APPROVE)
      (PDict [(''team'', PStr ''web'')]) ''p'' None True) \<noteq> Inr None"
proof -
  have "enforcement_enabled []"
    "principal_type (current_principal (no_request\<lparr>bound := Some demo_agent\<rparr>)) = ''agent''"
    by code_simp+
  from agents_confined [OF this, of "\<lambda>_. []" "[]" "Inr (\<lambda>_ _ _. Returned (PBool True))" "Act PLAN_APPROVE"
      "PDict [(''team'', PStr ''web'')]" "''p''" None True]
  show ?thesis by (simp add: action_label_def)
qed

text \<open>
  Every decision under enforcement leaves its record: a refusal is always in the metric, the
  sidecar and the audit stream, and an allowed decision is in the audit stream unless the caller
  opted out; nothing is recorded as allowed that was refused.
\<close>

lemma decisions_recorded:
  assumes "enforcement_enabled env"
    and "authorize render other env auth rq act manifest plan story rec = (Inr res, tr)"
  shows "case res of
      None \<Rightarrow> Metric (action_label other act) True \<in> set tr \<and>
        (rec \<longleftrightarrow> Audited (decision_entry (action_label other act) True (current_principal rq) plan story) \<in> set tr)
    | Some f \<Rightarrow> f_subject f = actor_id rq \<and> f_plan f = plan \<and>
        Metric (action_label other act) False \<in> set tr \<and>
        (\<exists>why. Sidecar (action_label other act) (actor_id rq) why \<in> set tr) \<and>
        Audited (decision_entry (action_label other act) False (current_principal rq) plan story) \<in> set tr \<and>
        Audited (decision_entry (action_label other act) True (current_principal rq) plan story) \<notin> set tr"
  using assms
  by (auto simp: authorize_def Let_def actor_id_def decision_entry_def
      split: sum.splits if_splits)

lemma decisions_recorded_witness:
  "\<exists>why. Sidecar ''plan:approve'' ''anonymous'' why \<in>
     set (snd (authorize (\<lambda>_. []) [] [] (Inr local_policy) (no_request\<lparr>bound := Some ANONYMOUS\<rparr>)
        (Act PLAN_APPROVE) (PDict []) ''p'' None False))"
proof -
  let ?rq = "no_request\<lparr>bound := Some ANONYMOUS\<rparr>"
  let ?r = "authorize (\<lambda>_. []) [] [] (Inr local_policy) ?rq (Act PLAN_APPROVE) (PDict []) ''p'' None False"
  have e: "enforcement_enabled []" by code_simp
  have "fst ?r = Inr (Some \<lparr>f_action = ''plan:approve'', f_subject = ''anonymous'', f_plan = ''p''\<rparr>)"
    by code_simp
  then have "?r = (Inr (Some \<lparr>f_action = ''plan:approve'', f_subject = ''anonymous'', f_plan = ''p''\<rparr>), snd ?r)"
    by (metis prod.collapse)
  from decisions_recorded [OF e this] show ?thesis
    by (simp add: action_label_def actor_id_def)
qed

text \<open>
  C14: Authority over a plan follows its manifest through any history: after any ingests by
  strangers, with enforcement on and the local policy as authorizer, a principal that is neither
  the plan's owner, nor a delegate, nor the local operator, and that is no system principal (the
  local policy lets \<open>system:scheduler\<close> act on any plan), is refused every owner action, so an
  approval cannot be reached by re-ingesting the plan under another name.
\<close>

theorem strangers_stay_refused:
  assumes "enforcement_enabled env" "owned_by ow ds manifest"
    and "list_all (\<lambda>c. fst c \<noteq> ''local-operator'' \<and> fst c \<noteq> ow) ingests"
    and "actor_id rq \<notin> {ow, ''local-operator''} \<union> set ds" "a \<in> set owner_actions"
    and "\<not> is_system (current_principal rq)"
  shows "fst (authorize render other env (Inr local_policy) rq (Act a)
      (PDict (fold (ingest_ownership render) ingests manifest)) plan story rec) =
    Inr (Some \<lparr>f_action = action_value a, f_subject = actor_id rq, f_plan = plan\<rparr>)"
proof -
  let ?m = "fold (ingest_ownership render) ingests manifest"
  from ingests_keep_owner [OF assms(2,3)] have "owned_by ow ds ?m" .
  from resource_for_owned [OF this] obtain r where
    r: "resource_for render (PDict ?m) plan story = Inr r" "r_owner r = ow" "r_delegates r = map PStr ds"
    by blast
  from assms(4) r(2,3) have "\<not> owns_or_delegate (current_principal rq) r"
    by (auto simp: owns_or_delegate_def py_in_strs actor_id_def)
  with assms(4,5,6) have "\<not> local_allow (Some (current_principal rq)) (Act a) (Some r)"
    by (simp add: local_allow_def allow_owner_action actor_id_def LOCAL_OPERATOR_SUBJECT_def)
  with r(1) have "policy_decision render (Inr local_policy) (current_principal rq) (Act a) (PDict ?m)
      plan story = Inr False"
    by (simp add: policy_decision_def)
  with assms(1) show ?thesis
    by (simp add: authorize_def Let_def action_label_def actor_id_def)
qed

theorem strangers_stay_refused_witness:
  "fst (authorize (\<lambda>_. []) [] [] (Inr local_policy)
      (no_request\<lparr>bound := Some (default_principal ''mallory'' ''oidc'')\<rparr>) (Act PLAN_APPROVE)
      (PDict (fold (ingest_ownership (\<lambda>_. [])) [(''mallory'', [(''owner'', PStr ''mallory'')])]
         [(''owner'', PStr ''alice''), (''delegates'', PList [])])) ''p'' None True) =
    Inr (Some \<lparr>f_action = ''plan:approve'', f_subject = ''mallory'', f_plan = ''p''\<rparr>)"
proof -
  let ?rq = "no_request\<lparr>bound := Some (default_principal ''mallory'' ''oidc'')\<rparr>"
  have h: "enforcement_enabled []"
    "owned_by ''alice'' [] [(''owner'', PStr ''alice''), (''delegates'', PList [])]"
    "list_all (\<lambda>c. fst c \<noteq> ''local-operator'' \<and> fst c \<noteq> ''alice'')
       [(''mallory'', [(''owner'', PStr ''mallory'')])]"
    "actor_id ?rq \<notin> {''alice'', ''local-operator''} \<union> set []" "PLAN_APPROVE \<in> set owner_actions"
    "\<not> is_system (current_principal ?rq)"
    by code_simp+
  have s: "actor_id ?rq = ''mallory''" by code_simp
  from strangers_stay_refused [OF h, of "\<lambda>_. []" "[]" "''p''" None True] show ?thesis
    unfolding s by simp
qed

text \<open>
  "Anything unexpected lands denied" is not how a damaged manifest ends: a \<open>delegates\<close> field
  that is a number makes \<open>tuple()\<close> raise inside \<open>authorize\<close>, which then neither refuses nor
  records anything.
\<close>

lemma damaged_delegates_raise:
  "authorize render other [] (Inr local_policy) no_request (Act PLAN_APPROVE)
     (PDict [(''delegates'', PInt 5)]) plan story rec = (Inl AuthTypeError, [])"
proof -
  have "enforcement_enabled []" by code_simp
  moreover have "resource_for render (PDict [(''delegates'', PInt 5)]) plan story = Inl AuthTypeError"
    by (simp add: resource_for_def manifest_dict_def dgetN_def or_empty_def py_list_def Let_def)
  ultimately show ?thesis
    by (simp add: authorize_def agent_structural_denial_def policy_decision_def
        current_principal_def no_request_def Let_def)
qed

end
