(* ===== verification/PlanApproval.thy ===== *)
theory PlanApproval
  imports Authorization
begin

text \<open>
  \<open>src/pipeline/plan_approval.py\<close>: the approval record of a manifest and its digest of the
  authored content; \<open>_validate_key\<close> of \<open>src/pipeline/parsers.py\<close>.  The store holds one plan's
  manifest (or none) and its decision log; a decision runs in one transaction, so it is a function
  on that state.  \<open>digest\<close> is the hash of the canonical authored content.
\<close>

datatype appr_exn = ApprovalValueError | InvalidKey | ApprovalAuth auth_exn

definition PLAN_AUTHORED_FIELDS :: "string list" where
  "PLAN_AUTHORED_FIELDS = [''repo_root'', ''role_config'', ''context'']"

definition STORY_AUTHORED_FIELDS :: "string list" where
  "STORY_AUTHORED_FIELDS = [''summary'', ''agent_instructions'', ''dependencies'', ''persona'',
     ''model'', ''acceptance'', ''risk'', ''backend'', ''tdd_split'', ''files'', ''blocked_by'']"

definition APPROVAL_TRUE :: "string list" where
  "APPROVAL_TRUE = [''on'', ''1'', ''true'']"

definition APPROVAL_FALSE :: "string list" where
  "APPROVAL_FALSE = [[], ''off'', ''0'', ''false'']"

definition PRESERVED_DECISION_FIELDS :: "string list" where
  "PRESERVED_DECISION_FIELDS =
     [''decided_by'', ''at'', ''decided_at'', ''correlation_id'', ''role'', ''self_approved'']"

definition CLEARED_DECISION_FIELDS :: "string list" where
  "CLEARED_DECISION_FIELDS = PRESERVED_DECISION_FIELDS @ [''reason'']"

definition approval_enabled :: "env \<Rightarrow> appr_exn + bool" where
  "approval_enabled env =
     (case dget env ''PIPELINE_PLAN_APPROVAL'' of
        None \<Rightarrow> Inr False
      | Some raw \<Rightarrow>
          if raw \<in> set APPROVAL_TRUE then Inr True
          else if raw \<in> set APPROVAL_FALSE then Inr False
          else Inl ApprovalValueError)"

subsection \<open>The digest\<close>

definition dict_or_empty :: "pyval \<Rightarrow> pydict" where
  "dict_or_empty v = (case v of PDict d \<Rightarrow> d | _ \<Rightarrow> [])"

definition authored_story :: "string \<times> pyval \<Rightarrow> (string \<times> pyval) list" where
  "authored_story ks =
     (case snd ks of
        PDict s \<Rightarrow> [(fst ks, PDict (map (\<lambda>f. (f, dgetN s f)) STORY_AUTHORED_FIELDS))]
      | _ \<Rightarrow> [])"

definition authored_payload :: "pydict \<Rightarrow> pydict" where
  "authored_payload m =
     map (\<lambda>f. (f, dgetN m f)) PLAN_AUTHORED_FIELDS @
     [(''stories'', PDict (concat (map authored_story (dict_or_empty (dgetN m ''stories'')))))]"

definition canonical_digest :: "(pydict \<Rightarrow> string) \<Rightarrow> pydict \<Rightarrow> string" where
  "canonical_digest digest m = digest (canonical (authored_payload m))"

subsection \<open>The record\<close>

definition is_activatable :: "env \<Rightarrow> pydict \<Rightarrow> appr_exn + bool" where
  "is_activatable env m =
     bindE (approval_enabled env) (\<lambda>on.
     Inr (if \<not> on then True
          else case dgetN m ''approval'' of
            PDict a \<Rightarrow> dgetN a ''status'' = PStr ''approved''
          | _ \<Rightarrow> False))"

definition list_or_empty :: "pyval \<Rightarrow> pyval list" where
  "list_or_empty v = (case v of PList xs \<Rightarrow> xs | _ \<Rightarrow> [])"

text \<open>\<open>{**a, **b}\<close>\<close>

definition dmerge :: "pydict \<Rightarrow> pydict \<Rightarrow> pydict" where
  "dmerge a b = fold (\<lambda>(k, v). dset k v) b a"

text \<open>The fields of \<open>names\<close> that \<open>d\<close> has, in the order of \<open>names\<close>.\<close>

definition picked :: "pydict \<Rightarrow> string list \<Rightarrow> pydict" where
  "picked d names =
     concat (map (\<lambda>k. case dget d k of Some v \<Rightarrow> [(k, v)] | None \<Rightarrow> []) names)"

definition on_ingest :: "(pydict \<Rightarrow> string) \<Rightarrow> pydict \<Rightarrow> pydict" where
  "on_ingest digest m =
     (let previous = dict_or_empty (dgetN m ''approval'');
          dg = canonical_digest digest m;
          keep = (dgetN previous ''status'' = PStr ''approved'' \<and> dgetN previous ''digest'' = PStr dg) in
      [(''status'', PStr (if keep then ''approved'' else ''pending_approval'')),
       (''digest'', PStr dg),
       (''warnings_seen'', PList (list_or_empty (dgetN previous ''warnings_seen'')))] @
      picked previous PRESERVED_DECISION_FIELDS)"

definition reset_if_changed ::
  "(pydict \<Rightarrow> string) \<Rightarrow> env \<Rightarrow> pydict \<Rightarrow> appr_exn + (bool \<times> pydict)" where
  "reset_if_changed digest env m =
     bindE (approval_enabled env) (\<lambda>on.
     Inr (if \<not> on then (False, m)
          else
            let dg = canonical_digest digest m; previous = dict_or_empty (dgetN m ''approval'') in
            if dgetN previous ''digest'' = PStr dg then (False, m)
            else
              let record = dmerge previous [(''status'', PStr ''pending_approval''), (''digest'', PStr dg)] in
              (True, dset ''approval'' (PDict (fold dpop CLEARED_DECISION_FIELDS record)) m)))"

subsection \<open>Decisions\<close>

definition ROLE_PRECEDENCE :: "string list" where
  "ROLE_PRECEDENCE = [''admin'', ''owner'', ''approver'', ''delegate'', ''author'']"

definition primary_role :: "principal \<Rightarrow> string" where
  "primary_role p =
     (case List.find (\<lambda>r. r \<in> set (roles p)) ROLE_PRECEDENCE of Some r \<Rightarrow> r | None \<Rightarrow> ''operator'')"

text \<open>\<open>_validate_key\<close>: \<open>$\<close> also matches before a final newline, so one such newline passes.\<close>

definition key_char :: "char \<Rightarrow> bool" where
  "key_char c = (is_lower c \<or> is_upper c \<or> is_digit c \<or> c \<in> set ''._-'')"

definition key_re :: "string \<Rightarrow> bool" where
  "key_re s =
     (let b = (if s \<noteq> [] \<and> last s = CHR 0x0A then butlast s else s) in
      b \<noteq> [] \<and> list_all key_char b)"

definition validate_key :: "string \<Rightarrow> bool" where
  "validate_key s = (key_re s \<and> \<not> set s \<subseteq> {CHR ''.''})"

record plan_store =
  ps_manifest :: "pydict option"
  ps_decisions :: "pydict list"

datatype decision_result =
    ApprovalDisabled | Forbidden refusal | Locked | NoSuchPlan | StaleDigest | DigestMismatch
  | Decided pydict

definition decision_audit :: "string \<Rightarrow> string \<Rightarrow> string \<Rightarrow> pydict \<Rightarrow> audit_entry" where
  "decision_audit plan status outc detail =
     \<lparr>a_action = ''plan.'' @ status, a_outcome = outc, a_target = [(''plan'', PStr plan)],
      a_detail = detail\<rparr>"

definition approval_record ::
  "bound_request \<Rightarrow> string \<Rightarrow> string \<Rightarrow> string \<Rightarrow> string \<Rightarrow> string \<Rightarrow> pydict \<Rightarrow> pydict \<Rightarrow> pydict" where
  "approval_record rq now plan status reason dg manifest previous =
     (let p = current_principal rq;
          ingested_by = (if truthy (dgetN manifest ''ingested_by'') then dgetN manifest ''ingested_by''
                         else PStr (subject p)) in
      [(''plan'', PStr plan), (''status'', PStr status), (''digest'', PStr dg),
       (''decided_by'', PStr (subject p)), (''at'', PStr now),
       (''correlation_id'', PStr (current_correlation_id rq)), (''role'', PStr (primary_role p)),
       (''self_approved'', PBool (ingested_by = PStr (subject p))),
       (''warnings_seen'', PList (list_or_empty (dgetN previous ''warnings_seen'')))] @
      (if reason \<noteq> [] then [(''reason'', PStr reason)] else []))"

text \<open>The body of the transaction.\<close>

definition decide_locked ::
  "(pydict \<Rightarrow> string) \<Rightarrow> bound_request \<Rightarrow> string \<Rightarrow> string \<Rightarrow> string \<Rightarrow> string \<Rightarrow> string option \<Rightarrow> plan_store \<Rightarrow>
   decision_result \<times> plan_store \<times> trace list" where
  "decide_locked digest rq now plan status reason expected st =
     (case ps_manifest st of
        None \<Rightarrow> (NoSuchPlan, st, [])
      | Some m \<Rightarrow>
          let dg = canonical_digest digest m;
              refused = (\<lambda>why. Audited (decision_audit plan status ''refused'' [(''reason'', PStr why)])) in
          if expected \<noteq> None \<and> expected \<noteq> Some dg then (StaleDigest, st, [refused ''stale_digest''])
          else
            let previous = dict_or_empty (dgetN m ''approval'') in
            if dgetN previous ''digest'' \<noteq> PStr dg then (DigestMismatch, st, [refused ''digest_mismatch''])
            else
              let record = approval_record rq now plan status reason dg m previous in
              (Decided record,
               st\<lparr>ps_manifest := Some (dset ''approval'' (PDict (dmerge previous record)) m),
                  ps_decisions := ps_decisions st @ [record]\<rparr>,
               [Audited (decision_audit plan status ''allowed''
                  [(''digest'', PStr dg), (''decided_by'', dgetN record ''decided_by''),
                   (''role'', dgetN record ''role''),
                   (''self_approved'', dgetN record ''self_approved'')])]))"

definition decision_action :: "string \<Rightarrow> string" where
  "decision_action status = (if status = ''approved'' then ''plan:approve'' else ''plan:reject'')"

text \<open>
  \<open>_decide_plan\<close>: \<open>seen\<close> is the manifest the authorization reads, before the lock; the transaction reads it
  again.  The append to the decision log is taken to succeed.
\<close>

definition decide_plan ::
  "(pyval \<Rightarrow> string) \<Rightarrow> (pydict \<Rightarrow> string) \<Rightarrow> env \<Rightarrow> plugin_error + allow_fn \<Rightarrow> bound_request \<Rightarrow> string \<Rightarrow> bool \<Rightarrow>
   string \<Rightarrow> string \<Rightarrow> string \<Rightarrow> string option \<Rightarrow> pydict \<Rightarrow> plan_store \<Rightarrow>
   (appr_exn + decision_result) \<times> plan_store \<times> trace list" where
  "decide_plan render digest env auth rq now acquired plan status reason expected seen st =
     (if \<not> validate_key plan then (Inl InvalidKey, st, [])
      else case approval_enabled env of
        Inl e \<Rightarrow> (Inl e, st, [])
      | Inr False \<Rightarrow> (Inr ApprovalDisabled, st, [])
      | Inr True \<Rightarrow>
          (case authorize render [] env auth rq
                  (Raw (decision_action status)) (PDict seen) plan None True of
             (Inl e, tr) \<Rightarrow> (Inl (ApprovalAuth e), st, tr)
           | (Inr (Some f), tr) \<Rightarrow> (Inr (Forbidden f), st, tr)
           | (Inr None, tr) \<Rightarrow>
               if \<not> acquired then (Inr Locked, st, tr)
               else case decide_locked digest rq now plan status reason expected st of
                 (r, st', tr') \<Rightarrow> (Inr r, st', tr @ tr')))"

subsection \<open>Lemmas\<close>

lemma dget_dmerge: "wf_dict b \<Longrightarrow> dget (dmerge a b) k = (case dget b k of Some v \<Rightarrow> Some v | None \<Rightarrow> dget a k)"
proof (induction b arbitrary: a)
  case (Cons x b)
  obtain k' v where x: "x = (k', v)" by (cases x)
  with Cons.prems have "k' \<notin> set (dkeys b)" "wf_dict b" by (auto simp: wf_dict_def)
  then have n: "dget b k' = None" by (simp add: dget_None_iff)
  have "dmerge a (x # b) = dmerge (dset k' v a) b" by (simp add: dmerge_def x)
  with Cons.IH [OF \<open>wf_dict b\<close>] n show ?case by (auto simp: x split: option.split)
qed (simp add: dmerge_def)

lemma dget_fold_dpop: "dget (fold dpop ks d) k = (if k \<in> set ks then None else dget d k)"
  by (induction ks arbitrary: d) auto

lemma dgetN_dset: "dgetN (dset k v d) k' = (if k' = k then v else dgetN d k')"
  by (simp add: dgetN_def)

text \<open>The digest looks at nothing but the authored fields.\<close>

lemma digest_other_field [simp]:
  "k \<notin> {''repo_root'', ''role_config'', ''context'', ''stories''} \<Longrightarrow>
   canonical_digest digest (dset k v m) = canonical_digest digest m"
  by (auto simp: canonical_digest_def authored_payload_def PLAN_AUTHORED_FIELDS_def dgetN_dset)

definition approval_of :: "pydict \<Rightarrow> pydict" where
  "approval_of m = dict_or_empty (dgetN m ''approval'')"

lemma approval_of_set [simp]: "approval_of (dset ''approval'' (PDict a) m) = a"
  by (simp add: approval_of_def dgetN_def dict_or_empty_def)

lemma approval_record_fields:
  "dget (approval_record rq now plan status reason dg m prev) ''status'' = Some (PStr status)"
  "dget (approval_record rq now plan status reason dg m prev) ''digest'' = Some (PStr dg)"
  "dget (approval_record rq now plan status reason dg m prev) ''decided_by'' = Some (PStr (actor_id rq))"
  "dget (approval_record rq now plan status reason dg m prev) ''reason'' =
     (if reason \<noteq> [] then Some (PStr reason) else None)"
  "wf_dict (approval_record rq now plan status reason dg m prev)"
  by (simp_all add: approval_record_def Let_def actor_id_def wf_dict_def)

lemma decide_locked_cases:
  obtains (decided) m where
      "ps_manifest st = Some m"
      "dgetN (approval_of m) ''digest'' = PStr (canonical_digest digest m)"
      "expected = None \<or> expected = Some (canonical_digest digest m)"
      "fst (snd (decide_locked digest rq now plan status reason expected st)) =
         st\<lparr>ps_manifest := Some (dset ''approval'' (PDict (dmerge (approval_of m)
              (approval_record rq now plan status reason (canonical_digest digest m) m (approval_of m)))) m),
            ps_decisions := ps_decisions st @
              [approval_record rq now plan status reason (canonical_digest digest m) m (approval_of m)]\<rparr>"
      "fst (decide_locked digest rq now plan status reason expected st) =
         Decided (approval_record rq now plan status reason (canonical_digest digest m) m (approval_of m))"
  | (kept) "fst (snd (decide_locked digest rq now plan status reason expected st)) = st"
      "\<And>r. fst (decide_locked digest rq now plan status reason expected st) \<noteq> Decided r"
proof (cases "ps_manifest st")
  case None
  then show thesis by (intro kept) (simp_all add: decide_locked_def)
next
  case (Some m)
  show thesis
  proof (cases "(expected = None \<or> expected = Some (canonical_digest digest m)) \<and>
      dgetN (approval_of m) ''digest'' = PStr (canonical_digest digest m)")
    case True
    with Some show thesis
      by (intro decided [of m]) (auto simp: decide_locked_def approval_of_def Let_def)
  next
    case False
    with Some show thesis
      by (intro kept) (auto simp: decide_locked_def approval_of_def Let_def)
  qed
qed

lemma decide_plan_cases:
  obtains (kept) "fst (snd (decide_plan render digest env auth rq now acquired plan status reason expected seen st)) = st"
      "\<And>r. fst (decide_plan render digest env auth rq now acquired plan status reason expected seen st) \<noteq> Inr (Decided r)"
  | (entered) "validate_key plan" "approval_enabled env = Inr True"
      "fst (authorize render [] env auth rq
          (Raw (decision_action status)) (PDict seen) plan None True) = Inr None"
      "fst (decide_plan render digest env auth rq now acquired plan status reason expected seen st) =
         Inr (fst (decide_locked digest rq now plan status reason expected st))"
      "fst (snd (decide_plan render digest env auth rq now acquired plan status reason expected seen st)) =
         fst (snd (decide_locked digest rq now plan status reason expected st))"
proof (cases "validate_key plan \<and> approval_enabled env = Inr True \<and> acquired \<and>
    fst (authorize render [] env auth rq
          (Raw (decision_action status)) (PDict seen) plan None True) = Inr None")
  case True
  then show thesis
    by (intro entered) (auto simp: decide_plan_def split: prod.splits)
next
  case False
  then show thesis
    by (intro kept) (auto simp: decide_plan_def split: prod.splits sum.splits option.splits bool.splits)
qed

text \<open>What the pipeline does to an approved plan's manifest, one operation at a time.\<close>

datatype plan_op =
    Reingest bool pydict
  | PatchStory string pydict
  | RuntimeUpdate pydict
  | Decide bound_request string string string "string option"

text \<open>The manifest fields an ingest writes, next to the approval.\<close>

definition INGEST_FIELDS :: "string list" where
  "INGEST_FIELDS =
     [''epics'', ''stories'', ''repo_root'', ''role_config'', ''ingested_by'', ''owner'', ''delegates'',
      ''team'', ''context'']"

definition bind_option :: "'a option \<Rightarrow> ('a \<Rightarrow> 'b option) \<Rightarrow> 'b option" where
  "bind_option x f = (case x of Some v \<Rightarrow> f v | None \<Rightarrow> None)"

definition patched :: "string \<Rightarrow> pydict \<Rightarrow> pydict \<Rightarrow> pydict option" where
  "patched key fs m =
     (case dgetN m ''stories'' of
        PDict ss \<Rightarrow>
          (case dget ss key of
             Some (PDict st) \<Rightarrow> Some (dset ''stories'' (PDict (dset key (PDict (dmerge st fs)) ss)) m)
           | _ \<Rightarrow> None)
      | _ \<Rightarrow> None)"

text \<open>
  A re-ingest writes new content over the manifest (over nothing, when it overwrites) and
  recomputes the approval from the carried one; a patch changes one story and resets in the same
  transaction; a decision runs its transaction.  A runtime update leaves any content behind, authored
  fields included (the dispatcher, the escalation and \<open>set_plan_role_config\<close> write some), and never the
  approval.
\<close>

definition keep_approval :: "pydict \<Rightarrow> pydict \<Rightarrow> pydict" where
  "keep_approval old new =
     (case dget old ''approval'' of Some a \<Rightarrow> dset ''approval'' a new | None \<Rightarrow> dpop ''approval'' new)"

definition plan_step :: "(pydict \<Rightarrow> string) \<Rightarrow> env \<Rightarrow> plan_op \<Rightarrow> plan_store \<Rightarrow> plan_store" where
  "plan_step digest env op st =
     (case op of
        Reingest overwrite upd \<Rightarrow>
          let prior = (case ps_manifest st of Some old \<Rightarrow> if overwrite then [] else old | None \<Rightarrow> []);
              m = dmerge prior (filter (\<lambda>(k, _). k \<in> set INGEST_FIELDS) upd) in
          st\<lparr>ps_manifest := Some (dset ''approval'' (PDict (on_ingest digest m)) m)\<rparr>
      | PatchStory key fs \<Rightarrow>
          (case bind_option (ps_manifest st) (patched key fs) of
             None \<Rightarrow> st
           | Some m \<Rightarrow>
               (case reset_if_changed digest env m of
                  Inl _ \<Rightarrow> st\<lparr>ps_manifest := Some m\<rparr>
                | Inr (_, m') \<Rightarrow> st\<lparr>ps_manifest := Some m'\<rparr>))
      | RuntimeUpdate new \<Rightarrow> st\<lparr>ps_manifest := map_option (\<lambda>old. keep_approval old new) (ps_manifest st)\<rparr>
      | Decide rq now status reason expected \<Rightarrow>
          fst (snd (decide_locked digest rq now [] status reason expected st)))"

lemma approval_of_other: "k \<noteq> ''approval'' \<Longrightarrow> approval_of (dset k v m) = approval_of m"
  by (simp add: approval_of_def dgetN_dset)

lemma approval_of_merge:
  "\<forall>(k, _) \<in> set b. k \<noteq> ''approval'' \<Longrightarrow> approval_of (dmerge a b) = approval_of a"
proof (induction b arbitrary: a)
  case (Cons x b)
  then show ?case by (cases x) (auto simp: dmerge_def approval_of_other)
qed (simp add: dmerge_def)

lemma patched_approval: "patched key fs m = Some m' \<Longrightarrow> approval_of m' = approval_of m"
  by (auto simp: patched_def approval_of_other split: pyval.splits option.splits)

lemma keep_approval_of: "approval_of (keep_approval old new) = approval_of old"
  by (simp add: keep_approval_def approval_of_def dgetN_def split: option.split)

text \<open>An approved manifest rests on a logged approval of the digest on record, or of the content it has now.\<close>

definition approved :: "pydict \<Rightarrow> bool" where
  "approved m \<longleftrightarrow> dgetN (approval_of m) ''status'' = PStr ''approved''"

definition rests_on :: "(pydict \<Rightarrow> string) \<Rightarrow> pydict list \<Rightarrow> pydict \<Rightarrow> bool" where
  "rests_on digest ds m \<longleftrightarrow>
     dgetN (approval_of m) ''digest'' = PStr (canonical_digest digest m) \<and>
     (\<exists>r \<in> set ds. dgetN r ''status'' = PStr ''approved'' \<and>
        dgetN r ''digest'' = PStr (canonical_digest digest m))"

definition logged_approval :: "pydict list \<Rightarrow> pydict \<Rightarrow> bool" where
  "logged_approval ds m \<longleftrightarrow>
     (\<exists>r \<in> set ds. dgetN r ''status'' = PStr ''approved'' \<and> dgetN r ''digest'' = dgetN (approval_of m) ''digest'')"

text \<open>Whether a runtime update changed authored content since the last ingest.\<close>

fun drifts :: "(pydict \<Rightarrow> string) \<Rightarrow> plan_op \<Rightarrow> plan_store \<Rightarrow> bool \<Rightarrow> bool" where
  "drifts digest (Reingest _ _) st drift = False"
| "drifts digest (RuntimeUpdate new) st drift =
     (drift \<or> (case ps_manifest st of
        None \<Rightarrow> False
      | Some old \<Rightarrow> canonical_digest digest (keep_approval old new) \<noteq> canonical_digest digest old))"
| "drifts digest _ st drift = drift"

fun plan_run :: "(pydict \<Rightarrow> string) \<Rightarrow> env \<Rightarrow> plan_op list \<Rightarrow> plan_store \<times> bool \<Rightarrow> plan_store \<times> bool" where
  "plan_run digest env [] s = s"
| "plan_run digest env (op # ops) (st, drift) =
     plan_run digest env ops (plan_step digest env op st, drifts digest op st drift)"

definition gate_ok :: "(pydict \<Rightarrow> string) \<Rightarrow> plan_store \<times> bool \<Rightarrow> bool" where
  "gate_ok digest s \<longleftrightarrow>
     (\<forall>m. ps_manifest (fst s) = Some m \<longrightarrow> approved m \<longrightarrow>
        logged_approval (ps_decisions (fst s)) m \<and> (snd s \<or> rests_on digest (ps_decisions (fst s)) m))"

lemma rests_logged: "rests_on digest ds m \<Longrightarrow> logged_approval ds m"
  by (auto simp: rests_on_def logged_approval_def)

lemma logged_rests:
  "logged_approval ds m \<Longrightarrow> approval_of m' = approval_of m \<Longrightarrow>
     dgetN (approval_of m') ''digest'' = PStr (canonical_digest digest m') \<Longrightarrow> rests_on digest ds m'"
  by (auto simp: rests_on_def logged_approval_def)

lemma on_ingest_rests:
  assumes "approved m \<Longrightarrow> dgetN (approval_of m) ''digest'' = PStr (canonical_digest digest m) \<Longrightarrow>
      rests_on digest ds m"
    and "approved (dset ''approval'' (PDict (on_ingest digest m)) m)"
  shows "rests_on digest ds (dset ''approval'' (PDict (on_ingest digest m)) m)"
proof -
  have "dgetN (on_ingest digest m) ''digest'' = PStr (canonical_digest digest m)"
    by (simp add: on_ingest_def dgetN_def Let_def)
  moreover have "dgetN (on_ingest digest m) ''status'' =
      PStr (if dgetN (approval_of m) ''status'' = PStr ''approved'' \<and>
               dgetN (approval_of m) ''digest'' = PStr (canonical_digest digest m)
            then ''approved'' else ''pending_approval'')"
    unfolding on_ingest_def Let_def approval_of_def [symmetric]
    by (simp only: dgetN_def [of "(_, _) # _"] dgetN_def [of "[_, _, _] @ _"]) (simp add: dgetN_def)
  then have "approved m" "dgetN (approval_of m) ''digest'' = PStr (canonical_digest digest m)"
    using assms(2) by (auto simp: approved_def split: if_splits)
  ultimately show ?thesis using assms(1) by (simp add: rests_on_def)
qed

lemma reset_rests:
  assumes "approval_enabled env = Inr True" "reset_if_changed digest env m = Inr (b, m')"
    and "approved m \<Longrightarrow> dgetN (approval_of m) ''digest'' = PStr (canonical_digest digest m) \<Longrightarrow>
      rests_on digest ds m"
    and "approved m'"
  shows "rests_on digest ds m'"
proof (cases "dgetN (approval_of m) ''digest'' = PStr (canonical_digest digest m)")
  case True
  with assms show ?thesis by (simp add: reset_if_changed_def approval_of_def Let_def)
next
  case False
  let ?r = "fold dpop CLEARED_DECISION_FIELDS (dmerge (approval_of m)
      [(''status'', PStr ''pending_approval''), (''digest'', PStr (canonical_digest digest m))])"
  from False assms(1,2) have m': "m' = dset ''approval'' (PDict ?r) m"
    by (simp add: reset_if_changed_def approval_of_def Let_def)
  have "dget ?r ''status'' = Some (PStr ''pending_approval'')"
    by (simp add: dget_fold_dpop dget_dmerge wf_dict_def CLEARED_DECISION_FIELDS_def
        PRESERVED_DECISION_FIELDS_def)
  with assms(4) show ?thesis by (simp add: m' approved_def dgetN_def)
qed

lemma decide_locked_ok:
  assumes "gate_ok digest (st, drift)"
  shows "gate_ok digest (fst (snd (decide_locked digest rq now plan status reason expected st)), drift)"
proof (cases rule: decide_locked_cases [of st digest expected rq now plan status reason])
  case (decided m)
  then show ?thesis
    by (auto simp: gate_ok_def approved_def rests_on_def logged_approval_def dgetN_def dget_dmerge approval_record_fields)
qed (use assms in auto)

lemma plan_step_ok:
  assumes "approval_enabled env = Inr True" "gate_ok digest (st, drift)"
  shows "gate_ok digest (plan_step digest env op st, drifts digest op st drift)"
proof (cases op)
  case (Reingest overwrite upd)
  let ?prior = "case ps_manifest st of Some old \<Rightarrow> if overwrite then [] else old | None \<Rightarrow> []"
  let ?m = "dmerge ?prior (filter (\<lambda>(k, _). k \<in> set INGEST_FIELDS) upd)"
  have a: "approval_of ?m = approval_of ?prior"
    by (rule approval_of_merge) (auto simp: INGEST_FIELDS_def)
  have "approved ?prior \<Longrightarrow> logged_approval (ps_decisions st) ?prior"
    using assms(2)
    by (auto simp: gate_ok_def approved_def approval_of_def dict_or_empty_def dgetN_def
        split: option.splits if_splits)
  then have "approved ?m \<Longrightarrow> dgetN (approval_of ?m) ''digest'' = PStr (canonical_digest digest ?m) \<Longrightarrow>
      rests_on digest (ps_decisions st) ?m"
    using logged_rests [OF _ a] by (simp add: approved_def a)
  then have "approved (dset ''approval'' (PDict (on_ingest digest ?m)) ?m) \<Longrightarrow>
      rests_on digest (ps_decisions st) (dset ''approval'' (PDict (on_ingest digest ?m)) ?m)"
    by (rule on_ingest_rests)
  then show ?thesis
    using rests_logged by (auto simp: gate_ok_def plan_step_def Reingest Let_def)
next
  case (PatchStory key fs)
  show ?thesis
  proof (cases "bind_option (ps_manifest st) (patched key fs)")
    case None
    with PatchStory assms(2) show ?thesis by (simp add: plan_step_def)
  next
    case (Some m)
    then obtain old where old: "ps_manifest st = Some old" "patched key fs old = Some m"
      by (cases "ps_manifest st") (auto simp: bind_option_def)
    from old(1) assms(2) have "approved old \<Longrightarrow> logged_approval (ps_decisions st) old"
      by (simp add: gate_ok_def)
    then have m: "approved m \<Longrightarrow> dgetN (approval_of m) ''digest'' = PStr (canonical_digest digest m) \<Longrightarrow>
        rests_on digest (ps_decisions st) m"
      using logged_rests [OF _ patched_approval [OF old(2)]] patched_approval [OF old(2)] by (simp add: approved_def)
    obtain b m' where r: "reset_if_changed digest env m = Inr (b, m')"
      using assms(1) by (cases "reset_if_changed digest env m") (auto simp: reset_if_changed_def)
    from reset_rests [OF assms(1) r m] rests_logged show ?thesis
      by (auto simp: gate_ok_def plan_step_def PatchStory Some r)
  qed
next
  case (RuntimeUpdate new)
  with assms(2) show ?thesis
    by (auto simp: plan_step_def gate_ok_def approved_def rests_on_def logged_approval_def keep_approval_of
        split: option.splits)
next
  case (Decide rq now status reason expected)
  with decide_locked_ok [OF assms(2)] show ?thesis by (simp add: plan_step_def)
qed

subsection \<open>Properties\<close>

text \<open>
  C23: With the gate on, from a plan that was never ingested and after any sequence of re-ingests, patches,
  decisions and runtime updates, a manifest that may be activated records a digest for which the decision
  log holds an approval.  That is the digest of its present content, unless a runtime update changed
  authored content after the last ingest (the gate does not look at those writers).
\<close>

theorem activatable_means_current:
  assumes "approval_enabled env = Inr True"
    and "plan_run digest env ops (\<lparr>ps_manifest = None, ps_decisions = []\<rparr>, False) = (st, drift)"
    and "ps_manifest st = Some m" "is_activatable env m = Inr True"
  shows "(\<exists>r \<in> set (ps_decisions st). dgetN r ''status'' = PStr ''approved'' \<and>
       dgetN r ''digest'' = dgetN (approval_of m) ''digest'') \<and>
    (drift \<or> dgetN (approval_of m) ''digest'' = PStr (canonical_digest digest m))"
proof -
  have "gate_ok digest (plan_run digest env ops s)" if "gate_ok digest s" for s
    using that by (induction ops arbitrary: s) (auto simp: split_paired_all intro: plan_step_ok [OF assms(1)])
  then have "gate_ok digest (st, drift)" using assms(2) by (metis fst_conv gate_ok_def option.distinct(1) plan_store.select_convs(1))
  moreover from assms(1,4) have "approved m"
    by (auto simp: is_activatable_def approved_def approval_of_def dict_or_empty_def split: pyval.splits)
  ultimately show ?thesis using assms(3) by (auto simp: gate_ok_def rests_on_def logged_approval_def)
qed

definition gate_on :: env where
  "gate_on = [(''PIPELINE_PLAN_APPROVAL'', ''on'')]"

definition demo_ops :: "plan_op list" where
  "demo_ops = [Reingest False [(''repo_root'', PStr ''r''), (''stories'', PDict [])],
     Decide no_request ''t'' ''approved'' [] None]"

definition demo_run :: "plan_op list \<Rightarrow> plan_store \<times> bool" where
  "demo_run ops = plan_run demo_digest gate_on ops (\<lparr>ps_manifest = None, ps_decisions = []\<rparr>, False)"

definition demo_manifest :: "plan_op list \<Rightarrow> pydict" where
  "demo_manifest ops = the (ps_manifest (fst (demo_run ops)))"

theorem activatable_means_current_witness:
  "dgetN (approval_of (demo_manifest demo_ops)) ''digest'' = PStr (canonical_digest demo_digest (demo_manifest demo_ops))"
proof -
  have "approval_enabled gate_on = Inr True" "ps_manifest (fst (demo_run demo_ops)) = Some (demo_manifest demo_ops)"
    "\<not> snd (demo_run demo_ops)" "is_activatable gate_on (demo_manifest demo_ops) = Inr True"
    by code_simp+
  from activatable_means_current [OF this(1) _ this(2,4), of demo_digest demo_ops "snd (demo_run demo_ops)"] this(3)
  show ?thesis by (simp add: demo_run_def)
qed

text \<open>
  C30: A decision is stored only for an authorized caller who saw the present content: it needs
  the gate, a valid plan name, a permission for that very action on the manifest read before the lock, a
  stored digest and an expected digest that match the manifest read under it; then record and log agree, and in every other case manifest and
  decision log stay as they were.
\<close>

theorem decision_needs_authority_and_digest:
  "case decide_plan render digest env auth rq now acquired plan status reason expected seen st of
     (res, st', tr) \<Rightarrow>
       (st' = st \<or>
        (\<exists>m record. res = Inr (Decided record) \<and> ps_manifest st = Some m \<and>
           approval_enabled env = Inr True \<and> validate_key plan \<and>
           fst (authorize render [] env auth rq (Raw (decision_action status)) (PDict seen) plan None True) = Inr None \<and>
           dgetN (approval_of m) ''digest'' = PStr (canonical_digest digest m) \<and>
           (expected = None \<or> expected = Some (canonical_digest digest m)) \<and>
           dgetN record ''decided_by'' = PStr (actor_id rq) \<and>
           dgetN record ''digest'' = PStr (canonical_digest digest m) \<and>
           ps_decisions st' = ps_decisions st @ [record] \<and>
           ps_manifest st' = Some (dset ''approval'' (PDict (dmerge (approval_of m) record)) m)))"
proof (cases rule: decide_plan_cases [of render digest env auth rq now acquired plan status reason
      expected seen st])
  case kept
  then show ?thesis by (auto split: prod.split)
next
  case entered
  show ?thesis
  proof (cases rule: decide_locked_cases [of st digest expected rq now plan status reason])
    case (decided m)
    let ?r = "approval_record rq now plan status reason (canonical_digest digest m) m (approval_of m)"
    have "dgetN ?r ''decided_by'' = PStr (actor_id rq)"
      "dgetN ?r ''digest'' = PStr (canonical_digest digest m)"
      by (simp_all add: dgetN_def approval_record_fields)
    with decided entered show ?thesis by (auto split: prod.split)
  next
    case kept
    with entered(5) show ?thesis by (auto split: prod.split)
  qed
qed

definition rejected_then_approved :: plan_store where
  "rejected_then_approved =
     fst (demo_run
       [Reingest False [(''repo_root'', PStr ''r''), (''stories'', PDict [])],
        Decide no_request ''t'' ''changes_requested'' ''too broad'' None,
        Decide no_request ''u'' ''approved'' [] None])"

text \<open>
  The reason of a rejection is meant not to outlive it, yet an approval of the same content keeps
  it: the merged record is approved and still says why it was refused.
\<close>

lemma approval_keeps_rejection_reason:
  "case ps_manifest rejected_then_approved of
     None \<Rightarrow> False
   | Some m \<Rightarrow> dgetN (approval_of m) ''status'' = PStr ''approved'' \<and>
       dgetN (approval_of m) ''reason'' = PStr ''too broad''"
  by code_simp

text \<open>
  The digest covers a story's backend, and the first dispatch writes it (\<open>dispatch.py\<close>).  From then on the
  running plan's content is not the approved one, and neither a rejection nor a new approval is accepted.
\<close>

definition backend_digest :: "pydict \<Rightarrow> string" where
  "backend_digest d =
     (case dgetN d ''stories'' of
        PDict ss \<Rightarrow> (case dgetN ss ''k'' of PDict s \<Rightarrow> (case dgetN s ''backend'' of PStr b \<Rightarrow> b | _ \<Rightarrow> []) | _ \<Rightarrow> [])
      | _ \<Rightarrow> [])"

definition dispatched_plan :: plan_store where
  "dispatched_plan = fst (plan_run backend_digest gate_on
     [Reingest False [(''stories'', PDict [(''k'', PDict [(''summary'', PStr ''s'')])])],
      Decide no_request ''t'' ''approved'' [] None,
      RuntimeUpdate [(''stories'', PDict [(''k'', PDict [(''summary'', PStr ''s''), (''backend'', PStr ''local'')])])]]
     (\<lparr>ps_manifest = None, ps_decisions = []\<rparr>, False))"

lemma running_plan_cannot_be_rejected:
  "is_activatable gate_on (the (ps_manifest dispatched_plan)) = Inr True \<and>
   fst (decide_locked backend_digest no_request ''u'' ''p'' ''changes_requested'' ''stop'' None dispatched_plan) = DigestMismatch \<and>
   fst (decide_locked backend_digest no_request ''u'' ''p'' ''approved'' [] None dispatched_plan) = DigestMismatch"
  by code_simp

text \<open>A plan or story key that ends in a newline passes the path check.\<close>

lemma key_with_newline_accepted: "validate_key (''plan'' @ [CHR 0x0A])"
  by code_simp

end
