(* ===== verification/MergeReverify.thy ===== *)
theory MergeReverify
  imports ReviewBinding CiGate PlanApproval
begin

text \<open>
  \<open>src/pipeline/merge_reverify.py\<close>: the re-run of a story's tests and build before a merge, as a
  detached job that one tick starts and a later tick collects.  A job's handle and its result are the
  JSON documents the source writes; processes, the clock and the files are parameters, and \<open>jw_text\<close> is \<open>str\<close> of a value that is no string.
\<close>

record job_world =
  jw_env :: env
  jw_pytest :: bool
  jw_now :: string
  jw_clock :: rat
  jw_instant :: "string \<Rightarrow> rat option"
  jw_dirs :: "string \<Rightarrow> bool"
  jw_job_dir :: "string \<Rightarrow> string"
  jw_spawn :: "string + int"
  jw_alive :: "int \<Rightarrow> bool"
  jw_killpg :: "int \<Rightarrow> gate_exn option"
  jw_result :: "string \<Rightarrow> pyval option"
  jw_log :: "string \<Rightarrow> string"
  jw_show :: "rat \<Rightarrow> string"
  jw_text :: "pyval \<Rightarrow> string"

definition detached_enabled :: "job_world \<Rightarrow> bool" where
  "detached_enabled w = (\<not> jw_pytest w \<and> dget (jw_env w) ''PIPELINE_MERGE_REVERIFY_DETACHED'' \<noteq> Some ''0'')"

datatype job_call = Unlinked string | Spawned int | Killed int

text \<open>
  \<open>start_merge_reverify\<close>: a handle, or the class of an error its caller catches (\<open>ValueError\<close>,
  \<open>OSError\<close>).  The previous result goes before the process starts.
\<close>

definition start_merge_reverify ::
  "job_world \<Rightarrow> string \<Rightarrow> string \<Rightarrow> pyval \<Rightarrow> (job_call, gate_exn, string + pydict) logged" where
  "start_merge_reverify w plan key worktree =
     (if \<not> validate_key plan \<or> \<not> validate_key key then retW (Inl ''ValueError'')
      else bindW (liftW (path_is_dir (jw_dirs w) worktree)) (\<lambda>is_dir.
        if \<not> is_dir then retW (Inl ''ValueError'')
        else let result = jw_job_dir w key @ ''/result.json'' in
          tellW [Unlinked result]
            (case jw_spawn w of
               Inl cls \<Rightarrow> retW (Inl cls)
             | Inr pid \<Rightarrow> tellW [Spawned pid] (retW (Inr
                 [(''pid'', PInt pid), (''result_path'', PStr result),
                  (''log_path'', PStr (jw_job_dir w key @ ''/job.log'')), (''started_at'', PStr (jw_now w))])))))"

fun pid_of :: "pyval \<Rightarrow> int option" where
  "pid_of (PInt i) = Some i"
| "pid_of (PBool b) = Some (if b then 1 else 0)"
| "pid_of _ = None"

definition log_tail :: "job_world \<Rightarrow> pyval \<Rightarrow> pyval" where
  "log_tail w v = PStr (last_chars 2000 (jw_log w (py_str (jw_text w) v)))"

definition no_result :: "job_world \<Rightarrow> pydict \<Rightarrow> pydict" where
  "no_result w job =
     [(''state'', PStr ''error''), (''error'', PStr ''merge re-verify exited without a result''),
      (''log_tail'', log_tail w (dget_or job ''log_path'' (PStr [])))]"

definition timed_out :: "job_world \<Rightarrow> rat \<Rightarrow> pydict" where
  "timed_out w timeout =
     [(''state'', PStr ''error''),
      (''error'', PStr (''merge re-verify timed out after '' @ jw_show w timeout @ ''s'')),
      (''timed_out'', PBool True)]"

definition parse_started_at :: "job_world \<Rightarrow> pydict \<Rightarrow> rat option" where
  "parse_started_at w job = (case dgetN job ''started_at'' of PStr s \<Rightarrow> jw_instant w s | _ \<Rightarrow> None)"

definition VALID_STATES :: "string list" where
  "VALID_STATES = [''pass'', ''fail'', ''error'']"

definition read_result :: "job_world \<Rightarrow> pydict \<Rightarrow> gate_exn + pydict" where
  "read_result w job =
     (let path = dgetN job ''result_path'' in
      if \<not> truthy path then Inr (no_result w job)
      else (case jw_result w (py_str (jw_text w) path) of
              Some (PDict data) \<Rightarrow>
                if \<not> hashable (dgetN data ''state'') then Inl GateTypeError
                else Inr (if py_in (dgetN data ''state'') (map PStr VALID_STATES) then data else no_result w job)
            | _ \<Rightarrow> Inr (no_result w job)))"

text \<open>None is a job that still runs.\<close>

definition collect_merge_reverify ::
  "job_world \<Rightarrow> pydict \<Rightarrow> rat \<Rightarrow> (job_call, gate_exn, pydict option) logged" where
  "collect_merge_reverify w job timeout =
     (case pid_of (dgetN job ''pid'') of
        Some pid \<Rightarrow>
          if jw_alive w pid then
            (case parse_started_at w job of
               None \<Rightarrow> retW None
             | Some started \<Rightarrow>
                 if jw_clock w - started \<le> timeout then retW None
                 else tellW [Killed pid]
                        (case jw_killpg w pid of Some e \<Rightarrow> liftW (Inl e) | None \<Rightarrow> retW (Some (timed_out w timeout))))
          else bindW (liftW (read_result w job)) (\<lambda>r. retW (Some r))
      | None \<Rightarrow> bindW (liftW (read_result w job)) (\<lambda>r. retW (Some r)))"

text \<open>\<open>cancel_merge_reverify\<close> answers nothing and never raises.\<close>

definition cancel_merge_reverify :: "job_world \<Rightarrow> pyval \<Rightarrow> job_call list" where
  "cancel_merge_reverify w job =
     (case job of
        PDict d \<Rightarrow> (case pid_of (dgetN d ''pid'') of
            Some pid \<Rightarrow> if jw_alive w pid then [Killed pid] else []
          | None \<Rightarrow> [])
      | _ \<Rightarrow> [])"

subsection \<open>The job\<close>

fun exn_name :: "gate_exn \<Rightarrow> string" where
  "exn_name GateKeyError = ''KeyError''"
| "exn_name GateTypeError = ''TypeError''"
| "exn_name GateAttributeError = ''AttributeError''"
| "exn_name (GateRaised cls) = cls"

definition result_doc :: "string \<Rightarrow> string \<Rightarrow> pyval \<Rightarrow> pyval \<Rightarrow> pydict" where
  "result_doc state err sha last_check =
     [(''state'', PStr state), (''error'', PStr err), (''sha'', sha), (''last_test_check'', last_check)]"

text \<open>\<open>main\<close>, from the story it finds in the manifest to the result it writes.\<close>

definition raised_doc :: "gate_exn \<Rightarrow> pyval \<Rightarrow> pyval \<Rightarrow> pydict" where
  "raised_doc e sha last_check = result_doc ''error'' (''merge re-verify raised '' @ exn_name e) sha last_check"

definition reverify_job :: "checkout \<Rightarrow> gate_exn + pydict \<Rightarrow> string \<Rightarrow> string \<Rightarrow> pydict" where
  "reverify_job w found key worktree =
     (case found of
        Inl e \<Rightarrow> raised_doc e PNone PNone
      | Inr story \<Rightarrow>
          (case co_head w worktree of
             None \<Rightarrow> raised_doc (GateRaised ''CalledProcessError'') PNone (dgetN story ''last_test_check'')
           | Some head \<Rightarrow>
               let sha = PStr head in
               (case reverify_acceptance w story (PStr worktree) key of
                  Inl e \<Rightarrow> raised_doc e sha (dgetN story ''last_test_check'')
                | Inr (acc, story) \<Rightarrow>
                    let last_check = dgetN story ''last_test_check'' in
                    if ci_state acc = FAIL
                    then result_doc ''fail'' (''acceptance reverify fail: '' @ ci_error acc) sha last_check
                    else (case reverify_build w (PStr worktree) of
                            Inl e \<Rightarrow> raised_doc e sha last_check
                          | Inr build \<Rightarrow>
                              if ci_state build = FAIL
                              then result_doc ''fail'' (''build reverify fail: '' @ ci_error build) sha last_check
                              else result_doc ''pass'' [] sha last_check))))"

definition exit_code :: "pydict \<Rightarrow> int" where
  "exit_code result = (if py_in (dgetN result ''state'') (map PStr [''pass'', ''fail'']) then 0 else 1)"

text \<open>What a result must be for the gate to read it as the job meant it.\<close>

definition job_document :: "pydict \<Rightarrow> bool" where
  "job_document d \<longleftrightarrow> dgetN d ''state'' \<in> PStr ` set VALID_STATES \<and> is_pystr (dgetN d ''error'') \<and>
     (dgetN d ''state'' = PStr ''fail'' \<longrightarrow> truthy (dgetN d ''error''))"

lemmas job_docs = raised_doc_def result_doc_def dgetN_def

lemma reverify_job_document: "job_document (reverify_job w found key wt)"
  by (auto simp: reverify_job_def job_document_def job_docs VALID_STATES_def Let_def split: sum.split option.split)

lemma reverify_job_pass:
  assumes "dgetN (reverify_job w found key wt) ''state'' = PStr ''pass''"
  shows "\<exists>story head acc story' build. found = Inr story \<and> co_head w wt = Some head \<and>
    dgetN (reverify_job w found key wt) ''sha'' = PStr head \<and>
    reverify_acceptance w story (PStr wt) key = Inr (acc, story') \<and> ci_state acc \<noteq> FAIL \<and>
    reverify_build w (PStr wt) = Inr build \<and> ci_state build \<noteq> FAIL"
  using assms
  by (auto simp: reverify_job_def job_docs Let_def split: sum.splits option.splits if_splits)

lemma read_result_valid:
  "read_result w job = Inr d \<Longrightarrow> dgetN d ''state'' \<in> PStr ` set VALID_STATES"
  by (auto simp: read_result_def no_result_def VALID_STATES_def dgetN_def py_in_strs Let_def split: pyval.splits option.splits if_splits)

lemma collected_was_written:
  assumes "snd (collect_merge_reverify w job timeout) = Inr (Some d)" "dgetN d ''state'' \<noteq> PStr ''error''"
  shows "jw_result w (py_str (jw_text w) (dgetN job ''result_path'')) = Some (PDict d)"
  using assms
  by (auto simp: collect_merge_reverify_def read_result_def no_result_def timed_out_def dgetN_def bindE_Inr_iff Let_def
      split: pyval.splits option.splits if_splits)

end
