(* ===== verification/DispatchLease.thy ===== *)
theory DispatchLease
  imports AuditChain
begin

text \<open>
  \<open>src/pipeline/dispatch_lease.py\<close>: the lease that keeps two ticks from dispatching one story.
  A story is its dictionary; time is in microseconds.  Reading and printing ISO-8601 timestamps is
  the \<open>datetime\<close> library: \<open>parse\<close> yields nothing (not a timestamp), a naive one, or an aware
  one; \<open>iso\<close> prints an aware one.  \<open>kill\<close> is what the kernel answers to signal 0.
\<close>

definition DEFAULT_TTL :: int where
  "DEFAULT_TTL = 1800"

definition MAX_TTL :: int where
  "MAX_TTL = 2592000"

datatype probe = Alive | Gone | NotPermitted

datatype lease_exn = LeaseValueError | LeaseOverflow

record os_world =
  parse_time :: "string \<Rightarrow> int option option"
  iso_time :: "int \<Rightarrow> string"
  kill0 :: "int \<Rightarrow> probe"

definition validated_ttl :: "int \<Rightarrow> bool \<Rightarrow> lease_exn + int" where
  "validated_ttl ttl from_env =
     (if 0 < ttl \<and> ttl \<le> MAX_TTL then Inr ttl
      else if from_env then Inr DEFAULT_TTL
      else Inl LeaseValueError)"

definition lease_ttl :: "env \<Rightarrow> int option \<Rightarrow> lease_exn + int" where
  "lease_ttl env ttl_s =
     (case ttl_s of
        Some t \<Rightarrow> validated_ttl t False
      | None \<Rightarrow>
          validated_ttl
            (case dget env ''PIPELINE_DISPATCH_LEASE_TTL_SECONDS'' of
               None \<Rightarrow> DEFAULT_TTL
             | Some raw \<Rightarrow> (case int_of_str raw of Some i \<Rightarrow> i | None \<Rightarrow> DEFAULT_TTL)) True)"

text \<open>\<open>os.kill\<close> takes a C int: a larger pid raises \<open>OverflowError\<close>, which nobody catches.\<close>

definition kill_probe :: "os_world \<Rightarrow> int \<Rightarrow> lease_exn + probe" where
  "kill_probe w pid = (if pid > 2147483647 then Inl LeaseOverflow else Inr (kill0 w pid))"

definition owner_is_alive :: "os_world \<Rightarrow> pydict \<Rightarrow> lease_exn + bool" where
  "owner_is_alive w story =
     (case dgetN story ''dispatch_lease_owner_pid'' of
        PInt pid \<Rightarrow>
          if pid \<le> 0 then Inr True
          else bindE (kill_probe w pid) (\<lambda>p. Inr (p \<noteq> Gone))
      | _ \<Rightarrow> Inr True)"

definition lease_is_live :: "os_world \<Rightarrow> int \<Rightarrow> pydict \<Rightarrow> lease_exn + bool" where
  "lease_is_live w now story =
     (case dgetN story ''dispatch_lease_expires_at'' of
        PStr s \<Rightarrow>
          if s = [] then Inr False
          else (case parse_time w s of
                  Some (Some t) \<Rightarrow> if t \<le> now then Inr False else owner_is_alive w story
                | _ \<Rightarrow> Inr False)
      | _ \<Rightarrow> Inr False)"

definition with_lease :: "os_world \<Rightarrow> int \<Rightarrow> int \<Rightarrow> pydict \<Rightarrow> pydict" where
  "with_lease w expiry pid story =
     dset ''dispatch_lease_owner_pid'' (PInt pid)
       (dset ''dispatch_lease_expires_at'' (PStr (iso_time w expiry)) story)"

definition claim_dispatch_lease ::
  "os_world \<Rightarrow> env \<Rightarrow> int \<Rightarrow> int \<Rightarrow> int option \<Rightarrow> pydict \<Rightarrow> lease_exn + bool \<times> pydict" where
  "claim_dispatch_lease w env now pid ttl_s story =
     bindE (lease_ttl env ttl_s) (\<lambda>ttl.
     bindE (lease_is_live w now story) (\<lambda>live.
     if live then Inr (False, story)
     else Inr (True, with_lease w (now + ttl * 1000000) pid story)))"

definition clear_lease :: "pydict \<Rightarrow> pydict" where
  "clear_lease story =
     dpop ''dispatch_lease_owner_pid'' (dpop ''dispatch_lease_expires_at'' story)"

subsection \<open>Lemmas\<close>

definition prints_back :: "os_world \<Rightarrow> int \<Rightarrow> bool" where
  "prints_back w t = (iso_time w t \<noteq> [] \<and> parse_time w (iso_time w t) = Some (Some t))"

lemma lease_ttl_range: "lease_ttl env ttl_s = Inr ttl \<Longrightarrow> 0 < ttl \<and> ttl \<le> MAX_TTL"
  by (auto simp: lease_ttl_def validated_ttl_def DEFAULT_TTL_def MAX_TTL_def
      split: option.splits if_splits)

lemma lease_ttl_env: "\<exists>ttl. lease_ttl env None = Inr ttl"
  by (auto simp: lease_ttl_def validated_ttl_def)

lemma claim_refused_keeps:
  "claim_dispatch_lease w env now pid ttl_s story = Inr (False, story') \<Longrightarrow> story' = story"
  by (auto simp: claim_dispatch_lease_def okE split: if_splits)

lemma claim_granted:
  assumes "claim_dispatch_lease w env now pid ttl_s story = Inr (True, story')"
  shows "lease_is_live w now story = Inr False \<and>
    (\<exists>ttl. lease_ttl env ttl_s = Inr ttl \<and> story' = with_lease w (now + ttl * 1000000) pid story)"
  using assms by (auto simp: claim_dispatch_lease_def okE split: if_splits)

lemma with_lease_live:
  assumes "prints_back w e" "0 < pid" "pid \<le> 2147483647"
  shows "lease_is_live w now (with_lease w e pid story) = Inr (now < e \<and> kill0 w pid \<noteq> Gone)"
  using assms
  by (auto simp: lease_is_live_def owner_is_alive_def kill_probe_def with_lease_def dgetN_def
      prints_back_def)

lemma clear_lease_dead: "lease_is_live w now (clear_lease story) = Inr False"
  by (simp add: lease_is_live_def clear_lease_def dgetN_def)

text \<open>A lease whose owner pid does not fit a C int makes the check raise.\<close>

lemma oversized_pid_raises:
  assumes "prints_back w e" "now < e"
  shows "claim_dispatch_lease w env now pid None (with_lease w e 2147483648 story) = Inl LeaseOverflow"
proof -
  from lease_ttl_env [of env] obtain ttl where "lease_ttl env None = Inr ttl" ..
  moreover have "lease_is_live w now (with_lease w e 2147483648 story) = Inl LeaseOverflow"
    using assms by (simp add: lease_is_live_def owner_is_alive_def kill_probe_def with_lease_def
        dgetN_def prints_back_def)
  ultimately show ?thesis by (simp add: claim_dispatch_lease_def)
qed

subsection \<open>Properties\<close>

text \<open>
  C13: After a claim succeeds, another claim of the same story is granted exactly when the lease
  has run out or its owner is gone; until then it is refused and the story stays as it is, so at
  most one live owner dispatches, and no lease withholds a story for more than thirty days.
\<close>

theorem lease_excludes_and_expires:
  assumes "claim_dispatch_lease w env now pid ttl_s story = Inr (True, leased)"
    and "lease_ttl env ttl_s = Inr ttl" "prints_back w (now + ttl * 1000000)"
    and "0 < pid" "pid \<le> 2147483647" "lease_ttl env' ttl_s' = Inr ttl'"
  shows "claim_dispatch_lease w env' now' pid' ttl_s' leased =
      Inr (if now' < now + ttl * 1000000 \<and> kill0 w pid \<noteq> Gone then (False, leased)
           else (True, with_lease w (now' + ttl' * 1000000) pid' leased)) \<and>
    now < now + ttl * 1000000 \<and> now + ttl * 1000000 \<le> now + 2592000 * 1000000"
proof -
  from claim_granted [OF assms(1)] assms(2) have
    l: "leased = with_lease w (now + ttl * 1000000) pid story" by auto
  from with_lease_live [OF assms(3,4,5), of now' story] have
    "lease_is_live w now' leased = Inr (now' < now + ttl * 1000000 \<and> kill0 w pid \<noteq> Gone)"
    by (simp add: l)
  then show ?thesis
    using assms(6) lease_ttl_range [OF assms(2)]
    by (auto simp: claim_dispatch_lease_def MAX_TTL_def)
qed

definition demo_os :: os_world where
  "demo_os =
     \<lparr>parse_time = (\<lambda>s. if s = ''a'' then Some (Some 5000000) else None),
      iso_time = (\<lambda>t. if t = 5000000 then ''a'' else ''b''),
      kill0 = (\<lambda>p. if p = 7 then Alive else Gone)\<rparr>"

theorem lease_excludes_and_expires_witness:
  "claim_dispatch_lease demo_os [] 4000000 8 None
     (with_lease demo_os 5000000 7 []) = Inr (False, with_lease demo_os 5000000 7 [])"
proof -
  have c: "claim_dispatch_lease demo_os [] 0 7 (Some 5) [] = Inr (True, with_lease demo_os 5000000 7 [])"
    "lease_ttl [] (Some 5) = Inr 5" "lease_ttl [] None = Inr 1800"
    "prints_back demo_os (0 + 5 * 1000000)" "kill0 demo_os 7 = Alive"
    by (simp_all add: claim_dispatch_lease_def lease_ttl_def validated_ttl_def MAX_TTL_def
        DEFAULT_TTL_def lease_is_live_def dgetN_def prints_back_def demo_os_def)
  from lease_excludes_and_expires [OF c(1,2,4) _ _ c(3), of 4000000 8] c(5) show ?thesis by simp
qed

end
