(* ===== verification/CrossPlan.thy ===== *)
theory CrossPlan
  imports AuditChain
begin

text \<open>
  \<open>src/pipeline/cross_plan.py\<close>: the manifests of the other plans, read through a cache, and the
  questions asked of them.  A path is a directory with a file name; \<open>resolve\<close> is \<open>Path.resolve\<close>.
  What a call finds on disk is a \<open>disk\<close>: the stamp of each file and the JSON its text parses to
  (or the class of the exception), which a concurrent writer may change between two calls.
\<close>

subsection \<open>The manifest cache\<close>

type_synonym path = "string \<times> string"
type_synonym stamp = "int \<times> int"

record disk =
  stat_of :: "path \<Rightarrow> string + stamp"
  json_of :: "path \<Rightarrow> string + pyval"

datatype failure_kind = Unreadable | NotObject

type_synonym failure = "stamp option \<times> failure_kind \<times> string option"

record mcache =
  cached :: "(path \<times> stamp \<times> pydict) list"
  failures :: "(path \<times> failure) list"
  warned :: "(path \<times> failure) list"

definition clear_manifest_cache :: mcache where
  "clear_manifest_cache = \<lparr>cached = [], failures = [], warned = []\<rparr>"

definition dropped :: "path \<Rightarrow> failure \<Rightarrow> mcache \<Rightarrow> mcache" where
  "dropped key f c = c\<lparr>cached := dpop key (cached c), failures := dset key f (failures c)\<rparr>"

definition read_manifest_cached ::
  "(path \<Rightarrow> path) \<Rightarrow> disk \<Rightarrow> path \<Rightarrow> mcache \<Rightarrow> pydict option \<times> mcache" where
  "read_manifest_cached resolve d path c =
     (let key = resolve path in
      case stat_of d key of
        Inl e \<Rightarrow> (None, dropped key (None, Unreadable, Some e) c)
      | Inr stamp \<Rightarrow>
          (case dget (cached c) key of
             Some (seen, m) \<Rightarrow>
               if seen = stamp then (Some m, c)
               else (case json_of d key of
                       Inl e \<Rightarrow> (None, dropped key (Some stamp, Unreadable, Some e) c)
                     | Inr (PDict m) \<Rightarrow>
                         (Some m, c\<lparr>cached := dset key (stamp, m) (cached c),
                                    failures := dpop key (failures c)\<rparr>)
                     | Inr _ \<Rightarrow> (None, dropped key (Some stamp, NotObject, None) c))
           | None \<Rightarrow>
               (case json_of d key of
                  Inl e \<Rightarrow> (None, dropped key (Some stamp, Unreadable, Some e) c)
                | Inr (PDict m) \<Rightarrow>
                    (Some m, c\<lparr>cached := dset key (stamp, m) (cached c),
                               failures := dpop key (failures c)\<rparr>)
                | Inr _ \<Rightarrow> (None, dropped key (Some stamp, NotObject, None) c))))"

text \<open>\<open>_warn_skipped_manifest\<close>: the failure it logs, if any.\<close>

definition warn_skipped_manifest ::
  "(path \<Rightarrow> path) \<Rightarrow> path \<Rightarrow> mcache \<Rightarrow> failure option \<times> mcache" where
  "warn_skipped_manifest resolve path c =
     (let key = resolve path in
      case dget (failures c) key of
        None \<Rightarrow> (None, c)
      | Some f \<Rightarrow>
          if dget (warned c) key = Some f then (None, c)
          else (Some f, c\<lparr>warned := dset key f (warned c)\<rparr>))"

definition pruned :: "(path \<Rightarrow> bool) \<Rightarrow> (path \<times> 'v) list \<Rightarrow> (path \<times> 'v) list" where
  "pruned gone d = filter (\<lambda>(k, _). \<not> gone k) d"

definition prune_manifest_cache ::
  "(path \<Rightarrow> path) \<Rightarrow> string \<Rightarrow> path list \<Rightarrow> mcache \<Rightarrow> mcache" where
  "prune_manifest_cache resolve dir paths c =
     (let gone = (\<lambda>k. fst k = dir \<and> k \<notin> resolve ` set paths)
      in c\<lparr>cached := pruned gone (cached c), failures := pruned gone (failures c),
           warned := pruned gone (warned c)\<rparr>)"

definition manifest_path :: "string \<Rightarrow> string \<Rightarrow> path" where
  "manifest_path dir plan = (dir, plan @ ''.manifest.json'')"

text \<open>
  \<open>load_manifests\<close>: \<open>plans\<close> are the names of the manifest files, \<open>rdir\<close> the resolved directory.
  The result carries the warnings logged.
\<close>

definition load_one ::
  "(path \<Rightarrow> path) \<Rightarrow> disk \<Rightarrow> string \<Rightarrow> string option \<Rightarrow> string \<Rightarrow>
   (string \<times> pydict) list \<times> mcache \<times> (string \<times> failure) list \<Rightarrow>
   (string \<times> pydict) list \<times> mcache \<times> (string \<times> failure) list" where
  "load_one resolve d dir exclude plan s =
     (case s of (ms, c, warnings) \<Rightarrow>
        if Some plan = exclude then s
        else case read_manifest_cached resolve d (manifest_path dir plan) c of
          (Some m, c') \<Rightarrow> (dset plan m ms, c', warnings)
        | (None, c') \<Rightarrow>
            (case warn_skipped_manifest resolve (manifest_path dir plan) c' of
               (Some f, c'') \<Rightarrow> (ms, c'', warnings @ [(plan, f)])
             | (None, c'') \<Rightarrow> (ms, c'', warnings)))"

definition load_manifests ::
  "(path \<Rightarrow> path) \<Rightarrow> disk \<Rightarrow> string \<Rightarrow> string \<Rightarrow> string list \<Rightarrow> string option \<Rightarrow> mcache \<Rightarrow>
   (string \<times> pydict) list \<times> mcache \<times> (string \<times> failure) list" where
  "load_manifests resolve d dir rdir plans exclude c =
     (let names = sort_key (\<lambda>p. p @ ''.manifest.json'') plans;
          c = prune_manifest_cache resolve rdir (map (manifest_path dir) names) c
      in fold (load_one resolve d dir exclude) names ([], c, []))"

subsection \<open>Questions about the other plans\<close>

datatype cp_exn = CpTypeError | CpAttributeError

definition ACTIVE_STATUSES :: "string list" where
  "ACTIVE_STATUSES =
     [''in_progress'', ''interrupted'', ''changes_requested'', ''tests_passed'', ''pr_open'']"

definition SATISFIED_STATUSES :: "string list" where
  "SATISFIED_STATUSES = [''done'', ''merged'']"

text \<open>\<open>v in frozenset({...})\<close>, \<open>v.get\<close> and \<open>for x in v\<close> on any value.\<close>

definition in_statuses :: "pyval \<Rightarrow> string list \<Rightarrow> cp_exn + bool" where
  "in_statuses v ss = (if hashable v then Inr (py_in v (map PStr ss)) else Inl CpTypeError)"

definition as_dict :: "pyval \<Rightarrow> cp_exn + pydict" where
  "as_dict v = (case v of PDict d \<Rightarrow> Inr d | _ \<Rightarrow> Inl CpAttributeError)"

definition dict_or :: "pyval \<Rightarrow> cp_exn + pydict" where
  "dict_or v = (if truthy v then as_dict v else Inr [])"

definition elements :: "pyval \<Rightarrow> cp_exn + pyval list" where
  "elements v =
     (case v of
        PList xs \<Rightarrow> Inr xs
      | PStr s \<Rightarrow> Inr (map (\<lambda>c. PStr [c]) s)
      | PDict d \<Rightarrow> Inr (map PStr (dkeys d))
      | _ \<Rightarrow> Inl CpTypeError)"

record in_flight_story =
  fl_plan :: string
  fl_key :: string
  fl_files :: "string list"

definition string_files :: "pyval \<Rightarrow> string list" where
  "string_files v =
     (case v of
        PList xs \<Rightarrow> concat (map (\<lambda>x. case x of PStr s \<Rightarrow> [s] | _ \<Rightarrow> []) xs)
      | _ \<Rightarrow> [])"

definition flying :: "string \<Rightarrow> string \<times> pyval \<Rightarrow> cp_exn + in_flight_story list" where
  "flying plan entry =
     bindE (as_dict (snd entry)) (\<lambda>story.
     bindE (in_statuses (dgetN story ''status'') ACTIVE_STATUSES) (\<lambda>active.
     Inr (if active then [\<lparr>fl_plan = plan, fl_key = fst entry,
                           fl_files = string_files (dgetN story ''files'')\<rparr>] else [])))"

definition in_flight_stories :: "(string \<times> pydict) list \<Rightarrow> cp_exn + in_flight_story list" where
  "in_flight_stories manifests =
     bindE (mapE (\<lambda>(plan, m).
       bindE (dict_or (dgetN m ''stories'')) (\<lambda>stories.
       bindE (mapE (flying plan) stories) (\<lambda>fs. Inr (concat fs)))) manifests) (\<lambda>fs.
     Inr (concat fs))"

definition file_overlaps ::
  "pyval \<Rightarrow> in_flight_story list \<Rightarrow> cp_exn + in_flight_story list" where
  "file_overlaps files others =
     (if \<not> truthy files then Inr []
      else bindE (elements files) (\<lambda>xs.
        if list_all hashable xs
        then Inr (filter (\<lambda>o'. list_ex (\<lambda>f. py_in (PStr f) xs) (fl_files o')) others)
        else Inl CpTypeError))"

definition target_of :: "(string \<times> pydict) list \<Rightarrow> pyval \<Rightarrow> cp_exn + pyval" where
  "target_of manifests ref =
     (case (case ref of PStr s \<Rightarrow> partition_at CHR '':'' s | _ \<Rightarrow> ([], False, [])) of
        (plan, sep, key) \<Rightarrow>
          if sep
          then bindE (dict_or (dgetN (case dget manifests plan of Some m \<Rightarrow> m | None \<Rightarrow> []) ''stories''))
                 (\<lambda>stories. Inr (dgetN stories key))
          else Inr PNone)"

definition is_gap :: "(string \<times> pydict) list \<Rightarrow> pyval \<Rightarrow> cp_exn + bool" where
  "is_gap manifests ref =
     bindE (target_of manifests ref) (\<lambda>target.
     case target of
       PDict t \<Rightarrow> bindE (in_statuses (dgetN t ''status'') SATISFIED_STATUSES) (\<lambda>b. Inr (\<not> b))
     | _ \<Rightarrow> Inr True)"

definition blocked_refs :: "pydict \<Rightarrow> cp_exn + pyval list" where
  "blocked_refs story =
     (if truthy (dgetN story ''blocked_by'') then elements (dgetN story ''blocked_by'') else Inr [])"

definition blocked_by_gaps :: "pydict \<Rightarrow> (string \<times> pydict) list \<Rightarrow> cp_exn + pyval list" where
  "blocked_by_gaps story manifests =
     bindE (blocked_refs story) (\<lambda>refs.
     bindE (mapE (\<lambda>ref. bindE (is_gap manifests ref) (\<lambda>g. Inr (if g then [ref] else []))) refs)
       (\<lambda>gs. Inr (concat gs)))"

record conflict =
  cf_key :: string
  cf_plan :: string
  cf_other :: string
  cf_status :: pyval

definition wanted :: "pyval list \<Rightarrow> string \<Rightarrow> string list" where
  "wanted keys l =
     concat (map (\<lambda>k. case k of PStr s \<Rightarrow> if s \<noteq> [] \<and> lower s = l then [s] else [] | _ \<Rightarrow> []) keys)"

definition story_conflicts ::
  "pyval list \<Rightarrow> (string \<Rightarrow> bool) \<Rightarrow> string \<Rightarrow> string \<times> pyval \<Rightarrow> cp_exn + conflict list" where
  "story_conflicts keys worktree_exists plan entry =
     (case entry of (other, story) \<Rightarrow>
        case story of
          PDict s \<Rightarrow>
            if wanted keys (lower other) = [] then Inr []
            else bindE (in_statuses (dgetN s ''status'') SATISFIED_STATUSES) (\<lambda>satisfied.
              if satisfied \<and> \<not> worktree_exists other then Inr []
              else Inr (map (\<lambda>k. \<lparr>cf_key = k, cf_plan = plan, cf_other = other,
                                  cf_status = dgetN s ''status''\<rparr>) (wanted keys (lower other))))
        | _ \<Rightarrow> Inr [])"

definition plan_conflicts ::
  "pyval list \<Rightarrow> (string \<Rightarrow> bool) \<Rightarrow> string \<times> pyval \<Rightarrow> cp_exn + conflict list" where
  "plan_conflicts keys worktree_exists entry =
     (case entry of (plan, manifest) \<Rightarrow>
        case manifest of
          PDict m \<Rightarrow>
            (case dgetN m ''stories'' of
               PDict stories \<Rightarrow>
                 bindE (mapE (story_conflicts keys worktree_exists plan) stories) (\<lambda>cs. Inr (concat cs))
             | _ \<Rightarrow> Inr [])
        | _ \<Rightarrow> Inr [])"

definition key_conflicts ::
  "pyval list \<Rightarrow> pydict \<Rightarrow> (string \<Rightarrow> bool) \<Rightarrow> cp_exn + conflict list" where
  "key_conflicts keys manifests worktree_exists =
     bindE (mapE (plan_conflicts keys worktree_exists) manifests) (\<lambda>cs.
     Inr (sort_key cf_plan (sort_key cf_other (concat cs))))"

subsection \<open>The cache answers what the disk holds\<close>

definition direct_read :: "(path \<Rightarrow> path) \<Rightarrow> disk \<Rightarrow> path \<Rightarrow> pydict option" where
  "direct_read resolve d path =
     (case stat_of d (resolve path) of
        Inl _ \<Rightarrow> None
      | Inr _ \<Rightarrow> (case json_of d (resolve path) of Inr (PDict m) \<Rightarrow> Some m | _ \<Rightarrow> None))"

text \<open>A stamp tells what a file holds: whenever it is seen, the file parses to the same JSON.\<close>

definition stamped :: "(path \<Rightarrow> stamp \<Rightarrow> string + pyval) \<Rightarrow> disk \<Rightarrow> bool" where
  "stamped body d \<longleftrightarrow> (\<forall>p st. stat_of d p = Inr st \<longrightarrow> json_of d p = body p st)"

definition cache_ok :: "(path \<Rightarrow> stamp \<Rightarrow> string + pyval) \<Rightarrow> mcache \<Rightarrow> bool" where
  "cache_ok body c \<longleftrightarrow> (\<forall>p st m. dget (cached c) p = Some (st, m) \<longrightarrow> body p st = Inr (PDict m))"

lemma clear_ok: "cache_ok body clear_manifest_cache"
  by (simp add: cache_ok_def clear_manifest_cache_def)

lemma dropped_ok: "cache_ok body c \<Longrightarrow> cache_ok body (dropped key f c)"
  by (auto simp: cache_ok_def dropped_def)

lemma read_ok:
  assumes "cache_ok body c" "stamped body d" "read_manifest_cached resolve d path c = (r, c')"
  shows "cache_ok body c' \<and> r = direct_read resolve d path"
proof (cases "stat_of d (resolve path)")
  case (Inl e)
  with assms show ?thesis
    by (auto simp: read_manifest_cached_def Let_def direct_read_def dropped_ok)
next
  case (Inr st)
  with assms(2) have b: "json_of d (resolve path) = body (resolve path) st"
    unfolding stamped_def by blast
  show ?thesis
  proof (cases "\<exists>m. dget (cached c) (resolve path) = Some (st, m)")
    case True
    then obtain m where m: "dget (cached c) (resolve path) = Some (st, m)" by blast
    with assms(1) have "body (resolve path) st = Inr (PDict m)" unfolding cache_ok_def by blast
    with m b Inr assms show ?thesis
      by (auto simp: read_manifest_cached_def Let_def direct_read_def)
  next
    case False
    then have "read_manifest_cached resolve d path c =
        (case json_of d (resolve path) of
           Inl e \<Rightarrow> (None, dropped (resolve path) (Some st, Unreadable, Some e) c)
         | Inr (PDict m) \<Rightarrow>
             (Some m, c\<lparr>cached := dset (resolve path) (st, m) (cached c),
                        failures := dpop (resolve path) (failures c)\<rparr>)
         | Inr _ \<Rightarrow> (None, dropped (resolve path) (Some st, NotObject, None) c))"
      using Inr by (auto simp: read_manifest_cached_def Let_def split: option.splits)
    with b Inr assms(1,3) show ?thesis
      by (auto simp: direct_read_def dropped_ok split: sum.splits pyval.splits)
        (auto simp: cache_ok_def split: if_splits)
  qed
qed

lemma dget_pruned [simp]: "dget (pruned gone d) k = (if gone k then None else dget d k)"
proof (induction d)
  case (Cons x d)
  then show ?case by (cases x) (auto simp: pruned_def)
qed (simp add: pruned_def)

lemma prune_ok: "cache_ok body c \<Longrightarrow> cache_ok body (prune_manifest_cache resolve rdir paths c)"
  by (auto simp: cache_ok_def prune_manifest_cache_def Let_def split: if_splits)

lemma warn_keeps_cache: "warn_skipped_manifest resolve path c = (w, c') \<Longrightarrow> cached c' = cached c"
  by (auto simp: warn_skipped_manifest_def Let_def split: option.splits if_splits)

lemma load_one_ok:
  assumes "cache_ok body c" "stamped body d" "load_one resolve d dir exclude plan (ms, c, w) = (ms', c', w')"
  shows "cache_ok body c' \<and>
    dget ms' p = (if p = plan \<and> Some plan \<noteq> exclude \<and>
        direct_read resolve d (manifest_path dir plan) \<noteq> None
      then direct_read resolve d (manifest_path dir plan) else dget ms p)"
proof -
  obtain r c1 where r: "read_manifest_cached resolve d (manifest_path dir plan) c = (r, c1)"
    by (cases "read_manifest_cached resolve d (manifest_path dir plan) c")
  from read_ok [OF assms(1,2) r] have
    c1: "cache_ok body c1" "r = direct_read resolve d (manifest_path dir plan)" by auto
  obtain f c2 where f: "warn_skipped_manifest resolve (manifest_path dir plan) c1 = (f, c2)"
    by (cases "warn_skipped_manifest resolve (manifest_path dir plan) c1")
  from warn_keeps_cache [OF f] c1(1) have "cache_ok body c2" by (simp add: cache_ok_def)
  with assms(1,3) r c1 f show ?thesis
    by (auto simp: load_one_def split: if_splits option.splits)
qed

lemma load_fold_ok:
  assumes "cache_ok body c" "stamped body d"
    and "fold (load_one resolve d dir exclude) names (ms, c, w) = (ms', c', w')"
  shows "cache_ok body c' \<and>
    dget ms' p = (if p \<in> set names \<and> Some p \<noteq> exclude \<and>
        direct_read resolve d (manifest_path dir p) \<noteq> None
      then direct_read resolve d (manifest_path dir p) else dget ms p)"
  using assms(1,3)
proof (induction names arbitrary: ms c w)
  case (Cons plan names)
  obtain ms1 c1 w1 where
    s: "load_one resolve d dir exclude plan (ms, c, w) = (ms1, c1, w1)"
    by (cases "load_one resolve d dir exclude plan (ms, c, w)") auto
  with Cons.IH [of c1 ms1 w1] Cons.prems load_one_ok [OF Cons.prems(1) assms(2) s, of p]
  show ?case by auto
qed simp

datatype cache_op = Read disk path | Prune string "path list" | Clear

fun cache_step :: "(path \<Rightarrow> path) \<Rightarrow> cache_op \<Rightarrow> mcache \<Rightarrow> mcache" where
  "cache_step resolve (Read d p) c = snd (read_manifest_cached resolve d p c)"
| "cache_step resolve (Prune dir ps) c = prune_manifest_cache resolve dir ps c"
| "cache_step resolve Clear c = clear_manifest_cache"

fun op_stamped :: "(path \<Rightarrow> stamp \<Rightarrow> string + pyval) \<Rightarrow> cache_op \<Rightarrow> bool" where
  "op_stamped body (Read d p) = stamped body d"
| "op_stamped body _ = True"

lemma cache_run_ok:
  "\<forall>x \<in> set ops. op_stamped body x \<Longrightarrow> cache_ok body c \<Longrightarrow>
     cache_ok body (fold (cache_step resolve) ops c)"
proof (induction ops arbitrary: c)
  case (Cons x ops)
  have "cache_ok body (cache_step resolve x c)"
  proof (cases x)
    case (Read d p)
    with Cons.prems read_ok [of body c d resolve p] show ?thesis
      by (cases "read_manifest_cached resolve d p c") auto
  qed (use Cons.prems in \<open>auto simp: prune_ok clear_ok\<close>)
  with Cons show ?case by simp
qed simp

text \<open>
  C32: As long as the time stamp and size of a file tell what it holds, the cache is invisible: after
  any reads, prunings and clearings, under whatever the disk held meanwhile, a cached read returns
  what reading the file now would return, and loading a directory returns exactly its readable
  manifests, the excluded plan aside.
\<close>

theorem cache_is_invisible:
  assumes "\<forall>x \<in> set ops. op_stamped body x" "stamped body d"
    and "c = fold (cache_step resolve) ops clear_manifest_cache"
  shows "fst (read_manifest_cached resolve d path c) = direct_read resolve d path \<and>
    dget (fst (load_manifests resolve d dir rdir plans exclude c)) p =
      (if p \<in> set plans \<and> Some p \<noteq> exclude then direct_read resolve d (manifest_path dir p)
       else None)"
proof -
  have ok: "cache_ok body c" using cache_run_ok [OF assms(1) clear_ok] assms(3) by simp
  let ?names = "sort_key (\<lambda>p. p @ ''.manifest.json'') plans"
  let ?c = "prune_manifest_cache resolve rdir (map (manifest_path dir) ?names) c"
  obtain ms c' w where l: "fold (load_one resolve d dir exclude) ?names ([], ?c, []) = (ms, c', w)"
    by (cases "fold (load_one resolve d dir exclude) ?names ([], ?c, [])") auto
  from load_fold_ok [OF prune_ok [OF ok] assms(2) l, of p] l
  have "dget (fst (load_manifests resolve d dir rdir plans exclude c)) p =
      (if p \<in> set plans \<and> Some p \<noteq> exclude then direct_read resolve d (manifest_path dir p)
       else None)"
    by (auto simp: load_manifests_def Let_def)
  moreover have "fst (read_manifest_cached resolve d path c) = direct_read resolve d path"
    using read_ok [OF ok assms(2)] by (cases "read_manifest_cached resolve d path c") auto
  ultimately show ?thesis by simp
qed

definition demo_disk :: disk where
  "demo_disk = \<lparr>stat_of = (\<lambda>p. Inr (1, 2)), json_of = (\<lambda>p. Inr (PDict [(''owner'', PStr ''o'')]))\<rparr>"

theorem cache_is_invisible_witness:
  "fst (read_manifest_cached id demo_disk (''d'', ''a'') clear_manifest_cache) =
     Some [(''owner'', PStr ''o'')]"
  using cache_is_invisible [of "[]" "\<lambda>p st. Inr (PDict [(''owner'', PStr ''o'')])" demo_disk
      clear_manifest_cache id "(''d'', ''a'')"]
  by (simp add: stamped_def demo_disk_def direct_read_def)

subsection \<open>What an empty answer promises\<close>

text \<open>A blocker that no longer holds work back.\<close>

definition satisfied :: "(string \<times> pydict) list \<Rightarrow> pyval \<Rightarrow> bool" where
  "satisfied manifests ref \<longleftrightarrow>
     (\<exists>plan key m stories t. ref = PStr (plan @ CHR '':'' # key) \<and> CHR '':'' \<notin> set plan \<and>
        dget manifests plan = Some m \<and> dgetN m ''stories'' = PDict stories \<and>
        dgetN stories key = PDict t \<and> dgetN t ''status'' \<in> PStr ` {''done'', ''merged''})"

lemma in_statuses_Inr: "in_statuses v ss = Inr b \<longleftrightarrow> hashable v \<and> b = (\<exists>s \<in> set ss. v = PStr s)"
  by (auto simp: in_statuses_def py_in_strs)

lemma partition_at_append_iff:
  "c \<notin> set a \<Longrightarrow> partition_at c (a @ c # b) = (a, True, b)"
  by (rule partition_at_append)

lemma dict_or_dict: "dict_or v = Inr d \<Longrightarrow> v = PDict d \<or> (\<not> truthy v \<and> d = [])"
  by (auto simp: dict_or_def as_dict_def split: if_splits pyval.splits)

lemma dict_or_PDict [simp]: "dict_or (PDict d) = Inr d"
  by (auto simp: dict_or_def as_dict_def)

lemma is_gap_satisfied:
  assumes "is_gap manifests ref = Inr g"
  shows "g \<longleftrightarrow> \<not> satisfied manifests ref"
proof -
  from assms obtain target where
    t: "target_of manifests ref = Inr target" and
    g: "(case target of PDict t \<Rightarrow> bindE (in_statuses (dgetN t ''status'') SATISFIED_STATUSES)
            (\<lambda>b. Inr (\<not> b)) | _ \<Rightarrow> Inr True) = Inr g"
    by (auto simp: is_gap_def)
  have "g \<longleftrightarrow> \<not> (\<exists>d. target = PDict d \<and> dgetN d ''status'' \<in> PStr ` {''done'', ''merged''})"
    using g by (auto simp: in_statuses_Inr SATISFIED_STATUSES_def okE split: pyval.splits)
  moreover have "(\<exists>d. target = PDict d \<and> dgetN d ''status'' \<in> PStr ` {''done'', ''merged''}) \<longleftrightarrow>
      satisfied manifests ref" (is "?l \<longleftrightarrow> _")
  proof
    assume ?l
    then obtain d where d: "target = PDict d" "dgetN d ''status'' \<in> PStr ` {''done'', ''merged''}"
      by blast
    from t d(1) obtain s plan key stories where
      s: "ref = PStr s" "partition_at CHR '':'' s = (plan, True, key)"
        "dict_or (dgetN (case dget manifests plan of Some m \<Rightarrow> m | None \<Rightarrow> []) ''stories'') = Inr stories"
        "dgetN stories key = PDict d"
      by (cases ref) (auto simp: target_of_def split: prod.splits if_splits)
    from s(4) have "stories \<noteq> []" by (auto simp: dgetN_def)
    with dict_or_dict [OF s(3)] have
      m: "dgetN (case dget manifests plan of Some m \<Rightarrow> m | None \<Rightarrow> []) ''stories'' = PDict stories"
      by auto
    then obtain m where "dget manifests plan = Some m" "dgetN m ''stories'' = PDict stories"
      by (cases "dget manifests plan") (auto simp: dgetN_def)
    with s partition_at_found [OF s(2)] d show "satisfied manifests ref"
      unfolding satisfied_def by blast
  next
    assume "satisfied manifests ref"
    then obtain plan key m stories u where
      u: "ref = PStr (plan @ CHR '':'' # key)" "CHR '':'' \<notin> set plan"
        "dget manifests plan = Some m" "dgetN m ''stories'' = PDict stories"
        "dgetN stories key = PDict u" "dgetN u ''status'' \<in> PStr ` {''done'', ''merged''}"
      unfolding satisfied_def by blast
    with t show ?l by (auto simp: target_of_def partition_at_append)
  qed
  ultimately show ?thesis by blast
qed

lemma concat_singletons:
  "mapE (\<lambda>x. bindE (f x) (\<lambda>b. Inr (if b then [x] else []))) xs = Inr ys \<Longrightarrow>
     (\<And>x b. x \<in> set xs \<Longrightarrow> f x = Inr b \<Longrightarrow> b = P x) \<Longrightarrow> concat ys = filter P xs"
proof (induction xs arbitrary: ys)
  case (Cons x xs)
  from Cons.prems(1) obtain b zs where
    b: "f x = Inr b" "mapE (\<lambda>x. bindE (f x) (\<lambda>b. Inr (if b then [x] else []))) xs = Inr zs"
      "ys = (if b then [x] else []) # zs"
    by (auto simp: okE)
  with Cons.IH [OF b(2)] Cons.prems(2) show ?case by auto
qed simp

lemma blocked_by_gaps_filter:
  assumes "blocked_by_gaps story manifests = Inr gaps"
  shows "\<exists>refs. blocked_refs story = Inr refs \<and> gaps = filter (\<lambda>r. \<not> satisfied manifests r) refs"
proof -
  from assms obtain refs gs where
    r: "blocked_refs story = Inr refs"
      "mapE (\<lambda>ref. bindE (is_gap manifests ref) (\<lambda>g. Inr (if g then [ref] else []))) refs = Inr gs"
      "gaps = concat gs"
    unfolding blocked_by_gaps_def by (auto simp only: okE)
  from concat_singletons [OF r(2), of "\<lambda>r. \<not> satisfied manifests r"] is_gap_satisfied r(1,3)
  show ?thesis by auto
qed

lemma mapE_concat_mem:
  "mapE f xs = Inr ys \<Longrightarrow> c \<in> set (concat ys) \<longleftrightarrow> (\<exists>x \<in> set xs. \<exists>zs. f x = Inr zs \<and> c \<in> set zs)"
  by (induction xs arbitrary: ys) (auto simp: okE)

lemma mapE_bind_concat_mem:
  assumes "bindE (mapE f xs) (\<lambda>cs. Inr (concat cs)) = Inr ys"
  shows "c \<in> set ys \<longleftrightarrow> (\<exists>x \<in> set xs. \<exists>zs. f x = Inr zs \<and> c \<in> set zs)"
proof -
  from assms obtain zs where "mapE f xs = Inr zs" "ys = concat zs" by (auto simp only: okE)
  then show ?thesis using mapE_concat_mem [of f xs zs] by simp
qed

lemma mapE_all_Inr: "mapE f xs = Inr ys \<Longrightarrow> x \<in> set xs \<Longrightarrow> \<exists>y. f x = Inr y"
  by (induction xs arbitrary: ys) (auto simp: okE)

lemma set_wanted: "k \<in> set (wanted keys l) \<longleftrightarrow> PStr k \<in> set keys \<and> k \<noteq> [] \<and> lower k = l"
proof -
  have "k \<in> set (case x of PStr s \<Rightarrow> if s \<noteq> [] \<and> lower s = l then [s] else [] | _ \<Rightarrow> []) \<longleftrightarrow>
      x = PStr k \<and> k \<noteq> [] \<and> lower k = l" for x
    by (cases x) auto
  then show ?thesis by (auto simp: wanted_def)
qed

definition clashes ::
  "pyval list \<Rightarrow> (string \<Rightarrow> bool) \<Rightarrow> string \<times> pyval \<Rightarrow> conflict \<Rightarrow> bool" where
  "clashes keys worktree_exists entry c \<longleftrightarrow>
     (\<exists>s. entry = (cf_other c, PDict s) \<and> PStr (cf_key c) \<in> set keys \<and> cf_key c \<noteq> [] \<and>
        lower (cf_key c) = lower (cf_other c) \<and> cf_status c = dgetN s ''status'' \<and>
        \<not> (dgetN s ''status'' \<in> PStr ` {''done'', ''merged''} \<and> \<not> worktree_exists (cf_other c)))"

lemma story_conflicts_mem:
  assumes "story_conflicts keys we plan entry = Inr cs"
  shows "c \<in> set cs \<longleftrightarrow> cf_plan c = plan \<and> clashes keys we entry c"
proof (cases "\<exists>other s. entry = (other, PDict s)")
  case False
  with assms show ?thesis
    by (auto simp: story_conflicts_def clashes_def split: prod.splits pyval.splits)
next
  case True
  then obtain other s where e: "entry = (other, PDict s)" by blast
  let ?mk = "\<lambda>k. \<lparr>cf_key = k, cf_plan = plan, cf_other = other, cf_status = dgetN s ''status''\<rparr>"
  have mk: "c = ?mk k \<longleftrightarrow> cf_key c = k \<and> cf_plan c = plan \<and> cf_other c = other \<and>
      cf_status c = dgetN s ''status''" for k by (cases c) auto
  from assms e have "cs = (if dgetN s ''status'' \<in> PStr ` {''done'', ''merged''} \<and> \<not> we other then []
      else map ?mk (wanted keys (lower other)))"
    by (auto simp: story_conflicts_def okE in_statuses_Inr SATISFIED_STATUSES_def split: if_splits)
  then show ?thesis
    using mk by (auto simp: e clashes_def set_wanted image_iff)
qed

lemma plan_conflicts_mem:
  assumes "plan_conflicts keys we entry = Inr cs"
  shows "c \<in> set cs \<longleftrightarrow>
    (\<exists>m stories. entry = (cf_plan c, PDict m) \<and> dgetN m ''stories'' = PDict stories \<and>
       (\<exists>x \<in> set stories. clashes keys we x c))"
proof (cases "\<exists>plan m stories. entry = (plan, PDict m) \<and> dgetN m ''stories'' = PDict stories")
  case False
  with assms show ?thesis
    by (auto simp: plan_conflicts_def split: prod.splits pyval.splits)
next
  case True
  then obtain plan m stories where
    e: "entry = (plan, PDict m)" "dgetN m ''stories'' = PDict stories" by blast
  with assms have
    b: "bindE (mapE (story_conflicts keys we plan) stories) (\<lambda>cs. Inr (concat cs)) = Inr cs"
    by (simp add: plan_conflicts_def)
  have each: "x \<in> set stories \<Longrightarrow> \<exists>y. story_conflicts keys we plan x = Inr y" for x
    using b mapE_all_Inr by (auto simp: okE)
  show ?thesis
    unfolding mapE_bind_concat_mem [OF b] using e each story_conflicts_mem by fastforce
qed

text \<open>
  The gaps of a story are exactly its references, in order, that do not name an existing
  story of another plan which is done or merged: no gap left means every one of them is.
\<close>

lemma gaps_hold_back:
  assumes "blocked_by_gaps story manifests = Inr gaps"
  shows "\<exists>refs. blocked_refs story = Inr refs \<and>
    gaps = filter (\<lambda>r. \<not> satisfied manifests r) refs \<and>
    (gaps = [] \<longleftrightarrow> (\<forall>r \<in> set refs. satisfied manifests r))"
  using blocked_by_gaps_filter [OF assms] by (auto simp: filter_empty_conv)

lemma gaps_hold_back_witness:
  "blocked_by_gaps [(''blocked_by'', PList [PStr ''p:k''])]
     [(''p'', [(''stories'', PDict [(''k'', PDict [(''status'', PStr ''done'')])])])] = Inr [] \<and>
   satisfied [(''p'', [(''stories'', PDict [(''k'', PDict [(''status'', PStr ''done'')])])])]
     (PStr ''p:k'')"
proof -
  have g: "blocked_by_gaps [(''blocked_by'', PList [PStr ''p:k''])]
     [(''p'', [(''stories'', PDict [(''k'', PDict [(''status'', PStr ''done'')])])])] = Inr []"
    by (simp add: blocked_by_gaps_def blocked_refs_def elements_def dgetN_def is_gap_def
        target_of_def in_statuses_def SATISFIED_STATUSES_def)
  from gaps_hold_back [OF g] g show ?thesis
    by (simp add: blocked_refs_def elements_def dgetN_def)
qed

text \<open>
  A requested key conflicts with exactly the stories of the given manifests whose key is the
  same up to case and that are not finished with their worktree gone; without a conflict no live
  story or left-over worktree shares a branch or a worktree with a requested key.
\<close>

lemma conflicts_are_shared_keys:
  assumes "key_conflicts keys manifests worktree_exists = Inr cs"
  shows "c \<in> set cs \<longleftrightarrow>
    (\<exists>m stories. (cf_plan c, PDict m) \<in> set manifests \<and> dgetN m ''stories'' = PDict stories \<and>
       (\<exists>x \<in> set stories. clashes keys worktree_exists x c))"
proof -
  from assms obtain ys where
    y: "mapE (plan_conflicts keys worktree_exists) manifests = Inr ys"
      "cs = sort_key cf_plan (sort_key cf_other (concat ys))"
    by (auto simp: key_conflicts_def okE)
  have "c \<in> set cs \<longleftrightarrow> c \<in> set (concat ys)" using y(2) by simp
  also have "\<dots> \<longleftrightarrow> (\<exists>x \<in> set manifests. \<exists>zs. plan_conflicts keys worktree_exists x = Inr zs \<and> c \<in> set zs)"
    by (rule mapE_concat_mem [OF y(1)])
  finally show ?thesis
    using mapE_all_Inr [OF y(1)] plan_conflicts_mem by (fastforce simp: Bex_def)
qed

lemma conflicts_are_shared_keys_witness:
  "\<lparr>cf_key = ''K1'', cf_plan = ''p'', cf_other = ''k1'', cf_status = PStr ''done''\<rparr> \<in>
     set [\<lparr>cf_key = ''K1'', cf_plan = ''p'', cf_other = ''k1'', cf_status = PStr ''done''\<rparr>]"
proof -
  let ?m = "[(''p'', PDict [(''stories'', PDict [(''k1'', PDict [(''status'', PStr ''done'')])])])]"
  let ?c = "\<lparr>cf_key = ''K1'', cf_plan = ''p'', cf_other = ''k1'', cf_status = PStr ''done''\<rparr>"
  have k: "lower ''K1'' = ''k1''" "lower ''k1'' = ''k1''" by code_simp+
  have "key_conflicts [PStr ''K1''] ?m (\<lambda>_. True) = Inr [?c]"
    by (simp add: key_conflicts_def plan_conflicts_def story_conflicts_def dgetN_def wanted_def k
        in_statuses_def SATISFIED_STATUSES_def)
  from conflicts_are_shared_keys [OF this, of ?c] show ?thesis
    by (simp add: clashes_def dgetN_def k)
qed

end
