(* ===== verification/AdvanceQueue.thy ===== *)
theory AdvanceQueue
  imports PlanApproval
begin

text \<open>
  \<open>src/pipeline/advance_queue.py\<close> and the threads of \<open>src/pipeline/advance_workers.py\<close> that
  drain it.  Every locked section is one function on the queue's state; \<open>asleep\<close> are the threads
  that wait on the condition and have not been notified.  Blocking is between two sections, so the
  pool is a step relation in which any thread may run its next section.  Times are rationals.
\<close>

subsection \<open>The queue\<close>

datatype queue_exn = NotAStr | BadPlanKey

record advance_queue =
  queue :: "string list"
  in_flight :: "string set"
  dirty :: "string set"
  last_advanced :: "(string \<times> rat) list"
  closed :: bool
  asleep :: "nat set"

definition new_queue :: advance_queue where
  "new_queue =
     \<lparr>queue = [], in_flight = {}, dirty = {}, last_advanced = [], closed = False, asleep = {}\<rparr>"

definition notify_all :: "advance_queue \<Rightarrow> advance_queue" where
  "notify_all q = q\<lparr>asleep := {}\<rparr>"

definition request :: "pyval \<Rightarrow> advance_queue \<Rightarrow> queue_exn + bool \<times> advance_queue" where
  "request plan q =
     (case plan of
        PStr p \<Rightarrow>
          if \<not> validate_key p then Inl BadPlanKey
          else if closed q then Inr (False, q)
          else if p \<in> set (queue q) then Inr (False, q)
          else if p \<in> in_flight q then Inr (False, q\<lparr>dirty := insert p (dirty q)\<rparr>)
          else Inr (True, notify_all (q\<lparr>queue := queue q @ [p]\<rparr>))
      | _ \<Rightarrow> Inl NotAStr)"

text \<open>One round of the loop in \<open>take\<close>: it returns a plan, gives up, or waits.\<close>

datatype round = Got string | GaveUp | Waits

definition take_round :: "nat \<Rightarrow> rat \<Rightarrow> rat option \<Rightarrow> advance_queue \<Rightarrow> round \<times> advance_queue" where
  "take_round tid now deadline q =
     (if closed q then (GaveUp, q)
      else case queue q of
        p # ps \<Rightarrow> (Got p, q\<lparr>queue := ps, in_flight := insert p (in_flight q)\<rparr>)
      | [] \<Rightarrow>
          if (case deadline of Some d \<Rightarrow> d - now \<le> 0 | None \<Rightarrow> False) then (GaveUp, q)
          else (Waits, q\<lparr>asleep := insert tid (asleep q)\<rparr>))"

definition finish :: "string \<Rightarrow> rat \<Rightarrow> advance_queue \<Rightarrow> advance_queue" where
  "finish p now q =
     (if p \<notin> in_flight q then q
      else
        let q = q\<lparr>in_flight := in_flight q - {p}, last_advanced := dset p now (last_advanced q)\<rparr>;
            q = (if p \<in> dirty q then q\<lparr>dirty := dirty q - {p}, queue := queue q @ [p]\<rparr> else q)
        in notify_all q)"

definition close :: "advance_queue \<Rightarrow> advance_queue" where
  "close q = notify_all (q\<lparr>closed := True\<rparr>)"

subsection \<open>The worker pool\<close>

text \<open>
  \<open>_run\<close>: a worker loops over \<open>take\<close>, the advance and \<open>finish\<close> (in a \<open>finally\<close>) until the pool
  stops.  The advance itself runs in a child process and does not touch the queue.
\<close>

datatype worker = Looping | Taking rat | Holding string | Ended

record pool =
  pq :: advance_queue
  workers :: "nat \<Rightarrow> worker"
  stopping :: bool

definition TAKE_TIMEOUT :: rat where
  "TAKE_TIMEOUT = 1"

definition new_pool :: pool where
  "new_pool = \<lparr>pq = new_queue, workers = (\<lambda>_. Looping), stopping = False\<rparr>"

datatype event =
    Requested pyval
  | Took nat string
  | Slept nat
  | CameBackEmpty nat
  | Finished nat string
  | Stopping
  | Closed
  | Left nat

definition after_round :: "nat \<Rightarrow> rat \<Rightarrow> rat \<Rightarrow> pool \<Rightarrow> event \<times> pool" where
  "after_round w now deadline s =
     (let (r, q) = take_round w now (Some deadline) ((pq s)\<lparr>asleep := asleep (pq s) - {w}\<rparr>);
          to = (\<lambda>x. s\<lparr>pq := q, workers := (workers s)(w := x)\<rparr>)
      in case r of
           Got p \<Rightarrow> (Took w p, to (Holding p))
         | GaveUp \<Rightarrow> (CameBackEmpty w, to Looping)
         | Waits \<Rightarrow> (Slept w, to (Taking deadline)))"

text \<open>A waiting thread may run again once it is notified or its wait has timed out.\<close>

inductive pstep :: "pool \<Rightarrow> event \<Rightarrow> pool \<Rightarrow> bool" where
  Request: "request v (pq s) = Inr (b, q) \<Longrightarrow> pstep s (Requested v) (s\<lparr>pq := q\<rparr>)"
| Refuse: "request v (pq s) = Inl e \<Longrightarrow> pstep s (Requested v) s"
| Take: "workers s w = Looping \<Longrightarrow> \<not> stopping s \<Longrightarrow>
    after_round w now (now + TAKE_TIMEOUT) s = (e, t) \<Longrightarrow> pstep s e t"
| Wake: "workers s w = Taking d \<Longrightarrow> w \<notin> asleep (pq s) \<or> d \<le> now \<Longrightarrow>
    after_round w now d s = (e, t) \<Longrightarrow> pstep s e t"
| Finish: "workers s w = Holding p \<Longrightarrow>
    pstep s (Finished w p) (s\<lparr>pq := finish p now (pq s), workers := (workers s)(w := Looping)\<rparr>)"
| Stop: "pstep s Stopping (s\<lparr>stopping := True\<rparr>)"
| Close: "pstep s Closed (s\<lparr>pq := close (pq s)\<rparr>)"
| Leave: "workers s w = Looping \<Longrightarrow> stopping s \<Longrightarrow>
    pstep s (Left w) (s\<lparr>workers := (workers s)(w := Ended)\<rparr>)"

inductive prun :: "pool \<Rightarrow> event list \<Rightarrow> pool \<Rightarrow> bool" where
  Done: "prun s [] s"
| More: "pstep s e t \<Longrightarrow> prun t es u \<Longrightarrow> prun s (e # es) u"

inductive_simps prun_simps [simp]: "prun s [] t" "prun s (e # es) t"

fun plans_taken :: "event list \<Rightarrow> string list" where
  "plans_taken [] = []"
| "plans_taken (Took w p # es) = p # plans_taken es"
| "plans_taken (_ # es) = plans_taken es"

subsection \<open>Invariants\<close>

definition queue_ok :: "advance_queue \<Rightarrow> bool" where
  "queue_ok q \<longleftrightarrow> distinct (queue q) \<and> set (queue q) \<inter> in_flight q = {} \<and> dirty q \<subseteq> in_flight q \<and>
     (asleep q \<noteq> {} \<longrightarrow> queue q = [] \<and> \<not> closed q)"

definition pool_ok :: "pool \<Rightarrow> bool" where
  "pool_ok s \<longleftrightarrow> queue_ok (pq s) \<and> in_flight (pq s) = {p. \<exists>w. workers s w = Holding p} \<and>
     (\<forall>w w' p. workers s w = Holding p \<longrightarrow> workers s w' = Holding p \<longrightarrow> w = w')"

lemma new_pool_ok: "pool_ok new_pool"
  by (simp add: pool_ok_def queue_ok_def new_pool_def new_queue_def)

lemma request_cases:
  assumes "request v q = Inr (b, q')"
  obtains (kept) "q' = q" "\<not> b"
  | (marked) p where "v = PStr p" "\<not> closed q" "p \<notin> set (queue q)" "p \<in> in_flight q"
      "q' = q\<lparr>dirty := insert p (dirty q)\<rparr>" "\<not> b"
  | (queued) p where "v = PStr p" "\<not> closed q" "p \<notin> set (queue q)" "p \<notin> in_flight q"
      "q' = notify_all (q\<lparr>queue := queue q @ [p]\<rparr>)" b
  using assms by (auto simp: request_def split: pyval.splits if_splits)

lemma request_ok: "request v q = Inr (b, q') \<Longrightarrow> queue_ok q \<Longrightarrow> queue_ok q'"
  by (erule request_cases) (auto simp: queue_ok_def notify_all_def)

lemma request_in_flight: "request v q = Inr (b, q') \<Longrightarrow> in_flight q' = in_flight q"
  by (erule request_cases) (auto simp: notify_all_def)

lemma finish_fields:
  assumes "p \<in> in_flight q"
  shows "queue (finish p now q) = queue q @ (if p \<in> dirty q then [p] else [])"
    "in_flight (finish p now q) = in_flight q - {p}" "dirty (finish p now q) = dirty q - {p}"
    "asleep (finish p now q) = {}" "closed (finish p now q) = closed q"
  using assms by (auto simp: finish_def notify_all_def Let_def)

lemma finish_ok: "queue_ok q \<Longrightarrow> p \<in> in_flight q \<Longrightarrow> queue_ok (finish p now q)"
  unfolding queue_ok_def by (auto simp: finish_fields)

lemma close_ok: "queue_ok q \<Longrightarrow> queue_ok (close q)"
  by (auto simp: queue_ok_def close_def notify_all_def)

text \<open>The three ways a round of \<open>take\<close> ends.\<close>

lemma after_round_cases:
  assumes "after_round w now d s = (e, t)"
  obtains (got) p ps where "e = Took w p" "queue (pq s) = p # ps" "\<not> closed (pq s)"
      "t = s\<lparr>pq := (pq s)\<lparr>asleep := asleep (pq s) - {w}, queue := ps,
             in_flight := insert p (in_flight (pq s))\<rparr>, workers := (workers s)(w := Holding p)\<rparr>"
  | (empty) "e = CameBackEmpty w"
      "t = s\<lparr>pq := (pq s)\<lparr>asleep := asleep (pq s) - {w}\<rparr>, workers := (workers s)(w := Looping)\<rparr>"
  | (waits) "e = Slept w" "queue (pq s) = []" "\<not> closed (pq s)"
      "t = s\<lparr>pq := (pq s)\<lparr>asleep := insert w (asleep (pq s))\<rparr>, workers := (workers s)(w := Taking d)\<rparr>"
  using assms
  by (auto simp: after_round_def take_round_def Let_def split: if_splits list.splits)

lemma after_round_ok:
  assumes "after_round w now d s = (e, t)" "pool_ok s" "\<forall>p. workers s w \<noteq> Holding p"
  shows "pool_ok t"
  using assms(1)
proof (cases rule: after_round_cases)
  case (got p ps)
  have "queue_ok (pq t)" using got assms(2) by (auto simp: pool_ok_def queue_ok_def)
  moreover have "p \<notin> in_flight (pq s)" using got assms(2) by (auto simp: pool_ok_def queue_ok_def)
  ultimately show ?thesis
    using got assms(2,3) unfolding pool_ok_def by (auto split: if_splits)
next
  case empty
  have "queue_ok (pq t)" using empty assms(2) by (auto simp: pool_ok_def queue_ok_def)
  then show ?thesis using empty assms(2,3) unfolding pool_ok_def by (auto split: if_splits)
next
  case waits
  have "queue_ok (pq t)" using waits assms(2) by (auto simp: pool_ok_def queue_ok_def)
  then show ?thesis using waits assms(2,3) unfolding pool_ok_def by (auto split: if_splits)
qed

lemma pstep_ok: "pstep s e t \<Longrightarrow> pool_ok s \<Longrightarrow> pool_ok t"
proof (induction rule: pstep.induct)
  case (Request v s b q)
  then show ?case using request_ok request_in_flight by (fastforce simp: pool_ok_def)
next
  case (Take s w now e t)
  then show ?case using after_round_ok by auto
next
  case (Wake s w d now e t)
  then show ?case using after_round_ok by auto
next
  case (Finish s w p now)
  then have f: "p \<in> in_flight (pq s)" "queue_ok (pq s)" by (auto simp: pool_ok_def)
  have free: "workers s v = Holding r \<Longrightarrow> r \<noteq> p \<Longrightarrow> v \<noteq> w" for v r using Finish by auto
  have "{r. \<exists>v. ((workers s)(w := Looping)) v = Holding r} = {r. \<exists>v. workers s v = Holding r} - {p}"
    using Finish free by (auto simp: pool_ok_def)
  with finish_ok [OF f(2,1)] Finish show ?case
    by (simp add: pool_ok_def finish_fields [OF f(1)])
next
  case (Close s)
  then show ?case using close_ok by (auto simp: pool_ok_def close_def notify_all_def)
next
  case (Leave s w)
  have "{r. \<exists>v. ((workers s)(w := Ended)) v = Holding r} = {r. \<exists>v. workers s v = Holding r}"
  proof -
    have "workers s v = Holding r \<Longrightarrow> v \<noteq> w" for v r using Leave by auto
    then show ?thesis by auto
  qed
  with Leave show ?case by (simp add: pool_ok_def)
qed (simp_all add: pool_ok_def)

lemma prun_ok: "prun s es t \<Longrightarrow> pool_ok s \<Longrightarrow> pool_ok t"
  by (induction rule: prun.induct) (auto intro: pstep_ok)


subsection \<open>Order and delivery\<close>

lemma pstep_fifo:
  "pstep s e t \<Longrightarrow> pool_ok s \<Longrightarrow>
     \<exists>arrivals. plans_taken [e] @ queue (pq t) = queue (pq s) @ arrivals"
proof (induction rule: pstep.induct)
  case (Request v s b q)
  then show ?case by (auto elim!: request_cases simp: notify_all_def)
next
  case (Take s w now e t)
  from Take(3) show ?case by (cases rule: after_round_cases) auto
next
  case (Wake s w d now e t)
  from Wake(3) show ?case by (cases rule: after_round_cases) auto
next
  case (Finish s w p now)
  then have "p \<in> in_flight (pq s)" by (auto simp: pool_ok_def)
  then show ?case by (simp add: finish_fields)
qed (simp_all add: close_def notify_all_def)

lemma plans_taken_append: "plans_taken (es @ fs) = plans_taken es @ plans_taken fs"
  by (induction es rule: plans_taken.induct) simp_all

lemma prun_fifo:
  "prun s es t \<Longrightarrow> pool_ok s \<Longrightarrow>
     \<exists>arrivals. plans_taken es @ queue (pq t) = queue (pq s) @ arrivals"
proof (induction rule: prun.induct)
  case (More s e t es u)
  from pstep_fifo [OF More(1,4)] obtain as where
    as: "plans_taken [e] @ queue (pq t) = queue (pq s) @ as" ..
  from More(3) [OF pstep_ok [OF More(1,4)]] obtain bs where
    bs: "plans_taken es @ queue (pq u) = queue (pq t) @ bs" ..
  have "plans_taken (e # es) = plans_taken [e] @ plans_taken es"
    using plans_taken_append [of "[e]" es] by simp
  with as bs have "plans_taken (e # es) @ queue (pq u) = queue (pq s) @ (as @ bs)"
    by (metis append.assoc)
  then show ?case ..
qed simp

text \<open>A plan whose advance is still owed: it waits in the queue or is to be queued again.\<close>

definition owed :: "string \<Rightarrow> pool \<Rightarrow> bool" where
  "owed p s \<longleftrightarrow> p \<in> set (queue (pq s)) \<or> p \<in> dirty (pq s)"

lemma request_owed:
  assumes "request (PStr p) q = Inr (b, q')" "\<not> closed q"
  shows "p \<in> set (queue q') \<or> p \<in> dirty q'"
  using assms by (auto simp: request_def notify_all_def split: if_splits)

lemma pstep_owed:
  "pstep s e t \<Longrightarrow> pool_ok s \<Longrightarrow> owed p s \<Longrightarrow> owed p t \<or> (\<exists>w. e = Took w p)"
proof (induction rule: pstep.induct)
  case (Request v s b q)
  then show ?case by (auto elim!: request_cases simp: notify_all_def owed_def)
next
  case (Take s w now e t)
  from Take(3) show ?case using Take(5) by (cases rule: after_round_cases) (auto simp: owed_def)
next
  case (Wake s w d now e t)
  from Wake(3) show ?case using Wake(5) by (cases rule: after_round_cases) (auto simp: owed_def)
next
  case (Finish s w r now)
  then have "r \<in> in_flight (pq s)" by (auto simp: pool_ok_def)
  with Finish show ?case by (auto simp: owed_def finish_fields)
qed (simp_all add: owed_def close_def notify_all_def)

lemma prun_owed:
  "prun s es t \<Longrightarrow> pool_ok s \<Longrightarrow> owed p s \<Longrightarrow> owed p t \<or> (\<exists>w. Took w p \<in> set es)"
proof (induction rule: prun.induct)
  case (More s e t es u)
  then show ?case using pstep_owed [OF More(1,4,5)] pstep_ok [OF More(1,4)] by auto
qed simp

subsection \<open>Properties\<close>

text \<open>
  C19: In every state the workers and the producers of requests can reach, a plan is advanced by at
  most one worker at a time, the plans in flight are exactly those a worker holds, none of them is
  queued, no plan is queued twice, and no worker sleeps unnotified while a plan waits or after the
  queue was closed.
\<close>

theorem one_worker_per_plan:
  assumes "prun new_pool es s"
  shows "(workers s w = Holding p \<longrightarrow> workers s w' = Holding p \<longrightarrow> w = w') \<and>
    (p \<in> in_flight (pq s) \<longleftrightarrow> (\<exists>w. workers s w = Holding p)) \<and>
    (p \<in> in_flight (pq s) \<longrightarrow> p \<notin> set (queue (pq s))) \<and> distinct (queue (pq s)) \<and>
    (asleep (pq s) \<noteq> {} \<longrightarrow> queue (pq s) = [] \<and> \<not> closed (pq s))"
  using prun_ok [OF assms new_pool_ok] unfolding pool_ok_def queue_ok_def by auto

text \<open>
  C20: A request for a plan on an open queue is never lost: whatever happens afterwards, either a
  worker takes the plan, or it is still queued or in flight and marked to be queued again.  Plans
  are taken in the order in which they were queued: the plan at position \<open>i\<close> is exactly the
  \<open>i\<close>-th one taken from then on, however many others are requested.
\<close>

theorem requests_never_lost:
  assumes "prun new_pool es s" "\<not> closed (pq s)" "validate_key p"
    and "pstep s (Requested (PStr p)) t" "prun t fs u"
  shows "((\<exists>w. Took w p \<in> set fs) \<or> p \<in> set (queue (pq u)) \<or>
      p \<in> dirty (pq u) \<and> (\<exists>w. workers u w = Holding p)) \<and>
    (i < length (queue (pq t)) \<longrightarrow> i < length (plans_taken fs) \<longrightarrow>
      plans_taken fs ! i = queue (pq t) ! i)"
proof -
  have ok: "pool_ok s" using prun_ok [OF assms(1) new_pool_ok] .
  have ok': "pool_ok t" "pool_ok u"
    using pstep_ok [OF assms(4) ok] prun_ok [OF assms(5)] by auto
  from assms(4) have "owed p t"
  proof (cases rule: pstep.cases)
    case (Request b q)
    then show ?thesis using request_owed assms(2) by (auto simp: owed_def)
  next
    case (Refuse x)
    then show ?thesis using assms(3) by (auto simp: request_def split: if_splits)
  qed (auto elim: after_round_cases)
  from prun_owed [OF assms(5) ok'(1) this] have d: "owed p u \<or> (\<exists>w. Took w p \<in> set fs)" .
  have in_f: "p \<in> dirty (pq u) \<Longrightarrow> \<exists>w. workers u w = Holding p"
    using ok'(2) by (auto simp: pool_ok_def queue_ok_def)
  from prun_fifo [OF assms(5) ok'(1)] obtain as where
    as: "plans_taken fs @ queue (pq u) = queue (pq t) @ as" ..
  have "i < length (queue (pq t)) \<longrightarrow> i < length (plans_taken fs) \<longrightarrow>
      plans_taken fs ! i = queue (pq t) ! i"
    using as by (metis nth_append)
  with d in_f show ?thesis by (auto simp: owed_def)
qed

definition demo_pool :: "worker \<Rightarrow> string set \<Rightarrow> pool" where
  "demo_pool w d =
     new_pool\<lparr>pq := new_queue\<lparr>in_flight := {''a''}, dirty := d\<rparr>,
       workers := (\<lambda>_. Looping)(0 := w)\<rparr>"

lemma demo_run: "prun new_pool [Requested (PStr ''a''), Took 0 ''a''] (demo_pool (Holding ''a'') {})"
proof -
  let ?s = "new_pool\<lparr>pq := new_queue\<lparr>queue := [''a'']\<rparr>\<rparr>"
  have "pstep new_pool (Requested (PStr ''a'')) ?s"
    using pstep.Request [of "PStr ''a''" new_pool True "new_queue\<lparr>queue := [''a'']\<rparr>"]
    by (simp add: request_def new_pool_def new_queue_def notify_all_def validate_key_def key_re_def
        key_char_def is_lower_def)
  moreover have "pstep ?s (Took 0 ''a'') (demo_pool (Holding ''a'') {})"
    by (rule pstep.Take [of _ 0 0])
      (simp_all add: after_round_def take_round_def demo_pool_def new_pool_def new_queue_def
        fun_upd_def)
  ultimately show ?thesis by auto
qed

theorem one_worker_per_plan_witness:
  "(workers (demo_pool (Holding ''a'') {}) 0 = Holding ''a'') \<and> ''a'' \<notin> set (queue (pq (demo_pool (Holding ''a'') {})))"
  using one_worker_per_plan [OF demo_run, of 0 "''a''" 0] by (simp add: demo_pool_def)

theorem requests_never_lost_witness:
  "''a'' \<in> dirty (pq (demo_pool (Holding ''a'') {''a''}))"
proof -
  have r: "pstep (demo_pool (Holding ''a'') {}) (Requested (PStr ''a'')) (demo_pool (Holding ''a'') {''a''})"
    using pstep.Request [of "PStr ''a''" "demo_pool (Holding ''a'') {}" False
        "new_queue\<lparr>in_flight := {''a''}, dirty := {''a''}\<rparr>"]
    by (simp add: request_def demo_pool_def new_pool_def new_queue_def validate_key_def key_re_def
        key_char_def is_lower_def)
  have o: "\<not> closed (pq (demo_pool (Holding ''a'') {}))" "validate_key ''a''"
    by (simp_all add: demo_pool_def new_pool_def new_queue_def validate_key_def key_re_def
        key_char_def is_lower_def)
  from requests_never_lost [OF demo_run o r prun.Done] show ?thesis
    by (simp add: demo_pool_def new_pool_def new_queue_def)
qed

end
