(* ===== verification/ReconcilePass.thy ===== *)
theory ReconcilePass
  imports AdvanceQueue Identity
begin

text \<open>
  The scheduler's reconcile pass: which plans have work (\<open>src/pipeline/plan_activity.py\<close>), the
  sweep of queue mode (\<open>src/pipeline/advance_runtime.py\<close>) and the pass over child processes
  (\<open>src/pipeline/advance_pool.py\<close>).  The store is the list of plan names with their manifests
  (\<open>None\<close>: unreadable).  \<open>float\<close> is Python's parser of floats; a child process is a function
  from plan and timeout to its payload or the class of the exception it raised.
\<close>

subsection \<open>Plans without work\<close>

definition live_agent :: "pyval \<Rightarrow> bool" where
  "live_agent s =
     (case s of
        PDict d \<Rightarrow> dgetN d ''status'' = PStr ''in_progress'' \<and> dget d ''pid'' \<noteq> None
      | _ \<Rightarrow> False)"

definition has_live_agent :: "pydict \<Rightarrow> bool" where
  "has_live_agent stories = list_ex live_agent (map snd stories)"

definition story_done :: "pyval \<Rightarrow> bool" where
  "story_done s = (case s of PDict d \<Rightarrow> dgetN d ''status'' = PStr ''done'' | _ \<Rightarrow> False)"

definition is_inert :: "env \<Rightarrow> pyval \<Rightarrow> bool" where
  "is_inert env manifest =
     (case manifest of
        PDict m \<Rightarrow>
          (case dgetN m ''stories'' of
             PDict stories \<Rightarrow>
               if stories = [] then False
               else if truthy (dgetN m ''paused'') then \<not> has_live_agent stories
               else (case is_activatable env m of
                       Inl e \<Rightarrow> False
                     | Inr ok \<Rightarrow> if \<not> ok then True else list_all story_done (map snd stories))
           | _ \<Rightarrow> False)
      | _ \<Rightarrow> False)"

subsection \<open>Environment knobs\<close>

definition positive_or :: "(string \<Rightarrow> pyfloat option) \<Rightarrow> rat \<Rightarrow> string option \<Rightarrow> rat" where
  "positive_or float dflt raw =
     (case raw of
        None \<Rightarrow> dflt
      | Some s \<Rightarrow>
          (case float s of
             Some (Fin x) \<Rightarrow> if x \<le> 0 then dflt else x
           | _ \<Rightarrow> dflt))"

definition stale_seconds :: "(string \<Rightarrow> pyfloat option) \<Rightarrow> env \<Rightarrow> rat" where
  "stale_seconds float env =
     positive_or float 60 (dget env ''PIPELINE_ADVANCE_STALE_SECONDS'')"

definition plan_timeout_seconds :: "(string \<Rightarrow> pyfloat option) \<Rightarrow> env \<Rightarrow> rat" where
  "plan_timeout_seconds float env =
     positive_or float 600 (dget env ''PIPELINE_ADVANCE_PLAN_TIMEOUT_SECONDS'')"

definition reconcile_join_timeout :: "(string \<Rightarrow> pyfloat option) \<Rightarrow> env \<Rightarrow> rat" where
  "reconcile_join_timeout float env =
     positive_or float 900 (dget env ''PIPELINE_RECONCILE_JOIN_TIMEOUT_SECONDS'')"

definition advance_workers :: "env \<Rightarrow> int" where
  "advance_workers env =
     (case dget env ''PIPELINE_ADVANCE_WORKERS'' of
        None \<Rightarrow> 1
      | Some raw \<Rightarrow>
          (case int_of_str raw of
             None \<Rightarrow> 1
           | Some v \<Rightarrow> if v < 1 then 1 else min v 32))"

definition pooled_advance_enabled :: "env \<Rightarrow> bound_request \<Rightarrow> bool" where
  "pooled_advance_enabled env rq =
     (if advance_workers env \<le> 1 then False else current_principal rq = SYSTEM_SCHEDULER)"

subsection \<open>The sweep of queue mode\<close>

definition sweep_one ::
  "env \<Rightarrow> rat \<Rightarrow> rat \<Rightarrow> string \<times> pyval option \<Rightarrow> string list \<times> advance_queue
   \<Rightarrow> queue_exn + string list \<times> advance_queue" where
  "sweep_one env stale now plan s =
     (let (name, manifest) = plan; (queued, q) = s in
      if is_inert env (case manifest of Some m \<Rightarrow> m | None \<Rightarrow> PNone) then Inr (queued, q)
      else case dget (last_advanced q) name of
        Some t \<Rightarrow>
          if now - t \<le> stale then Inr (queued, q)
          else bindE (request (PStr name) q) (\<lambda>(_, q'). Inr (queued @ [name], q'))
      | None \<Rightarrow> bindE (request (PStr name) q) (\<lambda>(_, q'). Inr (queued @ [name], q')))"

definition sweep ::
  "(string \<Rightarrow> pyfloat option) \<Rightarrow> env \<Rightarrow> rat \<Rightarrow> (string \<times> pyval option) list \<Rightarrow> advance_queue
   \<Rightarrow> queue_exn + string list \<times> advance_queue" where
  "sweep float env now plans q = foldE (sweep_one env (stale_seconds float env) now) plans ([], q)"

subsection \<open>The pass over child processes\<close>

definition pass_deadline :: "(string \<Rightarrow> pyfloat option) \<Rightarrow> env \<Rightarrow> rat \<Rightarrow> rat" where
  "pass_deadline float env now = now + max 30 (reconcile_join_timeout float env - 60)"

definition failed_with :: "string \<Rightarrow> pyval" where
  "failed_with e = PDict [(''ok'', PBool False), (''error'', PStr e)]"

definition skipped_for :: "string \<Rightarrow> pyval" where
  "skipped_for why = PDict [(''ok'', PBool True), (''skipped'', PStr why)]"

definition advance_plan_subprocess ::
  "(string \<Rightarrow> rat \<Rightarrow> string + pyval) \<Rightarrow> string \<Rightarrow> rat \<Rightarrow> string + pyval" where
  "advance_plan_subprocess child plan timeout =
     (if \<not> validate_key plan then Inr (failed_with ''invalid plan name'') else child plan timeout)"

definition advance_one_pooled ::
  "(string \<Rightarrow> pyfloat option) \<Rightarrow> env \<Rightarrow> (string \<Rightarrow> rat \<Rightarrow> string + pyval) \<Rightarrow> rat \<Rightarrow> rat \<Rightarrow> string
   \<Rightarrow> string + pyval" where
  "advance_one_pooled float env child deadline now plan =
     (let remaining = deadline - now in
      if remaining \<le> 0 then Inr (skipped_for ''deadline'')
      else advance_plan_subprocess child plan (min (plan_timeout_seconds float env) remaining))"

definition collected :: "string + pyval \<Rightarrow> pyval" where
  "collected r =
     (case r of Inr v \<Rightarrow> v | Inl cls \<Rightarrow> failed_with (''advance raised '' @ cls))"

definition live_plans :: "env \<Rightarrow> (string \<times> pyval option) list \<Rightarrow> string list" where
  "live_plans env plans =
     map fst (filter (\<lambda>(n, m). \<not> is_inert env (case m of Some v \<Rightarrow> v | None \<Rightarrow> PNone)) plans)"

definition pass_order :: "nat \<Rightarrow> string list \<Rightarrow> string list" where
  "pass_order rotation live =
     (let start = (if live \<noteq> [] then rotation mod length live else 0)
      in drop start live @ take start live)"

text \<open>
  \<open>advance_all_plans_pooled\<close>: \<open>began\<close> is the moment a worker of the pool reaches a plan.  The
  second component is the new value of \<open>_rotation\<close>.
\<close>

definition advance_all_plans_pooled ::
  "(string \<Rightarrow> pyfloat option) \<Rightarrow> env \<Rightarrow> (string \<Rightarrow> rat \<Rightarrow> string + pyval) \<Rightarrow> rat \<Rightarrow> (string \<Rightarrow> rat) \<Rightarrow>
   (string \<times> pyval option) list \<Rightarrow> nat \<Rightarrow> pydict \<times> nat" where
  "advance_all_plans_pooled float env child now began plans rotation =
     (if plans = [] then ([], rotation)
      else
        let live = live_plans env plans;
            results = fold (\<lambda>n. dset n (skipped_for ''inert''))
                        (filter (\<lambda>n. n \<notin> set live) (map fst plans)) [];
            ordered = pass_order rotation live;
            deadline = pass_deadline float env now
        in (fold (\<lambda>n. dset n (collected (advance_one_pooled float env child deadline (began n) n)))
              ordered results,
            rotation + 1))"

subsection \<open>Lemmas\<close>

lemma positive_or_pos: "0 < d \<Longrightarrow> 0 < positive_or float d raw"
  by (auto simp: positive_or_def split: option.splits pyfloat.splits)

lemma fold_dset_notin: "n \<notin> set ns \<Longrightarrow> dget (fold (\<lambda>n. dset n (f n)) ns d) n = dget d n"
  by (induction ns arbitrary: d) auto

lemma fold_dset_get: "n \<in> set ns \<Longrightarrow> dget (fold (\<lambda>n. dset n (f n)) ns d) n = Some (f n)"
  by (induction ns rule: rev_induct) auto

lemma pass_order_perm: "set (pass_order r live) = set live"
proof -
  have "set (drop k live) \<union> set (take k live) = set live" for k
    by (metis append_take_drop_id set_append sup_commute)
  then show ?thesis by (simp add: pass_order_def Let_def)
qed

lemma pass_order_hd:
  assumes "live \<noteq> []"
  shows "hd (pass_order r live) = live ! (r mod length live)"
proof -
  have "r mod length live < length live" using assms by (intro mod_less_divisor) simp
  then have "drop (r mod length live) live \<noteq> []"
    "hd (drop (r mod length live) live) = live ! (r mod length live)"
    by (simp_all only: drop_eq_Nil not_le hd_drop_conv_nth not_False_eq_True)
  with assms show ?thesis by (simp only: pass_order_def Let_def hd_append2 if_True simp_thms)
qed

lemma rotation_reaches:
  fixes i n r :: nat
  assumes "i < n"
  shows "\<exists>k < n. (r + k) mod n = i"
proof (intro exI conjI)
  let ?k = "(i + (n - r mod n)) mod n"
  show "?k < n" using assms by simp
  have "r mod n \<le> n" using assms by (simp add: less_imp_le)
  then have "r mod n + (i + (n - r mod n)) = i + n" by simp
  then have "(r mod n + (i + (n - r mod n))) mod n = i" using assms by simp
  then show "(r + ?k) mod n = i" by (metis mod_add_left_eq mod_add_right_eq)
qed

definition manifest_of :: "pyval option \<Rightarrow> pyval" where
  "manifest_of m = (case m of Some v \<Rightarrow> v | None \<Rightarrow> PNone)"

definition due :: "env \<Rightarrow> rat \<Rightarrow> rat \<Rightarrow> (string \<times> rat) list \<Rightarrow> string \<times> pyval option \<Rightarrow> bool" where
  "due env limit now seen plan \<longleftrightarrow>
     \<not> is_inert env (manifest_of (snd plan)) \<and>
     (case dget seen (fst plan) of Some t \<Rightarrow> limit < now - t | None \<Rightarrow> True)"

lemma sweep_one_due:
  "sweep_one env limit now plan (queued, q) =
     (if due env limit now (last_advanced q) plan
      then bindE (request (PStr (fst plan)) q) (\<lambda>r. Inr (queued @ [fst plan], snd r))
      else Inr (queued, q))"
  by (auto simp: sweep_one_def due_def manifest_of_def Let_def case_prod_unfold not_le split: option.splits prod.splits)

text \<open>What a request keeps of the queue.\<close>

definition grown :: "advance_queue \<Rightarrow> advance_queue \<Rightarrow> bool" where
  "grown q q' \<longleftrightarrow> (\<exists>new. queue q' = queue q @ new) \<and> dirty q \<subseteq> dirty q' \<and>
     last_advanced q' = last_advanced q \<and> closed q' = closed q"

lemma grown_refl: "grown q q"
  by (simp add: grown_def)

lemma grown_trans: "grown q r \<Longrightarrow> grown r s \<Longrightarrow> grown q s"
  by (auto simp: grown_def)

lemma request_grown: "request v q = Inr (b, q') \<Longrightarrow> grown q q'"
  by (erule request_cases) (auto simp: grown_def notify_all_def)

lemma sweep_run:
  assumes "foldE (sweep_one env limit now) plans (queued, q) = Inr (queued', q')"
  shows "grown q q' \<and>
    queued' = queued @ map fst (filter (due env limit now (last_advanced q)) plans) \<and>
    (\<not> closed q \<longrightarrow> (\<forall>plan \<in> set plans. due env limit now (last_advanced q) plan \<longrightarrow>
      fst plan \<in> set (queue q') \<or> fst plan \<in> dirty q'))"
  using assms
proof (induction plans arbitrary: queued q)
  case Nil
  then show ?case by (simp add: grown_refl)
next
  case (Cons plan plans)
  let ?due = "due env limit now (last_advanced q)"
  show ?case
  proof (cases "?due plan")
    case False
    with Cons show ?thesis by (auto simp: sweep_one_due)
  next
    case True
    with Cons.prems obtain b r where
      r: "request (PStr (fst plan)) q = Inr (b, r)"
        "foldE (sweep_one env limit now) plans (queued @ [fst plan], r) = Inr (queued', q')"
      by (auto simp: sweep_one_due okE)
    from request_grown [OF r(1)] have g: "grown q r" .
    from Cons.IH [OF r(2)] g have ih: "grown r q'"
      "queued' = queued @ fst plan # map fst (filter ?due plans)"
      "\<not> closed q \<longrightarrow> (\<forall>x \<in> set plans. ?due x \<longrightarrow> fst x \<in> set (queue q') \<or> fst x \<in> dirty q')"
      by (auto simp: grown_def)
    have "\<not> closed q \<longrightarrow> fst plan \<in> set (queue q') \<or> fst plan \<in> dirty q'"
      using request_owed [OF r(1)] ih(1) by (auto simp: grown_def)
    with ih True grown_trans [OF g ih(1)] show ?thesis by auto
  qed
qed

text \<open>One badly named manifest ends the sweep: the plans behind it are not requested.\<close>

lemma bad_name_ends_sweep:
  assumes "due env (stale_seconds float env) now (last_advanced q) (name, m)" "\<not> validate_key name"
  shows "sweep float env now ((name, m) # plans) q = Inl BadPlanKey"
  using assms by (simp add: sweep_def sweep_one_due request_def)

subsection \<open>Properties\<close>

text \<open>
  A sweep that returns has queued, or marked for another round, every listed plan that has work
  and whose last advance is unknown or older than the staleness limit; it reports exactly those, in
  listing order, keeps the plans that were already waiting in front, and the limit is always a
  positive number of seconds whatever the environment holds.
\<close>

lemma sweep_covers_stale:
  assumes "sweep float env now plans q = Inr (queued, q')" "\<not> closed q"
  shows "(\<forall>plan \<in> set plans. due env (stale_seconds float env) now (last_advanced q) plan \<longrightarrow>
      fst plan \<in> set (queue q') \<or> fst plan \<in> dirty q') \<and>
    queued = map fst (filter (due env (stale_seconds float env) now (last_advanced q)) plans) \<and>
    (\<exists>new. queue q' = queue q @ new) \<and> 0 < stale_seconds float env"
  using sweep_run [OF assms(1) [unfolded sweep_def]] assms(2)
  by (auto simp: grown_def stale_seconds_def positive_or_pos)

text \<open>
  A pooled pass reports exactly the listed plans; a plan without work is skipped, one whose turn
  comes after the deadline is skipped, and every other validly named one runs in a child whose
  timeout is positive, at most the per-plan timeout and ends by the deadline; a child that raises
  costs only its own plan.  As the rotation counts on, each of the live plans leads one of any
  \<open>length live\<close> successive passes.
\<close>

lemma pass_covers_every_plan:
  assumes "advance_all_plans_pooled float env child now began plans rotation = (results, rotation')"
    and "plans \<noteq> []"
  shows "(dget results n \<noteq> None \<longleftrightarrow> n \<in> fst ` set plans) \<and>
    (n \<in> fst ` set plans \<and> n \<notin> set (live_plans env plans) \<longrightarrow>
      dget results n = Some (skipped_for ''inert'')) \<and>
    (n \<in> set (live_plans env plans) \<and> validate_key n \<longrightarrow>
      (if pass_deadline float env now \<le> began n then dget results n = Some (skipped_for ''deadline'')
       else \<exists>t > 0. t \<le> plan_timeout_seconds float env \<and>
         began n + t \<le> pass_deadline float env now \<and>
         dget results n = Some (collected (child n t)))) \<and>
    (i < length (live_plans env plans) \<longrightarrow>
      (\<exists>k < length (live_plans env plans).
        hd (pass_order (rotation + k) (live_plans env plans)) = live_plans env plans ! i)) \<and>
    rotation' = rotation + 1"
proof -
  let ?live = "live_plans env plans" and ?d = "pass_deadline float env now"
  let ?inert = "filter (\<lambda>n. n \<notin> set ?live) (map fst plans)"
  let ?f = "\<lambda>n. collected (advance_one_pooled float env child ?d (began n) n)"
  let ?base = "fold (\<lambda>n. dset n (skipped_for ''inert'')) ?inert ([] :: pydict)"
  have res: "results = fold (\<lambda>n. dset n (?f n)) (pass_order rotation ?live) ?base"
    and rot: "rotation' = rotation + 1"
    using assms by (auto simp: advance_all_plans_pooled_def Let_def)
  have sub: "set ?live \<subseteq> fst ` set plans" by (auto simp: live_plans_def)
  have on_live: "n \<in> set ?live \<Longrightarrow> dget results n = Some (?f n)"
    unfolding res by (rule fold_dset_get) (simp add: pass_order_perm)
  have off_live: "dget results n = dget ?base n" if "n \<notin> set ?live"
    unfolding res by (rule fold_dset_notin) (use that in \<open>simp add: pass_order_perm\<close>)
  have inert: "n \<in> fst ` set plans \<Longrightarrow> n \<notin> set ?live \<Longrightarrow> dget ?base n = Some (skipped_for ''inert'')"
    by (rule fold_dset_get) auto
  have gone: "n \<notin> fst ` set plans \<Longrightarrow> dget ?base n = None"
    by (subst fold_dset_notin) (auto simp del: image_eqI)
  have lead: "\<exists>k < length ?live. hd (pass_order (rotation + k) ?live) = ?live ! i"
    if "i < length ?live"
  proof -
    from rotation_reaches [OF that, of rotation] obtain k where
      "k < length ?live" "(rotation + k) mod length ?live = i" by blast
    moreover have "?live \<noteq> []" using that by auto
    ultimately show ?thesis by (metis pass_order_hd)
  qed
  have child_t: "\<exists>t > 0. t \<le> plan_timeout_seconds float env \<and> began n + t \<le> ?d \<and>
      ?f n = collected (child n t)" if "\<not> ?d \<le> began n" "validate_key n"
    using that positive_or_pos [of 600 float]
    by (intro exI [of _ "min (plan_timeout_seconds float env) (?d - began n)"])
      (auto simp: advance_one_pooled_def advance_plan_subprocess_def Let_def plan_timeout_seconds_def)
  have late: "?d \<le> began n \<Longrightarrow> ?f n = skipped_for ''deadline''"
    by (simp add: advance_one_pooled_def collected_def)
  show ?thesis
  proof (cases "n \<in> set ?live")
    case True
    with sub on_live lead child_t late rot show ?thesis by auto
  next
    case False
    then have "dget results n \<noteq> None \<longleftrightarrow> n \<in> fst ` set plans"
      using off_live inert gone by (metis option.distinct(1))
    with False off_live inert lead rot show ?thesis by auto
  qed
qed

lemma demo_key: "validate_key ''a''"
  by (simp add: validate_key_def key_re_def key_char_def is_lower_def)

lemma sweep_covers_stale_witness:
  "''a'' \<in> set (queue (new_queue\<lparr>queue := [''a'']\<rparr>))"
proof -
  have s: "sweep (\<lambda>_. None) [] 100 [(''a'', None)] new_queue =
      Inr ([''a''], new_queue\<lparr>queue := [''a'']\<rparr>)"
    by (simp add: sweep_def sweep_one_def is_inert_def request_def demo_key new_queue_def
        notify_all_def)
  have "\<not> closed new_queue" by (simp add: new_queue_def)
  from sweep_covers_stale [OF s this] show ?thesis
    by (simp add: due_def manifest_of_def is_inert_def new_queue_def)
qed

lemma pass_covers_every_plan_witness:
  "\<exists>t > 0. t \<le> 600 \<and> t \<le> (840 :: rat) \<and>
     dget (fst (advance_all_plans_pooled (\<lambda>_. None) [] (\<lambda>p t. Inl ''OSError'') 0 (\<lambda>_. 0)
       [(''a'', None)] 3)) ''a'' = Some (failed_with ''advance raised OSError'')"
proof -
  let ?r = "advance_all_plans_pooled (\<lambda>_. None) [] (\<lambda>p t. Inl ''OSError'') 0 (\<lambda>_. 0) [(''a'', None)] 3"
  have "live_plans [] [(''a'', None)] = [''a'']" by (simp add: live_plans_def is_inert_def)
  then show ?thesis
    using pass_covers_every_plan [of "\<lambda>_. None" "[]" "\<lambda>p t. Inl ''OSError''" 0 "\<lambda>_. 0"
        "[(''a'', None)]" 3 "fst ?r" "snd ?r" "''a''" 0] demo_key
    by (auto simp: pass_deadline_def reconcile_join_timeout_def plan_timeout_seconds_def
        positive_or_def collected_def)
qed

end
