(* ===== verification/AdvanceTick.thy ===== *)
theory AdvanceTick
  imports DispatchLease CrossPlan ReconcilePass
begin

text \<open>
  \<open>_advance_pipeline_locked_impl\<close> of \<open>src/pipeline/advance.py\<close> up to the end of its dispatch
  loop: the pause and approval gates, the ready stories, the interruption of running agents and
  the dispatch of ready ones, with the slot counts of \<open>src/pipeline/concurrency.py\<close>.  The state is
  the manifest on disk with the calls made and the summary.  Whatever runs while the plan lock is
  released (\<open>dispatch\<close>) or belongs to another module (\<open>interrupt\<close>, \<open>adjudicate\<close>) may replace the
  manifest on disk by anything; routing and resource checks are arguments.
\<close>

datatype tick_exn =
    TickKeyError | TickTypeError | TickAttributeError | TickLease lease_exn | TickCross cp_exn
  | TickApproval appr_exn | TickLockTimeout | TickRaised string

datatype outcome = Returned pyval | Failed string | LockLost

record tick_config =
  t_env :: env
  t_os :: os_world
  t_now :: "string \<Rightarrow> int"
  t_pid :: int
  autonomy :: string
  max_agents :: int
  max_per_tick :: int
  max_attempts :: int
  neighbours :: "(string \<times> pydict) list"
  fleet :: "(string \<times> pydict) list"
  dispatch_gate :: "bool \<times> string"
  review_gate :: "bool \<times> string"
  route :: "pydict \<Rightarrow> pyval \<Rightarrow> tick_exn + string \<times> pyval"
  resource :: "string \<Rightarrow> pyval option \<Rightarrow> tick_exn + pydict"
  adjudicate :: "pydict \<Rightarrow> pydict"
  interrupt :: "string \<Rightarrow> pydict \<Rightarrow> pydict"
  dispatch :: "nat \<Rightarrow> string \<Rightarrow> pydict \<Rightarrow> pydict \<times> outcome"
  show_value :: "pyval \<Rightarrow> string"

datatype call = CallInterrupt string | CallDispatch string pydict outcome

record tick_state =
  on_disk :: pydict
  calls :: "call list"
  free_slots :: int
  launched :: int
  s_dispatched :: "string list"
  s_skipped :: "string list"
  s_pending :: "string list"
  s_failed :: "string list"
  s_interrupted :: "string list"
  s_notify :: "string list"

type_synonym 'a tick = "tick_state \<Rightarrow> (tick_exn + 'a) \<times> tick_state"

definition okT :: "'a \<Rightarrow> 'a tick" where
  "okT x s = (Inr x, s)"

definition liftT :: "tick_exn + 'a \<Rightarrow> 'a tick" where
  "liftT r s = (r, s)"

definition bindT :: "'a tick \<Rightarrow> ('a \<Rightarrow> 'b tick) \<Rightarrow> 'b tick" where
  "bindT m f s = (case m s of (Inl e, t) \<Rightarrow> (Inl e, t) | (Inr x, t) \<Rightarrow> f x t)"

definition stepT :: "(tick_state \<Rightarrow> tick_state) \<Rightarrow> unit tick" where
  "stepT f s = (Inr (), f s)"

text \<open>A \<open>for\<close> loop whose body answers whether to go on (\<open>False\<close> is \<open>break\<close>).\<close>

fun loopT :: "('a \<Rightarrow> bool tick) \<Rightarrow> 'a list \<Rightarrow> unit tick" where
  "loopT f [] s = (Inr (), s)"
| "loopT f (x # xs) s =
     (case f x s of
        (Inl e, t) \<Rightarrow> (Inl e, t)
      | (Inr True, t) \<Rightarrow> loopT f xs t
      | (Inr False, t) \<Rightarrow> (Inr (), t))"

definition mapL :: "('e \<Rightarrow> 'f) \<Rightarrow> 'e + 'a \<Rightarrow> 'f + 'a" where
  "mapL f r = (case r of Inl e \<Rightarrow> Inl (f e) | Inr x \<Rightarrow> Inr x)"

text \<open>\<open>d[k]\<close>, and a value used as a dictionary.\<close>

definition subscript :: "pyval \<Rightarrow> string \<Rightarrow> tick_exn + pyval" where
  "subscript v k =
     (case v of
        PDict d \<Rightarrow> (case dget d k of Some x \<Rightarrow> Inr x | None \<Rightarrow> Inl TickKeyError)
      | _ \<Rightarrow> Inl TickTypeError)"

definition the_dict :: "pyval \<Rightarrow> tick_exn + pydict" where
  "the_dict v = (case v of PDict d \<Rightarrow> Inr d | _ \<Rightarrow> Inl TickAttributeError)"

definition stories_of :: "pydict \<Rightarrow> tick_exn + pydict" where
  "stories_of m = bindE (subscript (PDict m) ''stories'') the_dict"

definition ELIGIBLE :: "string list" where
  "ELIGIBLE = [''todo'', ''interrupted'', ''changes_requested'']"

definition eligible :: "pyval \<Rightarrow> bool" where
  "eligible v = py_in v (map PStr ELIGIBLE)"

subsection \<open>Slots\<close>

text \<open>\<open>os.kill(pid, 0)\<close> on any value: a bool is an int, and an int must fit a C int.\<close>

definition probe_pid :: "os_world \<Rightarrow> pyval \<Rightarrow> tick_exn + probe" where
  "probe_pid w v =
     (case v of
        PInt i \<Rightarrow> if i < - 2147483648 then Inl (TickLease LeaseOverflow)
                  else mapL TickLease (kill_probe w i)
      | PBool b \<Rightarrow> Inr (kill0 w (if b then 1 else 0))
      | _ \<Rightarrow> Inl TickTypeError)"

definition has_live_test_author_phase :: "os_world \<Rightarrow> pydict \<Rightarrow> tick_exn + bool" where
  "has_live_test_author_phase w story =
     (case dgetN story ''test_author_phase'' of
        PDict phase \<Rightarrow>
          (case dgetN phase ''pid'' of
             PInt i \<Rightarrow>
               if i \<le> 0 then Inr False
               else bindE (probe_pid w (PInt i)) (\<lambda>p. Inr (p \<noteq> Gone))
           | _ \<Rightarrow> Inr False)
      | _ \<Rightarrow> Inr False)"

definition py_or :: "pyval \<Rightarrow> pyval \<Rightarrow> pyval" where
  "py_or a b = (if truthy a then a else b)"

text \<open>\<open>tag and tag.endswith(":cloud")\<close>\<close>

definition cloud_tag :: "pyval \<Rightarrow> tick_exn + bool" where
  "cloud_tag tag =
     (if \<not> truthy tag then Inr False
      else case tag of PStr s \<Rightarrow> Inr (ends_with s '':cloud'') | _ \<Rightarrow> Inl TickAttributeError)"

definition story_dispatch_is_on_device :: "pydict \<Rightarrow> tick_exn + bool" where
  "story_dispatch_is_on_device story =
     bindE (cloud_tag (py_or (dgetN story ''model'') (dgetN story ''dispatched_model''))) (\<lambda>cloud.
     Inr (if cloud then False else dgetN story ''backend'' \<noteq> PStr ''claude''))"

definition holds_device :: "os_world \<Rightarrow> pyval \<Rightarrow> tick_exn + bool" where
  "holds_device w v =
     bindE (the_dict v) (\<lambda>story.
     bindE (has_live_test_author_phase w story) (\<lambda>phase.
     if phase then story_dispatch_is_on_device story
     else if dgetN story ''status'' \<noteq> PStr ''in_progress'' then Inr False
     else case dget story ''pid'' of
       None \<Rightarrow> Inr False
     | Some pid \<Rightarrow>
         bindE (probe_pid w pid) (\<lambda>p.
         if p = Gone then Inr False else story_dispatch_is_on_device story)))"

definition count_on_device :: "os_world \<Rightarrow> (string \<times> pydict) list \<Rightarrow> tick_exn + int" where
  "count_on_device w manifests =
     bindE (mapE (\<lambda>(_, m).
       bindE (case dget m ''stories'' of Some v \<Rightarrow> the_dict v | None \<Rightarrow> Inr []) (\<lambda>stories.
       bindE (mapE (holds_device w) (map snd stories)) (\<lambda>bs.
       Inr (int (length (filter id bs)))))) manifests) (\<lambda>ns.
     Inr (sum_list ns))"

subsection \<open>Ready stories\<close>

definition completed_dep_ids :: "pydict \<Rightarrow> tick_exn + pyval list" where
  "completed_dep_ids stories =
     bindE (mapE (\<lambda>(k, v). bindE (subscript v ''status'') (\<lambda>st.
       Inr (if st = PStr ''done'' then [PStr k] else []))) stories) (\<lambda>keys.
     bindE (mapE (\<lambda>(k, v). bindE (subscript v ''status'') (\<lambda>st.
       if st = PStr ''done''
       then bindE (subscript v ''summary'') (\<lambda>x. if hashable x then Inr [x] else Inl TickTypeError)
       else Inr [])) stories) (\<lambda>summaries.
     Inr (concat keys @ concat summaries)))"

text \<open>\<open>all(d in done for d in deps)\<close> stops at the first dependency that is missing.\<close>

fun all_in :: "pyval list \<Rightarrow> pyval list \<Rightarrow> tick_exn + bool" where
  "all_in [] fin = Inr True"
| "all_in (d # ds) fin =
     (if \<not> hashable d then Inl TickTypeError
      else if py_in d fin then all_in ds fin else Inr False)"

definition deps_done :: "pydict \<Rightarrow> pyval list \<Rightarrow> tick_exn + bool" where
  "deps_done story fin =
     bindE (mapL TickCross (elements (case dget story ''dependencies'' of
        Some v \<Rightarrow> v | None \<Rightarrow> PList []))) (\<lambda>ds. all_in ds fin)"

definition is_ready :: "(string \<times> pydict) list \<Rightarrow> pyval list \<Rightarrow> pyval \<Rightarrow> tick_exn + bool" where
  "is_ready neigh fin v =
     bindE (subscript v ''status'') (\<lambda>st.
     if \<not> eligible st then Inr False
     else bindE (the_dict v) (\<lambda>story. bindE (deps_done story fin) (\<lambda>ok.
       if \<not> ok then Inr False
       else bindE (mapL TickCross (blocked_by_gaps story neigh)) (\<lambda>gaps. Inr (gaps = [])))))"

definition ready_stories :: "(string \<times> pydict) list \<Rightarrow> pydict \<Rightarrow> tick_exn + string list" where
  "ready_stories neigh stories =
     bindE (completed_dep_ids stories) (\<lambda>fin.
     bindE (mapE (\<lambda>(k, v). bindE (is_ready neigh fin v) (\<lambda>r. Inr (if r then [k] else []))) stories)
       (\<lambda>ks. Inr (concat ks)))"

text \<open>
  \<open>_warn_file_overlaps\<close>: one notice per process for each pair of a ready story and an in-flight
  story of another plan that share files; a notice carries the two keys and the shared files.
\<close>

type_synonym overlap = "string \<times> string \<times> string \<times> string"

definition overlap_notice ::
  "string \<Rightarrow> string \<Rightarrow> pyval list \<Rightarrow> in_flight_story \<Rightarrow> overlap list \<times> (overlap \<times> string list) list \<Rightarrow>
   overlap list \<times> (overlap \<times> string list) list" where
  "overlap_notice plan key files hit s =
     (let pair = (plan, key, fl_plan hit, fl_key hit) in
      if pair \<in> set (fst s) then s
      else (fst s @ [pair],
            snd s @ [(pair, sort (remdups (filter (\<lambda>f. py_in (PStr f) files) (fl_files hit))))]))"

definition warn_file_overlaps ::
  "string \<Rightarrow> pydict \<Rightarrow> string list \<Rightarrow> (string \<times> pydict) list \<Rightarrow> overlap list \<Rightarrow>
   tick_exn + overlap list \<times> (overlap \<times> string list) list" where
  "warn_file_overlaps plan stories ready neigh announced =
     bindE (mapL TickCross (in_flight_stories neigh)) (\<lambda>others.
     foldE (\<lambda>key s.
       bindE (bindE (subscript (PDict stories) key) the_dict) (\<lambda>story.
       bindE (mapL TickCross (file_overlaps (dgetN story ''files'') others)) (\<lambda>hits.
       if hits = [] then Inr s
       else bindE (mapL TickCross (elements (dgetN story ''files''))) (\<lambda>files.
       Inr (fold (overlap_notice plan key files) hits s))))) ready (announced, []))"

subsection \<open>Interruption\<close>

definition LOW_MEMORY :: string where
  "LOW_MEMORY = ''insufficient free memory''"

definition low_memory_reason :: "pyval \<Rightarrow> tick_exn + bool" where
  "low_memory_reason v =
     (if \<not> truthy v then Inr False
      else case v of
        PStr s \<Rightarrow> Inr (has_infix LOW_MEMORY s)
      | PList xs \<Rightarrow> Inr (py_in (PStr LOW_MEMORY) xs)
      | PDict d \<Rightarrow> Inr (dget d LOW_MEMORY \<noteq> None)
      | _ \<Rightarrow> Inl TickTypeError)"

definition status_ok :: "pydict \<Rightarrow> bool" where
  "status_ok d = truthy (dget_or d ''ok'' (PBool True))"

definition running :: "pyval \<Rightarrow> tick_exn + bool" where
  "running v =
     bindE (subscript v ''status'') (\<lambda>st.
     if st \<noteq> PStr ''in_progress'' then Inr False
     else bindE (the_dict v) (\<lambda>d. Inr (dget d ''pid'' \<noteq> None)))"

definition call_interrupt :: "tick_config \<Rightarrow> string \<Rightarrow> unit tick" where
  "call_interrupt c key =
     stepT (\<lambda>s. s\<lparr>on_disk := interrupt c key (on_disk s), calls := calls s @ [CallInterrupt key]\<rparr>)"

definition gate_closed :: "tick_config \<Rightarrow> bool" where
  "gate_closed c \<longleftrightarrow> \<not> fst (dispatch_gate c) \<and> \<not> has_infix LOW_MEMORY (snd (dispatch_gate c))"

text \<open>Whether the per-story gate interrupts a running story.\<close>

definition interrupts :: "tick_config \<Rightarrow> pyval \<Rightarrow> pydict \<Rightarrow> tick_exn + bool" where
  "interrupts c rc story =
     bindE (route c story rc) (\<lambda>(bk, model).
     if bk = ''claude'' then Inr (gate_closed c)
     else
       let tag = py_or (py_or (dgetN story ''model'') model) (dgetN story ''dispatched_model'') in
       bindE (cloud_tag tag) (\<lambda>cloud.
       if cloud then Inr False
       else if truthy tag
       then bindE (resource c bk (Some tag)) (\<lambda>st.
         if status_ok st then Inr False
         else bindE (low_memory_reason (dgetN st ''reason'')) (\<lambda>low. Inr (\<not> low)))
       else Inr (gate_closed c)))"

definition interrupt_one :: "tick_config \<Rightarrow> pyval \<Rightarrow> string \<times> pyval \<Rightarrow> bool tick" where
  "interrupt_one c rc entry =
     bindT (liftT (running (snd entry))) (\<lambda>r.
     if \<not> r then okT True
     else bindT (liftT (bindE (the_dict (snd entry)) (interrupts c rc))) (\<lambda>i.
       if \<not> i then okT True
       else bindT (call_interrupt c (fst entry)) (\<lambda>_.
         bindT (stepT (\<lambda>s. s\<lparr>s_interrupted := s_interrupted s @ [fst entry]\<rparr>)) (\<lambda>_. okT True))))"

definition pause_one :: "tick_config \<Rightarrow> string \<times> pyval \<Rightarrow> bool tick" where
  "pause_one c entry =
     bindT (liftT (running (snd entry))) (\<lambda>r.
     if r then bindT (call_interrupt c (fst entry)) (\<lambda>_. okT True) else okT True)"

subsection \<open>Dispatch\<close>

definition gate_passes :: "tick_config \<Rightarrow> pydict \<Rightarrow> string \<times> pyval \<Rightarrow> tick_exn + bool" where
  "gate_passes c story target =
     (let tag = py_or (dgetN story ''model'') (snd target) in
      bindE (if fst target = ''claude'' then resource c ''claude'' None
             else resource c (fst target) (if truthy tag then Some tag else None)) (\<lambda>st.
      Inr (status_ok st)))"

definition put_story :: "string \<Rightarrow> pydict \<Rightarrow> pydict \<Rightarrow> pydict \<Rightarrow> pydict" where
  "put_story key story stories m = dset ''stories'' (PDict (dset key (PDict story) stories)) m"

text \<open>The lease claimed on a fresh read, persisted; \<open>None\<close> skips the story.\<close>

definition claim_fresh :: "tick_config \<Rightarrow> string \<Rightarrow> pydict \<Rightarrow> tick_exn + pydict option" where
  "claim_fresh c key m =
     bindE (stories_of m) (\<lambda>stories.
     if dgetN stories key = PNone then Inr None
     else bindE (subscript (dgetN stories key) ''status'') (\<lambda>st.
       if \<not> eligible st then Inr None
       else bindE (the_dict (dgetN stories key)) (\<lambda>fresh.
         bindE (mapL TickLease
             (claim_dispatch_lease (t_os c) (t_env c) (t_now c key) (t_pid c) None fresh)) (\<lambda>(ok, leased).
         Inr (if ok then Some (put_story key leased stories m) else None)))))"

definition fresh_story :: "string \<Rightarrow> pydict \<Rightarrow> tick_exn + pydict \<times> pydict" where
  "fresh_story key m =
     bindE (subscript (PDict m) ''stories'') (\<lambda>ss.
     bindE (subscript ss key) (\<lambda>v.
     bindE (the_dict v) (\<lambda>st.
     bindE (the_dict ss) (\<lambda>stories. Inr (stories, st)))))"

fun add_one :: "pyval \<Rightarrow> tick_exn + pyval" where
  "add_one (PInt i) = Inr (PInt (i + 1))"
| "add_one (PBool b) = Inr (PInt (if b then 2 else 1))"
| "add_one (PFloat (Fin q)) = Inr (PFloat (Fin (q + 1)))"
| "add_one (PFloat x) = Inr (PFloat x)"
| "add_one _ = Inl TickTypeError"

definition attempts_used_up :: "tick_config \<Rightarrow> pyval \<Rightarrow> bool" where
  "attempts_used_up c v =
     (case num_of v of Some x \<Rightarrow> num_le (Fin (of_int (max_attempts c))) x | None \<Rightarrow> False)"

text \<open>A failed dispatch: the lease goes, the attempt counts, the last one fails the story.\<close>

definition settle_failure :: "tick_config \<Rightarrow> string \<Rightarrow> string \<Rightarrow> pydict \<Rightarrow> tick_exn + bool \<times> pydict" where
  "settle_failure c key e m =
     bindE (fresh_story key m) (\<lambda>(stories, st).
     let st = clear_lease st in
     bindE (add_one (dget_or st ''dispatch_attempts'' (PInt 0))) (\<lambda>attempts.
     let st = dset ''dispatch_attempts'' attempts st in
     if attempts_used_up c attempts
     then Inr (True, put_story key
            (dset ''dispatch_error'' (PStr e) (dset ''status'' (PStr ''failed'') st)) stories m)
     else Inr (False, put_story key st stories m)))"

definition settle_success :: "string \<Rightarrow> pydict \<Rightarrow> tick_exn + pydict" where
  "settle_success key m =
     bindE (fresh_story key m) (\<lambda>(stories, st). Inr (put_story key (clear_lease st) stories m))"

definition fail_dispatch :: "tick_config \<Rightarrow> string \<Rightarrow> string \<Rightarrow> bool tick" where
  "fail_dispatch c key e s =
     (case settle_failure c key e (on_disk s) of
        Inl x \<Rightarrow> (Inl x, s)
      | Inr (gave_up, m) \<Rightarrow>
          (Inr True, s\<lparr>on_disk := m, s_notify := s_notify s @ [key],
             s_failed := s_failed s @ (if gave_up then [key] else [])\<rparr>))"

definition refused :: "pyval \<Rightarrow> bool" where
  "refused v = (case v of PDict r \<Rightarrow> dget r ''ok'' = Some (PBool False) | _ \<Rightarrow> False)"

definition refusal_text :: "tick_config \<Rightarrow> pyval \<Rightarrow> string" where
  "refusal_text c v =
     (case v of PDict r \<Rightarrow> py_str (show_value c) (dget_or r ''error'' (PStr ''dispatch failed'')) | _ \<Rightarrow> [])"

definition note_launch :: "string \<Rightarrow> pyval \<Rightarrow> tick_state \<Rightarrow> tick_state" where
  "note_launch key v s =
     (case v of
        PDict r \<Rightarrow>
          (let s = s\<lparr>launched := launched s + 1\<rparr> in
           if truthy (dgetN r ''pending'') then s\<lparr>s_pending := s_pending s @ [key]\<rparr>
           else if truthy (dgetN r ''skipped'') then s\<lparr>s_skipped := s_skipped s @ [key]\<rparr>
           else s\<lparr>s_dispatched := s_dispatched s @ [key]\<rparr>)
      | _ \<Rightarrow> s\<lparr>s_dispatched := s_dispatched s @ [key]\<rparr>)"

text \<open>\<open>m\<close> with the claimed lease is on disk when the lock is released.\<close>

definition call_dispatch ::
  "tick_config \<Rightarrow> string \<Rightarrow> bool \<Rightarrow> pydict \<Rightarrow> tick_state \<Rightarrow> outcome \<times> tick_state" where
  "call_dispatch c key takes_slot m s =
     (let (d, out) = dispatch c (length (calls s)) key m
      in (out, s\<lparr>on_disk := d,
                 free_slots := free_slots s - (if takes_slot then 1 else 0),
                 calls := calls s @ [CallDispatch key m out]\<rparr>))"

definition settle_dispatch :: "tick_config \<Rightarrow> string \<Rightarrow> outcome \<Rightarrow> bool tick" where
  "settle_dispatch c key out s =
     (case out of
        LockLost \<Rightarrow> (Inl TickLockTimeout, s)
      | Failed e \<Rightarrow> fail_dispatch c key e s
      | Returned v \<Rightarrow>
          if refused v then fail_dispatch c key (refusal_text c v) s
          else let s = note_launch key v s in
            (case settle_success key (on_disk s) of
               Inl x \<Rightarrow> (Inl x, s)
             | Inr m' \<Rightarrow> (Inr True, s\<lparr>on_disk := m'\<rparr>)))"

definition perform_dispatch :: "tick_config \<Rightarrow> string \<Rightarrow> bool \<Rightarrow> pydict \<Rightarrow> bool tick" where
  "perform_dispatch c key takes_slot m s =
     (case call_dispatch c key takes_slot m s of (out, t) \<Rightarrow> settle_dispatch c key out t)"

definition capped :: "tick_config \<Rightarrow> bool" where
  "capped c = (0 < max_agents c)"

definition dispatch_one :: "tick_config \<Rightarrow> pyval \<Rightarrow> pydict \<Rightarrow> string \<Rightarrow> bool tick" where
  "dispatch_one c rc stories key s =
     (if 0 < max_per_tick c \<and> max_per_tick c \<le> launched s then (Inr False, s)
      else case bindE (subscript (PDict stories) key) the_dict of
        Inl e \<Rightarrow> (Inl e, s)
      | Inr story \<Rightarrow>
        (case bindE (story_dispatch_is_on_device story) (\<lambda>dev.
              bindE (has_live_test_author_phase (t_os c) story) (\<lambda>holds. Inr (dev \<and> \<not> holds))) of
           Inl e \<Rightarrow> (Inl e, s)
         | Inr needs_slot \<Rightarrow>
             if capped c \<and> needs_slot \<and> free_slots s \<le> 0 then (Inr True, s)
             else case bindE (route c story rc) (gate_passes c story) of
               Inl e \<Rightarrow> (Inl e, s)
             | Inr False \<Rightarrow> (Inr True, s)
             | Inr True \<Rightarrow>
                 (case claim_fresh c key (on_disk s) of
                    Inl e \<Rightarrow> (Inl e, s)
                  | Inr None \<Rightarrow> (Inr True, s)
                  | Inr (Some m) \<Rightarrow> perform_dispatch c key (capped c \<and> needs_slot) m s)))"

subsection \<open>The tick\<close>

datatype tick_result = NoManifest | SkippedPlan string | DryRun "string list" | Ran

definition run_tick :: "tick_config \<Rightarrow> pydict \<Rightarrow> string list \<Rightarrow> tick_result tick" where
  "run_tick c m ready =
     bindT (stepT (\<lambda>s. s\<lparr>on_disk := adjudicate c (on_disk s)\<rparr>)) (\<lambda>_.
     bindT (liftT (stories_of m)) (\<lambda>stories.
     bindT (loopT (interrupt_one c (dgetN m ''role_config'')) stories) (\<lambda>_.
     bindT (liftT (if capped c then bindE (count_on_device (t_os c) (fleet c)) (\<lambda>n. Inr (max 0 (max_agents c - n)))
                   else Inr 0)) (\<lambda>free.
     bindT (stepT (\<lambda>s. s\<lparr>free_slots := free\<rparr>)) (\<lambda>_.
     bindT (loopT (dispatch_one c (dgetN m ''role_config'') stories) ready) (\<lambda>_.
     okT Ran))))))"

definition tick :: "tick_config \<Rightarrow> string \<Rightarrow> overlap list \<Rightarrow> pydict option \<Rightarrow> tick_result tick" where
  "tick c plan announced manifest =
     (case manifest of
        None \<Rightarrow> okT NoManifest
      | Some m \<Rightarrow>
          bindT (liftT (subscript (PDict m) ''stories'')) (\<lambda>ss.
          if truthy (dgetN m ''paused'')
          then bindT (liftT (the_dict ss)) (\<lambda>stories.
               bindT (loopT (pause_one c) stories) (\<lambda>_. okT (SkippedPlan ''plan_paused'')))
          else bindT (liftT (mapL TickApproval (is_activatable (t_env c) m))) (\<lambda>active.
          if \<not> active then okT (SkippedPlan ''plan_not_approved'')
          else bindT (liftT (the_dict ss)) (\<lambda>stories.
               bindT (liftT (ready_stories (neighbours c) stories)) (\<lambda>ready.
               bindT (liftT (warn_file_overlaps plan stories ready (neighbours c) announced)) (\<lambda>_.
               if autonomy c = ''dry-run''
               then okT (DryRun (if fst (dispatch_gate c) then ready else []))
               else run_tick c m ready))))))"

definition tick_start :: "pydict \<Rightarrow> tick_state" where
  "tick_start m =
     \<lparr>on_disk = m, calls = [], free_slots = 0, launched = 0, s_dispatched = [], s_skipped = [],
      s_pending = [], s_failed = [], s_interrupted = [], s_notify = []\<rparr>"

text \<open>
  The poll loop's gate: which running stories are checked.  It repeats the interruption gate with
  another tag order and without asking why a resource check failed.
\<close>

definition polls :: "tick_config \<Rightarrow> pyval \<Rightarrow> pydict \<Rightarrow> tick_exn + bool" where
  "polls c rc story =
     bindE (route c story rc) (\<lambda>(bk, model).
     let tag = py_or (py_or (dgetN story ''model'') (dgetN story ''dispatched_model'')) model in
     bindE (if bk \<noteq> ''claude'' then cloud_tag tag else Inr False) (\<lambda>cloud.
     if cloud then Inr True
     else if bk = ''claude'' \<or> \<not> truthy tag then Inr (\<not> gate_closed c)
     else bindE (resource c bk (Some tag)) (\<lambda>st. Inr (status_ok st))))"

subsection \<open>Lemmas\<close>

lemma okT_simp [simp]: "okT x s = (Inr x, s)"
  by (simp add: okT_def)

lemma liftT_simp [simp]: "liftT r s = (r, s)"
  by (simp add: liftT_def)

lemma stepT_simp [simp]: "stepT f s = (Inr (), f s)"
  by (simp add: stepT_def)

lemma bindT_cases:
  assumes "bindT m f s = (r, t)"
  obtains (raised) e where "m s = (Inl e, t)" "r = Inl e"
  | (went) x u where "m s = (Inr x, u)" "f x u = (r, t)"
  using assms by (auto simp: bindT_def split: prod.splits sum.splits)

lemma loopT_invariant:
  assumes "\<And>x s r t. x \<in> set xs \<Longrightarrow> P s \<Longrightarrow> f x s = (r, t) \<Longrightarrow> P t"
    and "P s" "loopT f xs s = (r, t)"
  shows "P t"
  using assms
proof (induction xs arbitrary: s)
  case (Cons x xs)
  obtain q u where q: "f x s = (q, u)" by (cases "f x s")
  from Cons.prems(1) [OF _ Cons.prems(2) q] have u: "P u" by simp
  from Cons.prems(3) q have "t = u \<or> loopT f xs u = (r, t)"
    by (auto split: sum.splits bool.splits)
  with u Cons.IH [OF _ u] Cons.prems(1) show ?case by (metis list.set_intros(2))
qed simp

definition is_dispatch :: "call \<Rightarrow> bool" where
  "is_dispatch x = (case x of CallDispatch _ _ _ \<Rightarrow> True | CallInterrupt _ \<Rightarrow> False)"

lemma interrupt_keeps:
  assumes "interrupt_one c rc entry s = (r, t)"
  shows "filter is_dispatch (calls t) = filter is_dispatch (calls s) \<and> launched t = launched s"
  using assms
  by (auto simp: interrupt_one_def call_interrupt_def is_dispatch_def elim!: bindT_cases split: if_splits)

lemma pause_keeps:
  assumes "pause_one c entry s = (r, t)"
  shows "filter is_dispatch (calls t) = filter is_dispatch (calls s)"
  using assms
  by (auto simp: pause_one_def call_interrupt_def is_dispatch_def elim!: bindT_cases split: if_splits)

subsection \<open>One dispatch\<close>

definition counted :: "outcome \<Rightarrow> bool" where
  "counted out = (case out of Returned (PDict r) \<Rightarrow> \<not> refused (PDict r) | _ \<Rightarrow> False)"

lemma fail_keeps:
  "fail_dispatch c key e s = (r, t) \<Longrightarrow>
     calls t = calls s \<and> free_slots t = free_slots s \<and> launched t = launched s"
  by (auto simp: fail_dispatch_def split: sum.splits prod.splits)

lemma note_launch_keeps:
  "calls (note_launch key v s) = calls s"
  "free_slots (note_launch key v s) = free_slots s"
  "launched (note_launch key v s) = launched s + (case v of PDict _ \<Rightarrow> 1 | _ \<Rightarrow> 0)"
  "on_disk (note_launch key v s) = on_disk s"
  by (auto simp: note_launch_def Let_def split: pyval.splits)

lemma settle_keeps:
  assumes "settle_dispatch c key out s = (r, t)"
  shows "calls t = calls s \<and> free_slots t = free_slots s \<and>
    launched t = launched s + (if counted out then 1 else 0)"
proof (cases out)
  case (Returned v)
  show ?thesis
  proof (cases "refused v")
    case True
    then have "\<not> counted out" by (auto simp: counted_def Returned split: pyval.splits)
    with assms True Returned fail_keeps show ?thesis by (fastforce simp: settle_dispatch_def)
  next
    case False
    with assms Returned show ?thesis
      by (auto simp: settle_dispatch_def Let_def note_launch_keeps counted_def
          split: sum.splits pyval.splits)
  qed
next
  case (Failed e)
  with assms fail_keeps show ?thesis by (fastforce simp: settle_dispatch_def counted_def)
qed (use assms in \<open>auto simp: settle_dispatch_def counted_def\<close>)

lemma perform_effect:
  assumes "perform_dispatch c key b m s = (r, t)"
  shows "\<exists>out. calls t = calls s @ [CallDispatch key m out] \<and>
    free_slots t = free_slots s - (if b then 1 else 0) \<and>
    launched t = launched s + (if counted out then 1 else 0)"
proof -
  obtain d out where d: "dispatch c (length (calls s)) key m = (d, out)"
    by (cases "dispatch c (length (calls s)) key m")
  with assms have "settle_dispatch c key out (s\<lparr>on_disk := d,
      free_slots := free_slots s - (if b then 1 else 0),
      calls := calls s @ [CallDispatch key m out]\<rparr>) = (r, t)"
    by (simp add: perform_dispatch_def call_dispatch_def)
  from settle_keeps [OF this] show ?thesis by auto
qed

text \<open>Whether a dispatch of a story would take a device slot.\<close>

definition needs_slot :: "tick_config \<Rightarrow> pydict \<Rightarrow> string \<Rightarrow> bool" where
  "needs_slot c stories key \<longleftrightarrow>
     (\<exists>story. dget stories key = Some (PDict story) \<and>
        story_dispatch_is_on_device story = Inr True \<and>
        has_live_test_author_phase (t_os c) story = Inr False)"

text \<open>The state a dispatched story is in when the lock is released.\<close>

definition leased_story :: "tick_config \<Rightarrow> string \<Rightarrow> pydict \<Rightarrow> bool" where
  "leased_story c key m \<longleftrightarrow>
     (\<exists>stories st ttl. dgetN m ''stories'' = PDict stories \<and>
        dgetN stories key = PDict (with_lease (t_os c) (t_now c key + ttl * 1000000) (t_pid c) st) \<and>
        0 < ttl \<and> eligible (dgetN st ''status'') \<and>
        lease_is_live (t_os c) (t_now c key) st = Inr False)"

text \<open>
  How that state came about: from the manifest \<open>disk\<close>, whose record of the story was eligible and under no
  live lease, by writing this process's lease into that record and nothing else.
\<close>

definition claimed_from :: "tick_config \<Rightarrow> string \<Rightarrow> pydict \<Rightarrow> pydict \<Rightarrow> bool" where
  "claimed_from c key disk m \<longleftrightarrow>
     (\<exists>stories st ttl. dgetN disk ''stories'' = PDict stories \<and> dget stories key = Some (PDict st) \<and>
        eligible (dgetN st ''status'') \<and> lease_is_live (t_os c) (t_now c key) st = Inr False \<and> 0 < ttl \<and>
        m = dset ''stories'' (PDict (dset key
              (PDict (with_lease (t_os c) (t_now c key + ttl * 1000000) (t_pid c) st)) stories)) disk)"

lemma claim_fresh_from:
  assumes "claim_fresh c key m = Inr (Some m')"
  shows "claimed_from c key m m'"
proof -
  from assms obtain stories st v leased where
    c: "dgetN m ''stories'' = PDict stories" "dget stories key = Some (PDict st)" "dget st ''status'' = Some v" "eligible v"
      "claim_dispatch_lease (t_os c) (t_env c) (t_now c key) (t_pid c) None st = Inr (True, leased)"
      "m' = put_story key leased stories m"
    by (auto simp: claim_fresh_def stories_of_def okE mapL_def the_dict_def subscript_def dgetN_def
        split: if_splits sum.splits pyval.splits option.splits)
  from claim_granted [OF c(5)] obtain ttl where
    "lease_is_live (t_os c) (t_now c key) st = Inr False" "lease_ttl (t_env c) None = Inr ttl"
      "leased = with_lease (t_os c) (t_now c key + ttl * 1000000) (t_pid c) st" by blast
  moreover from this(2) have "0 < ttl" by (rule lease_ttl_range [THEN conjunct1])
  ultimately show ?thesis
    using c by (auto simp: claimed_from_def put_story_def dgetN_def)
qed

lemma claim_fresh_leased:
  assumes "claim_fresh c key m = Inr (Some m')"
  shows "leased_story c key m'"
proof -
  from assms obtain stories st v leased where
    c: "dget stories key = Some (PDict st)" "dget st ''status'' = Some v" "eligible v"
      "claim_dispatch_lease (t_os c) (t_env c) (t_now c key) (t_pid c) None st = Inr (True, leased)"
      "m' = put_story key leased stories m"
    by (auto simp: claim_fresh_def okE mapL_def the_dict_def subscript_def dgetN_def
        split: if_splits sum.splits pyval.splits option.splits)
  from claim_granted [OF c(4)] obtain ttl where
    l: "lease_is_live (t_os c) (t_now c key) st = Inr False" "lease_ttl (t_env c) None = Inr ttl"
      "leased = with_lease (t_os c) (t_now c key + ttl * 1000000) (t_pid c) st" by blast
  show ?thesis
    unfolding leased_story_def
  proof (intro exI conjI)
    show "dgetN m' ''stories'' = PDict (dset key (PDict leased) stories)"
      by (simp add: c(5) put_story_def dgetN_def)
    show "dgetN (dset key (PDict leased) stories) key =
        PDict (with_lease (t_os c) (t_now c key + ttl * 1000000) (t_pid c) st)"
      by (simp add: l(3) dgetN_def)
    show "eligible (dgetN st ''status'')" using c(2,3) by (simp add: dgetN_def)
  qed (use lease_ttl_range [OF l(2)] l(1) in auto)
qed

lemma dispatch_one_cases:
  assumes "dispatch_one c rc stories key s = (r, t)"
  obtains (still) "t = s"
  | (called) m where "\<not> (0 < max_per_tick c \<and> max_per_tick c \<le> launched s)"
      "capped c \<and> needs_slot c stories key \<Longrightarrow> 0 < free_slots s"
      "leased_story c key m"
      "perform_dispatch c key (capped c \<and> needs_slot c stories key) m s = (r, t)"
proof -
  let ?need = "\<lambda>story. bindE (story_dispatch_is_on_device story) (\<lambda>dev.
      bindE (has_live_test_author_phase (t_os c) story) (\<lambda>holds. Inr (dev \<and> \<not> holds)))"
  show thesis
  proof (cases "t = s")
    case True
    then show thesis by (rule still)
  next
    case False
    with assms obtain story b m where
      d: "\<not> (0 < max_per_tick c \<and> max_per_tick c \<le> launched s)"
        "dget stories key = Some (PDict story)" "?need story = Inr b"
        "\<not> (capped c \<and> b \<and> free_slots s \<le> 0)" "claim_fresh c key (on_disk s) = Inr (Some m)"
        "perform_dispatch c key (capped c \<and> b) m s = (r, t)"
      by (auto simp: dispatch_one_def subscript_def the_dict_def
          split: if_splits sum.splits bool.splits option.splits pyval.splits)
    have "b = needs_slot c stories key" using d(2,3) by (auto simp: needs_slot_def okE)
    with d claim_fresh_leased [OF d(5)] show thesis by (intro called) auto
  qed
qed

subsection \<open>The dispatch loop\<close>

fun call_key :: "call \<Rightarrow> string" where
  "call_key (CallInterrupt k) = k"
| "call_key (CallDispatch k _ _) = k"

fun guarded_call :: "tick_config \<Rightarrow> call \<Rightarrow> bool" where
  "guarded_call c (CallInterrupt _) = False"
| "guarded_call c (CallDispatch k m _) = leased_story c k m"

fun counted_call :: "call \<Rightarrow> bool" where
  "counted_call (CallInterrupt _) = False"
| "counted_call (CallDispatch _ _ out) = counted out"

definition slot_calls :: "tick_config \<Rightarrow> pydict \<Rightarrow> call list \<Rightarrow> int" where
  "slot_calls c stories cs = int (length (filter (\<lambda>x. capped c \<and> needs_slot c stories (call_key x)) cs))"

definition loop_ok :: "tick_config \<Rightarrow> pydict \<Rightarrow> string list \<Rightarrow> tick_state \<Rightarrow> call list \<Rightarrow> tick_state \<Rightarrow> bool" where
  "loop_ok c stories keys s cs t \<longleftrightarrow>
     calls t = calls s @ cs \<and> list_all (guarded_call c) cs \<and>
     set (map call_key cs) \<subseteq> set keys \<and> (distinct keys \<longrightarrow> distinct (map call_key cs)) \<and>
     free_slots t = free_slots s - slot_calls c stories cs \<and>
     (0 \<le> free_slots s \<longrightarrow> 0 \<le> free_slots t) \<and>
     launched t = launched s + int (length (filter counted_call cs)) \<and>
     (0 < max_per_tick c \<longrightarrow> launched s \<le> max_per_tick c \<longrightarrow> launched t \<le> max_per_tick c)"

lemma loop_ok_refl: "loop_ok c stories keys s [] s"
  by (simp add: loop_ok_def slot_calls_def)

lemma loop_ok_step:
  assumes "dispatch_one c rc stories key s = (r, t)"
  shows "\<exists>cs. loop_ok c stories [key] s cs t"
  using assms
proof (cases rule: dispatch_one_cases)
  case still
  then show ?thesis using loop_ok_refl by blast
next
  case (called m)
  from perform_effect [OF called(4)] obtain out where
    e: "calls t = calls s @ [CallDispatch key m out]"
      "free_slots t = free_slots s - (if capped c \<and> needs_slot c stories key then 1 else 0)"
      "launched t = launched s + (if counted out then 1 else 0)" by blast
  have "loop_ok c stories [key] s [CallDispatch key m out] t"
    using called(1,2,3) e by (auto simp: loop_ok_def slot_calls_def)
  then show ?thesis ..
qed

lemma loop_ok_trans:
  assumes "loop_ok c stories [key] s cs u" "loop_ok c stories keys u ds t"
  shows "loop_ok c stories (key # keys) s (cs @ ds) t"
  using assms unfolding loop_ok_def slot_calls_def by auto

lemma loop_ok_more: "loop_ok c stories [key] s cs t \<Longrightarrow> loop_ok c stories (key # keys) s cs t"
  unfolding loop_ok_def by auto

lemma dispatch_loop:
  assumes "loopT (dispatch_one c rc stories) keys s = (r, t)"
  shows "\<exists>cs. loop_ok c stories keys s cs t"
  using assms
proof (induction keys arbitrary: s)
  case Nil
  then show ?case using loop_ok_refl [of c stories "[]" s] by auto
next
  case (Cons key keys)
  obtain q u where q: "dispatch_one c rc stories key s = (q, u)"
    by (cases "dispatch_one c rc stories key s")
  from loop_ok_step [OF q] obtain cs where cs: "loop_ok c stories [key] s cs u" ..
  from Cons.prems q have "t = u \<or> loopT (dispatch_one c rc stories) keys u = (r, t)"
    by (auto split: sum.splits bool.splits)
  then show ?case
  proof
    assume "t = u"
    with loop_ok_more [OF cs] show ?thesis by auto
  next
    assume "loopT (dispatch_one c rc stories) keys u = (r, t)"
    from Cons.IH [OF this] obtain ds where "loop_ok c stories keys u ds t" ..
    from loop_ok_trans [OF cs this] show ?thesis ..
  qed
qed

lemma ready_keys:
  assumes "ready_stories neigh stories = Inr ready"
  shows "set ready \<subseteq> set (dkeys stories) \<and> (wf_dict stories \<longrightarrow> distinct ready)"
proof -
  from assms obtain fin ks where
    k: "mapE (\<lambda>(k, v). bindE (is_ready neigh fin v) (\<lambda>r. Inr (if r then [k] else []))) stories = Inr ks"
      "ready = concat ks"
    by (auto simp: ready_stories_def okE)
  have "set (concat ks) \<subseteq> set (dkeys stories) \<and> (distinct (dkeys stories) \<longrightarrow> distinct (concat ks))"
    using k(1)
  proof (induction stories arbitrary: ks)
    case (Cons x stories)
    from Cons.prems obtain zs b where
      z: "mapE (\<lambda>(k, v). bindE (is_ready neigh fin v) (\<lambda>r. Inr (if r then [k] else []))) stories = Inr zs"
        "ks = (if b then [fst x] else []) # zs"
      by (cases x) (fastforce simp: okE)
    from Cons.IH [OF z(1)] z(2) show ?case by (cases x) auto
  qed simp
  with k(2) show ?thesis by (simp add: wf_dict_def)
qed

text \<open>A tick that dispatches anything has reached the loop with the slots it counted.\<close>

lemma run_tick_reaches:
  assumes "run_tick c m ready s = (r, t)" "calls s = []" "launched s = 0"
  shows "filter is_dispatch (calls t) = [] \<or>
    (\<exists>stories w free q. stories_of m = Inr stories \<and> filter is_dispatch (calls w) = [] \<and>
       launched w = 0 \<and>
       (if capped c then bindE (count_on_device (t_os c) (fleet c)) (\<lambda>n. Inr (max 0 (max_agents c - n)))
        else Inr 0) = (Inr free :: tick_exn + int) \<and>
       loopT (dispatch_one c (dgetN m ''role_config'') stories) ready (w\<lparr>free_slots := free\<rparr>) = (q, t))"
proof -
  let ?ok = "\<lambda>v. filter is_dispatch (calls v) = [] \<and> launched v = 0"
  have int: "?ok w" if "loopT (interrupt_one c (dgetN m ''role_config'')) stories u = (q, w)"
    "calls u = []" "launched u = 0" for stories q w u
    by (rule loopT_invariant [where P = ?ok, OF _ _ that(1)]) (use that interrupt_keeps in auto)
  show ?thesis
    using assms(1) unfolding run_tick_def
    by (elim bindT_cases) (simp_all, (use assms(2,3) int in \<open>force+\<close>))
qed

lemma counted_is_dispatch: "counted_call x \<Longrightarrow> is_dispatch x"
  by (cases x) (simp_all add: is_dispatch_def)

lemma filter_guarded: "list_all (guarded_call c) cs \<Longrightarrow> filter is_dispatch cs = cs"
  by (rule filter_True) (auto simp: list_all_iff is_dispatch_def split: call.splits)

lemma tick_runs:
  assumes "tick c plan announced (Some m) (tick_start m) = (r, t)"
    and "filter is_dispatch (calls t) \<noteq> []"
  obtains stories ready where
    "stories_of m = Inr stories" "\<not> truthy (dgetN m ''paused'')" "is_activatable (t_env c) m = Inr True"
    "autonomy c \<noteq> ''dry-run''" "ready_stories (neighbours c) stories = Inr ready"
    "run_tick c m ready (tick_start m) = (r, t)"
proof -
  let ?s = "tick_start m"
  have s: "calls ?s = []" by (simp add: tick_start_def)
  have pause: "filter is_dispatch (calls w) = []"
    if "loopT (pause_one c) stories u = (q, w)" "calls u = []" for stories u w q
    by (rule loopT_invariant [where P = "\<lambda>v. filter is_dispatch (calls v) = []", OF _ _ that(1)])
      (use that pause_keeps in auto)
  from assms s obtain stories ready where
    "stories_of m = Inr stories" "\<not> truthy (dgetN m ''paused'')" "is_activatable (t_env c) m = Inr True"
    "autonomy c \<noteq> ''dry-run''" "ready_stories (neighbours c) stories = Inr ready"
    "run_tick c m ready ?s = (r, t)"
    unfolding tick_def
    by (auto simp: stories_of_def mapL_def elim!: bindT_cases split: if_splits sum.splits)
      (metis pause)+
  from that [OF this] show thesis .
qed

lemma tick_reaches:
  assumes "tick c plan announced (Some m) (tick_start m) = (r, t)"
    and "filter is_dispatch (calls t) \<noteq> []"
  obtains stories ready w cs free where
    "stories_of m = Inr stories" "\<not> truthy (dgetN m ''paused'')" "is_activatable (t_env c) m = Inr True"
    "autonomy c \<noteq> ''dry-run''" "ready_stories (neighbours c) stories = Inr ready"
    "loop_ok c stories ready w cs t" "filter is_dispatch (calls t) = cs" "launched w = 0"
    "free_slots w = free"
    "(if capped c then bindE (count_on_device (t_os c) (fleet c)) (\<lambda>n. Inr (max 0 (max_agents c - n)))
      else Inr 0) = (Inr free :: tick_exn + int)"
proof -
  let ?s = "tick_start m"
  have s: "calls ?s = []" "launched ?s = 0" by (simp_all add: tick_start_def)
  from tick_runs [OF assms] obtain stories ready where
    t: "stories_of m = Inr stories" "\<not> truthy (dgetN m ''paused'')" "is_activatable (t_env c) m = Inr True"
      "autonomy c \<noteq> ''dry-run''" "ready_stories (neighbours c) stories = Inr ready"
      "run_tick c m ready ?s = (r, t)" .
  from run_tick_reaches [OF t(6) s] assms(2) t(1) obtain w free q where
    w: "filter is_dispatch (calls w) = []" "launched w = 0"
      "(if capped c then bindE (count_on_device (t_os c) (fleet c)) (\<lambda>n. Inr (max 0 (max_agents c - n)))
        else Inr 0) = (Inr free :: tick_exn + int)"
      "loopT (dispatch_one c (dgetN m ''role_config'') stories) ready (w\<lparr>free_slots := free\<rparr>) = (q, t)"
    by auto
  from dispatch_loop [OF w(4)] obtain cs where
    cs: "loop_ok c stories ready (w\<lparr>free_slots := free\<rparr>) cs t" ..
  then have "filter is_dispatch (calls t) = cs"
    using w(1) filter_guarded [of c cs] by (simp add: loop_ok_def)
  from that [OF t(1-5) cs this _ _ w(3)] w(2) show thesis by simp
qed

subsection \<open>What is on disk at each call\<close>

text \<open>
  The manifest on disk after the calls of a tick, in their order: an interruption leaves what \<open>interrupt\<close>
  made of it, a dispatch what \<open>dispatch\<close> made of the manifest it was handed, with the outcome settled in it.
\<close>

definition settled_disk :: "tick_config \<Rightarrow> string \<Rightarrow> outcome \<Rightarrow> pydict \<Rightarrow> pydict" where
  "settled_disk c key out d =
     (case out of
        LockLost \<Rightarrow> d
      | Failed e \<Rightarrow> (case settle_failure c key e d of Inr (_, d') \<Rightarrow> d' | Inl _ \<Rightarrow> d)
      | Returned v \<Rightarrow>
          if refused v then (case settle_failure c key (refusal_text c v) d of Inr (_, d') \<Rightarrow> d' | Inl _ \<Rightarrow> d)
          else (case settle_success key d of Inr d' \<Rightarrow> d' | Inl _ \<Rightarrow> d))"

fun disk_after :: "tick_config \<Rightarrow> pydict \<Rightarrow> call list \<Rightarrow> pydict" where
  "disk_after c disk [] = disk"
| "disk_after c disk (CallInterrupt key # before) = interrupt c key (disk_after c disk before)"
| "disk_after c disk (CallDispatch key m out # before) =
     settled_disk c key out (fst (dispatch c (length before) key m))"

fun claims_fresh :: "tick_config \<Rightarrow> pydict \<Rightarrow> call list \<Rightarrow> bool" where
  "claims_fresh c disk [] = True"
| "claims_fresh c disk (CallInterrupt key # before) = claims_fresh c disk before"
| "claims_fresh c disk (CallDispatch key m out # before) \<longleftrightarrow>
     claimed_from c key (disk_after c disk before) m \<and> claims_fresh c disk before"

definition traced :: "tick_config \<Rightarrow> pydict \<Rightarrow> tick_state \<Rightarrow> bool" where
  "traced c disk s \<longleftrightarrow> on_disk s = disk_after c disk (rev (calls s)) \<and> claims_fresh c disk (rev (calls s))"

lemma claims_fresh_at:
  "claims_fresh c disk (after @ CallDispatch key m out # before) \<Longrightarrow> claimed_from c key (disk_after c disk before) m"
proof (induction after)
  case (Cons x after)
  then show ?case by (cases x) auto
qed simp

lemma interrupt_traced: "interrupt_one c rc entry s = (r, t) \<Longrightarrow> traced c disk s \<Longrightarrow> traced c disk t"
  by (auto simp: interrupt_one_def call_interrupt_def traced_def elim!: bindT_cases split: if_splits)

lemma settle_disk:
  assumes "settle_dispatch c key out s = (r, t)"
  shows "on_disk t = settled_disk c key out (on_disk s)"
  using assms
  by (auto simp: settle_dispatch_def settled_disk_def fail_dispatch_def note_launch_keeps Let_def
      split: outcome.splits if_splits sum.splits prod.splits)

lemma dispatch_traced:
  assumes "dispatch_one c rc stories key s = (r, t)" "traced c disk s"
  shows "traced c disk t"
proof (cases "t = s")
  case False
  with assms(1) obtain b m where
    m: "claim_fresh c key (on_disk s) = Inr (Some m)" "perform_dispatch c key b m s = (r, t)"
    by (auto simp: dispatch_one_def split: if_splits sum.splits bool.splits option.splits)
  obtain d out where d: "dispatch c (length (calls s)) key m = (d, out)"
    by (cases "dispatch c (length (calls s)) key m")
  let ?u = "s\<lparr>on_disk := d, free_slots := free_slots s - (if b then 1 else 0),
      calls := calls s @ [CallDispatch key m out]\<rparr>"
  from m(2) d have s: "settle_dispatch c key out ?u = (r, t)"
    by (simp add: perform_dispatch_def call_dispatch_def)
  have "calls t = calls s @ [CallDispatch key m out]"
    using settle_keeps [OF s] by simp
  moreover have "on_disk t = settled_disk c key out d"
    using settle_disk [OF s] by simp
  ultimately show ?thesis
    using assms(2) d claim_fresh_from [OF m(1)] by (simp add: traced_def)
qed (use assms(2) in simp)

lemma run_tick_traced:
  assumes "run_tick c m ready s = (r, t)" "calls s = []"
  shows "traced c (adjudicate c (on_disk s)) t"
proof -
  let ?disk = "adjudicate c (on_disk s)"
  have start: "traced c ?disk (s\<lparr>on_disk := ?disk\<rparr>)" using assms(2) by (simp add: traced_def)
  have int: "traced c ?disk w" if "loopT (interrupt_one c rc) stories (s\<lparr>on_disk := ?disk\<rparr>) = (q, w)" for rc stories q w
    by (rule loopT_invariant [where P = "traced c ?disk", OF _ start that]) (rule interrupt_traced)
  have slots: "traced c ?disk (w\<lparr>free_slots := n\<rparr>) = traced c ?disk w" for w n
    by (simp add: traced_def)
  have loop: "traced c ?disk v" if "loopT (dispatch_one c rc stories) ready (w\<lparr>free_slots := n\<rparr>) = (q, v)"
    "traced c ?disk w" for rc stories w n q v
    by (rule loopT_invariant [where P = "traced c ?disk", OF _ _ that(1)])
      (use that(2) slots dispatch_traced in auto)
  show ?thesis
    using assms(1) start unfolding run_tick_def
    by (elim bindT_cases) (auto dest: int loop)
qed

subsection \<open>Plans without work\<close>

lemma running_live: "running v = Inr True \<Longrightarrow> live_agent v"
  by (auto simp: running_def live_agent_def subscript_def the_dict_def dgetN_def okE
      split: pyval.splits option.splits if_splits)

lemma done_not_running: "story_done v \<Longrightarrow> running v \<noteq> Inr True"
  by (auto simp: story_done_def running_def subscript_def dgetN_def okE
      split: pyval.splits option.splits if_splits)

lemma done_not_ready: "story_done v \<Longrightarrow> is_ready neigh fin v = Inr r \<Longrightarrow> \<not> r"
  by (auto simp: story_done_def is_ready_def subscript_def dgetN_def okE eligible_def ELIGIBLE_def
      split: pyval.splits option.splits if_splits)

lemma loop_no_calls:
  assumes "\<And>x s r t. x \<in> set xs \<Longrightarrow> f x s = (r, t) \<Longrightarrow> calls t = calls s"
    and "loopT f xs s = (r, t)"
  shows "calls t = calls s"
  by (rule loopT_invariant [where P = "\<lambda>v. calls v = calls s", OF _ _ assms(2)])
    (use assms(1) in auto)

lemma pause_no_calls:
  "running (snd x) \<noteq> Inr True \<Longrightarrow> pause_one c x s = (r, t) \<Longrightarrow> calls t = calls s"
  by (auto simp: pause_one_def elim!: bindT_cases split: if_splits)

lemma interrupt_no_calls:
  "running (snd x) \<noteq> Inr True \<Longrightarrow> interrupt_one c rc x s = (r, t) \<Longrightarrow> calls t = calls s"
  by (auto simp: interrupt_one_def elim!: bindT_cases split: if_splits)

lemma done_none_ready:
  assumes "ready_stories neigh stories = Inr ready" "list_all story_done (map snd stories)"
  shows "ready = []"
proof -
  from assms(1) obtain fin ks where
    k: "mapE (\<lambda>(k, v). bindE (is_ready neigh fin v) (\<lambda>r. Inr (if r then [k] else []))) stories = Inr ks"
      "ready = concat ks"
    by (auto simp: ready_stories_def okE)
  have "concat ks = []"
    using k(1) assms(2)
  proof (induction stories arbitrary: ks)
    case (Cons x stories)
    then show ?case by (cases x) (fastforce simp: okE dest: done_not_ready)
  qed simp
  with k(2) show ?thesis by simp
qed

lemma run_tick_no_calls:
  assumes "run_tick c m [] s = (r, t)" "stories_of m = Inr stories"
    and "\<forall>v \<in> snd ` set stories. running v \<noteq> Inr True"
  shows "calls t = calls s"
proof -
  have i: "calls w = calls u" if "loopT (interrupt_one c rc) stories u = (q, w)" for rc u q w
    by (rule loop_no_calls [OF _ that]) (use assms(3) interrupt_no_calls in blast)
  show ?thesis
    using assms(1,2) unfolding run_tick_def by (auto elim!: bindT_cases dest!: i)
qed

subsection \<open>Failed dispatches\<close>

definition failures_of :: "tick_config \<Rightarrow> string \<Rightarrow> string list \<Rightarrow> pydict \<Rightarrow> tick_exn + pydict" where
  "failures_of c key es m = foldE (\<lambda>e m. bindE (settle_failure c key e m) (\<lambda>(_, m'). Inr m')) es m"

definition story_at :: "pydict \<Rightarrow> string \<Rightarrow> pydict option" where
  "story_at m key =
     (case dgetN m ''stories'' of
        PDict ss \<Rightarrow> (case dget ss key of Some (PDict st) \<Rightarrow> Some st | _ \<Rightarrow> None)
      | _ \<Rightarrow> None)"

lemma story_at_put:
  assumes "dgetN m ''stories'' = PDict stories"
  shows "story_at (put_story key st stories m) k = (if k = key then Some st else story_at m k)"
  using assms by (auto simp: story_at_def put_story_def dgetN_def)

lemma story_atE:
  assumes "story_at m key = Some st"
  obtains stories where "dgetN m ''stories'' = PDict stories" "dget stories key = Some (PDict st)"
    "fresh_story key m = Inr (stories, st)"
proof -
  from assms obtain stories where
    s: "dgetN m ''stories'' = PDict stories" "dget stories key = Some (PDict st)"
    by (auto simp: story_at_def split: pyval.splits option.splits)
  then have "fresh_story key m = Inr (stories, st)"
    by (auto simp: fresh_story_def subscript_def the_dict_def dgetN_def split: option.splits)
  with s that show thesis by blast
qed

lemma settle_failure_at:
  assumes "story_at m key = Some st" "dget_or st ''dispatch_attempts'' (PInt 0) = PInt n"
  shows "\<exists>m' st'. settle_failure c key e m = Inr (max_attempts c \<le> n + 1, m') \<and>
    story_at m' key = Some st' \<and> (\<forall>k. k \<noteq> key \<longrightarrow> story_at m' k = story_at m k) \<and>
    dgetN st' ''dispatch_attempts'' = PInt (n + 1) \<and>
    dget st' ''dispatch_lease_expires_at'' = None \<and> dget st' ''dispatch_lease_owner_pid'' = None \<and>
    dgetN st' ''status'' = (if max_attempts c \<le> n + 1 then PStr ''failed'' else dgetN st ''status'')"
proof -
  from story_atE [OF assms(1)] obtain stories where
    s: "dgetN m ''stories'' = PDict stories" "fresh_story key m = Inr (stories, st)" by blast
  have a: "dget_or (clear_lease st) ''dispatch_attempts'' (PInt 0) = PInt n"
    using assms(2) by (simp add: dget_or_def clear_lease_def)
  let ?st = "dset ''dispatch_attempts'' (PInt (n + 1)) (clear_lease st)"
  let ?st' = "if max_attempts c \<le> n + 1
    then dset ''dispatch_error'' (PStr e) (dset ''status'' (PStr ''failed'') ?st) else ?st"
  have "settle_failure c key e m = Inr (max_attempts c \<le> n + 1, put_story key ?st' stories m)"
    by (simp add: settle_failure_def s(2) a attempts_used_up_def)
  moreover have "dgetN ?st' ''status'' = (if max_attempts c \<le> n + 1 then PStr ''failed'' else dgetN st ''status'')"
    by (simp add: dgetN_def clear_lease_def)
  ultimately show ?thesis
    by (intro exI conjI) (auto simp: story_at_put [OF s(1)] dgetN_def clear_lease_def)
qed

lemma failures_of_at:
  assumes "story_at m key = Some st" "dget_or st ''dispatch_attempts'' (PInt 0) = PInt n" "es \<noteq> []"
  shows "\<exists>m' st'. failures_of c key es m = Inr m' \<and> story_at m' key = Some st' \<and>
    (\<forall>k. k \<noteq> key \<longrightarrow> story_at m' k = story_at m k) \<and>
    dgetN st' ''dispatch_attempts'' = PInt (n + int (length es)) \<and>
    dget st' ''dispatch_lease_expires_at'' = None \<and> dget st' ''dispatch_lease_owner_pid'' = None \<and>
    dgetN st' ''status'' =
      (if max_attempts c \<le> n + int (length es) then PStr ''failed'' else dgetN st ''status'')"
  using assms
proof (induction es arbitrary: m st n)
  case (Cons e es)
  from settle_failure_at [OF Cons.prems(1,2), of c e] obtain m1 st1 where
    f: "settle_failure c key e m = Inr (max_attempts c \<le> n + 1, m1)" "story_at m1 key = Some st1"
      "\<forall>k. k \<noteq> key \<longrightarrow> story_at m1 k = story_at m k" "dgetN st1 ''dispatch_attempts'' = PInt (n + 1)"
      "dget st1 ''dispatch_lease_expires_at'' = None" "dget st1 ''dispatch_lease_owner_pid'' = None"
      "dgetN st1 ''status'' = (if max_attempts c \<le> n + 1 then PStr ''failed'' else dgetN st ''status'')"
    by blast
  show ?case
  proof (cases "es = []")
    case True
    with f show ?thesis by (simp add: failures_of_def)
  next
    case False
    have "dget_or st1 ''dispatch_attempts'' (PInt 0) = PInt (n + 1)"
      using f(4) by (auto simp: dgetN_def dget_or_def split: option.splits)
    from Cons.IH [OF f(2) this False] f show ?thesis
      by (auto simp: failures_of_def add.assoc)
  qed
qed simp

text \<open>
  A dispatch that succeeded while a re-ingest dropped the story aborts the tick with a
  \<open>KeyError\<close>, after the agent was launched.
\<close>

lemma dropped_story_aborts_tick:
  assumes "dispatch c (length (calls s)) key m = (d, Returned v)" "\<not> refused v"
    and "dgetN d ''stories'' = PDict stories" "key \<notin> set (dkeys stories)"
  shows "fst (perform_dispatch c key b m s) = Inl TickKeyError"
proof -
  have "dget stories key = None" using assms(4) by (simp add: dget_def dkeys_def map_of_eq_None_iff)
  moreover obtain w where "dget d ''stories'' = Some w" "w = PDict stories"
    using assms(3) by (auto simp: dgetN_def split: option.splits)
  ultimately show ?thesis
    using assms(1,2) by (simp add: perform_dispatch_def call_dispatch_def settle_dispatch_def
        settle_success_def fresh_story_def subscript_def the_dict_def note_launch_keeps Let_def)
qed

text \<open>Settling a dispatch drops whatever lease the story carries, also another process's.\<close>

lemma foreign_lease_dropped:
  assumes "story_at m key = Some st"
  shows "\<exists>m'. settle_success key m = Inr m' \<and> story_at m' key = Some (clear_lease st)"
proof -
  from story_atE [OF assms] obtain stories where
    "dgetN m ''stories'' = PDict stories" "fresh_story key m = Inr (stories, st)" by blast
  then show ?thesis by (simp add: settle_success_def story_at_put)
qed

text \<open>
  An on-device story under memory pressure is neither interrupted nor polled, so a finished agent
  is not graded as long as the pressure lasts.
\<close>

lemma memory_pressure_strands_story:
  assumes "route c story rc = Inr (bk, PNone)" "bk \<noteq> ''claude''" "dgetN story ''model'' = PStr tag"
    and "tag \<noteq> []" "\<not> ends_with tag '':cloud''"
    and "resource c bk (Some (PStr tag)) =
      Inr [(''ok'', PBool False), (''reason'', PStr LOW_MEMORY)]"
  shows "interrupts c rc story = Inr False \<and> polls c rc story = Inr False"
proof -
  have "has_infix LOW_MEMORY LOW_MEMORY" by (simp add: LOW_MEMORY_def starts_with_def)
  then show ?thesis
    using assms by (simp add: interrupts_def polls_def py_or_def cloud_tag_def status_ok_def
        dget_or_def dgetN_def low_memory_reason_def LOW_MEMORY_def Let_def)
qed

subsection \<open>Properties\<close>

text \<open>
  C11: Every dispatch of a tick happens for a plan that is neither paused nor unapproved nor in dry
  run, for a story whose dependencies are done and whose blockers are released at the start of the
  tick, and with a manifest that comes from the one on disk at that moment, after everything the earlier
  calls of the tick left there: the story's record in it was still eligible and under no live lease, and
  this process's lease has been written into that record and into nothing else.
\<close>

theorem dispatches_are_guarded:
  assumes "tick c plan announced (Some m) (tick_start m) = (r, t)"
    and "calls t = before @ CallDispatch key d out # after"
  shows "\<not> truthy (dgetN m ''paused'') \<and> is_activatable (t_env c) m = Inr True \<and>
    autonomy c \<noteq> ''dry-run'' \<and>
    claimed_from c key (disk_after c (adjudicate c m) (rev before)) d \<and>
    (\<exists>stories ready. stories_of m = Inr stories \<and>
       ready_stories (neighbours c) stories = Inr ready \<and> key \<in> set ready)"
proof -
  from assms(2) have f: "CallDispatch key d out \<in> set (filter is_dispatch (calls t))"
    by (simp add: is_dispatch_def)
  then have some: "filter is_dispatch (calls t) \<noteq> []" by (metis empty_iff list.set(1))
  from tick_reaches [OF assms(1) this] obtain stories ready w cs where
    t: "stories_of m = Inr stories" "\<not> truthy (dgetN m ''paused'')" "is_activatable (t_env c) m = Inr True"
      "autonomy c \<noteq> ''dry-run''" "ready_stories (neighbours c) stories = Inr ready"
      "loop_ok c stories ready w cs t" "filter is_dispatch (calls t) = cs" by metis
  from t(6,7) f have "key \<in> set ready" by (auto simp: loop_ok_def)
  moreover have "claimed_from c key (disk_after c (adjudicate c m) (rev before)) d"
  proof -
    from tick_runs [OF assms(1) some] obtain ready' where "run_tick c m ready' (tick_start m) = (r, t)" .
    from run_tick_traced [OF this] have "traced c (adjudicate c m) t" by (simp add: tick_start_def)
    then show ?thesis
      using assms(2) claims_fresh_at [of c "adjudicate c m" "rev after" key d out "rev before"] by (simp add: traced_def)
  qed
  ultimately show ?thesis using t by auto
qed

text \<open>
  C21: A tick dispatches no story twice, launches at most the configured number of dispatches, and
  calls at most as many dispatches that take an on-device slot as were free when it counted the
  running agents of the whole fleet.
\<close>

theorem dispatches_are_bounded:
  assumes "tick c plan announced (Some m) (tick_start m) = (r, t)"
    and "stories_of m = Inr stories" "wf_dict stories"
  shows "distinct (map call_key (filter is_dispatch (calls t))) \<and>
    (0 < max_per_tick c \<longrightarrow>
      int (length (filter counted_call (calls t))) \<le> max_per_tick c) \<and>
    (0 < max_agents c \<longrightarrow> filter is_dispatch (calls t) \<noteq> [] \<longrightarrow>
      (\<exists>n. count_on_device (t_os c) (fleet c) = Inr n \<and>
        slot_calls c stories (filter is_dispatch (calls t)) \<le> max 0 (max_agents c - n)))"
proof (cases "filter is_dispatch (calls t) = []")
  case True
  then have "filter counted_call (calls t) = []"
    using counted_is_dispatch by (auto simp: filter_empty_conv)
  with True show ?thesis by simp
next
  case False
  from tick_reaches [OF assms(1) False] assms(2) obtain ready w cs free where
    t: "ready_stories (neighbours c) stories = Inr ready" "loop_ok c stories ready w cs t"
      "filter is_dispatch (calls t) = cs" "launched w = 0" "free_slots w = free"
      "(if capped c then bindE (count_on_device (t_os c) (fleet c)) (\<lambda>n. Inr (max 0 (max_agents c - n)))
        else Inr 0) = (Inr free :: tick_exn + int)"
    by (metis sum.inject(2))
  have counted: "filter counted_call (calls t) = filter counted_call cs"
    unfolding t(3) [symmetric] filter_filter
    by (rule filter_cong) (auto dest: counted_is_dispatch)
  have "distinct ready" using ready_keys [OF t(1)] assms(3) by simp
  moreover have "0 \<le> free" using t(6) by (auto simp: okE split: if_splits)
  ultimately show ?thesis
    using t counted unfolding loop_ok_def by (auto simp: capped_def okE)
qed

text \<open>
  A plan the reconcile pass skips as inert has nothing to do: an advance of it would interrupt
  and dispatch nothing.
\<close>

lemma inert_plans_have_no_work:
  assumes "is_inert (t_env c) (PDict m)"
    and "tick c plan announced (Some m) (tick_start m) = (r, t)"
  shows "calls t = []"
proof -
  have s: "calls (tick_start m) = []" by (simp add: tick_start_def)
  from assms(1) obtain stories where st: "dgetN m ''stories'' = PDict stories"
    "(if truthy (dgetN m ''paused'') then \<not> has_live_agent stories
      else (case is_activatable (t_env c) m of Inl e \<Rightarrow> False
            | Inr ok \<Rightarrow> if \<not> ok then True else list_all story_done (map snd stories)))"
    by (auto simp: is_inert_def split: pyval.splits if_splits)
  then have sub: "subscript (PDict m) ''stories'' = Inr (PDict stories)" "stories_of m = Inr stories"
    by (auto simp: subscript_def dgetN_def stories_of_def the_dict_def split: option.splits)
  show ?thesis
  proof (cases "truthy (dgetN m ''paused'')")
    case True
    with st(2) have n: "\<forall>v \<in> snd ` set stories. running v \<noteq> Inr True"
      by (auto simp: has_live_agent_def list_ex_iff dest: running_live)
    have p: "calls w = calls u" if "loopT (pause_one c) stories u = (q, w)" for u q w
      by (rule loop_no_calls [OF _ that]) (use n pause_no_calls in blast)
    from assms(2) True show ?thesis
      using s by (auto simp: tick_def sub the_dict_def elim!: bindT_cases dest!: p)
  next
    case False
    show ?thesis
    proof (cases "is_activatable (t_env c) m = Inr True")
      case True
      with st(2) False have d: "list_all story_done (map snd stories)" by simp
      then have n: "\<forall>v \<in> snd ` set stories. running v \<noteq> Inr True"
        by (auto simp: list_all_iff dest: done_not_running)
      have r: "calls t = calls (tick_start m)"
        if "run_tick c m ready (tick_start m) = (r, t)" "ready_stories neigh stories = Inr ready"
        for ready neigh
        using that run_tick_no_calls [OF _ sub(2) n] done_none_ready [OF that(2) d] by blast
      have "calls t = calls (tick_start m)"
        using assms(2) False True
        by (auto simp: tick_def sub the_dict_def mapL_def elim!: bindT_cases split: if_splits)
          (metis r)
      with s show ?thesis by simp
    next
      case act: False
      with assms(2) False s show ?thesis
        by (auto simp: tick_def sub mapL_def elim!: bindT_cases split: if_splits sum.splits)
    qed
  qed
qed

text \<open>
  C33: After any positive number of failed dispatches in a row, a story without earlier attempts
  carries no lease, counts exactly that many attempts and is \<open>failed\<close> from the configured attempt
  on and as eligible as before until then; no other story is touched.
\<close>

theorem dispatch_retries_are_bounded:
  assumes "story_at m key = Some st" "dget st ''dispatch_attempts'' = None" "es \<noteq> []"
  shows "\<exists>m' st'. failures_of c key es m = Inr m' \<and> story_at m' key = Some st' \<and>
    (\<forall>k. k \<noteq> key \<longrightarrow> story_at m' k = story_at m k) \<and>
    dgetN st' ''dispatch_attempts'' = PInt (int (length es)) \<and>
    lease_is_live w now st' = Inr False \<and>
    dgetN st' ''status'' =
      (if max_attempts c \<le> int (length es) then PStr ''failed'' else dgetN st ''status'')"
proof -
  have "dget_or st ''dispatch_attempts'' (PInt 0) = PInt 0" using assms(2) by (simp add: dget_or_def)
  from failures_of_at [OF assms(1) this assms(3), of c] show ?thesis
    by (auto simp: lease_is_live_def dgetN_def)
qed

definition demo_config :: tick_config where
  "demo_config =
     \<lparr>t_env = [], t_os = demo_os, t_now = (\<lambda>_. 0), t_pid = 7, autonomy = ''auto'', max_agents = 1,
      max_per_tick = 1, max_attempts = 3, neighbours = [], fleet = [],
      dispatch_gate = (True, []), review_gate = (True, []),
      route = (\<lambda>_ _. Inr (''local'', PNone)), resource = (\<lambda>_ _. Inr []),
      adjudicate = (\<lambda>m. m), interrupt = (\<lambda>_ m. m),
      dispatch = (\<lambda>_ _ m. (m, Returned (PDict [(''ok'', PBool True)]))), show_value = (\<lambda>_. [])\<rparr>"

definition demo_plan :: pydict where
  "demo_plan = [(''stories'', PDict [(''k'', PDict [(''status'', PStr ''todo'')])])]"

definition demo_leased :: pydict where
  "demo_leased = [(''stories'', PDict [(''k'', PDict
     [(''status'', PStr ''todo''), (''dispatch_lease_expires_at'', PStr ''b''),
      (''dispatch_lease_owner_pid'', PInt 7)])])]"

definition demo_after :: tick_state where
  "demo_after = (tick_start demo_plan)\<lparr>
     calls := [CallDispatch ''k'' demo_leased (Returned (PDict [(''ok'', PBool True)]))],
     launched := 1, s_dispatched := [''k'']\<rparr>"

lemma demo_stories: "stories_of demo_plan = Inr [(''k'', PDict [(''status'', PStr ''todo'')])]"
  by (simp add: stories_of_def subscript_def the_dict_def demo_plan_def)

lemma demo_ready:
  "ready_stories [] [(''k'', PDict [(''status'', PStr ''todo'')])] = Inr [''k'']"
  by (simp add: ready_stories_def completed_dep_ids_def subscript_def is_ready_def the_dict_def
      deps_done_def elements_def mapL_def eligible_def ELIGIBLE_def blocked_by_gaps_def
      blocked_refs_def dgetN_def)

lemma demo_claim: "claim_fresh demo_config ''k'' demo_plan = Inr (Some demo_leased)"
  by (simp add: claim_fresh_def stories_of_def subscript_def the_dict_def demo_plan_def dgetN_def
      eligible_def ELIGIBLE_def mapL_def claim_dispatch_lease_def lease_ttl_def validated_ttl_def
      DEFAULT_TTL_def MAX_TTL_def lease_is_live_def demo_config_def demo_os_def with_lease_def
      put_story_def demo_leased_def dset_def)

lemma demo_dispatch:
  "dispatch_one demo_config PNone [(''k'', PDict [(''status'', PStr ''todo'')])] ''k''
     ((tick_start demo_plan)\<lparr>free_slots := 1\<rparr>) = (Inr True, demo_after)"
proof -
  have s: "settle_success ''k'' demo_leased = Inr demo_plan"
    by (simp add: settle_success_def fresh_story_def subscript_def the_dict_def demo_leased_def
        clear_lease_def dpop_def put_story_def dset_def demo_plan_def)
  have "dispatch demo_config n ''k'' m = (m, Returned (PDict [(''ok'', PBool True)]))"
    "max_per_tick demo_config = 1" "max_agents demo_config = 1" for n m
    by (simp_all add: demo_config_def)
  then have p: "perform_dispatch demo_config ''k'' True demo_leased ((tick_start demo_plan)\<lparr>free_slots := 1\<rparr>) =
      (Inr True, demo_after)"
    by (simp add: perform_dispatch_def call_dispatch_def settle_dispatch_def refused_def
        note_launch_def dgetN_def tick_start_def demo_after_def s)
  have o: "on_disk ((tick_start demo_plan)\<lparr>free_slots := 1\<rparr>) = demo_plan"
    "launched ((tick_start demo_plan)\<lparr>free_slots := 1\<rparr>) = 0"
    "free_slots ((tick_start demo_plan)\<lparr>free_slots := 1\<rparr>) = 1"
    by (simp_all add: tick_start_def)
  have g: "bindE (route demo_config st PNone) (gate_passes demo_config st) = Inr True" for st
    by (simp add: demo_config_def gate_passes_def status_ok_def dget_or_def Let_def)
  show ?thesis
    unfolding dispatch_one_def
    by (simp add: o p g demo_claim subscript_def the_dict_def story_dispatch_is_on_device_def
        cloud_tag_def py_or_def dgetN_def has_live_test_author_phase_def capped_def
        \<open>max_agents demo_config = 1\<close> \<open>max_per_tick demo_config = 1\<close>)
qed

lemma demo_tick: "tick demo_config ''p'' [] (Some demo_plan) (tick_start demo_plan) = (Inr Ran, demo_after)"
proof -
  let ?ss = "[(''k'', PDict [(''status'', PStr ''todo'')])]"
  have c: "t_env demo_config = []" "neighbours demo_config = []" "autonomy demo_config = ''auto''"
    "fleet demo_config = []" "max_agents demo_config = 1" "adjudicate demo_config m = m" for m
    by (simp_all add: demo_config_def)
  have i: "loopT (interrupt_one demo_config PNone) ?ss s = (Inr (), s)" for s
    by (simp add: interrupt_one_def running_def subscript_def bindT_def)
  have w: "warn_file_overlaps ''p'' ?ss [''k''] [] [] = Inr ([], [])"
    by (simp add: warn_file_overlaps_def in_flight_stories_def mapL_def subscript_def the_dict_def
        file_overlaps_def dgetN_def)
  have "run_tick demo_config demo_plan [''k''] (tick_start demo_plan) = (Inr Ran, demo_after)"
  proof -
    have "dgetN demo_plan ''role_config'' = PNone" by (simp add: demo_plan_def dgetN_def)
    moreover have d: "loopT (dispatch_one demo_config PNone ?ss) [''k'']
        ((tick_start demo_plan)\<lparr>free_slots := 1\<rparr>) = (Inr (), demo_after)"
      by (simp add: demo_dispatch)
    moreover have "(tick_start demo_plan)\<lparr>on_disk := on_disk (tick_start demo_plan)\<rparr> = tick_start demo_plan"
      by (simp add: tick_start_def)
    ultimately show ?thesis
      unfolding run_tick_def
      by (simp add: bindT_def demo_stories i d c capped_def count_on_device_def del: loopT.simps)
  qed
  moreover have "subscript (PDict demo_plan) ''stories'' = Inr (PDict ?ss)"
    "dgetN demo_plan ''paused'' = PNone"
    by (simp_all add: subscript_def demo_plan_def dgetN_def)
  ultimately show ?thesis
    by (simp add: tick_def bindT_def the_dict_def c is_activatable_def approval_enabled_def
        mapL_def demo_ready w)
qed

theorem dispatches_are_guarded_witness: "claimed_from demo_config ''k'' demo_plan demo_leased"
  using dispatches_are_guarded [OF demo_tick, of "[]" "''k''" demo_leased
      "Returned (PDict [(''ok'', PBool True)])" "[]"] by (simp add: demo_after_def demo_config_def)

theorem dispatches_are_bounded_witness:
  "slot_calls demo_config [(''k'', PDict [(''status'', PStr ''todo'')])]
     [CallDispatch ''k'' demo_leased (Returned (PDict [(''ok'', PBool True)]))] \<le> 1"
proof -
  have "wf_dict [(''k'', PDict [(''status'', PStr ''todo'')])]" by (simp add: wf_dict_def)
  from dispatches_are_bounded [OF demo_tick demo_stories this] show ?thesis
    by (simp add: demo_after_def is_dispatch_def demo_config_def count_on_device_def)
qed

lemma inert_plans_have_no_work_witness:
  "calls (snd (tick demo_config ''p'' [] (Some ((''paused'', PBool True) # demo_plan))
     (tick_start ((''paused'', PBool True) # demo_plan)))) = []"
proof -
  let ?m = "(''paused'', PBool True) # demo_plan"
  have "is_inert (t_env demo_config) (PDict ?m)"
    by (simp add: is_inert_def demo_plan_def dgetN_def has_live_agent_def live_agent_def)
  from inert_plans_have_no_work [OF this] show ?thesis by (metis prod.collapse)
qed

theorem dispatch_retries_are_bounded_witness:
  "\<exists>m' st'. failures_of demo_config ''k'' [''e'', ''e'', ''e''] demo_plan = Inr m' \<and>
     story_at m' ''k'' = Some st' \<and> dgetN st' ''status'' = PStr ''failed''"
proof -
  have "story_at demo_plan ''k'' = Some [(''status'', PStr ''todo'')]"
    by (simp add: story_at_def demo_plan_def dgetN_def)
  from dispatch_retries_are_bounded [OF this, of "[''e'', ''e'', ''e'']" demo_config demo_os 0]
  show ?thesis by (auto simp: demo_config_def)
qed

end
