(* ===== verification/MergeGate.thy ===== *)
theory MergeGate
  imports MergeReverify AdvanceTick
begin

text \<open>
  The merge phase of a tick: \<open>_adjudicate_merges\<close>, \<open>_readjudicate_parked_merge_hold\<close> and
  \<open>_merge_reverify_gate\<close> of \<open>src/pipeline/advance_merge.py\<close>, with \<open>_merge_decision\<close>,
  \<open>_adjudicate_high_risk_merge\<close> and \<open>_rebase_and_push_for_merge\<close> of \<open>src/pipeline/merge.py\<close>,
  \<open>deny\<close> of \<open>review_merge_binding.py\<close>, \<open>prepare_merge\<close> of \<open>forge_github.py\<close> and the branch names of
  \<open>branch_names.py\<close> and \<open>pr.py\<close>.  A story is its manifest record, every step returns it updated, and
  the calls that reach git, the code host, the overlord, the operator or the summary are logged in
  order.  What the outside answers during one pass over one story is a \<open>merge_world\<close>.
\<close>

datatype merge_call =
    Gathered string                 \<comment> \<open>CI evidence asked for a branch\<close>
  | AskedOverlord string
  | LoggedRuling string string pyval pyval
  | ProbedTip string pyval
  | Denied string string string
  | Pushed string
  | PolledCi string string string   \<comment> \<open>branch, commit, state\<close>
  | Reran string
  | Job job_call
  | CalledMerge string string
  | Noticed string
  | Summarised string string
  | CountedResult string
  | MarkedDone string
  | RecordedRetro nat
  | SavedManifest pydict

record merge_world =
  mw_jobs :: job_world
  mw_checkout :: checkout
  mw_autonomy :: string
  mw_auto_merge :: bool
  mw_threshold :: string
  mw_max_attempts :: int
  mw_ci_gate :: bool
  mw_ci_timeout :: int
  mw_hosts :: "nat \<Rightarrow> code_host"
  mw_poll_error :: "nat \<Rightarrow> gate_exn option"
  mw_fetch :: "int option"
  mw_rev_parse :: "string \<Rightarrow> (int \<times> string) option"
  mw_head_name :: "string \<Rightarrow> (int \<times> string) option"
  mw_head_out :: "string \<Rightarrow> string option"
  mw_rebase :: "string \<Rightarrow> string \<Rightarrow> bool \<times> string \<times> bool"
  mw_push :: "string \<Rightarrow> int \<times> string"
  mw_overlord :: "pydict \<Rightarrow> string option"
  mw_merge_pr :: "string \<Rightarrow> string option"
  mw_self_touched :: bool
  mw_default_branch :: string
  mw_float :: "string \<Rightarrow> pyfloat option"
  mw_show :: "pyval \<Rightarrow> string"
  mw_message :: "gate_exn \<Rightarrow> string"
  mw_self_repo :: string

abbreviation mw_env :: "merge_world \<Rightarrow> env" where
  "mw_env w \<equiv> jw_env (mw_jobs w)"

abbreviation mw_now :: "merge_world \<Rightarrow> string" where
  "mw_now w \<equiv> jw_now (mw_jobs w)"

abbreviation mw_dirs :: "merge_world \<Rightarrow> string \<Rightarrow> bool" where
  "mw_dirs w \<equiv> jw_dirs (mw_jobs w)"

type_synonym 'a gated = "(merge_call, gate_exn, 'a) logged"

subsection \<open>Branch names\<close>

definition namespace_ok :: "string \<Rightarrow> bool" where
  "namespace_ok n =
     (n \<noteq> [] \<and> length n \<le> 32 \<and> hd n \<noteq> CHR ''-'' \<and>
      list_all (\<lambda>c. is_lower c \<or> is_digit c \<or> c = CHR ''-'') n)"

definition story_branch :: "env \<Rightarrow> string \<Rightarrow> gate_exn + string" where
  "story_branch env story_key =
     (let key = lower story_key; namespace = env_get env ''PIPELINE_BRANCH_NAMESPACE'' in
      if namespace = [] then Inr (''agent/'' @ key)
      else if \<not> namespace_ok namespace \<or> key = namespace then Inl (GateRaised ''ValueError'')
      else Inr (''agent/'' @ namespace @ ''/'' @ key))"

definition resolve_story_branch :: "merge_world \<Rightarrow> string \<Rightarrow> string \<Rightarrow> gate_exn + string" where
  "resolve_story_branch w worktree key =
     bindE (story_branch (mw_env w) key) (\<lambda>convention.
     Inr (case mw_head_name w worktree of
            Some (code, out) \<Rightarrow>
              let head = strip out in
              if code = 0 \<and> starts_with head (convention @ ''-'') then head else convention
          | None \<Rightarrow> convention))"

text \<open>The branch of a story that has a worktree, otherwise none.\<close>

definition worktree_branch :: "merge_world \<Rightarrow> pydict \<Rightarrow> string \<Rightarrow> gate_exn + string" where
  "worktree_branch w story key =
     (let worktree = dget_or story ''worktree'' (PStr []) in
      if \<not> truthy worktree then Inr []
      else bindE (path_is_dir (mw_dirs w) worktree) (\<lambda>is_dir.
        if is_dir then resolve_story_branch w (the_str worktree) key else Inr []))"

definition poll :: "merge_world \<Rightarrow> nat \<Rightarrow> string \<Rightarrow> string \<Rightarrow> gate_exn + ci_result" where
  "poll w n branch sha =
     (case mw_poll_error w n of
        Some e \<Rightarrow> Inl e
      | None \<Rightarrow> Inr (ci_status_once (mw_ci_gate w) (mw_hosts w n) branch sha))"

subsection \<open>The decision\<close>

datatype ruling = Land string | Park string

fun risk_order :: "string \<Rightarrow> nat option" where
  "risk_order s =
     (if s = ''low'' then Some 0 else if s = ''medium'' then Some 1 else if s = ''high'' then Some 2 else None)"

declare risk_order.simps [simp del]

definition risk_rank :: "pydict \<Rightarrow> gate_exn + nat" where
  "risk_rank story =
     (let v = dgetN story ''risk'' in
      with_str (if truthy v then v else PStr ''low'') GateAttributeError (\<lambda>s.
        Inr (case risk_order (lower s) of Some n \<Rightarrow> n | None \<Rightarrow> 2)))"

definition HOLD :: string where
  "HOLD = ''high risk held for human review''"

text \<open>One field of the overlord's reply; the last line that carries it counts.\<close>

definition field_line :: "string \<Rightarrow> string \<Rightarrow> string option" where
  "field_line name line =
     (let s = lstrip line in
      if starts_with s name then
        (let r = lstrip (drop (length name) s) in
         if starts_with r '':'' then Some (strip (tl r)) else None)
      else None)"

definition reply_field :: "string \<Rightarrow> string \<Rightarrow> string" where
  "reply_field name raw =
     (case List.map_filter (field_line name) (splitlines raw) of [] \<Rightarrow> [] | vs \<Rightarrow> last vs)"

definition parse_merge_ruling :: "string \<Rightarrow> (string \<times> string) option" where
  "parse_merge_ruling raw =
     (let r = lower (strip (reply_field ''RULING'' raw)) in
      if r \<noteq> ''proceed'' \<and> r \<noteq> ''park'' then None else Some (r, reply_field ''RATIONALE'' raw))"

text \<open>\<open>_populate_pr_checks_once\<close>: every exception is caught and recorded on the story.\<close>

definition gather_branch :: "merge_world \<Rightarrow> pydict \<Rightarrow> string \<Rightarrow> gate_exn + string" where
  "gather_branch w story key =
     bindE (story_branch (mw_env w) key) (\<lambda>convention.
     bindE (worktree_branch w story key) (\<lambda>b. Inr (if b = [] then convention else b)))"

definition populate_pr_checks_once :: "merge_world \<Rightarrow> string \<Rightarrow> pydict \<Rightarrow> merge_call list \<times> pydict" where
  "populate_pr_checks_once w key story =
     (if truthy (dgetN story ''pr_checks'') then ([], dpop ''pr_checks_error'' story)
      else (case gather_branch w story key of
              Inl e \<Rightarrow> ([], dset ''pr_checks_error'' (PStr (take 200 (exn_name e @ '': '' @ mw_message w e))) story)
            | Inr branch \<Rightarrow>
                (case poll w 0 branch [] of
                   Inl e \<Rightarrow> ([Gathered branch], dset ''pr_checks_error'' (PStr (take 200 (exn_name e @ '': '' @ mw_message w e))) story)
                 | Inr checks \<Rightarrow> ([Gathered branch], dpop ''pr_checks_error'' (dset ''pr_checks'' (ci_val checks) story)))))"

definition adjudicate_high_risk_merge :: "merge_world \<Rightarrow> string \<Rightarrow> pydict \<Rightarrow> (pydict \<times> ruling) gated" where
  "adjudicate_high_risk_merge w key story =
     (case populate_pr_checks_once w key story of (asked, story) \<Rightarrow>
      let parsed = (case mw_overlord w story of Some raw \<Rightarrow> parse_merge_ruling raw | None \<Rightarrow> None) in
      tellW (asked @ [AskedOverlord key,
               LoggedRuling key (case parsed of Some (r, _) \<Rightarrow> r | None \<Rightarrow> [])
                 (dgetN story ''status'') (dgetN story ''parked_reason'')])
        (retW (story, case parsed of
            Some (r, _) \<Rightarrow> if r = ''proceed'' then Land ''overlord ruled proceed'' else Park HOLD
          | None \<Rightarrow> Park HOLD)))"

definition merge_decision :: "merge_world \<Rightarrow> string \<Rightarrow> pydict \<Rightarrow> (pydict \<times> ruling) gated" where
  "merge_decision w key story =
     (if dgetN story ''review_verdict'' \<noteq> PStr ''APPROVE'' then retW (story, Park ''not approved'')
      else if mw_autonomy w = ''dry-run'' then retW (story, Park ''dry-run'')
      else if \<not> mw_auto_merge w then retW (story, Park ''auto-merge disabled (PIPELINE_AUTO_MERGE=0)'')
      else bindW (liftW (risk_rank story)) (\<lambda>rank.
        if 2 \<le> rank then
          (if mw_autonomy w = ''full'' then adjudicate_high_risk_merge w key story
           else retW (story, Park HOLD))
        else if mw_autonomy w = ''full'' then retW (story, Land ''autonomy=full'')
        else if rank \<le> (case risk_order (mw_threshold w) of Some n \<Rightarrow> n | None \<Rightarrow> 0)
        then retW (story, Land (''risk <= threshold '' @ mw_threshold w))
        else retW (story, Park (''risk above threshold '' @ mw_threshold w))))"

subsection \<open>Leaving the gate\<close>

definition cancel_job :: "merge_world \<Rightarrow> pyval \<Rightarrow> merge_call list" where
  "cancel_job w job = (if truthy job then map Job (cancel_merge_reverify (mw_jobs w) job) else [])"

text \<open>\<open>story.pop("merge_reverify", None)\<close> with the job it held cancelled.\<close>

definition drop_job :: "merge_world \<Rightarrow> pydict \<Rightarrow> merge_call list \<times> pydict" where
  "drop_job w story = (cancel_job w (dgetN story ''merge_reverify''), dpop ''merge_reverify'' story)"

definition evidence_of :: "pydict \<Rightarrow> pyval" where
  "evidence_of story = PDict [(''pr_checks'', dgetN story ''pr_checks'')]"

definition park :: "merge_world \<Rightarrow> string \<Rightarrow> string \<Rightarrow> pydict \<Rightarrow> pydict gated" where
  "park w key reason story =
     (case drop_job w story of (cancelled, story) \<Rightarrow>
      let story = dset ''merge_parked_at'' (PStr (mw_now w))
            (dset ''merge_park_evidence'' (evidence_of story)
              (dset ''parked_reason'' (PStr reason) (dset ''status'' (PStr ''parked'') story)))
      in tellW (cancelled @ [Noticed ''story_parked'', Summarised ''parked'' key, CountedResult ''parked'',
           Summarised ''notify'' key]) (retW story))"

definition deny :: "merge_world \<Rightarrow> string \<Rightarrow> pyval \<Rightarrow> string \<Rightarrow> pydict \<Rightarrow> pydict gated" where
  "deny w key head reason story =
     (case drop_job w story of (cancelled, story') \<Rightarrow>
      let story' = dset ''merge_parked_at'' (PStr (mw_now w))
            (dset ''merge_park_evidence'' (evidence_of story')
              (dset ''parked_reason'' (PStr reason) (dset ''status'' (PStr ''parked'') story')))
      in tellW (Denied key (short (dgetN story ''review_verdict_sha'')) (short head) # cancelled @
           [Noticed ''story_parked'', Summarised ''parked'' key]) (retW story'))"

subsection \<open>Making the branch landable\<close>

text \<open>
  \<open>_rebase_onto_master\<close> after its guard on the worktree; no process starts in an empty directory name.
\<close>

definition rebase_onto_master ::
  "merge_world \<Rightarrow> pyval \<Rightarrow> string \<Rightarrow> gate_exn + (bool \<times> string \<times> bool)" where
  "rebase_onto_master w worktree branch =
     bindE (path_is_dir (mw_dirs w) worktree) (\<lambda>is_dir.
     Inr (if \<not> is_dir then (True, ''worktree missing - rebase skipped'', False)
          else (case mw_rebase w (the_str worktree) branch of (ok, err, resolved) \<Rightarrow>
                  (ok \<and> the_str worktree \<noteq> [], err, resolved))))"

text \<open>\<open>prepare_merge\<close>: an error or the commit that was pushed, empty without a worktree.\<close>

definition prepare_merge :: "merge_world \<Rightarrow> pyval \<Rightarrow> string \<Rightarrow> (bool \<times> string \<times> string) gated" where
  "prepare_merge w worktree branch =
     bindW (liftW (rebase_onto_master w worktree branch)) (\<lambda>(ok, err, resolved).
     if \<not> ok then retW (resolved, ''rebase: '' @ err, [])
     else bindW (liftW (path_is_dir (mw_dirs w) worktree)) (\<lambda>is_dir.
       if \<not> is_dir then retW (resolved, [], [])
       else tellW [Pushed branch]
         (case mw_push w branch of (code, text) \<Rightarrow>
            if code \<noteq> 0 then retW (resolved, ''push: '' @ take 200 (strip text), [])
            else (case mw_head_out w (the_str worktree) of
                    Some out \<Rightarrow> retW (resolved, [], strip out)
                  | None \<Rightarrow> liftW (Inl (GateRaised ''OSError''))))))"

definition rebase_and_push_for_merge ::
  "merge_world \<Rightarrow> string \<Rightarrow> string \<Rightarrow> pyval \<Rightarrow> (string \<times> string) gated" where
  "rebase_and_push_for_merge w key branch worktree =
     bindW (liftW (if \<not> truthy worktree then Inr branch
                   else bindE (path_is_dir (mw_dirs w) worktree) (\<lambda>is_dir.
                     if is_dir then resolve_story_branch w (the_str worktree) key else Inr branch))) (\<lambda>resolved.
     bindW (prepare_merge w worktree resolved) (\<lambda>(auto_resolved, err, pushed).
     tellW (if auto_resolved then [Noticed ''rebase_auto_resolved''] else []) (retW (err, pushed))))"

text \<open>\<open>git rev-parse HEAD\<close> in the worktree of a story whose re-verify runs.\<close>

definition worktree_head :: "merge_world \<Rightarrow> pyval \<Rightarrow> pyval" where
  "worktree_head w worktree =
     (if \<not> truthy worktree then PNone
      else (case mw_head_out w (the_str worktree) of
              Some out \<Rightarrow> if strip out = [] then PNone else PStr (strip out)
            | None \<Rightarrow> PNone))"

text \<open>
  The commit to land: one whose CI or re-verify is still awaited, or a fresh rebase.  Answers the
  story, the gate error and the commit.
\<close>

definition landable ::
  "merge_world \<Rightarrow> string \<Rightarrow> string \<Rightarrow> pydict \<Rightarrow> (pydict \<times> string \<times> pyval) gated" where
  "landable w key branch story =
     (let worktree = dget_or story ''worktree'' (PStr []);
          fresh = (\<lambda>story. bindW (rebase_and_push_for_merge w key branch worktree)
                     (\<lambda>(err, pushed). retW (story, err, PStr pushed))) in
      if truthy (dgetN story ''ci_pending_sha'') then retW (story, [], dgetN story ''ci_pending_sha'')
      else if truthy (dgetN story ''merge_reverify'') then
        (let head = worktree_head w worktree in
         bindW (liftW (if head = PNone then Inr False
                       else with_dict (dgetN story ''merge_reverify'') GateAttributeError
                              (\<lambda>job. Inr (dgetN job ''sha'' = head)))) (\<lambda>same.
         if same then retW (story, [], head)
         else (case drop_job w story of (cancelled, story) \<Rightarrow> tellW cancelled (fresh story))))
      else fresh story)"

definition rebind :: "merge_world \<Rightarrow> string \<Rightarrow> pyval \<Rightarrow> pydict \<Rightarrow> pydict" where
  "rebind w err pushed story =
     (if err = [] \<and> truthy pushed then snd (rebind_after_pipeline_push (mw_now w) pushed story) else story)"

subsection \<open>The CI poll\<close>

definition polled :: "merge_world \<Rightarrow> nat \<Rightarrow> string \<Rightarrow> string \<Rightarrow> ci_result gated" where
  "polled w n branch sha =
     bindW (liftW (poll w n branch sha)) (\<lambda>c. tellW [PolledCi branch sha (ci_state c)] (retW c))"

definition wait_for_ci :: "merge_world \<Rightarrow> string \<Rightarrow> pyval \<Rightarrow> pydict \<Rightarrow> (pydict \<times> string \<times> bool) gated" where
  "wait_for_ci w err pushed story =
     (let story = (if dget story ''ci_pending_since'' = None
                   then dset ''ci_pending_since'' (PStr (mw_now w)) story else story);
          story = dset ''ci_pending_sha'' pushed story in
      if ci_pending_expired (jw_instant (mw_jobs w)) (jw_clock (mw_jobs w)) (mw_max_attempts w)
           (mw_ci_timeout w) (dgetN story ''ci_pending_since'')
      then tellW [Noticed ''ci_pending_stalled'']
             (retW (dpop ''ci_pending_sha'' (dpop ''ci_pending_since'' story), ''ci pending: '' @ err, False))
      else retW (story, [], True))"

definition settle_ci ::
  "merge_world \<Rightarrow> ci_result \<Rightarrow> pyval \<Rightarrow> pydict \<Rightarrow> (pydict \<times> string \<times> bool) gated" where
  "settle_ci w c pushed story =
     (let story = dpop ''pr_checks_error'' (dset ''pr_checks'' (ci_val c) story);
          cleared = dpop ''ci_pending_sha'' (dpop ''ci_pending_since'' story) in
      if ci_state c = PENDING then wait_for_ci w (ci_error c) pushed story
      else if ci_state c = FAIL \<or> ci_state c = CANCELLED then retW (cleared, ''ci fail: '' @ ci_error c, False)
      else if ci_state c = UNREADABLE then retW (cleared, ''ci unreadable: '' @ ci_error c, False)
      else retW (cleared, [], False))"

text \<open>The poll, with the one automatic rerun of a cancelled run.\<close>

definition final_poll :: "merge_world \<Rightarrow> string \<Rightarrow> string \<Rightarrow> pydict \<Rightarrow> (ci_result \<times> pydict) gated" where
  "final_poll w branch sha story =
     bindW (polled w 1 branch sha) (\<lambda>c.
     if ci_state c = CANCELLED \<and> \<not> truthy (dgetN story ''ci_rerun_attempted'')
     then tellW [Reran sha] (bindW (polled w 2 branch sha) (\<lambda>c.
            retW (c, dset ''ci_rerun_attempted'' (PBool True) story)))
     else retW (c, story))"

text \<open>Answers the story, the gate error, whether it is a definitive test failure, and whether to wait.\<close>

definition gate_poll ::
  "merge_world \<Rightarrow> string \<Rightarrow> pyval \<Rightarrow> pydict \<Rightarrow> (pydict \<times> string \<times> bool \<times> bool) gated" where
  "gate_poll w branch pushed story =
     bindW (final_poll w branch (py_str (mw_show w) pushed) story) (\<lambda>(c, story).
     bindW (settle_ci w c pushed story) (\<lambda>(story, err, wait). retW (story, err, ci_state c = FAIL, wait)))"

subsection \<open>The re-verify\<close>

definition inline_reverify ::
  "merge_world \<Rightarrow> string \<Rightarrow> pyval \<Rightarrow> pydict \<Rightarrow> gate_exn + (pydict \<times> pyval \<times> bool)" where
  "inline_reverify w key worktree story =
     bindE (reverify_acceptance (mw_checkout w) story worktree key) (\<lambda>(acc, story).
     if ci_state acc = FAIL then Inr (story, PStr (''acceptance reverify fail: '' @ ci_error acc), False)
     else bindE (reverify_build (mw_checkout w) worktree) (\<lambda>build.
       Inr (story, PStr (if ci_state build = FAIL then ''build reverify fail: '' @ ci_error build else []), False)))"

definition reverify_timeout :: "merge_world \<Rightarrow> rat" where
  "reverify_timeout w =
     (case dget (mw_env w) ''PIPELINE_MERGE_REVERIFY_TIMEOUT_SECONDS'' of
        None \<Rightarrow> 1800
      | Some raw \<Rightarrow> (case mw_float w raw of Some (Fin x) \<Rightarrow> if 0 < x then x else 1800 | _ \<Rightarrow> 1800))"

text \<open>What a collected result says of the commit to land; the gate error is the document's own value.\<close>

definition judge_result :: "pyval \<Rightarrow> pydict \<Rightarrow> pydict \<Rightarrow> gate_exn + (pydict \<times> pyval \<times> bool)" where
  "judge_result pushed res story =
     (let story = dpop ''merge_reverify'' story;
          story = (case dgetN res ''last_test_check'' of PDict d \<Rightarrow> dset ''last_test_check'' (PDict d) story | _ \<Rightarrow> story) in
      if \<not> py_eq (dgetN res ''sha'') pushed then Inr (story, PStr ''merge re-verify graded a different commit'', False)
      else if dgetN res ''state'' = PStr ''pass'' then Inr (story, PStr [], False)
      else if dgetN res ''state'' = PStr ''fail''
      then Inr (story, dget_or res ''error'' (PStr ''merge re-verify failed''), False)
      else with_str (dget_or res ''error'' (PStr ''unrecognised re-verify result'')) GateTypeError (\<lambda>e.
        Inr (dset ''merge_reverify_log_tail'' (dget_or res ''log_tail'' (PStr [])) story,
             PStr (''merge re-verify harness error: '' @ e), False)))"

definition job_calls :: "(job_call, gate_exn, 'a) logged \<Rightarrow> 'a gated" where
  "job_calls m = (map Job (fst m), snd m)"

definition start_job ::
  "merge_world \<Rightarrow> string \<Rightarrow> string \<Rightarrow> pyval \<Rightarrow> pyval \<Rightarrow> pydict \<Rightarrow> (pydict \<times> pyval \<times> bool) gated" where
  "start_job w plan key worktree pushed story =
     bindW (job_calls (start_merge_reverify (mw_jobs w) plan key worktree)) (\<lambda>r.
     case r of
       Inl cls \<Rightarrow> retW (story, PStr (''merge re-verify could not start: '' @ cls), False)
     | Inr job \<Rightarrow> tellW [Summarised ''reverify_pending'' key]
         (retW (dset ''merge_reverify'' (PDict (dset ''sha'' pushed job)) story, PStr [], True)))"

definition collect_job ::
  "merge_world \<Rightarrow> string \<Rightarrow> pyval \<Rightarrow> pydict \<Rightarrow> pydict \<Rightarrow> (pydict \<times> pyval \<times> bool) gated" where
  "collect_job w key pushed job story =
     bindW (job_calls (collect_merge_reverify (mw_jobs w) job (reverify_timeout w))) (\<lambda>r.
     case r of
       None \<Rightarrow> tellW [Summarised ''reverify_pending'' key] (retW (story, PStr [], True))
     | Some res \<Rightarrow> liftW (judge_result pushed res story))"

definition merge_reverify_gate ::
  "merge_world \<Rightarrow> string \<Rightarrow> string \<Rightarrow> pyval \<Rightarrow> pyval \<Rightarrow> pydict \<Rightarrow> (pydict \<times> pyval \<times> bool) gated" where
  "merge_reverify_gate w plan key worktree pushed story =
     (if \<not> detached_enabled (mw_jobs w) then liftW (inline_reverify w key worktree story)
      else let job = dgetN story ''merge_reverify'' in
        if \<not> truthy job then start_job w plan key worktree pushed story
        else (case job of
                PDict j \<Rightarrow>
                  if \<not> py_eq (dgetN j ''sha'') pushed
                  then (case drop_job w story of (cancelled, story) \<Rightarrow>
                          tellW cancelled (start_job w plan key worktree pushed story))
                  else collect_job w key pushed j story
              | _ \<Rightarrow> liftW (Inl GateAttributeError)))"

subsection \<open>When the gate fails\<close>

definition count_up :: "pyval \<Rightarrow> gate_exn + pyval" where
  "count_up v = mapL (\<lambda>_. GateTypeError) (add_one v)"

definition below :: "pyval \<Rightarrow> int \<Rightarrow> gate_exn + bool" where
  "below v n = (case num_of v of Some x \<Rightarrow> Inr (num_lt x (Fin (of_int n))) | None \<Rightarrow> Inl GateTypeError)"

definition used_up :: "merge_world \<Rightarrow> pyval \<Rightarrow> bool" where
  "used_up w v = (case num_of v of Some x \<Rightarrow> num_le (Fin (of_int (mw_max_attempts w))) x | None \<Rightarrow> False)"

definition conflict_rework_max :: "env \<Rightarrow> int" where
  "conflict_rework_max env =
     (case int_of_str (env_get env ''PIPELINE_CONFLICT_REWORK_MAX'') of
        Some n \<Rightarrow> if n < 0 then 2 else n
      | None \<Rightarrow> 2)"

definition env_or :: "env \<Rightarrow> string \<Rightarrow> string \<Rightarrow> string" where
  "env_or env k dflt = (case dget env k of Some v \<Rightarrow> v | None \<Rightarrow> dflt)"

definition conflict_ok :: "merge_world \<Rightarrow> string \<Rightarrow> pydict \<Rightarrow> gate_exn + bool" where
  "conflict_ok w err story =
     (if starts_with err ''rebase:'' \<and> has_infix ''conflict'' (lower err) \<and>
         env_or (mw_env w) ''PIPELINE_REWORK_ON_CONFLICT'' ''1'' \<noteq> ''0''
      then below (dget_or story ''conflict_reworks'' (PInt 0)) (conflict_rework_max (mw_env w))
      else Inr False)"

definition rework_ok :: "merge_world \<Rightarrow> bool \<Rightarrow> pydict \<Rightarrow> gate_exn + bool" where
  "rework_ok w definitive story =
     (if definitive \<and> env_or (mw_env w) ''PIPELINE_REWORK_ON_CI_FAIL'' ''0'' = ''1''
      then below (dget_or story ''merge_attempts'' (PInt 0)) (mw_max_attempts w)
      else Inr False)"

text \<open>\<open>(prior or "").strip()\<close> needs a string.\<close>

definition prior_feedback :: "pydict \<Rightarrow> gate_exn + string" where
  "prior_feedback story =
     (let v = dgetN story ''review_feedback'' in if truthy v then with_str v GateAttributeError Inr else Inr [])"

text \<open>Sending the story back to its implementer with a brief, which may depend on the round.\<close>

definition send_back ::
  "merge_world \<Rightarrow> string \<Rightarrow> string \<Rightarrow> string \<Rightarrow> (pyval \<Rightarrow> string) \<Rightarrow> pydict \<Rightarrow> pydict gated" where
  "send_back w key counter event brief story =
     bindW (liftW (count_up (dget_or story counter (PInt 0)))) (\<lambda>attempt.
     let story = dset ''ci_rework'' (PBool True) (dset counter attempt story) in
     bindW (liftW (prior_feedback story)) (\<lambda>prior.
     let story = dset ''review_feedback'' (PStr (merge_ci_rework_feedback prior (brief attempt))) story in
     case drop_job w story of (cancelled, story) \<Rightarrow>
       tellW (cancelled @ [Noticed event, Summarised ''notify'' key])
         (retW (dset ''status'' (PStr ''changes_requested'') story))))"

definition give_up_or_retry ::
  "merge_world \<Rightarrow> string \<Rightarrow> bool \<Rightarrow> string \<Rightarrow> string \<Rightarrow> pydict \<Rightarrow> pydict gated" where
  "give_up_or_retry w key with_job event err story =
     bindW (liftW (count_up (dget_or story ''merge_attempts'' (PInt 0)))) (\<lambda>attempts.
     let story = dset ''merge_attempts'' attempts story in
     if used_up w attempts
     then (case (if with_job then drop_job w story else ([], story)) of (cancelled, story) \<Rightarrow>
       tellW (cancelled @ [Noticed (event @ ''_failed''), Summarised ''failed'' key, CountedResult ''failed'',
                Summarised ''notify'' key])
         (retW (dset ''merge_error'' (PStr err) (dset ''status'' (PStr ''failed'') story))))
     else tellW [Noticed (event @ ''_retry''), Summarised ''notify'' key] (retW story))"

definition fail_gate :: "merge_world \<Rightarrow> string \<Rightarrow> pyval \<Rightarrow> bool \<Rightarrow> pydict \<Rightarrow> pydict gated" where
  "fail_gate w key gate_error definitive story =
     bindW (liftW (with_str gate_error GateAttributeError Inr)) (\<lambda>err.
     bindW (liftW (conflict_ok w err story)) (\<lambda>conflict.
     if conflict
     then send_back w key ''conflict_reworks'' ''merge_conflict_rework''
            (\<lambda>attempt. conflict_rework_feedback (lstrip (drop 7 err)) (py_str (mw_show w) attempt)
               (py_str (mw_show w) (PInt (conflict_rework_max (mw_env w)))) (mw_default_branch w)) story
     else bindW (liftW (rework_ok w definitive story)) (\<lambda>rework.
       if rework
       then send_back w key ''merge_attempts'' ''merge_ci_rework''
              (\<lambda>attempt. ci_rework_feedback (mw_show w) err attempt) story
       else give_up_or_retry w key True ''merge_gate'' err story)))"

subsection \<open>Landing\<close>

fun all_done :: "pyval list \<Rightarrow> gate_exn + bool" where
  "all_done [] = Inr True"
| "all_done (v # vs) =
     with_dict v GateAttributeError (\<lambda>s. if dgetN s ''status'' = PStr ''done'' then all_done vs else Inr False)"

definition maybe_record_retro :: "merge_world \<Rightarrow> pydict \<Rightarrow> unit gated" where
  "maybe_record_retro w m =
     bindW (liftW (with_dict (dget_or m ''stories'' (PDict [])) GateAttributeError (\<lambda>ss.
              bindE (all_done (map snd ss)) (\<lambda>b. Inr (ss, b))))) (\<lambda>(ss, finished).
     tellW (if ss \<noteq> [] \<and> finished \<and> dgetN m ''repo_root'' = PStr (mw_self_repo w)
            then [RecordedRetro (length ss)] else []) (retW ()))"

definition put_story_in :: "pydict \<Rightarrow> string \<Rightarrow> pydict \<Rightarrow> pydict" where
  "put_story_in m key story =
     (case dgetN m ''stories'' of
        PDict ss \<Rightarrow> dset ''stories'' (PDict (dset key (PDict story) ss)) m
      | _ \<Rightarrow> m)"

definition land :: "merge_world \<Rightarrow> pydict \<Rightarrow> string \<Rightarrow> pydict \<Rightarrow> pydict gated" where
  "land w m key story =
     tellW [CalledMerge key (the_str (dget_or story ''worktree'' (PStr [])))]
       (case mw_merge_pr w key of
          Some err \<Rightarrow> give_up_or_retry w key False ''merge'' err story
        | None \<Rightarrow>
            let story = dpop ''ci_rework'' (dpop ''ci_rerun_attempted'' (dpop ''parked_reason''
                  (dpop ''merge_attempts'' (dset ''status'' (PStr ''done'') story)))) in
            tellW [MarkedDone key, Noticed ''story_merged'']
              (bindW (maybe_record_retro w (put_story_in m key story)) (\<lambda>_.
               tellW ((if mw_self_touched w then [Noticed ''mcp_restart'', Summarised ''notify'' key] else []) @
                      [Summarised ''merged'' key, CountedResult ''merged'']) (retW story))))"

text \<open>A story the decision lets go: the binding, the rebase, CI, the re-verify, the merge.\<close>

definition verify_and_land ::
  "merge_world \<Rightarrow> string \<Rightarrow> pydict \<Rightarrow> string \<Rightarrow> pyval \<Rightarrow> pyval \<Rightarrow> pydict \<Rightarrow> pydict gated" where
  "verify_and_land w plan m key worktree pushed story =
     bindW (merge_reverify_gate w plan key worktree pushed story) (\<lambda>(story, err, wait).
     if wait then retW story
     else if truthy err then fail_gate w key err False story
     else land w m key story)"

definition poll_and_land ::
  "merge_world \<Rightarrow> string \<Rightarrow> pydict \<Rightarrow> string \<Rightarrow> string \<Rightarrow> pyval \<Rightarrow> pyval \<Rightarrow> pydict \<Rightarrow> pydict gated" where
  "poll_and_land w plan m key gate_branch worktree pushed story =
     bindW (gate_poll w gate_branch pushed story) (\<lambda>(story, err, definitive, wait).
     if wait then tellW [Summarised ''ci_pending'' key] (retW story)
     else if err \<noteq> [] then fail_gate w key (PStr err) definitive story
     else verify_and_land w plan m key worktree pushed story)"

definition attempt_landing ::
  "merge_world \<Rightarrow> string \<Rightarrow> pydict \<Rightarrow> string \<Rightarrow> pydict \<Rightarrow> pydict gated" where
  "attempt_landing w plan m key story =
     bindW (liftW (worktree_branch w story key)) (\<lambda>branch.
     bindW (liftW (if branch \<noteq> [] then Inr branch else story_branch (mw_env w) key)) (\<lambda>gate_branch.
     let head = branch_head_sha (mw_fetch w) (mw_rev_parse w) gate_branch;
         binding = check (mw_show w) (PDict story) head in
     tellW [ProbedTip gate_branch head]
       (if \<not> fst binding then deny w key head (snd binding) story
        else bindW (landable w key branch story) (\<lambda>(story, err, pushed).
          let story = rebind w err pushed story in
          if err \<noteq> [] then fail_gate w key (PStr err) False story
          else poll_and_land w plan m key gate_branch (dget_or story ''worktree'' (PStr [])) pushed story))))"

subsection \<open>One story and one pass\<close>

definition evidence_now :: "merge_world \<Rightarrow> string \<Rightarrow> pydict \<Rightarrow> ci_result option gated" where
  "evidence_now w key story =
     bindW (liftW (worktree_branch w story key)) (\<lambda>branch.
     tellW [Gathered branch] (retW (case poll w 0 branch [] of Inr c \<Rightarrow> Some c | Inl _ \<Rightarrow> None)))"

definition reexaminable :: "merge_world \<Rightarrow> pydict \<Rightarrow> bool" where
  "reexaminable w story =
     (dgetN story ''status'' = PStr ''parked'' \<and> dgetN story ''parked_reason'' = PStr HOLD \<and>
      dgetN story ''review_verdict'' = PStr ''APPROVE'' \<and> truthy (dgetN story ''pr_url'') \<and>
      (case dgetN story ''merge_park_evidence'' of PDict _ \<Rightarrow> True | _ \<Rightarrow> False) \<and> mw_autonomy w = ''full'')"

definition readjudicate_parked_merge_hold ::
  "merge_world \<Rightarrow> string \<Rightarrow> pydict \<Rightarrow> (pydict \<times> ruling option) gated" where
  "readjudicate_parked_merge_hold w key story =
     (if dget story ''status'' = None then liftW (Inl GateKeyError)
      else if \<not> reexaminable w story then retW (story, None)
      else bindW (evidence_now w key story) (\<lambda>current.
        case current of
          None \<Rightarrow> retW (story, None)
        | Some c \<Rightarrow>
            if py_eq (ci_val c) (dgetN (story_fields (dgetN story ''merge_park_evidence'')) ''pr_checks'')
            then retW (story, None)
            else bindW (merge_decision w key (dset ''pr_checks'' (ci_val c) story)) (\<lambda>(story, d).
              case d of
                Land _ \<Rightarrow> retW (dset ''status'' (PStr ''pr_open'')
                     (dpop ''merge_parked_at'' (dpop ''merge_park_evidence'' story)), Some d)
              | Park _ \<Rightarrow> retW (dset ''merge_parked_at'' (PStr (mw_now w))
                     (dset ''merge_park_evidence'' (evidence_of story) story), Some d))))"

definition carry_out ::
  "merge_world \<Rightarrow> string \<Rightarrow> pydict \<Rightarrow> string \<Rightarrow> pydict \<Rightarrow> ruling \<Rightarrow> pydict gated" where
  "carry_out w plan m key story d =
     (case d of Park reason \<Rightarrow> park w key reason story | Land _ \<Rightarrow> attempt_landing w plan m key story)"

definition adjudicate_story ::
  "merge_world \<Rightarrow> string \<Rightarrow> pydict \<Rightarrow> string \<Rightarrow> pydict \<Rightarrow> pydict gated" where
  "adjudicate_story w plan m key story =
     bindW (readjudicate_parked_merge_hold w key story) (\<lambda>(story, d).
     case d of
       Some d \<Rightarrow> carry_out w plan m key story d
     | None \<Rightarrow>
         if dgetN story ''status'' \<noteq> PStr ''pr_open'' then retW story
         else bindW (merge_decision w key story) (\<lambda>(story, d). carry_out w plan m key story d))"

fun adjudicate_stories :: "(string \<Rightarrow> merge_world) \<Rightarrow> string \<Rightarrow> string list \<Rightarrow> pydict \<Rightarrow> pydict gated" where
  "adjudicate_stories ws plan [] m = retW m"
| "adjudicate_stories ws plan (key # keys) m =
     bindW (liftW (with_dict (dgetN (story_fields (dgetN m ''stories'')) key) GateTypeError Inr)) (\<lambda>story.
     bindW (adjudicate_story (ws key) plan m key story) (\<lambda>story.
     adjudicate_stories ws plan keys (put_story_in m key story)))"

text \<open>The manifest is written once, after the last story.\<close>

definition adjudicate_merges :: "(string \<Rightarrow> merge_world) \<Rightarrow> string \<Rightarrow> pydict \<Rightarrow> pydict gated" where
  "adjudicate_merges ws plan m =
     bindW (liftW (case dget m ''stories'' of
              None \<Rightarrow> Inl GateKeyError | Some v \<Rightarrow> with_dict v GateAttributeError Inr)) (\<lambda>ss.
     bindW (adjudicate_stories ws plan (dkeys ss) m) (\<lambda>m. tellW [SavedManifest m] (retW m)))"

end
