(* ===== verification/MergeSafety.thy ===== *)
theory MergeSafety
  imports MergeGate
begin

text \<open>
  What the merge phase guarantees: which calls its steps can make, which fields of a story they leave
  alone, and from that what must have happened before a branch is merged.
\<close>

subsection \<open>Which steps poll and which merge\<close>

fun is_merge :: "merge_call \<Rightarrow> bool" where
  "is_merge (CalledMerge _ _) = True"
| "is_merge _ = False"

fun is_poll :: "merge_call \<Rightarrow> bool" where
  "is_poll (PolledCi _ _ _) = True"
| "is_poll _ = False"

text \<open>The notices of a round that sends the story into another one.\<close>

definition away_notices :: "string list" where
  "away_notices = [''merge_conflict_rework'', ''merge_ci_rework'', ''merge_gate_retry'', ''merge_retry'']"

fun is_away :: "merge_call \<Rightarrow> bool" where
  "is_away (Noticed e) = (e \<in> set away_notices)"
| "is_away _ = False"

text \<open>A kind of calls made only by polling, merging or turning a story away.\<close>

definition rare :: "(merge_call \<Rightarrow> bool) \<Rightarrow> bool" where
  "rare p = (\<forall>c. p c \<longrightarrow> is_merge c \<or> is_poll c \<or> is_away c)"

lemma rare_kinds [simp]: "rare is_merge" "rare is_poll" "rare is_away"
  by (simp_all add: rare_def)

lemma rareD:
  assumes "rare p"
  shows "\<not> p (Job j)" "e \<notin> set away_notices \<Longrightarrow> \<not> p (Noticed e)" "\<not> p (Summarised l k)" "\<not> p (CountedResult r)"
    "\<not> p (Gathered b)" "\<not> p (AskedOverlord k)" "\<not> p (LoggedRuling k rl v u)" "\<not> p (ProbedTip b h)"
    "\<not> p (Denied k x y)" "\<not> p (Pushed b)" "\<not> p (Reran b)" "\<not> p (MarkedDone k)" "\<not> p (RecordedRetro n)"
    "\<not> p (SavedManifest m)"
  using assms unfolding rare_def by fastforce+

lemma rare_jobs: "rare p \<Longrightarrow> filter p (map Job js) = []"
  by (induction js) (auto simp: rareD)

lemma rare_drop_job: "rare p \<Longrightarrow> filter p (fst (drop_job w story)) = []"
  by (simp add: drop_job_def cancel_job_def rare_jobs)

lemma rare_dropped: "drop_job w story = (cs, story') \<Longrightarrow> rare p \<Longrightarrow> filter p cs = []"
  using rare_drop_job [of p w story] by simp

lemma silent_job_calls: "rare p \<Longrightarrow> silent p (job_calls m)"
  by (simp add: silent_def job_calls_def rare_jobs)

lemma usual_notices [simp]:
  "''story_parked'' \<notin> set away_notices" "''rebase_auto_resolved'' \<notin> set away_notices"
  "''ci_pending_stalled'' \<notin> set away_notices" "''story_merged'' \<notin> set away_notices"
  "''mcp_restart'' \<notin> set away_notices"
  by (simp_all add: away_notices_def)

lemmas silent_simps = rareD rare_jobs rare_drop_job silent_job_calls Let_def

lemma rare_populate: "rare p \<Longrightarrow> filter p (fst (populate_pr_checks_once w key story)) = []"
  by (auto simp: populate_pr_checks_once_def rareD split: sum.split)

lemma silent_decision: "rare p \<Longrightarrow> silent p (merge_decision w key story)"
  using rare_populate [of p w key story]
  by (auto simp: merge_decision_def adjudicate_high_risk_merge_def silent_simps intro!: silent_bindW
      split: prod.split)

lemma silent_readjudicate: "rare p \<Longrightarrow> silent p (readjudicate_parked_merge_hold w key story)"
  by (auto simp: readjudicate_parked_merge_hold_def evidence_now_def silent_simps silent_decision
      intro!: silent_bindW split: option.split ruling.split)

lemma silent_park: "rare p \<Longrightarrow> silent p (park w key reason story)"
  by (auto dest: rare_dropped simp: park_def silent_simps split: prod.split)

lemma silent_deny: "rare p \<Longrightarrow> silent p (deny w key head reason story)"
  by (auto dest: rare_dropped simp: deny_def silent_simps split: prod.split)

lemma silent_landable: "rare p \<Longrightarrow> silent p (landable w key branch story)"
  by (auto dest: rare_dropped simp: landable_def rebase_and_push_for_merge_def prepare_merge_def silent_simps
      intro!: silent_bindW split: prod.split option.split) (erule (1) rare_dropped)+

lemma silent_send_back: "rare p \<Longrightarrow> (\<And>e. \<not> p (Noticed e)) \<Longrightarrow> silent p (send_back w key counter event brief story)"
  by (auto dest: rare_dropped simp: send_back_def silent_simps intro!: silent_bindW split: prod.split)

lemma silent_give_up: "rare p \<Longrightarrow> (\<And>e. \<not> p (Noticed e)) \<Longrightarrow> silent p (give_up_or_retry w key b event err story)"
  by (auto dest: rare_dropped simp: give_up_or_retry_def silent_simps intro!: silent_bindW split: prod.split if_splits)

lemma silent_fail_gate: "rare p \<Longrightarrow> (\<And>e. \<not> p (Noticed e)) \<Longrightarrow> silent p (fail_gate w key err definitive story)"
  by (auto simp: fail_gate_def silent_simps silent_send_back silent_give_up intro!: silent_bindW)

lemma silent_start: "rare p \<Longrightarrow> silent p (start_job w plan key worktree pushed story)"
  by (auto simp: start_job_def silent_simps intro!: silent_bindW split: sum.split)

lemma silent_collect: "rare p \<Longrightarrow> silent p (collect_job w key pushed job story)"
  by (auto simp: collect_job_def silent_simps intro!: silent_bindW split: option.split)

lemma silent_gate: "rare p \<Longrightarrow> silent p (merge_reverify_gate w plan key worktree pushed story)"
  by (auto dest: rare_dropped simp: merge_reverify_gate_def silent_simps silent_start silent_collect split: prod.split pyval.split)

lemma silent_land: "rare p \<Longrightarrow> (\<And>e. \<not> p (Noticed e)) \<Longrightarrow> (\<And>k wt. \<not> p (CalledMerge k wt)) \<Longrightarrow> silent p (land w m key story)"
  by (auto simp: land_def maybe_record_retro_def silent_simps silent_give_up intro!: silent_bindW split: option.split)

lemma silent_poll:
  "rare p \<Longrightarrow> (\<And>b s st. \<not> p (PolledCi b s st)) \<Longrightarrow> silent p (gate_poll w branch pushed story)"
  by (auto simp: gate_poll_def final_poll_def polled_def settle_ci_def wait_for_ci_def silent_simps intro!: silent_bindW split: prod.split)

subsection \<open>What the steps leave alone\<close>

lemma populate_keeps:
  "K \<inter> {''pr_checks'', ''pr_checks_error''} = {} \<Longrightarrow> agree K story (snd (populate_pr_checks_once w key story))"
  by (auto simp: populate_pr_checks_once_def split: sum.split)

lemma decision_keeps:
  assumes "K \<inter> {''pr_checks'', ''pr_checks_error''} = {}"
  shows "yields (\<lambda>(story', d). agree K story story') (merge_decision w key story)"
  using populate_keeps [OF assms, of story w key]
  by (auto simp: merge_decision_def adjudicate_high_risk_merge_def Let_def intro!: yields_bindW_any split: prod.split)

lemma readjudicate_keeps:
  assumes "K \<inter> {''pr_checks'', ''pr_checks_error'', ''status'', ''merge_parked_at'', ''merge_park_evidence''} = {}"
  shows "yields (\<lambda>(story', d). agree K story story') (readjudicate_parked_merge_hold w key story)"
proof -
  have K: "K \<inter> {''pr_checks'', ''pr_checks_error''} = {}" "''pr_checks'' \<notin> K" "''status'' \<notin> K"
    "''merge_parked_at'' \<notin> K" "''merge_park_evidence'' \<notin> K"
    using assms by auto
  have "agree K story story'" if "snd (merge_decision w key (dset ''pr_checks'' v story)) = Inr (story', d)" for v story' d
    using yieldsD [OF decision_keeps [OF K(1)] that] K(2) by (auto simp: agree_def)
  with K show ?thesis
    by (auto simp: readjudicate_parked_merge_hold_def Let_def intro!: yields_bindW_any split: option.split ruling.split)
qed

lemma settle_ci_keeps:
  "K \<inter> {''pr_checks'', ''pr_checks_error'', ''ci_pending_since'', ''ci_pending_sha''} = {} \<Longrightarrow>
     yields (\<lambda>(s, err, wait). agree K story s) (settle_ci w c pushed story)"
  by (auto simp: settle_ci_def wait_for_ci_def Let_def)

lemma final_keeps:
  "''ci_rerun_attempted'' \<notin> K \<Longrightarrow> yields (\<lambda>(c, s). agree K story s) (final_poll w branch sha story)"
  by (auto simp: final_poll_def intro!: yields_bindW_any)

lemma gate_poll_keeps:
  assumes "K \<inter> {''pr_checks'', ''pr_checks_error'', ''ci_pending_since'', ''ci_pending_sha'', ''ci_rerun_attempted''} = {}"
  shows "yields (\<lambda>(s, err, definitive, wait). agree K story s) (gate_poll w branch pushed story)"
  unfolding gate_poll_def
proof (rule yields_bindW [OF final_keeps])
  show "''ci_rerun_attempted'' \<notin> K" using assms by auto
next
  fix x :: "ci_result \<times> pydict"
  assume "case x of (c, s) \<Rightarrow> agree K story s"
  then obtain c s where x: "x = (c, s)" "agree K story s" by (cases x) auto
  have "K \<inter> {''pr_checks'', ''pr_checks_error'', ''ci_pending_since'', ''ci_pending_sha''} = {}" using assms by auto
  then show "yields (\<lambda>(s, err, definitive, wait). agree K story s)
      (case x of (c, s) \<Rightarrow> bindW (settle_ci w c pushed s) (\<lambda>(s, err, wait). retW (s, err, ci_state c = FAIL, wait)))"
    using x agree_trans [OF x(2)] by (auto intro!: yields_bindW [OF settle_ci_keeps [of K]])
qed

lemma rebind_keeps:
  "K \<inter> {''review_verdict'', ''review_verdict_sha'', ''review_verdict_ts''} = {} \<Longrightarrow>
     agree K story (rebind w err pushed story)"
  by (simp add: rebind_def agree_rebind)

lemma approved_at_agree:
  "agree K story story' \<Longrightarrow> {''review_verdict'', ''review_verdict_sha''} \<subseteq> K \<Longrightarrow>
     approved_at story' sha = approved_at story sha"
  by (auto simp: approved_at_def dest: agree_dgetN)

subsection \<open>What a merge needs\<close>

definition passing_poll :: "merge_call list \<Rightarrow> string \<Rightarrow> string \<Rightarrow> bool" where
  "passing_poll cs branch sha \<longleftrightarrow>
     (\<exists>state. filter is_poll cs \<noteq> [] \<and> last (filter is_poll cs) = PolledCi branch sha state \<and>
        \<not> blocking_state state)"

text \<open>
  A worktree in which nothing is red: no fixture was changed, the tests the story asks for exit with zero,
  and so does the build where the build gate is on.  Without a worktree there is nothing to run.
\<close>

definition green_checks :: "checkout \<Rightarrow> pydict \<Rightarrow> pyval \<Rightarrow> string \<Rightarrow> bool" where
  "green_checks ck story worktree key \<longleftrightarrow>
     (case worktree of
        PStr wt \<Rightarrow> wt \<noteq> [] \<and> co_dirs ck wt \<longrightarrow>
          acceptance_tampered ck story wt = Inr [] \<and>
          (case reverify_command ck story wt key of
             Inr (Some (cwd, cmd)) \<Rightarrow> fst (co_run ck cmd cwd) = 0
           | Inr None \<Rightarrow> True
           | Inl _ \<Rightarrow> False) \<and>
          (co_build_gate ck \<longrightarrow>
             (case co_build_command ck wt of Some (cwd, cmd) \<Rightarrow> fst (co_run ck cmd cwd) = 0 | None \<Rightarrow> True))
      | _ \<Rightarrow> \<not> truthy worktree)"

lemma graded_by_green: "ci_state (graded_by r) \<noteq> FAIL \<longleftrightarrow> fst r = 0"
  by (auto simp: graded_by_def ci_states split: prod.split)

lemma graded_by_some [simp]: "graded_by r \<noteq> ci NONE e"
  by (auto simp: graded_by_def ci_def ci_states split: prod.split)

lemma reverified_green:
  assumes "reverify_acceptance ck story worktree key = Inr (acc, story')" "ci_state acc \<noteq> FAIL"
    and "reverify_build ck worktree = Inr build" "ci_state build \<noteq> FAIL"
  shows "green_checks ck story worktree key"
proof (cases worktree)
  case (PStr wt)
  show ?thesis
  proof (cases "wt \<noteq> [] \<and> co_dirs ck wt")
    case True
    with assms(1,2) PStr have tests: "acceptance_tampered ck story wt = Inr []"
      "case reverify_command ck story wt key of Inr (Some (cwd, cmd)) \<Rightarrow> fst (co_run ck cmd cwd) = 0
         | Inr None \<Rightarrow> True | Inl _ \<Rightarrow> False"
      by (auto simp: reverify_acceptance_def with_str_def okE Let_def split: if_splits option.splits)
        (metis graded_by_green)
    from assms(3,4) PStr True have "co_build_gate ck \<longrightarrow>
        (case co_build_command ck wt of Some (cwd, cmd) \<Rightarrow> fst (co_run ck cmd cwd) = 0 | None \<Rightarrow> True)"
      by (auto simp: reverify_build_def with_str_def graded_by_green split: if_splits option.splits)
    with tests True PStr show ?thesis by (simp add: green_checks_def)
  qed (auto simp: green_checks_def PStr)
qed (use assms(1) in \<open>auto simp: green_checks_def reverify_acceptance_def with_str_def split: if_splits\<close>)

abbreviation graded_fields :: "string set" where
  "graded_fields \<equiv> {''acceptance'', ''acceptance_digests'', ''tdd_split''}"

lemma green_agree:
  assumes "agree K story s" "graded_fields \<subseteq> K"
  shows "green_checks ck s worktree key = green_checks ck story worktree key"
proof -
  have same: "dgetN s ''acceptance'' = dgetN story ''acceptance''"
    "dgetN s ''acceptance_digests'' = dgetN story ''acceptance_digests''"
    "dgetN s ''tdd_split'' = dgetN story ''tdd_split''"
    using assms by (auto intro!: agree_dgetN)
  then have entries: "acceptance_entries s = acceptance_entries story" by (simp add: acceptance_entries_def)
  then have sources: "acceptance_sources s = acceptance_sources story" by (simp add: acceptance_sources_def)
  have "acceptance_tampered ck s wt = acceptance_tampered ck story wt"
    "reverify_command ck s wt key = reverify_command ck story wt key" for wt
    unfolding acceptance_tampered_def reverify_command_def same entries sources by (rule refl)+
  then show ?thesis by (simp only: green_checks_def)
qed

text \<open>
  The re-verify that lets a commit through: green checks in the story's worktree, inline, or a result of the
  story's own job that names the commit (and, where the job of this program wrote it, reports a pass).
\<close>

definition reverified :: "merge_world \<Rightarrow> string \<Rightarrow> pydict \<Rightarrow> pyval \<Rightarrow> bool" where
  "reverified w key story pushed \<longleftrightarrow>
     (if detached_enabled (mw_jobs w)
      then (\<exists>job doc. dgetN story ''merge_reverify'' = PDict job \<and> py_eq (dgetN job ''sha'') pushed \<and>
              jw_result (mw_jobs w) (py_str (jw_text (mw_jobs w)) (dgetN job ''result_path'')) = Some (PDict doc) \<and>
              py_eq (dgetN doc ''sha'') pushed \<and> (job_document doc \<longrightarrow> dgetN doc ''state'' = PStr ''pass''))
      else green_checks (mw_checkout w) story (dget_or story ''worktree'' (PStr [])) key)"

abbreviation verified_fields :: "string set" where
  "verified_fields \<equiv> insert ''worktree'' graded_fields"

text \<open>A step may drop the job of a story, but it leaves it no other one.\<close>

definition job_kept :: "pydict \<Rightarrow> pydict \<Rightarrow> bool" where
  "job_kept story s \<longleftrightarrow> dgetN s ''merge_reverify'' \<in> {dgetN story ''merge_reverify'', PNone}"

lemma job_kept_agree: "agree K story s \<Longrightarrow> ''merge_reverify'' \<in> K \<Longrightarrow> job_kept story s"
  by (simp add: job_kept_def agree_dgetN)

lemma reverified_kept:
  assumes "reverified w key s pushed" "agree K story s" "verified_fields \<subseteq> K" "job_kept story s"
  shows "reverified w key story pushed"
proof -
  have "dget_or s ''worktree'' (PStr []) = dget_or story ''worktree'' (PStr [])"
    using assms(2,3) by (simp add: agree_def dget_or_def)
  moreover have "graded_fields \<subseteq> K" using assms(3) by auto
  ultimately show ?thesis
    using assms(1,4) green_agree [OF assms(2), of "mw_checkout w" _ key]
    by (auto simp: reverified_def job_kept_def split: if_splits)
qed

lemma settle_ci_blocks:
  "yields (\<lambda>(s, err, wait). wait \<or> err \<noteq> [] \<or> \<not> blocking_state (ci_state c)) (settle_ci w c pushed story)"
  by (simp add: settle_ci_def wait_for_ci_def blocking_state_def Let_def)

lemma silent_settle_ci: "rare p \<Longrightarrow> silent p (settle_ci w c pushed story)"
  by (simp add: settle_ci_def wait_for_ci_def rareD Let_def)

lemma polled_Inr: "snd (polled w n b sha) = Inr c \<Longrightarrow> fst (polled w n b sha) = [PolledCi b sha (ci_state c)]"
  by (auto simp: polled_def fst_bindW okE split: sum.split)

lemma final_poll_last:
  assumes "snd (final_poll w branch sha story) = Inr (c, story')"
  shows "filter is_poll (fst (final_poll w branch sha story)) \<noteq> [] \<and>
    last (filter is_poll (fst (final_poll w branch sha story))) = PolledCi branch sha (ci_state c)"
  using assms by (auto simp: final_poll_def fst_bindW okE polled_Inr split: if_splits)

lemma gate_poll_passes:
  assumes "snd (gate_poll w branch pushed story) = Inr (story', [], definitive, False)"
  shows "passing_poll (fst (gate_poll w branch pushed story)) branch (py_str (mw_show w) pushed)"
proof -
  let ?sha = "py_str (mw_show w) pushed"
  from assms obtain c s1 where
    final: "snd (final_poll w branch ?sha story) = Inr (c, s1)" and
    settled: "snd (settle_ci w c pushed s1) = Inr (story', [], False)"
    by (auto simp: gate_poll_def okE split: prod.splits)
  from yieldsD [OF settle_ci_blocks settled] have "\<not> blocking_state (ci_state c)" by simp
  moreover have "filter is_poll (fst (gate_poll w branch pushed story)) =
      filter is_poll (fst (final_poll w branch ?sha story))"
    using final settled silent_settle_ci [of is_poll w c pushed s1]
    by (simp add: gate_poll_def fst_bindW silent_def)
  ultimately show ?thesis
    using final_poll_last [OF final] by (auto simp: passing_poll_def)
qed

lemma judge_passes:
  assumes "judge_result pushed res story = Inr (story', err, False)" "\<not> truthy err"
  shows "py_eq (dgetN res ''sha'') pushed \<and> (job_document res \<longrightarrow> dgetN res ''state'' = PStr ''pass'')"
proof -
  have "dgetN res ''state'' \<noteq> PStr ''fail'' \<or> truthy (dget_or res ''error'' d)" if "job_document res" for d
    using that by (auto simp: job_document_def dgetN_def dget_or_def is_pystr_iff split: option.splits)
  with assms show ?thesis
    by (auto simp: judge_result_def Let_def okE split: if_splits)
qed

lemma start_never_passes:
  "yields (\<lambda>(s, err, wait). wait \<or> truthy err) (start_job w plan key worktree pushed story)"
  by (auto simp: start_job_def intro!: yields_bindW_any split: sum.split)

lemmas start_passes = start_never_passes [THEN yieldsD]

lemma gate_reverifies:
  assumes "snd (merge_reverify_gate w plan key (dget_or story ''worktree'' (PStr [])) pushed story) = Inr (story', err, False)"
    and "\<not> truthy err"
  shows "reverified w key story pushed"
proof (cases "detached_enabled (mw_jobs w)")
  case False
  let ?wt = "dget_or story ''worktree'' (PStr [])"
  from False assms obtain acc s build where
    "reverify_acceptance (mw_checkout w) story ?wt key = Inr (acc, s)" "ci_state acc \<noteq> FAIL"
    "reverify_build (mw_checkout w) ?wt = Inr build" "ci_state build \<noteq> FAIL"
    by (auto simp: merge_reverify_gate_def inline_reverify_def okE split: if_splits prod.splits)
  from reverified_green [OF this] False show ?thesis by (simp add: reverified_def)
next
  case True
  from assms True obtain job res where
    job: "dgetN story ''merge_reverify'' = PDict job" "py_eq (dgetN job ''sha'') pushed" and
    res: "snd (collect_merge_reverify (mw_jobs w) job (reverify_timeout w)) = Inr (Some res)" and
    judged: "judge_result pushed res story = Inr (story', err, False)"
    by (auto simp: merge_reverify_gate_def collect_job_def job_calls_def Let_def okE
        dest!: start_passes split: if_splits pyval.splits prod.splits option.splits)
  have "dgetN res ''state'' \<noteq> PStr ''error''"
    using judged assms(2) by (auto simp: judge_result_def Let_def okE split: if_splits)
  from collected_was_written [OF res this] judge_passes [OF judged assms(2)] job True show ?thesis
    by (auto simp: reverified_def)
qed

lemma land_merges: "CalledMerge k wt \<in> set (fst (land w m key story)) \<Longrightarrow> k = key"
proof -
  have "silent is_merge (give_up_or_retry w key False ''merge'' err story)" for err
    by (rule silent_give_up) simp_all
  then have "CalledMerge k wt \<notin> set (fst (give_up_or_retry w key False ''merge'' err story))" for err
    by (rule silent_notin) simp
  then show "CalledMerge k wt \<in> set (fst (land w m key story)) \<Longrightarrow> k = key"
    by (auto simp: land_def maybe_record_retro_def Let_def in_bindW split: option.splits if_splits)
qed

lemma no_merge_call:
  assumes "rare p \<Longrightarrow> silent p m" "rare p" "p c"
  shows "c \<notin> set (fst m)"
  by (rule silent_notin [OF assms(1) [OF assms(2)] assms(3)])

lemma fail_gate_merges: "CalledMerge k wt \<notin> set (fst (fail_gate w key err definitive story))"
  by (rule silent_notin [OF silent_fail_gate, where p = is_merge]) auto

lemma verify_and_land_merges:
  assumes "CalledMerge k wt \<in> set (fst (verify_and_land w plan m key (dget_or story ''worktree'' (PStr [])) pushed story))"
  shows "k = key \<and> reverified w key story pushed"
proof -
  let ?wt = "dget_or story ''worktree'' (PStr [])"
  have "CalledMerge k wt \<notin> set (fst (merge_reverify_gate w plan key ?wt pushed story))"
    by (rule no_merge_call [OF silent_gate, where p = is_merge]) auto
  with assms obtain s err wait where
    gate: "snd (merge_reverify_gate w plan key ?wt pushed story) = Inr (s, err, wait)" and
    rest: "CalledMerge k wt \<in> set (fst (if wait then retW s else if truthy err then fail_gate w key err False s
             else land w m key s))"
    by (auto simp: verify_and_land_def in_bindW)
  from rest fail_gate_merges have "\<not> wait" "\<not> truthy err" "CalledMerge k wt \<in> set (fst (land w m key s))"
    by (auto split: if_splits)
  with gate show ?thesis
    using gate_reverifies [of w plan key story pushed s err] land_merges [of k wt w m key s] by simp
qed

lemma silent_verify_and_land: "silent is_poll (verify_and_land w plan m key worktree pushed story)"
  by (auto simp: verify_and_land_def silent_gate silent_fail_gate silent_land intro!: silent_bindW split: prod.split)

lemma poll_and_land_merges:
  assumes "CalledMerge k wt \<in> set (fst (poll_and_land w plan m key branch (dget_or story ''worktree'' (PStr [])) pushed story))"
  shows "k = key \<and> reverified w key story pushed \<and>
    passing_poll (fst (poll_and_land w plan m key branch (dget_or story ''worktree'' (PStr [])) pushed story))
      branch (py_str (mw_show w) pushed)"
proof -
  let ?wt = "dget_or story ''worktree'' (PStr [])"
  let ?K = "insert ''merge_reverify'' verified_fields"
  have "CalledMerge k wt \<notin> set (fst (gate_poll w branch pushed story))"
    by (rule silent_notin [OF silent_poll, where p = is_merge]) auto
  with assms obtain s err definitive wait where
    gate: "snd (gate_poll w branch pushed story) = Inr (s, err, definitive, wait)" and
    rest: "CalledMerge k wt \<in> set (fst (if wait then tellW [Summarised ''ci_pending'' key] (retW s)
             else if err \<noteq> [] then fail_gate w key (PStr err) definitive s
             else verify_and_land w plan m key ?wt pushed s))"
    by (auto simp: poll_and_land_def in_bindW)
  from rest fail_gate_merges have now: "\<not> wait" "err = []"
    "CalledMerge k wt \<in> set (fst (verify_and_land w plan m key ?wt pushed s))"
    by (auto split: if_splits)
  from yieldsD [OF gate_poll_keeps [of ?K] gate] have keeps: "agree ?K story s" by simp
  then have wt: "?wt = dget_or s ''worktree'' (PStr [])" by (simp add: agree_def dget_or_def)
  have "k = key \<and> reverified w key s pushed"
    using now(3) unfolding wt by (rule verify_and_land_merges)
  with reverified_kept [OF _ keeps] job_kept_agree [OF keeps] have merged: "k = key" "reverified w key story pushed"
    by auto
  from gate now have "fst (poll_and_land w plan m key branch ?wt pushed story) =
      fst (gate_poll w branch pushed story) @ fst (verify_and_land w plan m key ?wt pushed s)"
    by (simp add: poll_and_land_def fst_bindW)
  then show ?thesis
    using merged gate_poll_passes [of w branch pushed story s definitive]
      gate now silent_verify_and_land [of w plan m key ?wt pushed s]
    by (simp add: passing_poll_def silent_def)
qed

text \<open>Where the commit to land comes from.\<close>

definition commit_of :: "merge_world \<Rightarrow> pydict \<Rightarrow> pyval \<Rightarrow> bool" where
  "commit_of w story pushed \<longleftrightarrow>
     (if truthy (dgetN story ''ci_pending_sha'') then pushed = dgetN story ''ci_pending_sha''
      else pushed = PStr [] \<or>
        (\<exists>out. mw_head_out w (the_str (dget_or story ''worktree'' (PStr []))) = Some out \<and> pushed = PStr (strip out)))"

definition head_of :: "merge_world \<Rightarrow> pyval \<Rightarrow> string \<Rightarrow> bool" where
  "head_of w worktree sha = (sha = [] \<or> (\<exists>out. mw_head_out w (the_str worktree) = Some out \<and> sha = strip out))"

lemma prepare_commit: "yields (\<lambda>(auto, err, pushed). head_of w worktree pushed) (prepare_merge w worktree branch)"
  by (auto simp: prepare_merge_def head_of_def intro!: yields_bindW_any split: prod.split option.split)

lemma rebase_commit:
  "yields (\<lambda>(err, pushed). head_of w worktree pushed) (rebase_and_push_for_merge w key branch worktree)"
  unfolding rebase_and_push_for_merge_def
  by (intro yields_bindW_any yields_bindW [OF prepare_commit]) auto

lemma worktree_head_of: "worktree_head w worktree = PNone \<or> (\<exists>sha. worktree_head w worktree = PStr sha \<and> head_of w worktree sha)"
  by (auto simp: worktree_head_def head_of_def split: option.split)

lemma landable_commit: "yields (\<lambda>(s, err, pushed). commit_of w story pushed) (landable w key branch story)"
proof (cases "truthy (dgetN story ''ci_pending_sha'')")
  case True
  then show ?thesis by (simp add: landable_def commit_of_def Let_def)
next
  case False
  let ?wt = "dget_or story ''worktree'' (PStr [])"
  have commit: "commit_of w story pushed \<longleftrightarrow> (\<exists>sha. pushed = PStr sha \<and> head_of w ?wt sha)" for pushed
    using False by (auto simp: commit_of_def head_of_def)
  show ?thesis
    unfolding landable_def commit Let_def if_not_P [OF False]
    using worktree_head_of [of w ?wt]
    by (auto dest: yieldsD [OF rebase_commit] intro!: yields_bindW_any split: prod.split)
      (drule yieldsD [OF rebase_commit], simp)+
qed

lemma landable_keeps:
  "''merge_reverify'' \<notin> K \<Longrightarrow> yields (\<lambda>(s, err, pushed). agree K story s) (landable w key branch story)"
  by (auto simp: landable_def drop_job_def Let_def intro!: yields_bindW_any split: prod.split)

lemma landable_job: "yields (\<lambda>(s, err, pushed). job_kept story s) (landable w key branch story)"
  by (auto simp: landable_def drop_job_def job_kept_def dgetN_def Let_def intro!: yields_bindW_any split: prod.split)

definition landed_under ::
  "merge_world \<Rightarrow> string \<Rightarrow> pydict \<Rightarrow> merge_call list \<Rightarrow> bool" where
  "landed_under w key story cs \<longleftrightarrow>
     (\<exists>branch head pushed. ProbedTip branch (PStr head) \<in> set cs \<and> approved_at story head \<and>
        commit_of w story pushed \<and> passing_poll cs branch (py_str (mw_show w) pushed) \<and> reverified w key story pushed)"

lemma passing_poll_prefix: "filter is_poll a = [] \<Longrightarrow> passing_poll (a @ b) br sha = passing_poll b br sha"
  by (simp add: passing_poll_def)

lemma attempt_landing_merges:
  assumes "CalledMerge k wt \<in> set (fst (attempt_landing w plan m key story))"
  shows "k = key \<and> landed_under w key story (fst (attempt_landing w plan m key story))"
proof -
  from assms obtain branch gate where
    branch: "worktree_branch w story key = Inr branch"
      "(if branch \<noteq> [] then Inr branch else story_branch (mw_env w) key) = Inr gate"
    by (auto simp: attempt_landing_def in_bindW)
  let ?head = "branch_head_sha (mw_fetch w) (mw_rev_parse w) gate"
  let ?ok = "fst (check (mw_show w) (PDict story) ?head)"
  let ?cont = "\<lambda>(s, err, pushed). let s = rebind w err pushed s in
      if err \<noteq> [] then fail_gate w key (PStr err) False s
      else poll_and_land w plan m key gate (dget_or s ''worktree'' (PStr [])) pushed s"
  have run: "fst (attempt_landing w plan m key story) = ProbedTip gate ?head #
      fst (if \<not> ?ok then deny w key ?head (snd (check (mw_show w) (PDict story) ?head)) story
           else bindW (landable w key branch story) ?cont)"
    using branch by (simp add: attempt_landing_def fst_bindW Let_def)
  have "CalledMerge k wt \<notin> set (fst (deny w key ?head reason story))" for reason
    by (rule no_merge_call [OF silent_deny, where p = is_merge]) auto
  with assms run have ok: ?ok and "CalledMerge k wt \<in> set (fst (bindW (landable w key branch story) ?cont))"
    by (auto split: if_splits)
  moreover have "CalledMerge k wt \<notin> set (fst (landable w key branch story))"
    by (rule no_merge_call [OF silent_landable, where p = is_merge]) auto
  ultimately obtain s err pushed where
    l: "snd (landable w key branch story) = Inr (s, err, pushed)" and
    c: "CalledMerge k wt \<in> set (fst (?cont (s, err, pushed)))"
    by (auto simp: in_bindW)
  let ?s = "rebind w err pushed s"
  from c fail_gate_merges have err: "err = []" and
    p: "CalledMerge k wt \<in> set (fst (poll_and_land w plan m key gate (dget_or ?s ''worktree'' (PStr [])) pushed ?s))"
    by (auto simp: Let_def split: if_splits)
  from ok obtain head where head: "?head = PStr head" "approved_at story head"
    by (auto simp: check_iff)
  have "fst (attempt_landing w plan m key story) = (ProbedTip gate ?head # fst (landable w key branch story)) @
      fst (poll_and_land w plan m key gate (dget_or ?s ''worktree'' (PStr [])) pushed ?s)"
    using run ok l err by (simp add: fst_bindW Let_def)
  moreover have "filter is_poll (ProbedTip gate ?head # fst (landable w key branch story)) = []"
    using silent_landable [of is_poll w key branch story] by (simp add: silent_def)
  ultimately have "passing_poll (fst (attempt_landing w plan m key story)) gate (py_str (mw_show w) pushed)"
    using poll_and_land_merges [OF p] passing_poll_prefix by metis
  moreover have "ProbedTip gate (PStr head) \<in> set (fst (attempt_landing w plan m key story))"
    using run head(1) by simp
  moreover have "reverified w key story pushed"
  proof -
    have "agree verified_fields story s"
      using yieldsD [OF landable_keeps [of verified_fields] l] by simp
    then have "agree verified_fields story ?s" using agree_trans rebind_keeps [of verified_fields] by fastforce
    moreover have "job_kept story ?s"
      using yieldsD [OF landable_job l] agree_dgetN [OF rebind_keeps [of "{''merge_reverify''}" s w err pushed]]
      by (simp add: job_kept_def)
    ultimately show ?thesis
      using poll_and_land_merges [OF p] reverified_kept by blast
  qed
  ultimately show ?thesis
    using poll_and_land_merges [OF p] head(2) yieldsD [OF landable_commit l]
    unfolding landed_under_def by auto
qed

text \<open>What the decision needs: switches, the approval, and for a high risk the overlord's word.\<close>

definition permitted :: "merge_world \<Rightarrow> string \<Rightarrow> pydict \<Rightarrow> merge_call list \<Rightarrow> bool" where
  "permitted w key story cs \<longleftrightarrow>
     mw_auto_merge w \<and> mw_autonomy w \<noteq> ''dry-run'' \<and>
     (\<exists>rank. risk_rank story = Inr rank \<and>
        (if 2 \<le> rank
         then mw_autonomy w = ''full'' \<and> (\<exists>u v. LoggedRuling key ''proceed'' u v \<in> set cs)
         else mw_autonomy w = ''full'' \<or> rank \<le> (case risk_order (mw_threshold w) of Some n \<Rightarrow> n | None \<Rightarrow> 0)))"

lemma parse_ruling_range: "parse_merge_ruling raw = Some (r, t) \<Longrightarrow> r = ''proceed'' \<or> r = ''park''"
  by (auto simp: parse_merge_ruling_def Let_def split: if_splits)

lemma high_risk_lands:
  "snd (adjudicate_high_risk_merge w key story) = Inr (story', Land reason) \<Longrightarrow>
     \<exists>u v. LoggedRuling key ''proceed'' u v \<in> set (fst (adjudicate_high_risk_merge w key story))"
  by (auto simp: adjudicate_high_risk_merge_def Let_def split: prod.splits option.splits if_splits)

lemma decision_lands:
  assumes "snd (merge_decision w key story) = Inr (story', Land reason)"
  shows "permitted w key story (fst (merge_decision w key story))"
proof -
  from assms obtain rank where "risk_rank story = Inr rank"
    by (auto simp: merge_decision_def okE split: if_splits)
  with assms high_risk_lands [of w key story story' reason] show ?thesis
    by (auto simp: merge_decision_def permitted_def okE in_bindW split: if_splits)
qed

lemma permitted_more: "permitted w key story cs \<Longrightarrow> set cs \<subseteq> set cs' \<Longrightarrow> permitted w key story cs'"
  unfolding permitted_def by (auto split: if_splits)

lemma permitted_agree:
  assumes "agree K story story'" "''risk'' \<in> K"
  shows "permitted w key story' cs = permitted w key story cs"
proof -
  have "risk_rank story' = risk_rank story"
    by (simp only: risk_rank_def agree_dgetN [OF assms])
  then show ?thesis by (simp only: permitted_def)
qed

lemma readjudicate_lands:
  assumes "snd (readjudicate_parked_merge_hold w key story) = Inr (story', Some (Land reason))"
  shows "permitted w key story (fst (readjudicate_parked_merge_hold w key story))"
proof -
  have ev: "reexaminable w story" "dget story ''status'' \<noteq> None"
    using assms by (auto simp: readjudicate_parked_merge_hold_def split: if_splits)
  let ?same = "\<lambda>c. py_eq (ci_val c) (dgetN (story_fields (dgetN story ''merge_park_evidence'')) ''pr_checks'')"
  from assms ev obtain c where c: "snd (evidence_now w key story) = Inr (Some c)" and ne: "\<not> ?same c"
    unfolding readjudicate_parked_merge_hold_def by (auto simp: bindE_Inr_iff split: option.splits if_splits)
  with assms ev obtain s1 r where d: "snd (merge_decision w key (dset ''pr_checks'' (ci_val c) story)) = Inr (s1, r)"
    and "snd (case r of Land _ \<Rightarrow> (retW (dset ''status'' (PStr ''pr_open'')
              (dpop ''merge_parked_at'' (dpop ''merge_park_evidence'' s1)), Some r) :: (pydict \<times> ruling option) gated)
           | Park _ \<Rightarrow> retW (dset ''merge_parked_at'' (PStr (mw_now w))
              (dset ''merge_park_evidence'' (evidence_of s1) s1), Some r)) = Inr (story', Some (Land reason))"
    unfolding readjudicate_parked_merge_hold_def by (auto simp: bindE_Inr_iff)
  then have d: "snd (merge_decision w key (dset ''pr_checks'' (ci_val c) story)) = Inr (s1, Land reason)"
    by (cases r) auto
  have "set (fst (merge_decision w key (dset ''pr_checks'' (ci_val c) story)))
      \<subseteq> set (fst (readjudicate_parked_merge_hold w key story))"
    using ev c ne by (auto simp: readjudicate_parked_merge_hold_def in_bindW)
  with decision_lands [OF d] have "permitted w key (dset ''pr_checks'' (ci_val c) story)
      (fst (readjudicate_parked_merge_hold w key story))" by (rule permitted_more)
  then show ?thesis
    using permitted_agree [of "{''risk''}" story "dset ''pr_checks'' (ci_val c) story"] by simp
qed

lemma landed_under_more:
  assumes "landed_under w key story' cs" "filter is_poll a = []"
    and "agree K story story'"
    and "{''review_verdict'', ''review_verdict_sha'', ''ci_pending_sha'', ''merge_reverify''} \<union> verified_fields \<subseteq> K"
  shows "landed_under w key story (a @ cs)"
proof -
  have "commit_of w story' = commit_of w story"
    using assms(3,4) by (auto simp: commit_of_def fun_eq_iff agree_def dgetN_def dget_or_def)
  moreover have "approved_at story' = approved_at story"
    using approved_at_agree [OF assms(3)] assms(4) by auto
  moreover have "reverified w key story' pushed \<Longrightarrow> reverified w key story pushed" for pushed
    using reverified_kept [OF _ assms(3)] job_kept_agree [OF assms(3)] assms(4) by simp
  ultimately show ?thesis
    using assms(1) passing_poll_prefix [OF assms(2)] unfolding landed_under_def by auto
qed


subsection \<open>Runs\<close>

text \<open>A story whose re-verify has passed: approved at its tip, CI green, the result names the commit.\<close>

definition demo_host :: code_host where
  "demo_host = \<lparr>checks_snapshot = (\<lambda>b s. Checks [(''t'', ''pass'')] []), ci_configured = True,
     failure_excerpt = (\<lambda>b. None)\<rparr>"

definition demo_jobs :: "string \<Rightarrow> pydict \<Rightarrow> job_world" where
  "demo_jobs detached doc =
     \<lparr>jw_env = [(''PIPELINE_MERGE_REVERIFY_DETACHED'', detached)], jw_pytest = False, jw_now = ''now'',
      jw_clock = 0, jw_instant = (\<lambda>s. None), jw_dirs = (\<lambda>p. p = ''/w''), jw_job_dir = (\<lambda>k. ''/j''),
      jw_spawn = Inr 7, jw_alive = (\<lambda>p. False), jw_killpg = (\<lambda>p. None),
      jw_result = (\<lambda>p. if p = ''/r'' then Some (PDict doc) else None), jw_log = (\<lambda>p. []), jw_show = (\<lambda>x. []), jw_text = (\<lambda>v. [])\<rparr>"

definition demo_world :: "job_world \<Rightarrow> code_host \<Rightarrow> string \<Rightarrow> merge_world" where
  "demo_world jobs host tip =
     \<lparr>mw_jobs = jobs, mw_checkout = demo_checkout, mw_autonomy = ''full'', mw_auto_merge = True,
      mw_threshold = ''low'', mw_max_attempts = 3, mw_ci_gate = True, mw_ci_timeout = 900,
      mw_hosts = (\<lambda>n. host), mw_poll_error = (\<lambda>n. None), mw_fetch = Some 0,
      mw_rev_parse = (\<lambda>r. Some (0, tip)), mw_head_name = (\<lambda>d. None), mw_head_out = (\<lambda>d. Some tip),
      mw_rebase = (\<lambda>d b. (True, [], False)), mw_push = (\<lambda>b. (0, [])), mw_overlord = (\<lambda>s. None),
      mw_merge_pr = (\<lambda>k. None), mw_self_touched = False, mw_default_branch = ''main'',
      mw_float = (\<lambda>s. None), mw_show = (\<lambda>v. []), mw_message = (\<lambda>e. []), mw_self_repo = []\<rparr>"

definition demo_passed :: pydict where
  "demo_passed = result_doc ''pass'' [] (PStr ''aaa'') PNone"

definition demo_ready :: pydict where
  "demo_ready =
     [(''status'', PStr ''pr_open''), (''review_verdict'', PStr ''APPROVE''), (''review_verdict_sha'', PStr ''aaa''),
      (''worktree'', PStr ''/w''),
      (''merge_reverify'', PDict [(''sha'', PStr ''aaa''), (''pid'', PInt 7), (''result_path'', PStr ''/r'')])]"

definition demo_merging :: merge_world where
  "demo_merging = demo_world (demo_jobs ''1'' demo_passed) demo_host ''aaa''"

text \<open>A tick on an open story, and one on a story its approval covers, in their parts.\<close>

lemma adjudicate_open:
  assumes "dget story ''status'' = Some (PStr ''pr_open'')"
    and "merge_decision w key story = (cs, Inr (story, Land reason))"
  shows "adjudicate_story w plan m key story =
    (cs @ fst (attempt_landing w plan m key story), snd (attempt_landing w plan m key story))"
proof -
  have "readjudicate_parked_merge_hold w key story = retW (story, None)"
    using assms(1) by (simp add: readjudicate_parked_merge_hold_def reexaminable_def dgetN_def)
  then show ?thesis
    using assms by (simp add: adjudicate_story_def bindW_def carry_out_def dgetN_def)
qed

lemma landing_covered:
  assumes "worktree_branch w story key = Inr branch" "branch \<noteq> []"
    and "branch_head_sha (mw_fetch w) (mw_rev_parse w) branch = PStr head" "approved_at story head"
    and "landable w key branch story = (cs, Inr (s, [], pushed))" "rebind w [] pushed s = s'"
  shows "attempt_landing w plan m key story =
    (ProbedTip branch (PStr head) # cs @ fst (poll_and_land w plan m key branch (dget_or s' ''worktree'' (PStr [])) pushed s'),
     snd (poll_and_land w plan m key branch (dget_or s' ''worktree'' (PStr [])) pushed s'))"
proof -
  have "fst (check (mw_show w) (PDict story) (PStr head))"
    using assms(4) by (simp add: check_iff)
  with assms show ?thesis
    by (simp add: attempt_landing_def Let_def bindW_def tellW_def liftW_def)
qed

lemma landing_uncovered:
  assumes "worktree_branch w story key = Inr branch" "branch \<noteq> []"
    and "branch_head_sha (mw_fetch w) (mw_rev_parse w) branch = PStr head" "\<not> approved_at story head"
  shows "\<exists>reason. attempt_landing w plan m key story =
    (ProbedTip branch (PStr head) # fst (deny w key (PStr head) reason story),
     snd (deny w key (PStr head) reason story))"
proof -
  have "\<not> fst (check (mw_show w) (PDict story) (PStr head))"
    using assms(4) by (simp add: check_iff)
  with assms show ?thesis
    by (auto simp: attempt_landing_def Let_def bindW_def tellW_def liftW_def)
qed

definition landed_calls :: "merge_call list" where
  "landed_calls = [ProbedTip ''agent/s1'' (PStr ''aaa''), PolledCi ''agent/s1'' ''aaa'' ''pass'',
     CalledMerge ''s1'' ''/w'', MarkedDone ''s1'', Noticed ''story_merged'', Summarised ''merged'' ''s1'',
     CountedResult ''merged'']"

lemma demo_decision: "merge_decision (demo_world jobs host tip) ''s1'' demo_ready = ([], Inr (demo_ready, Land ''autonomy=full''))"
proof -
  have "risk_rank demo_ready = Inr 0" by code_simp
  then show ?thesis
    by (simp add: merge_decision_def demo_world_def bindW_def liftW_def retW_def demo_ready_def dgetN_def)
qed

lemma demo_branch: "worktree_branch (demo_world (demo_jobs d doc) host tip) demo_ready ''s1'' = Inr ''agent/s1''"
proof -
  have "lower ''s1'' = ''s1''" by code_simp
  then show ?thesis
    by (simp add: worktree_branch_def resolve_story_branch_def story_branch_def env_get_def path_is_dir_def
        demo_world_def demo_jobs_def demo_ready_def dget_or_def Let_def)
qed

lemma demo_tip:
  "branch_head_sha (mw_fetch (demo_world jobs host ''aaa'')) (mw_rev_parse (demo_world jobs host ''aaa'')) ''agent/s1'' = PStr ''aaa''"
  by code_simp

lemma demo_landable:
  "landable (demo_world (demo_jobs d doc) host ''aaa'') ''s1'' branch demo_ready = ([], Inr (demo_ready, [], PStr ''aaa''))"
proof -
  have "strip ''aaa'' = ''aaa''" by code_simp
  then show ?thesis
    by (simp add: landable_def worktree_head_def demo_world_def demo_ready_def dget_or_def dgetN_def Let_def
        bindW_def liftW_def retW_def)
qed

lemma demo_rebind: "rebind w [] (PStr ''aaa'') demo_ready = demo_ready"
  by (simp add: rebind_def rebind_after_pipeline_push_def demo_ready_def dgetN_def)

lemma demo_landing:
  "fst (adjudicate_story (demo_world (demo_jobs d doc) demo_host ''aaa'') plan m ''s1'' demo_ready) =
     ProbedTip ''agent/s1'' (PStr ''aaa'') #
     fst (poll_and_land (demo_world (demo_jobs d doc) demo_host ''aaa'') plan m ''s1'' ''agent/s1'' (PStr ''/w'')
            (PStr ''aaa'') demo_ready) \<and>
   snd (adjudicate_story (demo_world (demo_jobs d doc) demo_host ''aaa'') plan m ''s1'' demo_ready) =
     snd (poll_and_land (demo_world (demo_jobs d doc) demo_host ''aaa'') plan m ''s1'' ''agent/s1'' (PStr ''/w'')
            (PStr ''aaa'') demo_ready)"
proof -
  let ?w = "demo_world (demo_jobs d doc) demo_host ''aaa''"
  have ready: "dget demo_ready ''status'' = Some (PStr ''pr_open'')" "approved_at demo_ready ''aaa''"
    "dget_or demo_ready ''worktree'' (PStr []) = PStr ''/w''"
    by (simp_all add: demo_ready_def approved_at_def dgetN_def dget_or_def)
  show ?thesis
    using adjudicate_open [OF ready(1) demo_decision, of "demo_jobs d doc" demo_host "''aaa''" plan m]
      landing_covered [OF demo_branch _ demo_tip ready(2) demo_landable demo_rebind, of d doc demo_host plan m]
    by (simp add: ready(3))
qed

lemma demo_merges:
  "CalledMerge ''s1'' ''/w'' \<in> set (fst (adjudicate_story demo_merging ''p'' [] ''s1'' demo_ready))"
proof -
  have "CalledMerge ''s1'' ''/w'' \<in> set (fst (poll_and_land demo_merging ''p'' [] ''s1'' ''agent/s1'' (PStr ''/w'')
            (PStr ''aaa'') demo_ready))" by code_simp
  then show ?thesis unfolding demo_merging_def by (simp only: demo_landing) simp
qed


text \<open>
  A result document that reports a red suite with an empty error merges: the error text is the gate's
  only sign of failure.  The job of this program never writes one.
\<close>

lemma red_document_merges:
  "CalledMerge ''s1'' ''/w'' \<in> set (fst (adjudicate_story
       (demo_world (demo_jobs ''1'' (result_doc ''fail'' [] (PStr ''aaa'') PNone)) demo_host ''aaa'') ''p'' [] ''s1'' demo_ready))"
proof -
  have "CalledMerge ''s1'' ''/w'' \<in> set (fst (poll_and_land
       (demo_world (demo_jobs ''1'' (result_doc ''fail'' [] (PStr ''aaa'') PNone)) demo_host ''aaa'')
       ''p'' [] ''s1'' ''agent/s1'' (PStr ''/w'') (PStr ''aaa'') demo_ready))" by code_simp
  then show ?thesis by (simp only: demo_landing) simp
qed

end
