(* ===== verification/MergeRounds.thy ===== *)
theory MergeRounds
  imports MergeSafety
begin

text \<open>
  How often the merge phase can turn a story away: the two counters a failing round uses up, the bound
  this puts on the rounds of a story for every budget it is given, and runs that show where the phase does
  not do what its comments say.
\<close>

subsection \<open>Counters\<close>

definition counter :: "pydict \<Rightarrow> string \<Rightarrow> int \<Rightarrow> bool" where
  "counter story k n \<longleftrightarrow> dget_or story k (PInt 0) = PInt n"

lemma counter_agree: "agree K d d' \<Longrightarrow> k \<in> K \<Longrightarrow> counter d' k n = counter d k n"
  by (simp add: counter_def agree_def dget_or_def)

lemma counter_dset [simp]: "counter (dset k (PInt n) d) k m \<longleftrightarrow> m = n"
  "k \<noteq> k' \<Longrightarrow> counter (dset k' v d) k m = counter d k m"
  by (auto simp: counter_def dget_or_def)

lemma counter_dpop [simp]: "k \<noteq> k' \<Longrightarrow> counter (dpop k' d) k m = counter d k m"
  by (simp add: counter_def dget_or_def)

lemma count_up_counter: "counter story k n \<Longrightarrow> count_up (dget_or story k (PInt 0)) = Inr (PInt (n + 1))"
  by (simp add: counter_def count_up_def mapL_def)

lemma below_counter: "counter story k n \<Longrightarrow> below (dget_or story k (PInt 0)) limit = Inr (n < limit)"
  by (auto simp: counter_def below_def num_lt_def)

lemma used_up_int [simp]: "used_up w (PInt n) \<longleftrightarrow> mw_max_attempts w \<le> n"
  by (simp add: used_up_def)

text \<open>
  A round turns the story away or settles it.  \<open>room\<close> is what is left of both budgets; \<open>spends\<close> says that
  a round never gives any of it back, and takes some when it turns the story away.
\<close>

definition turned_away :: "merge_call list \<Rightarrow> bool" where
  "turned_away cs = (filter is_away cs \<noteq> [])"

definition room :: "int \<Rightarrow> int \<Rightarrow> int \<Rightarrow> int \<Rightarrow> nat" where
  "room most_attempts most_conflicts a c = nat (most_attempts - a) + nat (most_conflicts - c)"

definition room_left :: "merge_world \<Rightarrow> pydict \<Rightarrow> nat \<Rightarrow> bool" where
  "room_left w story n \<longleftrightarrow> (\<exists>a c. counter story ''merge_attempts'' a \<and> counter story ''conflict_reworks'' c \<and>
     n = room (mw_max_attempts w) (conflict_rework_max (mw_env w)) a c)"

definition spends :: "merge_world \<Rightarrow> nat \<Rightarrow> pydict gated \<Rightarrow> bool" where
  "spends w n m \<longleftrightarrow> (\<forall>story'. snd m = Inr story' \<longrightarrow>
     dgetN story' ''status'' = PStr ''done'' \<and> \<not> turned_away (fst m) \<or>
     (\<exists>n'. room_left w story' n' \<and> (if turned_away (fst m) then n' < n else n' \<le> n)))"

lemma turned_away_append [simp]: "turned_away (a @ b) \<longleftrightarrow> turned_away a \<or> turned_away b"
  by (auto simp: turned_away_def)

lemma turned_away_simps [simp]:
  "\<not> turned_away []" "turned_away (x # xs) \<longleftrightarrow> is_away x \<or> turned_away xs"
  by (auto simp: turned_away_def)

lemma silent_turned_away: "silent is_away m \<Longrightarrow> \<not> turned_away (fst m)"
  by (simp add: silent_def turned_away_def)

lemma dropped_turned_away: "drop_job w story = (cs, story') \<Longrightarrow> \<not> turned_away cs"
  using rare_dropped [of w story cs story' is_away] by (simp add: turned_away_def)

lemma spends_silent_bind:
  assumes "silent is_away m" "\<And>x. snd m = Inr x \<Longrightarrow> spends w n (f x)"
  shows "spends w n (bindW m f)"
  unfolding spends_def
proof (intro allI impI)
  fix story'
  assume "snd (bindW m f) = Inr story'"
  then obtain x where x: "snd m = Inr x" "snd (f x) = Inr story'" by (auto simp: bindE_Inr_iff)
  then have "fst (bindW m f) = fst m @ fst (f x)" by (simp add: fst_bindW)
  with assms(2) [OF x(1)] x(2) silent_turned_away [OF assms(1)]
  show "dgetN story' ''status'' = PStr ''done'' \<and> \<not> turned_away (fst (bindW m f)) \<or>
      (\<exists>n'. room_left w story' n' \<and> (if turned_away (fst (bindW m f)) then n' < n else n' \<le> n))"
    by (simp add: spends_def)
qed

lemma spends_tell: "\<not> turned_away cs \<Longrightarrow> spends w n (tellW cs m) = spends w n m"
  by (simp add: spends_def)

lemma spends_kept: "room_left w story n \<Longrightarrow> spends w n (retW story)"
  by (auto simp: spends_def)

lemma spends_raise [simp]: "spends w n (liftW (Inl e))"
  by (simp add: spends_def)

lemma spends_if: "(b \<Longrightarrow> spends w n m) \<Longrightarrow> (\<not> b \<Longrightarrow> spends w n m') \<Longrightarrow> spends w n (if b then m else m')"
  by simp

lemma room_left_agree:
  "agree K story story' \<Longrightarrow> {''merge_attempts'', ''conflict_reworks''} \<subseteq> K \<Longrightarrow> room_left w story' n = room_left w story n"
  by (simp add: room_left_def counter_agree)

lemma room_left_other [simp]:
  "k \<notin> {''merge_attempts'', ''conflict_reworks''} \<Longrightarrow> room_left w (dset k v story) n = room_left w story n"
  "k \<notin> {''merge_attempts'', ''conflict_reworks''} \<Longrightarrow> room_left w (dpop k story) n = room_left w story n"
  by (auto intro!: room_left_agree [of "{''merge_attempts'', ''conflict_reworks''}"])

lemma drop_job_room: "drop_job w story = (cs, story') \<Longrightarrow> room_left v story' n = room_left v story n"
  by (auto simp: drop_job_def)

text \<open>One attempt more, or one conflict round more.\<close>

lemma attempt_room:
  assumes "room_left w story n" "counter story ''merge_attempts'' a"
  shows "\<exists>n'. room_left w (dset ''merge_attempts'' (PInt (a + 1)) story) n' \<and> n' \<le> n \<and>
    (a < mw_max_attempts w \<longrightarrow> n' < n)"
proof -
  let ?room = "room (mw_max_attempts w) (conflict_rework_max (mw_env w))"
  from assms obtain c where "counter story ''conflict_reworks'' c" "n = ?room a c"
    by (auto simp: room_left_def counter_def)
  then show ?thesis
    by (intro exI [of _ "?room (a + 1) c"]) (auto simp: room_left_def room_def counter_def dget_or_def)
qed

lemma conflict_room:
  assumes "room_left w story n" "counter story ''conflict_reworks'' c" "c < conflict_rework_max (mw_env w)"
  shows "\<exists>n'. room_left w (dset ''conflict_reworks'' (PInt (c + 1)) story) n' \<and> n' < n"
proof -
  let ?room = "room (mw_max_attempts w) (conflict_rework_max (mw_env w))"
  from assms(1,2) obtain a where "counter story ''merge_attempts'' a" "n = ?room a c"
    by (auto simp: room_left_def counter_def)
  with assms(3) show ?thesis
    by (intro exI [of _ "?room a (c + 1)"]) (auto simp: room_left_def room_def counter_def dget_or_def)
qed

lemma give_up_spends:
  assumes "room_left w story n" "event = ''merge_gate'' \<or> event = ''merge''"
  shows "spends w n (give_up_or_retry w key b event err story)"
proof -
  from assms(1) obtain a where a: "counter story ''merge_attempts'' a" by (auto simp: room_left_def)
  from attempt_room [OF assms(1) a] obtain n' where
    n': "room_left w (dset ''merge_attempts'' (PInt (a + 1)) story) n'" "n' \<le> n" "a < mw_max_attempts w \<longrightarrow> n' < n"
    by blast
  let ?story = "dset ''merge_attempts'' (PInt (a + 1)) story"
  have away: "\<not> is_away (Noticed (event @ ''_failed''))"
    using assms(2) by (auto simp: away_notices_def)
  show ?thesis
  proof (cases "mw_max_attempts w \<le> a + 1")
    case True
    obtain cs s where d: "(if b then drop_job w ?story else ([], ?story)) = (cs, s)" by fastforce
    then have "\<not> turned_away cs" "room_left w s n'"
      using n'(1) drop_job_room [of w ?story cs s w n'] dropped_turned_away [of w ?story cs s]
      by (auto split: if_splits)
    with d True n'(2) away show ?thesis
      by (auto simp: give_up_or_retry_def count_up_counter [OF a] Let_def spends_def bindE_Inr_iff fst_bindW)
  next
    case False
    with n' show ?thesis
      by (auto simp: give_up_or_retry_def count_up_counter [OF a] Let_def spends_def bindE_Inr_iff fst_bindW)
  qed
qed

lemma send_back_spends:
  assumes "counter story k a" "room_left w (dset k (PInt (a + 1)) story) n'" "n' < n"
  shows "spends w n (send_back w key k event brief story)"
proof -
  have "room_left w s n'" if "drop_job w (dset ''review_feedback'' v (dset ''ci_rework'' (PBool True)
      (dset k (PInt (a + 1)) story))) = (cs, s)" for v cs s
    using drop_job_room [OF that, of w n'] assms(2) by simp
  then have "yields (\<lambda>s. room_left w s n') (send_back w key k event brief story)"
    by (auto simp: send_back_def count_up_counter [OF assms(1)] Let_def intro!: yields_bindW_any split: prod.split)
  with assms(3) show ?thesis by (auto simp: spends_def yields_def)
qed

lemma fail_gate_spends:
  assumes "room_left w story n"
  shows "spends w n (fail_gate w key err definitive story)"
proof -
  from assms obtain a c where ac: "counter story ''merge_attempts'' a" "counter story ''conflict_reworks'' c"
    by (auto simp: room_left_def)
  have conflict: "spends w n (send_back w key ''conflict_reworks'' ev brief story)"
    if "conflict_ok w e story = Inr True" for e ev brief
  proof -
    from that have "c < conflict_rework_max (mw_env w)"
      by (auto simp: conflict_ok_def below_counter [OF ac(2)] split: if_splits)
    from conflict_room [OF assms ac(2) this] show ?thesis using send_back_spends [OF ac(2)] by blast
  qed
  have rework: "spends w n (send_back w key ''merge_attempts'' ev brief story)"
    if "rework_ok w definitive story = Inr True" for ev brief
  proof -
    from that have "a < mw_max_attempts w"
      by (auto simp: rework_ok_def below_counter [OF ac(1)] split: if_splits)
    with attempt_room [OF assms ac(1)] show ?thesis using send_back_spends [OF ac(1)] by blast
  qed
  show ?thesis
    unfolding fail_gate_def
    by (intro spends_silent_bind) (auto intro!: spends_silent_bind conflict rework give_up_spends assms)
qed

text \<open>Every other step leaves both counters alone.\<close>

abbreviation counters :: "string set" where
  "counters \<equiv> {''merge_attempts'', ''conflict_reworks''}"

lemma reverify_keeps:
  "reverify_acceptance w story worktree key = Inr (r, story') \<Longrightarrow> agree counters story story'"
  by (auto simp: reverify_acceptance_def Let_def okE split: if_splits option.splits)

lemma judge_keeps: "judge_result pushed res story = Inr (story', err, wait) \<Longrightarrow> agree counters story story'"
  by (auto simp: judge_result_def Let_def okE split: if_splits pyval.splits)

lemma gate_keeps:
  "yields (\<lambda>(s, err, wait). agree counters story s) (merge_reverify_gate w plan key worktree pushed story)"
  by (auto simp: merge_reverify_gate_def inline_reverify_def start_job_def collect_job_def drop_job_def
      yields_liftW Let_def okE dest: reverify_keeps judge_keeps intro!: yields_bindW_any
      split: prod.split pyval.split sum.split option.split if_splits)

lemma land_spends:
  assumes "room_left w story n"
  shows "spends w n (land w m key story)"
proof (cases "mw_merge_pr w key")
  case None
  have "\<not> turned_away (fst (maybe_record_retro w mm))" for mm
    by (rule silent_turned_away) (auto simp: maybe_record_retro_def intro!: silent_bindW)
  with None show ?thesis
    by (auto simp: land_def spends_def Let_def bindE_Inr_iff fst_bindW dgetN_def)
next
  case (Some err)
  with give_up_spends [OF assms, of "''merge''"] show ?thesis by (simp add: land_def spends_tell)
qed

lemma verify_and_land_spends:
  assumes "room_left w story n"
  shows "spends w n (verify_and_land w plan m key worktree pushed story)"
  unfolding verify_and_land_def
proof (rule spends_silent_bind)
  show "silent is_away (merge_reverify_gate w plan key worktree pushed story)"
    by (rule silent_gate) simp
next
  fix x
  assume x: "snd (merge_reverify_gate w plan key worktree pushed story) = Inr x"
  obtain s err wait where e: "x = (s, err, wait)" by (cases x) auto
  from yieldsD [OF gate_keeps x] e have "room_left w s n"
    using assms room_left_agree [of counters story s w n] by simp
  then show "spends w n (case x of (story, err, wait) \<Rightarrow> if wait then retW story
      else if truthy err then fail_gate w key err False story else land w m key story)"
    using e by (simp add: spends_kept fail_gate_spends land_spends)
qed

lemma poll_and_land_spends:
  assumes "room_left w story n"
  shows "spends w n (poll_and_land w plan m key branch worktree pushed story)"
  unfolding poll_and_land_def
proof (rule spends_silent_bind)
  show "silent is_away (gate_poll w branch pushed story)"
    by (rule silent_poll) simp_all
next
  fix x
  assume x: "snd (gate_poll w branch pushed story) = Inr x"
  obtain s err definitive wait where e: "x = (s, err, definitive, wait)" by (cases x) auto
  from yieldsD [OF gate_poll_keeps [of counters] x] e have "room_left w s n"
    using assms room_left_agree [of counters story s w n] by simp
  then show "spends w n (case x of (story, err, definitive, wait) \<Rightarrow>
      if wait then tellW [Summarised ''ci_pending'' key] (retW story)
      else if err \<noteq> [] then fail_gate w key (PStr err) definitive story
      else verify_and_land w plan m key worktree pushed story)"
    using e by (simp add: spends_kept spends_tell fail_gate_spends verify_and_land_spends)
qed

lemma kept_spends:
  assumes "silent is_away m" "yields (\<lambda>s. agree counters story s) m" "room_left w story n"
  shows "spends w n m"
  unfolding spends_def
proof (intro allI impI)
  fix s
  assume "snd m = Inr s"
  with yieldsD [OF assms(2)] have "room_left w s n"
    using assms(3) room_left_agree [of counters story s w n] by simp
  with silent_turned_away [OF assms(1)]
  show "dgetN s ''status'' = PStr ''done'' \<and> \<not> turned_away (fst m) \<or>
      (\<exists>n'. room_left w s n' \<and> (if turned_away (fst m) then n' < n else n' \<le> n))"
    by (intro disjI2 exI [of _ n]) simp
qed

lemma deny_spends: "room_left w story n \<Longrightarrow> spends w n (deny w key head reason story)"
  by (rule kept_spends [OF silent_deny]) (auto simp: deny_def drop_job_def)

lemma park_spends: "room_left w story n \<Longrightarrow> spends w n (park w key reason story)"
  by (rule kept_spends [OF silent_park]) (auto simp: park_def drop_job_def)

lemma attempt_landing_spends:
  assumes "room_left w story n"
  shows "spends w n (attempt_landing w plan m key story)"
proof -
  have land: "spends w n (let s' = rebind w err pushed s in
      if err \<noteq> [] then fail_gate w key (PStr err) False s'
      else poll_and_land w plan m key gate (dget_or s' ''worktree'' (PStr [])) pushed s')"
    if "agree counters story s" for s err pushed gate
  proof -
    have "agree counters story (rebind w err pushed s)"
      by (rule agree_trans [OF that]) (simp add: rebind_keeps)
    then have "room_left w (rebind w err pushed s) n"
      using assms room_left_agree [of counters story "rebind w err pushed s" w n] by simp
    from fail_gate_spends [OF this] poll_and_land_spends [OF this] show ?thesis
      unfolding Let_def by (intro spends_if)
  qed
  have keeps: "agree counters story s" if "snd (landable w key b story) = Inr (s, err, pushed)" for b s err pushed
    using yieldsD [OF landable_keeps [of counters] that] by simp
  have step: "spends w n (bindW (landable w key b story) (\<lambda>(story, err, pushed).
      let story = rebind w err pushed story in
      if err \<noteq> [] then fail_gate w key (PStr err) False story
      else poll_and_land w plan m key gate (dget_or story ''worktree'' (PStr [])) pushed story))" for b gate
  proof (rule spends_silent_bind [OF silent_landable])
    fix x
    assume x: "snd (landable w key b story) = Inr x"
    obtain s err pushed where "x = (s, err, pushed)" by (cases x)
    with x keeps land [of s err pushed gate] show "spends w n (case x of (story, err, pushed) \<Rightarrow>
        let story = rebind w err pushed story in
        if err \<noteq> [] then fail_gate w key (PStr err) False story
        else poll_and_land w plan m key gate (dget_or story ''worktree'' (PStr [])) pushed story)" by simp
  qed simp
  show ?thesis
    unfolding attempt_landing_def Let_def
    by (rule spends_silent_bind, simp, rule spends_silent_bind, simp, subst spends_tell, simp, rule spends_if,
        rule deny_spends [OF assms], rule step [unfolded Let_def])
qed

lemma carry_out_spends: "room_left w story n \<Longrightarrow> spends w n (carry_out w plan m key story d)"
  by (cases d) (simp_all add: carry_out_def park_spends attempt_landing_spends)

lemma adjudicate_spends:
  assumes "room_left w story n"
  shows "spends w n (adjudicate_story w plan m key story)"
  unfolding adjudicate_story_def
proof (rule spends_silent_bind)
  show "silent is_away (readjudicate_parked_merge_hold w key story)"
    by (rule silent_readjudicate) simp
next
  fix x
  assume x: "snd (readjudicate_parked_merge_hold w key story) = Inr x"
  obtain s d where e: "x = (s, d)" by (cases x)
  from yieldsD [OF readjudicate_keeps [of counters] x] e have s: "room_left w s n"
    using assms room_left_agree [of counters story s w n] by simp
  have "room_left w s' n" if "snd (merge_decision w key s) = Inr (s', r)" for s' r
    using yieldsD [OF decision_keeps [of counters] that] s room_left_agree [of counters s s' w n] by simp
  then have "spends w n (bindW (merge_decision w key s) (\<lambda>(story, d). carry_out w plan m key story d))"
    by (intro spends_silent_bind silent_decision) (auto intro: carry_out_spends)
  with s e show "spends w n (case x of (story, d) \<Rightarrow> case d of
        Some d \<Rightarrow> carry_out w plan m key story d
      | None \<Rightarrow> if dgetN story ''status'' \<noteq> PStr ''pr_open'' then retW story
          else bindW (merge_decision w key story) (\<lambda>(story, d). carry_out w plan m key story d))"
    by (auto simp: carry_out_spends spends_kept split: option.split)
qed

text \<open>
  The rounds of one story over any ticks.  A tick gets the story as it is stored then.  It goes on with the
  counters the last tick left, or the budget starts afresh: at the first tick, when the last one merged the
  story but its save was lost, and whenever the stored counters are not the ones left behind (\<open>unpark.py\<close>
  clears \<open>merge_attempts\<close>, a tick that raises later saves nothing).
\<close>

definition left_by :: "(merge_call, gate_exn, pydict) logged \<Rightarrow> pydict \<Rightarrow> pydict option" where
  "left_by m now =
     (case snd m of
        Inl _ \<Rightarrow> Some now
      | Inr after \<Rightarrow> if dgetN after ''status'' = PStr ''done'' then None else Some after)"

definition goes_on :: "pydict option \<Rightarrow> pydict \<Rightarrow> bool" where
  "goes_on prev now = (case prev of None \<Rightarrow> False | Some s \<Rightarrow>
     list_all (\<lambda>k. dget now k = dget s k) [''merge_attempts'', ''conflict_reworks''])"

fun fresh_budgets :: "string \<Rightarrow> string \<Rightarrow> (merge_world \<times> pydict \<times> pydict) list \<Rightarrow> pydict option \<Rightarrow> nat" where
  "fresh_budgets plan key [] prev = 0"
| "fresh_budgets plan key ((w, m, now) # rounds) prev =
     (if goes_on prev now then 0 else 1) +
     fresh_budgets plan key rounds (left_by (adjudicate_story w plan m key now) now)"

text \<open>Every tick has the same limits and stored counters that are absent or natural numbers.\<close>

definition sane_round :: "int \<Rightarrow> int \<Rightarrow> merge_world \<times> pydict \<times> pydict \<Rightarrow> bool" where
  "sane_round limit conflicts r =
     (case r of (w, m, now) \<Rightarrow>
        mw_max_attempts w = limit \<and> conflict_rework_max (mw_env w) = conflicts \<and>
        list_all (\<lambda>k. case dget_or now k (PInt 0) of PInt n \<Rightarrow> 0 \<le> n | _ \<Rightarrow> False)
          [''merge_attempts'', ''conflict_reworks''])"

definition away_rounds :: "string \<Rightarrow> string \<Rightarrow> (merge_world \<times> pydict \<times> pydict) list \<Rightarrow> nat" where
  "away_rounds plan key rounds =
     length (filter (\<lambda>(w, m, now). case adjudicate_story w plan m key now of
         (cs, Inr _) \<Rightarrow> turned_away cs | _ \<Rightarrow> False) rounds)"

lemma goes_on_agree: "goes_on (Some s) now = agree counters s now"
  by (simp add: goes_on_def agree_def)

lemma sane_room:
  assumes "sane_round limit conflicts (w, m, now)"
  shows "\<exists>n. room_left w now n \<and> n \<le> nat limit + nat conflicts"
proof -
  from assms obtain a c where "counter now ''merge_attempts'' a" "0 \<le> a" "counter now ''conflict_reworks'' c" "0 \<le> c"
    by (auto simp: sane_round_def counter_def split: pyval.splits)
  with assms show ?thesis
    by (intro exI [of _ "room limit conflicts a c"]) (auto simp: room_left_def sane_round_def room_def)
qed

text \<open>What the counters of a story leave of both limits, at most.\<close>

definition budget_within :: "int \<Rightarrow> int \<Rightarrow> nat \<Rightarrow> pydict \<Rightarrow> bool" where
  "budget_within limit conflicts n s \<longleftrightarrow> (\<exists>a c. counter s ''merge_attempts'' a \<and> counter s ''conflict_reworks'' c \<and>
     room limit conflicts a c \<le> n)"

lemma budget_room:
  assumes "mw_max_attempts w = limit" "conflict_rework_max (mw_env w) = conflicts"
  shows "budget_within limit conflicts n s \<longleftrightarrow> (\<exists>n'. room_left w s n' \<and> n' \<le> n)"
  using assms by (auto simp: budget_within_def room_left_def)

lemma round_budget:
  assumes "sane_round limit conflicts (w, m, now)"
    and "\<And>s. prev = Some s \<Longrightarrow> budget_within limit conflicts n s"
  shows "\<exists>n'. room_left w now n' \<and> n' \<le> n + (nat limit + nat conflicts) * (if goes_on prev now then 0 else 1)"
proof (cases "goes_on prev now")
  case True
  then obtain s where s: "prev = Some s" by (auto simp: goes_on_def split: option.splits)
  with True have "agree counters s now" by (simp add: goes_on_agree)
  then have "room_left w now n' = room_left w s n'" for n'
    using room_left_agree [of counters s now w n'] by simp
  with True assms(2) [OF s] show ?thesis
    using budget_room [of w limit conflicts n s] assms(1) by (auto simp: sane_round_def)
next
  case False
  with sane_room [OF assms(1)] show ?thesis by fastforce
qed

lemma round_left:
  assumes "room_left w now n" "mw_max_attempts w = limit" "conflict_rework_max (mw_env w) = conflicts"
    and "adjudicate_story w plan m key now = (cs, res)" "left_by (cs, res) now = Some s"
  shows "budget_within limit conflicts (n - (case res of Inr _ \<Rightarrow> if turned_away cs then 1 else 0 | Inl _ \<Rightarrow> 0)) s"
proof (cases res)
  case (Inl e)
  with assms show ?thesis by (auto simp: left_by_def budget_room)
next
  case (Inr after)
  with assms(5) have "s = after" "dgetN after ''status'' \<noteq> PStr ''done''"
    by (auto simp: left_by_def split: if_splits)
  with adjudicate_spends [OF assms(1), of plan m key] assms(4) Inr obtain n' where
    "room_left w s n'" "if turned_away cs then n' < n else n' \<le> n"
    by (auto simp: spends_def)
  then show ?thesis
    using Inr budget_room [OF assms(2,3), of _ s] by (auto split: if_splits)
qed

lemma away_has_room:
  assumes "room_left w now n" "adjudicate_story w plan m key now = (cs, Inr s)" "turned_away cs"
  shows "0 < n"
  using adjudicate_spends [OF assms(1), of plan m key] assms(2,3) by (auto simp: spends_def)

lemma away_rounds_bounded:
  assumes "list_all (sane_round limit conflicts) rounds"
    and "\<And>s. prev = Some s \<Longrightarrow> budget_within limit conflicts n s"
  shows "away_rounds plan key rounds \<le> n + (nat limit + nat conflicts) * fresh_budgets plan key rounds prev"
  using assms
proof (induction rounds arbitrary: prev n)
  case Nil
  then show ?case by (simp add: away_rounds_def)
next
  case (Cons r rounds)
  obtain w m now where r: "r = (w, m, now)" by (cases r)
  let ?L = "nat limit + nat conflicts"
  obtain cs res where run: "adjudicate_story w plan m key now = (cs, res)" by fastforce
  let ?away = "(case res of Inr _ \<Rightarrow> if turned_away cs then 1 else 0 | Inl _ \<Rightarrow> 0) :: nat"
  from Cons.prems(1) r have sane: "sane_round limit conflicts (w, m, now)" by simp
  from round_budget [OF this Cons.prems(2)] obtain n1 where
    n1: "room_left w now n1" "n1 \<le> n + ?L * (if goes_on prev now then 0 else 1)" by blast
  have "?away \<le> n1"
    using away_has_room [OF n1(1)] run by (auto split: sum.split) (metis Suc_leI)
  moreover have "away_rounds plan key rounds \<le> (n1 - ?away) + ?L * fresh_budgets plan key rounds (left_by (cs, res) now)"
    using Cons.IH [of "left_by (cs, res) now" "n1 - ?away"] Cons.prems(1) round_left [OF n1(1) _ _ run] sane
    by (simp add: sane_round_def)
  moreover have "away_rounds plan key (r # rounds) = ?away + away_rounds plan key rounds"
    using r run by (simp add: away_rounds_def split: sum.split)
  ultimately show ?case
    using n1(2) r run by (simp add: algebra_simps split: if_splits)
qed

text \<open>
  C18: The merge gate cannot send a story round for ever on one budget.  Over any ticks with the same limits,
  whatever git, CI, the overlord and the other phases do in between, it turns a story away at most as often
  as the limits on merge attempts and on conflict rounds allow together, times the number of budgets: the
  first tick opens one, and every tick that does not find the counters the last one left (they were cleared,
  or the last tick was not saved), or that follows a merge, opens another.
\<close>

theorem merge_rounds_are_bounded:
  assumes "list_all (sane_round limit conflicts) rounds" "0 \<le> limit" "0 \<le> conflicts"
  shows "int (away_rounds plan key rounds) \<le> (limit + conflicts) * int (fresh_budgets plan key rounds None)"
proof -
  have "away_rounds plan key rounds \<le> (nat limit + nat conflicts) * fresh_budgets plan key rounds None"
    using away_rounds_bounded [OF assms(1), of None 0 plan key] by simp
  then have "int (away_rounds plan key rounds) \<le> int ((nat limit + nat conflicts) * fresh_budgets plan key rounds None)"
    by (simp only: of_nat_le_iff)
  with assms(2,3) show ?thesis by simp
qed

subsection \<open>Runs\<close>

lemma landing_failed:
  assumes "worktree_branch w story key = Inr branch" "branch \<noteq> []"
    and "branch_head_sha (mw_fetch w) (mw_rev_parse w) branch = PStr head" "approved_at story head"
    and "landable w key branch story = (cs, Inr (s, err, pushed))" "err \<noteq> []"
  shows "attempt_landing w plan m key story =
    (ProbedTip branch (PStr head) # cs @ fst (fail_gate w key (PStr err) False s), snd (fail_gate w key (PStr err) False s))"
proof -
  have "fst (check (mw_show w) (PDict story) (PStr head))"
    using assms(4) by (simp add: check_iff)
  with assms show ?thesis
    by (simp add: attempt_landing_def rebind_def Let_def bindW_def tellW_def liftW_def)
qed

text \<open>A branch that cannot be rebased: the story is turned away and the round counted.\<close>

definition demo_open :: pydict where
  "demo_open = dpop ''merge_reverify'' demo_ready"

definition stuck_world :: merge_world where
  "stuck_world = demo_world (demo_jobs ''0'' []) demo_host ''aaa'' \<lparr>mw_rebase := \<lambda>d b. (False, ''x'', False)\<rparr>"

definition stuck_once :: pydict where
  "stuck_once = dset ''merge_attempts'' (PInt 1) demo_open"

lemma demo_open_facts:
  "dget demo_open ''status'' = Some (PStr ''pr_open'')" "approved_at demo_open ''aaa''"
  by (simp_all add: demo_open_def demo_ready_def approved_at_def dgetN_def)

lemma stuck_parts:
  "merge_decision stuck_world ''s1'' demo_open = ([], Inr (demo_open, Land ''autonomy=full''))"
  "worktree_branch stuck_world demo_open ''s1'' = Inr ''agent/s1''"
  "branch_head_sha (mw_fetch stuck_world) (mw_rev_parse stuck_world) ''agent/s1'' = PStr ''aaa''"
  "landable stuck_world ''s1'' ''agent/s1'' demo_open = ([], Inr (demo_open, ''rebase: x'', PStr []))"
  "fail_gate stuck_world ''s1'' (PStr ''rebase: x'') False demo_open =
     ([Noticed ''merge_gate_retry'', Summarised ''notify'' ''s1''], Inr stuck_once)"
  by code_simp+

lemma stuck_round:
  "adjudicate_story stuck_world ''p'' [] ''s1'' demo_open =
     ([ProbedTip ''agent/s1'' (PStr ''aaa''), Noticed ''merge_gate_retry'', Summarised ''notify'' ''s1''], Inr stuck_once)"
  using adjudicate_open [OF demo_open_facts(1) stuck_parts(1), of "''p''" "[]"]
    landing_failed [OF stuck_parts(2) _ stuck_parts(3) demo_open_facts(2) stuck_parts(4), of "''p''" "[]"]
  by (simp add: stuck_parts(5))

theorem merge_rounds_are_bounded_witness:
  "away_rounds ''p'' ''s1'' [(stuck_world, [], demo_open)] = 1 \<and>
   fresh_budgets ''p'' ''s1'' [(stuck_world, [], demo_open)] None = 1 \<and>
   int (away_rounds ''p'' ''s1'' [(stuck_world, [], demo_open)]) \<le> (3 + 2) * 1"
proof -
  have "mw_max_attempts stuck_world = 3" "conflict_rework_max (mw_env stuck_world) = 2"
    by code_simp+
  then have "list_all (sane_round 3 2) [(stuck_world, [], demo_open)]"
    by (simp add: sane_round_def demo_open_def demo_ready_def dget_or_def)
  from merge_rounds_are_bounded [OF this, of "''p''" "''s1''"] show ?thesis
    by (simp add: away_rounds_def goes_on_def stuck_round away_notices_def)
qed

text \<open>
  The awaited commit outlives a denial and a new review.  One tick waits for the CI of \<open>aaa\<close>; a push
  moves the tip to \<open>bbb\<close> and the next tick parks the story; a review approves \<open>bbb\<close>; the tick after it
  polls \<open>aaa\<close> again and, with the inline re-verify, merges \<open>bbb\<close> without one poll of its CI.
\<close>

definition tick_world :: "string \<Rightarrow> string \<Rightarrow> merge_world" where
  "tick_world state tip = demo_world (demo_jobs ''0'' [])
     (demo_host\<lparr>checks_snapshot := \<lambda>b s. Checks [(''t'', state)] []\<rparr>) tip"

definition waiting :: pydict where
  "waiting = dset ''ci_pending_sha'' (PStr ''aaa'') (dset ''ci_pending_since'' (PStr ''now'')
     (dset ''pr_checks'' (ci_val (ci PENDING [])) demo_open))"

lemma waiting_parts:
  "merge_decision (tick_world ''pending'' ''aaa'') ''s1'' demo_open = ([], Inr (demo_open, Land ''autonomy=full''))"
  "worktree_branch (tick_world ''pending'' ''aaa'') demo_open ''s1'' = Inr ''agent/s1''"
  "branch_head_sha (mw_fetch (tick_world ''pending'' ''aaa'')) (mw_rev_parse (tick_world ''pending'' ''aaa'')) ''agent/s1'' = PStr ''aaa''"
  "landable (tick_world ''pending'' ''aaa'') ''s1'' ''agent/s1'' demo_open = ([Pushed ''agent/s1''], Inr (demo_open, [], PStr ''aaa''))"
  "rebind (tick_world ''pending'' ''aaa'') [] (PStr ''aaa'') demo_open = demo_open"
  "poll_and_land (tick_world ''pending'' ''aaa'') ''p'' [] ''s1'' ''agent/s1'' (dget_or demo_open ''worktree'' (PStr [])) (PStr ''aaa'') demo_open =
     ([PolledCi ''agent/s1'' (mw_show (tick_world ''pending'' ''aaa'') PNone @ ''aaa'') ''pending'', Summarised ''ci_pending'' ''s1''], Inr waiting)"
  by code_simp+

lemma tick_waits:
  "adjudicate_story (tick_world ''pending'' ''aaa'') ''p'' [] ''s1'' demo_open =
     ([ProbedTip ''agent/s1'' (PStr ''aaa''), Pushed ''agent/s1'', PolledCi ''agent/s1'' ''aaa'' ''pending'',
       Summarised ''ci_pending'' ''s1''], Inr waiting)"
proof -
  have "mw_show (tick_world ''pending'' ''aaa'') PNone = []" by code_simp
  then show ?thesis
    using adjudicate_open [OF demo_open_facts(1) waiting_parts(1), of "''p''" "[]"]
      landing_covered [OF waiting_parts(2) _ waiting_parts(3) demo_open_facts(2) waiting_parts(4,5), of "''p''" "[]"]
    by (simp add: waiting_parts(6))
qed

text \<open>Second tick: the new tip carries no approval.  Third tick: the approval is there, the old commit too.\<close>

definition denied :: pydict where
  "denied = dset ''merge_parked_at'' (PStr ''now'')
     (dset ''merge_park_evidence'' (evidence_of waiting)
       (dset ''parked_reason'' (PStr (snd (check (\<lambda>v. []) (PDict waiting) (PStr ''bbb''))))
         (dset ''status'' (PStr ''parked'') waiting)))"

definition rereviewed :: pydict where
  "rereviewed = dset ''status'' (PStr ''pr_open'') (bind_verdict ''APPROVE'' (PStr ''bbb'') ''now'' denied)"

lemma moved_parts:
  "dget waiting ''status'' = Some (PStr ''pr_open'')" "\<not> approved_at waiting ''bbb''"
  "merge_decision (tick_world ''pass'' ''bbb'') ''s1'' waiting = ([], Inr (waiting, Land ''autonomy=full''))"
  "worktree_branch (tick_world ''pass'' ''bbb'') waiting ''s1'' = Inr ''agent/s1''"
  "branch_head_sha (mw_fetch (tick_world ''pass'' ''bbb'')) (mw_rev_parse (tick_world ''pass'' ''bbb'')) ''agent/s1'' = PStr ''bbb''"
  by code_simp+

lemma tick_denies:
  "snd (adjudicate_story (tick_world ''pass'' ''bbb'') ''p'' [] ''s1'' waiting) = Inr denied"
proof -
  let ?w = "tick_world ''pass'' ''bbb''"
  let ?reason = "snd (check (mw_show ?w) (PDict waiting) (PStr ''bbb''))"
  have "\<not> fst (check (mw_show ?w) (PDict waiting) (PStr ''bbb''))"
    using moved_parts(2) by (simp add: check_iff)
  then have "attempt_landing ?w ''p'' [] ''s1'' waiting =
      tellW [ProbedTip ''agent/s1'' (PStr ''bbb'')] (deny ?w ''s1'' (PStr ''bbb'') ?reason waiting)"
    using moved_parts(4,5) by (simp add: attempt_landing_def Let_def bindW_def tellW_def liftW_def)
  moreover have "snd (deny ?w ''s1'' (PStr ''bbb'') ?reason waiting) = Inr denied"
    by code_simp
  ultimately show ?thesis
    using adjudicate_open [OF moved_parts(1,3), of "''p''" "[]"] by simp
qed

lemma rereviewed_parts:
  "dget rereviewed ''status'' = Some (PStr ''pr_open'')" "approved_at rereviewed ''bbb''"
  "merge_decision (tick_world ''pass'' ''bbb'') ''s1'' rereviewed = ([], Inr (rereviewed, Land ''autonomy=full''))"
  "worktree_branch (tick_world ''pass'' ''bbb'') rereviewed ''s1'' = Inr ''agent/s1''"
  "landable (tick_world ''pass'' ''bbb'') ''s1'' ''agent/s1'' rereviewed = ([], Inr (rereviewed, [], PStr ''aaa''))"
  by code_simp+

definition rebound :: pydict where
  "rebound = rebind (tick_world ''pass'' ''bbb'') [] (PStr ''aaa'') rereviewed"

lemma stale_landing:
  "fst (poll_and_land (tick_world ''pass'' ''bbb'') ''p'' [] ''s1'' ''agent/s1''
      (dget_or rebound ''worktree'' (PStr [])) (PStr ''aaa'') rebound) =
   [PolledCi ''agent/s1'' ''aaa'' ''pass'', CalledMerge ''s1'' ''/w'', MarkedDone ''s1'', Noticed ''story_merged'',
    Summarised ''merged'' ''s1'', CountedResult ''merged'']"
  by code_simp

lemma stale_pending_sha_merges:
  "fst (adjudicate_story (tick_world ''pass'' ''bbb'') ''p'' [] ''s1'' rereviewed) =
     [ProbedTip ''agent/s1'' (PStr ''bbb''), PolledCi ''agent/s1'' ''aaa'' ''pass'', CalledMerge ''s1'' ''/w'',
      MarkedDone ''s1'', Noticed ''story_merged'', Summarised ''merged'' ''s1'', CountedResult ''merged'']"
  using adjudicate_open [OF rereviewed_parts(1,3), of "''p''" "[]"]
    landing_covered [OF rereviewed_parts(4) _ moved_parts(5) rereviewed_parts(2,5), of rebound "''p''" "[]"]
  by (simp add: rebound_def [symmetric] stale_landing)

text \<open>A story that raises after another one was merged: nothing is saved.\<close>

definition numeric_risk :: pydict where
  "numeric_risk = dset ''risk'' (PInt 2) demo_ready"

lemma numeric_risk_raises: "adjudicate_story demo_merging ''p'' m ''s2'' numeric_risk = ([], Inl GateAttributeError)"
proof -
  have "readjudicate_parked_merge_hold demo_merging ''s2'' numeric_risk = retW (numeric_risk, None)"
    by code_simp
  moreover have "merge_decision demo_merging ''s2'' numeric_risk = ([], Inl GateAttributeError)"
    by code_simp
  moreover have "dgetN numeric_risk ''status'' = PStr ''pr_open''"
    by code_simp
  ultimately show ?thesis by (simp add: adjudicate_story_def bindW_def)
qed

definition two_stories :: pydict where
  "two_stories = [(''stories'', PDict [(''s1'', PDict demo_ready), (''s2'', PDict numeric_risk)])]"

lemma landed_run:
  "fst (poll_and_land demo_merging ''p'' two_stories ''s1'' ''agent/s1'' (PStr ''/w'') (PStr ''aaa'') demo_ready) = tl landed_calls"
  "map_sum id (\<lambda>s. 0) (snd (poll_and_land demo_merging ''p'' two_stories ''s1'' ''agent/s1'' (PStr ''/w'') (PStr ''aaa'') demo_ready))
    = (Inr 0 :: gate_exn + nat)"
  by code_simp+

lemma merged_and_not_saved:
  "adjudicate_merges (\<lambda>k. demo_merging) ''p'' two_stories = (landed_calls, Inl GateAttributeError)"
proof -
  have run: "fst (adjudicate_story demo_merging ''p'' two_stories ''s1'' demo_ready) = landed_calls"
    using demo_landing [of "''1''" demo_passed "''p''" two_stories] landed_run(1)
    by (simp add: demo_merging_def [symmetric] landed_calls_def)
  from landed_run(2) obtain s where s: "snd (adjudicate_story demo_merging ''p'' two_stories ''s1'' demo_ready) = Inr s"
    using demo_landing [of "''1''" demo_passed "''p''" two_stories]
    by (auto simp: demo_merging_def [symmetric] map_sum_def split: sum.splits)
  have "adjudicate_story demo_merging ''p'' two_stories ''s1'' demo_ready = (landed_calls, Inr s)"
    using run s by (simp add: prod_eq_iff)
  then show ?thesis
    by (simp add: adjudicate_merges_def bindW_def liftW_def retW_def tellW_def put_story_in_def numeric_risk_raises
        two_stories_def dgetN_def with_dict_def story_fields_def)
qed

text \<open>A story without a worktree: the default \<open>""\<close> names the current directory, so the rebase is not skipped.\<close>

lemma no_worktree_not_skipped:
  "\<exists>err. snd (prepare_merge w (PStr []) branch) = Inr (snd (snd (mw_rebase w [] branch)), ''rebase: '' @ err, [])"
  by (auto simp: prepare_merge_def rebase_onto_master_def path_is_dir_def split: prod.split)

end
