(* ===== verification/Jwks.thy ===== *)
theory Jwks
  imports CallLog
    "HOL-Library.Word"
begin

text \<open>
  Fetching the keys of an identity provider, from \<open>src/app/oidc.py\<close>: which addresses may be asked, the
  bounded download, and the cache with its memory of failures.  Addresses are words; parsing them and
  splitting a URL, the resolver, the transport and the JSON reader are arguments, and every request sent
  is logged with its target.  The clock is monotonic, so its readings are rationals.
\<close>

unbundle bit_operations_syntax

subsection \<open>Addresses\<close>

datatype ip = V4 "32 word" | V6 "128 word"

text \<open>\<open>address in network\<close> for the network of a prefix and its length.\<close>

definition in_net :: "'a::len word \<Rightarrow> 'a word \<times> nat \<Rightarrow> bool" where
  "in_net a net = (drop_bit (LENGTH('a) - snd net) a = drop_bit (LENGTH('a) - snd net) (fst net))"

definition quad :: "nat \<Rightarrow> nat \<Rightarrow> nat \<Rightarrow> nat \<Rightarrow> 32 word" where
  "quad a b c d = word_of_nat (((a * 256 + b) * 256 + c) * 256 + d)"

text \<open>The groups of an IPv6 address from the left; the ones left out are zero.\<close>

definition groups :: "nat list \<Rightarrow> 128 word" where
  "groups gs = word_of_nat (foldl (\<lambda>n g. n * 65536 + g) 0 (take 8 (gs @ [0, 0, 0, 0, 0, 0, 0, 0])))"

text \<open>The registries behind \<open>is_global\<close> of the library's \<open>ipaddress\<close>.\<close>

definition PRIVATE4 :: "(32 word \<times> nat) list" where
  "PRIVATE4 =
     [(quad 0 0 0 0, 8), (quad 10 0 0 0, 8), (quad 127 0 0 0, 8), (quad 169 254 0 0, 16), (quad 172 16 0 0, 12),
      (quad 192 0 0 0, 24), (quad 192 0 0 170, 31), (quad 192 0 2 0, 24), (quad 192 168 0 0, 16), (quad 198 18 0 0, 15),
      (quad 198 51 100 0, 24), (quad 203 0 113 0, 24), (quad 240 0 0 0, 4), (quad 255 255 255 255, 32)]"

definition PUBLIC4 :: "(32 word \<times> nat) list" where
  "PUBLIC4 = [(quad 192 0 0 9, 32), (quad 192 0 0 10, 32)]"

definition SHARED4 :: "32 word \<times> nat" where
  "SHARED4 = (quad 100 64 0 0, 10)"

definition PRIVATE6 :: "(128 word \<times> nat) list" where
  "PRIVATE6 =
     [(groups [0, 0, 0, 0, 0, 0, 0, 1], 128), (groups [], 128), (groups [0, 0, 0, 0, 0, 65535], 96),
      (groups [100, 65435, 1], 48), (groups [256], 64), (groups [8193], 23), (groups [8193, 3512], 32),
      (groups [8194], 16), (groups [64512], 7), (groups [65152], 10)]"

definition PUBLIC6 :: "(128 word \<times> nat) list" where
  "PUBLIC6 =
     [(groups [8193, 1, 0, 0, 0, 0, 0, 1], 128), (groups [8193, 1, 0, 0, 0, 0, 0, 2], 128), (groups [8193, 3], 32),
      (groups [8193, 4, 274], 48), (groups [8193, 32], 28), (groups [8193, 48], 28)]"

definition global4 :: "32 word \<Rightarrow> bool" where
  "global4 a = (\<not> in_net a SHARED4 \<and> \<not> (list_ex (in_net a) PRIVATE4 \<and> \<not> list_ex (in_net a) PUBLIC4))"

fun is_global :: "ip \<Rightarrow> bool" where
  "is_global (V4 a) = global4 a"
| "is_global (V6 a) =
     (if drop_bit 32 a = 65535 then global4 (ucast a)
      else \<not> (list_ex (in_net a) PRIVATE6 \<and> \<not> list_ex (in_net a) PUBLIC6))"

definition NAT64 :: "128 word \<times> nat" where
  "NAT64 = (groups [100, 65435], 96)"

definition embedded_ipv4 :: "128 word \<Rightarrow> 32 word option" where
  "embedded_ipv4 a =
     (if drop_bit 32 a = 65535 then Some (ucast a)
      else if drop_bit 112 a = 8194 then Some (ucast (drop_bit 80 a))
      else if in_net a NAT64 then Some (ucast a)
      else None)"

fun is_internal_address :: "ip \<Rightarrow> bool" where
  "is_internal_address (V4 a) = (\<not> is_global (V4 a))"
| "is_internal_address (V6 a) =
     (case embedded_ipv4 a of Some b \<Rightarrow> \<not> is_global (V4 b) | None \<Rightarrow> \<not> is_global (V6 a))"

text \<open>
  The addresses a key request must never reach: loopback, the private networks, link-local (with the
  metadata service of a cloud), the carrier range, and all of these written inside an IPv6 address.
\<close>

definition between :: "nat \<Rightarrow> nat \<Rightarrow> 'a::len word \<Rightarrow> bool" where
  "between lo hi a \<longleftrightarrow> lo \<le> unat a \<and> unat a \<le> hi"

definition inside4 :: "32 word \<Rightarrow> bool" where
  "inside4 a \<longleftrightarrow>
     between 0x7F000000 0x7FFFFFFF a \<or> between 0x0A000000 0x0AFFFFFF a \<or> between 0xAC100000 0xAC1FFFFF a \<or>
     between 0xC0A80000 0xC0A8FFFF a \<or> between 0xA9FE0000 0xA9FEFFFF a \<or> between 0x64400000 0x647FFFFF a \<or>
     between 0 0x00FFFFFF a"

definition inside6 :: "128 word \<Rightarrow> bool" where
  "inside6 a \<longleftrightarrow> unat a = 1 \<or> unat a = 0 \<or>
     between 0xFC000000000000000000000000000000 0xFDFFFFFFFFFFFFFFFFFFFFFFFFFFFFFF a \<or>
     between 0xFE800000000000000000000000000000 0xFEBFFFFFFFFFFFFFFFFFFFFFFFFFFFFF a"

text \<open>
  The IPv6 addresses that carry an IPv4 address \<open>b\<close>, as numbers: mapped (\<open>::ffff:b\<close>), translated by NAT64
  (\<open>64:ff9b::b\<close>), and any address of the 6to4 network of \<open>b\<close> (\<open>2002:b::/48\<close>).
\<close>

definition carries :: "128 word \<Rightarrow> 32 word \<Rightarrow> bool" where
  "carries a b \<longleftrightarrow>
     unat a = 0xFFFF00000000 + unat b \<or>
     unat a = 0x64FF9B0000000000000000 * 0x100000000 + unat b \<or>
     unat a div 2 ^ 80 = 0x200200000000 + unat b"

fun inside :: "ip \<Rightarrow> bool" where
  "inside (V4 a) = inside4 a"
| "inside (V6 a) = (inside6 a \<or> (\<exists>b. carries a b \<and> inside4 b))"

lemma unat_drop: "unat (drop_bit k (a :: 'a::len word)) = unat a div 2 ^ k"
  unfolding unat_drop_bit_eq by (rule drop_bit_eq_div)

lemma in_net_between:
  fixes a :: "'a::len word"
  assumes "between lo hi a" "lo div 2 ^ (LENGTH('a) - n) = q" "hi div 2 ^ (LENGTH('a) - n) = q"
    and "unat p div 2 ^ (LENGTH('a) - n) = q"
  shows "in_net a (p, n)"
proof -
  let ?k = "LENGTH('a) - n"
  have "lo div 2 ^ ?k \<le> unat a div 2 ^ ?k" "unat a div 2 ^ ?k \<le> hi div 2 ^ ?k"
    using assms(1) by (auto simp: between_def intro: div_le_mono)
  with assms(2-4) have "unat a div 2 ^ ?k = unat p div 2 ^ ?k" by simp
  then have "unat (drop_bit ?k a) = unat (drop_bit ?k p)"
    by (simp only: unat_drop)
  then show ?thesis by (simp add: in_net_def word_unat_eq_iff)
qed

lemma quad_unat: "a < 256 \<Longrightarrow> b < 256 \<Longrightarrow> c < 256 \<Longrightarrow> d < 256 \<Longrightarrow>
    unat (quad a b c d) = ((a * 256 + b) * 256 + c) * 256 + d"
  unfolding quad_def unat_of_nat by (rule mod_less) simp

lemma in_net_outside:
  fixes a :: "'a::len word"
  assumes "in_net a (p, n)" "unat p div 2 ^ (LENGTH('a) - n) = q"
  shows "q * 2 ^ (LENGTH('a) - n) \<le> unat a \<and> unat a < (q + 1) * 2 ^ (LENGTH('a) - n)"
proof -
  let ?k = "LENGTH('a) - n"
  from assms have q: "unat a div 2 ^ ?k = q"
    unfolding in_net_def by (simp only: word_unat_eq_iff unat_drop fst_conv snd_conv)
  then show ?thesis
    by (metis add.commute div_less_iff_less_mult div_times_less_eq_dividend lessI plus_1_eq_Suc zero_less_numeral zero_less_power)
qed

lemma inside4_nets:
  assumes "inside4 a"
  shows "in_net a SHARED4 \<or> list_ex (in_net a) PRIVATE4"
proof -
  have nets: "between 0x7F000000 0x7FFFFFFF a \<Longrightarrow> in_net a (quad 127 0 0 0, 8)"
    "between 0x0A000000 0x0AFFFFFF a \<Longrightarrow> in_net a (quad 10 0 0 0, 8)"
    "between 0xAC100000 0xAC1FFFFF a \<Longrightarrow> in_net a (quad 172 16 0 0, 12)"
    "between 0xC0A80000 0xC0A8FFFF a \<Longrightarrow> in_net a (quad 192 168 0 0, 16)"
    "between 0xA9FE0000 0xA9FEFFFF a \<Longrightarrow> in_net a (quad 169 254 0 0, 16)"
    "between 0x64400000 0x647FFFFF a \<Longrightarrow> in_net a (quad 100 64 0 0, 10)"
    "between 0 0x00FFFFFF a \<Longrightarrow> in_net a (quad 0 0 0 0, 8)"
    by (erule in_net_between, simp, simp, simp add: quad_unat)+
  from assms show ?thesis
    unfolding inside4_def by (elim disjE) (auto dest: nets simp: SHARED4_def PRIVATE4_def)
qed

lemma inside4_not_public: "inside4 a \<Longrightarrow> \<not> list_ex (in_net a) PUBLIC4"
  by (auto simp: PUBLIC4_def inside4_def between_def quad_unat dest!: in_net_outside [OF _ refl])

lemma inside4_internal: "inside4 a \<Longrightarrow> \<not> global4 a"
  using inside4_nets inside4_not_public by (auto simp: global4_def)

lemma groups_unat:
  assumes "length gs \<le> 8" "\<forall>g \<in> set gs. g < 65536"
  shows "unat (groups gs) = foldl (\<lambda>n g. n * 65536 + g) 0 (take 8 (gs @ [0, 0, 0, 0, 0, 0, 0, 0]))"
proof -
  have bound: "foldl (\<lambda>n g. n * 65536 + g) n xs < (n + 1) * 65536 ^ length xs"
    if "\<forall>g \<in> set xs. g < 65536" for n :: nat and xs
    using that
  proof (induction xs arbitrary: n)
    case (Cons x xs)
    then have "foldl (\<lambda>n g. n * 65536 + g) (n * 65536 + x) xs < (n * 65536 + x + 1) * 65536 ^ length xs" by simp
    also have "... \<le> ((n + 1) * 65536) * 65536 ^ length xs"
      using Cons.prems by (intro mult_right_mono) auto
    finally show ?case by (simp add: algebra_simps)
  qed simp
  let ?xs = "take 8 (gs @ [0, 0, 0, 0, 0, 0, 0, 0])"
  have "foldl (\<lambda>n g. n * 65536 + g) 0 ?xs < (0 + 1) * 65536 ^ length ?xs"
    by (rule bound) (use assms(2) in \<open>auto dest!: in_set_takeD\<close>)
  moreover have "length ?xs = 8" using assms(1) by simp
  ultimately have "foldl (\<lambda>n g. n * 65536 + g) 0 ?xs < 2 ^ LENGTH(128)" by simp
  then show ?thesis unfolding groups_def unat_of_nat by (rule mod_less)
qed

lemma inside6_nets: "inside6 a \<Longrightarrow> list_ex (in_net a) PRIVATE6"
proof -
  have nets: "between 1 1 a \<Longrightarrow> in_net a (groups [0, 0, 0, 0, 0, 0, 0, 1], 128)"
    "between 0 0 a \<Longrightarrow> in_net a (groups [], 128)"
    "between 0xFC000000000000000000000000000000 0xFDFFFFFFFFFFFFFFFFFFFFFFFFFFFFFF a \<Longrightarrow> in_net a (groups [64512], 7)"
    "between 0xFE800000000000000000000000000000 0xFEBFFFFFFFFFFFFFFFFFFFFFFFFFFFFF a \<Longrightarrow> in_net a (groups [65152], 10)"
    by (erule in_net_between, simp, simp, simp add: groups_unat)+
  then show "inside6 a \<Longrightarrow> list_ex (in_net a) PRIVATE6"
    unfolding inside6_def by (elim disjE) (auto simp: PRIVATE6_def between_def)
qed

lemma inside6_not_public: "inside6 a \<Longrightarrow> \<not> list_ex (in_net a) PUBLIC6"
  by (auto simp: PUBLIC6_def inside6_def between_def groups_unat dest!: in_net_outside [OF _ refl])

lemma embedded_outside: "inside6 a \<Longrightarrow> embedded_ipv4 a = None"
proof -
  assume a: "inside6 a"
  have "drop_bit 32 a \<noteq> 65535"
  proof
    assume "drop_bit 32 a = 65535"
    then have "unat a div 2 ^ 32 = unat (65535 :: 128 word)" by (simp only: unat_drop flip: \<open>drop_bit 32 a = 65535\<close>)
    with a show False by (auto simp: inside6_def between_def)
  qed
  moreover have "drop_bit 112 a \<noteq> 8194"
  proof
    assume "drop_bit 112 a = 8194"
    then have "unat a div 2 ^ 112 = unat (8194 :: 128 word)" by (simp only: unat_drop flip: \<open>drop_bit 112 a = 8194\<close>)
    with a show False by (auto simp: inside6_def between_def)
  qed
  moreover have "\<not> in_net a NAT64"
    using a by (auto simp: NAT64_def inside6_def between_def groups_unat dest!: in_net_outside [OF _ refl])
  ultimately show ?thesis by (simp add: embedded_ipv4_def)
qed

lemma low_bits: "unat (ucast (a :: 128 word) :: 32 word) = unat a mod 2 ^ 32"
  by (simp add: unsigned_ucast_eq take_bit_eq_mod)

lemma unat32: "unat (b :: 32 word) < 4294967296"
  using unsigned_less [of b] by simp

lemma low_part: "n < m \<Longrightarrow> k mod m = 0 \<Longrightarrow> (k + n) mod m = (n :: nat)"
  by (subst mod_add_left_eq [symmetric]) simp

lemma carries_embedded: "carries a b \<Longrightarrow> embedded_ipv4 a = Some b"
  unfolding carries_def
proof (elim disjE)
  assume a: "unat a = 0xFFFF00000000 + unat b"
  then have "unat (drop_bit 32 a) = 65535" "unat (ucast a :: 32 word) = unat b"
    using unat32 [of b] by (simp_all add: unat_drop low_bits low_part)
  then have "drop_bit 32 a = 65535" "ucast a = b" by (simp_all add: word_unat_eq_iff)
  then show ?thesis by (simp add: embedded_ipv4_def)
next
  assume a: "unat a = 0x64FF9B0000000000000000 * 0x100000000 + unat b"
  then have d: "unat (drop_bit 32 a) = 0x64FF9B0000000000000000" "unat (drop_bit 112 a) = 0x64"
    "unat (ucast a :: 32 word) = unat b"
    using unat32 [of b] by (simp_all add: unat_drop low_bits low_part)
  have "drop_bit 32 a \<noteq> 65535" "drop_bit 112 a \<noteq> 8194"
    using d by (auto simp: word_unat_eq_iff)
  moreover have "in_net a NAT64"
    using d(1) by (simp add: in_net_def NAT64_def word_unat_eq_iff unat_drop groups_unat)
  moreover have "ucast a = b" using d(3) by (simp add: word_unat_eq_iff)
  ultimately show ?thesis by (simp add: embedded_ipv4_def)
next
  assume a: "unat a div 2 ^ 80 = 0x200200000000 + unat b"
  have "unat a div 2 ^ 112 = (unat a div 2 ^ 80) div 2 ^ 32" "unat a div 2 ^ 32 div 2 ^ 48 = unat a div 2 ^ 80"
    by (simp_all add: div_mult2_eq [symmetric])
  with a have d: "unat (drop_bit 112 a) = 8194" "unat (drop_bit 32 a) \<noteq> 65535"
    using unat32 [of b] by (auto simp: unat_drop)
  have "unat (drop_bit 80 a) = 0x200200000000 + unat b" using a by (simp only: unat_drop)
  then have "unat (ucast (drop_bit 80 a) :: 32 word) = unat b"
    using unat32 [of b] by (simp add: low_bits low_part)
  with d have "drop_bit 32 a \<noteq> 65535" "drop_bit 112 a = 8194" "ucast (drop_bit 80 a) = b"
    by (auto simp: word_unat_eq_iff)
  then show ?thesis by (simp add: embedded_ipv4_def)
qed

lemma inside_internal: "inside x \<Longrightarrow> is_internal_address x"
proof (cases x)
  case (V6 a)
  assume x: "inside x"
  show ?thesis
  proof (cases "inside6 a")
    case True
    with V6 embedded_outside [OF True] show ?thesis
      using inside6_nets inside6_not_public by (auto simp: embedded_ipv4_def split: if_splits)
  next
    case False
    with x V6 obtain b where "carries a b" "inside4 b" by auto
    with V6 carries_embedded [of a b] inside4_internal show ?thesis by simp
  qed
qed (simp add: inside4_internal)

subsection \<open>Which hosts may be asked\<close>

text \<open>
  What answers outside: \<open>urlsplit(url).hostname\<close>, \<open>ip_address\<close>, the addresses \<open>getaddrinfo\<close> lists (none
  where it fails or does not answer in time), the streamed response of a pinned request (none where the
  request fails) with the time each chunk is read, and \<open>json.loads\<close>.
\<close>

record response =
  status_code :: int
  chunks :: "(rat \<times> string) list"
  broken :: bool

record net =
  hostname :: "string \<Rightarrow> string option"
  ip_address :: "string \<Rightarrow> ip option"
  getaddrinfo :: "string \<Rightarrow> string list"
  stream :: "string \<Rightarrow> string \<Rightarrow> response option"
  json_loads :: "string \<Rightarrow> pyval option"

datatype oidc_error = IdentityErr string | ReservedSubject string

fun reason_of :: "oidc_error \<Rightarrow> string" where
  "reason_of (IdentityErr m) = m"
| "reason_of (ReservedSubject m) = m"

datatype oidc_call = Requested string string | LoggedRejection string string string

record oidc_settings =
  issuer :: string
  audience :: string
  jwks_url :: string
  clock_skew_s :: int
  allow_private_jwks :: bool

definition MAX_CLOCK_SKEW_S :: int where
  "MAX_CLOCK_SKEW_S = 300"

text \<open>\<open>casefold\<close> and \<open>rstrip(".")\<close> of a host name in ASCII.\<close>

definition fold_host :: "string \<Rightarrow> string" where
  "fold_host h = rev (dropWhile (\<lambda>c. c = CHR ''.'') (rev (map char_lower h)))"

definition is_internal_target :: "net \<Rightarrow> string \<Rightarrow> bool" where
  "is_internal_target n url =
     (case hostname n url of
        None \<Rightarrow> True
      | Some h \<Rightarrow>
          if h = [] then True
          else (let host = fold_host h in
            case ip_address n host of
              Some a \<Rightarrow> is_internal_address a
            | None \<Rightarrow> host = ''localhost'' \<or> ends_with host ''.localhost''))"

definition text_field :: "string \<Rightarrow> pyval \<Rightarrow> oidc_error + string" where
  "text_field name v =
     with_str v (IdentityErr (''invalid '' @ name @ '': must be a non-empty string'')) (\<lambda>s.
       if strip s = [] then Inl (IdentityErr (''invalid '' @ name @ '': must be a non-empty string'')) else Inr s)"

definition check_skew :: "pyval \<Rightarrow> oidc_error + int" where
  "check_skew v =
     (case v of
        PInt k \<Rightarrow>
          if k < 0 then Inl (IdentityErr ''invalid clock_skew_s: must be a non-negative int'')
          else if MAX_CLOCK_SKEW_S < k then Inl (IdentityErr ''invalid clock_skew_s: must not exceed 300'')
          else Inr k
      | _ \<Rightarrow> Inl (IdentityErr ''invalid clock_skew_s: must be a non-negative int''))"

definition mk_settings :: "net \<Rightarrow> pyval \<Rightarrow> pyval \<Rightarrow> pyval \<Rightarrow> pyval \<Rightarrow> bool \<Rightarrow> oidc_error + oidc_settings" where
  "mk_settings n iss aud url skew allow =
     bindE (text_field ''issuer'' iss) (\<lambda>iss.
     bindE (text_field ''audience'' aud) (\<lambda>aud.
     bindE (text_field ''jwks_url'' url) (\<lambda>url.
     bindE (guardE (starts_with url ''https://'') (IdentityErr ''invalid jwks_url: must use https'')) (\<lambda>_.
     bindE (guardE (CHR ''#'' \<notin> set iss) (IdentityErr (''invalid issuer: must not contain '#'' @ [CHR 39]))) (\<lambda>_.
     bindE (guardE (allow \<or> \<not> is_internal_target n url)
              (IdentityErr ''invalid jwks_url: must not target an internal host'')) (\<lambda>_.
     bindE (check_skew skew) (\<lambda>skew.
     Inr \<lparr>issuer = iss, audience = aud, jwks_url = url, clock_skew_s = skew, allow_private_jwks = allow\<rparr>)))))))"

text \<open>Every address of the name is judged; the first is the one to connect to.\<close>

fun judged :: "net \<Rightarrow> bool \<Rightarrow> string list \<Rightarrow> bool" where
  "judged n allow [] = True"
| "judged n allow (i # is) =
     (case ip_address n i of
        None \<Rightarrow> False
      | Some a \<Rightarrow> if \<not> allow \<and> is_internal_address a then False else judged n allow is)"

definition resolve_host :: "net \<Rightarrow> bool \<Rightarrow> string \<Rightarrow> string option" where
  "resolve_host n allow host =
     (let infos = getaddrinfo n host in
      if infos = [] \<or> \<not> judged n allow infos then None else Some (hd infos))"

definition resolve_url :: "net \<Rightarrow> bool \<Rightarrow> string \<Rightarrow> string option" where
  "resolve_url n allow url =
     (case hostname n url of
        None \<Rightarrow> None
      | Some h \<Rightarrow> if h = [] then None else resolve_host n allow h)"

subsection \<open>The download\<close>

definition JWKS_TOTAL_TIMEOUT_S :: rat where
  "JWKS_TOTAL_TIMEOUT_S = 30"

definition JWKS_MAX_BYTES :: nat where
  "JWKS_MAX_BYTES = 256 * 1024"

definition unavailable :: oidc_error where
  "unavailable = IdentityErr ''invalid token: keys unavailable''"

fun read_body :: "(rat \<times> string) list \<Rightarrow> string \<Rightarrow> string option" where
  "read_body [] body = Some body"
| "read_body ((t, chunk) # rest) body =
     (if JWKS_TOTAL_TIMEOUT_S < t then None
      else if JWKS_MAX_BYTES < length (body @ chunk) then None
      else read_body rest (body @ chunk))"

definition parse_jwks :: "net \<Rightarrow> string \<Rightarrow> oidc_error + pydict" where
  "parse_jwks n body =
     (case json_loads n body of
        Some (PDict d) \<Rightarrow> if is_pylist (dgetN d ''keys'') then Inr d else Inl unavailable
      | _ \<Rightarrow> Inl unavailable)"

definition fetch_jwks :: "net \<Rightarrow> oidc_settings \<Rightarrow> (oidc_call, oidc_error, pydict) logged" where
  "fetch_jwks n s =
     (case resolve_url n (allow_private_jwks s) (jwks_url s) of
        None \<Rightarrow> liftW (Inl unavailable)
      | Some address \<Rightarrow>
          tellW [Requested (jwks_url s) address]
            (liftW (case stream n (jwks_url s) address of
                      None \<Rightarrow> Inl unavailable
                    | Some r \<Rightarrow>
                        if status_code r \<noteq> 200 then Inl unavailable
                        else (case read_body (chunks r) [] of
                                None \<Rightarrow> Inl unavailable
                              | Some body \<Rightarrow> if broken r then Inl unavailable else parse_jwks n body))))"

subsection \<open>The cache\<close>

definition JWKS_CACHE_SECONDS :: rat where
  "JWKS_CACHE_SECONDS = 300"

definition JWKS_MIN_REFRESH_S :: rat where
  "JWKS_MIN_REFRESH_S = 10"

definition JWKS_FAILURE_TTL_S :: rat where
  "JWKS_FAILURE_TTL_S = 5"

record jwks_state =
  jwks_cache :: "(string \<times> rat \<times> pydict) list"
  jwks_failures :: "(string \<times> rat \<times> string) list"

definition cached_jwks :: "jwks_state \<Rightarrow> string \<Rightarrow> bool \<Rightarrow> rat \<Rightarrow> pydict option" where
  "cached_jwks st url force_refresh now =
     (case dget (jwks_cache st) url of
        None \<Rightarrow> None
      | Some (since, doc) \<Rightarrow>
          if now - since < JWKS_CACHE_SECONDS \<and> \<not> (force_refresh \<and> JWKS_MIN_REFRESH_S \<le> now - since)
          then Some doc else None)"

definition recent_failure :: "jwks_state \<Rightarrow> string \<Rightarrow> rat \<Rightarrow> string option" where
  "recent_failure st url now =
     (case dget (jwks_failures st) url of
        None \<Rightarrow> None
      | Some (since, reason) \<Rightarrow> if now - since < JWKS_FAILURE_TTL_S then Some reason else None)"

text \<open>The section under \<open>_JWKS_FETCH_LOCK\<close>; \<open>now\<close> is read when the lock is taken.\<close>

definition jwks_locked ::
  "net \<Rightarrow> oidc_settings \<Rightarrow> bool \<Rightarrow> rat \<Rightarrow> jwks_state \<Rightarrow> (oidc_call, oidc_error, pydict) logged \<times> jwks_state" where
  "jwks_locked n s force_refresh now st =
     (case cached_jwks st (jwks_url s) force_refresh now of
        Some doc \<Rightarrow> (retW doc, st)
      | None \<Rightarrow>
          (case recent_failure st (jwks_url s) now of
             Some reason \<Rightarrow> (liftW (Inl (IdentityErr reason)), st)
           | None \<Rightarrow>
               (let m = fetch_jwks n s in
                (m, case snd m of
                      Inl e \<Rightarrow> st\<lparr>jwks_failures := dset (jwks_url s) (now, reason_of e) (jwks_failures st)\<rparr>
                    | Inr doc \<Rightarrow> st\<lparr>jwks_cache := dset (jwks_url s) (now, doc) (jwks_cache st),
                                   jwks_failures := dpop (jwks_url s) (jwks_failures st)\<rparr>))))"

text \<open>One call: its clock readings before and under the lock, and the network it meets.\<close>

record visit =
  entered :: rat
  locked :: rat
  seen :: net

definition jwks ::
  "visit \<Rightarrow> oidc_settings \<Rightarrow> bool \<Rightarrow> jwks_state \<Rightarrow> (oidc_call, oidc_error, pydict) logged \<times> jwks_state" where
  "jwks v s force_refresh st =
     (case cached_jwks st (jwks_url s) force_refresh (entered v) of
        Some doc \<Rightarrow> (retW doc, st)
      | None \<Rightarrow> jwks_locked (seen v) s force_refresh (locked v) st)"

subsection \<open>Where requests go\<close>

lemma judged_all:
  "judged n False is \<Longrightarrow> i \<in> set is \<Longrightarrow> \<exists>a. ip_address n i = Some a \<and> \<not> is_internal_address a"
  by (induction "is") (auto split: option.splits if_splits)

lemma resolve_url_public:
  assumes "resolve_url n False url = Some address"
  shows "\<exists>host. hostname n url = Some host \<and> address \<in> set (getaddrinfo n host) \<and>
    (\<forall>i \<in> set (getaddrinfo n host). \<exists>a. ip_address n i = Some a \<and> \<not> inside a)"
proof -
  from assms obtain host where host: "hostname n url = Some host"
    and infos: "getaddrinfo n host \<noteq> []" "judged n False (getaddrinfo n host)" "address = hd (getaddrinfo n host)"
    by (auto simp: resolve_url_def resolve_host_def Let_def split: option.splits if_splits)
  have "\<exists>a. ip_address n i = Some a \<and> \<not> inside a" if "i \<in> set (getaddrinfo n host)" for i
    using judged_all [OF infos(2) that] inside_internal by blast
  with host infos show ?thesis by auto
qed

lemma fetch_requests:
  "Requested url address \<in> set (fst (fetch_jwks n s)) \<longleftrightarrow>
     url = jwks_url s \<and> resolve_url n (allow_private_jwks s) (jwks_url s) = Some address"
  by (auto simp: fetch_jwks_def split: option.split)

lemma locked_requests:
  "Requested url address \<in> set (fst (fst (jwks_locked n s force now st))) \<Longrightarrow>
     Requested url address \<in> set (fst (fetch_jwks n s))"
  by (auto simp: jwks_locked_def Let_def split: option.splits)

text \<open>
  C39: Unless the operator opted in to a private network, a request for keys goes only to an address that
  the configured host resolved to in that very call, and none of the addresses it resolved to lies in the
  loopback, private, link-local or carrier ranges, also not when it is written as a mapped, NAT64 or 6to4
  address of IPv6.
\<close>

theorem key_requests_stay_outside:
  assumes "Requested url address \<in> set (fst (fst (jwks v s force st)))" "\<not> allow_private_jwks s"
  shows "url = jwks_url s \<and> (\<exists>host. hostname (seen v) url = Some host \<and>
    address \<in> set (getaddrinfo (seen v) host) \<and>
    (\<forall>i \<in> set (getaddrinfo (seen v) host). \<exists>a. ip_address (seen v) i = Some a \<and> \<not> inside a))"
proof -
  from assms(1) have "Requested url address \<in> set (fst (fetch_jwks (seen v) s))"
    by (auto simp: jwks_def locked_requests split: option.splits)
  with assms(2) show ?thesis
    using resolve_url_public [of "seen v" url address] by (auto simp: fetch_requests)
qed

subsection \<open>How often\<close>

definition last_fetch :: "jwks_state \<Rightarrow> string \<Rightarrow> rat \<Rightarrow> bool" where
  "last_fetch st url t \<longleftrightarrow>
     (\<exists>r. dget (jwks_failures st) url = Some (t, r)) \<or> (\<exists>d. dget (jwks_cache st) url = Some (t, d))"

definition requests :: "string \<Rightarrow> (oidc_call, oidc_error, 'a) logged \<Rightarrow> bool" where
  "requests url m = list_ex (\<lambda>c. case c of Requested u _ \<Rightarrow> u = url | _ \<Rightarrow> False) (fst m)"

text \<open>The clock readings of the sections under the lock, of any threads, that ask a URL.\<close>

fun request_times :: "string \<Rightarrow> (net \<times> oidc_settings \<times> bool \<times> rat) list \<Rightarrow> jwks_state \<Rightarrow> rat list" where
  "request_times url [] st = []"
| "request_times url ((n, s, force, now) # rest) st =
     (case jwks_locked n s force now st of
        (m, st') \<Rightarrow> (if requests url m then [now] else []) @ request_times url rest st')"

lemma requests_fetch [simp]:
  "requests url (fetch_jwks n s) \<longleftrightarrow>
     url = jwks_url s \<and> resolve_url n (allow_private_jwks s) (jwks_url s) \<noteq> None"
  by (auto simp: requests_def fetch_jwks_def split: option.split)

lemma requests_quiet [simp]: "\<not> requests url (retW x)" "\<not> requests url (liftW r)"
  by (simp_all add: requests_def)

lemma locked_cases:
  assumes "jwks_locked n s force now st = (m, st')"
  obtains "st' = st" "\<And>url. \<not> requests url m"
  | "m = fetch_jwks n s" "\<And>t. last_fetch st (jwks_url s) t \<Longrightarrow> t + 5 \<le> now" "last_fetch st' (jwks_url s) now"
    "\<And>url t. url \<noteq> jwks_url s \<Longrightarrow> last_fetch st' url t = last_fetch st url t"
proof (cases "cached_jwks st (jwks_url s) force now = None \<and> recent_failure st (jwks_url s) now = None")
  case True
  with assms have m: "m = fetch_jwks n s" and st': "st' = (case snd m of
        Inl e \<Rightarrow> st\<lparr>jwks_failures := dset (jwks_url s) (now, reason_of e) (jwks_failures st)\<rparr>
      | Inr doc \<Rightarrow> st\<lparr>jwks_cache := dset (jwks_url s) (now, doc) (jwks_cache st),
                     jwks_failures := dpop (jwks_url s) (jwks_failures st)\<rparr>)"
    by (auto simp: jwks_locked_def Let_def)
  have "t + 5 \<le> now" if "last_fetch st (jwks_url s) t" for t
    using that True
    by (auto simp: last_fetch_def cached_jwks_def recent_failure_def JWKS_FAILURE_TTL_S_def JWKS_CACHE_SECONDS_def
        JWKS_MIN_REFRESH_S_def split: if_splits)
  moreover have "last_fetch st' (jwks_url s) now"
    and "\<And>url t. url \<noteq> jwks_url s \<Longrightarrow> last_fetch st' url t = last_fetch st url t"
    using st' by (auto simp: last_fetch_def split: sum.split)
  ultimately show ?thesis using m that(2) by blast
next
  case False
  with assms have "st' = st" "\<not> requests url m" for url
    by (auto simp: jwks_locked_def Let_def split: option.splits)
  then show ?thesis using that(1) by blast
qed

lemma request_times_after:
  assumes "last_fetch st url t"
  shows "sorted_wrt (\<lambda>a b. a + 5 \<le> b) (t # request_times url vs st)"
  using assms
proof (induction vs arbitrary: st t)
  case (Cons v vs)
  obtain n s force now where v: "v = (n, s, force, now)" by (cases v) auto
  obtain m st' where run: "jwks_locked n s force now st = (m, st')" by fastforce
  show ?case
  proof (rule locked_cases [OF run])
    assume "st' = st" "\<And>url. \<not> requests url m"
    with Cons v run show ?thesis by simp
  next
    assume m: "m = fetch_jwks n s" and spaced: "\<And>t. last_fetch st (jwks_url s) t \<Longrightarrow> t + 5 \<le> now"
      and now: "last_fetch st' (jwks_url s) now"
      and other: "\<And>url t. url \<noteq> jwks_url s \<Longrightarrow> last_fetch st' url t = last_fetch st url t"
    show ?thesis
    proof (cases "url = jwks_url s")
      case True
      with spaced Cons.prems have "t + 5 \<le> now" by blast
      moreover from Cons.IH [of st' now] now True
      have "sorted_wrt (\<lambda>a b. a + 5 \<le> b) (now # request_times url vs st')" by simp
      ultimately show ?thesis using v run by fastforce
    next
      case False
      with other Cons.prems have "last_fetch st' url t" by blast
      from Cons.IH [OF this] False m v run show ?thesis by simp
    qed
  qed
qed simp

text \<open>
  The sections under the lock that ask a URL have clock readings at least five seconds apart.  The request
  itself comes after the wait for the resolver, so two requests can follow each other faster.
\<close>

lemma key_requests_are_spaced:
  "sorted_wrt (\<lambda>a b. a + 5 \<le> b) (request_times url vs st)"
proof (induction vs arbitrary: st)
  case (Cons v vs)
  obtain n s force now where v: "v = (n, s, force, now)" by (cases v) auto
  obtain m st' where run: "jwks_locked n s force now st = (m, st')" by fastforce
  show ?case
  proof (cases "requests url m")
    case True
    have "last_fetch st' url now"
      by (rule locked_cases [OF run]) (use True in auto)
    from request_times_after [OF this] True v run show ?thesis by simp
  next
    case False
    with Cons v run show ?thesis by simp
  qed
qed simp

lemma body_bounded: "read_body cs body = Some r \<Longrightarrow> length body \<le> JWKS_MAX_BYTES \<Longrightarrow> length r \<le> JWKS_MAX_BYTES"
  by (induction cs body rule: read_body.induct) (auto split: if_splits)

subsection \<open>Runs\<close>

definition no_jwks :: jwks_state where
  "no_jwks = \<lparr>jwks_cache = [], jwks_failures = []\<rparr>"

definition demo_idp :: "response option \<Rightarrow> net" where
  "demo_idp answer =
     \<lparr>hostname = (\<lambda>u. Some ''idp''), ip_address = (\<lambda>a. if a = ''93.184.216.34'' then Some (V4 (quad 93 184 216 34)) else None),
      getaddrinfo = (\<lambda>h. [''93.184.216.34'']), stream = (\<lambda>u a. answer), json_loads = (\<lambda>b. None)\<rparr>"

definition demo_settings :: oidc_settings where
  "demo_settings = \<lparr>issuer = ''https://idp'', audience = ''fagan'', jwks_url = ''https://idp/keys'', clock_skew_s = 60,
     allow_private_jwks = False\<rparr>"

lemma demo_address: "\<not> is_internal_address (V4 (quad 93 184 216 34))"
  by (auto simp: global4_def SHARED4_def PRIVATE4_def quad_unat dest!: in_net_outside [OF _ refl])

lemma demo_fetch: "fst (fetch_jwks (demo_idp answer) demo_settings) = [Requested ''https://idp/keys'' ''93.184.216.34'']"
  using demo_address
  by (simp add: fetch_jwks_def resolve_url_def resolve_host_def demo_idp_def demo_settings_def)

theorem key_requests_stay_outside_witness:
  "''93.184.216.34'' \<in> set (getaddrinfo (demo_idp None) ''idp'') \<and> \<not> inside (V4 (quad 93 184 216 34))"
proof -
  let ?v = "\<lparr>entered = 0, locked = 0, seen = demo_idp None\<rparr>"
  have "Requested ''https://idp/keys'' ''93.184.216.34'' \<in> set (fst (fst (jwks ?v demo_settings False no_jwks)))"
    by (simp add: jwks_def jwks_locked_def cached_jwks_def recent_failure_def no_jwks_def Let_def demo_fetch dget_def)
  from key_requests_stay_outside [OF this] show ?thesis
    by (simp add: demo_settings_def demo_idp_def)
qed

text \<open>
  A failure is filed under the time before the request.  Requests that run into their time-out of ten
  seconds are forgotten when the next thread gets the lock, so each waiting thread sends its own.
\<close>

lemma slow_failures_pile_up:
  "request_times ''https://idp/keys''
     [(demo_idp None, demo_settings, False, 0), (demo_idp None, demo_settings, False, 10),
      (demo_idp None, demo_settings, False, 20)] no_jwks = [0, 10, 20]"
proof -
  have failed: "fetch_jwks (demo_idp None) demo_settings = ([Requested ''https://idp/keys'' ''93.184.216.34''], Inl unavailable)"
    using demo_fetch [of None] demo_address
    by (auto simp: prod_eq_iff fetch_jwks_def resolve_url_def resolve_host_def demo_idp_def demo_settings_def)
  have url: "jwks_url demo_settings = ''https://idp/keys''" by (simp add: demo_settings_def)
  have first: "jwks_locked (demo_idp None) demo_settings False 0 no_jwks =
      (fetch_jwks (demo_idp None) demo_settings,
       no_jwks\<lparr>jwks_failures := [(''https://idp/keys'', 0, reason_of unavailable)]\<rparr>)"
    by (simp add: jwks_locked_def cached_jwks_def recent_failure_def no_jwks_def failed url dget_def dset_def)
  have later: "jwks_locked (demo_idp None) demo_settings False (since + 10)
        (no_jwks\<lparr>jwks_failures := [(''https://idp/keys'', since, reason_of unavailable)]\<rparr>) =
      (fetch_jwks (demo_idp None) demo_settings,
       no_jwks\<lparr>jwks_failures := [(''https://idp/keys'', since + 10, reason_of unavailable)]\<rparr>)" for since
    by (simp add: jwks_locked_def cached_jwks_def recent_failure_def no_jwks_def failed url dget_def dset_def
        JWKS_FAILURE_TTL_S_def)
  show ?thesis
    using later [of 0] later [of 10] by (simp add: first failed requests_def)
qed

end
