(* ===== verification/Oidc.thy ===== *)
theory Oidc
  imports Jwks Policy
begin

text \<open>
  Verifying a bearer token, from \<open>src/app/oidc.py\<close>: the selection of the key, the checks on the claims,
  the principal a token becomes, and the choice of the identity provider.  The token library is an
  argument; what is relied on is that it answers claims only for a token whose signature the given key
  verifies and whose issuer and audience are the given ones.  A JSON integer is converted to a float
  exactly or not at all, and the difference of two floats is exact.
\<close>

subsection \<open>Settings of the program\<close>

definition ALLOWED_ALGORITHMS :: "string list" where
  "ALLOWED_ALGORITHMS = [''RS256'', ''ES256'']"

definition MAX_TOKEN_LENGTH :: nat where
  "MAX_TOKEN_LENGTH = 16 * 1024"

definition MAX_TOKEN_LIFETIME_S :: rat where
  "MAX_TOKEN_LIFETIME_S = 3600"

definition AGENT_SUBJECT_PREFIX :: string where
  "AGENT_SUBJECT_PREFIX = ''agent:''"

definition REQUIRED_CLAIMS :: "string list" where
  "REQUIRED_CLAIMS = [''exp'', ''iss'', ''aud'', ''sub'']"

definition key_type :: "string \<Rightarrow> string" where
  "key_type alg = (if alg = ''RS256'' then ''RSA'' else ''EC'')"

definition UNKNOWN_KEY :: string where
  "UNKNOWN_KEY = ''invalid token: unknown key''"

definition verification_failed :: oidc_error where
  "verification_failed = IdentityErr ''invalid token: verification failed''"

text \<open>
  \<open>get_unverified_header\<close>, the key of a \<open>PyJWK\<close>, and \<open>decode\<close> with its key, algorithms, audience, issuer,
  leeway and required claims.
\<close>

record jwt_lib =
  header_of :: "string \<Rightarrow> pydict option"
  pyjwk :: "pydict \<Rightarrow> string option"
  decode :: "string \<Rightarrow> string \<Rightarrow> string list \<Rightarrow> string \<Rightarrow> string \<Rightarrow> int \<Rightarrow> string list \<Rightarrow> pydict option"

subsection \<open>The key\<close>

text \<open>Whether an entry of the key document is the key a token names.\<close>

definition matches :: "string option \<Rightarrow> string \<Rightarrow> pydict \<Rightarrow> bool" where
  "matches kid alg jwk \<longleftrightarrow>
     (case kid of None \<Rightarrow> False | Some k \<Rightarrow> dgetN jwk ''kid'' = PStr k) \<and>
     dget_or jwk ''use'' (PStr ''sig'') = PStr ''sig'' \<and>
     (case dgetN jwk ''key_ops'' of PList ops \<Rightarrow> py_in (PStr ''verify'') ops | _ \<Rightarrow> True) \<and>
     dget_or jwk ''alg'' (PStr alg) = PStr alg \<and>
     dget_or jwk ''kty'' (PStr (key_type alg)) = PStr (key_type alg)"

fun select_key :: "jwt_lib \<Rightarrow> string option \<Rightarrow> string \<Rightarrow> pyval list \<Rightarrow> oidc_error + string" where
  "select_key lib kid alg [] = Inl (IdentityErr UNKNOWN_KEY)"
| "select_key lib kid alg (v # vs) =
     (case v of
        PDict jwk \<Rightarrow>
          if matches kid alg jwk
          then (case pyjwk lib jwk of Some k \<Rightarrow> Inr k | None \<Rightarrow> Inl (IdentityErr ''invalid token: unusable key''))
          else select_key lib kid alg vs
      | _ \<Rightarrow> select_key lib kid alg vs)"

definition signing_key ::
  "jwt_lib \<Rightarrow> visit \<Rightarrow> oidc_settings \<Rightarrow> string option \<Rightarrow> string \<Rightarrow> bool \<Rightarrow> jwks_state \<Rightarrow>
   (oidc_call, oidc_error, string) logged \<times> jwks_state" where
  "signing_key lib v s kid alg refresh st =
     (case jwks v s refresh st of
        (m, st') \<Rightarrow>
          (bindW m (\<lambda>doc. liftW (select_key lib kid alg (the_list (dgetN doc ''keys'')))), st'))"

subsection \<open>Rejections in the log\<close>

definition printable :: "char \<Rightarrow> bool" where
  "printable c \<longleftrightarrow> (32 \<le> (of_char c :: nat) \<and> of_char c \<le> (126 :: nat)) \<or>
     (161 \<le> (of_char c :: nat) \<and> of_char c \<noteq> (173 :: nat))"

definition log_safe_kid :: "string option \<Rightarrow> string" where
  "log_safe_kid kid = (case kid of None \<Rightarrow> [] | Some k \<Rightarrow> take 64 (filter printable k))"

definition rejected ::
  "oidc_settings \<Rightarrow> string option \<Rightarrow> oidc_error \<Rightarrow> (oidc_call, oidc_error, 'a) logged" where
  "rejected s kid e = tellW [LoggedRejection (reason_of e) (log_safe_kid kid) (issuer s)] (liftW (Inl e))"

text \<open>An unknown key is looked up once more in a refreshed document.\<close>

definition find_key ::
  "jwt_lib \<Rightarrow> visit \<Rightarrow> visit \<Rightarrow> oidc_settings \<Rightarrow> string option \<Rightarrow> string \<Rightarrow> jwks_state \<Rightarrow>
   (oidc_call, oidc_error, string) logged \<times> jwks_state" where
  "find_key lib v v' s kid alg st =
     (case signing_key lib v s kid alg False st of
        (m, st1) \<Rightarrow>
          (case snd m of
             Inr k \<Rightarrow> (m, st1)
           | Inl e \<Rightarrow>
               if reason_of e \<noteq> UNKNOWN_KEY then (m, st1)
               else (case signing_key lib v' s kid alg True st1 of
                       (m', st2) \<Rightarrow>
                         (tellW (fst m)
                            (case snd m' of
                               Inr k \<Rightarrow> m'
                             | Inl e' \<Rightarrow> tellW (fst m') (rejected s kid (IdentityErr (reason_of e')))), st2))))"

subsection \<open>Claims\<close>

text \<open>\<open>str.split()\<close>\<close>

definition split_ws :: "string \<Rightarrow> string list" where
  "split_ws s = filter (\<lambda>p. p \<noteq> []) (split_on CHR '' '' (map (\<lambda>c. if is_space c then CHR '' '' else c) s))"

definition strings_of :: "pyval list \<Rightarrow> string list" where
  "strings_of vs = map the_str (filter is_pystr vs)"

definition py_or3 :: "pyval \<Rightarrow> pyval \<Rightarrow> pyval \<Rightarrow> pyval" where
  "py_or3 a b c = (if truthy a then a else if truthy b then b else c)"

definition roles_from_claims :: "pydict \<Rightarrow> string list" where
  "roles_from_claims claims =
     (case py_or3 (dgetN claims ''groups'') (dgetN claims ''roles'') (PList []) of
        PStr s \<Rightarrow> filter (\<lambda>r. r \<in> set ROLES) (split_ws s)
      | PList vs \<Rightarrow> filter (\<lambda>r. r \<in> set ROLES) (strings_of vs)
      | _ \<Rightarrow> [])"

definition scopes_from_claims :: "pydict \<Rightarrow> string list" where
  "scopes_from_claims claims =
     (case dgetN claims ''scope'' of
        PStr s \<Rightarrow> filter (\<lambda>p. p \<noteq> [] \<and> p \<noteq> ''*'') (split_ws s)
      | _ \<Rightarrow> (case dgetN claims ''scp'' of
               PList vs \<Rightarrow> filter (\<lambda>p. p \<noteq> [] \<and> p \<noteq> ''*'') (strings_of vs)
             | _ \<Rightarrow> []))"

definition email_from_claims :: "pydict \<Rightarrow> string" where
  "email_from_claims claims =
     (case dgetN claims ''email'' of
        PStr e \<Rightarrow> if e \<noteq> [] \<and> dgetN claims ''email_verified'' = PBool True then e else []
      | _ \<Rightarrow> [])"

text \<open>Integers from \<open>2 ^ 1024 - 2 ^ 970\<close> on have no float.\<close>

definition numeric_claim :: "pydict \<Rightarrow> string \<Rightarrow> oidc_error + rat" where
  "numeric_claim claims name =
     (case dgetN claims name of
        PInt i \<Rightarrow> if \<bar>i\<bar> < 2 ^ 1024 - 2 ^ 970 then Inr (of_int i) else Inl verification_failed
      | PFloat (Fin q) \<Rightarrow> Inr q
      | _ \<Rightarrow> Inl verification_failed)"

definition token_lifetime :: "pydict \<Rightarrow> oidc_error + rat" where
  "token_lifetime claims =
     bindE (numeric_claim claims ''exp'') (\<lambda>e. bindE (numeric_claim claims ''iat'') (\<lambda>i. Inr (e - i)))"

definition agent_clients :: "env \<Rightarrow> string list" where
  "agent_clients env =
     filter (\<lambda>p. p \<noteq> []) (map strip (split_on CHR '','' (env_get env ''PIPELINE_OIDC_AGENT_CLIENTS'')))"

definition agent_scope_claim :: "env \<Rightarrow> string" where
  "agent_scope_claim env =
     (case dget env ''PIPELINE_OIDC_AGENT_SCOPE_CLAIM'' of
        Some v \<Rightarrow> if strip v = [] then ''team_scope'' else strip v
      | None \<Rightarrow> ''team_scope'')"

definition is_agent_client :: "env \<Rightarrow> pydict \<Rightarrow> bool" where
  "is_agent_client env claims =
     (case dgetN claims ''azp'' of PStr azp \<Rightarrow> azp \<in> set (agent_clients env) | _ \<Rightarrow> False)"

definition agent_principal :: "string \<Rightarrow> string \<Rightarrow> principal" where
  "agent_principal azp scope =
     default_principal (AGENT_SUBJECT_PREFIX @ scope) ''oidc''
       \<lparr>principal_type := ''agent'', client_id := azp, team_scope := scope\<rparr>"

definition human_principal :: "pydict \<Rightarrow> string \<Rightarrow> principal" where
  "human_principal claims sub =
     default_principal (the_str (dgetN claims ''iss'') @ ''#'' @ sub) ''oidc''
       \<lparr>roles := roles_from_claims claims, scopes := scopes_from_claims claims,
        email := email_from_claims claims, client_id := the_str (dgetN claims ''azp'')\<rparr>"

text \<open>The checks on the subject and the lifetime, in the code's order.\<close>

definition check_claims :: "pydict \<Rightarrow> oidc_error + string" where
  "check_claims claims =
     with_str (dgetN claims ''sub'') (IdentityErr ''invalid token: missing subject'') (\<lambda>sub.
     bindE (guardE (strip sub \<noteq> []) (IdentityErr ''invalid token: missing subject'')) (\<lambda>_.
     bindE (token_lifetime claims) (\<lambda>l.
     bindE (guardE (l \<le> MAX_TOKEN_LIFETIME_S) verification_failed) (\<lambda>_.
     bindE (guardE (CHR ''#'' \<notin> set sub) (IdentityErr ''invalid token: unsupported subject'')) (\<lambda>_.
     bindE (guardE (\<not> starts_with sub SYSTEM_SUBJECT_PREFIX) (ReservedSubject ''invalid token: reserved subject'')) (\<lambda>_.
     bindE (guardE (\<not> starts_with sub AGENT_SUBJECT_PREFIX) (ReservedSubject ''invalid token: reserved subject'')) (\<lambda>_.
     Inr sub)))))))"

definition principal_of :: "env \<Rightarrow> pydict \<Rightarrow> string \<Rightarrow> oidc_error + principal" where
  "principal_of env claims sub =
     (if is_agent_client env claims
      then with_str (dgetN claims (agent_scope_claim env)) (IdentityErr ''invalid token: agent scope'') (\<lambda>scope.
             case mk_principal (agent_principal (the_str (dgetN claims ''azp'')) scope) of
               Inl _ \<Rightarrow> Inl (IdentityErr ''invalid token: agent scope'')
             | Inr p \<Rightarrow> Inr p)
      else (case mk_principal (human_principal claims sub) of
              Inl _ \<Rightarrow> Inl (IdentityErr ''invalid principal'')
            | Inr p \<Rightarrow> Inr p))"

definition accept_claims ::
  "env \<Rightarrow> oidc_settings \<Rightarrow> string option \<Rightarrow> pydict \<Rightarrow> (oidc_call, oidc_error, principal) logged" where
  "accept_claims env s kid claims =
     (case bindE (check_claims claims) (principal_of env claims) of
        Inl e \<Rightarrow> rejected s kid e
      | Inr p \<Rightarrow> retW p)"

subsection \<open>The token\<close>

definition header_alg :: "pydict \<Rightarrow> oidc_error + string" where
  "header_alg header =
     with_str (dgetN header ''alg'') (IdentityErr ''invalid token: unsupported algorithm'') (\<lambda>alg.
       if alg \<in> set ALLOWED_ALGORITHMS then Inr alg else Inl (IdentityErr ''invalid token: unsupported algorithm''))"

definition header_kid :: "pydict \<Rightarrow> string option" where
  "header_kid header = (case dgetN header ''kid'' of PStr k \<Rightarrow> Some k | _ \<Rightarrow> None)"

definition token_header :: "jwt_lib \<Rightarrow> string option \<Rightarrow> oidc_error + string \<times> pydict \<times> string" where
  "token_header lib token =
     (case token of
        None \<Rightarrow> Inl (IdentityErr ''missing credential'')
      | Some t \<Rightarrow>
          if t = [] then Inl (IdentityErr ''missing credential'')
          else if MAX_TOKEN_LENGTH < length t then Inl (IdentityErr ''invalid token: malformed'')
          else with_some (header_of lib t) (IdentityErr ''invalid token: malformed'') (\<lambda>header.
            bindE (header_alg header) (\<lambda>alg. Inr (t, header, alg))))"

definition verify_token ::
  "jwt_lib \<Rightarrow> env \<Rightarrow> visit \<Rightarrow> visit \<Rightarrow> oidc_settings \<Rightarrow> string option \<Rightarrow> jwks_state \<Rightarrow>
   (oidc_call, oidc_error, principal) logged \<times> jwks_state" where
  "verify_token lib env v v' s token st =
     (case token_header lib token of
        Inl e \<Rightarrow> (liftW (Inl e), st)
      | Inr (t, header, alg) \<Rightarrow>
          (case find_key lib v v' s (header_kid header) alg st of
             (m, st') \<Rightarrow>
               (bindW m (\<lambda>key.
                  case decode lib t key ALLOWED_ALGORITHMS (audience s) (issuer s) (clock_skew_s s) REQUIRED_CLAIMS of
                    None \<Rightarrow> rejected s (header_kid header) verification_failed
                  | Some claims \<Rightarrow> accept_claims env s (header_kid header) claims), st')))"

subsection \<open>The provider\<close>

datatype provider = SharedSecretProvider | OidcProvider oidc_settings | PluginProvider pyobj

datatype build_error = PluginRefused plugin_error | BadConfiguration oidc_error

definition SHARED_SECRET :: string where
  "SHARED_SECRET = ''shared-secret''"

definition comma_join :: "string list \<Rightarrow> string" where
  "comma_join xs = (case xs of [] \<Rightarrow> [] | y # ys \<Rightarrow> y @ concat (map (\<lambda>z. '', '' @ z) ys))"

definition settings_from_env :: "net \<Rightarrow> env \<Rightarrow> oidc_error + oidc_settings" where
  "settings_from_env n env =
     (let names = [''PIPELINE_OIDC_ISSUER'', ''PIPELINE_OIDC_AUDIENCE'', ''PIPELINE_OIDC_JWKS_URL''];
          missing = filter (\<lambda>k. strip (env_get env k) = []) names;
          bad_skew = IdentityErr ''invalid oidc configuration: PIPELINE_OIDC_CLOCK_SKEW_S'';
          raw_skew = strip (case dget env ''PIPELINE_OIDC_CLOCK_SKEW_S'' of Some v \<Rightarrow> v | None \<Rightarrow> ''60'');
          allow = strip (env_get env ''PIPELINE_OIDC_ALLOW_PRIVATE_JWKS'') in
      bindE (guardE (missing = []) (IdentityErr (''invalid oidc configuration: '' @ comma_join missing))) (\<lambda>_.
      with_some (int_of_str raw_skew) bad_skew (\<lambda>skew.
      bindE (guardE (0 \<le> skew) bad_skew) (\<lambda>_.
      mk_settings n (PStr (strip (env_get env ''PIPELINE_OIDC_ISSUER'')))
        (PStr (strip (env_get env ''PIPELINE_OIDC_AUDIENCE'')))
        (PStr (strip (env_get env ''PIPELINE_OIDC_JWKS_URL''))) (PInt skew)
        (lower allow \<in> {''1'', ''true''})))))"

text \<open>\<open>build\<close> is the call of the plugin's factory.\<close>

definition build_identity_provider ::
  "string list \<Rightarrow> world \<Rightarrow> (pyobj \<Rightarrow> pyobj) \<Rightarrow> net \<Rightarrow> env \<Rightarrow> build_error + provider" where
  "build_identity_provider stdlib world build n env =
     (case bindE (require_allowlist env ''identity'') (\<lambda>_.
           bindE (snd (load_plugin stdlib world env ''identity''
                    (Some (''PIPELINE_IDENTITY_PROVIDER'', Some SHARED_SECRET)) [])) (\<lambda>factory.
           case factory of
             None \<Rightarrow> Inr None
           | Some f \<Rightarrow> bindE (require_methods (build f) [''authenticate'']) (\<lambda>_. Inr (Some (build f))))) of
        Inl e \<Rightarrow> Inl (PluginRefused e)
      | Inr (Some p) \<Rightarrow> Inr (PluginProvider p)
      | Inr None \<Rightarrow>
          (let raw = strip (case dget env ''PIPELINE_IDENTITY_PROVIDER'' of Some v \<Rightarrow> v | None \<Rightarrow> SHARED_SECRET) in
           if raw = [] \<or> raw = SHARED_SECRET then Inr SharedSecretProvider
           else if raw = ''oidc'' then
             (case settings_from_env n env of
                Inl e \<Rightarrow> Inl (BadConfiguration e) | Inr s \<Rightarrow> Inr (OidcProvider s))
           else Inl (BadConfiguration (IdentityErr ''invalid oidc configuration: unknown identity provider''))))"

subsection \<open>What is relied on\<close>

text \<open>
  \<open>attested key token\<close> stands for a signature that verifies.  \<open>decode\<close> answers claims only for such a
  token, with the issuer asked for, an audience among those asked for, and the required claims present.
\<close>

definition jwt_sound :: "jwt_lib \<Rightarrow> (string \<Rightarrow> string \<Rightarrow> bool) \<Rightarrow> bool" where
  "jwt_sound lib attested \<longleftrightarrow>
     (\<forall>t key algs aud iss leeway req claims.
        decode lib t key algs aud iss leeway req = Some claims \<longrightarrow>
          attested key t \<and> dgetN claims ''iss'' = PStr iss \<and>
          (dgetN claims ''aud'' = PStr aud \<or> (\<exists>vs. dgetN claims ''aud'' = PList vs \<and> PStr aud \<in> set vs)) \<and>
          (\<forall>k \<in> set req. dget claims k \<noteq> None))"

subsection \<open>Principals of tokens\<close>

lemma select_key_found:
  assumes "select_key lib kid alg vs = Inr k"
  shows "\<exists>jwk. PDict jwk \<in> set vs \<and> matches kid alg jwk \<and> pyjwk lib jwk = Some k"
  using assms by (induction vs) (auto split: pyval.splits if_splits option.splits)

lemma roles_known: "set (roles_from_claims claims) \<subseteq> set ROLES"
  by (auto simp: roles_from_claims_def split: pyval.split)

lemma scopes_plain: "[] \<notin> set (scopes_from_claims claims)" "''*'' \<notin> set (scopes_from_claims claims)"
  by (auto simp: scopes_from_claims_def split: pyval.split)

lemma strip_has:
  assumes "c \<in> set s" "\<not> is_space c"
  shows "strip s \<noteq> []"
proof -
  have "c \<in> set (dropWhile is_space s)" using assms by (induction s) auto
  with assms(2) show ?thesis by (auto simp: strip_def lstrip_def dropWhile_eq_Nil_conv)
qed

lemma hash_no_space [simp]: "\<not> is_space CHR ''#''"
  by code_simp

lemma human_accepted: "mk_principal (human_principal claims sub) = Inr (human_principal claims sub)"
proof -
  have "strip (the_str (dgetN claims ''iss'') @ ''#'' @ sub) \<noteq> []"
    by (rule strip_has [of "CHR ''#''"]) simp_all
  with roles_known [of claims] scopes_plain [of claims] show ?thesis
    by (simp add: mk_principal_iff principal_ok_def human_principal_def default_principal_def PRINCIPAL_TYPES_def)
qed

lemma human_fields:
  "subject (human_principal claims sub) = the_str (dgetN claims ''iss'') @ ''#'' @ sub"
  "auth_method (human_principal claims sub) = ''oidc''" "principal_type (human_principal claims sub) = ''human''"
  "scopes (human_principal claims sub) = scopes_from_claims claims"
  by (simp_all add: human_principal_def default_principal_def)

lemma agent_fields:
  "subject (agent_principal azp scope) = ''agent:'' @ scope" "auth_method (agent_principal azp scope) = ''oidc''"
  "principal_type (agent_principal azp scope) = ''agent''" "scopes (agent_principal azp scope) = []"
  by (simp_all add: agent_principal_def default_principal_def AGENT_SUBJECT_PREFIX_def)

lemma agent_accepted:
  "mk_principal (agent_principal azp scope) = Inr p \<longleftrightarrow> p = agent_principal azp scope \<and> team_scope_pattern scope"
proof -
  have "strip (AGENT_SUBJECT_PREFIX @ scope) \<noteq> []"
    by (rule strip_has [of "CHR ''a''"]) (simp_all add: AGENT_SUBJECT_PREFIX_def is_space_def)
  then show ?thesis
    by (auto simp: mk_principal_iff principal_ok_def agent_principal_def default_principal_def PRINCIPAL_TYPES_def)
qed

lemma check_claims_accepts:
  "check_claims claims = Inr sub \<longleftrightarrow>
     dgetN claims ''sub'' = PStr sub \<and> strip sub \<noteq> [] \<and> CHR ''#'' \<notin> set sub \<and>
     \<not> starts_with sub SYSTEM_SUBJECT_PREFIX \<and> \<not> starts_with sub AGENT_SUBJECT_PREFIX \<and>
     (\<exists>l. token_lifetime claims = Inr l \<and> l \<le> MAX_TOKEN_LIFETIME_S)"
  by (auto simp: check_claims_def bindE_Inr_iff with_Inr_iff)

text \<open>The principal of accepted claims: an agent of an allowlisted client, or the account the issuer names.\<close>

definition agent_of :: "env \<Rightarrow> pydict \<Rightarrow> principal \<Rightarrow> bool" where
  "agent_of env claims p \<longleftrightarrow>
     (\<exists>azp scope. dgetN claims ''azp'' = PStr azp \<and> azp \<in> set (agent_clients env) \<and>
        dgetN claims (agent_scope_claim env) = PStr scope \<and> team_scope_pattern scope \<and>
        p = agent_principal azp scope)"

definition account_of :: "env \<Rightarrow> oidc_settings \<Rightarrow> pydict \<Rightarrow> principal \<Rightarrow> bool" where
  "account_of env s claims p \<longleftrightarrow>
     (\<exists>sub. dgetN claims ''sub'' = PStr sub \<and> CHR ''#'' \<notin> set sub \<and> \<not> is_agent_client env claims \<and>
        subject p = issuer s @ ''#'' @ sub \<and> p = human_principal claims sub)"

lemma accept_claims_accepts:
  assumes "snd (accept_claims env s kid claims) = Inr p" "dgetN claims ''iss'' = PStr (issuer s)"
  shows "(agent_of env claims p \<or> account_of env s claims p) \<and> (\<exists>sub. check_claims claims = Inr sub)"
proof -
  from assms(1) obtain sub where sub: "check_claims claims = Inr sub" and p: "principal_of env claims sub = Inr p"
    by (auto simp: accept_claims_def rejected_def bindE_Inr_iff split: sum.splits)
  have "agent_of env claims p \<or> account_of env s claims p"
  proof (cases "is_agent_client env claims")
    case True
    then obtain azp where azp: "dgetN claims ''azp'' = PStr azp" "azp \<in> set (agent_clients env)"
      by (auto simp: is_agent_client_def split: pyval.splits)
    with True p obtain scope where scope: "dgetN claims (agent_scope_claim env) = PStr scope"
      and "(case mk_principal (agent_principal azp scope) of
              Inl _ \<Rightarrow> Inl (IdentityErr ''invalid token: agent scope'') | Inr p \<Rightarrow> Inr p) = Inr p"
      by (auto simp: principal_of_def with_Inr_iff)
    then have "mk_principal (agent_principal azp scope) = Inr p" by (simp split: sum.splits)
    with azp scope show ?thesis by (auto simp: agent_of_def agent_accepted)
  next
    case False
    with p have "p = human_principal claims sub"
      by (simp add: principal_of_def human_accepted)
    with False sub assms(2) show ?thesis
      by (auto simp: account_of_def check_claims_accepts human_fields)
  qed
  with sub show ?thesis by blast
qed

lemma verify_parts:
  assumes "snd (fst (verify_token lib env v v' s token st)) = Inr p"
  shows "\<exists>t header alg key claims. token = Some t \<and> header_of lib t = Some header \<and>
    dgetN header ''alg'' = PStr alg \<and> alg \<in> set ALLOWED_ALGORITHMS \<and> length t \<le> MAX_TOKEN_LENGTH \<and>
    snd (fst (find_key lib v v' s (header_kid header) alg st)) = Inr key \<and>
    decode lib t key ALLOWED_ALGORITHMS (audience s) (issuer s) (clock_skew_s s) REQUIRED_CLAIMS = Some claims \<and>
    snd (accept_claims env s (header_kid header) claims) = Inr p"
proof -
  from assms obtain t header alg where h: "token_header lib token = Inr (t, header, alg)"
    by (auto simp: verify_token_def split: sum.splits)
  then have t: "token = Some t" "header_of lib t = Some header" "dgetN header ''alg'' = PStr alg"
    "alg \<in> set ALLOWED_ALGORITHMS" "length t \<le> MAX_TOKEN_LENGTH"
    by (auto simp: token_header_def header_alg_def with_Inr_iff bindE_Inr_iff split: option.splits if_splits)
  from assms h obtain key where key: "snd (fst (find_key lib v v' s (header_kid header) alg st)) = Inr key"
    and "snd (case decode lib t key ALLOWED_ALGORITHMS (audience s) (issuer s) (clock_skew_s s) REQUIRED_CLAIMS of
          None \<Rightarrow> rejected s (header_kid header) verification_failed
        | Some claims \<Rightarrow> accept_claims env s (header_kid header) claims) = Inr p"
    by (auto simp: verify_token_def bindE_Inr_iff split: prod.splits)
  then obtain claims where
    "decode lib t key ALLOWED_ALGORITHMS (audience s) (issuer s) (clock_skew_s s) REQUIRED_CLAIMS = Some claims"
    "snd (accept_claims env s (header_kid header) claims) = Inr p"
    by (auto simp: rejected_def split: option.splits)
  with t key show ?thesis by blast
qed

text \<open>The document a key is taken from is the one in the cache afterwards.\<close>

lemma cached_is_there: "cached_jwks st url force now = Some doc \<Longrightarrow> \<exists>t. dget (jwks_cache st) url = Some (t, doc)"
  by (auto simp: cached_jwks_def split: option.splits if_splits)

lemma jwks_cached:
  assumes "jwks v s force st = (m, st')" "snd m = Inr doc"
  shows "\<exists>t. dget (jwks_cache st') (jwks_url s) = Some (t, doc)"
  using assms cached_is_there
  by (fastforce simp: jwks_def jwks_locked_def Let_def split: option.splits sum.splits)

definition published :: "jwt_lib \<Rightarrow> oidc_settings \<Rightarrow> jwks_state \<Rightarrow> string option \<Rightarrow> string \<Rightarrow> string \<Rightarrow> bool" where
  "published lib s st kid alg key \<longleftrightarrow>
     (\<exists>t doc jwk. dget (jwks_cache st) (jwks_url s) = Some (t, doc) \<and>
        PDict jwk \<in> set (the_list (dgetN doc ''keys'')) \<and> matches kid alg jwk \<and> pyjwk lib jwk = Some key)"

lemma signing_key_published:
  assumes "signing_key lib v s kid alg force st = (m, st')" "snd m = Inr key"
  shows "published lib s st' kid alg key"
proof -
  obtain mj where j: "jwks v s force st = (mj, st')"
    and m: "m = bindW mj (\<lambda>doc. liftW (select_key lib kid alg (the_list (dgetN doc ''keys''))))"
    using assms(1) by (auto simp: signing_key_def split: prod.splits)
  from assms(2) m obtain doc where d: "snd mj = Inr doc"
    and k: "select_key lib kid alg (the_list (dgetN doc ''keys'')) = Inr key"
    by (auto simp: bindE_Inr_iff)
  from jwks_cached [OF j d] select_key_found [OF k] show ?thesis
    unfolding published_def by blast
qed

lemma find_key_published:
  assumes "find_key lib v v' s kid alg st = (m, st')" "snd m = Inr key"
  shows "published lib s st' kid alg key"
proof -
  obtain m1 st1 where 1: "signing_key lib v s kid alg False st = (m1, st1)" by fastforce
  obtain m2 st2 where 2: "signing_key lib v' s kid alg True st1 = (m2, st2)" by fastforce
  from assms 1 2 have "m = m1 \<and> st' = st1 \<or> st' = st2 \<and> snd m2 = Inr key"
    by (auto simp: find_key_def rejected_def split: sum.splits if_splits)
  then show ?thesis
    using signing_key_published [OF 1] signing_key_published [OF 2] assms(2) by auto
qed

text \<open>
  What the token a caller presents says: what \<open>decode\<close> answers for this very token with a key that the cached
  document publishes under the token's key id, for the algorithm its header names, and whose signature it is.
\<close>

definition presented ::
  "jwt_lib \<Rightarrow> (string \<Rightarrow> string \<Rightarrow> bool) \<Rightarrow> oidc_settings \<Rightarrow> jwks_state \<Rightarrow> string option \<Rightarrow> pydict \<Rightarrow> bool" where
  "presented lib attested s st token claims \<longleftrightarrow>
     (\<exists>t header alg key. token = Some t \<and> t \<noteq> [] \<and> length t \<le> 16384 \<and> header_of lib t = Some header \<and>
        dgetN header ''alg'' = PStr alg \<and> alg \<in> {''RS256'', ''ES256''} \<and>
        published lib s st (header_kid header) alg key \<and> attested key t \<and>
        decode lib t key [''RS256'', ''ES256''] (audience s) (issuer s) (clock_skew_s s)
          [''exp'', ''iss'', ''aud'', ''sub''] = Some claims)"

definition claim_time :: "pydict \<Rightarrow> string \<Rightarrow> rat \<Rightarrow> bool" where
  "claim_time claims k q \<longleftrightarrow> (\<exists>i. dgetN claims k = PInt i \<and> q = of_int i) \<or> dgetN claims k = PFloat (Fin q)"

text \<open>Claims of the configured issuer and audience, of a plain subject, and for at most an hour.\<close>

definition acceptable :: "oidc_settings \<Rightarrow> pydict \<Rightarrow> bool" where
  "acceptable s claims \<longleftrightarrow>
     dgetN claims ''iss'' = PStr (issuer s) \<and>
     (dgetN claims ''aud'' = PStr (audience s) \<or>
        (\<exists>vs. dgetN claims ''aud'' = PList vs \<and> PStr (audience s) \<in> set vs)) \<and>
     (\<exists>issued expires. claim_time claims ''iat'' issued \<and> claim_time claims ''exp'' expires \<and> expires - issued \<le> 3600) \<and>
     (\<exists>sub. dgetN claims ''sub'' = PStr sub \<and> strip sub \<noteq> [] \<and> CHR ''#'' \<notin> set sub \<and>
        \<not> starts_with sub ''system:'' \<and> \<not> starts_with sub ''agent:'')"

lemma lifetime_claims:
  "token_lifetime claims = Inr l \<Longrightarrow>
     \<exists>issued expires. claim_time claims ''iat'' issued \<and> claim_time claims ''exp'' expires \<and> l = expires - issued"
  by (auto simp: token_lifetime_def numeric_claim_def claim_time_def bindE_Inr_iff split: pyval.splits pyfloat.splits if_splits)

lemma token_verified:
  assumes "jwt_sound lib attested" "verify_token lib env v v' s token st = (m, st')" "snd m = Inr p"
  shows "\<exists>claims. presented lib attested s st' token claims \<and> acceptable s claims \<and>
    (agent_of env claims p \<or> account_of env s claims p)"
proof -
  from assms(2,3) have "snd (fst (verify_token lib env v v' s token st)) = Inr p" by simp
  then obtain t header alg key claims where
    t: "token = Some t" "header_of lib t = Some header" "dgetN header ''alg'' = PStr alg" "alg \<in> set ALLOWED_ALGORITHMS"
      "length t \<le> MAX_TOKEN_LENGTH"
    and key: "snd (fst (find_key lib v v' s (header_kid header) alg st)) = Inr key"
    and claims: "decode lib t key ALLOWED_ALGORITHMS (audience s) (issuer s) (clock_skew_s s) REQUIRED_CLAIMS = Some claims"
    and p: "snd (accept_claims env s (header_kid header) claims) = Inr p"
    using verify_parts by blast
  from assms(2,3) t(1) have "t \<noteq> []" by (auto simp: verify_token_def token_header_def)
  with t have h: "token_header lib token = Inr (t, header, alg)"
    by (simp add: token_header_def header_alg_def with_some_def with_str_def)
  obtain mk where "find_key lib v v' s (header_kid header) alg st = (mk, st')"
    using assms(2) h by (auto simp: verify_token_def split: prod.splits)
  with key have "published lib s st' (header_kid header) alg key"
    using find_key_published [of lib v v' s "header_kid header" alg st mk st' key] by simp
  moreover from assms(1) claims have c: "attested key t" "dgetN claims ''iss'' = PStr (issuer s)"
    "dgetN claims ''aud'' = PStr (audience s) \<or> (\<exists>vs. dgetN claims ''aud'' = PList vs \<and> PStr (audience s) \<in> set vs)"
    unfolding jwt_sound_def by blast+
  ultimately have "presented lib attested s st' token claims"
    using t \<open>t \<noteq> []\<close> claims
    by (auto simp: presented_def ALLOWED_ALGORITHMS_def MAX_TOKEN_LENGTH_def REQUIRED_CLAIMS_def)
  moreover from accept_claims_accepts [OF p c(2)] obtain sub l where
    "dgetN claims ''sub'' = PStr sub" "strip sub \<noteq> []" "CHR ''#'' \<notin> set sub"
    "\<not> starts_with sub SYSTEM_SUBJECT_PREFIX" "\<not> starts_with sub AGENT_SUBJECT_PREFIX"
    "token_lifetime claims = Inr l" "l \<le> MAX_TOKEN_LIFETIME_S" "agent_of env claims p \<or> account_of env s claims p"
    by (auto simp: check_claims_accepts)
  moreover from this(6) obtain issued expires where
    "claim_time claims ''iat'' issued" "claim_time claims ''exp'' expires" "l = expires - issued"
    using lifetime_claims by blast
  ultimately show ?thesis
    using c unfolding acceptable_def MAX_TOKEN_LIFETIME_S_def AGENT_SUBJECT_PREFIX_def SYSTEM_SUBJECT_PREFIX_def
    by blast
qed

text \<open>
  C37: A token is accepted only if its header names an allowed algorithm, a key that the provider's key
  document publishes under the token's key id and for that algorithm verifies its signature, and the claims
  decoded from this token with that key are of the configured issuer and audience, of a plain subject (not
  blank, without a hash sign, not one of the reserved prefixes) and run for at most an hour.  It then becomes
  an agent without roles when its client is allowlisted, else the account that its issuer and subject name.
  \<open>decode\<close> is relied on to check signature, issuer and audience.
\<close>

theorem tokens_are_verified:
  assumes "jwt_sound lib attested" "verify_token lib env v v' s token st = (m, st')" "snd m = Inr p"
  shows "\<exists>claims. presented lib attested s st' token claims \<and> acceptable s claims \<and>
    (agent_of env claims p \<or> account_of env s claims p)"
  using assms by (rule token_verified)

subsection \<open>What a token can do\<close>

lemma team_scope_no_hash:
  assumes "team_scope_pattern scope"
  shows "CHR ''#'' \<notin> set scope"
proof -
  have seg: "CHR ''#'' \<notin> set x" if "scope_segment x" for x
    using that by (auto simp: scope_segment_def list_all_iff is_lower_def is_digit_def split: list.splits)
  from assms obtain org team where "partition_at CHR ''/'' scope = (org, True, team)"
    "scope_segment org" "scope_segment team"
    by (auto simp: team_scope_pattern_def split: prod.splits)
  with partition_at_found [of "CHR ''/''" scope org team] seg show ?thesis by auto
qed

lemma token_claims:
  assumes "jwt_sound lib attested" "verify_token lib env v v' s token st = (m, st')" "snd m = Inr p"
  obtains claims where "agent_of env claims p \<or> account_of env s claims p"
  using token_verified [OF assms] by blast

text \<open>An account's subject has its first hash sign where the issuer ends; an agent's has none.\<close>

lemma account_subject:
  assumes "account_of env s claims p" "CHR ''#'' \<notin> set (issuer s)"
  shows "\<exists>sub. dgetN claims ''sub'' = PStr sub \<and> partition_at CHR ''#'' (subject p) = (issuer s, True, sub)"
  using assms partition_at_append [OF assms(2)] by (auto simp: account_of_def)

lemma agent_subject:
  assumes "agent_of env claims p"
  shows "CHR ''#'' \<notin> set (subject p) \<and> subject p = ''agent:'' @ team_scope p"
  using assms by (auto simp: agent_of_def agent_fields agent_principal_def default_principal_def
      AGENT_SUBJECT_PREFIX_def dest: team_scope_no_hash)

lemma account_has_hash: "account_of env s claims p \<Longrightarrow> CHR ''#'' \<in> set (subject p)"
  by (auto simp: account_of_def)

lemma mk_settings_issuer: "mk_settings n iss aud url skew allow = Inr s \<Longrightarrow> CHR ''#'' \<notin> set (issuer s)"
  by (auto simp: mk_settings_def bindE_Inr_iff)

text \<open>
  C38: Accounts and agents do not collide.  Under any valid settings, two accepted tokens that become one
  subject carry claims of one account of one issuer (the same issuer and the same \<open>sub\<close>), or both carry the
  scope of one team in the claims of an allowlisted agent client.
\<close>

theorem subjects_name_one_account:
  assumes "jwt_sound lib attested" "mk_settings n iss aud url skew allow = Inr s"
    "mk_settings n' iss' aud' url' skew' allow' = Inr s'"
    "verify_token lib env v1 v2 s token st = (m, st1)" "snd m = Inr p"
    "verify_token lib env' v3 v4 s' token' st' = (m', st2)" "snd m' = Inr p'" "subject p = subject p'"
  shows "\<exists>claims claims'. presented lib attested s st1 token claims \<and> presented lib attested s' st2 token' claims' \<and>
    ((account_of env s claims p \<and> account_of env' s' claims' p' \<and> issuer s = issuer s' \<and>
       dgetN claims ''iss'' = dgetN claims' ''iss'' \<and> dgetN claims ''sub'' = dgetN claims' ''sub'') \<or>
     (agent_of env claims p \<and> agent_of env' claims' p' \<and>
       dgetN claims (agent_scope_claim env) = dgetN claims' (agent_scope_claim env')))"
proof -
  from token_verified [OF assms(1,4,5)] obtain claims where t: "presented lib attested s st1 token claims" "acceptable s claims"
    and c: "agent_of env claims p \<or> account_of env s claims p" by blast
  from token_verified [OF assms(1,6,7)] obtain claims' where t': "presented lib attested s' st2 token' claims'" "acceptable s' claims'"
    and c': "agent_of env' claims' p' \<or> account_of env' s' claims' p'" by blast
  have h: "CHR ''#'' \<notin> set (issuer s)" "CHR ''#'' \<notin> set (issuer s')"
    using mk_settings_issuer assms(2,3) by blast+
  show ?thesis
  proof (cases "CHR ''#'' \<in> set (subject p)")
    case True
    with c c' assms(8) agent_subject have a: "account_of env s claims p" "account_of env' s' claims' p'"
      by (metis, metis)
    with account_subject [OF a(1) h(1)] account_subject [OF a(2) h(2)] assms(8)
    have "issuer s = issuer s' \<and> dgetN claims ''sub'' = dgetN claims' ''sub''" by auto
    moreover from this have "dgetN claims ''iss'' = dgetN claims' ''iss''"
      using t(2) t'(2) by (simp add: acceptable_def)
    ultimately show ?thesis using a t(1) t'(1) by blast
  next
    case False
    with c c' assms(8) account_has_hash have a: "agent_of env claims p" "agent_of env' claims' p'"
      by (metis, metis)
    with agent_subject [OF a(1)] agent_subject [OF a(2)] assms(8) have "team_scope p = team_scope p'" by auto
    with a have "dgetN claims (agent_scope_claim env) = dgetN claims' (agent_scope_claim env')"
      by (auto simp: agent_of_def agent_principal_def default_principal_def)
    with a t(1) t'(1) show ?thesis by blast
  qed
qed

text \<open>Neither kind of principal is one the deployment acts as.\<close>

lemma not_operator:
  assumes "agent_of env claims p \<or> account_of env s claims p"
  shows "subject p \<noteq> LOCAL_OPERATOR_SUBJECT" "system_grants (subject p) = []" "auth_method p = ''oidc''"
proof -
  have s: "CHR ''#'' \<in> set (subject p) \<or> starts_with (subject p) ''agent:''"
    using assms account_has_hash [of env s claims p] agent_subject [of env claims p] by (auto simp: starts_with_def)
  then show "subject p \<noteq> LOCAL_OPERATOR_SUBJECT"
    by (auto simp: LOCAL_OPERATOR_SUBJECT_def starts_with_def)
  from s have "subject p \<notin> {''system:scheduler'', ''system:worker''}"
    by (auto simp: starts_with_def)
  then show "system_grants (subject p) = []"
    by (auto simp: system_grants_def SYSTEM_PRINCIPAL_GRANTS_def dget_def)
  show "auth_method p = ''oidc''"
    using assms by (auto simp: agent_of_def account_of_def human_fields agent_fields)
qed

text \<open>
  Whatever a token says, the local policy lets its principal act on a plan only as the plan's owner or
  as a named delegate; besides that it may only ingest plans nobody else owns and record decisions on
  plans it may see.  Without a plan it gets nothing but that.
\<close>

lemma tokens_act_on_their_plans:
  assumes "jwt_sound lib attested" "verify_token lib env v v' s token st = (m, st')" "snd m = Inr p"
    and "local_allow (Some p) act ro" "coerce_action act = Some a"
  shows "(a \<in> set owner_actions \<and> (\<exists>r. ro = Some r \<and> owns_or_delegate p r)) \<or>
    (a = PLAN_INGEST \<and> (\<exists>r. ro = Some r \<and> (r_owner r = [] \<or> r_owner r = subject p))) \<or>
    (a = DECISION_RECORD \<and> can_view (Some p) ro)"
proof -
  from token_claims [OF assms(1-3)] obtain claims where c: "agent_of env claims p \<or> account_of env s claims p" .
  from assms(4,5) have "allow_resolved p a ro" by (simp add: local_allow_def)
  moreover have "PLAN_INGEST \<notin> set owner_actions" "DECISION_RECORD \<notin> set owner_actions"
    by (simp_all add: owner_actions_def)
  ultimately show ?thesis
    using not_operator [OF c] by (auto simp: allow_resolved_def allow_ingest_def split: if_splits option.splits)
qed

subsection \<open>A run\<close>

definition demo_claims :: "string \<Rightarrow> string \<Rightarrow> pydict" where
  "demo_claims aud iss = [(''iss'', PStr iss), (''aud'', PStr aud), (''sub'', PStr ''bob''), (''exp'', PInt 100), (''iat'', PInt 0)]"

definition demo_jwt :: jwt_lib where
  "demo_jwt =
     \<lparr>header_of = (\<lambda>t. Some [(''alg'', PStr ''RS256''), (''kid'', PStr ''k1'')]), pyjwk = (\<lambda>j. Some ''key''),
      decode = (\<lambda>t key algs aud iss leeway req.
        if t = ''tok'' \<and> key = ''key'' \<and> set req \<subseteq> {''iss'', ''aud'', ''sub'', ''exp'', ''iat''}
        then Some (demo_claims aud iss) else None)\<rparr>"

definition demo_attested :: "string \<Rightarrow> string \<Rightarrow> bool" where
  "demo_attested key t \<longleftrightarrow> key = ''key'' \<and> t = ''tok''"

definition demo_cached :: jwks_state where
  "demo_cached = no_jwks\<lparr>jwks_cache :=
     [(''https://idp/keys'', 0, [(''keys'', PList [PDict [(''kid'', PStr ''k1'')]])])]\<rparr>"

definition demo_visit :: visit where
  "demo_visit = \<lparr>entered = 1, locked = 1, seen = demo_idp None\<rparr>"

definition bob :: principal where
  "bob = default_principal ''https://idp#bob'' ''oidc''"

lemma demo_jwt_sound: "jwt_sound demo_jwt demo_attested"
  by (auto simp: jwt_sound_def demo_jwt_def demo_attested_def demo_claims_def dgetN_def split: if_splits)

lemma demo_verified:
  "verify_token demo_jwt [] demo_visit demo_visit demo_settings (Some ''tok'') demo_cached = (([], Inr bob), demo_cached)"
  by code_simp

lemma demo_mk_settings:
  "mk_settings (demo_idp None) (PStr ''https://idp'') (PStr ''fagan'') (PStr ''https://idp/keys'') (PInt 60) False =
     Inr demo_settings"
  by code_simp

theorem tokens_are_verified_witness:
  "\<exists>claims. presented demo_jwt demo_attested demo_settings demo_cached (Some ''tok'') claims \<and>
    acceptable demo_settings claims \<and> (agent_of [] claims bob \<or> account_of [] demo_settings claims bob)"
  by (rule tokens_are_verified [OF demo_jwt_sound demo_verified]) simp

theorem subjects_name_one_account_witness:
  "\<exists>claims claims'. presented demo_jwt demo_attested demo_settings demo_cached (Some ''tok'') claims \<and>
    presented demo_jwt demo_attested demo_settings demo_cached (Some ''tok'') claims' \<and>
    ((account_of [] demo_settings claims bob \<and> account_of [] demo_settings claims' bob \<and>
       issuer demo_settings = issuer demo_settings \<and> dgetN claims ''iss'' = dgetN claims' ''iss'' \<and>
       dgetN claims ''sub'' = dgetN claims' ''sub'') \<or>
     (agent_of [] claims bob \<and> agent_of [] claims' bob \<and>
       dgetN claims (agent_scope_claim []) = dgetN claims' (agent_scope_claim [])))"
  by (rule subjects_name_one_account [OF demo_jwt_sound demo_mk_settings demo_mk_settings demo_verified _ demo_verified])
    simp_all

definition bobs_plan :: resource where
  "bobs_plan = \<lparr>r_tenant = [], r_team = [], r_repo = [], r_plan = ''p'', r_story = [], r_owner = ''https://idp#bob'',
     r_delegates = []\<rparr>"

lemma tokens_act_on_their_plans_witness:
  "owns_or_delegate bob bobs_plan"
proof -
  have "local_allow (Some bob) (Act STORY_MERGE) (Some bobs_plan)"
    by code_simp
  from tokens_act_on_their_plans [OF demo_jwt_sound demo_verified _ this] show ?thesis by simp
qed

end
