(* ===== verification/ApproveMerge.thy ===== *)
theory ApproveMerge
  imports MergeSafety Oidc Authorization
begin

text \<open>
  A person merges a story: \<open>_approve_merge_impl\<close> of \<open>src/pipeline/merge.py\<close>, with \<open>refuse\<close> of
  \<open>review_merge_binding.py\<close>.  It shares the decisions of the scheduler's gate with \<open>MergeGate\<close> and answers
  the caller at once.  What it writes to the manifest is the last \<open>SavedManifest\<close> among its calls; the
  story record it changes in between is lost on every other way out.  Left out: the notice that a plan is
  complete, which writes outside the manifest and swallows every exception.
\<close>

datatype approve_call = Traced trace | Did merge_call | AuditedRefusal string string | AuditedMerge string string

datatype approve_result = NotAllowed refusal | Busy | Failed string | Merged

datatype approve_exn = BadKey | AuthRaised auth_exn | Raised gate_exn

text \<open>
  \<open>aw_auth\<close>, \<open>aw_request\<close> and \<open>aw_before\<close> are what \<open>authorize\<close> consults; \<open>aw_lock\<close> whether the plan lock was got;
  \<open>aw_fresh\<close> the manifest read under it; \<open>aw_ci\<close> the answers of the CI poller.
\<close>

record approve_world =
  aw_merge :: merge_world
  aw_auth :: "plugin_error + allow_fn"
  aw_request :: bound_request
  aw_before :: pyval
  aw_lock :: bool
  aw_fresh :: pydict
  aw_ci :: "nat \<Rightarrow> string \<Rightarrow> string \<Rightarrow> gate_exn + ci_result"

type_synonym 'a approving = "(approve_call, gate_exn, 'a) logged"

abbreviation did :: "merge_call list \<Rightarrow> approve_call list" where
  "did \<equiv> map Did"

text \<open>A step of the guarded block either ends it with an error for the caller or goes on.\<close>

type_synonym 'a step = "(string + 'a) approving"

definition stop :: "string \<Rightarrow> 'a step" where
  "stop msg = retW (Inl msg)"

definition go :: "'a \<Rightarrow> 'a step" where
  "go x = retW (Inr x)"

definition next_step :: "'a step \<Rightarrow> ('a \<Rightarrow> 'b step) \<Rightarrow> 'b step" where
  "next_step m f = bindW m (\<lambda>r. case r of Inl msg \<Rightarrow> stop msg | Inr x \<Rightarrow> f x)"

definition refuse :: "string \<Rightarrow> string \<Rightarrow> pydict \<Rightarrow> pyval \<Rightarrow> string \<Rightarrow> 'a step" where
  "refuse plan key story head reason =
     tellW [AuditedRefusal (short (dgetN story ''review_verdict_sha'')) (short head)]
       (stop (if reason \<noteq> [] then reason else ''the approval does not cover the branch head; '' @ RERUN))"

text \<open>The branch, and the check of the approval against its remote tip.\<close>

definition covered_branch :: "approve_world \<Rightarrow> string \<Rightarrow> string \<Rightarrow> pydict \<Rightarrow> string step" where
  "covered_branch a plan key story =
     (let w = aw_merge a in
      bindW (liftW (gather_branch w story key)) (\<lambda>branch.
      let head = branch_head_sha (mw_fetch w) (mw_rev_parse w) branch;
          binding = check (mw_show w) (PDict story) head in
      tellW [Did (ProbedTip branch head)]
        (if \<not> fst binding then refuse plan key story head (snd binding) else go branch)))"

definition rebased :: "approve_world \<Rightarrow> pyval \<Rightarrow> string \<Rightarrow> unit step" where
  "rebased a worktree branch =
     bindW (liftW (rebase_onto_master (aw_merge a) worktree branch)) (\<lambda>(ok, err, resolved).
     tellW (if resolved then [Did (Noticed ''rebase_auto_resolved'')] else [])
       (if \<not> ok then stop (''rebase failed: '' @ err) else go ()))"

definition pushed_story :: "approve_world \<Rightarrow> pyval \<Rightarrow> string \<Rightarrow> pydict \<Rightarrow> (string \<times> pydict) step" where
  "pushed_story a worktree branch story =
     (let w = aw_merge a in
      bindW (liftW (path_is_dir (mw_dirs w) worktree)) (\<lambda>is_dir.
      if \<not> is_dir then go ([], story)
      else tellW [Did (Pushed branch)]
        (case mw_push w branch of (code, text) \<Rightarrow>
           if code \<noteq> 0 then stop (''push failed: '' @ take 200 (strip text))
           else (case mw_head_out w (the_str worktree) of
                   None \<Rightarrow> liftW (Inl (GateRaised ''OSError''))
                 | Some out \<Rightarrow>
                     go (strip out, snd (rebind_after_pipeline_push (mw_now w) (PStr (strip out)) story))))))"

definition approve_poll :: "approve_world \<Rightarrow> nat \<Rightarrow> string \<Rightarrow> string \<Rightarrow> ci_result approving" where
  "approve_poll a n branch sha =
     bindW (liftW (aw_ci a n branch sha)) (\<lambda>c. tellW [Did (PolledCi branch sha (ci_state c))] (retW c))"

definition polled_story ::
  "approve_world \<Rightarrow> pydict \<Rightarrow> string \<Rightarrow> string \<Rightarrow> string \<Rightarrow> pydict \<Rightarrow> pydict step" where
  "polled_story a m key branch sha story =
     bindW (approve_poll a 0 branch sha) (\<lambda>c.
     bindW (if ci_state c = CANCELLED \<and> \<not> truthy (dgetN story ''ci_rerun_attempted'')
            then tellW [Did (Reran sha)] (bindW (approve_poll a 1 branch sha) (\<lambda>c.
                   retW (c, dset ''ci_rerun_attempted'' (PBool True) story)))
            else retW (c, story)) (\<lambda>(c, story).
     let story = dpop ''pr_checks_error'' (dset ''pr_checks'' (ci_val c) story) in
     tellW [Did (SavedManifest (put_story_in m key story))]
       (if ci_state c = FAIL \<or> ci_state c = CANCELLED then stop (''CI failing: '' @ ci_error c)
        else if ci_state c = PENDING then stop (''CI still pending: '' @ ci_error c)
        else if ci_state c = UNREADABLE then stop (''ci unreadable: '' @ ci_error c)
        else go story)))"

definition regraded :: "approve_world \<Rightarrow> string \<Rightarrow> pyval \<Rightarrow> pydict \<Rightarrow> pydict step" where
  "regraded a key worktree story =
     bindW (liftW (reverify_acceptance (mw_checkout (aw_merge a)) story worktree key)) (\<lambda>(acc, story).
     if ci_state acc = FAIL then stop (''acceptance reverify fail: '' @ ci_error acc)
     else bindW (liftW (reverify_build (mw_checkout (aw_merge a)) worktree)) (\<lambda>build.
       if ci_state build = FAIL then stop (''build reverify fail: '' @ ci_error build) else go story))"

definition merged_pr :: "approve_world \<Rightarrow> string \<Rightarrow> pyval \<Rightarrow> pydict \<Rightarrow> pydict step" where
  "merged_pr a key worktree story =
     tellW [Did (CalledMerge key (the_str worktree))]
       (case mw_merge_pr (aw_merge a) key of None \<Rightarrow> go story | Some err \<Rightarrow> stop err)"

definition approve_block :: "approve_world \<Rightarrow> string \<Rightarrow> string \<Rightarrow> pydict \<Rightarrow> pydict \<Rightarrow> pydict step" where
  "approve_block a plan key m story =
     (let worktree = dget_or story ''worktree'' (PStr []) in
      next_step (covered_branch a plan key story) (\<lambda>branch.
      next_step (rebased a worktree branch) (\<lambda>_.
      next_step (pushed_story a worktree branch story) (\<lambda>(sha, story).
      next_step (polled_story a m key branch sha story) (\<lambda>story.
      next_step (regraded a key worktree story) (\<lambda>story.
      merged_pr a key worktree story))))))"

text \<open>\<open>except Exception\<close>: the text of the exception goes to the caller.\<close>

definition surfaced :: "merge_world \<Rightarrow> 'a step \<Rightarrow> 'a step" where
  "surfaced w m = (fst m, case snd m of Inl e \<Rightarrow> Inr (Inl (mw_message w e)) | Inr r \<Rightarrow> Inr r)"

definition finish_merge :: "approve_world \<Rightarrow> string \<Rightarrow> string \<Rightarrow> pydict \<Rightarrow> pydict \<Rightarrow> approve_result approving" where
  "finish_merge a plan key m story =
     (let w = aw_merge a;
          m = put_story_in m key
                (dpop ''ci_rerun_attempted'' (dpop ''parked_reason'' (dset ''status'' (PStr ''done'') story)));
          retro = maybe_record_retro w m in
      tellW [Did (SavedManifest m)]
        (bindW (liftW (story_branch (mw_env w) key)) (\<lambda>branch.
         tellW [AuditedMerge key branch]
           (bindW (did (fst retro), snd retro) (\<lambda>_.
            tellW (Did (MarkedDone key) # (if mw_self_touched w then [Did (Noticed ''mcp_restart'')] else []))
              (retW Merged))))))"

definition approve_locked :: "approve_world \<Rightarrow> string \<Rightarrow> string \<Rightarrow> approve_result approving" where
  "approve_locked a plan key =
     (let m = aw_fresh a in
      bindW (liftW (case dget m ''stories'' of None \<Rightarrow> Inl GateKeyError | Some v \<Rightarrow> with_dict v GateAttributeError Inr)) (\<lambda>ss.
      if \<not> truthy (dgetN ss key) then retW (Failed (''No such story '' @ key))
      else bindW (liftW (with_dict (dgetN ss key) GateTypeError Inr)) (\<lambda>story.
      bindW (liftW (case dget story ''status'' of None \<Rightarrow> Inl GateKeyError | Some v \<Rightarrow> Inr v)) (\<lambda>status.
      if status \<notin> {PStr ''parked'', PStr ''pr_open''}
      then retW (Failed (''Story is '' @ py_str (mw_show (aw_merge a)) status @ '', not parked/pr_open''))
      else if dgetN story ''review_verdict'' \<noteq> PStr ''APPROVE''
      then retW (Failed ''Story was never reviewer-approved'')
      else bindW (surfaced (aw_merge a) (approve_block a plan key m story)) (\<lambda>r.
        case r of
          Inl msg \<Rightarrow> retW (Failed msg)
        | Inr story \<Rightarrow> finish_merge a plan key m story)))))"

definition approve_merge ::
  "(pyval \<Rightarrow> string) \<Rightarrow> approve_world \<Rightarrow> string \<Rightarrow> string \<Rightarrow> (approve_call, approve_exn, approve_result) logged" where
  "approve_merge render a plan key =
     (if \<not> validate_key plan \<or> \<not> validate_key key then ([], Inl BadKey)
      else case authorize render [] (mw_env (aw_merge a)) (aw_auth a) (aw_request a) (Raw ''story:merge'')
                  (aw_before a) plan (Some key) True of
             (Inl e, ts) \<Rightarrow> (map Traced ts, Inl (AuthRaised e))
           | (Inr (Some r), ts) \<Rightarrow> (map Traced ts, Inr (NotAllowed r))
           | (Inr None, ts) \<Rightarrow>
               tellW (map Traced ts)
                 (if \<not> aw_lock a then retW Busy
                  else (case approve_locked a plan key of (cs, r) \<Rightarrow>
                          (cs, case r of Inl e \<Rightarrow> Inl (Raised e) | Inr x \<Rightarrow> Inr x))))"

subsection \<open>Calls\<close>

definition merge_calls :: "approve_call list \<Rightarrow> merge_call list" where
  "merge_calls cs = List.map_filter (\<lambda>c. case c of Did x \<Rightarrow> Some x | _ \<Rightarrow> None) cs"

lemma merge_calls_simps [simp]:
  "merge_calls [] = []" "merge_calls (Did c # cs) = c # merge_calls cs" "merge_calls (a @ b) = merge_calls a @ merge_calls b"
  "merge_calls (did xs) = xs" "merge_calls (map Traced ts) = []" "merge_calls (AuditedRefusal x y # cs) = merge_calls cs"
  "merge_calls (AuditedMerge x y # cs) = merge_calls cs" "merge_calls (Traced t # cs) = merge_calls cs"
  by (induction a) (simp_all add: merge_calls_def map_filter_def comp_def)

lemma merge_calls_in [simp]: "c \<in> set (merge_calls cs) \<longleftrightarrow> Did c \<in> set cs"
  by (induction cs) (auto simp: merge_calls_def map_filter_def split: approve_call.splits)

lemma fst_next_step:
  "fst (next_step m f) = fst m @ (case snd m of Inr (Inr x) \<Rightarrow> fst (f x) | _ \<Rightarrow> [])"
  by (auto simp: next_step_def fst_bindW stop_def split: sum.split)

lemma snd_next_step_go: "snd (next_step m f) = Inr (Inr y) \<longleftrightarrow> (\<exists>x. snd m = Inr (Inr x) \<and> snd (f x) = Inr (Inr y))"
  unfolding next_step_def by (auto simp: bindE_Inr_iff stop_def split: sum.splits) (metis obj_sumE)

lemma in_next_step:
  "c \<in> set (fst (next_step m f)) \<longleftrightarrow> c \<in> set (fst m) \<or> (\<exists>x. snd m = Inr (Inr x) \<and> c \<in> set (fst (f x)))"
  by (auto simp: fst_next_step split: sum.splits)

lemma stop_go_simps [simp]:
  "fst (stop msg) = []" "snd (stop msg) = Inr (Inl msg)" "fst (go x) = []" "snd (go x) = Inr (Inr x)"
  by (simp_all add: stop_def go_def)

lemma covered_branch_goes:
  assumes "snd (covered_branch a plan key story) = Inr (Inr branch)"
  shows "\<exists>head. fst (covered_branch a plan key story) = [Did (ProbedTip branch (PStr head))] \<and> approved_at story head"
  using assms
  by (auto simp: covered_branch_def Let_def refuse_def bindE_Inr_iff fst_bindW check_iff split: if_splits sum.splits)

lemma covered_branch_calls: "Did c \<in> set (fst (covered_branch a plan key story)) \<Longrightarrow> \<exists>b h. c = ProbedTip b h"
  by (auto simp: covered_branch_def Let_def refuse_def in_bindW split: if_splits)

lemma rebased_calls: "merge_calls (fst (rebased a worktree branch)) \<in> {[], [Noticed ''rebase_auto_resolved'']}"
  by (auto simp: rebased_def fst_bindW split: sum.split prod.split)

lemma pushed_calls: "merge_calls (fst (pushed_story a worktree branch story)) \<in> {[], [Pushed branch]}"
  by (auto simp: pushed_story_def Let_def fst_bindW split: sum.split prod.split option.split)

lemma rebased_no_merge: "Did (CalledMerge k wt) \<notin> set (fst (rebased a worktree branch))"
  by (auto simp: rebased_def in_bindW split: prod.split)

lemma pushed_no_merge: "Did (CalledMerge k wt) \<notin> set (fst (pushed_story a worktree branch story))"
  by (auto simp: pushed_story_def Let_def in_bindW split: prod.split option.split)

lemma pushed_goes:
  assumes "snd (pushed_story a worktree branch story) = Inr (Inr (sha, s))"
  shows "head_of (aw_merge a) worktree sha"
  using assms
  by (auto simp: pushed_story_def Let_def bindE_Inr_iff head_of_def split: if_splits prod.splits option.splits)

lemma approve_poll_result: "snd (approve_poll a n branch sha) = Inr c \<Longrightarrow>
    fst (approve_poll a n branch sha) = [Did (PolledCi branch sha (ci_state c))]"
  by (auto simp: approve_poll_def fst_bindW bindE_Inr_iff)

text \<open>The poll with its rerun, and what is made of it.\<close>

definition final_answer :: "approve_world \<Rightarrow> string \<Rightarrow> string \<Rightarrow> pydict \<Rightarrow> (ci_result \<times> pydict) approving" where
  "final_answer a branch sha story =
     bindW (approve_poll a 0 branch sha) (\<lambda>c.
       if ci_state c = CANCELLED \<and> \<not> truthy (dgetN story ''ci_rerun_attempted'')
       then tellW [Did (Reran sha)] (bindW (approve_poll a 1 branch sha) (\<lambda>c.
              retW (c, dset ''ci_rerun_attempted'' (PBool True) story)))
       else retW (c, story))"

lemma final_answer_last:
  assumes "snd (final_answer a branch sha story) = Inr (c, s)"
  shows "filter is_poll (merge_calls (fst (final_answer a branch sha story))) \<noteq> [] \<and>
    last (filter is_poll (merge_calls (fst (final_answer a branch sha story)))) = PolledCi branch sha (ci_state c)"
proof -
  from assms obtain c0 where c0: "snd (approve_poll a 0 branch sha) = Inr c0"
    by (auto simp: final_answer_def bindE_Inr_iff)
  show ?thesis
  proof (cases "ci_state c0 = CANCELLED \<and> \<not> truthy (dgetN story ''ci_rerun_attempted'')")
    case True
    with c0 assms have "snd (approve_poll a 1 branch sha) = Inr c"
      by (simp add: final_answer_def bindE_Inr_iff)
    from approve_poll_result [OF c0] approve_poll_result [OF this] c0 True this show ?thesis
      by (simp add: final_answer_def fst_bindW)
  next
    case False
    have f: "final_answer a branch sha story = (fst (approve_poll a 0 branch sha), Inr (c0, story))"
      unfolding final_answer_def by (rule prod_eqI) (simp_all add: fst_bindW c0 if_not_P [OF False] del: de_Morgan_conj)
    with assms have "c0 = c" by simp
    with approve_poll_result [OF c0] f show ?thesis by simp
  qed
qed

lemma polled_story_final:
  "polled_story a m key branch sha story = bindW (final_answer a branch sha story) (\<lambda>(c, story).
     let story = dpop ''pr_checks_error'' (dset ''pr_checks'' (ci_val c) story) in
     tellW [Did (SavedManifest (put_story_in m key story))]
       (if ci_state c = FAIL \<or> ci_state c = CANCELLED then stop (''CI failing: '' @ ci_error c)
        else if ci_state c = PENDING then stop (''CI still pending: '' @ ci_error c)
        else if ci_state c = UNREADABLE then stop (''ci unreadable: '' @ ci_error c)
        else go story))"
  by (simp add: polled_story_def final_answer_def bindW_assoc)

lemma polled_goes:
  assumes "snd (polled_story a m key branch sha story) = Inr (Inr s)"
  shows "passing_poll (merge_calls (fst (polled_story a m key branch sha story))) branch sha"
proof -
  from assms obtain c s1 where c: "snd (final_answer a branch sha story) = Inr (c, s1)"
    and "\<not> blocking_state (ci_state c)"
    by (auto simp: polled_story_final bindE_Inr_iff Let_def blocking_state_def split: if_splits)
  with final_answer_last [OF c] show ?thesis
    by (auto simp: passing_poll_def polled_story_final fst_bindW Let_def)
qed

lemma poll_no_merge: "Did (CalledMerge k wt) \<notin> set (fst (approve_poll a n branch sha))"
  by (auto simp: approve_poll_def in_bindW)

lemma final_answer_no_merge: "Did (CalledMerge k wt) \<notin> set (fst (final_answer a branch sha story))"
  by (simp add: final_answer_def in_bindW poll_no_merge)

lemma polled_no_merge: "Did (CalledMerge k wt) \<notin> set (fst (polled_story a m key branch sha story))"
  unfolding polled_story_final in_bindW [of _ "final_answer a branch sha story"]
  using final_answer_no_merge [of k wt a branch sha story] by (auto simp: Let_def)

lemma regraded_calls [simp]: "fst (regraded a key worktree story) = []"
  by (auto simp: regraded_def fst_bindW split: sum.split prod.split)

lemma regraded_goes:
  assumes "snd (regraded a key worktree story) = Inr (Inr s)"
  shows "green_checks (mw_checkout (aw_merge a)) story worktree key"
  using assms by (auto simp: regraded_def bindE_Inr_iff intro: reverified_green split: if_splits)

text \<open>The push and the poll leave what the tests are chosen by.\<close>

lemma pushed_keeps:
  assumes "K \<inter> {''review_verdict'', ''review_verdict_sha'', ''review_verdict_ts''} = {}"
    and "snd (pushed_story a worktree branch story) = Inr (Inr (sha, s))"
  shows "agree K story s"
  using assms
  by (auto simp: pushed_story_def Let_def bindE_Inr_iff agree_rebind split: if_splits prod.splits option.splits)

lemma final_answer_keeps:
  "''ci_rerun_attempted'' \<notin> K \<Longrightarrow> snd (final_answer a branch sha story) = Inr (c, s) \<Longrightarrow> agree K story s"
  by (auto simp: final_answer_def bindE_Inr_iff split: if_splits)

lemma polled_keeps:
  assumes "K \<inter> {''pr_checks'', ''pr_checks_error'', ''ci_rerun_attempted''} = {}"
    and "snd (polled_story a m key branch sha story) = Inr (Inr s)"
  shows "agree K story s"
proof -
  from assms(2) obtain c s1 where "snd (final_answer a branch sha story) = Inr (c, s1)"
    and "s = dpop ''pr_checks_error'' (dset ''pr_checks'' (ci_val c) s1)"
    by (auto simp: polled_story_final bindE_Inr_iff Let_def split: if_splits)
  with assms(1) final_answer_keeps [of K a branch sha story c s1] show ?thesis by auto
qed

text \<open>What the guarded block has done when it merges.\<close>

definition gated_merge :: "approve_world \<Rightarrow> string \<Rightarrow> pydict \<Rightarrow> merge_call list \<Rightarrow> bool" where
  "gated_merge a key story cs \<longleftrightarrow>
     (\<exists>branch head sha. let worktree = dget_or story ''worktree'' (PStr []) in
        ProbedTip branch (PStr head) \<in> set cs \<and> approved_at story head \<and>
        head_of (aw_merge a) worktree sha \<and> passing_poll cs branch sha \<and>
        green_checks (mw_checkout (aw_merge a)) story worktree key)"

lemma passing_poll_around:
  assumes "passing_poll cs branch sha" "filter is_poll before = []" "filter is_poll after = []"
  shows "passing_poll (before @ cs @ after) branch sha"
  using assms by (simp add: passing_poll_def)

lemma gated_merge_more:
  assumes "gated_merge a key story cs" "filter is_poll rest = []"
  shows "gated_merge a key story (cs @ rest)"
proof -
  from assms(1) obtain branch head sha where
    "ProbedTip branch (PStr head) \<in> set cs" "approved_at story head"
    "head_of (aw_merge a) (dget_or story ''worktree'' (PStr [])) sha" "passing_poll cs branch sha"
    "green_checks (mw_checkout (aw_merge a)) story (dget_or story ''worktree'' (PStr [])) key"
    unfolding gated_merge_def Let_def by blast
  moreover from this(1) have "ProbedTip branch (PStr head) \<in> set (cs @ rest)" by simp
  moreover have "passing_poll (cs @ rest) branch sha"
    using passing_poll_around [of cs branch sha "[]" rest] calculation(4) assms(2) by simp
  ultimately show ?thesis unfolding gated_merge_def Let_def by blast
qed

lemma approve_block_merges:
  assumes "Did (CalledMerge k wt) \<in> set (fst (approve_block a plan key m story))"
  shows "k = key \<and> gated_merge a key story (merge_calls (fst (approve_block a plan key m story)))"
proof -
  let ?wt = "dget_or story ''worktree'' (PStr [])"
  have no1: "Did (CalledMerge k wt) \<notin> set (fst (covered_branch a plan key story))"
    using covered_branch_calls [of "CalledMerge k wt" a plan key story] by blast
  have no2: "Did (CalledMerge k wt) \<notin> set (fst (rebased a ?wt branch))" for branch
    by (simp add: rebased_no_merge)
  have no3: "Did (CalledMerge k wt) \<notin> set (fst (pushed_story a ?wt branch story))" for branch
    by (simp add: pushed_no_merge)
  have no4: "Did (CalledMerge k wt) \<notin> set (fst (polled_story a m key branch sha s))" for branch sha s
    by (rule polled_no_merge)
  from assms no1 obtain branch where 1: "snd (covered_branch a plan key story) = Inr (Inr branch)" and
    r1: "Did (CalledMerge k wt) \<in> set (fst (next_step (rebased a ?wt branch) (\<lambda>_.
      next_step (pushed_story a ?wt branch story) (\<lambda>(sha, story).
      next_step (polled_story a m key branch sha story) (\<lambda>story.
      next_step (regraded a key ?wt story) (\<lambda>story. merged_pr a key ?wt story))))))"
    unfolding approve_block_def Let_def in_next_step [of _ "covered_branch a plan key story"] by blast
  from r1 no2 have 2: "snd (rebased a ?wt branch) = Inr (Inr ())" and
    r2: "Did (CalledMerge k wt) \<in> set (fst (next_step (pushed_story a ?wt branch story) (\<lambda>(sha, story).
      next_step (polled_story a m key branch sha story) (\<lambda>story.
      next_step (regraded a key ?wt story) (\<lambda>story. merged_pr a key ?wt story)))))"
    unfolding in_next_step [of _ "rebased a ?wt branch"] by auto
  from r2 no3 obtain sha s1 where 3: "snd (pushed_story a ?wt branch story) = Inr (Inr (sha, s1))" and
    r3: "Did (CalledMerge k wt) \<in> set (fst (next_step (polled_story a m key branch sha s1) (\<lambda>story.
      next_step (regraded a key ?wt story) (\<lambda>story. merged_pr a key ?wt story))))"
    unfolding in_next_step [of _ "pushed_story a ?wt branch story"] by auto
  from r3 no4 obtain s2 where 4: "snd (polled_story a m key branch sha s1) = Inr (Inr s2)" and
    r4: "Did (CalledMerge k wt) \<in> set (fst (next_step (regraded a key ?wt s2) (\<lambda>story. merged_pr a key ?wt story)))"
    unfolding in_next_step [of _ "polled_story a m key branch sha s1"] by auto
  from r4 obtain s3 where 5: "snd (regraded a key ?wt s2) = Inr (Inr s3)" and
    6: "Did (CalledMerge k wt) \<in> set (fst (merged_pr a key ?wt s3))"
    unfolding in_next_step [of _ "regraded a key ?wt s2"] by auto
  have calls: "fst (approve_block a plan key m story) = fst (covered_branch a plan key story) @ fst (rebased a ?wt branch) @
      fst (pushed_story a ?wt branch story) @ fst (polled_story a m key branch sha s1) @ fst (merged_pr a key ?wt s3)"
    using 1 2 3 4 5 by (simp add: approve_block_def Let_def fst_next_step)
  have k: "k = key" and after: "filter is_poll (merge_calls (fst (merged_pr a key ?wt s3))) = []"
    using 6 by (auto simp: merged_pr_def split: option.splits)
  obtain head where head: "fst (covered_branch a plan key story) = [Did (ProbedTip branch (PStr head))]" "approved_at story head"
    using covered_branch_goes [OF 1] by blast
  have quiet: "filter is_poll (merge_calls (fst (rebased a ?wt branch))) = []"
    "filter is_poll (merge_calls (fst (pushed_story a ?wt branch story))) = []"
    using rebased_calls [of a ?wt branch] pushed_calls [of a ?wt branch story] by auto
  have "passing_poll (merge_calls (fst (approve_block a plan key m story))) branch sha"
    using polled_goes [OF 4] quiet after by (simp add: calls head passing_poll_def)
  moreover have "ProbedTip branch (PStr head) \<in> set (merge_calls (fst (approve_block a plan key m story)))"
    by (simp add: calls head)
  moreover have "green_checks (mw_checkout (aw_merge a)) story ?wt key"
  proof -
    have "agree graded_fields story s2"
      using pushed_keeps [OF _ 3, of graded_fields] polled_keeps [OF _ 4, of graded_fields] by (auto intro: agree_trans)
    then show ?thesis
      using regraded_goes [OF 5] green_agree [of graded_fields story s2] by simp
  qed
  ultimately show ?thesis
    using k head(2) pushed_goes [OF 3] unfolding gated_merge_def Let_def by blast
qed

subsection \<open>After the block\<close>

lemma surfaced_simps [simp]: "fst (surfaced w m) = fst m" "snd (surfaced w m) = Inr (Inr s) \<longleftrightarrow> snd m = Inr (Inr s)"
  by (auto simp: surfaced_def split: sum.splits)

lemma retro_calls: "c \<in> set (fst (maybe_record_retro w m)) \<Longrightarrow> \<exists>n. c = RecordedRetro n"
  by (auto simp: maybe_record_retro_def in_bindW split: if_splits)

lemma finish_calls:
  "c \<in> set (merge_calls (fst (finish_merge a plan key m story))) \<Longrightarrow>
    c \<in> {SavedManifest (put_story_in m key
           (dpop ''ci_rerun_attempted'' (dpop ''parked_reason'' (dset ''status'' (PStr ''done'') story)))),
         MarkedDone key, Noticed ''mcp_restart''} \<or> (\<exists>n. c = RecordedRetro n)"
  by (auto simp: finish_merge_def Let_def fst_bindW split: sum.splits if_splits dest: retro_calls)

lemma finish_polls: "filter is_poll (merge_calls (fst (finish_merge a plan key m story))) = []"
  by (auto simp: filter_empty_conv dest!: finish_calls)

text \<open>Under the lock: an early answer without any call, or the block and what follows it.\<close>

definition open_story :: "approve_world \<Rightarrow> string \<Rightarrow> pydict \<Rightarrow> bool" where
  "open_story a key story \<longleftrightarrow>
     (\<exists>ss. dget (aw_fresh a) ''stories'' = Some (PDict ss) \<and> dgetN ss key = PDict story \<and>
        dgetN story ''status'' \<in> {PStr ''parked'', PStr ''pr_open''} \<and> dgetN story ''review_verdict'' = PStr ''APPROVE'')"

lemma with_dict_Inr: "with_dict v e f = Inr x \<longleftrightarrow> (\<exists>d. v = PDict d \<and> f d = Inr x)"
  by (cases v) (auto simp: with_dict_def)

lemma bind_lift: "bindW (liftW (Inr x)) f = f x" "bindW (liftW (Inl e)) f = ([], Inl e)"
  by (simp_all add: bindW_def liftW_def)

lemma approve_locked_runs:
  "(fst (approve_locked a plan key) = [] \<and> snd (approve_locked a plan key) \<noteq> Inr Merged) \<or>
   (\<exists>story. open_story a key story \<and>
      approve_locked a plan key = bindW (surfaced (aw_merge a) (approve_block a plan key (aw_fresh a) story)) (\<lambda>r.
        case r of Inl msg \<Rightarrow> retW (Failed msg) | Inr s \<Rightarrow> finish_merge a plan key (aw_fresh a) s))"
proof (cases "\<exists>story. open_story a key story")
  case True
  then obtain story ss where o: "open_story a key story" "dget (aw_fresh a) ''stories'' = Some (PDict ss)"
    "dgetN ss key = PDict story"
    by (auto simp: open_story_def)
  then have "truthy (PDict story)" "dget story ''status'' = Some (dgetN story ''status'')"
    by (auto simp: open_story_def dgetN_def split: option.splits)
  with o have "approve_locked a plan key = bindW (surfaced (aw_merge a) (approve_block a plan key (aw_fresh a) story)) (\<lambda>r.
        case r of Inl msg \<Rightarrow> retW (Failed msg) | Inr s \<Rightarrow> finish_merge a plan key (aw_fresh a) s)"
    by (auto simp: approve_locked_def Let_def open_story_def with_dict_def bind_lift)
  with o(1) show ?thesis by blast
next
  case False
  have "fst (approve_locked a plan key) = [] \<and> snd (approve_locked a plan key) \<noteq> Inr Merged"
  proof (cases "dget (aw_fresh a) ''stories''")
    case None
    then show ?thesis by (simp add: approve_locked_def Let_def bind_lift)
  next
    case (Some v)
    show ?thesis
    proof (cases v)
      case (PDict ss)
      show ?thesis
      proof (cases "dgetN ss key")
        case (PDict story)
        with Some \<open>v = PDict ss\<close> False show ?thesis
          by (auto simp: approve_locked_def Let_def bind_lift with_dict_def open_story_def dgetN_def split: option.splits)
      qed (use Some PDict in \<open>auto simp: approve_locked_def Let_def bind_lift with_dict_def\<close>)
    qed (use Some in \<open>auto simp: approve_locked_def Let_def bind_lift with_dict_def\<close>)
  qed
  then show ?thesis ..
qed

lemma approve_merge_runs:
  assumes "Did c \<in> set (fst (approve_merge render a plan key))"
  shows "validate_key plan \<and> validate_key key \<and> aw_lock a \<and>
    fst (authorize render [] (mw_env (aw_merge a)) (aw_auth a) (aw_request a) (Raw ''story:merge'')
           (aw_before a) plan (Some key) True) = Inr None \<and>
    merge_calls (fst (approve_merge render a plan key)) = merge_calls (fst (approve_locked a plan key)) \<and>
    Did c \<in> set (fst (approve_locked a plan key))"
  using assms by (auto simp: approve_merge_def split: if_splits prod.splits sum.splits option.splits)


text \<open>
  C3: A stranger's merge reaches nothing: with enforcement on and the local policy, a caller whose token
  was verified but who is neither the plan's owner nor a delegate is refused, and nothing is probed,
  rebased, pushed, saved or merged.
\<close>

theorem strangers_merge_nothing:
  assumes "jwt_sound lib attested" "verify_token lib env v v' s token st = (m, st')" "snd m = Inr p"
    and "bound (aw_request a) = Some p" "aw_auth a = Inr local_policy" "enforcement_enabled (mw_env (aw_merge a))"
    and "aw_before a = PDict d" "owned_by ow ds d" "subject p \<notin> insert ow (set ds)"
    and "validate_key plan" "validate_key key"
  shows "snd (approve_merge render a plan key) =
      Inr (NotAllowed \<lparr>f_action = ''story:merge'', f_subject = subject p, f_plan = plan\<rparr>) \<and>
    merge_calls (fst (approve_merge render a plan key)) = []"
proof -
  from token_claims [OF assms(1-3)] obtain claims where c: "agent_of env claims p \<or> account_of env s claims p" .
  note op = not_operator [OF c]
  have cur: "current_principal (aw_request a) = p" using assms(4) by (simp add: current_principal_def)
  from resource_for_owned [OF assms(8)] obtain r where
    r: "resource_for render (PDict d) plan (Some key) = Inr r" "r_owner r = ow" "r_delegates r = map PStr ds"
    by blast
  have "\<not> owns_or_delegate p r" using assms(9) r(2,3) by (auto simp: owns_or_delegate_def py_in_strs)
  with op have "\<not> local_allow (Some p) (Act STORY_MERGE) (Some r)"
    by (simp add: local_allow_def allow_resolved_def)
  moreover have "local_allow (Some p) (Raw ''story:merge'') (Some r) = local_allow (Some p) (Act STORY_MERGE) (Some r)"
    using coerce_action_value [of STORY_MERGE] by (simp add: local_allow_def)
  ultimately have "policy_decision render (Inr local_policy) p (Raw ''story:merge'') (PDict d) plan (Some key) = Inr False"
    using r(1) by (simp add: policy_decision_def)
  with assms(5-7,10,11) cur show ?thesis
    by (auto simp: approve_merge_def authorize_def Let_def action_label_def)
qed


subsection \<open>What is saved\<close>

definition saved_status :: "pydict \<Rightarrow> string \<Rightarrow> pyval" where
  "saved_status m key =
     (case dgetN m ''stories'' of
        PDict ss \<Rightarrow> (case dgetN ss key of PDict s \<Rightarrow> dgetN s ''status'' | _ \<Rightarrow> PNone)
      | _ \<Rightarrow> PNone)"

lemma saved_status_put:
  "dgetN m ''stories'' = PDict ss \<Longrightarrow> saved_status (put_story_in m key s) key = dgetN s ''status''"
  by (simp add: saved_status_def put_story_in_def dgetN_def)

lemma pushed_status:
  assumes "snd (pushed_story a worktree branch story) = Inr (Inr (sha, s))"
  shows "dgetN s ''status'' = dgetN story ''status''"
  using assms rebind_other_fields [of "''status''"]
  by (auto simp: pushed_story_def Let_def bindE_Inr_iff dgetN_def split: if_splits prod.splits option.splits)

lemma final_answer_status:
  assumes "snd (final_answer a branch sha story) = Inr (c, s)"
  shows "dgetN s ''status'' = dgetN story ''status''"
  using assms by (auto simp: final_answer_def bindE_Inr_iff dgetN_def split: if_splits)

lemma saves_nothing:
  "Did (SavedManifest m') \<notin> set (fst (covered_branch a plan key story))"
  "Did (SavedManifest m') \<notin> set (fst (rebased a worktree branch))"
  "Did (SavedManifest m') \<notin> set (fst (pushed_story a worktree branch story))"
  "Did (SavedManifest m') \<notin> set (fst (approve_poll a n branch sha))"
  "Did (SavedManifest m') \<notin> set (fst (final_answer a branch sha story))"
  "Did (SavedManifest m') \<notin> set (fst (merged_pr a key worktree story))"
  by (auto simp: covered_branch_def refuse_def rebased_def pushed_story_def approve_poll_def final_answer_def merged_pr_def
      in_bindW Let_def split: prod.split option.split)

lemma polled_saves:
  assumes "Did (SavedManifest m') \<in> set (fst (polled_story a m key branch sha story))"
  shows "\<exists>s. m' = put_story_in m key s \<and> dgetN s ''status'' = dgetN story ''status''"
proof -
  from assms saves_nothing(5) obtain c s1 where "snd (final_answer a branch sha story) = Inr (c, s1)"
    and "m' = put_story_in m key (dpop ''pr_checks_error'' (dset ''pr_checks'' (ci_val c) s1))"
    unfolding polled_story_final in_bindW [of _ "final_answer a branch sha story"]
    by (auto simp: Let_def split: if_splits)
  with final_answer_status show ?thesis by (fastforce simp: dgetN_def)
qed

lemma block_saves:
  assumes "Did (SavedManifest m') \<in> set (fst (approve_block a plan key m story))"
  shows "\<exists>s. m' = put_story_in m key s \<and> dgetN s ''status'' = dgetN story ''status''"
proof -
  from assms obtain branch sha s1 where
    "snd (pushed_story a (dget_or story ''worktree'' (PStr [])) branch story) = Inr (Inr (sha, s1))"
    "Did (SavedManifest m') \<in> set (fst (polled_story a m key branch sha s1))"
    by (auto simp: approve_block_def Let_def in_next_step saves_nothing)
  with pushed_status polled_saves show ?thesis by metis
qed

lemma block_merged:
  assumes "snd (approve_block a plan key m story) = Inr (Inr s)"
  shows "mw_merge_pr (aw_merge a) key = None \<and>
    (\<exists>before wt. fst (approve_block a plan key m story) = before @ [Did (CalledMerge key wt)])"
proof -
  let ?wt = "dget_or story ''worktree'' (PStr [])"
  from assms obtain branch sha s1 s2 s3 where
    r: "snd (covered_branch a plan key story) = Inr (Inr branch)" "snd (rebased a ?wt branch) = Inr (Inr ())"
    "snd (pushed_story a ?wt branch story) = Inr (Inr (sha, s1))"
    "snd (polled_story a m key branch sha s1) = Inr (Inr s2)" "snd (regraded a key ?wt s2) = Inr (Inr s3)"
    and m: "snd (merged_pr a key ?wt s3) = Inr (Inr s)"
    by (auto simp: approve_block_def Let_def snd_next_step_go)
  from m have "mw_merge_pr (aw_merge a) key = None" by (auto simp: merged_pr_def split: option.splits)
  with r show ?thesis
    by (simp add: approve_block_def Let_def fst_next_step merged_pr_def)
qed

text \<open>
  A story is recorded done only right after its merge: whatever manifest \<open>approve_merge\<close> saves with the
  story as done is saved directly after a merge call that succeeded.
\<close>

lemma done_is_saved_after_merging:
  assumes "Did (SavedManifest m') \<in> set (fst (approve_merge render a plan key))" "saved_status m' key = PStr ''done''"
  shows "mw_merge_pr (aw_merge a) key = None \<and>
    (\<exists>before wt after. merge_calls (fst (approve_merge render a plan key)) =
       before @ CalledMerge key wt # SavedManifest m' # after)"
proof -
  note run = approve_merge_runs [OF assms(1)]
  from run have l: "Did (SavedManifest m') \<in> set (fst (approve_locked a plan key))" by blast
  then obtain story where o: "open_story a key story" and
    r: "approve_locked a plan key = bindW (surfaced (aw_merge a) (approve_block a plan key (aw_fresh a) story)) (\<lambda>r.
        case r of Inl msg \<Rightarrow> retW (Failed msg) | Inr s \<Rightarrow> finish_merge a plan key (aw_fresh a) s)"
    using approve_locked_runs [of a plan key] by auto
  let ?b = "approve_block a plan key (aw_fresh a) story"
  obtain ss where ss: "dgetN (aw_fresh a) ''stories'' = PDict ss" "dgetN story ''status'' \<noteq> PStr ''done''"
    using o by (auto simp: open_story_def dgetN_def)
  have "Did (SavedManifest m') \<notin> set (fst ?b)"
    using block_saves [of m' a plan key "aw_fresh a" story] assms(2) saved_status_put [OF ss(1)] ss(2) by fastforce
  with l obtain x where x: "snd (surfaced (aw_merge a) ?b) = Inr x"
    "Did (SavedManifest m') \<in> set (fst (case x of Inl msg \<Rightarrow> retW (Failed msg) | Inr s \<Rightarrow> finish_merge a plan key (aw_fresh a) s))"
    unfolding r in_bindW surfaced_simps by blast
  then obtain s where s: "snd (surfaced (aw_merge a) ?b) = Inr (Inr s)"
    "Did (SavedManifest m') \<in> set (fst (finish_merge a plan key (aw_fresh a) s))"
    by (cases x) auto
  from s(1) have "snd ?b = Inr (Inr s)" by simp
  from block_merged [OF this] obtain before wt where b: "mw_merge_pr (aw_merge a) key = None"
    "fst ?b = before @ [Did (CalledMerge key wt)]" by blast
  from s(2) have m': "m' = put_story_in (aw_fresh a) key
           (dpop ''ci_rerun_attempted'' (dpop ''parked_reason'' (dset ''status'' (PStr ''done'') s)))"
    using finish_calls [of "SavedManifest m'" a plan key "aw_fresh a" s] by auto
  obtain rest where "fst (finish_merge a plan key (aw_fresh a) s) = Did (SavedManifest m') # rest"
    by (simp add: finish_merge_def Let_def m')
  with b run have "merge_calls (fst (approve_merge render a plan key)) =
      merge_calls before @ CalledMerge key wt # SavedManifest m' # merge_calls rest"
    by (simp add: r fst_bindW s(1) del: surfaced_simps(2))
  with b(1) show ?thesis by blast
qed

subsection \<open>Runs\<close>

definition demo_approval :: "merge_world \<Rightarrow> (nat \<Rightarrow> string \<Rightarrow> string \<Rightarrow> gate_exn + ci_result) \<Rightarrow> approve_world" where
  "demo_approval w poller =
     \<lparr>aw_merge = w, aw_auth = Inr local_policy, aw_request = no_request\<lparr>bound := Some bob\<rparr>,
      aw_before = PDict [(''owner'', PStr ''https://idp#bob''), (''delegates'', PList [])], aw_lock = True,
      aw_fresh = [(''stories'', PDict [(''s1'', PDict demo_ready)])], aw_ci = poller\<rparr>"

abbreviation demo_tick :: "string \<Rightarrow> merge_world" where
  "demo_tick pushed \<equiv> demo_merging\<lparr>mw_head_out := (\<lambda>d. Some pushed)\<rparr>"

definition polled_green :: "nat \<Rightarrow> string \<Rightarrow> string \<Rightarrow> gate_exn + ci_result" where
  "polled_green n branch sha = Inr (ci PASS [])"

definition poll_raises :: "nat \<Rightarrow> string \<Rightarrow> string \<Rightarrow> gate_exn + ci_result" where
  "poll_raises n branch sha = Inl (GateRaised ''OSError'')"

lemma demo_covered:
  "covered_branch (demo_approval (demo_tick pushed) poller) plan ''s1'' demo_ready =
    ([Did (ProbedTip ''agent/s1'' (PStr ''aaa''))], Inr (Inr ''agent/s1''))"
proof -
  have "gather_branch (demo_tick pushed) demo_ready ''s1'' = Inr ''agent/s1''"
    by code_simp
  then show ?thesis
    using demo_tip [of "demo_jobs ''1'' demo_passed" demo_host]
    by (simp add: demo_approval_def covered_branch_def bind_lift tellW_def go_def retW_def Let_def check_iff
        approved_at_def dgetN_def demo_ready_def demo_merging_def demo_world_def)
qed

lemma demo_rebased:
  "rebased (demo_approval (demo_tick pushed) poller) (PStr ''/w'') ''agent/s1'' = ([], Inr (Inr ()))"
  by code_simp

lemma demo_pushed:
  "pushed_story (demo_approval (demo_tick ''aaa'') poller) (PStr ''/w'') ''agent/s1'' demo_ready =
     ([Did (Pushed ''agent/s1'')], Inr (Inr (''aaa'', demo_ready)))"
  by code_simp

lemma demo_moved:
  "pushed_story (demo_approval (demo_tick ''bbb'') poller) (PStr ''/w'') ''agent/s1'' demo_ready =
     ([Did (Pushed ''agent/s1'')], Inr (Inr (''bbb'', bind_verdict ''APPROVE'' (PStr ''bbb'') ''now'' demo_ready)))"
  by code_simp

definition demo_checked :: pydict where
  "demo_checked = demo_ready @ [(''pr_checks'', ci_val (ci PASS []))]"

lemma demo_polled:
  "polled_story (demo_approval (demo_tick pushed) polled_green) m ''s1'' ''agent/s1'' sha demo_ready =
     ([Did (PolledCi ''agent/s1'' sha ''pass''), Did (SavedManifest (put_story_in m ''s1'' demo_checked))],
      Inr (Inr demo_checked))"
proof -
  have "dpop ''pr_checks_error'' (dset ''pr_checks'' (ci_val (ci PASS [])) demo_ready) = demo_checked"
    by code_simp
  then show ?thesis
    by (simp add: polled_story_def approve_poll_def demo_approval_def polled_green_def bind_lift bindW_def tellW_def retW_def go_def
        ci_def PASS_def CANCELLED_def FAIL_def PENDING_def UNREADABLE_def)
qed

lemma demo_regraded:
  "regraded (demo_approval (demo_tick pushed) poller) ''s1'' (PStr ''/w'') demo_checked = ([], Inr (Inr demo_checked))"
  by code_simp

lemma demo_block:
  "approve_block (demo_approval (demo_tick ''aaa'') polled_green) plan ''s1'' m demo_ready =
    (did [ProbedTip ''agent/s1'' (PStr ''aaa''), Pushed ''agent/s1'', PolledCi ''agent/s1'' ''aaa'' ''pass'',
       SavedManifest (put_story_in m ''s1'' demo_checked), CalledMerge ''s1'' ''/w''], Inr (Inr demo_checked))"
proof -
  have wt: "dget_or demo_ready ''worktree'' (PStr []) = PStr ''/w''" by code_simp
  have "merged_pr (demo_approval (demo_tick ''aaa'') polled_green) ''s1'' (PStr ''/w'') demo_checked =
      ([Did (CalledMerge ''s1'' ''/w'')], Inr (Inr demo_checked))"
    by code_simp
  then show ?thesis
    by (simp add: approve_block_def Let_def wt next_step_def demo_covered demo_rebased demo_pushed demo_polled
        demo_regraded bindW_def)
qed

lemma demo_open: "open_story (demo_approval w poller) ''s1'' demo_ready"
  by (simp add: open_story_def demo_approval_def demo_ready_def dgetN_def)

text \<open>The run up to the lock, and the run under it.\<close>

lemma approve_locked_open:
  assumes "open_story a key story"
  shows "approve_locked a plan key = bindW (surfaced (aw_merge a) (approve_block a plan key (aw_fresh a) story)) (\<lambda>r.
        case r of Inl msg \<Rightarrow> retW (Failed msg) | Inr s \<Rightarrow> finish_merge a plan key (aw_fresh a) s)"
  using assms by (auto simp: approve_locked_def Let_def open_story_def with_dict_def bind_lift dgetN_def split: option.splits)

lemma demo_authorized:
  "validate_key ''p'' \<and> validate_key ''s1'' \<and>
   fst (authorize (\<lambda>_. []) [] (mw_env (demo_tick pushed)) (Inr local_policy) (no_request\<lparr>bound := Some bob\<rparr>)
      (Raw ''story:merge'') (PDict [(''owner'', PStr ''https://idp#bob''), (''delegates'', PList [])]) ''p'' (Some ''s1'') True) =
    Inr None"
  by code_simp

lemma demo_approve:
  "\<exists>ts. approve_merge (\<lambda>_. []) (demo_approval (demo_tick pushed) poller) ''p'' ''s1'' =
     (map Traced ts @ fst (approve_locked (demo_approval (demo_tick pushed) poller) ''p'' ''s1''),
      case snd (approve_locked (demo_approval (demo_tick pushed) poller) ''p'' ''s1'') of
        Inl e \<Rightarrow> Inl (Raised e) | Inr x \<Rightarrow> Inr x)"
proof -
  let ?a = "demo_approval (demo_tick pushed) poller"
  obtain ts where "authorize (\<lambda>_. []) [] (mw_env (aw_merge ?a)) (aw_auth ?a) (aw_request ?a) (Raw ''story:merge'')
      (aw_before ?a) ''p'' (Some ''s1'') True = (Inr None, ts)"
    using demo_authorized [of pushed] by (cases "authorize (\<lambda>_. []) [] (mw_env (aw_merge ?a)) (aw_auth ?a) (aw_request ?a)
      (Raw ''story:merge'') (aw_before ?a) ''p'' (Some ''s1'') True") (simp add: demo_approval_def)
  then show ?thesis
    using demo_authorized [of pushed]
    by (auto simp: approve_merge_def tellW_def demo_approval_def split: prod.splits)
qed


theorem strangers_merge_nothing_witness:
  "merge_calls (fst (approve_merge (\<lambda>_. []) (demo_approval demo_merging polled_green\<lparr>aw_before :=
      PDict [(''owner'', PStr ''https://idp#ann''), (''delegates'', PList [])]\<rparr>) ''p'' ''s1'')) = []"
proof -
  let ?a = "demo_approval demo_merging polled_green\<lparr>aw_before := PDict [(''owner'', PStr ''https://idp#ann''), (''delegates'', PList [])]\<rparr>"
  have h: "bound (aw_request ?a) = Some bob" "aw_auth ?a = Inr local_policy"
    "aw_before ?a = PDict [(''owner'', PStr ''https://idp#ann''), (''delegates'', PList [])]"
    by (simp_all add: demo_approval_def no_request_def)
  have e: "enforcement_enabled (mw_env (aw_merge ?a))" by code_simp
  have o: "owned_by ''https://idp#ann'' [] [(''owner'', PStr ''https://idp#ann''), (''delegates'', PList [])]"
    "subject bob \<notin> insert ''https://idp#ann'' (set [])" "validate_key ''p''" "validate_key ''s1''"
    by code_simp+
  from strangers_merge_nothing [OF demo_jwt_sound demo_verified _ h(1,2) e h(3) o(1,2,3,4)] show ?thesis
    by simp
qed


lemma done_is_saved_after_merging_witness:
  "\<exists>m' before wt after. saved_status m' ''s1'' = PStr ''done'' \<and>
    merge_calls (fst (approve_merge (\<lambda>_. []) (demo_approval (demo_tick ''aaa'') polled_green) ''p'' ''s1'')) =
      before @ CalledMerge ''s1'' wt # SavedManifest m' # after"
proof -
  let ?a = "demo_approval (demo_tick ''aaa'') polled_green"
  let ?m = "put_story_in (aw_fresh ?a) ''s1''
    (dpop ''ci_rerun_attempted'' (dpop ''parked_reason'' (dset ''status'' (PStr ''done'') demo_checked)))"
  have "Did (SavedManifest ?m) \<in> set (fst (approve_merge (\<lambda>_. []) ?a ''p'' ''s1''))"
    using demo_approve [of "''aaa''" polled_green]
    by (auto simp: approve_locked_open [OF demo_open] demo_block fst_bindW surfaced_def finish_merge_def Let_def)
  moreover have "saved_status ?m ''s1'' = PStr ''done''" by code_simp
  ultimately show ?thesis
    using done_is_saved_after_merging [of ?m "\<lambda>_. []" ?a "''p''" "''s1''"] by blast
qed

subsection \<open>Two losses\<close>

text \<open>
  The rebind is not saved with the push: when the CI poller raises after it, the caller gets the message,
  nothing is saved, and the next approval, finding the pushed commit at the remote, is refused.
\<close>

lemma push_then_raise:
  "approve_locked (demo_approval (demo_tick ''bbb'') poll_raises) ''p'' ''s1'' =
     (did [ProbedTip ''agent/s1'' (PStr ''aaa''), Pushed ''agent/s1''], Inr (Failed []))"
proof -
  have wt: "dget_or demo_ready ''worktree'' (PStr []) = PStr ''/w''" by code_simp
  have "polled_story (demo_approval (demo_tick ''bbb'') poll_raises) m ''s1'' ''agent/s1'' sha story =
      ([], Inl (GateRaised ''OSError''))" for m sha story
    by (simp add: polled_story_def approve_poll_def demo_approval_def poll_raises_def bind_lift bindW_def)
  then have "approve_block (demo_approval (demo_tick ''bbb'') poll_raises) ''p'' ''s1'' m demo_ready =
      (did [ProbedTip ''agent/s1'' (PStr ''aaa''), Pushed ''agent/s1''], Inl (GateRaised ''OSError''))" for m
    by (simp add: approve_block_def Let_def wt next_step_def demo_covered demo_rebased demo_moved bindW_def)
  then show ?thesis
    by (simp add: approve_locked_open [OF demo_open] surfaced_def bindW_def)
      (simp add: demo_approval_def demo_merging_def demo_world_def)
qed

lemma retry_refused:
  "let a = demo_approval (demo_world (demo_jobs ''1'' demo_passed) demo_host ''bbb'') polled_green in
     \<exists>msg. snd (approve_locked a ''p'' ''s1'') = Inr (Failed msg) \<and>
       merge_calls (fst (approve_locked a ''p'' ''s1'')) = [ProbedTip ''agent/s1'' (PStr ''bbb'')]"
proof -
  let ?a = "demo_approval (demo_world (demo_jobs ''1'' demo_passed) demo_host ''bbb'') polled_green"
  have g: "gather_branch (aw_merge ?a) demo_ready ''s1'' = Inr ''agent/s1''" by code_simp
  have t: "branch_head_sha (mw_fetch (aw_merge ?a)) (mw_rev_parse (aw_merge ?a)) ''agent/s1'' = PStr ''bbb''" by code_simp
  have "\<not> approved_at demo_ready ''bbb''" by (simp add: approved_at_def demo_ready_def dgetN_def)
  then have "\<not> fst (check (mw_show (aw_merge ?a)) (PDict demo_ready) (PStr ''bbb''))" by (simp add: check_iff)
  with g t have "\<exists>msg x y. covered_branch ?a ''p'' ''s1'' demo_ready =
      ([Did (ProbedTip ''agent/s1'' (PStr ''bbb'')), AuditedRefusal x y], Inr (Inl msg))"
    by (simp add: covered_branch_def Let_def bind_lift refuse_def tellW_def stop_def retW_def)
  then obtain msg x y where "covered_branch ?a ''p'' ''s1'' demo_ready =
      ([Did (ProbedTip ''agent/s1'' (PStr ''bbb'')), AuditedRefusal x y], Inr (Inl msg))" by blast
  then have "approve_block ?a ''p'' ''s1'' m demo_ready =
      ([Did (ProbedTip ''agent/s1'' (PStr ''bbb'')), AuditedRefusal x y], Inr (Inl msg))" for m
    by (simp add: approve_block_def Let_def next_step_def bindW_def stop_def retW_def)
  then show ?thesis
    unfolding Let_def by (simp add: approve_locked_open [OF demo_open] surfaced_def bindW_def retW_def)
qed

text \<open>
  A merge by a person keeps the handle of the detached re-verify job in the finished story, and no call
  cancels the job.
\<close>

lemma job_outlives_merge:
  "dget story ''merge_reverify'' = Some job \<Longrightarrow>
    (\<exists>s. SavedManifest (put_story_in m key s) \<in> set (merge_calls (fst (finish_merge a plan key m story))) \<and>
       dget s ''merge_reverify'' = Some job) \<and>
    (\<forall>j. Job j \<notin> set (merge_calls (fst (finish_merge a plan key m story))))"
proof -
  assume "dget story ''merge_reverify'' = Some job"
  then have "dget (dpop ''ci_rerun_attempted'' (dpop ''parked_reason'' (dset ''status'' (PStr ''done'') story)))
      ''merge_reverify'' = Some job"
    by simp
  moreover have "SavedManifest (put_story_in m key (dpop ''ci_rerun_attempted'' (dpop ''parked_reason'' (dset ''status'' (PStr ''done'') story))))
      \<in> set (merge_calls (fst (finish_merge a plan key m story)))"
    by (simp add: finish_merge_def Let_def)
  moreover have "\<forall>j. Job j \<notin> set (merge_calls (fst (finish_merge a plan key m story)))"
    using finish_calls [of "Job _" a plan key m story] by blast
  ultimately show ?thesis by blast
qed

end
