(* ===== verification/RemotePolicy.thy ===== *)
theory RemotePolicy
  imports PlanApproval CallLog
begin

text \<open>
  The tool policy of the remote transport, \<open>src/pipeline/remote_tool_policy.py\<close>: which tools a remote
  caller may call, the gate on reads of one plan, and the filters on the replies that list plans.  A tool's
  result is a dictionary or a model object of the SDK, of which the code reads the declared fields, the
  attributes, the content blocks and whether it can be copied.  The handler behind the policy, the manifest
  reader, \<open>str\<close> and \<open>json.dumps\<close> are arguments.
\<close>

datatype block = PlainBlock pyval | ModelBlock pydict | OtherBlock

record tool_model =
  declared :: "string list option"
  attrs :: pydict
  blocks :: "block list option"
  copies :: bool

datatype tool_result = DictResult pydict | ModelResult tool_model

datatype policy_exn = HandlerRaised string | AuditRaised string

datatype remote_call = HandlerCalled pyval | HostAudit string string string string   \<comment> \<open>actor, outcome, tool, subject\<close>

record remote_world =
  rw_request :: bound_request
  rw_manifest :: "string \<Rightarrow> pyval"
  rw_render :: "pyval \<Rightarrow> string"
  rw_handler :: "pyval \<Rightarrow> string + tool_result"
  rw_audit :: "string option"
  rw_singleton :: bool
  rw_dumps :: "pyval \<Rightarrow> string"

text \<open>What arrives: the method and the parameters.\<close>

record remote_ctx =
  ctx_method :: string
  ctx_params :: pyval

definition REMOTE_ENFORCED :: "string list" where
  "REMOTE_ENFORCED =
     [''advance_all_plans'', ''advance_pipeline'', ''approve_merge'', ''approve_plan'', ''checkpoint'',
      ''checkpoint_story'', ''dispatch_story'', ''ingest_plan'', ''interrupt_story'', ''mark_story_done'',
      ''mark_story_in_progress'', ''patch_plan'', ''patch_story'', ''pause_plan'', ''record_decision'',
      ''record_security_audit'', ''reject_plan'', ''request_decision'', ''resume_plan'', ''review_story'',
      ''save_plan'', ''set_story_status'']"

definition REMOTE_READ :: "string list" where
  "REMOTE_READ =
     [''check_story_status'', ''check_usage'', ''get_effective_config'', ''get_story_diff'', ''list_decisions'',
      ''list_plans'', ''list_ready_stories'', ''verify_audit'']"

definition WORKSPACE_REFUSED :: "string list" where
  "WORKSPACE_REFUSED = [''save_plan'']"

definition PLAN_SCOPED_READ :: "string list" where
  "PLAN_SCOPED_READ =
     [''check_story_status'', ''get_effective_config'', ''get_story_diff'', ''list_decisions'', ''list_ready_stories'']"

definition AUDIT_FIELD_MAX :: nat where
  "AUDIT_FIELD_MAX = 64"

definition remote_tool_allowed :: "pyval \<Rightarrow> bool" where
  "remote_tool_allowed name =
     (case name of PStr n \<Rightarrow> n \<in> set REMOTE_ENFORCED \<or> n \<in> set REMOTE_READ | _ \<Rightarrow> False)"

definition is_local_identity :: "principal \<Rightarrow> bool" where
  "is_local_identity p =
     (auth_method p = auth_method LOCAL_OPERATOR \<or> subject p = subject LOCAL_OPERATOR)"

text \<open>
  A refused call is recorded in the host chain; the operator's own identity is never the actor of such a
  record.  \<open>rw_audit\<close> is the exception of the append, if it raises; \<open>rw_singleton\<close> says whether a bound principal
  with the operator's values is the object \<open>LOCAL_OPERATOR\<close> itself, which the code tests with \<open>is\<close>.
\<close>

definition audit_denial :: "remote_world \<Rightarrow> pyval \<Rightarrow> principal \<Rightarrow> string \<Rightarrow> (remote_call, policy_exn, unit) logged" where
  "audit_denial w name p outcome =
     (let unbound = (bound (rw_request w) = None \<or> p = LOCAL_OPERATOR \<and> rw_singleton w);
          subj = (if unbound then ''unbound'' else subject p);
          tool = take AUDIT_FIELD_MAX (py_str (rw_render w) name);
          actor = (if \<not> is_local_identity p then actor_id (rw_request w) else subject ANONYMOUS)
      in tellW [HostAudit actor outcome tool (take AUDIT_FIELD_MAX subj)]
           (case rw_audit w of
              None \<Rightarrow> retW ()
            | Some e \<Rightarrow> if e \<in> {''OSError'', ''TypeError'', ''ValueError''} then retW () else liftW (Inl (AuditRaised e))))"

definition arguments_of :: "pydict \<Rightarrow> pydict option" where
  "arguments_of params = (case dgetN params ''arguments'' of PDict d \<Rightarrow> Some d | _ \<Rightarrow> None)"

definition plan_name_argument :: "pydict \<Rightarrow> pyval" where
  "plan_name_argument params = (case arguments_of params of None \<Rightarrow> PNone | Some d \<Rightarrow> dgetN d ''plan_name'')"

definition passes_workspace :: "pydict \<Rightarrow> bool" where
  "passes_workspace params = (case arguments_of params of None \<Rightarrow> False | Some d \<Rightarrow> dgetN d ''workspace'' \<noteq> PNone)"

definition can_view_plan :: "remote_world \<Rightarrow> principal \<Rightarrow> pyval \<Rightarrow> bool" where
  "can_view_plan w p v =
     (case v of
        PStr name \<Rightarrow>
          if name = [] then False
          else if \<not> key_re name then False
          else (case resource_for (rw_render w) (rw_manifest w name) name None of
                  Inl _ \<Rightarrow> False
                | Inr r \<Rightarrow> can_view (Some p) (Some r))
      | _ \<Rightarrow> False)"

definition plan_of_stem :: "string \<Rightarrow> string" where
  "plan_of_stem stem = fst (partition_at CHR ''.'' stem)"

text \<open>The decisions made so far are kept for the rest of the call.\<close>

fun visible_from :: "(string \<Rightarrow> bool) \<Rightarrow> (string \<times> bool) list \<Rightarrow> string list \<Rightarrow> string list" where
  "visible_from view decisions [] = []"
| "visible_from view decisions (stem # stems) =
     (let plan = plan_of_stem stem;
          decisions = (if dget decisions plan = None then dset plan (view plan) decisions else decisions)
      in if dget decisions plan = Some True then stem # visible_from view decisions stems
         else visible_from view decisions stems)"

definition visible_stems :: "remote_world \<Rightarrow> principal \<Rightarrow> string list \<Rightarrow> string list" where
  "visible_stems w p stems = visible_from (\<lambda>plan. can_view_plan w p (PStr plan)) [] stems"

subsection \<open>Reading and rewriting a result\<close>

fun first_set :: "pydict \<Rightarrow> string list \<Rightarrow> pyval" where
  "first_set d [] = PNone"
| "first_set d (k # ks) = (if dgetN d k \<noteq> PNone then dgetN d k else first_set d ks)"

definition structured_body :: "tool_result \<Rightarrow> pyval" where
  "structured_body r =
     (case r of
        ModelResult m \<Rightarrow> first_set (attrs m) [''structured_content'', ''structuredContent'']
      | DictResult d \<Rightarrow> first_set d [''structuredContent'', ''structured_content''])"

definition structured_field :: "tool_model \<Rightarrow> string option" where
  "structured_field m =
     (case declared m of
        None \<Rightarrow> None
      | Some fs \<Rightarrow> List.find (\<lambda>n. n \<in> set fs) [''structured_content'', ''structuredContent''])"

definition text_block :: "string \<Rightarrow> pydict" where
  "text_block text = [(''type'', PStr ''text''), (''text'', PStr text)]"

text \<open>A content block that is a model is copied with the new text; otherwise a dictionary is used.\<close>

definition model_block :: "block list option \<Rightarrow> nat \<Rightarrow> string \<Rightarrow> block" where
  "model_block existing i text =
     (case existing of
        Some bs \<Rightarrow>
          (if i < length bs then
             (case bs ! i of
                ModelBlock b \<Rightarrow> ModelBlock (dset ''text'' (PStr text) b)
              | _ \<Rightarrow> PlainBlock (PDict (text_block text)))
           else PlainBlock (PDict (text_block text)))
      | None \<Rightarrow> PlainBlock (PDict (text_block text)))"

definition model_blocks :: "block list option \<Rightarrow> string list \<Rightarrow> block list" where
  "model_blocks existing texts = map (\<lambda>(i, text). model_block existing i text) (enumerate 0 texts)"

definition rebuilt :: "tool_result \<Rightarrow> pyval \<Rightarrow> string list \<Rightarrow> tool_result option" where
  "rebuilt r body texts =
     (case r of
        DictResult d \<Rightarrow>
          let key = (if dget d ''structuredContent'' \<noteq> None then ''structuredContent'' else ''structured_content'')
          in Some (DictResult (dset ''content'' (PList (map (\<lambda>t. PDict (text_block t)) texts)) (dset key body d)))
      | ModelResult m \<Rightarrow>
          (case structured_field m of
             Some field \<Rightarrow>
               if copies m
               then Some (ModelResult (m\<lparr>blocks := Some (model_blocks (blocks m) texts), attrs := dset field body (attrs m)\<rparr>))
               else None
           | None \<Rightarrow> None))"

definition string_list :: "pyval \<Rightarrow> string list option" where
  "string_list v = (case v of PList vs \<Rightarrow> if list_all is_pystr vs then Some (map the_str vs) else None | _ \<Rightarrow> None)"

definition scope_stems :: "remote_world \<Rightarrow> principal \<Rightarrow> tool_result \<Rightarrow> tool_result option" where
  "scope_stems w p r =
     (case structured_body r of
        PDict body \<Rightarrow>
          (case string_list (dgetN body ''result'') of
             None \<Rightarrow> None
           | Some stems \<Rightarrow>
               let kept = visible_stems w p stems
               in if kept = stems then Some r
                  else rebuilt r (PDict (dset ''result'' (PList (map PStr kept)) body)) kept)
      | _ \<Rightarrow> None)"

text \<open>Dictionaries compare without regard to the order of their keys.\<close>

definition same_dict :: "pydict \<Rightarrow> pydict \<Rightarrow> bool" where
  "same_dict a b = (set (dkeys a) = set (dkeys b) \<and> list_all (\<lambda>k. dget a k = dget b k) (dkeys a))"

definition has_plans :: "pyval \<Rightarrow> bool" where
  "has_plans v = (case v of PDict d \<Rightarrow> (case dgetN d ''plans'' of PDict _ \<Rightarrow> True | _ \<Rightarrow> False) | _ \<Rightarrow> False)"

definition visible_plans :: "remote_world \<Rightarrow> principal \<Rightarrow> pydict \<Rightarrow> pydict" where
  "visible_plans w p plans = filter (\<lambda>(name, _). can_view_plan w p (PStr name)) plans"

definition kept_audit :: "remote_world \<Rightarrow> principal \<Rightarrow> pydict \<Rightarrow> pydict" where
  "kept_audit w p inner =
     dset ''plans'' (PDict (case dgetN inner ''plans'' of PDict ps \<Rightarrow> visible_plans w p ps | _ \<Rightarrow> []))
       (filter (\<lambda>(k, _). k \<notin> {''plans'', ''host''}) inner)"

definition scope_audit :: "remote_world \<Rightarrow> principal \<Rightarrow> tool_result \<Rightarrow> tool_result option" where
  "scope_audit w p r =
     (case structured_body r of
        PDict body \<Rightarrow>
          if has_plans (dgetN body ''result'') then
            (case dgetN body ''result'' of
               PDict inner \<Rightarrow>
                 let scoped = PDict (dset ''result'' (PDict (kept_audit w p inner)) body)
                 in rebuilt r scoped [rw_dumps w scoped]
             | _ \<Rightarrow> None)
          else if has_plans (PDict body) then
            let kept = kept_audit w p body
            in if same_dict kept body then Some r else rebuilt r (PDict kept) [rw_dumps w (PDict kept)]
          else None
      | _ \<Rightarrow> None)"

definition error_result :: "string \<Rightarrow> tool_result" where
  "error_result text = DictResult [(''content'', PList [PDict (text_block text)]), (''isError'', PBool True)]"

definition refusal_result :: tool_result where
  "refusal_result = error_result ''This tool is not available over the remote transport.''"

definition hidden_result :: tool_result where
  "hidden_result = error_result ''This plan is not available to the authenticated principal.''"

definition or_hidden :: "tool_result option \<Rightarrow> tool_result" where
  "or_hidden r = (case r of None \<Rightarrow> hidden_result | Some x \<Rightarrow> x)"

definition call_next :: "remote_world \<Rightarrow> pyval \<Rightarrow> (remote_call, policy_exn, tool_result) logged" where
  "call_next w params =
     tellW [HandlerCalled params] (liftW (case rw_handler w params of Inl e \<Rightarrow> Inl (HandlerRaised e) | Inr r \<Rightarrow> Inr r))"

definition remote_tool_policy :: "remote_world \<Rightarrow> remote_ctx \<Rightarrow> (remote_call, policy_exn, tool_result) logged" where
  "remote_tool_policy w ctx =
     (if ctx_method ctx \<noteq> ''tools/call'' then call_next w (ctx_params ctx)
      else
        let p = current_principal (rw_request w);
            params = (case ctx_params ctx of PDict d \<Rightarrow> d | _ \<Rightarrow> []);
            name = dgetN params ''name'' in
        if \<not> is_local_identity p \<and> remote_tool_allowed name then
          (let tool = the_str name in
           if tool \<in> set WORKSPACE_REFUSED \<and> passes_workspace params
           then bindW (audit_denial w name p ''denied'') (\<lambda>_. retW refusal_result)
           else if tool \<in> set PLAN_SCOPED_READ then
             (if \<not> can_view_plan w p (plan_name_argument params)
              then bindW (audit_denial w name p ''hidden'') (\<lambda>_. retW hidden_result)
              else call_next w (ctx_params ctx))
           else bindW (call_next w (ctx_params ctx)) (\<lambda>result.
             if tool = ''list_plans'' then retW (or_hidden (scope_stems w p result))
             else if tool \<in> {''verify_audit'', ''advance_all_plans''} then retW (or_hidden (scope_audit w p result))
             else retW result))
        else bindW (audit_denial w name p ''denied'') (\<lambda>_. retW refusal_result))"


subsection \<open>Filters\<close>

lemma visible_from_filter:
  assumes "\<And>k b. dget decisions k = Some b \<Longrightarrow> b = view k"
  shows "visible_from view decisions stems = filter (view \<circ> plan_of_stem) stems"
  using assms
proof (induction stems arbitrary: decisions)
  case (Cons stem stems)
  let ?d = "if dget decisions (plan_of_stem stem) = None then dset (plan_of_stem stem) (view (plan_of_stem stem)) decisions else decisions"
  have d: "dget ?d k = Some b \<Longrightarrow> b = view k" for k b
    by (cases "dget decisions (plan_of_stem stem)"; cases "k = plan_of_stem stem") (simp_all add: Cons.prems)
  have now: "dget ?d (plan_of_stem stem) = Some (view (plan_of_stem stem))"
    by (cases "dget decisions (plan_of_stem stem)") (simp_all add: Cons.prems)
  have "visible_from view ?d stems = filter (view \<circ> plan_of_stem) stems"
    by (rule Cons.IH) (rule d)
  then show ?case unfolding visible_from.simps Let_def now by (simp add: comp_def)
qed simp

lemma visible_stems_filter:
  "visible_stems w p stems = filter (\<lambda>s. can_view_plan w p (PStr (plan_of_stem s))) stems"
  using visible_from_filter [of "[]" "\<lambda>plan. can_view_plan w p (PStr plan)" stems] by (simp add: visible_stems_def comp_def)

lemma can_view_plan_owner:
  assumes "can_view_plan w p v" "\<not> is_local_identity p"
  shows "\<exists>plan r. v = PStr plan \<and> key_re plan \<and>
    resource_for (rw_render w) (rw_manifest w plan) plan None = Inr r \<and> owns_or_delegate p r"
  using assms
  by (auto simp: can_view_plan_def can_view_def is_local_identity_def owns_or_delegate_def LOCAL_OPERATOR_SUBJECT_def
      split: pyval.splits if_splits sum.splits)

lemma audit_denial_calls:
  "fst (audit_denial w name p outcome) = [HostAudit (if \<not> is_local_identity p then actor_id (rw_request w) else subject ANONYMOUS)
     outcome (take AUDIT_FIELD_MAX (py_str (rw_render w) name))
     (take AUDIT_FIELD_MAX
       (if bound (rw_request w) = None \<or> p = LOCAL_OPERATOR \<and> rw_singleton w then ''unbound'' else subject p))]"
  by (auto simp: audit_denial_def Let_def split: option.split)

lemma call_next_calls [simp]: "fst (call_next w v) = [HandlerCalled v]"
  by (simp add: call_next_def)

lemma refused_calls [simp]:
  "HandlerCalled v \<notin> set (fst (bindW (audit_denial w name p outcome) (\<lambda>_. retW r)))"
  by (simp add: in_bindW audit_denial_calls)

lemma handled_params: "HandlerCalled v \<in> set (fst (remote_tool_policy w ctx)) \<Longrightarrow> v = ctx_params ctx"
proof -
  have r: "HandlerCalled v \<in> set (fst (bindW (call_next w x) (\<lambda>r. if a then retW (f r) else if b then retW (g r) else retW r))) \<Longrightarrow> v = x"
    for a b f g x by (cases a; cases b) (auto simp: in_bindW)
  assume "HandlerCalled v \<in> set (fst (remote_tool_policy w ctx))"
  then show ?thesis unfolding remote_tool_policy_def Let_def by (auto split: if_splits dest: r)
qed

text \<open>
  C4: Remote calls are denied by default: a tool's handler runs only for a caller that does not claim the local
  operator's identity, only for a listed tool, never with a server-side workspace for \<open>save_plan\<close>, and for a
  read of one plan only when that plan's manifest names the caller as its owner or a delegate.
\<close>

theorem remote_calls_are_scoped:
  assumes "ctx_method ctx = ''tools/call''" "HandlerCalled v \<in> set (fst (remote_tool_policy w ctx))"
  shows "\<exists>params tool p. ctx_params ctx = PDict params \<and> v = PDict params \<and> dgetN params ''name'' = PStr tool \<and>
    p = current_principal (rw_request w) \<and> \<not> is_local_identity p \<and> tool \<in> set REMOTE_ENFORCED \<union> set REMOTE_READ \<and>
    (tool = ''save_plan'' \<longrightarrow> \<not> passes_workspace params) \<and>
    (tool \<in> set PLAN_SCOPED_READ \<longrightarrow>
       (\<exists>plan r. plan_name_argument params = PStr plan \<and> key_re plan \<and>
          resource_for (rw_render w) (rw_manifest w plan) plan None = Inr r \<and> owns_or_delegate p r))"
proof -
  let ?p = "current_principal (rw_request w)"
  let ?params = "case ctx_params ctx of PDict d \<Rightarrow> d | _ \<Rightarrow> []"
  have ok: "\<not> is_local_identity ?p \<and> remote_tool_allowed (dgetN ?params ''name'')"
    using assms by (auto simp: remote_tool_policy_def Let_def split: if_splits)
  then obtain tool where tool: "dgetN ?params ''name'' = PStr tool" "tool \<in> set REMOTE_ENFORCED \<union> set REMOTE_READ"
    by (auto simp: remote_tool_allowed_def split: pyval.splits)
  from tool(1) obtain params where params: "ctx_params ctx = PDict params" "?params = params"
    by (cases "ctx_params ctx") (auto simp: dgetN_def)
  have work: "tool = ''save_plan'' \<longrightarrow> \<not> passes_workspace params"
    using assms ok tool(1) params by (auto simp: remote_tool_policy_def Let_def WORKSPACE_REFUSED_def)
  moreover have view: "tool \<in> set PLAN_SCOPED_READ \<longrightarrow> can_view_plan w ?p (plan_name_argument params)"
    using assms ok tool(1) params work
    by (auto simp: remote_tool_policy_def Let_def WORKSPACE_REFUSED_def split: if_splits)
  moreover have "v = PDict params" using handled_params [OF assms(2)] params(1) by simp
  moreover have "tool \<in> set PLAN_SCOPED_READ \<longrightarrow> (\<exists>plan r. plan_name_argument params = PStr plan \<and> key_re plan \<and>
      resource_for (rw_render w) (rw_manifest w plan) plan None = Inr r \<and> owns_or_delegate ?p r)"
    using view ok can_view_plan_owner by blast
  ultimately show ?thesis
    using ok tool params by (intro exI [of _ params] exI [of _ tool] exI [of _ ?p]) simp
qed

text \<open>A refusal is never recorded as the operator's, whoever the caller claims to be.\<close>

lemma denials_name_no_operator:
  assumes "HostAudit actor outcome tool subj \<in> set (fst (remote_tool_policy w ctx))"
  shows "actor \<noteq> subject LOCAL_OPERATOR"
proof -
  have a: "HostAudit ''local-operator'' outcome tool subj \<notin> set (fst (audit_denial w name (current_principal (rw_request w)) o'))"
    for name o'
    by (auto simp: audit_denial_calls is_local_identity_def actor_id_def ANONYMOUS_def default_principal_def LOCAL_OPERATOR_def
        split: if_splits)
  have n: "HostAudit actor outcome tool subj \<notin>
      set (fst (bindW (call_next w x) (\<lambda>r. if b then retW (f r) else if b' then retW (g r) else retW r)))" for b b' f g x
    by (cases b; cases b') (auto simp: in_bindW)
  from assms show ?thesis
    unfolding remote_tool_policy_def Let_def using n by (auto split: if_splits simp: in_bindW a)
qed

subsection \<open>What a caller learns\<close>

text \<open>The results the SDK builds for a tool that returns a list and for the audit report.\<close>

definition sdk_result :: "pydict \<Rightarrow> string list \<Rightarrow> tool_result" where
  "sdk_result body texts =
     ModelResult \<lparr>declared = Some [''content'', ''structured_content'', ''is_error''],
       attrs = [(''structured_content'', PDict body)], blocks = Some (map (\<lambda>t. ModelBlock (text_block t)) texts), copies = True\<rparr>"

definition list_reply :: "string list \<Rightarrow> tool_result" where
  "list_reply stems = sdk_result [(''result'', PList (map PStr stems))] stems"

definition audit_reply :: "(pyval \<Rightarrow> string) \<Rightarrow> pydict \<Rightarrow> pyval \<Rightarrow> tool_result" where
  "audit_reply dumps plans host =
     (let body = [(''ok'', PBool True), (''plans'', PDict plans), (''host'', host)] in sdk_result body [dumps (PDict body)])"

lemma model_blocks_copy:
  "length texts \<le> length olds \<Longrightarrow>
   model_blocks (Some (map (\<lambda>t. ModelBlock (text_block t)) olds)) texts = map (\<lambda>t. ModelBlock (text_block t)) texts"
  by (rule nth_equalityI) (auto simp: model_blocks_def model_block_def text_block_def dset_def nth_enumerate_eq)

lemma string_list_map [simp]: "string_list (PList (map PStr xs)) = Some xs"
  by (simp add: string_list_def list_all_iff comp_def)

lemma sdk_result_rebuilt:
  assumes "length texts \<le> length olds"
  shows "rebuilt (sdk_result old olds) (PDict new) texts = Some (sdk_result new texts)"
  using model_blocks_copy [OF assms] by (simp add: rebuilt_def sdk_result_def structured_field_def dset_def)

lemma structured_body_sdk [simp]: "structured_body (sdk_result body texts) = PDict body"
  by (simp add: structured_body_def sdk_result_def dgetN_def)

lemma scope_stems_reply:
  "scope_stems w p (list_reply stems) = Some (list_reply (visible_stems w p stems))"
  by (auto simp: scope_stems_def list_reply_def dgetN_def Let_def visible_stems_filter sdk_result_rebuilt dset_def)

lemma scope_audit_reply:
  "scope_audit w p (audit_reply dumps plans host) =
     (let body = [(''ok'', PBool True), (''plans'', PDict (visible_plans w p plans))]
      in Some (sdk_result body [rw_dumps w (PDict body)]))"
proof -
  have "\<not> same_dict [(''ok'', PBool True), (''plans'', v)] [(''ok'', PBool True), (''plans'', v'), (''host'', host)]" for v v'
  proof
    assume "same_dict [(''ok'', PBool True), (''plans'', v)] [(''ok'', PBool True), (''plans'', v'), (''host'', host)]"
    then have "set (dkeys [(''ok'', PBool True), (''plans'', v)]) =
        set (dkeys [(''ok'', PBool True), (''plans'', v'), (''host'', host)])"
      by (simp only: same_dict_def)
    moreover have "''host'' \<in> set (dkeys [(''ok'', PBool True), (''plans'', v'), (''host'', host)])" by simp
    moreover have "''host'' \<notin> set (dkeys [(''ok'', PBool True), (''plans'', v)])" by simp
    ultimately show False by simp
  qed
  then show ?thesis
    by (simp add: scope_audit_def audit_reply_def Let_def has_plans_def dgetN_def kept_audit_def dset_def sdk_result_rebuilt)
qed

text \<open>Two servers look alike to \<open>p\<close>: whatever it may see is the same.\<close>

definition same_view :: "principal \<Rightarrow> remote_world \<Rightarrow> remote_world \<Rightarrow> bool" where
  "same_view p w w' \<longleftrightarrow>
     rw_request w = rw_request w' \<and> rw_audit w = rw_audit w' \<and> rw_singleton w = rw_singleton w' \<and> rw_render w = rw_render w' \<and> rw_dumps w = rw_dumps w' \<and>
     (\<forall>name. can_view_plan w p (PStr name) = can_view_plan w' p (PStr name))"

text \<open>
  And the tools that read plans: the lists agree on the stems whose plan \<open>p\<close> may see (the part before the first
  dot names it), the audit reports on the verdicts of those plans, and a tool that is asked about one plan
  answers alike where \<open>p\<close> may see it.  The audit reports carry no anchor.
\<close>

definition listed_for :: "remote_world \<Rightarrow> principal \<Rightarrow> string list \<Rightarrow> string list" where
  "listed_for w p stems = filter (\<lambda>s. can_view_plan w p (PStr (takeWhile (\<lambda>c. c \<noteq> CHR ''.'') s))) stems"

definition tools_agree :: "principal \<Rightarrow> remote_world \<Rightarrow> remote_world \<Rightarrow> pydict \<Rightarrow> bool" where
  "tools_agree p w w' params \<longleftrightarrow>
     (if dgetN params ''name'' = PStr ''list_plans'' then
        (\<exists>s s'. rw_handler w (PDict params) = Inr (list_reply s) \<and> rw_handler w' (PDict params) = Inr (list_reply s') \<and>
           listed_for w p s = listed_for w p s')
      else if dgetN params ''name'' = PStr ''verify_audit'' then
        (\<exists>c c' h h'. rw_handler w (PDict params) = Inr (audit_reply (rw_dumps w) c h) \<and>
           rw_handler w' (PDict params) = Inr (audit_reply (rw_dumps w) c' h') \<and>
           filter (\<lambda>x. can_view_plan w p (PStr (fst x))) c = filter (\<lambda>x. can_view_plan w p (PStr (fst x))) c')
      else
        (can_view_plan w p (plan_name_argument params) \<longrightarrow> rw_handler w (PDict params) = rw_handler w' (PDict params)))"

definition reads_plans :: "pyval \<Rightarrow> bool" where
  "reads_plans name \<longleftrightarrow> name = PStr ''list_plans'' \<or> name = PStr ''verify_audit'' \<or> (\<exists>t \<in> set PLAN_SCOPED_READ. name = PStr t)"

lemma plan_of_stem_before_dot: "plan_of_stem s = takeWhile (\<lambda>c. c \<noteq> CHR ''.'') s"
  unfolding plan_of_stem_def by (induction s) (auto split: prod.split)

lemma listed_for_visible: "listed_for w p stems = visible_stems w p stems"
  by (simp add: listed_for_def visible_stems_filter plan_of_stem_before_dot)

lemma visible_plans_fst: "visible_plans w p c = filter (\<lambda>x. can_view_plan w p (PStr (fst x))) c"
  by (simp add: visible_plans_def case_prod_unfold)

lemma same_view_plan: "same_view p w w' \<Longrightarrow> can_view_plan w p = can_view_plan w' p"
proof
  fix v assume "same_view p w w'"
  then show "can_view_plan w p v = can_view_plan w' p v"
    by (cases v) (auto simp: same_view_def can_view_plan_def)
qed

text \<open>
  C10: Plans a remote caller may not see leave no trace in what the tools that read plans tell it: \<open>list_plans\<close>,
  \<open>verify_audit\<close> without an anchor sink, and the five reads of one plan.  If two servers agree on which plans
  the caller may see, on the listed stems and the audit verdicts of those, and on the answers about such a
  plan, then such a call is answered and audited alike on both, whatever other plans, owners and chains they
  hold and whatever the host chain says.
\<close>

theorem hidden_plans_leave_no_trace:
  assumes "p = current_principal (rw_request w)" "reads_plans (dgetN params ''name'')"
    and "same_view p w w'" "tools_agree p w w' params"
  shows "remote_tool_policy w \<lparr>ctx_method = ''tools/call'', ctx_params = PDict params\<rparr> =
    remote_tool_policy w' \<lparr>ctx_method = ''tools/call'', ctx_params = PDict params\<rparr>"
proof -
  note p = assms(1) [symmetric]
  have v: "can_view_plan w p = can_view_plan w' p" using same_view_plan [OF assms(3)] .
  have c: "rw_request w' = rw_request w" "rw_audit w' = rw_audit w" "rw_singleton w' = rw_singleton w" "rw_render w' = rw_render w" "rw_dumps w' = rw_dumps w"
    using assms(3) by (auto simp: same_view_def)
  have a: "audit_denial w' = audit_denial w" by (simp add: audit_denial_def c fun_eq_iff)
  have stems: "visible_stems w' p = visible_stems w p" "visible_plans w' p = visible_plans w p"
    by (simp_all add: visible_stems_filter visible_plans_def v fun_eq_iff)
  show ?thesis
  proof (cases "\<not> is_local_identity p \<and> remote_tool_allowed (dgetN params ''name'')")
    case False
    then show ?thesis by (auto simp: remote_tool_policy_def c a p Let_def)
  next
    case True
    then obtain tool where tool: "dgetN params ''name'' = PStr tool"
      by (auto simp: remote_tool_allowed_def split: pyval.splits)
    consider (list) "tool = ''list_plans''" | (audit) "tool = ''verify_audit''" | (scoped) "tool \<in> set PLAN_SCOPED_READ"
      using assms(2) unfolding tool reads_plans_def pyval.inject by fast
    then show ?thesis
    proof cases
      case list
      with assms(4) tool obtain s s' where "rw_handler w (PDict params) = Inr (list_reply s)"
        "rw_handler w' (PDict params) = Inr (list_reply s')" "visible_stems w p s = visible_stems w p s'"
        by (auto simp: tools_agree_def listed_for_visible)
      with list tool True show ?thesis
        by (simp add: remote_tool_policy_def c a p Let_def call_next_def scope_stems_reply stems WORKSPACE_REFUSED_def
            PLAN_SCOPED_READ_def bindW_def tellW_def liftW_def or_hidden_def)
    next
      case audit
      with assms(4) tool obtain d d' h h' where "rw_handler w (PDict params) = Inr (audit_reply (rw_dumps w) d h)"
        "rw_handler w' (PDict params) = Inr (audit_reply (rw_dumps w) d' h')" "visible_plans w p d = visible_plans w p d'"
        by (auto simp: tools_agree_def visible_plans_fst)
      with audit tool True show ?thesis
        by (simp add: remote_tool_policy_def c a p Let_def call_next_def scope_audit_reply stems WORKSPACE_REFUSED_def
            PLAN_SCOPED_READ_def bindW_def tellW_def liftW_def or_hidden_def)
    next
      case scoped
      then have "tool \<notin> {''list_plans'', ''verify_audit'', ''save_plan''}" by (auto simp: PLAN_SCOPED_READ_def)
      with scoped assms(4) tool True v show ?thesis
        by (auto simp: tools_agree_def remote_tool_policy_def c a p Let_def call_next_def WORKSPACE_REFUSED_def)
    qed
  qed
qed


subsection \<open>Runs\<close>

definition remote_bob :: principal where
  "remote_bob = default_principal ''https://idp#bob'' ''oidc''"

definition demo_remote :: "string list \<Rightarrow> tool_result \<Rightarrow> remote_world" where
  "demo_remote others reply =
     \<lparr>rw_request = no_request\<lparr>bound := Some remote_bob\<rparr>,
      rw_manifest = (\<lambda>n. if n = ''p'' then PDict [(''owner'', PStr ''https://idp#bob'')]
                        else if n \<in> set others then PDict [(''owner'', PStr ''https://idp#ann'')] else PDict []),
      rw_render = (\<lambda>v. []), rw_handler = (\<lambda>v. Inr reply), rw_audit = None, rw_singleton = False, rw_dumps = (\<lambda>v. ''json'')\<rparr>"

definition demo_read :: "string \<Rightarrow> string \<Rightarrow> remote_ctx" where
  "demo_read tool plan = \<lparr>ctx_method = ''tools/call'', ctx_params = PDict [(''name'', PStr tool),
     (''arguments'', PDict [(''plan_name'', PStr plan)])]\<rparr>"

lemma resource_of_owner:
  "\<exists>r. resource_for (\<lambda>v. []) (PDict [(''owner'', PStr x)]) plan None = Inr r \<and> r_owner r = x \<and> r_delegates r = []"
  by (simp add: resource_for_def manifest_dict_def str_or_def dgetN_def py_list_def or_empty_def Let_def)

lemma resource_of_nobody:
  "\<exists>r. resource_for (\<lambda>v. []) (PDict []) plan None = Inr r \<and> r_owner r = [] \<and> r_delegates r = []"
  by (simp add: resource_for_def manifest_dict_def str_or_def dgetN_def py_list_def or_empty_def Let_def)

lemma bob_views: "r_delegates r = [] \<Longrightarrow> can_view (Some remote_bob) (Some r) \<longleftrightarrow> r_owner r = ''https://idp#bob''"
  by (auto simp: can_view_def remote_bob_def default_principal_def LOCAL_OPERATOR_SUBJECT_def LOCAL_OPERATOR_def py_in_def)

lemma demo_sees:
  "can_view_plan (demo_remote others reply) remote_bob (PStr plan) \<longleftrightarrow> plan = ''p''"
proof -
  have k: "key_re ''p''" by code_simp
  let ?m = "rw_manifest (demo_remote others reply) plan"
  have "\<exists>r. resource_for (rw_render (demo_remote others reply)) ?m plan None = Inr r \<and> r_delegates r = [] \<and>
      (r_owner r = ''https://idp#bob'' \<longleftrightarrow> plan = ''p'')"
    using resource_of_owner [of "''https://idp#bob''" plan] resource_of_owner [of "''https://idp#ann''" plan]
      resource_of_nobody [of plan]
    by (auto simp: demo_remote_def)
  with k show ?thesis by (auto simp: can_view_plan_def bob_views)
qed

theorem remote_calls_are_scoped_witness:
  "\<exists>r. resource_for (\<lambda>v. []) (PDict [(''owner'', PStr ''https://idp#bob'')]) ''p'' None = Inr r \<and> owns_or_delegate remote_bob r"
proof -
  let ?w = "demo_remote [] hidden_result"
  have "HandlerCalled (ctx_params (demo_read ''list_decisions'' ''p'')) \<in>
      set (fst (remote_tool_policy ?w (demo_read ''list_decisions'' ''p'')))"
    by code_simp
  from remote_calls_are_scoped [OF _ this] show ?thesis
    by (auto simp: demo_read_def demo_remote_def plan_name_argument_def arguments_of_def dgetN_def PLAN_SCOPED_READ_def
        current_principal_def)
qed

theorem hidden_plans_leave_no_trace_witness:
  "remote_tool_policy (demo_remote [''q''] (list_reply [''p.manifest'', ''q.manifest''])) (demo_read ''list_plans'' []) =
   remote_tool_policy (demo_remote [] (list_reply [''p.manifest''])) (demo_read ''list_plans'' [])"
proof -
  let ?w = "demo_remote [''q''] (list_reply [''p.manifest'', ''q.manifest''])"
  let ?w' = "demo_remote [] (list_reply [''p.manifest''])"
  have p: "remote_bob = current_principal (rw_request ?w)"
    by (simp add: demo_remote_def current_principal_def no_request_def)
  have v: "same_view remote_bob ?w ?w'"
    by (simp add: same_view_def demo_sees) (simp add: demo_remote_def)
  have "listed_for ?w remote_bob [''p.manifest'', ''q.manifest''] = listed_for ?w remote_bob [''p.manifest'']"
    by (simp add: listed_for_def demo_sees)
  then have "tools_agree remote_bob ?w ?w' [(''name'', PStr ''list_plans''), (''arguments'', PDict [(''plan_name'', PStr [])])]"
    by (auto simp: tools_agree_def dgetN_def demo_remote_def)
  moreover have "reads_plans (dgetN [(''name'', PStr ''list_plans''), (''arguments'', PDict [(''plan_name'', PStr [])])] ''name'')"
    by (simp add: reads_plans_def dgetN_def)
  ultimately have "remote_tool_policy ?w \<lparr>ctx_method = ''tools/call'', ctx_params =
      PDict [(''name'', PStr ''list_plans''), (''arguments'', PDict [(''plan_name'', PStr [])])]\<rparr> =
    remote_tool_policy ?w' \<lparr>ctx_method = ''tools/call'', ctx_params =
      PDict [(''name'', PStr ''list_plans''), (''arguments'', PDict [(''plan_name'', PStr [])])]\<rparr>"
    using hidden_plans_leave_no_trace [OF p _ v] by blast
  then show ?thesis by (simp only: demo_read_def)
qed

subsection \<open>What gets through\<close>

text \<open>
  With an anchor sink configured, \<open>verify_audit\<close> adds a mapping from chain names to verdicts under \<open>anchor\<close>.
  The filter takes out \<open>plans\<close> and \<open>host\<close> only, so every caller reads every chain's name and verdict there.
\<close>

lemma anchor_gets_through:
  "\<exists>body. structured_body (or_hidden (scope_audit w p
       (sdk_result [(''ok'', PBool True), (''plans'', PDict plans), (''host'', h), (''anchor'', a)] [text]))) = PDict body \<and>
     dgetN body ''anchor'' = a"
  by (auto simp: scope_audit_def Let_def has_plans_def dgetN_def kept_audit_def dset_def sdk_result_rebuilt or_hidden_def)

text \<open>A plan's name may hold dots, and its stem then counts as one of another plan.\<close>

lemma dotted_plan_shows:
  assumes "can_view_plan w p (PStr ''a'')" "\<not> can_view_plan w p (PStr ''a.b'')"
  shows "validate_key ''a.b'' \<and> scope_stems w p (list_reply [''a.b.manifest'']) = Some (list_reply [''a.b.manifest''])"
proof -
  have "plan_of_stem ''a.b.manifest'' = ''a''" "validate_key ''a.b''" by code_simp+
  with assms(1) show ?thesis by (simp add: scope_stems_reply visible_stems_filter)
qed

text \<open>A dictionary with both spellings, the first of them unset, is read by one and rewritten by the other.\<close>

lemma other_spelling_stays:
  assumes "\<not> can_view_plan w p (PStr ''q'')"
  shows "\<exists>d. scope_stems w p (DictResult [(''structuredContent'', PNone),
      (''structured_content'', PDict [(''result'', PList [PStr ''q''])])]) = Some (DictResult d) \<and>
    dgetN d ''structured_content'' = PDict [(''result'', PList [PStr ''q''])]"
proof -
  have "plan_of_stem ''q'' = ''q''" by code_simp
  with assms show ?thesis
    by (simp add: scope_stems_def structured_body_def dgetN_def string_list_def visible_stems_filter rebuilt_def dset_def)
qed

end
