(* ===== verification/PatchParse.thy ===== *)
theory PatchParse
  imports PyPrelude
begin

text \<open>
  Reading a unified diff: \<open>src/pipeline/worktree_patch_parse.py\<close>.  The loop over the lines is a fold over its
  local variables.  The grammar of the accepted diffs is given apart from the loop, as inductive relations
  on lists of lines, and the two are shown to agree.
\<close>

datatype patch_error = PatchFormat string | IntTooLong

subsection \<open>Quoted names\<close>

definition simple_escape :: "char \<Rightarrow> char option" where
  "simple_escape c =
     map_of [(CHR ''a'', CHR 0x07), (CHR ''b'', CHR 0x08), (CHR ''f'', CHR 0x0C), (CHR ''n'', CHR 0x0A),
       (CHR ''r'', CHR 0x0D), (CHR ''t'', CHR 0x09), (CHR ''v'', CHR 0x0B), (CHR 0x22, CHR 0x22),
       (CHR 0x5C, CHR 0x5C)] c"

definition is_octal :: "char \<Rightarrow> bool" where
  "is_octal c = (c \<in> set ''01234567'')"

definition octal_char :: "string \<Rightarrow> char" where
  "octal_char ds = char_of (fold (\<lambda>d n. 8 * n + (of_char d - 48)) ds (0 :: nat) mod 256)"

function unescape :: "string \<Rightarrow> string option" where
  "unescape [] = Some []"
| "unescape (c # cs) =
     (if c \<noteq> CHR 0x5C then map_option (Cons c) (unescape cs)
      else case cs of
        [] \<Rightarrow> None
      | e # rest \<Rightarrow>
          (case simple_escape e of
             Some x \<Rightarrow> map_option (Cons x) (unescape rest)
           | None \<Rightarrow>
               if is_octal e then
                 (let more = takeWhile is_octal (take 2 rest)
                  in map_option (Cons (octal_char (e # more))) (unescape (drop (length more) rest)))
               else None))"
  by pat_completeness auto

termination unescape
  by (relation "measure length") auto

definition c_unquote :: "string \<Rightarrow> string option" where
  "c_unquote path =
     (if \<not> starts_with path [CHR 0x22] then Some path
      else if length path < 2 \<or> \<not> ends_with path [CHR 0x22] \<or> CHR 0x22 \<in> set (butlast (tl path)) then None
      else unescape (butlast (tl path)))"

subsection \<open>Hunks\<close>

record parsed_hunk =
  h_path :: "string option"
  h_old_path :: "string option"
  context_lines :: nat
  deletions :: nat
  additions :: nat

record parsed_diff =
  paths :: "string list"
  old_paths :: "string list"
  added_lines :: nat
  hunks :: "parsed_hunk list"

record open_hunk =
  o_path :: "string option"
  o_old_path :: "string option"
  old_count :: nat
  new_count :: nat
  o_context :: nat
  o_deletions :: nat
  o_additions :: nat

definition hunk_complete :: "open_hunk \<Rightarrow> bool" where
  "hunk_complete h =
     (o_context h + o_deletions h = old_count h \<and> o_context h + o_additions h = new_count h)"

definition to_parsed :: "open_hunk \<Rightarrow> parsed_hunk" where
  "to_parsed h =
     \<lparr>h_path = o_path h, h_old_path = o_old_path h, context_lines = o_context h, deletions = o_deletions h,
      additions = o_additions h\<rparr>"

definition consume_hunk_line :: "open_hunk \<Rightarrow> string \<Rightarrow> patch_error + (open_hunk \<times> nat)" where
  "consume_hunk_line h line =
     (let c = take 1 line in
      if c = [CHR 0x5C] then Inr (h, 0)
      else if c = [] \<or> c = '' '' then Inr (h\<lparr>o_context := o_context h + 1\<rparr>, 0)
      else if c = ''-'' then Inr (h\<lparr>o_deletions := o_deletions h + 1\<rparr>, 0)
      else if c = ''+'' then Inr (h\<lparr>o_additions := o_additions h + 1\<rparr>, 1)
      else Inl (PatchFormat ''malformed diff: unexpected hunk body line''))"

text \<open>
  The header \<open>@@ -a,b +c,d @@\<close>.  A count is read with \<open>int\<close>, which refuses more than 4300 digits with an
  exception of its own.
\<close>

definition digits_of :: "string \<Rightarrow> string \<times> string" where
  "digits_of s = (takeWhile is_digit s, dropWhile is_digit s)"

definition range_at :: "string \<Rightarrow> (string option \<times> string) option" where
  "range_at s =
     (case digits_of s of (start, rest) \<Rightarrow>
        if start = [] then None
        else (case rest of
                c # cs \<Rightarrow>
                  if c = CHR '','' then
                    (case digits_of cs of (count, rest') \<Rightarrow> if count = [] then None else Some (Some count, rest'))
                  else Some (None, rest)
              | [] \<Rightarrow> Some (None, [])))"

definition hunk_header :: "string \<Rightarrow> (string option \<times> string option) option" where
  "hunk_header line =
     (if \<not> starts_with line ''@@ -'' then None
      else case range_at (drop 4 line) of
        None \<Rightarrow> None
      | Some (old, rest) \<Rightarrow>
          if \<not> starts_with rest '' +'' then None
          else (case range_at (drop 2 rest) of
                  None \<Rightarrow> None
                | Some (new, rest) \<Rightarrow> if starts_with rest '' @@'' then Some (old, new) else None))"

definition INT_DIGITS :: nat where
  "INT_DIGITS = 4300"

definition decimal :: "string \<Rightarrow> nat" where
  "decimal ds = fold (\<lambda>d n. 10 * n + (of_char d - 48)) ds 0"

definition count_of :: "string option \<Rightarrow> patch_error + nat" where
  "count_of ds =
     (case ds of
        None \<Rightarrow> Inr 1
      | Some d \<Rightarrow> if length d > INT_DIGITS then Inl IntTooLong else Inr (decimal d))"

subsection \<open>The loop\<close>

record parse_state =
  ps_paths :: "string list"
  ps_old_paths :: "string list"
  ps_hunks :: "parsed_hunk list"
  ps_added :: nat
  pending_minus :: bool
  file_open :: bool
  hunks_seen :: bool
  cur_path :: "string option"
  cur_old_path :: "string option"
  ps_open :: "open_hunk option"

definition parse_start :: parse_state where
  "parse_start =
     \<lparr>ps_paths = [], ps_old_paths = [], ps_hunks = [], ps_added = 0, pending_minus = False, file_open = False,
      hunks_seen = False, cur_path = None, cur_old_path = None, ps_open = None\<rparr>"

definition malformed :: "string \<Rightarrow> patch_error" where
  "malformed what = PatchFormat (''malformed diff: '' @ what)"

definition removeprefix :: "string \<Rightarrow> string \<Rightarrow> string" where
  "removeprefix pre s = (if starts_with s pre then drop (length pre) s else s)"

text \<open>The name in a header line: up to the first tab, unquoted; \<open>/dev/null\<close> names no file.\<close>

definition header_name :: "string \<Rightarrow> string \<Rightarrow> patch_error + string option" where
  "header_name side line =
     (case c_unquote (fst (partition_at CHR 0x09 (drop 4 line))) of
        None \<Rightarrow> Inl (malformed ''unparseable quoted path'')
      | Some name \<Rightarrow> Inr (if name = ''/dev/null'' then None else Some (removeprefix side name)))"

definition close_hunk :: "open_hunk \<Rightarrow> parse_state \<Rightarrow> parse_state" where
  "close_hunk h s =
     (if hunk_complete h then s\<lparr>ps_hunks := ps_hunks s @ [to_parsed h], ps_open := None\<rparr> else s\<lparr>ps_open := Some h\<rparr>)"

definition incomplete_block :: "parse_state \<Rightarrow> bool" where
  "incomplete_block s = (pending_minus s \<or> (file_open s \<and> \<not> hunks_seen s))"

definition minus_header :: "string \<Rightarrow> parse_state \<Rightarrow> patch_error + parse_state" where
  "minus_header line s =
     (if incomplete_block s then Inl (malformed ''incomplete file block'')
      else bindE (header_name ''a/'' line) (\<lambda>name.
        Inr (s\<lparr>pending_minus := True, file_open := False, hunks_seen := False, cur_old_path := name,
               ps_old_paths := ps_old_paths s @ (case name of None \<Rightarrow> [] | Some n \<Rightarrow> [n])\<rparr>)))"

definition plus_header :: "string \<Rightarrow> parse_state \<Rightarrow> patch_error + parse_state" where
  "plus_header line s =
     (if \<not> pending_minus s then Inl (malformed ''+++ header without a preceding --- header'')
      else bindE (header_name ''b/'' line) (\<lambda>name.
        Inr (s\<lparr>pending_minus := False, file_open := True, hunks_seen := False, cur_path := name,
               ps_paths := ps_paths s @ (case name of None \<Rightarrow> [] | Some n \<Rightarrow> [n])\<rparr>)))"

definition open_at :: "string \<Rightarrow> parse_state \<Rightarrow> patch_error + parse_state" where
  "open_at line s =
     (if \<not> file_open s then Inl (malformed ''hunk header outside a file block'')
      else case hunk_header line of
        None \<Rightarrow> Inl (malformed ''unparseable hunk header'')
      | Some (old, new) \<Rightarrow>
          bindE (count_of old) (\<lambda>o'.
          bindE (count_of new) (\<lambda>n'.
            Inr (close_hunk \<lparr>o_path = cur_path s, o_old_path = cur_old_path s, old_count = o', new_count = n',
                             o_context = 0, o_deletions = 0, o_additions = 0\<rparr> (s\<lparr>hunks_seen := True\<rparr>)))))"

definition parse_line :: "string \<Rightarrow> parse_state \<Rightarrow> patch_error + parse_state" where
  "parse_line line s =
     (case ps_open s of
        Some h \<Rightarrow>
          bindE (consume_hunk_line h line) (\<lambda>(h, n). Inr (close_hunk h (s\<lparr>ps_added := ps_added s + n\<rparr>)))
      | None \<Rightarrow>
          if starts_with line ''--- '' then minus_header line s
          else if starts_with line ''+++ '' then plus_header line s
          else if starts_with line ''@@'' then open_at line s
          else if starts_with line [CHR 0x5C] then Inr s
          else Inl (malformed ''body line outside any hunk''))"

definition parse_end :: "parse_state \<Rightarrow> patch_error + parsed_diff" where
  "parse_end s =
     (if incomplete_block s then Inl (malformed ''incomplete file block'')
      else if ps_open s \<noteq> None then Inl (malformed ''hunk supplies fewer lines than its header declares'')
      else Inr \<lparr>paths = ps_paths s, old_paths = ps_old_paths s, added_lines = ps_added s, hunks = ps_hunks s\<rparr>)"

definition diff_lines :: "string \<Rightarrow> string list" where
  "diff_lines text = (let ls = split_on CHR 0x0A text in if last ls = [] then butlast ls else ls)"

definition parse_unified_diff :: "pyval \<Rightarrow> patch_error + parsed_diff" where
  "parse_unified_diff v =
     (case v of
        PStr text \<Rightarrow> bindE (foldE parse_line (diff_lines text) parse_start) parse_end
      | _ \<Rightarrow> Inl (malformed ''diff text must be a string''))"


subsection \<open>The grammar\<close>

text \<open>The lines of a hunk that still owes \<open>o\<close> old and \<open>n\<close> new lines, with its context, deletions and additions.\<close>

abbreviation is_marker :: "string \<Rightarrow> bool" where
  "is_marker l \<equiv> starts_with l [CHR 0x5C]"

inductive hunk_body :: "nat \<Rightarrow> nat \<Rightarrow> string list \<Rightarrow> nat \<Rightarrow> nat \<Rightarrow> nat \<Rightarrow> bool" where
  body_done: "hunk_body 0 0 [] 0 0 0"
| body_marker: "o' + n > 0 \<Longrightarrow> is_marker l \<Longrightarrow> hunk_body o' n ls c d a \<Longrightarrow> hunk_body o' n (l # ls) c d a"
| body_context: "take 1 l \<in> {[], '' ''} \<Longrightarrow> hunk_body o' n ls c d a \<Longrightarrow> hunk_body (Suc o') (Suc n) (l # ls) (Suc c) d a"
| body_deletion: "take 1 l = ''-'' \<Longrightarrow> hunk_body o' n ls c d a \<Longrightarrow> hunk_body (Suc o') n (l # ls) c (Suc d) a"
| body_addition: "take 1 l = ''+'' \<Longrightarrow> hunk_body o' n ls c d a \<Longrightarrow> hunk_body o' (Suc n) (l # ls) c d (Suc a)"

type_synonym hunk_counts = "nat \<times> nat \<times> nat"

inductive file_hunks :: "string list \<Rightarrow> hunk_counts list \<Rightarrow> bool" where
  hunks_none: "file_hunks [] []"
| hunks_marker: "is_marker l \<Longrightarrow> file_hunks ls hs \<Longrightarrow> file_hunks (l # ls) hs"
| hunks_hunk: "hunk_header l = Some (old, new) \<Longrightarrow> count_of old = Inr o' \<Longrightarrow> count_of new = Inr n \<Longrightarrow>
    hunk_body o' n b c d a \<Longrightarrow> file_hunks ls hs \<Longrightarrow> file_hunks (l # b @ ls) ((c, d, a) # hs)"

type_synonym file_diff = "string option \<times> string option \<times> hunk_counts list"

inductive file_blocks :: "string list \<Rightarrow> file_diff list \<Rightarrow> bool" where
  blocks_none: "file_blocks [] []"
| blocks_marker: "is_marker l \<Longrightarrow> file_blocks ls fs \<Longrightarrow> file_blocks (l # ls) fs"
| blocks_block: "starts_with m ''--- '' \<Longrightarrow> header_name ''a/'' m = Inr old \<Longrightarrow> list_all is_marker ms \<Longrightarrow>
    starts_with p ''+++ '' \<Longrightarrow> header_name ''b/'' p = Inr new \<Longrightarrow> file_hunks hl hs \<Longrightarrow> hs \<noteq> [] \<Longrightarrow> file_blocks ls fs \<Longrightarrow>
    file_blocks (m # ms @ p # hl @ ls) ((old, new, hs) # fs)"

text \<open>What the blocks say of the files: the structure the parser is to answer.\<close>

definition hunk_of :: "string option \<Rightarrow> string option \<Rightarrow> hunk_counts \<Rightarrow> parsed_hunk" where
  "hunk_of new old h = (case h of (c, d, a) \<Rightarrow>
     \<lparr>h_path = new, h_old_path = old, context_lines = c, deletions = d, additions = a\<rparr>)"

definition added_by :: "hunk_counts list \<Rightarrow> nat" where
  "added_by hs = sum_list (map (\<lambda>(c, d, a). a) hs)"

definition summary_of :: "file_diff list \<Rightarrow> parsed_diff" where
  "summary_of fs =
     \<lparr>paths = List.map_filter (\<lambda>(old, new, hs). new) fs, old_paths = List.map_filter (\<lambda>(old, new, hs). old) fs,
      added_lines = sum_list (map (\<lambda>(old, new, hs). added_by hs) fs),
      hunks = concat (map (\<lambda>(old, new, hs). map (hunk_of new old) hs) fs)\<rparr>"

subsection \<open>The loop follows the grammar\<close>

definition parse_from :: "parse_state \<Rightarrow> string list \<Rightarrow> patch_error + parsed_diff" where
  "parse_from s ls = bindE (foldE parse_line ls s) parse_end"

lemma parse_from_simps [simp]:
  "parse_from s [] = parse_end s"
  "parse_from s (l # ls) = bindE (parse_line l s) (\<lambda>s. parse_from s ls)"
  by (auto simp: parse_from_def bindE_def split: sum.split)

definition add_hunks :: "hunk_counts list \<Rightarrow> parse_state \<Rightarrow> parse_state" where
  "add_hunks hs s =
     s\<lparr>ps_hunks := ps_hunks s @ map (hunk_of (cur_path s) (cur_old_path s)) hs, ps_added := ps_added s + added_by hs,
       hunks_seen := (hunks_seen s \<or> hs \<noteq> [])\<rparr>"

definition open_file :: "string option \<Rightarrow> string option \<Rightarrow> parse_state \<Rightarrow> parse_state" where
  "open_file old new s =
     s\<lparr>cur_old_path := old, ps_old_paths := ps_old_paths s @ (case old of None \<Rightarrow> [] | Some n \<Rightarrow> [n]),
       pending_minus := False, file_open := True, hunks_seen := False, cur_path := new,
       ps_paths := ps_paths s @ (case new of None \<Rightarrow> [] | Some n \<Rightarrow> [n])\<rparr>"

text \<open>A hunk under way: \<open>h\<close> owes \<open>o\<close> and \<open>n\<close> lines.\<close>

definition owes :: "open_hunk \<Rightarrow> nat \<Rightarrow> nat \<Rightarrow> bool" where
  "owes h o' n \<longleftrightarrow> o_context h + o_deletions h + o' = old_count h \<and> o_context h + o_additions h + n = new_count h"

definition finish_hunk :: "open_hunk \<Rightarrow> hunk_counts \<Rightarrow> parse_state \<Rightarrow> parse_state" where
  "finish_hunk h r s = (case r of (c, d, a) \<Rightarrow>
     s\<lparr>ps_hunks := ps_hunks s @ [hunk_of (o_path h) (o_old_path h) (o_context h + c, o_deletions h + d, o_additions h + a)],
       ps_added := ps_added s + a, ps_open := None\<rparr>)"

lemma owes_done: "owes h 0 0 \<longleftrightarrow> hunk_complete h"
  by (auto simp: owes_def hunk_complete_def)

lemma close_complete: "hunk_complete h \<Longrightarrow> close_hunk h s = finish_hunk h (0, 0, 0) s"
  by (simp add: close_hunk_def finish_hunk_def hunk_of_def to_parsed_def)

lemma consume_cases:
  assumes "consume_hunk_line h l = Inr (h', k)"
  obtains (marker) "is_marker l" "h' = h" "k = 0"
  | (context_line) "take 1 l \<in> {[], '' ''}" "h' = h\<lparr>o_context := o_context h + 1\<rparr>" "k = 0"
  | (deletion) "take 1 l = ''-''" "h' = h\<lparr>o_deletions := o_deletions h + 1\<rparr>" "k = 0"
  | (addition) "take 1 l = ''+''" "h' = h\<lparr>o_additions := o_additions h + 1\<rparr>" "k = 1"
  using assms by (auto simp: consume_hunk_line_def Let_def starts_with_def split: if_splits)

lemma starts_with_take: "starts_with l [c] \<longleftrightarrow> take 1 l = [c]"
  by (cases l) (auto simp: starts_with_def)

lemma close_hunk_reopened [simp]: "close_hunk h (s\<lparr>ps_open := v\<rparr>) = close_hunk h s"
  by (simp add: close_hunk_def)

lemma close_owing: "owes h o' n \<Longrightarrow> o' + n > 0 \<Longrightarrow> close_hunk h s = s\<lparr>ps_open := Some h\<rparr>"
  by (auto simp: close_hunk_def owes_done [symmetric] owes_def)

text \<open>The loop runs through the body of a hunk.\<close>

lemma body_runs:
  assumes "hunk_body o' n b c d a" "owes h o' n"
  shows "parse_from (close_hunk h s) (b @ ls) = parse_from (finish_hunk h (c, d, a) s) ls"
  using assms
proof (induction arbitrary: h s rule: hunk_body.induct)
  case body_done
  then show ?case by (simp add: owes_done close_complete)
next
  case (body_marker o' n l lns c d a)
  have "parse_line l (s\<lparr>ps_open := Some h\<rparr>) = Inr (close_hunk h s)"
    using body_marker.hyps by (simp add: parse_line_def consume_hunk_line_def starts_with_take Let_def)
  with body_marker.IH [OF body_marker.prems, of s] close_owing [OF body_marker.prems body_marker.hyps(1), of s] show ?case
    by simp
next
  case (body_context l o' n lns c d a)
  let ?h = "h\<lparr>o_context := Suc (o_context h)\<rparr>"
  have o: "owes ?h o' n" using body_context.prems by (simp add: owes_def)
  have l: "parse_line l (s\<lparr>ps_open := Some h\<rparr>) = Inr (close_hunk ?h s)"
    using body_context.hyps by (auto simp: parse_line_def consume_hunk_line_def Let_def close_hunk_def)
  have f: "finish_hunk ?h (c, d, a) s = finish_hunk h (Suc c, d, a) s"
    by (simp add: finish_hunk_def)
  show ?case
    using body_context.IH [OF o, of "s"] by (simp add: close_owing [OF body_context.prems] l f)
next
  case (body_deletion l o' n lns c d a)
  let ?h = "h\<lparr>o_deletions := Suc (o_deletions h)\<rparr>"
  have o: "owes ?h o' n" using body_deletion.prems by (simp add: owes_def)
  have l: "parse_line l (s\<lparr>ps_open := Some h\<rparr>) = Inr (close_hunk ?h s)"
    using body_deletion.hyps by (auto simp: parse_line_def consume_hunk_line_def Let_def close_hunk_def)
  have f: "finish_hunk ?h (c, d, a) s = finish_hunk h (c, Suc d, a) s"
    by (simp add: finish_hunk_def)
  show ?case
    using body_deletion.IH [OF o, of "s"] by (simp add: close_owing [OF body_deletion.prems] l f)
next
  case (body_addition l o' n lns c d a)
  let ?h = "h\<lparr>o_additions := Suc (o_additions h)\<rparr>"
  have o: "owes ?h o' n" using body_addition.prems by (simp add: owes_def)
  have l: "parse_line l (s\<lparr>ps_open := Some h\<rparr>) = Inr (close_hunk ?h (s\<lparr>ps_added := Suc (ps_added s)\<rparr>))"
    using body_addition.hyps by (auto simp: parse_line_def consume_hunk_line_def Let_def close_hunk_def)
  have f: "finish_hunk ?h (c, d, a) (s\<lparr>ps_added := Suc (ps_added s)\<rparr>) = finish_hunk h (c, d, Suc a) s"
    by (simp add: finish_hunk_def)
  show ?case
    using body_addition.IH [OF o, of "(s\<lparr>ps_added := Suc (ps_added s)\<rparr>)"] by (simp add: close_owing [OF body_addition.prems] l f)
qed

definition overrun :: "open_hunk \<Rightarrow> bool" where
  "overrun h \<longleftrightarrow> o_context h + o_deletions h > old_count h \<or> o_context h + o_additions h > new_count h"

lemma overrun_fails: "overrun h \<Longrightarrow> parse_from (close_hunk h s) ls \<noteq> Inr r"
proof (induction ls arbitrary: h s)
  case Nil
  then have "\<not> hunk_complete h" by (auto simp: overrun_def hunk_complete_def)
  then show ?case by (simp add: close_hunk_def parse_end_def)
next
  case (Cons l ls)
  then have "\<not> hunk_complete h" by (auto simp: overrun_def hunk_complete_def)
  then have "close_hunk h s = s\<lparr>ps_open := Some h\<rparr>" by (simp add: close_hunk_def)
  moreover have "overrun h'" if "consume_hunk_line h l = Inr (h', k)" for h' k
    using Cons.prems that by (auto elim!: consume_cases simp: overrun_def)
  ultimately show ?case
    using Cons.IH by (auto simp: parse_line_def bindE_Inr_iff)
qed

text \<open>Conversely a run that ends well out of a hunk has run through a body.\<close>

lemma run_is_body:
  assumes "parse_from (close_hunk h s) ls = Inr r" "owes h o' n"
  shows "\<exists>b c d a rest. ls = b @ rest \<and> hunk_body o' n b c d a \<and> parse_from (finish_hunk h (c, d, a) s) rest = Inr r"
  using assms
proof (induction ls arbitrary: h s o' n)
  case Nil
  have "o' = 0 \<and> n = 0"
  proof (rule ccontr)
    assume "\<not> (o' = 0 \<and> n = 0)"
    then have "close_hunk h s = s\<lparr>ps_open := Some h\<rparr>" using close_owing [OF Nil.prems(2)] by simp
    with Nil.prems(1) show False by (auto simp: parse_end_def split: if_splits)
  qed
  with Nil show ?case
    by (auto simp: owes_done close_complete intro: body_done)
next
  case (Cons l ls)
  show ?case
  proof (cases "o' + n = 0")
    case True
    with Cons.prems show ?thesis
      using body_done by (fastforce simp: owes_done close_complete)
  next
    case False
    then have "close_hunk h s = s\<lparr>ps_open := Some h\<rparr>" using close_owing [OF Cons.prems(2)] by simp
    with Cons.prems(1) obtain h' k where c: "consume_hunk_line h l = Inr (h', k)"
      and run: "parse_from (close_hunk h' (s\<lparr>ps_added := ps_added s + k\<rparr>)) ls = Inr r"
      by (auto simp: parse_line_def bindE_Inr_iff close_hunk_def split: if_splits)
    have step: "\<exists>b c d a rest. l # ls = b @ rest \<and> hunk_body o' n b c d a \<and> parse_from (finish_hunk h (c, d, a) s) rest = Inr r"
      if "owes h' o1 n1" and "\<And>b c d a. hunk_body o1 n1 b c d a \<Longrightarrow> \<exists>c' d' a'. hunk_body o' n (l # b) c' d' a' \<and>
        finish_hunk h (c', d', a') s = finish_hunk h' (c, d, a) (s\<lparr>ps_added := ps_added s + k\<rparr>)" for o1 n1
    proof -
      from Cons.IH [OF run that(1)] obtain b c d a rest where "ls = b @ rest" "hunk_body o1 n1 b c d a"
        "parse_from (finish_hunk h' (c, d, a) (s\<lparr>ps_added := ps_added s + k\<rparr>)) rest = Inr r" by blast
      with that(2) [of b c d a] show ?thesis by (metis append_Cons)
    qed
    have within: "\<not> overrun h'" using overrun_fails run by blast
    from c show ?thesis
    proof (cases rule: consume_cases)
      case marker
      with False show ?thesis using Cons.prems(2) by (intro step [of o' n]) (auto intro: body_marker)
    next
      case context_line
      with within Cons.prems(2) obtain o1 n1 where "o' = Suc o1" "n = Suc n1"
        by (cases o'; cases n) (auto simp: owes_def overrun_def)
      with context_line show ?thesis using Cons.prems(2)
        by (intro step [of o1 n1]) (auto simp: owes_def finish_hunk_def intro!: exI body_context)
    next
      case deletion
      with within Cons.prems(2) obtain o1 where "o' = Suc o1"
        by (cases o') (auto simp: owes_def overrun_def)
      with deletion show ?thesis using Cons.prems(2)
        by (intro step [of o1 n]) (auto simp: owes_def finish_hunk_def intro!: exI body_deletion)
    next
      case addition
      with within Cons.prems(2) obtain n1 where "n = Suc n1"
        by (cases n) (auto simp: owes_def overrun_def)
      with addition show ?thesis using Cons.prems(2)
        by (intro step [of o' n1]) (auto simp: owes_def finish_hunk_def intro!: exI body_addition)
    qed
  qed
qed

text \<open>Hunks of one file, after its headers.\<close>

lemma add_hunks_none [simp]: "add_hunks [] s = s"
  by (simp add: add_hunks_def added_by_def)

lemma add_hunks_fields [simp]:
  "ps_open (add_hunks hs s) = ps_open s" "file_open (add_hunks hs s) = file_open s"
  "pending_minus (add_hunks hs s) = pending_minus s" "hunks_seen (add_hunks hs s) = (hunks_seen s \<or> hs \<noteq> [])"
  "cur_path (add_hunks hs s) = cur_path s" "cur_old_path (add_hunks hs s) = cur_old_path s"
  by (simp_all add: add_hunks_def)

lemma add_hunks_cons:
  "ps_open s = None \<Longrightarrow> add_hunks hs (add_hunks [h] s) = add_hunks (h # hs) s"
  by (simp add: add_hunks_def added_by_def split: prod.splits)

lemma header_starts: "hunk_header l = Some x \<Longrightarrow> starts_with l ''@@''"
proof -
  assume "hunk_header l = Some x"
  then have "starts_with l (''@@'' @ '' -'')" by (auto simp: hunk_header_def split: if_splits)
  then show ?thesis by (cases l; cases "tl l") (auto simp: starts_with_def)
qed

lemma header_kinds:
  "starts_with l ''@@'' \<Longrightarrow> \<not> starts_with l ''--- '' \<and> \<not> starts_with l ''+++ '' \<and> \<not> is_marker l"
  "is_marker l \<Longrightarrow> \<not> starts_with l ''--- '' \<and> \<not> starts_with l ''+++ '' \<and> \<not> starts_with l ''@@''"
  "starts_with l ''+++ '' \<Longrightarrow> \<not> starts_with l ''--- ''"
  by (cases l; auto simp: starts_with_def)+

lemma marker_line: "ps_open s = None \<Longrightarrow> is_marker l \<Longrightarrow> parse_line l s = Inr s"
  by (simp add: parse_line_def header_kinds)

lemma marker_lines:
  "ps_open s = None \<Longrightarrow> list_all is_marker ms \<Longrightarrow> parse_from s (ms @ ls) = parse_from s ls"
  by (induction ms) (auto simp: marker_line)

definition hunk_start :: "parse_state \<Rightarrow> nat \<Rightarrow> nat \<Rightarrow> open_hunk" where
  "hunk_start s o' n =
     \<lparr>o_path = cur_path s, o_old_path = cur_old_path s, old_count = o', new_count = n, o_context = 0, o_deletions = 0,
      o_additions = 0\<rparr>"

lemma hunk_start_owes: "owes (hunk_start s o' n) o' n"
  by (simp add: owes_def hunk_start_def)

lemma open_line:
  assumes "ps_open s = None" "starts_with l ''@@''"
  shows "parse_line l s = Inr t \<longleftrightarrow> file_open s \<and> (\<exists>old new o' n. hunk_header l = Some (old, new) \<and> count_of old = Inr o' \<and>
    count_of new = Inr n \<and> t = close_hunk (hunk_start s o' n) (s\<lparr>hunks_seen := True\<rparr>))"
  using assms by (auto simp: parse_line_def header_kinds open_at_def bindE_Inr_iff hunk_start_def split: option.splits)

lemma finish_start:
  "ps_open s = None \<Longrightarrow> finish_hunk (hunk_start s o' n) h (s\<lparr>hunks_seen := True\<rparr>) = add_hunks [h] s"
  by (auto simp: finish_hunk_def hunk_start_def add_hunks_def added_by_def split: prod.splits)

lemma hunks_run:
  assumes "file_hunks hl hs" "ps_open s = None" "hs \<noteq> [] \<longrightarrow> file_open s"
  shows "parse_from s (hl @ ls) = parse_from (add_hunks hs s) ls"
  using assms
proof (induction arbitrary: s rule: file_hunks.induct)
  case (hunks_hunk l old new o' n b c d a hl hs)
  have "parse_line l s = Inr (close_hunk (hunk_start s o' n) (s\<lparr>hunks_seen := True\<rparr>))"
    using hunks_hunk header_starts by (simp add: open_line)
  with body_runs [OF hunks_hunk.hyps(4) hunk_start_owes] hunks_hunk.IH [of "add_hunks [(c, d, a)] s"] hunks_hunk.prems
  show ?case by (simp add: finish_start add_hunks_cons)
qed (auto simp: marker_line)

text \<open>Whole files.\<close>

definition total :: "parse_state \<Rightarrow> parsed_diff" where
  "total s = \<lparr>paths = ps_paths s, old_paths = ps_old_paths s, added_lines = ps_added s, hunks = ps_hunks s\<rparr>"

definition join_diffs :: "parsed_diff \<Rightarrow> parsed_diff \<Rightarrow> parsed_diff" where
  "join_diffs d e = \<lparr>paths = paths d @ paths e, old_paths = old_paths d @ old_paths e,
     added_lines = added_lines d + added_lines e, hunks = hunks d @ hunks e\<rparr>"

abbreviation idle :: "parse_state \<Rightarrow> bool" where
  "idle s \<equiv> ps_open s = None \<and> \<not> incomplete_block s"

lemma idle_end: "idle s \<Longrightarrow> parse_end s = Inr (total s)"
  by (simp add: parse_end_def total_def)

lemma join_nothing [simp]: "join_diffs (total s) (summary_of []) = total s"
  by (simp add: join_diffs_def summary_of_def total_def map_filter_def)

lemma join_file:
  "join_diffs (total (add_hunks hs (open_file old new s))) (summary_of fs) =
   join_diffs (total s) (summary_of ((old, new, hs) # fs))"
  by (cases old; cases new)
    (auto simp: join_diffs_def total_def summary_of_def add_hunks_def open_file_def map_filter_def)

lemma headers_open:
  assumes "idle s" "starts_with m ''--- ''" "header_name ''a/'' m = Inr old" "list_all is_marker ms"
    and "starts_with p ''+++ ''" "header_name ''b/'' p = Inr new"
  shows "parse_from s (m # ms @ p # ls) = parse_from (open_file old new s) ls"
  using assms by (simp add: parse_line_def minus_header_def marker_lines header_kinds plus_header_def open_file_def)

lemma opened_idle: "ps_open s = None \<Longrightarrow> hs \<noteq> [] \<Longrightarrow> idle (add_hunks hs (open_file old new s))"
  by (simp add: incomplete_block_def open_file_def)

lemma blocks_run:
  assumes "file_blocks ls fs" "idle s"
  shows "parse_from s ls = Inr (join_diffs (total s) (summary_of fs))"
  using assms
proof (induction arbitrary: s rule: file_blocks.induct)
  case (blocks_block m old ms p new hl hs ls fs)
  have "parse_from s (m # ms @ p # hl @ ls) = parse_from (add_hunks hs (open_file old new s)) ls"
    using hunks_run [OF blocks_block.hyps(6), of "open_file old new s" ls] headers_open [OF blocks_block.prems blocks_block.hyps(1-5)]
      blocks_block.prems by (simp add: open_file_def)
  with blocks_block.IH [OF opened_idle] blocks_block show ?case by (simp add: join_file)
qed (auto simp: idle_end marker_line)

lemma run_is_hunks:
  assumes "parse_from s ls = Inr r" "ps_open s = None" "\<not> pending_minus s"
  shows "\<exists>hl hs rest. ls = hl @ rest \<and> file_hunks hl hs \<and> (hs \<noteq> [] \<longrightarrow> file_open s) \<and>
    parse_from (add_hunks hs s) rest = Inr r \<and> idle (add_hunks hs s) \<and> (rest = [] \<or> starts_with (hd rest) ''--- '')"
  using assms
proof (induction "length ls" arbitrary: ls s rule: less_induct)
  case less
  show ?case
  proof (cases ls)
    case Nil
    with less.prems have "idle s" by (auto simp: parse_end_def split: if_splits)
    with Nil less.prems show ?thesis
      by (intro exI [of _ "[]"] exI [of _ "[]"] exI [of _ "[]"]) (simp add: hunks_none)
  next
    case (Cons l ls')
    with less.prems(1) obtain s' where s': "parse_line l s = Inr s'" "parse_from s' ls' = Inr r"
      by (auto simp: bindE_Inr_iff)
    consider (minus) "starts_with l ''--- ''" | (hunk) "starts_with l ''@@''" | (mark) "is_marker l" "s' = s"
      using s'(1) less.prems(2,3) by (auto simp: parse_line_def plus_header_def split: if_splits)
    then show ?thesis
    proof cases
      case minus
      with s'(1) less.prems(2) have "idle s" by (auto simp: parse_line_def minus_header_def split: if_splits)
      with minus Cons less.prems show ?thesis
        by (intro exI [of _ "[]"] exI [of _ "[]"] exI [of _ ls]) (simp add: hunks_none)
    next
      case hunk
      from s'(1) obtain old new o' n where h: "file_open s" "hunk_header l = Some (old, new)" "count_of old = Inr o'"
        "count_of new = Inr n" "s' = close_hunk (hunk_start s o' n) (s\<lparr>hunks_seen := True\<rparr>)"
        by (auto simp: open_line [OF less.prems(2) hunk])
      from run_is_body [OF s'(2) [unfolded h(5)] hunk_start_owes] obtain b c d a rest where b: "ls' = b @ rest"
        "hunk_body o' n b c d a" "parse_from (add_hunks [(c, d, a)] s) rest = Inr r"
        by (auto simp: finish_start [OF less.prems(2)])
      from less.hyps [OF _ b(3)] Cons b(1) less.prems obtain hl hs rest' where r: "rest = hl @ rest'" "file_hunks hl hs"
        "parse_from (add_hunks ((c, d, a) # hs) s) rest' = Inr r" "idle (add_hunks ((c, d, a) # hs) s)"
        "rest' = [] \<or> starts_with (hd rest') ''--- ''"
        by (auto simp: add_hunks_cons)
      with b(1,2) h Cons show ?thesis
        by (intro exI [of _ "l # b @ hl"] exI [of _ "(c, d, a) # hs"] exI [of _ rest']) (simp add: hunks_hunk)
    next
      case mark
      from less.hyps [OF _ s'(2)] Cons mark less.prems obtain hl hs rest' where r: "ls' = hl @ rest'" "file_hunks hl hs"
        "hs \<noteq> [] \<longrightarrow> file_open s" "parse_from (add_hunks hs s) rest' = Inr r" "idle (add_hunks hs s)"
        "rest' = [] \<or> starts_with (hd rest') ''--- ''"
        by auto
      with mark(1) Cons show ?thesis
        by (intro exI [of _ "l # hl"] exI [of _ hs] exI [of _ rest']) (simp add: hunks_marker)
    qed
  qed
qed

lemma run_is_plus:
  assumes "parse_from s ls = Inr r" "ps_open s = None" "pending_minus s" "\<not> file_open s"
  shows "\<exists>ms p rest s'. ls = ms @ p # rest \<and> list_all is_marker ms \<and> starts_with p ''+++ '' \<and> plus_header p s = Inr s' \<and>
    parse_from s' rest = Inr r"
  using assms
proof (induction ls)
  case Nil
  then show ?case by (simp add: parse_end_def incomplete_block_def)
next
  case (Cons l ls)
  then obtain s' where s': "parse_line l s = Inr s'" "parse_from s' ls = Inr r" by (auto simp: bindE_Inr_iff)
  consider (plus) "starts_with l ''+++ ''" "plus_header l s = Inr s'" | (mark) "is_marker l" "s' = s"
    using s'(1) Cons.prems(2-4) by (auto simp: parse_line_def minus_header_def open_at_def incomplete_block_def split: if_splits)
  then show ?case
  proof cases
    case plus
    with s'(2) show ?thesis by (intro exI [of _ "[]"] exI [of _ l] exI [of _ ls] exI [of _ s']) simp
  next
    case mark
    with Cons s'(2) obtain ms p rest t where "ls = ms @ p # rest" "list_all is_marker ms" "starts_with p ''+++ ''"
      "plus_header p s = Inr t" "parse_from t rest = Inr r" by auto
    with mark(1) show ?thesis by (intro exI [of _ "l # ms"] exI [of _ p] exI [of _ rest] exI [of _ t]) simp
  qed
qed

lemma run_is_blocks:
  assumes "parse_from s ls = Inr r" "idle s" "ls = [] \<or> starts_with (hd ls) ''--- ''"
  shows "\<exists>fs. file_blocks ls fs \<and> r = join_diffs (total s) (summary_of fs)"
  using assms
proof (induction "length ls" arbitrary: ls s rule: less_induct)
  case less
  show ?case
  proof (cases ls)
    case Nil
    with less.prems show ?thesis by (intro exI [of _ "[]"]) (auto simp: idle_end blocks_none)
  next
    case (Cons m ls')
    with less.prems have m: "starts_with m ''--- ''" by simp
    with less.prems Cons obtain old where old: "header_name ''a/'' m = Inr old"
      by (auto simp: bindE_Inr_iff parse_line_def minus_header_def)
    let ?s1 = "s\<lparr>pending_minus := True, file_open := False, hunks_seen := False, cur_old_path := old,
               ps_old_paths := ps_old_paths s @ (case old of None \<Rightarrow> [] | Some n \<Rightarrow> [n])\<rparr>"
    from less.prems Cons m old have "parse_from ?s1 ls' = Inr r"
      by (auto simp: parse_line_def minus_header_def)
    from run_is_plus [OF this] less.prems obtain ms p rest s2 where p: "ls' = ms @ p # rest" "list_all is_marker ms"
      "starts_with p ''+++ ''" "plus_header p ?s1 = Inr s2" "parse_from s2 rest = Inr r" by auto
    from p(4) obtain new where new: "header_name ''b/'' p = Inr new" by (auto simp: plus_header_def bindE_Inr_iff)
    have "parse_from s ls = parse_from (open_file old new s) rest"
      using headers_open [OF less.prems(2) m old p(2,3) new, of rest] p(1) Cons by simp
    with less.prems(1) have run: "parse_from (open_file old new s) rest = Inr r" by simp
    have o: "ps_open (open_file old new s) = None" "\<not> pending_minus (open_file old new s)"
      using less.prems(2) by (simp_all add: open_file_def)
    from run_is_hunks [OF run o] obtain hl hs rest' where h: "rest = hl @ rest'" "file_hunks hl hs"
      "parse_from (add_hunks hs (open_file old new s)) rest' = Inr r" "idle (add_hunks hs (open_file old new s))"
      "rest' = [] \<or> starts_with (hd rest') ''--- ''"
      by blast
    have hs: "hs \<noteq> []" using h(4) by (auto simp: incomplete_block_def open_file_def)
    have "length rest' < length ls" using Cons p(1) h(1) by simp
    from less.hyps [OF this h(3-5)] obtain fs where "file_blocks rest' fs"
      "r = join_diffs (total (add_hunks hs (open_file old new s))) (summary_of fs)" by blast
    with blocks_block [OF m old p(2,3) new h(2) hs] Cons p(1) h(1) show ?thesis
      by (intro exI [of _ "(old, new, hs) # fs"]) (simp add: join_file)
  qed
qed

lemma markers_only: "file_hunks hl hs \<Longrightarrow> hs = [] \<Longrightarrow> file_blocks ls fs \<Longrightarrow> file_blocks (hl @ ls) fs"
  by (induction rule: file_hunks.induct) (auto intro: blocks_marker)

lemma parse_start_idle: "idle parse_start" "total parse_start = summary_of []"
  by (simp_all add: parse_start_def incomplete_block_def total_def summary_of_def map_filter_def)

lemma join_start [simp]: "join_diffs (summary_of []) d = d"
  by (simp add: join_diffs_def summary_of_def map_filter_def)

lemma grammar_parses: "file_blocks (diff_lines text) fs \<Longrightarrow> parse_unified_diff (PStr text) = Inr (summary_of fs)"
  using blocks_run [OF _ parse_start_idle(1)]
  by (simp add: parse_unified_diff_def parse_from_def [symmetric] parse_start_idle)

lemma parses_grammar:
  assumes "parse_unified_diff v = Inr d"
  shows "\<exists>text fs. v = PStr text \<and> file_blocks (diff_lines text) fs \<and> d = summary_of fs"
proof -
  from assms obtain doc where v: "v = PStr doc" by (cases v) (auto simp: parse_unified_diff_def)
  with assms have run: "parse_from parse_start (diff_lines doc) = Inr d"
    by (simp add: parse_unified_diff_def parse_from_def)
  have "\<not> pending_minus parse_start" "\<not> file_open parse_start" by (simp_all add: parse_start_def)
  with run_is_hunks [OF run] parse_start_idle(1) obtain hl rest where h: "diff_lines doc = hl @ rest" "file_hunks hl []"
    "parse_from parse_start rest = Inr d" "rest = [] \<or> starts_with (hd rest) ''--- ''"
    by (metis add_hunks_none)
  from run_is_blocks [OF h(3) parse_start_idle(1) h(4)] obtain fs where "file_blocks rest fs" "d = summary_of fs"
    by (auto simp: parse_start_idle)
  with markers_only [OF h(2)] h(1) v show ?thesis by metis
qed

text \<open>Every hunk is one of a named file, on each side on which its file has a name.\<close>

lemma hunks_named:
  assumes "parse_unified_diff v = Inr d" "h \<in> set (hunks d)"
  shows "(\<forall>p. h_path h = Some p \<longrightarrow> p \<in> set (paths d)) \<and> (\<forall>p. h_old_path h = Some p \<longrightarrow> p \<in> set (old_paths d)) \<and>
    additions h \<le> added_lines d"
proof -
  from parses_grammar [OF assms(1)] obtain fs where d: "d = summary_of fs" by blast
  with assms(2) obtain old new hs c dl a where f: "(old, new, hs) \<in> set fs" "(c, dl, a) \<in> set hs"
    "h = hunk_of new old (c, dl, a)"
    by (auto simp: summary_of_def)
  have "a \<le> added_by hs" using f(2) member_le_sum_list [of a "map (\<lambda>(c, d, a). a) hs"] by (force simp: added_by_def)
  also have "\<dots> \<le> added_lines d"
    using f(1) member_le_sum_list [of "added_by hs" "map (\<lambda>(old, new, hs). added_by hs) fs"]
    by (force simp: d summary_of_def)
  finally show ?thesis
    using f by (fastforce simp: d summary_of_def hunk_of_def map_filter_def image_iff)
qed

text \<open>
  C9: The parser answers exactly the grammar: a text is accepted if and only if its lines are file blocks, each a
  pair of headers followed by hunks that have precisely the lines their headers count, and the answer is what those
  blocks say.
\<close>

theorem parser_is_grammar:
  "parse_unified_diff (PStr text) = Inr d \<longleftrightarrow> (\<exists>fs. file_blocks (diff_lines text) fs \<and> d = summary_of fs)"
  using parses_grammar [of "PStr text" d] grammar_parses by blast

end
