(* ===== verification/WorktreePatch.thy ===== *)
theory WorktreePatch
  imports PatchParse PlanApproval CallLog
begin

text \<open>
  Patches to the worktree of a stuck story: \<open>src/pipeline/worktree_patch.py\<close>, the path resolver it builds on
  (\<open>src/pipeline/workspace_fs.py\<close>) and its routes in \<open>src/app/dashboard.py\<close>.  A model may propose a diff, only a
  person may look at the stored record and apply it.  The file system, the digests, git and the text behind
  undecodable bytes are arguments; a path resolved by the system is the list of its components.
\<close>

subsection \<open>Paths that no patch may touch\<close>

definition DENIED_NAMES :: "string list" where
  "DENIED_NAMES = [''CLAUDE.md'', ''.mcp.json'', ''agent.log'', ''.agent_transcript.json'', ''.agent_plan.md'',
     ''.agent_scratchpad.md'']"

definition path_components :: "string \<Rightarrow> string list" where
  "path_components s = filter (\<lambda>c. c \<noteq> []) (split_on CHR ''/'' s)"

definition is_denied_relative_path :: "pyval \<Rightarrow> bool" where
  "is_denied_relative_path v =
     (case v of
        PStr s \<Rightarrow>
          let cs = path_components s in
          if cs = [] then True
          else list_ex (\<lambda>c. c = ''.git'' \<or> c = ''.claude'') cs \<or> list_ex (\<lambda>c. starts_with c ''.agent_log'') cs \<or>
               last cs \<in> set DENIED_NAMES
      | _ \<Rightarrow> True)"

subsection \<open>Resolving inside a workspace\<close>

datatype path_error = WorkspaceSecurity string | PatchSecurity string

text \<open>\<open>PurePosixPath(text).parts\<close> of a text that does not start with a slash.\<close>

definition relative_parts :: "string \<Rightarrow> string list" where
  "relative_parts s = filter (\<lambda>c. c \<notin> {[], ''.''}) (split_on CHR ''/'' s)"

text \<open>\<open>PureWindowsPath(text).is_absolute()\<close> of a text without backslashes that does not start with a slash.\<close>

definition windows_absolute :: "string \<Rightarrow> bool" where
  "windows_absolute s = (length s \<ge> 3 \<and> s ! 1 = CHR '':'' \<and> s ! 2 = CHR ''/'')"

definition path_control :: "char \<Rightarrow> bool" where
  "path_control c = ((of_char c :: nat) < 32 \<or> (of_char c :: nat) = 127)"

text \<open>
  NFKC leaves a component of characters below 256 with a separator, or with dots only, exactly if it had
  them before, so the check of the folded component is one of the component.
\<close>

definition unsafe_component :: "string \<Rightarrow> string option" where
  "unsafe_component c =
     (if c = ''..'' then Some ''relative path must not contain .. segments''
      else if CHR ''/'' \<in> set c \<or> CHR 0x5C \<in> set c then Some ''relative path must not contain separator look-alikes''
      else if c \<noteq> [] \<and> set c = {CHR ''.''} \<and> length c \<ge> 2 then Some ''relative path must not contain .. segments''
      else None)"

definition reject_unsafe_relative :: "string \<Rightarrow> path_error + unit" where
  "reject_unsafe_relative s =
     (if list_ex path_control s then Inl (WorkspaceSecurity ''relative path must not contain control characters'')
      else if CHR 0x5C \<in> set s then Inl (WorkspaceSecurity ''relative path must not contain backslash separators'')
      else if CHR 0x22 \<in> set s then Inl (WorkspaceSecurity ''relative path must not contain quote characters'')
      else if starts_with s ''/'' \<or> windows_absolute s then Inl (WorkspaceSecurity ''relative path must not be absolute'')
      else case List.map_filter unsafe_component (relative_parts s) of
             [] \<Rightarrow> Inr ()
           | msg # _ \<Rightarrow> Inl (WorkspaceSecurity msg))"

text \<open>\<open>urllib.parse.unquote\<close>: runs of ASCII are turned into bytes and decoded; bytes above 127 are \<open>other\<close>'s affair.\<close>

definition hex_digit :: "char \<Rightarrow> nat option" where
  "hex_digit c =
     (if is_digit c then Some (of_char c - 48)
      else if c \<in> set ''abcdef'' then Some (of_char c - 87)
      else if c \<in> set ''ABCDEF'' then Some (of_char c - 55) else None)"

fun percent_bytes :: "string \<Rightarrow> nat list" where
  "percent_bytes (p # a # b # cs) =
     (case (hex_digit a, hex_digit b) of
        (Some x, Some y) \<Rightarrow>
          if p = CHR ''%'' then (16 * x + y) # percent_bytes cs else of_char p # percent_bytes (a # b # cs)
      | _ \<Rightarrow> of_char p # percent_bytes (a # b # cs))"
| "percent_bytes (c # cs) = of_char c # percent_bytes cs"
| "percent_bytes [] = []"

definition decode_bytes :: "(nat list \<Rightarrow> string) \<Rightarrow> nat list \<Rightarrow> string" where
  "decode_bytes other bs = (if list_all (\<lambda>b. b < 128) bs then map char_of bs else other bs)"

definition is_ascii :: "char \<Rightarrow> bool" where
  "is_ascii c = ((of_char c :: nat) < 128)"

function unquote :: "(nat list \<Rightarrow> string) \<Rightarrow> string \<Rightarrow> string" where
  "unquote other [] = []"
| "unquote other (c # cs) =
     (if is_ascii c
      then decode_bytes other (percent_bytes (takeWhile is_ascii (c # cs))) @ unquote other (dropWhile is_ascii (c # cs))
      else c # unquote other cs)"
  by pat_completeness auto

termination unquote
  by (relation "measure (\<lambda>(_, s). length s)") (auto simp: less_Suc_eq_le length_dropWhile_le)

definition MAX_DECODE_PASSES :: nat where
  "MAX_DECODE_PASSES = 5"

fun decode_checks :: "(nat list \<Rightarrow> string) \<Rightarrow> nat \<Rightarrow> string \<Rightarrow> path_error + unit" where
  "decode_checks other 0 s = Inr ()"
| "decode_checks other (Suc k) s =
     (let t = unquote other s in
      if t = s then Inr () else bindE (reject_unsafe_relative t) (\<lambda>_. decode_checks other k t))"

text \<open>
  The file system: a base and a path under it resolved (\<open>None\<close> when that raises), a link at a spelled path and
  where it leads, whether something is there, and the roots patches keep out of.
\<close>

record fs_world =
  fw_root :: "string \<Rightarrow> string list option"
  fw_under :: "string list \<Rightarrow> string \<Rightarrow> string list option"
  fw_link :: "string \<Rightarrow> string list \<Rightarrow> bool"
  fw_exists :: "string \<Rightarrow> string list \<Rightarrow> bool"
  fw_lexists :: "string \<Rightarrow> string list \<Rightarrow> bool"
  fw_realpath :: "string \<Rightarrow> string list \<Rightarrow> string list option"
  fw_forbidden :: "string option list"
  fw_utf8 :: "nat list \<Rightarrow> string"

definition is_under :: "string list \<Rightarrow> string list \<Rightarrow> bool" where
  "is_under base path = (take (length base) path = base)"

definition path_text :: "string list \<Rightarrow> string" where
  "path_text cs = concat (map (\<lambda>c. CHR ''/'' # c) cs)"

definition checkable :: "'a option \<Rightarrow> path_error + 'a" where
  "checkable r = (case r of None \<Rightarrow> Inl (WorkspaceSecurity ''relative path could not be safety-checked'') | Some x \<Rightarrow> Inr x)"

text \<open>The walk of the read half over the components that exist.\<close>

fun read_walk :: "fs_world \<Rightarrow> string list \<Rightarrow> string list \<Rightarrow> string list \<Rightarrow> string list \<Rightarrow> path_error + unit" where
  "read_walk w base real_root at_path [] = Inr ()"
| "read_walk w base real_root at_path (c # cs) =
     (let here = at_path @ [c] in
      if fw_link w (path_text base) here then
        bindE (checkable (fw_realpath w (path_text base) here)) (\<lambda>target.
          if \<not> is_under real_root target then Inl (WorkspaceSecurity ''relative path escapes the workspace root'')
          else read_walk w base real_root here cs)
      else if \<not> fw_lexists w (path_text base) here then Inr ()
      else read_walk w base real_root here cs)"

definition resolve_within_workspace :: "fs_world \<Rightarrow> string \<Rightarrow> string \<Rightarrow> path_error + string list" where
  "resolve_within_workspace w root_text rel =
     (if strip root_text = [] then Inl (WorkspaceSecurity ''workspace root must be a non-empty string'')
      else if rel = [] then Inl (WorkspaceSecurity ''relative path must not be empty'')
      else bindE (reject_unsafe_relative rel) (\<lambda>_.
           bindE (decode_checks (fw_utf8 w) MAX_DECODE_PASSES rel) (\<lambda>_.
           bindE (checkable (fw_root w root_text)) (\<lambda>base.
           bindE (checkable (fw_under w base rel)) (\<lambda>candidate.
           if \<not> is_under base candidate then Inl (WorkspaceSecurity ''relative path escapes the workspace root'')
           else bindE (checkable (fw_realpath w (path_text base) [])) (\<lambda>real_root.
                bindE (read_walk w base real_root [] (relative_parts rel)) (\<lambda>_. Inr candidate)))))))"

text \<open>The write half: no link on the way, and out of the program's own directories.\<close>

fun write_walk :: "fs_world \<Rightarrow> string \<Rightarrow> string list \<Rightarrow> string list \<Rightarrow> path_error + unit" where
  "write_walk w root_text at_path [] = Inr ()"
| "write_walk w root_text at_path (c # cs) =
     (let here = at_path @ [c] in
      if fw_link w root_text here then Inl (PatchSecurity ''write target must not traverse a symlink'')
      else if \<not> fw_exists w root_text here then Inr ()
      else write_walk w root_text here cs)"

definition verifiable :: "'a option \<Rightarrow> path_error + 'a" where
  "verifiable r = (case r of None \<Rightarrow> Inl (PatchSecurity ''write target could not be safety-checked'') | Some x \<Rightarrow> Inr x)"

fun forbidden_checks :: "fs_world \<Rightarrow> string option list \<Rightarrow> string list \<Rightarrow> path_error + unit" where
  "forbidden_checks w [] resolved = Inr ()"
| "forbidden_checks w (None # rs) resolved = forbidden_checks w rs resolved"
| "forbidden_checks w (Some r # rs) resolved =
     bindE (verifiable (fw_root w r)) (\<lambda>base.
       if is_under base resolved then Inl (PatchSecurity ''write target must not resolve inside the pipeline'')
       else forbidden_checks w rs resolved)"

definition resolve_write_target :: "fs_world \<Rightarrow> string \<Rightarrow> string \<Rightarrow> path_error + string list" where
  "resolve_write_target w root_text rel =
     (if is_denied_relative_path (PStr rel) then Inl (PatchSecurity ''relative path is denied for patch writes'')
      else bindE (resolve_within_workspace w root_text rel) (\<lambda>resolved.
           bindE (write_walk w root_text [] (relative_parts rel)) (\<lambda>_.
           bindE (verifiable (fw_root w root_text)) (\<lambda>base.
           if \<not> is_under base resolved then Inl (PatchSecurity ''write target escapes the worktree root'')
           else bindE (forbidden_checks w (fw_forbidden w) resolved) (\<lambda>_. Inr resolved)))))"

subsection \<open>Proposing\<close>

definition MAX_DIFF_BYTES :: nat where "MAX_DIFF_BYTES = 65536"
definition MAX_PROPOSE_FILES :: nat where "MAX_PROPOSE_FILES = 5"
definition MAX_PROPOSE_ADDED_LINES :: nat where "MAX_PROPOSE_ADDED_LINES = 400"

datatype propose_error = BadFormat patch_error | BadPath path_error

text \<open>\<open>len(text.encode())\<close>: characters above 127 take two bytes.\<close>

definition utf8_length :: "string \<Rightarrow> nat" where
  "utf8_length s = sum_list (map (\<lambda>c. if is_ascii c then 1 else 2) s)"

definition lift_format :: "patch_error + 'a \<Rightarrow> propose_error + 'a" where
  "lift_format r = (case r of Inl e \<Rightarrow> Inl (BadFormat e) | Inr x \<Rightarrow> Inr x)"

definition lift_path :: "path_error + 'a \<Rightarrow> propose_error + 'a" where
  "lift_path r = (case r of Inl e \<Rightarrow> Inl (BadPath e) | Inr x \<Rightarrow> Inr x)"

definition whole_file_hunk :: "parsed_hunk \<Rightarrow> bool" where
  "whole_file_hunk h = (context_lines h = 0 \<and> deletions h > 0 \<and> additions h > 0)"

definition distinct_in_order :: "string list \<Rightarrow> string list" where
  "distinct_in_order xs = rev (remdups (rev xs))"

definition validate_for_propose :: "fs_world \<Rightarrow> pyval \<Rightarrow> string \<Rightarrow> propose_error + (string list \<times> nat)" where
  "validate_for_propose w v root_text =
     (case v of
        PStr doc \<Rightarrow>
          if utf8_length doc > MAX_DIFF_BYTES then Inl (BadFormat (PatchFormat ''diff too large''))
          else bindE (lift_format (parse_unified_diff (PStr doc))) (\<lambda>d.
               let files = distinct_in_order (paths d) in
               if length files > MAX_PROPOSE_FILES then Inl (BadFormat (PatchFormat ''too many files''))
               else if added_lines d > MAX_PROPOSE_ADDED_LINES then Inl (BadFormat (PatchFormat ''too many added lines''))
               else bindE (mapE (\<lambda>p. lift_path (resolve_within_workspace w root_text p)) files) (\<lambda>_.
                 if list_ex whole_file_hunk (hunks d) then Inl (BadFormat (PatchFormat ''whole-file replacement refused''))
                 else Inr (paths d, added_lines d)))
      | _ \<Rightarrow> Inl (BadFormat (malformed ''diff text must be a string'')))"

subsection \<open>Records and tokens\<close>

datatype patch_status = Pending | AppliedAt int

record patch_record =
  pr_id :: string
  pr_plan :: string
  pr_story :: string
  pr_doc :: string
  pr_hash :: string
  pr_paths :: "string list"
  pr_added :: nat
  pr_status :: patch_status
  pr_expires :: int

type_synonym patch_store = "(string \<times> patch_record) list"

text \<open>Fifteen minutes, in microseconds.\<close>

definition PATCH_TTL :: int where
  "PATCH_TTL = 900 * 1000000"

text \<open>\<open>pw_hmac\<close> is keyed with the secret of the process.\<close>

record patch_digests =
  pw_sha256 :: "string \<Rightarrow> string"
  pw_hmac :: "string \<Rightarrow> string"

text \<open>
  What one request meets: the clock (read again, later, under the lock), the manifests, the directories, the lock, git and the
  file system.
\<close>

record patch_env =
  pe_now :: int
  pe_later :: int
  pe_manifest :: "string \<Rightarrow> pyval option"
  pe_dirs :: "string \<Rightarrow> bool"
  pe_lock :: "string \<Rightarrow> bool"
  pe_check :: "string \<Rightarrow> string \<Rightarrow> int"
  pe_apply :: "string \<Rightarrow> string \<Rightarrow> int"
  pe_fs :: fs_world
  pe_show :: "pyval \<Rightarrow> string"

datatype patch_call =
    GitCheck string string
  | GitApply string string
  | Journalled string string string string "string list"     \<comment> \<open>plan, story, action, patch, paths\<close>
  | Announced string string "string list" string             \<comment> \<open>kind, patch, paths, hash\<close>

datatype patch_exn = PatchTypeError | PatchIntError | PatchKeyError | PatchAttributeError

definition derive_confirmation_token :: "patch_digests \<Rightarrow> string \<Rightarrow> string \<Rightarrow> string" where
  "derive_confirmation_token g patch_id hash = pw_hmac g (patch_id @ '':'' @ hash)"

definition confirmation_token_for :: "patch_digests \<Rightarrow> patch_record \<Rightarrow> string" where
  "confirmation_token_for g r = derive_confirmation_token g (pr_id r) (pr_hash r)"

text \<open>The record and its envelope: id, paths, added lines, token, digest.\<close>

record envelope =
  en_id :: string
  en_paths :: "string list"
  en_added :: nat
  en_token :: "string option"
  en_hash :: string

definition create_patch_record ::
  "patch_digests \<Rightarrow> int \<Rightarrow> string \<Rightarrow> string \<Rightarrow> string \<Rightarrow> string \<Rightarrow> string list \<Rightarrow> nat \<Rightarrow> patch_store \<Rightarrow>
   (patch_call, patch_exn, envelope) logged \<times> patch_store" where
  "create_patch_record g now new_id plan story doc files added store =
     (let hash = pw_sha256 g doc;
          r = \<lparr>pr_id = new_id, pr_plan = plan, pr_story = story, pr_doc = doc, pr_hash = hash, pr_paths = files,
               pr_added = added, pr_status = Pending, pr_expires = now + PATCH_TTL\<rparr>
      in (tellW [Journalled plan story ''patch_proposed'' new_id files, Announced ''patch_proposed'' new_id files hash]
            (retW \<lparr>en_id = new_id, en_paths = files, en_added = added,
                   en_token = Some (derive_confirmation_token g new_id hash), en_hash = hash\<rparr>),
          dset new_id r store))"

definition get_patch_record :: "int \<Rightarrow> string \<Rightarrow> patch_store \<Rightarrow> patch_record option \<times> patch_store" where
  "get_patch_record now patch_id store =
     (case dget store patch_id of
        None \<Rightarrow> (None, store)
      | Some r \<Rightarrow> if now \<ge> pr_expires r then (None, dpop patch_id store) else (Some r, store))"

text \<open>\<open>hmac.compare_digest\<close> of two strings: it takes ASCII only.\<close>

definition compare_digest :: "string \<Rightarrow> string \<Rightarrow> patch_exn + bool" where
  "compare_digest a b = (if list_all is_ascii a \<and> list_all is_ascii b then Inr (a = b) else Inl PatchTypeError)"

subsection \<open>Applying\<close>

datatype patch_result = PatchRefused nat string | PatchApplied string "string list"

definition find_story :: "patch_env \<Rightarrow> string \<Rightarrow> string \<Rightarrow> pydict option" where
  "find_story e plan story =
     (case pe_manifest e plan of
        Some (PDict m) \<Rightarrow>
          (case dgetN m ''stories'' of
             PDict ss \<Rightarrow> (case dget ss story of Some (PDict d) \<Rightarrow> Some d | _ \<Rightarrow> None)
           | _ \<Rightarrow> None)
      | _ \<Rightarrow> None)"

text \<open>A status that cannot be hashed makes the membership test raise.\<close>

definition is_active :: "pydict \<Rightarrow> patch_exn + bool" where
  "is_active story =
     (let v = dgetN story ''status'' in
      if \<not> hashable v then Inl PatchTypeError else Inr (v \<in> {PStr ''in_progress'', PStr ''running''}))"

datatype gate_answer = GateOk "string list" | GateRefused | GateMalformed

text \<open>Every path of the diff, on both sides, goes through the write resolver before git runs.\<close>

definition gate_paths :: "patch_env \<Rightarrow> string \<Rightarrow> string \<Rightarrow> patch_exn + gate_answer" where
  "gate_paths e worktree doc =
     (case parse_unified_diff (PStr doc) of
        Inl IntTooLong \<Rightarrow> Inl PatchIntError
      | Inl (PatchFormat _) \<Rightarrow> Inr GateMalformed
      | Inr d \<Rightarrow>
          let new = filter (\<lambda>p. p \<noteq> ''/dev/null'') (paths d);
              old = filter (\<lambda>p. p \<noteq> ''/dev/null'') (old_paths d) in
          (case mapE (resolve_write_target (pe_fs e) worktree) new of
             Inl _ \<Rightarrow> Inr GateRefused
           | Inr _ \<Rightarrow>
               (case mapE (resolve_write_target (pe_fs e) worktree) old of
                  Inl _ \<Rightarrow> Inr GateRefused
                | Inr _ \<Rightarrow> Inr (GateOk new))))"

definition run_git ::
  "patch_env \<Rightarrow> string \<Rightarrow> string \<Rightarrow> string \<Rightarrow> patch_record \<Rightarrow> string \<Rightarrow> string list \<Rightarrow> patch_store \<Rightarrow>
   (patch_call, patch_exn, patch_result) logged \<times> patch_store" where
  "run_git e plan story_key patch_id r worktree files store =
     (if pe_check e worktree (pr_doc r) \<noteq> 0
      then (tellW [GitCheck worktree (pr_doc r)] (retW (PatchRefused 409 ''patch does not apply (context drift)'')), store)
      else if pe_apply e worktree (pr_doc r) \<noteq> 0
      then (tellW [GitCheck worktree (pr_doc r), GitApply worktree (pr_doc r)] (retW (PatchRefused 409 ''apply failed'')), store)
      else (tellW [GitCheck worktree (pr_doc r), GitApply worktree (pr_doc r),
                   Journalled plan story_key ''patch_applied'' patch_id files, Announced ''patch_applied'' patch_id files (pr_hash r)]
              (retW (PatchApplied patch_id files)),
            dset patch_id (r\<lparr>pr_status := AppliedAt (pe_later e)\<rparr>) store))"

definition apply_confirmed ::
  "patch_digests \<Rightarrow> patch_env \<Rightarrow> string \<Rightarrow> string \<Rightarrow> pydict \<Rightarrow> string \<Rightarrow> string \<Rightarrow> patch_store \<Rightarrow>
   (patch_call, patch_exn, patch_result) logged \<times> patch_store" where
  "apply_confirmed g e plan story_key story patch_id token store =
     (case get_patch_record (pe_later e) patch_id store of
        (None, store) \<Rightarrow> (retW (PatchRefused 404 ''unknown patch''), store)
      | (Some r, store) \<Rightarrow>
          (case compare_digest token (derive_confirmation_token g patch_id (pr_hash r)) of
             Inl x \<Rightarrow> (liftW (Inl x), store)
           | Inr False \<Rightarrow> (retW (PatchRefused 403 ''invalid confirmation token''), store)
           | Inr True \<Rightarrow>
               if pr_status r \<noteq> Pending then (retW (PatchRefused 409 ''patch already applied''), store)
               else (case dgetN story ''worktree'' of
                       PStr worktree \<Rightarrow>
                         if worktree = [] \<or> \<not> pe_dirs e worktree
                         then (retW (PatchRefused 409 ''worktree is not a directory''), store)
                         else (case gate_paths e worktree (pr_doc r) of
                                 Inl x \<Rightarrow> (liftW (Inl x), store)
                               | Inr GateRefused \<Rightarrow> (retW (PatchRefused 403 ''patch target refused''), store)
                               | Inr GateMalformed \<Rightarrow> (retW (PatchRefused 400 ''malformed diff''), store)
                               | Inr (GateOk files) \<Rightarrow> run_git e plan story_key patch_id r worktree files store)
                     | _ \<Rightarrow> (retW (PatchRefused 409 ''worktree is not a directory''), store))))"

definition apply_patch ::
  "patch_digests \<Rightarrow> patch_env \<Rightarrow> string \<Rightarrow> string \<Rightarrow> string \<Rightarrow> string \<Rightarrow> patch_store \<Rightarrow>
   (patch_call, patch_exn, patch_result) logged \<times> patch_store" where
  "apply_patch g e plan story_key patch_id token store =
     (if \<not> pe_lock e plan then (retW (PatchRefused 409 ''plan busy''), store)
      else case find_story e plan story_key of
        None \<Rightarrow> (retW (PatchRefused 404 ''unknown plan or story''), store)
      | Some story \<Rightarrow>
          (case is_active story of
             Inl x \<Rightarrow> (liftW (Inl x), store)
           | Inr True \<Rightarrow> (retW (PatchRefused 409 ''story is active''), store)
           | Inr False \<Rightarrow> apply_confirmed g e plan story_key story patch_id token store))"

subsection \<open>The routes\<close>

datatype patch_request =
    Propose "string option" string string string string    \<comment> \<open>origin, plan, story, diff, the id minted for it\<close>
  | Review "string option" string                          \<comment> \<open>origin, patch\<close>
  | Apply "string option" string string                    \<comment> \<open>origin, patch, token\<close>

datatype patch_response =
    HttpError nat
  | Proposed envelope
  | Reviewed patch_record string
  | Done string "string list"

definition ui_origin :: "string option \<Rightarrow> bool" where
  "ui_origin o' = (o' = Some ''ui'')"

text \<open>The story as the propose route reads it, through the service and its check of the key.\<close>

definition route_story :: "patch_env \<Rightarrow> string \<Rightarrow> string \<Rightarrow> patch_exn + pydict option" where
  "route_story e plan story =
     (if \<not> validate_key plan then Inl PatchKeyError
      else case pe_manifest e plan of
        None \<Rightarrow> Inr None
      | Some v \<Rightarrow>
          with_dict v PatchAttributeError (\<lambda>m.
          with_dict (dget_or m ''stories'' (PDict [])) PatchAttributeError (\<lambda>ss.
          Inr (case dgetN ss story of PDict d \<Rightarrow> Some d | _ \<Rightarrow> None))))"

definition propose_for ::
  "patch_digests \<Rightarrow> patch_env \<Rightarrow> string option \<Rightarrow> string \<Rightarrow> string \<Rightarrow> string \<Rightarrow> string \<Rightarrow> string \<Rightarrow> patch_store \<Rightarrow>
   (patch_call, patch_exn, patch_response) logged \<times> patch_store" where
  "propose_for g e origin plan story_key doc new_id worktree store =
     (if worktree = [] \<or> \<not> pe_dirs e worktree then (retW (HttpError 409), store)
      else case validate_for_propose (pe_fs e) (PStr doc) worktree of
        Inl (BadFormat IntTooLong) \<Rightarrow> (liftW (Inl PatchIntError), store)
      | Inl (BadFormat (PatchFormat _)) \<Rightarrow> (retW (HttpError 413), store)
      | Inl (BadPath _) \<Rightarrow> (retW (HttpError 400), store)
      | Inr (files, added) \<Rightarrow>
          (case create_patch_record g (pe_now e) new_id plan story_key doc files added store of
             (m, store) \<Rightarrow>
               (bindW m (\<lambda>en. retW (Proposed (if ui_origin origin then en else en\<lparr>en_token := None\<rparr>))), store)))"

definition propose_route ::
  "patch_digests \<Rightarrow> patch_env \<Rightarrow> string option \<Rightarrow> string \<Rightarrow> string \<Rightarrow> string \<Rightarrow> string \<Rightarrow> patch_store \<Rightarrow>
   (patch_call, patch_exn, patch_response) logged \<times> patch_store" where
  "propose_route g e origin plan story_key doc new_id store =
     (if origin \<notin> {Some ''chat'', Some ''ui''} then (retW (HttpError 403), store)
      else case route_story e plan story_key of
        Inl x \<Rightarrow> (liftW (Inl x), store)
      | Inr None \<Rightarrow> (retW (HttpError 404), store)
      | Inr (Some story) \<Rightarrow>
          (case is_active story of
             Inl x \<Rightarrow> (liftW (Inl x), store)
           | Inr True \<Rightarrow> (retW (HttpError 409), store)
           | Inr False \<Rightarrow>
               propose_for g e origin plan story_key doc new_id
                 (py_str (pe_show e) (dget_or story ''worktree'' (PStr []))) store))"

definition review_route ::
  "patch_digests \<Rightarrow> patch_env \<Rightarrow> string option \<Rightarrow> string \<Rightarrow> patch_store \<Rightarrow>
   (patch_call, patch_exn, patch_response) logged \<times> patch_store" where
  "review_route g e origin patch_id store =
     (if \<not> ui_origin origin then (retW (HttpError 403), store)
      else case get_patch_record (pe_now e) patch_id store of
        (None, store) \<Rightarrow> (retW (HttpError 404), store)
      | (Some r, store) \<Rightarrow> (retW (Reviewed r (confirmation_token_for g r)), store))"

definition apply_route ::
  "patch_digests \<Rightarrow> patch_env \<Rightarrow> string option \<Rightarrow> string \<Rightarrow> string \<Rightarrow> patch_store \<Rightarrow>
   (patch_call, patch_exn, patch_response) logged \<times> patch_store" where
  "apply_route g e origin patch_id token store =
     (if \<not> ui_origin origin then (retW (HttpError 403), store)
      else case get_patch_record (pe_now e) patch_id store of
        (None, store) \<Rightarrow> (retW (HttpError 404), store)
      | (Some r, store) \<Rightarrow>
          (case apply_patch g e (pr_plan r) (pr_story r) patch_id token store of
             (m, store) \<Rightarrow>
               (bindW m (\<lambda>res. retW (case res of PatchRefused code _ \<Rightarrow> HttpError code | PatchApplied i files \<Rightarrow> Done i files)),
                store)))"

definition handle_request ::
  "patch_digests \<Rightarrow> patch_env \<Rightarrow> patch_request \<Rightarrow> patch_store \<Rightarrow> (patch_call, patch_exn, patch_response) logged \<times> patch_store" where
  "handle_request g e rq store =
     (case rq of
        Propose origin plan story doc new_id \<Rightarrow> propose_route g e origin plan story doc new_id store
      | Review origin patch_id \<Rightarrow> review_route g e origin patch_id store
      | Apply origin patch_id token \<Rightarrow> apply_route g e origin patch_id token store)"

text \<open>A sequence of requests, each in the environment it met, with what each did and answered.\<close>

record patch_event =
  ev_env :: patch_env
  ev_request :: patch_request
  ev_calls :: "patch_call list"
  ev_answer :: "patch_exn + patch_response"

fun serve_patches :: "patch_digests \<Rightarrow> (patch_env \<times> patch_request) list \<Rightarrow> patch_store \<Rightarrow> patch_event list" where
  "serve_patches g [] store = []"
| "serve_patches g ((e, rq) # rest) store =
     (case handle_request g e rq store of
        (m, store') \<Rightarrow>
          \<lparr>ev_env = e, ev_request = rq, ev_calls = fst m, ev_answer = snd m\<rparr> # serve_patches g rest store')"

subsection \<open>Targets\<close>

text \<open>What the write resolver has seen to of a path it lets through.\<close>

definition safe_target :: "fs_world \<Rightarrow> string \<Rightarrow> string \<Rightarrow> bool" where
  "safe_target w root_text p \<longleftrightarrow>
     \<not> is_denied_relative_path (PStr p) \<and> \<not> starts_with p ''/'' \<and> ''..'' \<notin> set (relative_parts p) \<and>
     (\<exists>base target. fw_root w root_text = Some base \<and> fw_under w base p = Some target \<and> is_under base target \<and>
        (\<forall>r. Some r \<in> set (fw_forbidden w) \<longrightarrow> (\<exists>own. fw_root w r = Some own \<and> \<not> is_under own target))) \<and>
     (\<forall>i < length (relative_parts p).
        (\<forall>j < i. fw_exists w root_text (take (Suc j) (relative_parts p))) \<longrightarrow>
        \<not> fw_link w root_text (take (Suc i) (relative_parts p)))"

lemma checkable_Inr [simp]: "checkable r = Inr x \<longleftrightarrow> r = Some x" "verifiable r = Inr x \<longleftrightarrow> r = Some x"
  by (auto simp: checkable_def verifiable_def split: option.splits)

lemma reject_unsafe_ok:
  assumes "reject_unsafe_relative p = Inr ()"
  shows "\<not> starts_with p ''/'' \<and> ''..'' \<notin> set (relative_parts p)"
proof -
  have "unsafe_component ''..'' \<noteq> None" by (simp add: unsafe_component_def)
  then have "List.map_filter unsafe_component cs \<noteq> []" if "''..'' \<in> set cs" for cs
    using that by (auto simp: map_filter_def filter_empty_conv)
  with assms show ?thesis
    by (auto simp: reject_unsafe_relative_def split: if_splits list.splits)
qed

lemma resolve_within_ok:
  assumes "resolve_within_workspace w root_text p = Inr target"
  shows "reject_unsafe_relative p = Inr () \<and>
    (\<exists>base. fw_root w root_text = Some base \<and> fw_under w base p = Some target \<and> is_under base target)"
  using assms by (auto simp: resolve_within_workspace_def bindE_Inr_iff split: if_splits)

lemma forbidden_ok:
  "forbidden_checks w rs target = Inr () \<Longrightarrow> Some r \<in> set rs \<Longrightarrow> \<exists>own. fw_root w r = Some own \<and> \<not> is_under own target"
  by (induction w rs target rule: forbidden_checks.induct) (auto simp: bindE_Inr_iff split: if_splits)

lemma write_walk_ok:
  assumes "write_walk w root_text done_part cs = Inr ()" "i < length cs"
    and "\<forall>j < i. fw_exists w root_text (done_part @ take (Suc j) cs)"
  shows "\<not> fw_link w root_text (done_part @ take (Suc i) cs)"
  using assms
proof (induction w root_text done_part cs arbitrary: i rule: write_walk.induct)
  case (2 w root_text at_path c cs)
  show ?case
  proof (cases i)
    case 0
    with 2(2) show ?thesis by (auto simp: Let_def split: if_splits)
  next
    case (Suc k)
    with 2(4) have "fw_exists w root_text (at_path @ [c])" by auto
    with 2(2) have "\<not> fw_link w root_text (at_path @ [c])" "write_walk w root_text (at_path @ [c]) cs = Inr ()"
      by (auto simp: Let_def split: if_splits)
    from 2(1) [OF refl this(1) _ this(2), of k] \<open>fw_exists w root_text (at_path @ [c])\<close> Suc 2(3,4) show ?thesis by auto
  qed
qed simp

lemma write_target_safe:
  assumes "resolve_write_target w root_text p = Inr target"
  shows "safe_target w root_text p"
proof -
  from assms obtain base where d: "\<not> is_denied_relative_path (PStr p)" "resolve_within_workspace w root_text p = Inr target"
    "write_walk w root_text [] (relative_parts p) = Inr ()" "fw_root w root_text = Some base" "is_under base target"
    "forbidden_checks w (fw_forbidden w) target = Inr ()"
    by (auto simp: resolve_write_target_def bindE_Inr_iff split: if_splits)
  from resolve_within_ok [OF d(2)] d(4) have r: "reject_unsafe_relative p = Inr ()" "fw_under w base p = Some target"
    by auto
  have l: "\<not> fw_link w root_text (take (Suc i) (relative_parts p))"
    if "i < length (relative_parts p)" "\<forall>j < i. fw_exists w root_text (take (Suc j) (relative_parts p))" for i
    using write_walk_ok [OF d(3) that(1)] that(2) by simp
  show ?thesis
    unfolding safe_target_def
    using d(1,4,5) r(2) reject_unsafe_ok [OF r(1)] forbidden_ok [OF d(6)] l by blast
qed

text \<open>Directories in front of a denied path do not help it: git takes the first component of a header's name off.\<close>

lemma path_components_append: "path_components (a @ CHR ''/'' # b) = path_components a @ path_components b"
proof -
  have "split_on c (a @ c # b) = split_on c a @ split_on c b" for c
  proof (induction a)
    case (Cons x xs)
    then show ?case by (cases "split_on c xs") auto
  qed simp
  then show ?thesis by (simp add: path_components_def)
qed

lemma stripping_hides_nothing:
  assumes "is_denied_relative_path (PStr p)" "path_components p \<noteq> []"
  shows "is_denied_relative_path (PStr (dir @ CHR ''/'' # p))"
  using assms by (auto simp: is_denied_relative_path_def Let_def path_components_append)

end
