(* ===== verification/PatchText.thy ===== *)
theory PatchText
  imports PatchParse
begin

text \<open>
  Texts for the diff parser of \<open>PatchParse\<close>: a diff given by its files and hunks, the text that says it, and
  what the parser makes of that text.  The writer is a specification; the program only reads.
\<close>

subsection \<open>Writing and reading back\<close>

text \<open>A name quoted the way git may quote it: every character as three octal digits.\<close>

definition octal_digit :: "nat \<Rightarrow> char" where
  "octal_digit n = char_of (48 + n)"

definition octal_escape :: "char \<Rightarrow> string" where
  "octal_escape c = (let n = of_char c in
     [CHR 0x5C, octal_digit (n div 64), octal_digit (n div 8 mod 8), octal_digit (n mod 8)])"

definition c_quote :: "string \<Rightarrow> string" where
  "c_quote name = CHR 0x22 # concat (map octal_escape name) @ [CHR 0x22]"

lemma octal_digit_code: "n < 8 \<Longrightarrow> of_char (octal_digit n) = 48 + n"
  by (simp add: octal_digit_def)

lemma octal_digit_is: "n < 8 \<Longrightarrow> is_octal (octal_digit n) \<and> simple_escape (octal_digit n) = None"
proof -
  have "list_all (\<lambda>n. is_octal (octal_digit n) \<and> simple_escape (octal_digit n) = None) [0..<8]" by code_simp
  then show "n < 8 \<Longrightarrow> ?thesis" by (simp add: list_all_iff)
qed

lemma of_char_bound: "(of_char c :: nat) < 256"
  using of_char_mod_256 [of c, where 'a = nat] by (metis mod_less_divisor zero_less_numeral)

lemma octal_top: "(n :: nat) < 256 \<Longrightarrow> n div 64 < 8"
  by (simp add: div_less_iff_less_mult)

lemma octal_value: "8 * (8 * (n div 64) + n div 8 mod 8) + n mod 8 = (n :: nat)"
proof -
  have "n div 64 = n div 8 div 8" by (simp add: div_mult2_eq [symmetric])
  then have "8 * (n div 64) + n div 8 mod 8 = n div 8" by simp
  then show ?thesis by (simp only: mult_div_mod_eq)
qed

lemma unescape_octal: "unescape (octal_escape c @ rest) = map_option (Cons c) (unescape rest)"
proof -
  let ?n = "of_char c :: nat"
  have n: "?n < 256" by (rule of_char_bound)
  then have d: "?n div 64 < 8" "?n div 8 mod 8 < 8" "?n mod 8 < 8" using octal_top by auto
  have v: "8 * (8 * (?n div 64) + ?n div 8 mod 8) + ?n mod 8 = ?n" by (rule octal_value)
  have "octal_char [octal_digit (?n div 64), octal_digit (?n div 8 mod 8), octal_digit (?n mod 8)] = c"
    using d v n by (simp add: octal_char_def octal_digit_code)
  with d octal_digit_is show ?thesis by (simp add: octal_escape_def Let_def)
qed

lemma unescape_quoted: "unescape (concat (map octal_escape name)) = Some name"
  by (induction name) (simp_all add: unescape_octal)

lemma octal_not: "n < 8 \<Longrightarrow> octal_digit n \<notin> {CHR 0x22, CHR 0x09, CHR 0x0A}"
proof
  assume "n < 8" "octal_digit n \<in> {CHR 0x22, CHR 0x09, CHR 0x0A}"
  then have "of_char (octal_digit n) \<in> {34, 9, 10 :: nat}" by auto
  with \<open>n < 8\<close> show False by (simp add: octal_digit_code)
qed

lemma escaped_plain: "x \<in> set (octal_escape c) \<Longrightarrow> x \<notin> {CHR 0x22, CHR 0x09, CHR 0x0A}"
proof -
  have "(of_char c :: nat) div 64 < 8" using octal_top of_char_bound by blast
  then show "x \<in> set (octal_escape c) \<Longrightarrow> x \<notin> {CHR 0x22, CHR 0x09, CHR 0x0A}"
    using octal_not by (auto simp: octal_escape_def Let_def)
qed

lemma c_unquote_quote: "c_unquote (c_quote name) = Some name"
  using escaped_plain
  by (auto simp: c_unquote_def c_quote_def starts_with_def ends_with_def unescape_quoted butlast_append)

text \<open>A diff of named files, with hunks of body lines, and the text that says it.\<close>

datatype body_line = Context string | Deletion string | Addition string

record file_change =
  fc_old :: "string option"
  fc_new :: "string option"
  fc_hunks :: "body_line list list"

fun body_text :: "body_line \<Rightarrow> string" where
  "body_text (Context t) = CHR '' '' # t"
| "body_text (Deletion t) = CHR ''-'' # t"
| "body_text (Addition t) = CHR ''+'' # t"

definition counts_of :: "body_line list \<Rightarrow> hunk_counts" where
  "counts_of ls =
     (length (filter (\<lambda>l. \<exists>t. l = Context t) ls), length (filter (\<lambda>l. \<exists>t. l = Deletion t) ls),
      length (filter (\<lambda>l. \<exists>t. l = Addition t) ls))"

definition hunk_text :: "body_line list \<Rightarrow> string list" where
  "hunk_text ls = (case counts_of ls of (c, d, a) \<Rightarrow>
     (''@@ -1,'' @ show_nat (c + d) @ '' +1,'' @ show_nat (c + a) @ '' @@'') # map body_text ls)"

definition name_text :: "string \<Rightarrow> string option \<Rightarrow> string" where
  "name_text side n = (case n of None \<Rightarrow> ''/dev/null'' | Some p \<Rightarrow> c_quote (side @ p))"

definition change_text :: "file_change \<Rightarrow> string list" where
  "change_text f =
     (''--- '' @ name_text ''a/'' (fc_old f)) # (''+++ '' @ name_text ''b/'' (fc_new f)) # concat (map hunk_text (fc_hunks f))"

definition diff_text :: "file_change list \<Rightarrow> string" where
  "diff_text fs = concat (map (\<lambda>l. l @ [CHR 0x0A]) (concat (map change_text fs)))"

definition change_of :: "file_change \<Rightarrow> file_diff" where
  "change_of f = (fc_old f, fc_new f, map counts_of (fc_hunks f))"

text \<open>What a diff must keep to: every file has a hunk, no line of it holds a line feed, and it has less than \<open>10 ^ 4300\<close> lines.\<close>

fun line_of :: "body_line \<Rightarrow> string" where
  "line_of (Context t) = t" | "line_of (Deletion t) = t" | "line_of (Addition t) = t"

definition sound_change :: "file_change \<Rightarrow> bool" where
  "sound_change f \<longleftrightarrow> fc_hunks f \<noteq> [] \<and>
     list_all (\<lambda>h. length h < 10 ^ INT_DIGITS \<and> list_all (\<lambda>l. CHR 0x0A \<notin> set (line_of l)) h) (fc_hunks f)"

lemma split_on_lines:
  "list_all (\<lambda>l. c \<notin> set l) ls \<Longrightarrow> split_on c (concat (map (\<lambda>l. l @ [c]) ls)) = ls @ [[]]"
proof (induction ls)
  case (Cons l ls)
  have "c \<notin> set l \<Longrightarrow> split_on c (l @ c # r) = l # split_on c r" for r
    by (induction l) auto
  with Cons show ?case by simp
qed simp

lemma diff_lines_text:
  "list_all (\<lambda>l. CHR 0x0A \<notin> set l) ls \<Longrightarrow> diff_lines (concat (map (\<lambda>l. l @ [CHR 0x0A]) ls)) = ls"
  by (simp add: diff_lines_def split_on_lines)

lemma body_of_text:
  "counts_of ls = (c, d, a) \<Longrightarrow> hunk_body (c + d) (c + a) (map body_text ls) c d a"
proof (induction ls arbitrary: c d a)
  case Nil
  then show ?case by (simp add: counts_of_def body_done)
next
  case (Cons l ls)
  obtain c' d' a' where r: "counts_of ls = (c', d', a')" by (cases "counts_of ls")
  note b = Cons.IH [OF r]
  show ?case
  proof (cases l)
    case (Context t)
    with Cons.prems r have "c = Suc c'" "d = d'" "a = a'" by (auto simp: counts_of_def)
    with b Context show ?thesis by (auto intro!: body_context)
  next
    case (Deletion t)
    with Cons.prems r have "c = c'" "d = Suc d'" "a = a'" by (auto simp: counts_of_def)
    with b Deletion show ?thesis by (auto intro!: body_deletion)
  next
    case (Addition t)
    with Cons.prems r have "c = c'" "d = d'" "a = Suc a'" by (auto simp: counts_of_def)
    with b Addition show ?thesis by (auto intro!: body_addition)
  qed
qed

lemma show_nat_digits: "list_all is_digit (show_nat n)" "show_nat n \<noteq> []"
proof -
  have d: "k < 10 \<Longrightarrow> is_digit (char_of (48 + k :: nat))" for k by (simp add: is_digit_def)
  show "list_all is_digit (show_nat n)" "show_nat n \<noteq> []"
    by (induction n rule: show_nat.induct; subst show_nat.simps; simp add: d)+
qed

lemma decimal_show: "decimal (show_nat n) = n"
proof (induction n rule: show_nat.induct)
  case (1 n)
  then show ?case by (subst show_nat.simps) (simp add: decimal_def)
qed

lemma range_shown:
  "\<not> is_digit c \<Longrightarrow> c \<noteq> CHR '','' \<Longrightarrow> range_at (''1,'' @ show_nat n @ c # rest) = Some (Some (show_nat n), c # rest)"
  using show_nat_digits [of n]
  by (simp add: range_at_def digits_of_def is_digit_def list_all_iff takeWhile_append2 dropWhile_append2)

lemma header_shown:
  "hunk_header (''@@ -1,'' @ show_nat o' @ '' +1,'' @ show_nat n @ '' @@'') = Some (Some (show_nat o'), Some (show_nat n))"
proof -
  have "range_at (''1,'' @ show_nat o' @ CHR '' '' # ''+1,'' @ show_nat n @ '' @@'') =
      Some (Some (show_nat o'), CHR '' '' # ''+1,'' @ show_nat n @ '' @@'')"
    by (rule range_shown) (simp_all add: is_digit_def)
  moreover have "range_at (''1,'' @ show_nat n @ CHR '' '' # ''@@'') = Some (Some (show_nat n), CHR '' '' # ''@@'')"
    by (rule range_shown) (simp_all add: is_digit_def)
  ultimately show ?thesis by (simp add: hunk_header_def starts_with_def)
qed

lemma count_shown: "n < 10 ^ INT_DIGITS \<Longrightarrow> count_of (Some (show_nat n)) = Inr n"
  using length_show_nat [of n INT_DIGITS] by (simp add: count_of_def decimal_show INT_DIGITS_def del: power_numeral)

lemma name_read:
  "header_name side (pre @ name_text side n) = Inr n" if "length pre = 4" "side \<noteq> []" "hd side \<noteq> CHR ''/''"
proof (cases n)
  case None
  then show ?thesis using that by (simp add: header_name_def name_text_def c_unquote_def starts_with_def)
next
  case (Some name)
  have "CHR 0x09 \<notin> set (c_quote (side @ name))"
    using escaped_plain by (auto simp: c_quote_def)
  moreover have "side @ name \<noteq> ''/dev/null''" using that(2,3) by (cases side) auto
  ultimately show ?thesis using Some that
    by (simp add: header_name_def name_text_def partition_at_not_found c_unquote_quote removeprefix_def)
qed

lemma counts_length: "counts_of ls = (c, d, a) \<Longrightarrow> c + d \<le> length ls \<and> c + a \<le> length ls"
proof (induction ls arbitrary: c d a)
  case (Cons l ls)
  obtain c' d' a' where r: "counts_of ls = (c', d', a')" by (cases "counts_of ls")
  with Cons.IH [OF r] Cons.prems show ?case by (cases l) (auto simp: counts_of_def)
qed (simp add: counts_of_def)

lemma hunks_of_text:
  "list_all (\<lambda>h. length h < 10 ^ INT_DIGITS) hs \<Longrightarrow> file_hunks (concat (map hunk_text hs)) (map counts_of hs)"
proof (induction hs)
  case (Cons h hs)
  obtain c d a where r: "counts_of h = (c, d, a)" by (cases "counts_of h")
  have "c + d < 10 ^ INT_DIGITS" "c + a < 10 ^ INT_DIGITS"
    using counts_length [OF r] Cons.prems by auto
  then have "count_of (Some (show_nat (c + d))) = Inr (c + d)" "count_of (Some (show_nat (c + a))) = Inr (c + a)"
    by (simp_all add: count_shown)
  from hunks_hunk [OF header_shown this body_of_text [OF r] Cons.IH] Cons.prems show ?case
    by (simp add: hunk_text_def r)
qed (simp add: hunks_none)

lemma blocks_of_text:
  "list_all sound_change fs \<Longrightarrow> file_blocks (concat (map change_text fs)) (map change_of fs)"
proof (induction fs)
  case (Cons f fs)
  have "list_all (\<lambda>h. length h < 10 ^ INT_DIGITS) (fc_hunks f)"
    using Cons.prems by (auto simp: sound_change_def list_all_iff)
  note h = hunks_of_text [OF this]
  have m: "header_name ''a/'' (''--- '' @ name_text ''a/'' (fc_old f)) = Inr (fc_old f)"
    "header_name ''b/'' (''+++ '' @ name_text ''b/'' (fc_new f)) = Inr (fc_new f)"
    by (rule name_read; simp)+
  have "map counts_of (fc_hunks f) \<noteq> []" using Cons.prems by (simp add: sound_change_def)
  from blocks_block [OF _ m(1) _ _ m(2) h this Cons.IH, of "[]"] Cons.prems show ?case
    by (simp add: change_text_def change_of_def starts_with_def)
qed (simp add: blocks_none)

lemma shown_no_newline: "CHR 0x0A \<notin> set (show_nat n)"
  using show_nat_digits(1) [of n] by (auto simp: list_all_iff is_digit_def)

lemma text_no_newline: "list_all sound_change fs \<Longrightarrow> list_all (\<lambda>l. CHR 0x0A \<notin> set l) (concat (map change_text fs))"
proof -
  have b: "CHR 0x0A \<notin> set (body_text l)" if "CHR 0x0A \<notin> set (line_of l)" for l
    using that by (cases l) auto
  have n: "CHR 0x0A \<notin> set (name_text side p)" for side p
    using escaped_plain by (cases p) (auto simp: name_text_def c_quote_def)
  have "CHR 0x0A \<notin> set l" if "sound_change f" "l \<in> set (change_text f)" for f l
    using that b n shown_no_newline by (auto simp: change_text_def hunk_text_def sound_change_def list_all_iff split: prod.splits)
  then show "list_all sound_change fs \<Longrightarrow> ?thesis" by (auto simp: list_all_iff)
qed

text \<open>
  C40: A diff written out is read back: whatever the file names (quoted the way git may quote them, any character
  in any of them) and whatever lines the hunks hold, parsing the text of a list of changes yields their paths, counts
  and hunks.
\<close>

theorem written_diffs_are_read:
  assumes "list_all sound_change fs"
  shows "parse_unified_diff (PStr (diff_text fs)) = Inr (summary_of (map change_of fs))"
proof -
  have "diff_lines (diff_text fs) = concat (map change_text fs)"
    unfolding diff_text_def by (rule diff_lines_text) (rule text_no_newline [OF assms])
  with blocks_of_text [OF assms] show ?thesis by (simp add: grammar_parses)
qed

definition demo_changes :: "file_change list" where
  "demo_changes =
     [\<lparr>fc_old = Some ''a.py'', fc_new = Some ''a.py'', fc_hunks = [[Context ''x'', Deletion ''y'', Addition ''z'']]\<rparr>,
      \<lparr>fc_old = Some ''old'', fc_new = None, fc_hunks = [[Deletion ''y'']]\<rparr>]"

theorem written_diffs_are_read_witness:
  "parse_unified_diff (PStr (diff_text demo_changes)) =
    Inr \<lparr>paths = [''a.py''], old_paths = [''a.py'', ''old''], added_lines = 1,
      hunks = [\<lparr>h_path = Some ''a.py'', h_old_path = Some ''a.py'', context_lines = 1, deletions = 1, additions = 1\<rparr>,
        \<lparr>h_path = None, h_old_path = Some ''old'', context_lines = 0, deletions = 1, additions = 0\<rparr>]\<rparr>"
proof -
  have "(3 :: nat) < 10 ^ INT_DIGITS" "(1 :: nat) < 10 ^ INT_DIGITS"
    unfolding INT_DIGITS_def by (rule less_le_trans [of _ "10 ^ 1"], simp, rule power_increasing, simp, simp)+
  then have "list_all sound_change demo_changes"
    by (simp add: demo_changes_def sound_change_def)
  from written_diffs_are_read [OF this] show ?thesis
    by (simp add: demo_changes_def change_of_def counts_of_def summary_of_def map_filter_def hunk_of_def added_by_def)
qed

subsection \<open>At the edges\<close>

text \<open>A count of more digits than \<open>int\<close> reads is no format error.\<close>

lemma long_count_raises:
  assumes "length ds > 4300" "list_all is_digit ds"
  shows "parse_unified_diff (PStr (''--- a/x'' @ CHR 0x0A # ''+++ b/x'' @ CHR 0x0A # ''@@ -1,'' @ ds @ '' +1 @@'')) = Inl IntTooLong"
proof -
  let ?h = "''@@ -1,'' @ ds @ '' +1 @@''"
  have nl: "CHR 0x0A \<notin> set ds" using assms(2) by (auto simp: list_all_iff is_digit_def)
  have "split_on c w = [w]" if "c \<notin> set w" for c w using that by (induction w) auto
  with nl have sp: "split_on CHR 0x0A ?h = [?h]" by simp
  have ls: "diff_lines (''--- a/x'' @ CHR 0x0A # ''+++ b/x'' @ CHR 0x0A # ?h) = [''--- a/x'', ''+++ b/x'', ?h]"
    using sp by (simp add: diff_lines_def)
  have "range_at (''1,'' @ ds @ CHR '' '' # ''+1 @@'') = Some (Some ds, CHR '' '' # ''+1 @@'')"
    using assms by (auto simp: range_at_def digits_of_def is_digit_def list_all_iff takeWhile_append2 dropWhile_append2)
  moreover have "range_at ''1 @@'' = Some (None, '' @@'')" by code_simp
  ultimately have "hunk_header ?h = Some (Some ds, None)" by (simp add: hunk_header_def starts_with_def)
  then have "parse_line ?h (open_file (Some ''x'') (Some ''x'') parse_start) = Inl IntTooLong"
    using assms(1) by (simp add: parse_line_def open_file_def parse_start_def starts_with_def open_at_def count_of_def INT_DIGITS_def)
  moreover have "foldE parse_line [''--- a/x'', ''+++ b/x''] parse_start = Inr (open_file (Some ''x'') (Some ''x'') parse_start)"
    by code_simp
  ultimately have "foldE parse_line ([''--- a/x'', ''+++ b/x''] @ [?h]) parse_start = Inl IntTooLong"
    unfolding foldE_append by simp
  with ls show ?thesis by (simp only: parse_unified_diff_def pyval.case append.simps) simp
qed

text \<open>A time stamp after a space stays part of the name, and hides what the name ends in.\<close>

lemma stamp_stays:
  "header_name ''b/'' ''+++ b/CLAUDE.md 2020-01-01 10:00:00 +0000'' = Inr (Some ''CLAUDE.md 2020-01-01 10:00:00 +0000'')"
  by code_simp

end
