(* ===== verification/PatchGate.thy ===== *)
theory PatchGate
  imports WorktreePatch PatchText
begin

text \<open>
  Requests on worktree patches, one at a time and in sequence (model: theory WorktreePatch): git runs only for what
  a person confirmed, a patch is applied once, and the token stays away from the model that proposed it.
\<close>

subsection \<open>Single requests\<close>

lemma get_patch_found:
  "get_patch_record now i store = (Some r, store') \<longleftrightarrow> dget store i = Some r \<and> now < pr_expires r \<and> store' = store"
  by (auto simp: get_patch_record_def split: option.splits)

lemma get_patch_store: "get_patch_record now i store = (x, store') \<Longrightarrow> store' = store \<or> (x = None \<and> store' = dpop i store)"
  by (auto simp: get_patch_record_def split: option.splits if_splits)

lemma compare_digest_True [simp]: "compare_digest a b = Inr True \<longleftrightarrow> list_all is_ascii a \<and> a = b"
  by (auto simp: compare_digest_def)

text \<open>Git is run by a confirmed apply only.\<close>

definition confirmed :: "patch_digests \<Rightarrow> patch_env \<Rightarrow> patch_store \<Rightarrow> string \<Rightarrow> string \<Rightarrow> patch_record \<Rightarrow> string \<Rightarrow> bool" where
  "confirmed g e store i token r wt \<longleftrightarrow>
     dget store i = Some r \<and> pe_later e < pr_expires r \<and> token = derive_confirmation_token g i (pr_hash r) \<and>
     pr_status r = Pending \<and> pe_lock e (pr_plan r) \<and>
     (\<exists>story. find_story e (pr_plan r) (pr_story r) = Some story \<and> is_active story = Inr False \<and>
        dgetN story ''worktree'' = PStr wt) \<and>
     (\<exists>files. gate_paths e wt (pr_doc r) = Inr (GateOk files))"

lemma run_git_calls:
  "run_git e plan story i r wt files store = (m, store') \<Longrightarrow>
    set (fst m) \<subseteq> {GitCheck wt (pr_doc r), GitApply wt (pr_doc r), Journalled plan story ''patch_applied'' i files,
      Announced ''patch_applied'' i files (pr_hash r)} \<and>
    ((store' = store \<and> (\<exists>c msg. snd m = Inr (PatchRefused c msg))) \<or>
     (store' = dset i (r\<lparr>pr_status := AppliedAt (pe_later e)\<rparr>) store \<and> snd m = Inr (PatchApplied i files)))"
  by (auto simp: run_git_def split: if_splits)

lemma apply_confirmed_cases:
  assumes "apply_confirmed g e plan story_key story i token store = (m, store')"
  shows "(fst m = [] \<and> (\<forall>f k. snd m \<noteq> Inr (PatchApplied k f)) \<and> (store' = store \<or> store' = dpop i store)) \<or>
    (\<exists>r wt files. dget store i = Some r \<and> pe_later e < pr_expires r \<and> token = derive_confirmation_token g i (pr_hash r) \<and>
       pr_status r = Pending \<and> dgetN story ''worktree'' = PStr wt \<and> gate_paths e wt (pr_doc r) = Inr (GateOk files) \<and>
       run_git e plan story_key i r wt files store = (m, store'))"
proof (cases "get_patch_record (pe_later e) i store")
  case (Pair x store1)
  show ?thesis
  proof (cases x)
    case None
    with Pair assms get_patch_store [OF Pair] show ?thesis by (auto simp: apply_confirmed_def)
  next
    case (Some r)
    with Pair have r: "dget store i = Some r" "pe_later e < pr_expires r" "store1 = store" by (simp_all add: get_patch_found)
    show ?thesis
    proof (cases "compare_digest token (derive_confirmation_token g i (pr_hash r)) = Inr True \<and> pr_status r = Pending \<and>
        (\<exists>wt files. dgetN story ''worktree'' = PStr wt \<and> wt \<noteq> [] \<and> pe_dirs e wt \<and> gate_paths e wt (pr_doc r) = Inr (GateOk files))")
      case True
      then obtain wt files where "compare_digest token (derive_confirmation_token g i (pr_hash r)) = Inr True"
        "pr_status r = Pending" "dgetN story ''worktree'' = PStr wt" "wt \<noteq> []" "pe_dirs e wt"
        "gate_paths e wt (pr_doc r) = Inr (GateOk files)" by blast
      with assms Pair Some r show ?thesis by (auto simp: apply_confirmed_def)
    next
      case False
      with assms Pair Some r show ?thesis
        by (auto simp: apply_confirmed_def split: sum.splits bool.splits if_splits pyval.splits gate_answer.splits)
    qed
  qed
qed

lemma apply_route_cases:
  assumes "apply_route g e origin i token store = (m, store')"
  shows "(fst m = [] \<and> (\<forall>f k. snd m \<noteq> Inr (Done k f)) \<and> (store' = store \<or> store' = dpop i store)) \<or>
    (\<exists>r wt files. ui_origin origin \<and> confirmed g e store i token r wt \<and>
       set (fst m) \<subseteq> {GitCheck wt (pr_doc r), GitApply wt (pr_doc r), Journalled (pr_plan r) (pr_story r) ''patch_applied'' i files,
         Announced ''patch_applied'' i files (pr_hash r)} \<and>
       ((store' = store \<and> (\<exists>c. snd m = Inr (HttpError c))) \<or>
        (store' = dset i (r\<lparr>pr_status := AppliedAt (pe_later e)\<rparr>) store \<and> snd m = Inr (Done i files))))"
proof (cases "ui_origin origin")
  case False
  with assms show ?thesis by (auto simp: apply_route_def)
next
  case ui: True
  show ?thesis
  proof (cases "get_patch_record (pe_now e) i store")
    case (Pair x store1)
    show ?thesis
    proof (cases x)
      case None
      with ui assms Pair get_patch_store [OF Pair] show ?thesis by (auto simp: apply_route_def)
    next
      case (Some r)
      with Pair have r: "dget store i = Some r" "store1 = store" by (simp_all add: get_patch_found)
      obtain m' where ap: "apply_patch g e (pr_plan r) (pr_story r) i token store = (m', store')"
        and m: "m = bindW m' (\<lambda>res. retW (case res of PatchRefused code _ \<Rightarrow> HttpError code | PatchApplied i files \<Rightarrow> Done i files))"
        using assms ui Pair Some r by (auto simp: apply_route_def split: prod.splits)
      show ?thesis
      proof (cases "pe_lock e (pr_plan r) \<and> (\<exists>story. find_story e (pr_plan r) (pr_story r) = Some story \<and> is_active story = Inr False)")
        case False
        then have "fst m' = [] \<and> (\<forall>f k. snd m' \<noteq> Inr (PatchApplied k f)) \<and> store' = store"
          using ap by (auto simp: apply_patch_def split: if_splits option.splits sum.splits bool.splits)
        then show ?thesis
          by (auto simp: m fst_bindW bindE_Inr_iff split: sum.splits patch_result.splits)
      next
        case True
        then obtain story where s: "pe_lock e (pr_plan r)" "find_story e (pr_plan r) (pr_story r) = Some story"
          "is_active story = Inr False" by blast
        with ap have "apply_confirmed g e (pr_plan r) (pr_story r) story i token store = (m', store')"
          by (simp add: apply_patch_def)
        from apply_confirmed_cases [OF this] consider
          (quiet) "fst m' = []" "\<forall>f k. snd m' \<noteq> Inr (PatchApplied k f)" "store' = store \<or> store' = dpop i store"
        | (git) r' wt files where "dget store i = Some r'" "pe_later e < pr_expires r'"
            "token = derive_confirmation_token g i (pr_hash r')" "pr_status r' = Pending" "dgetN story ''worktree'' = PStr wt"
            "gate_paths e wt (pr_doc r') = Inr (GateOk files)" "run_git e (pr_plan r) (pr_story r) i r' wt files store = (m', store')"
          by blast
        then show ?thesis
        proof cases
          case quiet
          then show ?thesis by (auto simp: m fst_bindW bindE_Inr_iff split: sum.splits patch_result.splits)
        next
          case git
          with r have c: "confirmed g e store i token r wt" "r' = r" using s by (auto simp: confirmed_def)
          from run_git_calls [OF git(7)] have "set (fst m') \<subseteq> {GitCheck wt (pr_doc r), GitApply wt (pr_doc r),
              Journalled (pr_plan r) (pr_story r) ''patch_applied'' i files, Announced ''patch_applied'' i files (pr_hash r)}"
            "(store' = store \<and> (\<exists>c msg. snd m' = Inr (PatchRefused c msg))) \<or>
             (store' = dset i (r\<lparr>pr_status := AppliedAt (pe_later e)\<rparr>) store \<and> snd m' = Inr (PatchApplied i files))"
            using c(2) by auto
          moreover have "fst m = fst m'" by (auto simp: m fst_bindW split: sum.split)
          moreover have "(\<exists>c msg. snd m' = Inr (PatchRefused c msg)) \<Longrightarrow> (\<exists>c. snd m = Inr (HttpError c))"
            "snd m' = Inr (PatchApplied i files) \<Longrightarrow> snd m = Inr (Done i files)"
            by (auto simp: m)
          ultimately show ?thesis using ui c(1) by (intro disjI2 exI [of _ r] exI [of _ wt] exI [of _ files]) auto
        qed
      qed
    qed
  qed
qed

definition new_record :: "patch_digests \<Rightarrow> int \<Rightarrow> string \<Rightarrow> string \<Rightarrow> string \<Rightarrow> string \<Rightarrow> patch_record \<Rightarrow> bool" where
  "new_record g now i plan story doc r \<longleftrightarrow>
     pr_plan r = plan \<and> pr_story r = story \<and> pr_doc r = doc \<and> pr_hash r = pw_sha256 g doc \<and> pr_expires r = now + PATCH_TTL"

lemma propose_route_cases:
  assumes "propose_route g e origin plan story_key doc new_id store = (m, store')"
  shows "(\<forall>wt d. GitApply wt d \<notin> set (fst m)) \<and> (\<forall>f k. snd m \<noteq> Inr (Done k f)) \<and>
    (store' = store \<or>
     (origin \<in> {Some ''chat'', Some ''ui''} \<and>
      (\<exists>r en. store' = dset new_id r store \<and> new_record g (pe_now e) new_id plan story_key doc r \<and> snd m = Inr (Proposed en))))"
proof -
  have one: "(\<forall>wt d. GitApply wt d \<notin> set (fst m)) \<and> (\<forall>f k. snd m \<noteq> Inr (Done k f)) \<and>
      (store' = store \<or> (\<exists>r en. store' = dset new_id r store \<and> new_record g (pe_now e) new_id plan story_key doc r \<and>
        snd m = Inr (Proposed en)))"
    if "propose_for g e origin plan story_key doc new_id worktree store = (m, store')" for origin worktree
    using that by (auto simp: propose_for_def create_patch_record_def Let_def new_record_def fst_bindW
        split: if_splits sum.splits propose_error.splits patch_error.splits)
  show ?thesis
    using assms by (auto simp: propose_route_def split: if_splits sum.splits option.splits bool.splits dest: one)
qed

lemma review_route_cases:
  assumes "review_route g e origin i store = (m, store')"
  shows "fst m = [] \<and> (\<forall>f k. snd m \<noteq> Inr (Done k f)) \<and> (store' = store \<or> store' = dpop i store)"
proof (cases "get_patch_record (pe_now e) i store")
  case (Pair x store1)
  with assms get_patch_store [OF Pair] show ?thesis
    by (auto simp: review_route_def split: if_splits option.splits)
qed

subsection \<open>Sequences of requests\<close>

fun patches_after :: "patch_digests \<Rightarrow> (patch_env \<times> patch_request) list \<Rightarrow> patch_store \<Rightarrow> patch_store" where
  "patches_after g [] store = store"
| "patches_after g ((e, rq) # rest) store = patches_after g rest (snd (handle_request g e rq store))"

lemma patches_after_append: "patches_after g (xs @ ys) store = patches_after g ys (patches_after g xs store)"
  by (induction g xs store rule: patches_after.induct) auto

lemma serve_length [simp]: "length (serve_patches g reqs store) = length reqs"
  by (induction g reqs store rule: serve_patches.induct) (auto split: prod.splits)

lemma serve_nth:
  assumes "i < length reqs" "reqs ! i = (e, rq)" "handle_request g e rq (patches_after g (take i reqs) store) = (m, store')"
  shows "serve_patches g reqs store ! i = \<lparr>ev_env = e, ev_request = rq, ev_calls = fst m, ev_answer = snd m\<rparr> \<and>
    patches_after g (take (Suc i) reqs) store = store'"
  using assms
proof (induction reqs arbitrary: i store)
  case (Cons x reqs)
  obtain e0 rq0 where x: "x = (e0, rq0)" by (cases x)
  obtain m0 store0 where h: "handle_request g e0 rq0 store = (m0, store0)" by (cases "handle_request g e0 rq0 store")
  show ?case
  proof (cases i)
    case 0
    with Cons.prems x h show ?thesis by simp
  next
    case (Suc k)
    with Cons.prems x h Cons.IH [of k store0] show ?thesis by simp
  qed
qed simp

text \<open>How one request changes the store.\<close>

lemma store_step:
  assumes "handle_request g e rq store = (m, store')" "dget store' i = Some r"
  shows "dget store i = Some r \<or>
    (\<exists>r0 files. dget store i = Some r0 \<and> r = r0\<lparr>pr_status := AppliedAt (pe_later e)\<rparr> \<and> snd m = Inr (Done i files)) \<or>
    (\<exists>origin plan story doc en. rq = Propose origin plan story doc i \<and> origin \<in> {Some ''chat'', Some ''ui''} \<and>
       new_record g (pe_now e) i plan story doc r \<and> snd m = Inr (Proposed en))"
proof (cases rq)
  case (Propose origin plan story doc new_id)
  with assms(1) have "propose_route g e origin plan story doc new_id store = (m, store')" by (simp add: handle_request_def)
  from propose_route_cases [OF this] assms(2) Propose show ?thesis by (auto split: if_splits)
next
  case (Review origin k)
  with assms(1) have "review_route g e origin k store = (m, store')" by (simp add: handle_request_def)
  from review_route_cases [OF this] assms(2) show ?thesis by (auto split: if_splits)
next
  case (Apply origin k token)
  with assms(1) have "apply_route g e origin k token store = (m, store')" by (simp add: handle_request_def)
  from apply_route_cases [OF this] assms(2) show ?thesis
    by (auto simp: confirmed_def split: if_splits)
qed

text \<open>A stored record was proposed, and says what was proposed.\<close>

definition was_proposed :: "patch_digests \<Rightarrow> patch_event \<Rightarrow> string \<Rightarrow> patch_record \<Rightarrow> bool" where
  "was_proposed g ev i r \<longleftrightarrow>
     (\<exists>origin plan story doc en. ev_request ev = Propose origin plan story doc i \<and> origin \<in> {Some ''chat'', Some ''ui''} \<and>
        new_record g (pe_now (ev_env ev)) i plan story doc r \<and> ev_answer ev = Inr (Proposed en))"

lemma stored_was_proposed:
  assumes "i \<le> length reqs" "dget (patches_after g (take i reqs) []) k = Some r"
  shows "\<exists>j < i. was_proposed g (serve_patches g reqs [] ! j) k r"
  using assms
proof (induction i arbitrary: r)
  case (Suc i)
  obtain e rq where rq: "reqs ! i = (e, rq)" by (cases "reqs ! i")
  obtain m store' where h: "handle_request g e rq (patches_after g (take i reqs) []) = (m, store')"
    by (cases "handle_request g e rq (patches_after g (take i reqs) [])")
  from Suc.prems have i: "i < length reqs" by simp
  note n = serve_nth [OF i rq h]
  from Suc.prems(2) n have "dget store' k = Some r" by simp
  from store_step [OF h this] show ?case
  proof (elim disjE exE conjE)
    assume "dget (patches_after g (take i reqs) []) k = Some r"
    with Suc.IH i show ?thesis by (auto intro: less_SucI)
  next
    fix r0 files
    assume "dget (patches_after g (take i reqs) []) k = Some r0" and r: "r = r0\<lparr>pr_status := AppliedAt (pe_later e)\<rparr>"
    with Suc.IH i obtain j where "j < i" "was_proposed g (serve_patches g reqs [] ! j) k r0" by auto
    moreover from this(2) r have "was_proposed g (serve_patches g reqs [] ! j) k r"
      by (auto simp: was_proposed_def new_record_def)
    ultimately show ?thesis by (auto intro: less_SucI)
  next
    fix origin plan story doc en
    assume "rq = Propose origin plan story doc k" "origin \<in> {Some ''chat'', Some ''ui''}"
      "new_record g (pe_now e) k plan story doc r" "snd m = Inr (Proposed en)"
    with n have "was_proposed g (serve_patches g reqs [] ! i) k r" by (auto simp: was_proposed_def)
    then show ?thesis by auto
  qed
qed (simp)

lemma gate_ok_targets:
  assumes "gate_paths e wt doc = Inr (GateOk files)"
  shows "\<exists>d. parse_unified_diff (PStr doc) = Inr d \<and>
    (\<forall>p \<in> set (paths d) \<union> set (old_paths d). p \<noteq> ''/dev/null'' \<longrightarrow> safe_target (pe_fs e) wt p)"
proof -
  from assms obtain d xs ys where d: "parse_unified_diff (PStr doc) = Inr d"
    "mapE (resolve_write_target (pe_fs e) wt) (filter (\<lambda>p. p \<noteq> ''/dev/null'') (paths d)) = Inr xs"
    "mapE (resolve_write_target (pe_fs e) wt) (filter (\<lambda>p. p \<noteq> ''/dev/null'') (old_paths d)) = Inr ys"
    by (auto simp: gate_paths_def Let_def split: sum.splits patch_error.splits)
  have "safe_target (pe_fs e) wt p" if "mapE (resolve_write_target (pe_fs e) wt) ps = Inr zs" "p \<in> set ps" for ps zs p
  proof -
    from that obtain z where "resolve_write_target (pe_fs e) wt p = Inr z"
      by (blast dest: mapE_in)
    then show ?thesis by (rule write_target_safe)
  qed
  with d show ?thesis by auto
qed

text \<open>A run of the three steps: the model proposes, a person reviews and applies.\<close>

definition demo_fs :: fs_world where
  "demo_fs = \<lparr>fw_root = (\<lambda>r. Some [r]), fw_under = (\<lambda>b p. Some (b @ [p])), fw_link = (\<lambda>_ _. False), fw_exists = (\<lambda>_ _. True),
     fw_lexists = (\<lambda>_ _. True), fw_realpath = (\<lambda>r p. Some (r # p)), fw_forbidden = [Some ''p'', None], fw_utf8 = (\<lambda>_. [])\<rparr>"

definition demo_digests :: patch_digests where
  "demo_digests = \<lparr>pw_sha256 = (\<lambda>_. ''h''), pw_hmac = id\<rparr>"

definition demo_diff :: string where
  "demo_diff = ''--- a/x'' @ CHR 0x0A # ''+++ b/x'' @ CHR 0x0A # ''@@ -1 +1,2 @@'' @ CHR 0x0A # '' a'' @ CHR 0x0A # ''+b''"

definition demo_patch_env :: "int \<Rightarrow> patch_env" where
  "demo_patch_env t =
     \<lparr>pe_now = t, pe_later = t,
      pe_manifest = (\<lambda>_. Some (PDict [(''stories'', PDict [(''s'', PDict [(''status'', PStr ''stuck''), (''worktree'', PStr ''w'')])])])),
      pe_dirs = (\<lambda>_. True), pe_lock = (\<lambda>_. True), pe_check = (\<lambda>_ _. 0), pe_apply = (\<lambda>_ _. 0), pe_fs = demo_fs,
      pe_show = (\<lambda>_. [])\<rparr>"

definition demo_requests :: "(patch_env \<times> patch_request) list" where
  "demo_requests =
     [(demo_patch_env 0, Propose (Some ''chat'') ''p'' ''s'' demo_diff ''wp-1''),
      (demo_patch_env 1, Apply (Some ''ui'') ''wp-1'' ''wp-1:h''),
      (demo_patch_env 2, Apply (Some ''ui'') ''wp-1'' ''wp-1:h'')]"

lemma patch_demo_parse:
  "parse_unified_diff (PStr demo_diff) =
    Inr \<lparr>paths = [''x''], old_paths = [''x''], added_lines = 1,
      hunks = [\<lparr>h_path = Some ''x'', h_old_path = Some ''x'', context_lines = 1, deletions = 0, additions = 1\<rparr>]\<rparr>"
  by code_simp

lemma demo_resolve: "resolve_within_workspace demo_fs ''w'' ''x'' = Inr [''w'', ''x'']"
  by code_simp

lemma demo_target: "resolve_write_target demo_fs ''w'' ''x'' = Inr [''w'', ''x'']"
  by code_simp

lemma demo_story:
  "route_story (demo_patch_env t) ''p'' ''s'' = Inr (Some [(''status'', PStr ''stuck''), (''worktree'', PStr ''w'')])"
  by code_simp

lemma demo_size: "utf8_length demo_diff \<le> MAX_DIFF_BYTES"
  by (simp add: utf8_length_def demo_diff_def is_ascii_def MAX_DIFF_BYTES_def)

lemma demo_valid: "validate_for_propose demo_fs (PStr demo_diff) ''w'' = Inr ([''x''], 1)"
  using demo_size
  by (simp add: validate_for_propose_def patch_demo_parse lift_format_def lift_path_def demo_resolve distinct_in_order_def
      whole_file_hunk_def MAX_PROPOSE_FILES_def MAX_PROPOSE_ADDED_LINES_def)

definition demo_patch :: patch_record where
  "demo_patch = \<lparr>pr_id = ''wp-1'', pr_plan = ''p'', pr_story = ''s'', pr_doc = demo_diff, pr_hash = ''h'', pr_paths = [''x''], pr_added = 1,
     pr_status = Pending, pr_expires = PATCH_TTL\<rparr>"

lemma patch_demo_env:
  "pe_fs (demo_patch_env t) = demo_fs" "pe_dirs (demo_patch_env t) d" "pe_lock (demo_patch_env t) d" "pe_now (demo_patch_env t) = t"
  "pe_later (demo_patch_env t) = t" "pe_check (demo_patch_env t) d r = 0" "pe_apply (demo_patch_env t) d r = 0"
  by (simp_all add: demo_patch_env_def)

lemma demo_find: "find_story (demo_patch_env t) ''p'' ''s'' = Some [(''status'', PStr ''stuck''), (''worktree'', PStr ''w'')]"
  by code_simp

lemma demo_get:
  "dgetN [(''status'', PStr ''stuck''), (''worktree'', PStr ''w'')] ''worktree'' = PStr ''w''"
  "py_str f (dget_or [(''status'', PStr ''stuck''), (''worktree'', PStr ''w'')] ''worktree'' (PStr [])) = ''w''"
  "is_active [(''status'', PStr ''stuck''), (''worktree'', PStr ''w'')] = Inr False"
  by code_simp+

lemma demo_propose:
  "propose_route demo_digests (demo_patch_env 0) (Some ''chat'') ''p'' ''s'' demo_diff ''wp-1'' [] =
    (([Journalled ''p'' ''s'' ''patch_proposed'' ''wp-1'' [''x''], Announced ''patch_proposed'' ''wp-1'' [''x''] ''h''],
      Inr (Proposed \<lparr>en_id = ''wp-1'', en_paths = [''x''], en_added = 1, en_token = None, en_hash = ''h''\<rparr>)),
     [(''wp-1'', demo_patch)])"
  by (simp add: propose_route_def demo_story demo_get patch_demo_env propose_for_def demo_valid create_patch_record_def Let_def
      demo_digests_def ui_origin_def prod_eq_iff fst_bindW demo_patch_def dset_def)

lemma demo_gate: "gate_paths (demo_patch_env t) ''w'' demo_diff = Inr (GateOk [''x''])"
  by (simp add: gate_paths_def patch_demo_parse patch_demo_env demo_target)

lemma demo_apply:
  "apply_route demo_digests (demo_patch_env 1) (Some ''ui'') ''wp-1'' ''wp-1:h'' [(''wp-1'', demo_patch)] =
    (([GitCheck ''w'' demo_diff, GitApply ''w'' demo_diff, Journalled ''p'' ''s'' ''patch_applied'' ''wp-1'' [''x''],
       Announced ''patch_applied'' ''wp-1'' [''x''] ''h''], Inr (Done ''wp-1'' [''x''])),
     [(''wp-1'', demo_patch\<lparr>pr_status := AppliedAt 1\<rparr>)])"
  by (simp add: apply_route_def ui_origin_def get_patch_record_def dget_def demo_patch_def patch_demo_env PATCH_TTL_def apply_patch_def demo_find demo_get
     apply_confirmed_def compare_digest_def derive_confirmation_token_def demo_digests_def is_ascii_def demo_gate run_git_def prod_eq_iff fst_bindW dset_def)

lemma demo_again:
  "apply_route demo_digests (demo_patch_env 2) (Some ''ui'') ''wp-1'' ''wp-1:h'' [(''wp-1'', demo_patch\<lparr>pr_status := AppliedAt 1\<rparr>)] =
    (([], Inr (HttpError 409)), [(''wp-1'', demo_patch\<lparr>pr_status := AppliedAt 1\<rparr>)])"
  by (simp add: apply_route_def ui_origin_def get_patch_record_def dget_def demo_patch_def patch_demo_env PATCH_TTL_def apply_patch_def
      demo_find demo_get apply_confirmed_def compare_digest_def derive_confirmation_token_def demo_digests_def is_ascii_def prod_eq_iff
      fst_bindW)

lemma patch_demo_run:
  "serve_patches demo_digests demo_requests [] =
    [\<lparr>ev_env = demo_patch_env 0, ev_request = Propose (Some ''chat'') ''p'' ''s'' demo_diff ''wp-1'',
      ev_calls = [Journalled ''p'' ''s'' ''patch_proposed'' ''wp-1'' [''x''], Announced ''patch_proposed'' ''wp-1'' [''x''] ''h''],
      ev_answer = Inr (Proposed \<lparr>en_id = ''wp-1'', en_paths = [''x''], en_added = 1, en_token = None, en_hash = ''h''\<rparr>)\<rparr>,
     \<lparr>ev_env = demo_patch_env 1, ev_request = Apply (Some ''ui'') ''wp-1'' ''wp-1:h'',
      ev_calls = [GitCheck ''w'' demo_diff, GitApply ''w'' demo_diff, Journalled ''p'' ''s'' ''patch_applied'' ''wp-1'' [''x''],
        Announced ''patch_applied'' ''wp-1'' [''x''] ''h''],
      ev_answer = Inr (Done ''wp-1'' [''x''])\<rparr>,
     \<lparr>ev_env = demo_patch_env 2, ev_request = Apply (Some ''ui'') ''wp-1'' ''wp-1:h'', ev_calls = [], ev_answer = Inr (HttpError 409)\<rparr>]"
  by (simp add: demo_requests_def handle_request_def demo_propose demo_apply demo_again)

subsection \<open>Nobody applies what nobody confirmed\<close>

text \<open>
  C6: A patch reaches git only through a person: in any sequence of requests, when \<open>git apply\<close> runs, the request is an
  apply of the user interface with the token of that patch; the very diff was proposed before, less than fifteen
  minutes ago, for the story whose worktree is changed; the plan is locked, the story is not active; and every file the
  diff names on either side passes the write resolver: it is not on the deny list, stays inside the worktree and out of
  the program's own directories, and has no link on its way.
\<close>

theorem patches_are_confirmed:
  assumes "i < length reqs" "GitApply wt doc \<in> set (ev_calls (serve_patches g reqs [] ! i))"
  shows "\<exists>j k plan story origin token en. j < i \<and>
    ev_request (serve_patches g reqs [] ! j) = Propose origin plan story doc k \<and>
    ev_answer (serve_patches g reqs [] ! j) = Inr (Proposed en) \<and>
    ev_request (serve_patches g reqs [] ! i) = Apply (Some ''ui'') k token \<and>
    token = pw_hmac g (k @ '':'' @ pw_sha256 g doc) \<and>
    pe_later (fst (reqs ! i)) < pe_now (fst (reqs ! j)) + PATCH_TTL \<and> pe_lock (fst (reqs ! i)) plan \<and>
    (\<exists>s. find_story (fst (reqs ! i)) plan story = Some s \<and> is_active s = Inr False \<and> dgetN s ''worktree'' = PStr wt) \<and>
    (\<exists>d. parse_unified_diff (PStr doc) = Inr d \<and>
       (\<forall>p \<in> set (paths d) \<union> set (old_paths d). p \<noteq> ''/dev/null'' \<longrightarrow> safe_target (pe_fs (fst (reqs ! i))) wt p))"
proof -
  obtain e rq where rq: "reqs ! i = (e, rq)" by (cases "reqs ! i")
  let ?st = "patches_after g (take i reqs) []"
  obtain m store' where h: "handle_request g e rq ?st = (m, store')" by (cases "handle_request g e rq ?st")
  note n = serve_nth [OF assms(1) rq h]
  from assms(2) n have call: "GitApply wt doc \<in> set (fst m)" by simp
  obtain origin k token where ap: "rq = Apply origin k token" "apply_route g e origin k token ?st = (m, store')"
    using h call propose_route_cases review_route_cases
    by (cases rq) (auto simp: handle_request_def dest!: propose_route_cases review_route_cases)
  from apply_route_cases [OF ap(2)] call obtain r where r: "ui_origin origin" "confirmed g e ?st k token r wt" "pr_doc r = doc"
    by auto
  from r(2) have "dget ?st k = Some r" by (simp add: confirmed_def)
  from stored_was_proposed [OF _ this] assms(1) obtain j where j: "j < i" "was_proposed g (serve_patches g reqs [] ! j) k r"
    by auto
  then obtain origin' plan story doc' en where pj: "ev_request (serve_patches g reqs [] ! j) = Propose origin' plan story doc' k"
    "new_record g (pe_now (ev_env (serve_patches g reqs [] ! j))) k plan story doc' r"
    "ev_answer (serve_patches g reqs [] ! j) = Inr (Proposed en)"
    by (auto simp: was_proposed_def)
  have ej: "ev_env (serve_patches g reqs [] ! j) = fst (reqs ! j)"
  proof -
    obtain ej rqj where x: "reqs ! j = (ej, rqj)" by (cases "reqs ! j")
    obtain mj sj where y: "handle_request g ej rqj (patches_after g (take j reqs) []) = (mj, sj)"
      by (cases "handle_request g ej rqj (patches_after g (take j reqs) [])")
    from serve_nth [OF _ x y] j(1) assms(1) x show ?thesis by simp
  qed
  from r(2) obtain files s where c: "pe_later e < pr_expires r" "token = derive_confirmation_token g k (pr_hash r)"
    "pe_lock e (pr_plan r)" "find_story e (pr_plan r) (pr_story r) = Some s" "is_active s = Inr False"
    "dgetN s ''worktree'' = PStr wt" "gate_paths e wt (pr_doc r) = Inr (GateOk files)"
    by (auto simp: confirmed_def)
  note t = gate_ok_targets [OF c(7) [unfolded r(3)]]
  have rec: "pr_plan r = plan" "pr_story r = story" "doc' = doc" "pr_hash r = pw_sha256 g doc"
    "pr_expires r = pe_now (fst (reqs ! j)) + PATCH_TTL"
    using pj(2) r(3) ej by (auto simp: new_record_def)
  show ?thesis
    using j(1) pj(1,3) n ap(1) r(1) c(1-6) t rec rq
    by (intro exI [of _ j] exI [of _ k] exI [of _ plan] exI [of _ story] exI [of _ origin'] exI [of _ token] exI [of _ en])
      (auto simp: ui_origin_def derive_confirmation_token_def)
qed

theorem patches_are_confirmed_witness:
  "GitApply ''w'' demo_diff \<in> set (ev_calls (serve_patches demo_digests demo_requests [] ! 1)) \<and>
   (\<exists>j < 1. \<exists>origin en. ev_request (serve_patches demo_digests demo_requests [] ! j) = Propose origin ''p'' ''s'' demo_diff ''wp-1'' \<and>
      ev_answer (serve_patches demo_digests demo_requests [] ! j) = Inr (Proposed en)) \<and>
   safe_target demo_fs ''w'' ''x''"
proof -
  have a: "1 < length demo_requests" "GitApply ''w'' demo_diff \<in> set (ev_calls (serve_patches demo_digests demo_requests [] ! 1))"
    by (simp_all add: patch_demo_run) (simp add: demo_requests_def)
  have e: "fst (demo_requests ! 1) = demo_patch_env 1" by (simp add: demo_requests_def)
  from patches_are_confirmed [OF a] show ?thesis
    using a(2) unfolding patch_demo_run e by (auto simp: patch_demo_parse patch_demo_env)
qed

subsection \<open>A patch is applied once\<close>

text \<open>The ids minted for proposals.\<close>

fun minted_by :: "patch_request \<Rightarrow> string option" where
  "minted_by (Propose origin plan story doc new_id) = Some new_id"
| "minted_by _ = None"

definition minted :: "(patch_env \<times> patch_request) list \<Rightarrow> string list" where
  "minted reqs = List.map_filter (\<lambda>(e, rq). minted_by rq) reqs"

lemma minted_append: "minted (xs @ ys) = minted xs @ minted ys"
  by (simp add: minted_def map_filter_def)

lemma set_minted: "k \<in> set (minted reqs) \<longleftrightarrow> (\<exists>(e, rq) \<in> set reqs. minted_by rq = Some k)"
proof (induction reqs)
  case (Cons x reqs)
  then show ?case by (cases x) (auto simp: minted_def map_filter_simps split: option.split)
qed (simp add: minted_def map_filter_simps)

lemma minted_in: "i < length reqs \<Longrightarrow> reqs ! i = (e, rq) \<Longrightarrow> minted_by rq = Some k \<Longrightarrow> k \<in> set (minted reqs)"
  by (force simp: set_minted intro!: bexI [of _ "(e, rq)"] dest: nth_mem)

text \<open>A patch that is used up: its record is no longer pending, or gone.\<close>

definition spent :: "string \<Rightarrow> patch_store \<Rightarrow> bool" where
  "spent k store \<longleftrightarrow> (\<forall>r. dget store k = Some r \<longrightarrow> pr_status r \<noteq> Pending)"

lemma spent_step:
  assumes "spent k store" "handle_request g e rq store = (m, store')" "minted_by rq \<noteq> Some k"
  shows "spent k store'"
  unfolding spent_def
proof (intro allI impI)
  fix r assume "dget store' k = Some r"
  from store_step [OF assms(2) this] assms(1,3) show "pr_status r \<noteq> Pending"
    by (auto simp: spent_def)
qed

lemma spent_refuses:
  assumes "spent k store" "handle_request g e (Apply origin k token) store = (m, store')"
  shows "fst m = [] \<and> (\<forall>f k. snd m \<noteq> Inr (Done k f))"
proof -
  from assms(2) have "apply_route g e origin k token store = (m, store')" by (simp add: handle_request_def)
  from apply_route_cases [OF this] assms(1) show ?thesis
    by (auto simp: confirmed_def spent_def)
qed

lemma done_spends:
  assumes "handle_request g e rq store = (m, store')" "snd m = Inr (Done k files)"
  shows "spent k store' \<and> (\<exists>r. dget store k = Some r) \<and> minted_by rq = None"
proof (cases rq)
  case (Apply origin i token)
  with assms(1) have "apply_route g e origin i token store = (m, store')" by (simp add: handle_request_def)
  from apply_route_cases [OF this] assms(2) Apply show ?thesis
    by (auto simp: spent_def confirmed_def)
next
  case (Propose origin plan story doc new_id)
  with assms(1) have "propose_route g e origin plan story doc new_id store = (m, store')" by (simp add: handle_request_def)
  from propose_route_cases [OF this] assms(2) show ?thesis by auto
next
  case (Review origin i)
  with assms(1) have "review_route g e origin i store = (m, store')" by (simp add: handle_request_def)
  from review_route_cases [OF this] assms(2) show ?thesis by auto
qed

lemma stays_spent:
  "spent k store \<Longrightarrow> k \<notin> set (minted reqs) \<Longrightarrow> spent k (patches_after g reqs store)"
proof (induction g reqs store rule: patches_after.induct)
  case (2 g e rq rest store)
  obtain m store' where h: "handle_request g e rq store = (m, store')" by (cases "handle_request g e rq store")
  from 2(3) have "minted_by rq \<noteq> Some k" "k \<notin> set (minted rest)"
    by (auto simp: set_minted)
  with 2(1) spent_step [OF 2(2) h] h show ?case by simp
qed simp

text \<open>
  C7: A patch is applied once: with distinct ids minted for the proposals, once an apply has succeeded no later request to
  apply that patch calls git, journals or announces anything, or succeeds, whatever is requested in between.
\<close>

theorem patches_apply_once:
  assumes "distinct (minted reqs)" "i < j" "j < length reqs"
    and "ev_answer (serve_patches g reqs [] ! i) = Inr (Done k files)"
    and "ev_request (serve_patches g reqs [] ! j) = Apply origin k token"
  shows "ev_calls (serve_patches g reqs [] ! j) = [] \<and> (\<forall>k' f. ev_answer (serve_patches g reqs [] ! j) \<noteq> Inr (Done k' f))"
proof -
  obtain e rq where rq: "reqs ! i = (e, rq)" by (cases "reqs ! i")
  obtain m store' where h: "handle_request g e rq (patches_after g (take i reqs) []) = (m, store')"
    by (cases "handle_request g e rq (patches_after g (take i reqs) [])")
  obtain e' rq' where rq': "reqs ! j = (e', rq')" by (cases "reqs ! j")
  obtain m' store'' where h': "handle_request g e' rq' (patches_after g (take j reqs) []) = (m', store'')"
    by (cases "handle_request g e' rq' (patches_after g (take j reqs) [])")
  from assms have i: "i < length reqs" by simp
  note n = serve_nth [OF i rq h] and n' = serve_nth [OF assms(3) rq' h']
  from assms(4) n have "snd m = Inr (Done k files)" by simp
  from done_spends [OF h this] obtain r where d: "spent k store'" "dget (patches_after g (take i reqs) []) k = Some r" by blast
  from stored_was_proposed [OF less_imp_le [OF i] d(2)] obtain l where l: "l < i" "was_proposed g (serve_patches g reqs [] ! l) k r" by blast
  obtain el rql where rl: "reqs ! l = (el, rql)" by (cases "reqs ! l")
  obtain ml sl where hl: "handle_request g el rql (patches_after g (take l reqs) []) = (ml, sl)"
    by (cases "handle_request g el rql (patches_after g (take l reqs) [])")
  from serve_nth [OF _ rl hl] l i have "minted_by rql = Some k" by (auto simp: was_proposed_def)
  with minted_in [of l "take (Suc i) reqs" el rql k] l(1) i rl have k: "k \<in> set (minted (take (Suc i) reqs))" by simp
  have split: "take j reqs = take (Suc i) reqs @ take (j - Suc i) (drop (Suc i) reqs)"
    using assms(2) by (metis Suc_leI le_add_diff_inverse take_add)
  have "minted reqs = minted (take (Suc i) reqs) @ minted (take (j - Suc i) (drop (Suc i) reqs)) @ minted (drop j reqs)"
    by (metis append_assoc append_take_drop_id minted_append split)
  with assms(1) k have "k \<notin> set (minted (take (j - Suc i) (drop (Suc i) reqs)))" by auto
  with stays_spent [OF d(1)] n have "spent k (patches_after g (take j reqs) [])"
    by (simp add: split patches_after_append)
  with spent_refuses h' assms(5) n' have "fst m' = [] \<and> (\<forall>f k. snd m' \<noteq> Inr (Done k f))" by auto
  with n' show ?thesis by auto
qed

theorem patches_apply_once_witness:
  "distinct (minted demo_requests) \<and> ev_answer (serve_patches demo_digests demo_requests [] ! 1) = Inr (Done ''wp-1'' [''x'']) \<and>
   ev_calls (serve_patches demo_digests demo_requests [] ! 2) = []"
proof -
  have m: "distinct (minted demo_requests)" "2 < length demo_requests"
    by (simp_all add: demo_requests_def minted_def map_filter_def)
  have a: "ev_answer (serve_patches demo_digests demo_requests [] ! 1) = Inr (Done ''wp-1'' [''x''])"
    "ev_request (serve_patches demo_digests demo_requests [] ! 2) = Apply (Some ''ui'') ''wp-1'' ''wp-1:h''"
    by (simp_all add: patch_demo_run)
  from patches_apply_once [OF m(1) _ m(2) a] m(1) a(1) show ?thesis by simp
qed

subsection \<open>The token, and the edges\<close>

text \<open>The token is shown to a person's origin only; the model that proposes gets the envelope without it.\<close>

lemma token_stays_with_people:
  assumes "handle_request g e rq store = (m, store')"
  shows "(\<forall>en t. snd m = Inr (Proposed en) \<and> en_token en = Some t \<longrightarrow> (\<exists>plan story doc k. rq = Propose (Some ''ui'') plan story doc k)) \<and>
    (\<forall>r t. snd m = Inr (Reviewed r t) \<longrightarrow> (\<exists>k. rq = Review (Some ''ui'') k))"
proof (cases rq)
  case (Propose origin plan story doc new_id)
  have one: "\<forall>en t. snd m = Inr (Proposed en) \<and> en_token en = Some t \<longrightarrow> ui_origin origin" "\<forall>r t. snd m \<noteq> Inr (Reviewed r t)"
    if "propose_for g e origin plan story doc new_id wt store = (m, store')" for origin wt
    using that by (auto simp: propose_for_def create_patch_record_def Let_def split: if_splits sum.splits propose_error.splits patch_error.splits)
  from assms Propose have "propose_route g e origin plan story doc new_id store = (m, store')" by (simp add: handle_request_def)
  then show ?thesis using Propose
    by (auto simp: propose_route_def ui_origin_def split: if_splits sum.splits option.splits bool.splits dest: one)
next
  case (Review origin k)
  with assms show ?thesis
    by (auto simp: handle_request_def review_route_def ui_origin_def split: if_splits option.splits prod.splits)
next
  case (Apply origin k token)
  with assms show ?thesis
    by (auto simp: handle_request_def apply_route_def bindE_Inr_iff split: if_splits option.splits prod.splits patch_result.splits)
      (metis patch_result.exhaust)+
qed

text \<open>What the propose half lets through is small, and each of its files resolves inside the worktree.\<close>

lemma proposals_are_small:
  assumes "validate_for_propose w (PStr doc) root_text = Inr (files, added)"
  shows "length doc \<le> MAX_DIFF_BYTES \<and> card (set files) \<le> MAX_PROPOSE_FILES \<and> added \<le> MAX_PROPOSE_ADDED_LINES \<and>
    (\<forall>p \<in> set files. \<exists>base target. fw_root w root_text = Some base \<and> fw_under w base p = Some target \<and> is_under base target)"
proof -
  have u: "length s \<le> utf8_length s" for s by (induction s) (auto simp: utf8_length_def)
  have c: "length (distinct_in_order xs) = card (set xs)" "set (distinct_in_order xs) = set xs" for xs :: "string list"
    by (simp_all add: distinct_in_order_def length_remdups_card_conv)
  from assms obtain d :: parsed_diff and zs where d: "utf8_length doc \<le> MAX_DIFF_BYTES" "files = paths d" "added = added_lines d"
    "length (distinct_in_order (paths d)) \<le> MAX_PROPOSE_FILES" "added_lines d \<le> MAX_PROPOSE_ADDED_LINES"
    "mapE (\<lambda>p. lift_path (resolve_within_workspace w root_text p)) (distinct_in_order (paths d)) = Inr zs"
    unfolding validate_for_propose_def Let_def by (clarsimp simp: bindE_Inr_iff not_less split: if_splits)
  have "\<exists>base target. fw_root w root_text = Some base \<and> fw_under w base p = Some target \<and> is_under base target"
    if p: "p \<in> set (paths d)" for p
  proof -
    from p d(6) c(2) [of "paths d"] obtain z where "lift_path (resolve_within_workspace w root_text p) = Inr z"
      by (blast dest: mapE_in)
    then have "resolve_within_workspace w root_text p = Inr z" by (simp add: lift_path_def split: sum.splits)
    from resolve_within_ok [OF this] show ?thesis by blast
  qed
  then have "\<forall>p \<in> set files. \<exists>base target. fw_root w root_text = Some base \<and> fw_under w base p = Some target \<and> is_under base target"
    unfolding d(2) by (rule ballI)
  moreover have "length doc \<le> MAX_DIFF_BYTES" using d(1) by (rule order_trans [OF u])
  moreover have "card (set files) \<le> MAX_PROPOSE_FILES" using d(4) unfolding c(1) d(2) .
  ultimately show ?thesis using d(5) unfolding d(3) by (intro conjI)
qed

text \<open>A token outside ASCII is not refused: the comparison raises.\<close>

lemma odd_token_raises:
  assumes "\<not> list_all is_ascii token" "dget store k = Some r" "pe_later e < pr_expires r"
  shows "snd (fst (apply_confirmed g e plan story_key story k token store)) = Inl PatchTypeError"
  using assms by (simp add: apply_confirmed_def get_patch_record_def compare_digest_def)

text \<open>A time stamp that stays in the name takes the file off the deny list.\<close>

lemma stamped_name_is_not_denied: "\<not> is_denied_relative_path (PStr ''CLAUDE.md 2020-01-01 10:00:00 +0000'')"
  by code_simp

end
