(* ===== verification/LoginFlow.thy ===== *)
theory LoginFlow
  imports Oidc
begin

text \<open>
  Logging a browser in: \<open>src/app/oidc_login.py\<close> and \<open>src/app/oidc_login_routes.py\<close>.  The tables the
  handlers share (attempts under way, sessions, the documents of the identity provider, the request counts)
  are one state; a handler takes the state and returns it.  The network, the token library, the random
  values and the clock readings of a request are its environment.  Log lines are left out.
\<close>

subsection \<open>URLs\<close>

text \<open>
  \<open>urllib.parse.urlsplit\<close> and \<open>urlunsplit\<close>; the check of a bracketed host is an argument, and \<open>None\<close> is the
  \<open>ValueError\<close> of a bad one.
\<close>

record url_parts =
  u_scheme :: string
  u_netloc :: string
  u_path :: string
  u_query :: string
  u_fragment :: string

definition scheme_char :: "char \<Rightarrow> bool" where
  "scheme_char c = (is_lower c \<or> is_upper c \<or> is_digit c \<or> c \<in> set ''+-.'')"

definition cleaned_url :: "string \<Rightarrow> string" where
  "cleaned_url s = filter (\<lambda>c. c \<notin> {CHR 0x09, CHR 0x0A, CHR 0x0D}) (dropWhile (\<lambda>c. (of_char c :: nat) \<le> 32) s)"

definition scheme_split :: "string \<Rightarrow> string \<times> string" where
  "scheme_split s =
     (case partition_at CHR '':'' s of
        (pre, found, rest) \<Rightarrow>
          if found \<and> pre \<noteq> [] \<and> (is_lower (hd pre) \<or> is_upper (hd pre)) \<and> list_all scheme_char pre
          then (map char_lower pre, rest) else ([], s))"

definition netloc_split :: "string \<Rightarrow> string \<times> string" where
  "netloc_split s =
     (if starts_with s ''//''
      then (takeWhile (\<lambda>c. c \<notin> set ''/?#'') (drop 2 s), dropWhile (\<lambda>c. c \<notin> set ''/?#'') (drop 2 s))
      else ([], s))"

definition bracket_ok :: "(string \<Rightarrow> bool) \<Rightarrow> string \<Rightarrow> bool" where
  "bracket_ok bracketed host =
     ((CHR ''['' \<in> set host) = (CHR '']'' \<in> set host) \<and> (CHR ''['' \<in> set host \<longrightarrow> bracketed host))"

definition urlsplit :: "(string \<Rightarrow> bool) \<Rightarrow> string \<Rightarrow> url_parts option" where
  "urlsplit bracketed s =
     (case scheme_split (cleaned_url s) of (scheme, rest) \<Rightarrow>
      case netloc_split rest of (netloc, rest) \<Rightarrow>
        if \<not> bracket_ok bracketed netloc then None
        else (case partition_at CHR ''#'' rest of (rest, _, fragment) \<Rightarrow>
              case partition_at CHR ''?'' rest of (path, _, query) \<Rightarrow>
                Some \<lparr>u_scheme = scheme, u_netloc = netloc, u_path = path, u_query = query, u_fragment = fragment\<rparr>))"

definition urlunsplit :: "url_parts \<Rightarrow> string" where
  "urlunsplit u =
     (let path = u_path u;
          located = (if u_netloc u \<noteq> []
                     then ''//'' @ u_netloc u @ (if path \<noteq> [] \<and> \<not> starts_with path ''/'' then ''/'' @ path else path)
                     else if starts_with path ''//'' then ''//'' @ path
                     else if u_scheme u = ''https'' \<and> (path = [] \<or> starts_with path ''/'') then ''//'' @ path
                     else path) in
      (if u_scheme u \<noteq> [] then u_scheme u @ '':'' @ located else located) @
      (if u_query u \<noteq> [] then ''?'' @ u_query u else []) @
      (if u_fragment u \<noteq> [] then ''#'' @ u_fragment u else []))"

text \<open>\<open>urllib.parse.urlencode\<close> of text.\<close>

definition upper_hex :: "nat \<Rightarrow> char" where
  "upper_hex n = (''0123456789ABCDEF'' ! (n mod 16))"

definition utf8_bytes :: "char \<Rightarrow> nat list" where
  "utf8_bytes c = (let n = of_char c in if n < 128 then [n] else [192 + n div 64, 128 + n mod 64])"

definition quote_plus :: "string \<Rightarrow> string" where
  "quote_plus s =
     concat (map (\<lambda>c. if is_lower c \<or> is_upper c \<or> is_digit c \<or> c \<in> set ''_.-~'' then [c]
                      else if c = CHR '' '' then ''+''
                      else concat (map (\<lambda>b. [CHR ''%'', upper_hex (b div 16), upper_hex b]) (utf8_bytes c))) s)"

definition amp_join :: "string list \<Rightarrow> string" where
  "amp_join xs = (case xs of [] \<Rightarrow> [] | y # ys \<Rightarrow> y @ concat (map (\<lambda>z. ''&'' @ z) ys))"

definition urlencode :: "(string \<times> string) list \<Rightarrow> string" where
  "urlencode ps = amp_join (map (\<lambda>(k, v). quote_plus k @ ''='' @ quote_plus v) ps)"

subsection \<open>Settings\<close>

definition SESSION_COOKIE :: string where
  "SESSION_COOKIE = ''__Host-pipeline_session''"

definition LOGIN_STATE_COOKIE :: string where
  "LOGIN_STATE_COOKIE = ''__Host-pipeline_login_state''"

definition SAFE_METHODS :: "string list" where
  "SAFE_METHODS = [''GET'', ''HEAD'', ''OPTIONS'']"

definition STATE_TTL_S :: rat where "STATE_TTL_S = 600"
definition SESSION_IDLE_TIMEOUT_S :: rat where "SESSION_IDLE_TIMEOUT_S = 1800"
definition SESSION_ABSOLUTE_TIMEOUT_S :: rat where "SESSION_ABSOLUTE_TIMEOUT_S = 28800"
definition DISCOVERY_TTL_S :: rat where "DISCOVERY_TTL_S = 300"
definition DISCOVERY_FAILURE_TTL_S :: rat where "DISCOVERY_FAILURE_TTL_S = 30"
definition MAX_PENDING_LOGINS :: nat where "MAX_PENDING_LOGINS = 1024"
definition AUTH_RATE_WINDOW_S :: rat where "AUTH_RATE_WINDOW_S = 60"
definition MAX_AUTH_REQUESTS :: nat where "MAX_AUTH_REQUESTS = 60"
definition MAX_TRACKED_CLIENTS :: nat where "MAX_TRACKED_CLIENTS = 1024"
definition HTTP_TIMEOUT_S :: rat where "HTTP_TIMEOUT_S = 10"
definition MAX_DOCUMENT_BYTES :: nat where "MAX_DOCUMENT_BYTES = 256 * 1024"

definition LOGIN_SCOPE :: string where
  "LOGIN_SCOPE = ''openid profile email''"

definition DISCOVERY_SUFFIX :: string where
  "DISCOVERY_SUFFIX = ''/.well-known/openid-configuration''"

definition AUTHENTICATION_FAILED :: string where "AUTHENTICATION_FAILED = ''authentication_failed''"
definition INVALID_REQUEST :: string where "INVALID_REQUEST = ''invalid_request''"
definition AUTHENTICATION_UNAVAILABLE :: string where "AUTHENTICATION_UNAVAILABLE = ''authentication_unavailable''"
definition TOO_MANY_REQUESTS :: string where "TOO_MANY_REQUESTS = ''too_many_requests''"

datatype login_exn = LoginErr string | ConfigErr string | UrlErr | SessionRefused nat string

record login_config =
  lc_enabled :: bool
  lc_client_id :: string
  lc_secret_file :: string
  lc_redirect :: string
  lc_issuer :: string
  lc_internal :: string
  lc_private :: bool

definition LOGIN_ENV :: "string list" where
  "LOGIN_ENV = [''PIPELINE_OIDC_CLIENT_ID'', ''PIPELINE_OIDC_CLIENT_SECRET_FILE'', ''PIPELINE_OIDC_REDIRECT_URI'']"

definition misconfigured :: "string \<Rightarrow> login_exn" where
  "misconfigured what = ConfigErr (''OIDC login misconfigured: '' @ what)"

definition require_https :: "(string \<Rightarrow> bool) \<Rightarrow> string \<Rightarrow> string \<Rightarrow> login_exn + string" where
  "require_https bracketed v name =
     (case urlsplit bracketed v of
        None \<Rightarrow> Inl UrlErr
      | Some u \<Rightarrow>
          if u_scheme u \<noteq> ''https'' \<or> u_netloc u = [] \<or> u_fragment u \<noteq> []
          then Inl (misconfigured (name @ '' must be an absolute https URL'')) else Inr v)"

text \<open>What \<open>lstat\<close> tells of the secret's file; the mode holds the permission bits.\<close>

record file_info =
  fi_link :: bool
  fi_regular :: bool
  fi_owned :: bool
  fi_mode :: nat
  fi_size :: nat

definition secret_file_problem :: "file_info option \<Rightarrow> string option" where
  "secret_file_problem info =
     (case info of
        None \<Rightarrow> Some ''is not readable''
      | Some i \<Rightarrow>
          if fi_link i then Some ''must not be a symbolic link''
          else if \<not> fi_regular i then Some ''is not a regular file''
          else if \<not> fi_owned i then Some ''must be owned by the user running the dashboard''
          else if fi_mode i mod 64 \<noteq> 0 then Some ''must not be readable by group or others (chmod 600)''
          else if fi_size i = 0 then Some ''is empty''
          else None)"

definition rstrip_slash :: "string \<Rightarrow> string" where
  "rstrip_slash s = rev (dropWhile (\<lambda>c. c = CHR ''/'') (rev s))"

definition disabled_login :: login_config where
  "disabled_login = \<lparr>lc_enabled = False, lc_client_id = [], lc_secret_file = [], lc_redirect = [], lc_issuer = [],
     lc_internal = [], lc_private = False\<rparr>"

definition load_config ::
  "(string \<Rightarrow> bool) \<Rightarrow> (string \<Rightarrow> file_info option) \<Rightarrow> env \<Rightarrow> login_exn + login_config" where
  "load_config bracketed lstat env =
     (let val = (\<lambda>k. strip (env_get env k));
          missing = filter (\<lambda>k. val k = []) LOGIN_ENV;
          iss = val ''PIPELINE_OIDC_ISSUER'';
          internal = rstrip_slash (val ''PIPELINE_OIDC_INTERNAL_BASE_URL'') in
      if missing = LOGIN_ENV then Inr disabled_login
      else if missing \<noteq> [] then Inl (misconfigured (''set all of '' @ comma_join LOGIN_ENV @ ''; missing '' @ comma_join missing))
      else if iss = [] then Inl (misconfigured ''PIPELINE_OIDC_ISSUER is required for discovery'')
      else
        bindE (require_https bracketed iss ''PIPELINE_OIDC_ISSUER'') (\<lambda>_.
        bindE (require_https bracketed (val ''PIPELINE_OIDC_REDIRECT_URI'') ''PIPELINE_OIDC_REDIRECT_URI'') (\<lambda>_.
        bindE (if internal \<noteq> [] then require_https bracketed internal ''PIPELINE_OIDC_INTERNAL_BASE_URL'' else Inr []) (\<lambda>_.
        case secret_file_problem (lstat (val ''PIPELINE_OIDC_CLIENT_SECRET_FILE'')) of
          Some problem \<Rightarrow> Inl (misconfigured (''PIPELINE_OIDC_CLIENT_SECRET_FILE '' @ problem))
        | None \<Rightarrow>
            Inr \<lparr>lc_enabled = True, lc_client_id = val ''PIPELINE_OIDC_CLIENT_ID'',
                 lc_secret_file = val ''PIPELINE_OIDC_CLIENT_SECRET_FILE'', lc_redirect = val ''PIPELINE_OIDC_REDIRECT_URI'',
                 lc_issuer = rstrip_slash iss, lc_internal = internal,
                 lc_private = (lower (val ''PIPELINE_OIDC_ALLOW_PRIVATE_JWKS'') \<in> {''1'', ''true''})\<rparr>))))"

subsection \<open>Tables\<close>

record pending_login =
  pl_nonce :: string
  pl_verifier :: string
  pl_expires :: rat
  pl_next :: string

record web_session =
  ss_id :: string
  ss_principal :: principal
  ss_created :: rat
  ss_last :: rat

type_synonym endpoints = "(string \<times> string) list"

record login_state =
  ls_pending :: "(string \<times> pending_login) list"
  ls_sessions :: "(string \<times> web_session) list"
  ls_discovery :: "(string \<times> rat \<times> endpoints) list"
  ls_failures :: "(string \<times> rat) list"
  ls_rate :: "(string \<times> rat list) list"
  ls_jwks :: jwks_state

text \<open>The tables a process starts with; the key cache belongs to \<open>oidc.py\<close> and starts empty as well.\<close>

definition reset_state :: login_state where
  "reset_state = \<lparr>ls_pending = [], ls_sessions = [], ls_discovery = [], ls_failures = [], ls_rate = [],
     ls_jwks = \<lparr>jwks_cache = [], jwks_failures = []\<rparr>\<rparr>"

text \<open>A request as the handlers read it.\<close>

record browser_request =
  br_method :: string
  br_peer :: "string option"
  br_query :: "(string \<times> string) list"
  br_cookies :: "(string \<times> string) list"
  br_headers :: "(string \<times> string) list"

text \<open>
  What a request meets: the clock at the count of the request, in the section on the attempts, at the start and
  the failure of discovery, at the start of a session or its lookup; the network with the POST of a form; the
  secret's file; the values drawn for state, nonce, verifier and session; the token library with its unverified
  reading, the environment and the two visits of the key cache; and \<open>urlsafe_b64encode(sha256(...))\<close>.
\<close>

record login_env =
  le_rate_at :: rat
  le_now :: rat
  le_found_at :: rat
  le_failed_at :: rat
  le_session_at :: rat
  le_net :: net
  le_post :: "string \<Rightarrow> string \<Rightarrow> (string \<times> string) list \<Rightarrow> response option"
  le_secret :: "string option"
  le_state :: string
  le_nonce :: string
  le_verifier :: string
  le_session_id :: string
  le_lib :: jwt_lib
  le_unverified :: "string \<Rightarrow> pydict option"
  le_process :: env
  le_visits :: "visit \<times> visit"
  le_bracketed :: "string \<Rightarrow> bool"
  le_digest :: "string \<Rightarrow> string"

datatype login_call =
    Asked string string
  | Posted string string "(string \<times> string) list"
  | Keys oidc_call

definition pkce_challenge :: "(string \<Rightarrow> string) \<Rightarrow> string \<Rightarrow> string" where
  "pkce_challenge digest verifier = rev (dropWhile (\<lambda>c. c = CHR ''='') (rev (digest verifier)))"

definition read_client_secret :: "login_env \<Rightarrow> login_exn + string" where
  "read_client_secret e =
     (case le_secret e of
        None \<Rightarrow> Inl (misconfigured ''PIPELINE_OIDC_CLIENT_SECRET_FILE is not readable'')
      | Some s \<Rightarrow> if strip s = [] then Inl (misconfigured ''PIPELINE_OIDC_CLIENT_SECRET_FILE is empty'') else Inr (strip s))"

subsection \<open>Documents of the provider\<close>

fun read_document :: "(rat \<times> string) list \<Rightarrow> string \<Rightarrow> login_exn + string" where
  "read_document [] body = Inr body"
| "read_document ((t, chunk) # rest) body =
     (if HTTP_TIMEOUT_S < t then Inl (LoginErr ''identity provider response timed out'')
      else if MAX_DOCUMENT_BYTES < length (body @ chunk) then Inl (LoginErr ''identity provider response too large'')
      else read_document rest (body @ chunk))"

definition read_response :: "net \<Rightarrow> string \<Rightarrow> string \<Rightarrow> response option \<Rightarrow> login_exn + pydict" where
  "read_response n failed malformed_msg answer =
     (case answer of
        None \<Rightarrow> Inl (LoginErr ''identity provider request failed'')
      | Some r \<Rightarrow>
          if status_code r \<noteq> 200 then Inl (LoginErr failed)
          else bindE (read_document (chunks r) []) (\<lambda>body.
            if broken r then Inl (LoginErr ''identity provider request failed'')
            else (case json_loads n body of
                    Some (PDict d) \<Rightarrow> Inr d
                  | Some _ \<Rightarrow> Inl (LoginErr malformed_msg)
                  | None \<Rightarrow> Inl (LoginErr ''identity provider response malformed''))))"

definition fetch_json :: "login_env \<Rightarrow> string \<Rightarrow> bool \<Rightarrow> (login_call, login_exn, pydict) logged" where
  "fetch_json e url allow =
     (case resolve_url (le_net e) allow url of
        None \<Rightarrow> liftW (Inl (LoginErr ''identity provider address refused''))
      | Some address \<Rightarrow> tellW [Asked url address]
          (liftW (read_response (le_net e) ''identity provider document unavailable'' ''identity provider document malformed''
                    (stream (le_net e) url address))))"

definition post_form ::
  "login_env \<Rightarrow> string \<Rightarrow> (string \<times> string) list \<Rightarrow> bool \<Rightarrow> (login_call, login_exn, pydict) logged" where
  "post_form e url form allow =
     (case resolve_url (le_net e) allow url of
        None \<Rightarrow> liftW (Inl (LoginErr ''identity provider address refused''))
      | Some address \<Rightarrow> tellW [Posted url address form]
          (liftW (read_response (le_net e) ''identity provider token endpoint failed'' ''identity provider token response malformed''
                    (le_post e url address form))))"

definition server_side_url :: "(string \<Rightarrow> bool) \<Rightarrow> login_config \<Rightarrow> string \<Rightarrow> login_exn + string" where
  "server_side_url bracketed c url =
     (if lc_internal c = [] then Inr url
      else with_some (urlsplit bracketed url) UrlErr (\<lambda>u.
           with_some (urlsplit bracketed (lc_internal c)) UrlErr (\<lambda>b.
           Inr (urlunsplit (u\<lparr>u_scheme := u_scheme b, u_netloc := u_netloc b\<rparr>)))))"

definition https_field :: "pydict \<Rightarrow> string \<Rightarrow> login_exn + string" where
  "https_field doc name =
     with_str (dgetN doc name) (LoginErr ''discovery document incomplete'') (\<lambda>v.
       if starts_with v ''https://'' then Inr v else Inl (LoginErr ''discovery document incomplete''))"

definition read_endpoints :: "(string \<Rightarrow> bool) \<Rightarrow> login_config \<Rightarrow> pydict \<Rightarrow> login_exn + endpoints" where
  "read_endpoints bracketed c doc =
     bindE (guardE (dgetN doc ''issuer'' = PStr (lc_issuer c)) (LoginErr ''discovery issuer mismatch'')) (\<lambda>_.
     bindE (https_field doc ''authorization_endpoint'') (\<lambda>auth.
     bindE (https_field doc ''token_endpoint'') (\<lambda>token.
     bindE (https_field doc ''jwks_uri'') (\<lambda>keys.
     bindE (server_side_url bracketed c token) (\<lambda>token.
     bindE (server_side_url bracketed c keys) (\<lambda>keys.
     Inr ([(''authorization_endpoint'', auth), (''token_endpoint'', token), (''jwks_uri'', keys)] @
          (case dgetN doc ''end_session_endpoint'' of
             PStr v \<Rightarrow> if starts_with v ''https://'' then [(''end_session_endpoint'', v)] else []
           | _ \<Rightarrow> []))))))))"

text \<open>A failed probe is filed with the time it failed at; a \<open>ValueError\<close> of a URL is filed nowhere.\<close>

definition probe_issuer ::
  "login_env \<Rightarrow> login_config \<Rightarrow> string \<Rightarrow> login_state \<Rightarrow> (login_call, login_exn, endpoints) logged \<times> login_state" where
  "probe_issuer e c url st =
     (let m = bindW (fetch_json e url (lc_private c)) (\<lambda>doc. liftW (read_endpoints (le_bracketed e) c doc)) in
      (m, case snd m of
            Inr found \<Rightarrow>
              st\<lparr>ls_discovery := dset (lc_issuer c) (le_found_at e, found) (ls_discovery st),
                 ls_failures := dpop (lc_issuer c) (ls_failures st)\<rparr>
          | Inl (LoginErr _) \<Rightarrow>
              st\<lparr>ls_failures := dset (lc_issuer c) (le_failed_at e + DISCOVERY_FAILURE_TTL_S) (ls_failures st)\<rparr>
          | Inl _ \<Rightarrow> st))"

definition cached_discovery :: "login_state \<Rightarrow> string \<Rightarrow> rat \<Rightarrow> endpoints option" where
  "cached_discovery st iss now =
     (case dget (ls_discovery st) iss of
        None \<Rightarrow> None
      | Some (since, found) \<Rightarrow> if now - since < DISCOVERY_TTL_S then Some found else None)"

definition cooling_down :: "login_state \<Rightarrow> string \<Rightarrow> rat \<Rightarrow> bool" where
  "cooling_down st iss now = (case dget (ls_failures st) iss of None \<Rightarrow> False | Some until \<Rightarrow> now < until)"

definition discovery ::
  "login_env \<Rightarrow> login_config \<Rightarrow> login_state \<Rightarrow> (login_call, login_exn, endpoints) logged \<times> login_state" where
  "discovery e c st =
     (case server_side_url (le_bracketed e) c (lc_issuer c @ DISCOVERY_SUFFIX) of
        Inl x \<Rightarrow> (liftW (Inl x), st)
      | Inr url \<Rightarrow>
          (case cached_discovery st (lc_issuer c) (le_found_at e) of
             Some found \<Rightarrow> (retW found, st)
           | None \<Rightarrow>
               if cooling_down st (lc_issuer c) (le_found_at e)
               then (liftW (Inl (LoginErr ''discovery recently failed'')), st)
               else probe_issuer e c url st))"

subsection \<open>Counting requests\<close>

definition client_key :: "browser_request \<Rightarrow> string" where
  "client_key rq = (case br_peer rq of Some host \<Rightarrow> host | None \<Rightarrow> ''unknown'')"

definition recent :: "rat \<Rightarrow> rat list \<Rightarrow> rat list" where
  "recent now stamps = filter (\<lambda>t. now - t < AUTH_RATE_WINDOW_S) stamps"

definition rate_limited :: "string \<Rightarrow> rat \<Rightarrow> login_state \<Rightarrow> bool \<times> login_state" where
  "rate_limited key now st =
     (let stamps = recent now (case dget (ls_rate st) key of Some ts \<Rightarrow> ts | None \<Rightarrow> []);
          limited = (MAX_AUTH_REQUESTS \<le> length stamps);
          counted = dset key (if limited then stamps else stamps @ [now]) (ls_rate st);
          live = filter (\<lambda>(k, ts). recent now ts \<noteq> []) counted in
      (limited, st\<lparr>ls_rate := drop (length live - MAX_TRACKED_CLIENTS) live\<rparr>))"

subsection \<open>Replies\<close>

text \<open>A cookie set with its value, lifetime and \<open>SameSite\<close>, or deleted; path, \<open>Secure\<close> and \<open>HttpOnly\<close> never vary.\<close>

datatype cookie = SetCookie string string rat string | DropCookie string string

datatype reply_body = ErrorBody string | Location string | EndSession "string option"

record reply =
  rp_status :: nat
  rp_body :: reply_body
  rp_cookies :: "cookie list"

definition set_login_state_cookie :: "string \<Rightarrow> cookie" where
  "set_login_state_cookie state = SetCookie LOGIN_STATE_COOKIE state STATE_TTL_S ''lax''"

definition clear_login_state_cookie :: cookie where
  "clear_login_state_cookie = DropCookie LOGIN_STATE_COOKIE ''lax''"

definition refuse_login :: "nat \<Rightarrow> string \<Rightarrow> bool \<Rightarrow> reply" where
  "refuse_login status payload clear_state =
     \<lparr>rp_status = status, rp_body = ErrorBody payload, rp_cookies = (if clear_state then [clear_login_state_cookie] else [])\<rparr>"

definition unavailable_reply :: reply where
  "unavailable_reply = \<lparr>rp_status = 503, rp_body = ErrorBody AUTHENTICATION_UNAVAILABLE, rp_cookies = []\<rparr>"

definition with_query :: "(string \<Rightarrow> bool) \<Rightarrow> string \<Rightarrow> (string \<times> string) list \<Rightarrow> login_exn + string" where
  "with_query bracketed url params =
     with_some (urlsplit bracketed url) UrlErr (\<lambda>u.
       Inr (urlunsplit (u\<lparr>u_query := amp_join (filter (\<lambda>q. q \<noteq> []) [u_query u, urlencode params])\<rparr>)))"

text \<open>\<open>urlparse\<close> splits parameters off the path only; scheme and authority are those of \<open>urlsplit\<close>.\<close>

definition validate_next_path :: "(string \<Rightarrow> bool) \<Rightarrow> string option \<Rightarrow> login_exn + string" where
  "validate_next_path bracketed raw =
     (case raw of
        None \<Rightarrow> Inr ''/''
      | Some s \<Rightarrow>
          if s = [] \<or> \<not> starts_with s ''/'' \<or> starts_with s ''//'' then Inr ''/''
          else if CHR 0x5C \<in> set s then Inr ''/''
          else if list_ex (\<lambda>c. (of_char c :: nat) < 32 \<or> (of_char c :: nat) = 127) s then Inr ''/''
          else with_some (urlsplit bracketed s) UrlErr (\<lambda>u.
                 Inr (if u_scheme u \<noteq> [] \<or> u_netloc u \<noteq> [] then ''/'' else s)))"

definition all_ascii :: "string \<Rightarrow> bool" where
  "all_ascii s = list_all (\<lambda>c. (of_char c :: nat) < 128) s"

definition state_is_from_this_browser :: "browser_request \<Rightarrow> string \<Rightarrow> bool" where
  "state_is_from_this_browser rq state =
     (let bound = (case dget (br_cookies rq) LOGIN_STATE_COOKIE of Some v \<Rightarrow> v | None \<Rightarrow> []) in
      if bound = [] \<or> \<not> all_ascii bound \<or> \<not> all_ascii state then False else bound = state)"

subsection \<open>Starting a login\<close>

definition prune_pending :: "rat \<Rightarrow> (string \<times> pending_login) list \<Rightarrow> (string \<times> pending_login) list" where
  "prune_pending now ps = filter (\<lambda>(k, p). now < pl_expires p) ps"

definition login_location :: "login_env \<Rightarrow> login_config \<Rightarrow> endpoints \<Rightarrow> login_exn + string" where
  "login_location e c found =
     with_query (le_bracketed e) (case dget found ''authorization_endpoint'' of Some u \<Rightarrow> u | None \<Rightarrow> [])
       [(''response_type'', ''code''), (''client_id'', lc_client_id c), (''redirect_uri'', lc_redirect c),
        (''scope'', LOGIN_SCOPE), (''state'', le_state e), (''nonce'', le_nonce e),
        (''code_challenge'', pkce_challenge (le_digest e) (le_verifier e)), (''code_challenge_method'', ''S256'')]"

definition store_attempt ::
  "login_env \<Rightarrow> login_config \<Rightarrow> browser_request \<Rightarrow> endpoints \<Rightarrow> login_state \<Rightarrow> (login_call, login_exn, reply) logged \<times> login_state" where
  "store_attempt e c rq found st =
     (let st = st\<lparr>ls_pending := prune_pending (le_now e) (ls_pending st)\<rparr> in
      if MAX_PENDING_LOGINS \<le> length (ls_pending st)
      then (retW (refuse_login 429 TOO_MANY_REQUESTS False), st)
      else (case validate_next_path (le_bracketed e) (dget (br_query rq) ''next'') of
              Inl x \<Rightarrow> (liftW (Inl x), st)
            | Inr next_path \<Rightarrow>
                (liftW (bindE (login_location e c found) (\<lambda>location.
                   Inr \<lparr>rp_status = 302, rp_body = Location location, rp_cookies = [set_login_state_cookie (le_state e)]\<rparr>)),
                 st\<lparr>ls_pending := dset (le_state e)
                      \<lparr>pl_nonce = le_nonce e, pl_verifier = le_verifier e, pl_expires = le_now e + STATE_TTL_S,
                       pl_next = next_path\<rparr> (ls_pending st)\<rparr>)))"

text \<open>The handlers catch an \<open>OidcLoginError\<close> of discovery, and nothing else.\<close>

definition begin_login ::
  "login_env \<Rightarrow> login_config \<Rightarrow> browser_request \<Rightarrow> login_state \<Rightarrow> (login_call, login_exn, reply) logged \<times> login_state" where
  "begin_login e c rq st =
     (case rate_limited (client_key rq) (le_rate_at e) st of
        (True, st) \<Rightarrow> (retW (refuse_login 429 TOO_MANY_REQUESTS True), st)
      | (False, st) \<Rightarrow>
          (case discovery e c st of
             (m, st) \<Rightarrow>
               (case snd m of
                  Inl (LoginErr _) \<Rightarrow> (tellW (fst m) (retW unavailable_reply), st)
                | Inl x \<Rightarrow> (tellW (fst m) (liftW (Inl x)), st)
                | Inr found \<Rightarrow>
                    (case store_attempt e c rq found st of (m', st) \<Rightarrow> (tellW (fst m) m', st)))))"

subsection \<open>Finishing a login\<close>

definition expired_session :: "rat \<Rightarrow> web_session \<Rightarrow> bool" where
  "expired_session now s \<longleftrightarrow> SESSION_ABSOLUTE_TIMEOUT_S \<le> now - ss_created s \<or> SESSION_IDLE_TIMEOUT_S \<le> now - ss_last s"

definition prune_sessions :: "rat \<Rightarrow> (string \<times> web_session) list \<Rightarrow> (string \<times> web_session) list" where
  "prune_sessions now ss = filter (\<lambda>(k, s). \<not> expired_session now s) ss"

definition create_session :: "login_env \<Rightarrow> principal \<Rightarrow> login_state \<Rightarrow> login_state" where
  "create_session e p st =
     st\<lparr>ls_sessions := dset (le_session_id e)
         \<lparr>ss_id = le_session_id e, ss_principal = p, ss_created = le_session_at e, ss_last = le_session_at e\<rparr>
         (prune_sessions (le_session_at e) (ls_sessions st))\<rparr>"

definition nonce_matches :: "login_env \<Rightarrow> string \<Rightarrow> pydict \<Rightarrow> bool" where
  "nonce_matches e nonce claims =
     (case dgetN claims ''nonce'' of PStr n \<Rightarrow> all_ascii n \<and> n = nonce | _ \<Rightarrow> False)"

text \<open>The ID token: verified, then read once more for its nonce.\<close>

definition login_settings :: "login_env \<Rightarrow> login_config \<Rightarrow> endpoints \<Rightarrow> oidc_error + oidc_settings" where
  "login_settings e c found =
     mk_settings (le_net e) (PStr (lc_issuer c)) (PStr (lc_client_id c))
       (PStr (case dget found ''jwks_uri'' of Some u \<Rightarrow> u | None \<Rightarrow> [])) (PInt 60) (lc_private c)"

definition verified_principal ::
  "login_env \<Rightarrow> login_config \<Rightarrow> endpoints \<Rightarrow> string \<Rightarrow> login_state \<Rightarrow> (login_call, oidc_error, principal) logged \<times> login_state" where
  "verified_principal e c found token st =
     (case login_settings e c found of
        Inl x \<Rightarrow> (liftW (Inl x), st)
      | Inr s \<Rightarrow>
          (case verify_token (le_lib e) (le_process e) (fst (le_visits e)) (snd (le_visits e)) s (Some token) (ls_jwks st) of
             (m, keys) \<Rightarrow> ((map Keys (fst m), snd m), st\<lparr>ls_jwks := keys\<rparr>)))"

definition start_session ::
  "login_env \<Rightarrow> login_config \<Rightarrow> pending_login \<Rightarrow> endpoints \<Rightarrow> string \<Rightarrow> login_state \<Rightarrow>
   (login_call, login_exn, reply) logged \<times> login_state" where
  "start_session e c attempt found token st =
     (case verified_principal e c found token st of
        (m, st) \<Rightarrow>
          (case snd m of
             Inl _ \<Rightarrow> (tellW (fst m) (retW (refuse_login 401 AUTHENTICATION_FAILED True)), st)
           | Inr p \<Rightarrow>
               (case le_unverified e token of
                  None \<Rightarrow> (tellW (fst m) (retW (refuse_login 401 AUTHENTICATION_FAILED True)), st)
                | Some claims \<Rightarrow>
                    if \<not> nonce_matches e (pl_nonce attempt) claims
                    then (tellW (fst m) (retW (refuse_login 401 AUTHENTICATION_FAILED True)), st)
                    else (tellW (fst m) (retW
                            \<lparr>rp_status = 302, rp_body = Location (pl_next attempt),
                             rp_cookies = [SetCookie SESSION_COOKIE (le_session_id e) SESSION_ABSOLUTE_TIMEOUT_S ''strict'',
                                           clear_login_state_cookie]\<rparr>),
                          create_session e p st))))"

definition exchange_form :: "login_config \<Rightarrow> string \<Rightarrow> string \<Rightarrow> pending_login \<Rightarrow> (string \<times> string) list" where
  "exchange_form c code secret attempt =
     [(''grant_type'', ''authorization_code''), (''code'', code), (''redirect_uri'', lc_redirect c),
      (''client_id'', lc_client_id c), (''client_secret'', secret), (''code_verifier'', pl_verifier attempt)]"

definition exchange_code ::
  "login_env \<Rightarrow> login_config \<Rightarrow> pending_login \<Rightarrow> string \<Rightarrow> endpoints \<Rightarrow> login_state \<Rightarrow>
   (login_call, login_exn, reply) logged \<times> login_state" where
  "exchange_code e c attempt code found st =
     (case read_client_secret e of
        Inl _ \<Rightarrow> (retW unavailable_reply, st)
      | Inr secret \<Rightarrow>
          (let m = post_form e (case dget found ''token_endpoint'' of Some u \<Rightarrow> u | None \<Rightarrow> [])
                     (exchange_form c code secret attempt) (lc_private c) in
           case snd m of
             Inl _ \<Rightarrow> (tellW (fst m) (retW (refuse_login 401 AUTHENTICATION_FAILED True)), st)
           | Inr tokens \<Rightarrow>
               (case dgetN tokens ''id_token'' of
                  PStr token \<Rightarrow>
                    if token = [] then (tellW (fst m) (retW (refuse_login 401 AUTHENTICATION_FAILED True)), st)
                    else (case start_session e c attempt found token st of (m', st) \<Rightarrow> (tellW (fst m) m', st))
                | _ \<Rightarrow> (tellW (fst m) (retW (refuse_login 401 AUTHENTICATION_FAILED True)), st))))"

definition redeem ::
  "login_env \<Rightarrow> login_config \<Rightarrow> browser_request \<Rightarrow> pending_login \<Rightarrow> login_state \<Rightarrow>
   (login_call, login_exn, reply) logged \<times> login_state" where
  "redeem e c rq attempt st =
     (let code = env_get (br_query rq) ''code'' in
      if pl_expires attempt \<le> le_now e then (retW (refuse_login 400 INVALID_REQUEST True), st)
      else if env_get (br_query rq) ''error'' \<noteq> [] then (retW (refuse_login 401 AUTHENTICATION_FAILED True), st)
      else if code = [] then (retW (refuse_login 400 INVALID_REQUEST True), st)
      else (case discovery e c st of
              (m, st) \<Rightarrow>
                (case snd m of
                   Inl (LoginErr _) \<Rightarrow> (tellW (fst m) (retW unavailable_reply), st)
                 | Inl x \<Rightarrow> (tellW (fst m) (liftW (Inl x)), st)
                 | Inr found \<Rightarrow>
                     (case exchange_code e c attempt code found st of (m', st) \<Rightarrow> (tellW (fst m) m', st)))))"

definition finish_login ::
  "login_env \<Rightarrow> login_config \<Rightarrow> browser_request \<Rightarrow> login_state \<Rightarrow> (login_call, login_exn, reply) logged \<times> login_state" where
  "finish_login e c rq st =
     (case rate_limited (client_key rq) (le_rate_at e) st of
        (True, st) \<Rightarrow> (retW (refuse_login 429 TOO_MANY_REQUESTS True), st)
      | (False, st) \<Rightarrow>
          (let state = env_get (br_query rq) ''state'' in
           if state = [] then (retW (refuse_login 400 INVALID_REQUEST True), st)
           else if \<not> state_is_from_this_browser rq state then (retW (refuse_login 400 INVALID_REQUEST True), st)
           else (case dget (ls_pending st) state of
                   None \<Rightarrow> (retW (refuse_login 400 INVALID_REQUEST True), st)
                 | Some attempt \<Rightarrow> redeem e c rq attempt (st\<lparr>ls_pending := dpop state (ls_pending st)\<rparr>))))"

subsection \<open>Sessions\<close>

definition load_session :: "string option \<Rightarrow> rat \<Rightarrow> login_state \<Rightarrow> web_session option \<times> login_state" where
  "load_session sid now st =
     (case sid of
        None \<Rightarrow> (None, st)
      | Some k \<Rightarrow>
          if k = [] then (None, st)
          else (case dget (ls_sessions st) k of
                  None \<Rightarrow> (None, st)
                | Some s \<Rightarrow>
                    if expired_session now s then (None, st\<lparr>ls_sessions := dpop k (ls_sessions st)\<rparr>)
                    else (let s' = s\<lparr>ss_last := max (ss_last s) now\<rparr> in
                          (Some s', st\<lparr>ls_sessions := dset k s' (ls_sessions st)\<rparr>))))"

definition session_principal :: "login_env \<Rightarrow> browser_request \<Rightarrow> login_state \<Rightarrow> principal option \<times> login_state" where
  "session_principal e rq st =
     (case load_session (dget (br_cookies rq) SESSION_COOKIE) (le_session_at e) st of
        (found, st) \<Rightarrow> (map_option ss_principal found, st))"

definition allows_cookie_write :: "login_env \<Rightarrow> browser_request \<Rightarrow> login_config \<Rightarrow> login_exn + bool" where
  "allows_cookie_write e rq c =
     (if br_method rq \<in> set SAFE_METHODS then Inr True
      else if \<not> lc_enabled c then Inr False
      else if lower (strip (env_get (br_headers rq) ''sec-fetch-site'')) = ''same-origin'' then Inr True
      else with_some (urlsplit (le_bracketed e) (lc_redirect c)) UrlErr (\<lambda>expected.
           with_some (urlsplit (le_bracketed e) (env_get (br_headers rq) ''origin'')) UrlErr (\<lambda>origin.
           Inr (u_netloc expected \<noteq> [] \<and> u_netloc origin \<noteq> [] \<and>
                lower (u_scheme origin) = lower (u_scheme expected) \<and>
                lower (u_netloc origin) = lower (u_netloc expected)))))"

definition bearer_credential :: "browser_request \<Rightarrow> string" where
  "bearer_credential rq =
     (case partition_at CHR '' '' (env_get (br_headers rq) ''authorization'') of
        (scheme, _, token) \<Rightarrow> if lower scheme = ''bearer'' then strip token else [])"

definition authenticate_api_request ::
  "login_env \<Rightarrow> oidc_settings \<Rightarrow> login_config \<Rightarrow> browser_request \<Rightarrow> login_state \<Rightarrow>
   (login_call, login_exn, principal) logged \<times> login_state" where
  "authenticate_api_request e s c rq st =
     (if bearer_credential rq \<noteq> []
      then (case verify_token (le_lib e) (le_process e) (fst (le_visits e)) (snd (le_visits e)) s
                   (Some (bearer_credential rq)) (ls_jwks st) of
              (m, keys) \<Rightarrow>
                ((map Keys (fst m), case snd m of Inl _ \<Rightarrow> Inl (SessionRefused 401 ''Unauthorized'') | Inr p \<Rightarrow> Inr p),
                 st\<lparr>ls_jwks := keys\<rparr>))
      else (case (if lc_enabled c then session_principal e rq st else (None, st)) of
              (None, st) \<Rightarrow> (liftW (Inl (SessionRefused 401 ''Unauthorized'')), st)
            | (Some p, st) \<Rightarrow>
                (liftW (bindE (allows_cookie_write e rq c) (\<lambda>allowed.
                   if allowed then Inr p else Inl (SessionRefused 403 ''Forbidden''))), st)))"

definition end_session_url ::
  "login_env \<Rightarrow> login_config \<Rightarrow> login_state \<Rightarrow> (login_call, login_exn, string option) logged \<times> login_state" where
  "end_session_url e c st =
     (case discovery e c st of
        (m, st) \<Rightarrow>
          (case snd m of
             Inr found \<Rightarrow> (tellW (fst m) (retW (dget found ''end_session_endpoint'')), st)
           | Inl (LoginErr _) \<Rightarrow> (tellW (fst m) (retW None), st)
           | Inl x \<Rightarrow> (tellW (fst m) (liftW (Inl x)), st)))"

definition end_session ::
  "login_env \<Rightarrow> login_config \<Rightarrow> browser_request \<Rightarrow> bool \<Rightarrow> login_state \<Rightarrow>
   (login_call, login_exn, reply) logged \<times> login_state" where
  "end_session e c rq as_json st =
     (let sid = env_get (br_cookies rq) SESSION_COOKIE;
          st = (if sid = [] then st else st\<lparr>ls_sessions := dpop sid (ls_sessions st)\<rparr>);
          cookies = [DropCookie SESSION_COOKIE ''strict''] in
      if as_json
      then (case end_session_url e c st of
              (m, st) \<Rightarrow> (bindW m (\<lambda>url. retW \<lparr>rp_status = 200, rp_body = EndSession url, rp_cookies = cookies\<rparr>), st))
      else (retW \<lparr>rp_status = 302, rp_body = Location ''/'', rp_cookies = cookies\<rparr>, st))"

subsection \<open>Requests\<close>

datatype web_request =
    Login browser_request
  | Callback browser_request
  | Logout bool browser_request
  | Api oidc_settings browser_request

datatype web_answer = Replied reply | Admitted principal | NoRoute

text \<open>The routes exist only where login is configured.\<close>

definition replied :: "(login_call, login_exn, reply) logged \<times> login_state \<Rightarrow> (login_call, login_exn, web_answer) logged \<times> login_state" where
  "replied r = (case r of (m, st) \<Rightarrow> (bindW m (\<lambda>x. retW (Replied x)), st))"

definition serve_web ::
  "login_config \<Rightarrow> login_env \<Rightarrow> web_request \<Rightarrow> login_state \<Rightarrow> (login_call, login_exn, web_answer) logged \<times> login_state" where
  "serve_web c e rq st =
     (case rq of
        Login b \<Rightarrow> if lc_enabled c then replied (begin_login e c b st) else (retW NoRoute, st)
      | Callback b \<Rightarrow> if lc_enabled c then replied (finish_login e c b st) else (retW NoRoute, st)
      | Logout as_json b \<Rightarrow> if lc_enabled c then replied (end_session e c b as_json st) else (retW NoRoute, st)
      | Api s b \<Rightarrow>
          (case authenticate_api_request e s c b st of
             (m, st) \<Rightarrow> (bindW m (\<lambda>p. retW (Admitted p)), st)))"

record web_event =
  we_env :: login_env
  we_request :: web_request
  we_calls :: "login_call list"
  we_answer :: "login_exn + web_answer"

fun serve_all :: "login_config \<Rightarrow> (login_env \<times> web_request) list \<Rightarrow> login_state \<Rightarrow> web_event list" where
  "serve_all c [] st = []"
| "serve_all c ((e, rq) # rest) st =
     (case serve_web c e rq st of
        (m, st) \<Rightarrow> \<lparr>we_env = e, we_request = rq, we_calls = fst m, we_answer = snd m\<rparr> # serve_all c rest st)"

fun tables_after :: "login_config \<Rightarrow> (login_env \<times> web_request) list \<Rightarrow> login_state \<Rightarrow> login_state" where
  "tables_after c [] st = st"
| "tables_after c ((e, rq) # rest) st = tables_after c rest (snd (serve_web c e rq st))"

end
