(* ===== verification/LoginSafety.thy ===== *)
theory LoginSafety
  imports LoginFlow
begin

text \<open>
  What the login of \<open>LoginFlow\<close> promises over any sequence of requests: a session is the end of a login that
  this browser began, it lasts as long as its deadlines say, an attempt is spent once, redirects stay on the
  site, and one client's requests are limited.
\<close>

subsection \<open>What the sections leave alone\<close>

text \<open>Counting, discovery and verifying a token change neither attempts nor sessions.\<close>

definition same_tables :: "login_state \<Rightarrow> login_state \<Rightarrow> bool" where
  "same_tables st st' \<longleftrightarrow> ls_pending st' = ls_pending st \<and> ls_sessions st' = ls_sessions st"

lemma rate_limited_documents:
  "rate_limited k now st = (limited, st') \<Longrightarrow>
     ls_discovery st' = ls_discovery st \<and> ls_failures st' = ls_failures st \<and> ls_jwks st' = ls_jwks st"
  by (auto simp: rate_limited_def Let_def)

lemma discovery_keys: "discovery e c st = (m, st') \<Longrightarrow> ls_jwks st' = ls_jwks st"
  by (auto simp: discovery_def probe_issuer_def Let_def split: sum.splits option.splits if_splits login_exn.splits)

lemma discovery_reads:
  assumes "ls_discovery st' = ls_discovery st" "ls_failures st' = ls_failures st"
  shows "fst (discovery e c st') = fst (discovery e c st)"
  using assms
  by (simp add: discovery_def probe_issuer_def Let_def cached_discovery_def cooling_down_def split: sum.split option.split)

lemma same_tables_refl [simp]: "same_tables st st"
  by (simp add: same_tables_def)

lemma same_tables_trans: "same_tables a b \<Longrightarrow> same_tables b c \<Longrightarrow> same_tables a c"
  by (simp add: same_tables_def)

lemma rate_limited_same: "rate_limited k now st = (limited, st') \<Longrightarrow> same_tables st st'"
  by (auto simp: rate_limited_def Let_def same_tables_def)

lemma discovery_same: "discovery e c st = (m, st') \<Longrightarrow> same_tables st st'"
  by (auto simp: discovery_def probe_issuer_def Let_def same_tables_def split: sum.splits option.splits if_splits login_exn.splits)

lemma verified_principal_same: "verified_principal e c found token st = (m, st') \<Longrightarrow> same_tables st st'"
  by (auto simp: verified_principal_def same_tables_def split: sum.splits prod.splits)

definition posts :: "login_call list \<Rightarrow> bool" where
  "posts cs \<longleftrightarrow> (\<exists>url address form. Posted url address form \<in> set cs)"

lemma posts_append [simp]: "posts (xs @ ys) \<longleftrightarrow> posts xs \<or> posts ys"
  by (auto simp: posts_def)

lemma posts_Nil [simp]: "\<not> posts []"
  by (simp add: posts_def)

lemma posts_Asked [simp]: "posts (Asked u a # cs) = posts cs"
  by (auto simp: posts_def)

lemma posts_Keys [simp]: "\<not> posts (map Keys cs)"
  by (auto simp: posts_def)

lemma discovery_quiet: "discovery e c st = (m, st') \<Longrightarrow> \<not> posts (fst m)"
  by (auto simp: discovery_def probe_issuer_def fetch_json_def Let_def fst_bindW split: sum.splits option.splits if_splits)

subsection \<open>Cookies of replies\<close>

definition sets_cookie :: "(login_exn + web_answer) \<Rightarrow> string \<Rightarrow> string \<Rightarrow> bool" where
  "sets_cookie a name v \<longleftrightarrow> (\<exists>r age site. a = Inr (Replied r) \<and> SetCookie name v age site \<in> set (rp_cookies r))"

lemma cookie_names [simp]: "SESSION_COOKIE \<noteq> LOGIN_STATE_COOKIE" "LOGIN_STATE_COOKIE \<noteq> SESSION_COOKIE"
  by (simp_all add: SESSION_COOKIE_def LOGIN_STATE_COOKIE_def)

lemma refuse_login_simps [simp]:
  "rp_status (refuse_login s p b) = s" "rp_body (refuse_login s p b) = ErrorBody p"
  "SetCookie n v a w \<notin> set (rp_cookies (refuse_login s p b))"
  by (simp_all add: refuse_login_def clear_login_state_cookie_def)

lemma unavailable_simps [simp]:
  "rp_body unavailable_reply = ErrorBody AUTHENTICATION_UNAVAILABLE" "rp_cookies unavailable_reply = []"
  by (simp_all add: unavailable_reply_def)

definition begun :: "login_env \<Rightarrow> string \<Rightarrow> pending_login \<Rightarrow> bool" where
  "begun e state a \<longleftrightarrow> state = le_state e \<and> pl_nonce a = le_nonce e \<and> pl_verifier a = le_verifier e \<and>
     pl_expires a = le_now e + STATE_TTL_S"

text \<open>A path on this site: one slash first, and nothing a browser would read as an authority.\<close>

definition safe_path :: "string \<Rightarrow> bool" where
  "safe_path s \<longleftrightarrow> starts_with s ''/'' \<and> \<not> starts_with s ''//'' \<and> CHR 0x5C \<notin> set s \<and>
     (\<forall>c \<in> set s. 32 \<le> (of_char c :: nat) \<and> of_char c \<noteq> (127 :: nat))"

lemma next_path_total:
  "\<exists>p. validate_next_path bracketed raw = Inr p \<and> safe_path p \<and> (p = ''/'' \<or> raw = Some p)"
proof -
  have slash: "safe_path ''/''" by (simp add: safe_path_def starts_with_def)
  show ?thesis
  proof (cases "\<exists>s. raw = Some s \<and> \<not> (s = [] \<or> \<not> starts_with s ''/'' \<or> starts_with s ''//'') \<and> CHR 0x5C \<notin> set s \<and>
      \<not> list_ex (\<lambda>c. (of_char c :: nat) < 32 \<or> (of_char c :: nat) = 127) s")
    case True
    then obtain s where s: "raw = Some s" "starts_with s ''/''" "\<not> starts_with s ''//''" "CHR 0x5C \<notin> set s"
      "\<not> list_ex (\<lambda>c. (of_char c :: nat) < 32 \<or> (of_char c :: nat) = 127) s" by blast
    then have "safe_path s" by (fastforce simp: safe_path_def list_ex_iff)
    obtain t where t: "s = CHR ''/'' # t" using s(2) by (cases s) (auto simp: starts_with_def)
    have plain: "\<forall>c \<in> set s. c \<notin> {CHR 0x09, CHR 0x0A, CHR 0x0D}"
      using s(5) by (auto simp: list_ex_iff)
    then have "cleaned_url s = s"
      by (auto simp: cleaned_url_def t filter_id_conv)
    moreover have "scheme_split s = ([], s)"
      by (auto simp: scheme_split_def t is_lower_def is_upper_def split: prod.splits if_splits)
    moreover have "netloc_split s = ([], s)" using s(3) by (simp add: netloc_split_def)
    ultimately have "\<exists>u. urlsplit bracketed s = Some u \<and> u_scheme u = [] \<and> u_netloc u = []"
      by (simp add: urlsplit_def bracket_ok_def split: prod.split)
    with s \<open>safe_path s\<close> slash show ?thesis by (auto simp: validate_next_path_def with_some_def)
  next
    case False
    with slash show ?thesis by (auto simp: validate_next_path_def split: option.split)
  qed
qed

subsection \<open>Tables\<close>

lemma set_dset: "set (dset k v d) \<subseteq> insert (k, v) (set d)"
  unfolding dset_def by (induction d) auto

lemma set_dpop: "x \<in> set (dpop k d) \<longleftrightarrow> x \<in> set d \<and> fst x \<noteq> k"
  unfolding dpop_def by (cases x) (auto simp: AList.delete_eq)

lemma dget_set: "dget d k = Some v \<Longrightarrow> (k, v) \<in> set d"
  unfolding dget_def by (rule map_of_SomeD)

lemma length_dset: "length (dset k v d) \<le> Suc (length d)"
  unfolding dset_def by (induction d) auto

text \<open>A login stores at most one attempt, the one it began.\<close>

definition safe_attempt :: "login_env \<Rightarrow> string \<Rightarrow> pending_login \<Rightarrow> bool" where
  "safe_attempt e k a \<longleftrightarrow> begun e k a \<and> safe_path (pl_next a)"

lemma store_attempt_cases:
  assumes "store_attempt e c rq found st = (m, st')"
  shows "ls_sessions st' = ls_sessions st \<and> ls_rate st' = ls_rate st \<and> \<not> posts (fst m) \<and>
    (\<forall>r v a site. snd m = Inr r \<longrightarrow> SetCookie SESSION_COOKIE v a site \<notin> set (rp_cookies r)) \<and>
    (\<forall>k a. (k, a) \<in> set (ls_pending st') \<longrightarrow> (k, a) \<in> set (ls_pending st) \<or> safe_attempt e k a) \<and>
    (length (ls_pending st) \<le> MAX_PENDING_LOGINS \<longrightarrow> length (ls_pending st') \<le> MAX_PENDING_LOGINS)"
proof (cases "MAX_PENDING_LOGINS \<le> length (prune_pending (le_now e) (ls_pending st))")
  case True
  with assms have "m = retW (refuse_login 429 TOO_MANY_REQUESTS False)"
    "st' = st\<lparr>ls_pending := prune_pending (le_now e) (ls_pending st)\<rparr>"
    by (auto simp: store_attempt_def Let_def)
  then show ?thesis by (auto simp: prune_pending_def intro: order_trans [OF length_filter_le])
next
  case False
  obtain p where p: "validate_next_path (le_bracketed e) (dget (br_query rq) ''next'') = Inr p" "safe_path p"
    using next_path_total by blast
  let ?a = "\<lparr>pl_nonce = le_nonce e, pl_verifier = le_verifier e, pl_expires = le_now e + STATE_TTL_S, pl_next = p\<rparr>"
  let ?ps = "prune_pending (le_now e) (ls_pending st)"
  from False assms p(1) have m: "m = liftW (bindE (login_location e c found) (\<lambda>location.
      Inr \<lparr>rp_status = 302, rp_body = Location location, rp_cookies = [set_login_state_cookie (le_state e)]\<rparr>))"
    and st': "st' = st\<lparr>ls_pending := dset (le_state e) ?a ?ps\<rparr>"
    by (auto simp: store_attempt_def Let_def)
  have "(k, a) \<in> set (ls_pending st) \<or> safe_attempt e k a" if "(k, a) \<in> set (ls_pending st')" for k a
    using that p(2) set_dset [of "le_state e" ?a ?ps]
    by (auto simp: st' safe_attempt_def begun_def prune_pending_def)
  moreover have "length (ls_pending st') \<le> MAX_PENDING_LOGINS"
    using False length_dset [of "le_state e" ?a ?ps] by (simp add: st')
  ultimately show ?thesis
    by (auto simp: m st' bindE_Inr_iff set_login_state_cookie_def)
qed

lemma begin_login_cases:
  assumes "begin_login e c rq st = (m, st')"
  shows "ls_sessions st' = ls_sessions st \<and> \<not> posts (fst m) \<and>
    (\<forall>r v a site. snd m = Inr r \<longrightarrow> SetCookie SESSION_COOKIE v a site \<notin> set (rp_cookies r)) \<and>
    (\<forall>k a. (k, a) \<in> set (ls_pending st') \<longrightarrow> (k, a) \<in> set (ls_pending st) \<or> safe_attempt e k a) \<and>
    (length (ls_pending st) \<le> MAX_PENDING_LOGINS \<longrightarrow> length (ls_pending st') \<le> MAX_PENDING_LOGINS)"
proof (cases "rate_limited (client_key rq) (le_rate_at e) st")
  case rl: (Pair limited st1)
  note s1 = rate_limited_same [OF rl]
  show ?thesis
  proof (cases limited)
    case True
    with assms rl s1 show ?thesis by (auto simp: begin_login_def same_tables_def)
  next
    case False
    obtain m2 st2 where d: "discovery e c st1 = (m2, st2)" by (cases "discovery e c st1")
    note s2 = same_tables_trans [OF s1 discovery_same [OF d]] and q = discovery_quiet [OF d]
    show ?thesis
    proof (cases "snd m2")
      case (Inl x)
      with assms rl False d s2 q show ?thesis by (cases x) (auto simp: begin_login_def same_tables_def)
    next
      case (Inr found)
      obtain m3 st3 where a: "store_attempt e c rq found st2 = (m3, st3)" by (cases "store_attempt e c rq found st2")
      with assms rl False d Inr have "m = tellW (fst m2) m3" "st' = st3" by (auto simp: begin_login_def)
      with store_attempt_cases [OF a] s2 q show ?thesis by (auto simp: same_tables_def)
    qed
  qed
qed

subsection \<open>How a session starts\<close>

text \<open>
  The token of a session: an ID token verified for this client that carries the nonce, answered by the
  token endpoint to the code and the verifier of the attempt, where the endpoints are what discovery
  answered to this very request.
\<close>

definition id_token_of ::
  "login_env \<Rightarrow> login_config \<Rightarrow> jwks_state \<Rightarrow> endpoints \<Rightarrow> string \<Rightarrow> string \<Rightarrow> principal \<Rightarrow> bool" where
  "id_token_of e c keys found token nonce p \<longleftrightarrow>
     (\<exists>s claims. login_settings e c found = Inr s \<and>
        snd (fst (verify_token (le_lib e) (le_process e) (fst (le_visits e)) (snd (le_visits e)) s (Some token) keys)) = Inr p \<and>
        le_unverified e token = Some claims \<and> dgetN claims ''nonce'' = PStr nonce)"

definition exchanged ::
  "login_env \<Rightarrow> login_config \<Rightarrow> endpoints \<Rightarrow> string \<Rightarrow> pending_login \<Rightarrow> string \<Rightarrow> login_call list \<Rightarrow> bool" where
  "exchanged e c found code a token calls \<longleftrightarrow>
     (\<exists>secret address tokens. read_client_secret e = Inr secret \<and>
        Posted (env_get found ''token_endpoint'') address (exchange_form c code secret a) \<in> set calls \<and>
        read_response (le_net e) ''identity provider token endpoint failed'' ''identity provider token response malformed''
          (le_post e (env_get found ''token_endpoint'') address (exchange_form c code secret a)) = Inr tokens \<and>
        dgetN tokens ''id_token'' = PStr token)"

definition vouched ::
  "login_env \<Rightarrow> login_config \<Rightarrow> login_state \<Rightarrow> pending_login \<Rightarrow> string \<Rightarrow> login_call list \<Rightarrow> principal \<Rightarrow> bool" where
  "vouched e c st a code calls p \<longleftrightarrow>
     (\<exists>found token. snd (fst (discovery e c st)) = Inr found \<and> exchanged e c found code a token calls \<and>
        id_token_of e c (ls_jwks st) found token (pl_nonce a) p)"

lemma start_session_cases:
  assumes "start_session e c attempt found token st = (m, st')"
  shows "ls_pending st' = ls_pending st \<and> \<not> posts (fst m) \<and>
    ((ls_sessions st' = ls_sessions st \<and> (\<exists>p. snd m = Inr (refuse_login 401 p True))) \<or>
     (\<exists>p. id_token_of e c (ls_jwks st) found token (pl_nonce attempt) p \<and>
        ls_sessions st' = dset (le_session_id e)
          \<lparr>ss_id = le_session_id e, ss_principal = p, ss_created = le_session_at e, ss_last = le_session_at e\<rparr>
          (prune_sessions (le_session_at e) (ls_sessions st)) \<and>
        snd m = Inr \<lparr>rp_status = 302, rp_body = Location (pl_next attempt),
          rp_cookies = [SetCookie SESSION_COOKIE (le_session_id e) SESSION_ABSOLUTE_TIMEOUT_S ''strict'', clear_login_state_cookie]\<rparr>))"
proof (cases "verified_principal e c found token st")
  case (Pair m1 st1)
  note s1 = verified_principal_same [OF Pair]
  have q: "\<not> posts (fst m1)"
    using Pair by (auto simp: verified_principal_def split: sum.splits prod.splits)
  show ?thesis
  proof (cases "\<exists>p claims. snd m1 = Inr p \<and> le_unverified e token = Some claims \<and> nonce_matches e (pl_nonce attempt) claims")
    case False
    with assms Pair s1 q show ?thesis
      by (auto simp: start_session_def same_tables_def split: sum.splits option.splits if_splits)
  next
    case True
    then obtain p claims where t: "snd m1 = Inr p" "le_unverified e token = Some claims" "nonce_matches e (pl_nonce attempt) claims"
      by blast
    from Pair t(1) obtain s where "login_settings e c found = Inr s"
      "snd (fst (verify_token (le_lib e) (le_process e) (fst (le_visits e)) (snd (le_visits e)) s (Some token) (ls_jwks st))) = Inr p"
      by (auto simp: verified_principal_def split: sum.splits prod.splits)
    moreover from t(3) have "dgetN claims ''nonce'' = PStr (pl_nonce attempt)"
      by (auto simp: nonce_matches_def split: pyval.splits)
    ultimately have "id_token_of e c (ls_jwks st) found token (pl_nonce attempt) p"
      using t(2) unfolding id_token_of_def by blast
    with assms Pair s1 q t show ?thesis
      by (auto simp: start_session_def create_session_def same_tables_def)
  qed
qed

definition new_session :: "login_env \<Rightarrow> principal \<Rightarrow> web_session" where
  "new_session e p = \<lparr>ss_id = le_session_id e, ss_principal = p, ss_created = le_session_at e, ss_last = le_session_at e\<rparr>"

definition entry_reply :: "login_env \<Rightarrow> string \<Rightarrow> reply" where
  "entry_reply e path =
     \<lparr>rp_status = 302, rp_body = Location path,
      rp_cookies = [SetCookie SESSION_COOKIE (le_session_id e) SESSION_ABSOLUTE_TIMEOUT_S ''strict'', clear_login_state_cookie]\<rparr>"

text \<open>A handler that fails: no session, and a body that is no redirect.\<close>

definition denied_entry :: "login_state \<Rightarrow> (login_call, login_exn, reply) logged \<times> login_state \<Rightarrow> bool" where
  "denied_entry st r \<longleftrightarrow> ls_sessions (snd r) = ls_sessions st \<and>
     (\<forall>x. snd (fst r) = Inr x \<longrightarrow> (\<exists>p. rp_body x = ErrorBody p) \<and> (\<forall>n v a w. SetCookie n v a w \<notin> set (rp_cookies x)))"

definition let_in :: "(principal \<Rightarrow> bool) \<Rightarrow> login_env \<Rightarrow> pending_login \<Rightarrow> login_state \<Rightarrow>
    (login_call, login_exn, reply) logged \<times> login_state \<Rightarrow> bool" where
  "let_in ok e a st r \<longleftrightarrow>
     (\<exists>p. ok p \<and> snd (fst r) = Inr (entry_reply e (pl_next a)) \<and>
        ls_sessions (snd r) = dset (le_session_id e) (new_session e p) (prune_sessions (le_session_at e) (ls_sessions st)))"

lemma let_in_weaken: "let_in ok e a st r \<Longrightarrow> (\<And>p. ok p \<Longrightarrow> ok' p) \<Longrightarrow> let_in ok' e a st r"
  by (auto simp: let_in_def)

lemma start_session_outcome:
  assumes "start_session e c a found token st = (m, st')"
  shows "ls_pending st' = ls_pending st \<and>
    (denied_entry st (m, st') \<or> let_in (id_token_of e c (ls_jwks st) found token (pl_nonce a)) e a st (m, st'))"
  using start_session_cases [OF assms]
  by (auto simp: denied_entry_def let_in_def new_session_def entry_reply_def)

lemma denied_entry_tell [simp]:
  "denied_entry st (tellW cs m, st') = denied_entry st (m, st')" "let_in ok e a st (tellW cs m, st') = let_in ok e a st (m, st')"
  by (simp_all add: denied_entry_def let_in_def)

lemma denied_entry_refuse [simp]:
  "denied_entry st (retW (refuse_login s p b), st') \<longleftrightarrow> ls_sessions st' = ls_sessions st"
  "denied_entry st (retW unavailable_reply, st') \<longleftrightarrow> ls_sessions st' = ls_sessions st"
  by (simp_all add: denied_entry_def)

lemma post_form_answer:
  assumes "snd (post_form e url form allow) = Inr tokens"
  shows "\<exists>address. Posted url address form \<in> set (fst (post_form e url form allow)) \<and>
    read_response (le_net e) ''identity provider token endpoint failed'' ''identity provider token response malformed''
      (le_post e url address form) = Inr tokens"
  using assms by (auto simp: post_form_def split: option.splits)

lemma exchange_code_outcome:
  assumes "exchange_code e c a code found st = (m, st')"
  shows "ls_pending st' = ls_pending st \<and> (denied_entry st (m, st') \<or>
    let_in (\<lambda>p. \<exists>token. exchanged e c found code a token (fst m) \<and>
      id_token_of e c (ls_jwks st) found token (pl_nonce a) p) e a st (m, st'))"
proof -
  let ?url = "env_get found ''token_endpoint''"
  let ?m = "\<lambda>secret. post_form e ?url (exchange_form c code secret a) (lc_private c)"
  show ?thesis
  proof (cases "\<exists>secret tokens token. read_client_secret e = Inr secret \<and> snd (?m secret) = Inr tokens \<and>
      dgetN tokens ''id_token'' = PStr token \<and> token \<noteq> []")
    case False
    with assms show ?thesis
      by (auto simp: exchange_code_def Let_def env_get_def split: sum.splits pyval.splits if_splits)
  next
    case True
    then obtain secret tokens token where x: "read_client_secret e = Inr secret" "snd (?m secret) = Inr tokens"
      "dgetN tokens ''id_token'' = PStr token" "token \<noteq> []" by blast
    obtain m1 where s: "start_session e c a found token st = (m1, st')" and m: "m = tellW (fst (?m secret)) m1"
      using assms x by (auto simp: exchange_code_def Let_def env_get_def split: prod.splits)
    have ex: "exchanged e c found code a token (fst m)"
      using post_form_answer [OF x(2)] x unfolding exchanged_def m by auto
    have "let_in (\<lambda>p. \<exists>token. exchanged e c found code a token (fst m) \<and>
        id_token_of e c (ls_jwks st) found token (pl_nonce a) p) e a st r"
      if "let_in (id_token_of e c (ls_jwks st) found token (pl_nonce a)) e a st r" for r
      using that by (rule let_in_weaken) (use ex in blast)
    with start_session_outcome [OF s] show ?thesis unfolding m denied_entry_tell by blast
  qed
qed

lemma redeem_outcome:
  assumes "redeem e c rq a st = (m, st')"
  shows "ls_pending st' = ls_pending st \<and>
    (denied_entry st (m, st') \<or>
     (le_now e < pl_expires a \<and> let_in (vouched e c st a (env_get (br_query rq) ''code'') (fst m)) e a st (m, st')))"
proof (cases "discovery e c st")
  case (Pair m1 st1)
  note s = discovery_same [OF Pair, unfolded same_tables_def]
  let ?code = "env_get (br_query rq) ''code''"
  show ?thesis
  proof (cases "le_now e < pl_expires a \<and> env_get (br_query rq) ''error'' = [] \<and> ?code \<noteq> [] \<and>
      (\<exists>found. snd m1 = Inr found)")
    case False
    with assms Pair s show ?thesis
      by (auto simp: redeem_def Let_def denied_entry_def not_less split: if_splits sum.splits login_exn.splits)
  next
    case True
    then obtain found where f: "snd m1 = Inr found" by blast
    obtain m2 st2 where x: "exchange_code e c a ?code found st1 = (m2, st2)"
      by (cases "exchange_code e c a ?code found st1")
    from assms Pair True f x have m: "m = tellW (fst m1) m2" "st' = st2"
      by (auto simp: redeem_def Let_def)
    have "vouched e c st a ?code (fst m) p"
      if "exchanged e c found ?code a token (fst m2)" "id_token_of e c (ls_jwks st1) found token (pl_nonce a) p" for p token
    proof -
      have "exchanged e c found ?code a token (fst m)" using that(1) by (auto simp: exchanged_def m)
      moreover have "snd (fst (discovery e c st)) = Inr found" using Pair f by simp
      ultimately show ?thesis
        using that(2) discovery_keys [OF Pair] unfolding vouched_def by auto
    qed
    then have "let_in (vouched e c st a ?code (fst m)) e a st1 r"
      if "let_in (\<lambda>p. \<exists>token. exchanged e c found ?code a token (fst m2) \<and>
        id_token_of e c (ls_jwks st1) found token (pl_nonce a) p) e a st1 r" for r
      using that by (auto intro: let_in_weaken)
    with exchange_code_outcome [OF x] have "ls_pending st2 = ls_pending st1 \<and> (denied_entry st1 (m2, st2) \<or>
        let_in (vouched e c st a ?code (fst m)) e a st1 (m2, st2))"
      by blast
    with s True show ?thesis
      by (auto simp: denied_entry_def let_in_def m)
  qed
qed

text \<open>Whatever comes of it, the attempt is used up.\<close>

definition uses_attempt :: "browser_request \<Rightarrow> login_state \<Rightarrow> login_state \<Rightarrow> string \<Rightarrow> pending_login \<Rightarrow> bool" where
  "uses_attempt rq st st' state a \<longleftrightarrow>
     state \<noteq> [] \<and> env_get (br_query rq) ''state'' = state \<and> dget (br_cookies rq) LOGIN_STATE_COOKIE = Some state \<and>
     (state, a) \<in> set (ls_pending st) \<and> (\<forall>b. (state, b) \<notin> set (ls_pending st'))"

lemma finish_login_outcome:
  assumes "finish_login e c rq st = (m, st')"
  shows "set (ls_pending st') \<subseteq> set (ls_pending st) \<and> length (ls_pending st') \<le> length (ls_pending st) \<and>
    ((denied_entry st (m, st') \<and> \<not> posts (fst m)) \<or>
     (\<exists>state a. uses_attempt rq st st' state a \<and>
        (denied_entry st (m, st') \<or> (le_now e < pl_expires a \<and>
           let_in (vouched e c st a (env_get (br_query rq) ''code'') (fst m)) e a st (m, st')))))"
proof (cases "rate_limited (client_key rq) (le_rate_at e) st")
  case (Pair limited st1)
  note s1 = rate_limited_same [OF Pair, unfolded same_tables_def]
  let ?state = "env_get (br_query rq) ''state''"
  show ?thesis
  proof (cases "\<not> limited \<and> ?state \<noteq> [] \<and> state_is_from_this_browser rq ?state \<and> (\<exists>a. dget (ls_pending st1) ?state = Some a)")
    case False
    with assms Pair s1 show ?thesis
      by (auto simp: finish_login_def Let_def split: if_splits option.splits bool.splits)
  next
    case True
    then obtain a where a: "dget (ls_pending st1) ?state = Some a" by blast
    let ?st2 = "st1\<lparr>ls_pending := dpop ?state (ls_pending st1)\<rparr>"
    obtain m2 st2 where r: "redeem e c rq a ?st2 = (m2, st2)" by (cases "redeem e c rq a ?st2")
    from assms Pair True a r have m: "m = m2" "st' = st2" by (auto simp: finish_login_def Let_def)
    from True have "dget (br_cookies rq) LOGIN_STATE_COOKIE = Some ?state"
      by (auto simp: state_is_from_this_browser_def Let_def split: option.splits if_splits)
    with redeem_outcome [OF r] True dget_set [OF a] s1 have u: "uses_attempt rq st st' ?state a"
      by (auto simp: uses_attempt_def m set_dpop)
    have "vouched e c ?st2 a code calls p = vouched e c st a code calls p" for code calls p
      using rate_limited_documents [OF Pair] discovery_reads [of ?st2 st e c] by (simp add: vouched_def)
    then have "denied_entry st (m, st') \<or> (le_now e < pl_expires a \<and>
        let_in (vouched e c st a (env_get (br_query rq) ''code'') (fst m)) e a st (m, st'))"
      using redeem_outcome [OF r] s1 by (auto simp: m denied_entry_def let_in_def)
    moreover have "set (ls_pending st') \<subseteq> set (ls_pending st)" "length (ls_pending st') \<le> length (ls_pending st)"
      using redeem_outcome [OF r] s1 by (auto simp: m set_dpop length_dpop_le)
    ultimately show ?thesis using u by blast
  qed
qed

subsection \<open>How a session is used\<close>

lemma load_session_cases:
  assumes "load_session sid now st = (found, st')"
  shows "ls_pending st' = ls_pending st \<and>
    ((found = None \<and> set (ls_sessions st') \<subseteq> set (ls_sessions st)) \<or>
     (\<exists>k s. sid = Some k \<and> (k, s) \<in> set (ls_sessions st) \<and> \<not> expired_session now s \<and>
        found = Some (s\<lparr>ss_last := max (ss_last s) now\<rparr>) \<and>
        ls_sessions st' = dset k (s\<lparr>ss_last := max (ss_last s) now\<rparr>) (ls_sessions st)))"
proof (cases sid)
  case (Some k)
  show ?thesis
  proof (cases "k = [] \<or> dget (ls_sessions st) k = None")
    case False
    then obtain s where s: "dget (ls_sessions st) k = Some s" by auto
    from dget_set [OF s] False Some s assms show ?thesis
      by (auto simp: load_session_def Let_def set_dpop split: if_splits)
  qed (use assms Some in \<open>auto simp: load_session_def split: if_splits\<close>)
qed (use assms in \<open>auto simp: load_session_def\<close>)

lemma api_cases:
  assumes "authenticate_api_request e s c rq st = (m, st')"
  shows "ls_pending st' = ls_pending st \<and> \<not> posts (fst m) \<and>
    (set (ls_sessions st') \<subseteq> set (ls_sessions st) \<and> (bearer_credential rq = [] \<longrightarrow> (\<forall>p. snd m \<noteq> Inr p)) \<or>
     (\<exists>k w. bearer_credential rq = [] \<and> lc_enabled c \<and> dget (br_cookies rq) SESSION_COOKIE = Some k \<and>
        (k, w) \<in> set (ls_sessions st) \<and> \<not> expired_session (le_session_at e) w \<and>
        ls_sessions st' = dset k (w\<lparr>ss_last := max (ss_last w) (le_session_at e)\<rparr>) (ls_sessions st) \<and>
        (\<forall>p. snd m = Inr p \<longrightarrow> p = ss_principal w \<and> allows_cookie_write e rq c = Inr True)))"
proof (cases "bearer_credential rq = [] \<and> lc_enabled c")
  case False
  with assms show ?thesis
    by (auto simp: authenticate_api_request_def split: if_splits prod.splits)
next
  case True
  obtain found st1 where l: "load_session (dget (br_cookies rq) SESSION_COOKIE) (le_session_at e) st = (found, st1)"
    by (cases "load_session (dget (br_cookies rq) SESSION_COOKIE) (le_session_at e) st")
  show ?thesis
  proof (cases found)
    case None
    with True l load_session_cases [OF l] assms show ?thesis
      by (auto simp: authenticate_api_request_def session_principal_def)
  next
    case (Some w)
    with True l assms have "m = liftW (bindE (allows_cookie_write e rq c) (\<lambda>allowed.
        if allowed then Inr (ss_principal w) else Inl (SessionRefused 403 ''Forbidden'')))" "st' = st1"
      by (auto simp: authenticate_api_request_def session_principal_def)
    with True Some load_session_cases [OF l] show ?thesis
      by (auto simp: bindE_Inr_iff split: if_splits)
  qed
qed

lemma end_session_cases:
  assumes "end_session e c rq as_json st = (m, st')"
  shows "ls_pending st' = ls_pending st \<and> \<not> posts (fst m) \<and> set (ls_sessions st') \<subseteq> set (ls_sessions st) \<and>
    (\<forall>k s. k \<noteq> [] \<longrightarrow> dget (br_cookies rq) SESSION_COOKIE = Some k \<longrightarrow> (k, s) \<notin> set (ls_sessions st')) \<and>
    (\<forall>r v a site. snd m = Inr r \<longrightarrow> SetCookie SESSION_COOKIE v a site \<notin> set (rp_cookies r))"
proof -
  let ?sid = "env_get (br_cookies rq) SESSION_COOKIE"
  let ?st = "if ?sid = [] then st else st\<lparr>ls_sessions := dpop ?sid (ls_sessions st)\<rparr>"
  have e: "dget (br_cookies rq) SESSION_COOKIE = Some k \<Longrightarrow> ?sid = k" for k
    by (simp add: env_get_def)
  obtain m1 st1 where d: "discovery e c ?st = (m1, st1)" by (cases "discovery e c ?st")
  show ?thesis
  proof (cases as_json)
    case True
    with assms d discovery_same [OF d, unfolded same_tables_def] discovery_quiet [OF d] show ?thesis
      by (auto simp: end_session_def end_session_url_def Let_def set_dpop fst_bindW bindE_Inr_iff e
          split: sum.splits login_exn.splits prod.splits if_splits)
  next
    case False
    with assms show ?thesis
      by (auto simp: end_session_def Let_def set_dpop e split: if_splits)
  qed
qed

subsection \<open>Sequences\<close>

abbreviation env_at :: "(login_env \<times> web_request) list \<Rightarrow> nat \<Rightarrow> login_env" where
  "env_at reqs i \<equiv> fst (reqs ! i)"

abbreviation request_at :: "(login_env \<times> web_request) list \<Rightarrow> nat \<Rightarrow> web_request" where
  "request_at reqs i \<equiv> snd (reqs ! i)"

abbreviation event_at :: "login_config \<Rightarrow> (login_env \<times> web_request) list \<Rightarrow> nat \<Rightarrow> web_event" where
  "event_at c reqs i \<equiv> serve_all c reqs reset_state ! i"

abbreviation tables_at :: "login_config \<Rightarrow> (login_env \<times> web_request) list \<Rightarrow> nat \<Rightarrow> login_state" where
  "tables_at c reqs i \<equiv> tables_after c (take i reqs) reset_state"

lemma serve_all_nth:
  assumes "i < length reqs"
  shows "\<exists>m st'. serve_web c (fst (reqs ! i)) (snd (reqs ! i)) (tables_after c (take i reqs) st) = (m, st') \<and>
    serve_all c reqs st ! i = \<lparr>we_env = fst (reqs ! i), we_request = snd (reqs ! i), we_calls = fst m, we_answer = snd m\<rparr> \<and>
    tables_after c (take (Suc i) reqs) st = st'"
  using assms
proof (induction reqs arbitrary: i st)
  case (Cons x reqs)
  obtain e rq where x: "x = (e, rq)" by (cases x)
  obtain m st1 where h: "serve_web c e rq st = (m, st1)" by (cases "serve_web c e rq st")
  show ?case
  proof (cases i)
    case 0
    with x h show ?thesis by simp
  next
    case (Suc k)
    with Cons.prems x h Cons.IH [of k st1] show ?thesis by simp
  qed
qed simp

lemma tables_after_append: "tables_after c (xs @ ys) st = tables_after c ys (tables_after c xs st)"
  by (induction c xs st rule: tables_after.induct) auto

text \<open>The attempts under way were begun by a login.\<close>

lemma replied_simps: "replied r = (m, st) \<longleftrightarrow> (\<exists>m0. r = (m0, st) \<and> m = bindW m0 (\<lambda>x. retW (Replied x)))"
  by (cases r) (auto simp: replied_def)

lemma pending_step:
  assumes "serve_web c e rq st = (m, st')" "(k, a) \<in> set (ls_pending st')"
  shows "(k, a) \<in> set (ls_pending st) \<or> (\<exists>b. rq = Login b \<and> safe_attempt e k a)"
  using assms
  by (auto simp: serve_web_def replied_simps split: web_request.splits if_splits prod.splits
      dest: begin_login_cases finish_login_outcome end_session_cases api_cases)

definition attempt_of :: "(login_env \<times> web_request) list \<Rightarrow> nat \<Rightarrow> string \<Rightarrow> pending_login \<Rightarrow> bool" where
  "attempt_of reqs l k a \<longleftrightarrow> (\<exists>b. request_at reqs l = Login b) \<and> safe_attempt (env_at reqs l) k a"

lemma pending_was_begun:
  assumes "i \<le> length reqs" "(k, a) \<in> set (ls_pending (tables_at c reqs i))"
  shows "\<exists>l < i. attempt_of reqs l k a"
  using assms
proof (induction i)
  case 0
  then show ?case by (simp add: reset_state_def)
next
  case (Suc i)
  then have "i < length reqs" by simp
  from serve_all_nth [OF this, of c reset_state] obtain m st' where
    h: "serve_web c (env_at reqs i) (request_at reqs i) (tables_at c reqs i) = (m, st')" "tables_at c reqs (Suc i) = st'" by blast
  from pending_step [OF h(1)] Suc.prems(2) h(2)
  have "(k, a) \<in> set (ls_pending (tables_at c reqs i)) \<or> attempt_of reqs i k a"
    by (auto simp: attempt_of_def)
  with Suc.IH Suc.prems(1) show ?case by (auto intro: less_SucI)
qed

subsection \<open>Sessions over time\<close>

definition logs_out :: "web_request \<Rightarrow> string \<Rightarrow> bool" where
  "logs_out rq k \<longleftrightarrow> k \<noteq> [] \<and> (\<exists>j b. rq = Logout j b \<and> dget (br_cookies b) SESSION_COOKIE = Some k)"

definition shows_session :: "web_request \<Rightarrow> string \<Rightarrow> bool" where
  "shows_session rq k \<longleftrightarrow> (\<exists>s b. rq = Api s b \<and> dget (br_cookies b) SESSION_COOKIE = Some k)"

text \<open>Request \<open>j\<close> ends, in session \<open>k\<close> of \<open>p\<close>, the attempt that login \<open>l\<close> began in the same browser.\<close>

definition logged_in :: "login_config \<Rightarrow> (login_env \<times> web_request) list \<Rightarrow> nat \<Rightarrow> nat \<Rightarrow> string \<Rightarrow> principal \<Rightarrow> bool" where
  "logged_in c reqs l j k p \<longleftrightarrow>
     (\<exists>b b' state a. request_at reqs l = Login b \<and> begun (env_at reqs l) state a \<and> request_at reqs j = Callback b' \<and>
        state \<noteq> [] \<and> env_get (br_query b') ''state'' = state \<and> dget (br_cookies b') LOGIN_STATE_COOKIE = Some state \<and>
        le_now (env_at reqs j) < le_now (env_at reqs l) + 600 \<and>
        vouched (env_at reqs j) c (tables_at c reqs j) a (env_get (br_query b') ''code'') (we_calls (event_at c reqs j)) p \<and>
        k = le_session_id (env_at reqs j) \<and> sets_cookie (we_answer (event_at c reqs j)) SESSION_COOKIE k)"

definition session_ok :: "login_config \<Rightarrow> (login_env \<times> web_request) list \<Rightarrow> nat \<Rightarrow> string \<Rightarrow> web_session \<Rightarrow> bool" where
  "session_ok c reqs i k s \<longleftrightarrow>
     (\<exists>l j u. l < j \<and> j \<le> u \<and> u < i \<and> logged_in c reqs l j k (ss_principal s) \<and>
        ss_created s = le_session_at (env_at reqs j) \<and>
        ss_last s = le_session_at (env_at reqs u) \<and> (u = j \<or> shows_session (request_at reqs u) k) \<and>
        (\<forall>v. j < v \<and> v < i \<longrightarrow> \<not> logs_out (request_at reqs v) k))"

lemma session_ok_later:
  "session_ok c reqs i k s \<Longrightarrow> \<not> logs_out (request_at reqs i) k \<Longrightarrow> session_ok c reqs (Suc i) k s"
  unfolding session_ok_def by (elim exE conjE) (intro exI conjI, assumption+, auto simp: less_Suc_eq)

lemma session_step:
  assumes "lc_enabled c" "serve_web c e rq st = (m, st')" "(k, s) \<in> set (ls_sessions st')"
  shows "((k, s) \<in> set (ls_sessions st) \<and> \<not> logs_out rq k) \<or>
    (\<exists>w. shows_session rq k \<and> (k, w) \<in> set (ls_sessions st) \<and> s = w\<lparr>ss_last := max (ss_last w) (le_session_at e)\<rparr>) \<or>
    (\<exists>b a m0 p. rq = Callback b \<and> finish_login e c b st = (m0, st') \<and> m = bindW m0 (\<lambda>x. retW (Replied x)) \<and>
       uses_attempt b st st' (env_get (br_query b) ''state'') a \<and> le_now e < pl_expires a \<and>
       vouched e c st a (env_get (br_query b) ''code'') (fst m0) p \<and> snd m0 = Inr (entry_reply e (pl_next a)) \<and>
       k = le_session_id e \<and> s = new_session e p)"
proof (cases rq)
  case (Login b)
  with assms show ?thesis
    by (auto simp: serve_web_def replied_simps logs_out_def dest: begin_login_cases)
next
  case (Logout as_json b)
  with assms obtain m0 where e: "end_session e c b as_json st = (m0, st')" by (auto simp: serve_web_def replied_simps)
  from end_session_cases [OF e] assms(3) Logout show ?thesis by (auto simp: logs_out_def)
next
  case (Api settings b)
  with assms(2) obtain m0 where a: "authenticate_api_request e settings c b st = (m0, st')"
    by (auto simp: serve_web_def split: prod.splits)
  have no: "\<not> logs_out rq k" using Api by (simp add: logs_out_def)
  from api_cases [OF a] show ?thesis
  proof (elim conjE disjE exE)
    fix k' w
    assume w: "dget (br_cookies b) SESSION_COOKIE = Some k'" "(k', w) \<in> set (ls_sessions st)"
      "ls_sessions st' = dset k' (w\<lparr>ss_last := max (ss_last w) (le_session_at e)\<rparr>) (ls_sessions st)"
    then show ?thesis using assms(3) no Api set_dset by (fastforce simp: shows_session_def)
  qed (use assms(3) no in auto)
next
  case (Callback b)
  with assms obtain m0 where f: "finish_login e c b st = (m0, st')" and m: "m = bindW m0 (\<lambda>x. retW (Replied x))"
    by (auto simp: serve_web_def replied_simps)
  have no: "\<not> logs_out rq k" using Callback by (simp add: logs_out_def)
  show ?thesis
  proof (cases "denied_entry st (m0, st')")
    case True
    with assms(3) no show ?thesis by (auto simp: denied_entry_def)
  next
    case False
    with finish_login_outcome [OF f] obtain state a where t: "uses_attempt b st st' state a" "le_now e < pl_expires a"
      "let_in (vouched e c st a (env_get (br_query b) ''code'') (fst m0)) e a st (m0, st')" by blast
    then obtain p where p: "vouched e c st a (env_get (br_query b) ''code'') (fst m0) p" "snd m0 = Inr (entry_reply e (pl_next a))"
      "ls_sessions st' = dset (le_session_id e) (new_session e p) (prune_sessions (le_session_at e) (ls_sessions st))"
      by (auto simp: let_in_def)
    from p(3) assms(3) set_dset have "(k, s) = (le_session_id e, new_session e p) \<or> (k, s) \<in> set (ls_sessions st)"
      by (fastforce simp: prune_sessions_def)
    then show ?thesis
    proof
      assume ks: "(k, s) = (le_session_id e, new_session e p)"
      have "state = env_get (br_query b) ''state''" using t(1) by (simp add: uses_attempt_def)
      with ks Callback f m t p show ?thesis
        by (intro disjI2 exI [of _ b] exI [of _ a] exI [of _ m0] exI [of _ p]) simp
    next
      assume "(k, s) \<in> set (ls_sessions st)"
      with no show ?thesis by simp
    qed
  qed
qed

lemma sessions_are_ok:
  assumes "lc_enabled c" "i \<le> length reqs" "(k, s) \<in> set (ls_sessions (tables_at c reqs i))"
  shows "session_ok c reqs i k s"
  using assms(2,3)
proof (induction i arbitrary: s)
  case 0
  then show ?case by (simp add: reset_state_def)
next
  case (Suc i)
  then have i: "i < length reqs" by simp
  from serve_all_nth [OF this, of c reset_state] obtain m st' where
    h: "serve_web c (env_at reqs i) (request_at reqs i) (tables_at c reqs i) = (m, st')" "tables_at c reqs (Suc i) = st'"
    and ev: "event_at c reqs i = \<lparr>we_env = env_at reqs i, we_request = request_at reqs i, we_calls = fst m, we_answer = snd m\<rparr>"
    by blast
  let ?e = "env_at reqs i" and ?rq = "request_at reqs i"
  from Suc.prems(2) h(2) have "(k, s) \<in> set (ls_sessions st')" by simp
  from session_step [OF assms(1) h(1) this] show ?case
  proof (elim disjE exE conjE)
    assume "(k, s) \<in> set (ls_sessions (tables_at c reqs i))" "\<not> logs_out ?rq k"
    with Suc.IH i show ?thesis by (auto intro: session_ok_later)
  next
    fix w assume w: "shows_session ?rq k" "(k, w) \<in> set (ls_sessions (tables_at c reqs i))"
      "s = w\<lparr>ss_last := max (ss_last w) (le_session_at ?e)\<rparr>"
    then have no: "\<not> logs_out ?rq k" by (auto simp: shows_session_def logs_out_def)
    from Suc.IH [OF _ w(2)] i obtain l j u where o: "l < j" "j \<le> u" "u < i" "logged_in c reqs l j k (ss_principal w)"
      "ss_created w = le_session_at (env_at reqs j)" "ss_last w = le_session_at (env_at reqs u)"
      "u = j \<or> shows_session (request_at reqs u) k" "\<forall>v. j < v \<and> v < i \<longrightarrow> \<not> logs_out (request_at reqs v) k"
      by (auto simp: session_ok_def)
    let ?u = "if le_session_at (env_at reqs u) < le_session_at ?e then i else u"
    have "\<forall>v. j < v \<and> v < Suc i \<longrightarrow> \<not> logs_out (request_at reqs v) k" using o(8) no by (auto simp: less_Suc_eq)
    moreover have "ss_last s = le_session_at (env_at reqs ?u)" "?u = j \<or> shows_session (request_at reqs ?u) k" "j \<le> ?u" "?u < Suc i"
      using o w by (auto simp: max_def)
    moreover have "ss_principal s = ss_principal w" "ss_created s = ss_created w" using w(3) by simp_all
    ultimately show ?thesis using o(1,4,5)
      unfolding session_ok_def by (intro exI [of _ l] exI [of _ j] exI [of _ ?u] conjI) simp_all
  next
    fix b a m0 p
    assume cb: "?rq = Callback b" "m = bindW m0 (\<lambda>x. retW (Replied x))"
      "uses_attempt b (tables_at c reqs i) st' (env_get (br_query b) ''state'') a" "le_now ?e < pl_expires a"
      "vouched ?e c (tables_at c reqs i) a (env_get (br_query b) ''code'') (fst m0) p" "snd m0 = Inr (entry_reply ?e (pl_next a))"
      "k = le_session_id ?e" "s = new_session ?e p"
    from cb(3) have "(env_get (br_query b) ''state'', a) \<in> set (ls_pending (tables_at c reqs i))" by (simp add: uses_attempt_def)
    from pending_was_begun [OF _ this] i obtain l where l: "l < i" "attempt_of reqs l (env_get (br_query b) ''state'') a" by auto
    then obtain b0 where b0: "request_at reqs l = Login b0" "begun (env_at reqs l) (env_get (br_query b) ''state'') a"
      by (auto simp: attempt_of_def safe_attempt_def)
    have "sets_cookie (we_answer (event_at c reqs i)) SESSION_COOKIE k"
      using cb ev by (auto simp: sets_cookie_def entry_reply_def)
    moreover have "we_calls (event_at c reqs i) = fst m0" using ev cb(2,6) by (simp add: fst_bindW)
    moreover have "le_now ?e < le_now (env_at reqs l) + 600" using b0(2) cb(4) by (simp add: begun_def STATE_TTL_S_def)
    ultimately have "logged_in c reqs l i k p"
      using b0 cb(1,3,5,7) unfolding logged_in_def uses_attempt_def by auto
    with l cb(8) show ?thesis
      unfolding session_ok_def by (intro exI [of _ l] exI [of _ i] exI [of _ i]) (auto simp: new_session_def)
  qed
qed

text \<open>What a request shows to come from this site.\<close>

definition same_site :: "login_env \<Rightarrow> browser_request \<Rightarrow> login_config \<Rightarrow> bool" where
  "same_site e b c \<longleftrightarrow>
     lower (strip (env_get (br_headers b) ''sec-fetch-site'')) = ''same-origin'' \<or>
     (\<exists>here there. urlsplit (le_bracketed e) (lc_redirect c) = Some here \<and>
        urlsplit (le_bracketed e) (env_get (br_headers b) ''origin'') = Some there \<and> u_netloc there \<noteq> [] \<and>
        lower (u_scheme there) = lower (u_scheme here) \<and> lower (u_netloc there) = lower (u_netloc here))"

lemma cookie_writes_are_same_site:
  "allows_cookie_write e b c = Inr True \<Longrightarrow> br_method b \<in> {''GET'', ''HEAD'', ''OPTIONS''} \<or> same_site e b c"
  by (auto simp: allows_cookie_write_def SAFE_METHODS_def same_site_def with_some_def split: if_splits option.splits)

text \<open>
  C5: A request without a bearer token acts for a principal only in a session that principal's browser logged in to: the
  request carries the session's cookie; an earlier callback set it, for the attempt a login of that browser began (same
  state in cookie and query, within ten minutes); that callback posted the code with the verifier of that login to the
  token endpoint that discovery named, and the ID token in the answer was verified for this client and carries the nonce
  of that login; the session is younger than eight hours, was used in the last half hour and not logged out; and the
  request is of a read-only method or shows to come from this site.  Requests are served one at a time.
\<close>

theorem sessions_were_logged_in:
  assumes "i < length reqs" "request_at reqs i = Api s b" "bearer_credential b = []"
    and "we_answer (event_at c reqs i) = Inr (Admitted p)"
  shows "\<exists>l j u k. l < j \<and> j \<le> u \<and> u < i \<and> dget (br_cookies b) SESSION_COOKIE = Some k \<and> logged_in c reqs l j k p \<and>
    (u = j \<or> shows_session (request_at reqs u) k) \<and> (\<forall>v. j < v \<and> v < i \<longrightarrow> \<not> logs_out (request_at reqs v) k) \<and>
    le_session_at (env_at reqs i) - le_session_at (env_at reqs j) < 28800 \<and>
    le_session_at (env_at reqs i) - le_session_at (env_at reqs u) < 1800 \<and>
    (br_method b \<in> {''GET'', ''HEAD'', ''OPTIONS''} \<or> same_site (env_at reqs i) b c)"
proof -
  obtain m0 st' where a: "authenticate_api_request (env_at reqs i) s c b (tables_at c reqs i) = (m0, st')"
    by (cases "authenticate_api_request (env_at reqs i) s c b (tables_at c reqs i)")
  with serve_all_nth [OF assms(1), of c reset_state] assms(2,4) have p: "snd m0 = Inr p"
    by (auto simp: serve_web_def bindE_Inr_iff)
  from api_cases [OF a] assms(3) p obtain k w where w: "lc_enabled c" "dget (br_cookies b) SESSION_COOKIE = Some k"
    "(k, w) \<in> set (ls_sessions (tables_at c reqs i))" "\<not> expired_session (le_session_at (env_at reqs i)) w"
    "p = ss_principal w" "br_method b \<in> {''GET'', ''HEAD'', ''OPTIONS''} \<or> same_site (env_at reqs i) b c"
    using cookie_writes_are_same_site by blast
  from sessions_are_ok [OF w(1) _ w(3)] assms(1) have "session_ok c reqs i k w" by simp
  with w show ?thesis
    unfolding session_ok_def expired_session_def SESSION_ABSOLUTE_TIMEOUT_S_def SESSION_IDLE_TIMEOUT_S_def
    by (metis not_le)
qed

subsection \<open>An attempt is spent once\<close>

text \<open>The states drawn for logins.\<close>

fun login_state_of :: "login_env \<times> web_request \<Rightarrow> string option" where
  "login_state_of (e, Login b) = Some (le_state e)"
| "login_state_of _ = None"

definition drawn_states :: "(login_env \<times> web_request) list \<Rightarrow> string list" where
  "drawn_states reqs = List.map_filter login_state_of reqs"

lemma drawn_append: "drawn_states (xs @ ys) = drawn_states xs @ drawn_states ys"
  by (simp add: drawn_states_def map_filter_def)

lemma set_drawn: "k \<in> set (drawn_states reqs) \<longleftrightarrow> (\<exists>x \<in> set reqs. login_state_of x = Some k)"
  by (auto simp: drawn_states_def map_filter_def image_iff) force

definition gone :: "string \<Rightarrow> login_state \<Rightarrow> bool" where
  "gone k st \<longleftrightarrow> (\<forall>a. (k, a) \<notin> set (ls_pending st))"

lemma stays_gone:
  "gone k st \<Longrightarrow> k \<notin> set (drawn_states reqs) \<Longrightarrow> gone k (tables_after c reqs st)"
proof (induction c reqs st rule: tables_after.induct)
  case (2 c e rq rest st)
  obtain m st' where h: "serve_web c e rq st = (m, st')" by (cases "serve_web c e rq st")
  from 2(3) have n: "login_state_of (e, rq) \<noteq> Some k" "k \<notin> set (drawn_states rest)" by (auto simp: set_drawn)
  have "gone k st'"
    unfolding gone_def
  proof
    fix a
    from pending_step [OF h, of k a] 2(2) n(1) show "(k, a) \<notin> set (ls_pending st')"
      by (auto simp: gone_def safe_attempt_def begun_def)
  qed
  with 2(1) n(2) h show ?case by simp
qed simp

lemma callback_posts:
  assumes "serve_web c e (Callback b) st = (m, st')" "posts (fst m) \<or> sets_cookie (snd m) SESSION_COOKIE v"
  shows "\<not> gone (env_get (br_query b) ''state'') st \<and> gone (env_get (br_query b) ''state'') st'"
proof -
  from assms obtain m0 where f: "finish_login e c b st = (m0, st')" and m: "m = bindW m0 (\<lambda>x. retW (Replied x))"
    by (auto simp: serve_web_def replied_simps sets_cookie_def split: if_splits)
  have "posts (fst m0) \<or> \<not> denied_entry st (m0, st')"
    using assms(2) by (auto simp: m fst_bindW sets_cookie_def denied_entry_def bindE_Inr_iff split: sum.splits)
  with finish_login_outcome [OF f] obtain state a where "uses_attempt b st st' state a" by blast
  then show ?thesis by (auto simp: uses_attempt_def gone_def)
qed

text \<open>
  C8: An attempt is spent once: with distinct states drawn for the logins, of all callbacks with one state at most one posts
  a code to the token endpoint or sets a session cookie, whatever happened to the exchange and whatever is requested in
  between.
\<close>

theorem attempts_are_spent_once:
  assumes "distinct (drawn_states reqs)" "i < j" "j < length reqs"
    and "request_at reqs i = Callback b" "request_at reqs j = Callback b'"
    and "env_get (br_query b) ''state'' = env_get (br_query b') ''state''"
    and "posts (we_calls (event_at c reqs i)) \<or> sets_cookie (we_answer (event_at c reqs i)) SESSION_COOKIE v"
  shows "\<not> posts (we_calls (event_at c reqs j)) \<and> \<not> sets_cookie (we_answer (event_at c reqs j)) SESSION_COOKIE v'"
proof -
  let ?k = "env_get (br_query b) ''state''"
  from assms have i: "i < length reqs" by simp
  from serve_all_nth [OF i, of c reset_state] assms(4,7) obtain m st' where
    "serve_web c (env_at reqs i) (Callback b) (tables_at c reqs i) = (m, st')" "tables_at c reqs (Suc i) = st'"
    "posts (fst m) \<or> sets_cookie (snd m) SESSION_COOKIE v" by auto
  with callback_posts have g: "\<not> gone ?k (tables_at c reqs i)" "gone ?k (tables_at c reqs (Suc i))" by blast+
  from g(1) pending_was_begun [of i reqs ?k _ c] i obtain l a where l: "l < i" "attempt_of reqs l ?k a"
    unfolding gone_def by (metis less_imp_le)
  then have "login_state_of (reqs ! l) = Some ?k"
    by (cases "reqs ! l") (auto simp: attempt_of_def safe_attempt_def begun_def)
  moreover have "reqs ! l \<in> set (take (Suc i) reqs)" using l(1) i by (auto simp: in_set_conv_nth intro!: exI [of _ l])
  ultimately have k: "?k \<in> set (drawn_states (take (Suc i) reqs))" by (auto simp: set_drawn)
  have split: "take j reqs = take (Suc i) reqs @ take (j - Suc i) (drop (Suc i) reqs)"
    using assms(2) by (metis Suc_leI le_add_diff_inverse take_add)
  have "drawn_states reqs = drawn_states (take (Suc i) reqs) @ drawn_states (take (j - Suc i) (drop (Suc i) reqs)) @
      drawn_states (drop j reqs)"
    by (metis append_assoc append_take_drop_id drawn_append split)
  with assms(1) k have "?k \<notin> set (drawn_states (take (j - Suc i) (drop (Suc i) reqs)))" by auto
  with stays_gone [OF g(2)] have "gone ?k (tables_at c reqs j)" by (simp add: split tables_after_append)
  with serve_all_nth [OF assms(3), of c reset_state] assms(5,6) callback_posts show ?thesis
    by (metis web_event.select_convs(3,4))
qed

subsection \<open>Where a login ends\<close>

text \<open>
  No login ends on another site: the place a callback redirects to is a path with one leading slash, without
  backslash and control characters, whatever was asked for as the next page.
\<close>

lemma logins_end_on_this_site:
  assumes "i < length reqs" "request_at reqs i = Callback b"
    and "we_answer (event_at c reqs i) = Inr (Replied r)" "rp_body r = Location loc"
  shows "safe_path loc"
proof -
  from serve_all_nth [OF assms(1), of c reset_state] assms(2,3) obtain m st' where
    h: "serve_web c (env_at reqs i) (Callback b) (tables_at c reqs i) = (m, st')" "snd m = Inr (Replied r)" by auto
  then obtain m0 where f: "finish_login (env_at reqs i) c b (tables_at c reqs i) = (m0, st')" "snd m0 = Inr r"
    by (auto simp: serve_web_def replied_simps bindE_Inr_iff split: if_splits)
  with finish_login_outcome [OF f(1)] assms(4) obtain state a where
    a: "uses_attempt b (tables_at c reqs i) st' state a" "let_in (vouched (env_at reqs i) c (tables_at c reqs i) a (env_get (br_query b) ''code'') (fst m0)) (env_at reqs i) a
      (tables_at c reqs i) (m0, st')"
    by (auto simp: denied_entry_def)
  from a(1) have "(state, a) \<in> set (ls_pending (tables_at c reqs i))" by (simp add: uses_attempt_def)
  from pending_was_begun [OF _ this] assms(1) have "safe_path (pl_next a)"
    by (auto simp: attempt_of_def safe_attempt_def)
  with a(2) f(2) assms(4) show ?thesis by (auto simp: let_in_def entry_reply_def)
qed

subsection \<open>A run\<close>

text \<open>
  A browser logs in, uses its session and logs out; the callback is tried again.  The documents are named by
  single letters.
\<close>

definition demo_login_net :: net where
  "demo_login_net =
     \<lparr>hostname = (\<lambda>u. Some ''idp''), ip_address = (\<lambda>a. Some (V4 0)), getaddrinfo = (\<lambda>h. [''10.0.0.1'']),
      stream = (\<lambda>u a. Some \<lparr>status_code = 200, chunks = [(0, if u = ''https://idp/keys'' then ''k'' else ''d'')], broken = False\<rparr>),
      json_loads = (\<lambda>s.
        if s = ''d'' then Some (PDict [(''issuer'', PStr ''https://idp''), (''authorization_endpoint'', PStr ''https://idp/auth''),
            (''token_endpoint'', PStr ''https://idp/token''), (''jwks_uri'', PStr ''https://idp/keys'')])
        else if s = ''k'' then Some (PDict [(''keys'', PList [PDict [(''kid'', PStr ''k1'')]])])
        else Some (PDict [(''id_token'', PStr ''tok'')]))\<rparr>"

definition demo_login_config :: login_config where
  "demo_login_config = \<lparr>lc_enabled = True, lc_client_id = ''fagan'', lc_secret_file = ''f'', lc_redirect = ''https://d/cb'',
     lc_issuer = ''https://idp'', lc_internal = [], lc_private = True\<rparr>"

definition demo_login_env :: "rat \<Rightarrow> login_env" where
  "demo_login_env t =
     \<lparr>le_rate_at = t, le_now = t, le_found_at = t, le_failed_at = t, le_session_at = t, le_net = demo_login_net,
      le_post = (\<lambda>u a form. Some \<lparr>status_code = 200, chunks = [(0, ''t'')], broken = False\<rparr>), le_secret = Some ''s'',
      le_state = ''st'', le_nonce = ''no'', le_verifier = ''ve'', le_session_id = ''sid'', le_lib = demo_jwt,
      le_unverified = (\<lambda>t. Some [(''nonce'', PStr ''no'')]), le_process = [],
      le_visits = (\<lparr>entered = t, locked = t, seen = demo_login_net\<rparr>, \<lparr>entered = t, locked = t, seen = demo_login_net\<rparr>),
      le_bracketed = (\<lambda>_. True), le_digest = (\<lambda>s. s)\<rparr>"

definition demo_browser :: "(string \<times> string) list \<Rightarrow> (string \<times> string) list \<Rightarrow> browser_request" where
  "demo_browser query cookies = \<lparr>br_method = ''GET'', br_peer = Some ''p'', br_query = query, br_cookies = cookies, br_headers = []\<rparr>"

definition demo_callback :: browser_request where
  "demo_callback = demo_browser [(''state'', ''st''), (''code'', ''co'')] [(LOGIN_STATE_COOKIE, ''st'')]"

definition demo_logins :: "(login_env \<times> web_request) list" where
  "demo_logins =
     [(demo_login_env 0, Login (demo_browser [(''next'', ''/plans'')] [])), (demo_login_env 1, Callback demo_callback),
      (demo_login_env 2, Api demo_settings (demo_browser [] [(SESSION_COOKIE, ''sid'')])),
      (demo_login_env 3, Callback demo_callback)]"

definition demo_endpoints :: endpoints where
  "demo_endpoints = [(''authorization_endpoint'', ''https://idp/auth''), (''token_endpoint'', ''https://idp/token''),
     (''jwks_uri'', ''https://idp/keys'')]"

lemma demo_document:
  "fetch_json (demo_login_env t) u True = ([Asked u ''10.0.0.1''],
     if u = ''https://idp/keys'' then Inr [(''keys'', PList [PDict [(''kid'', PStr ''k1'')]])]
     else Inr [(''issuer'', PStr ''https://idp''), (''authorization_endpoint'', PStr ''https://idp/auth''),
            (''token_endpoint'', PStr ''https://idp/token''), (''jwks_uri'', PStr ''https://idp/keys'')])"
  by (simp add: fetch_json_def demo_login_env_def demo_login_net_def resolve_url_def resolve_host_def read_response_def
      HTTP_TIMEOUT_S_def MAX_DOCUMENT_BYTES_def tellW_def liftW_def)

lemma demo_read_endpoints:
  "read_endpoints b demo_login_config [(''issuer'', PStr ''https://idp''), (''authorization_endpoint'', PStr ''https://idp/auth''),
     (''token_endpoint'', PStr ''https://idp/token''), (''jwks_uri'', PStr ''https://idp/keys'')] = Inr demo_endpoints"
  by (simp add: read_endpoints_def demo_login_config_def https_field_def server_side_url_def dgetN_def dget_def starts_with_def
      demo_endpoints_def guardE_def)

lemma demo_parts:
  "lc_issuer demo_login_config = ''https://idp''" "lc_private demo_login_config" "lc_internal demo_login_config = []"
  "lc_enabled demo_login_config" "lc_client_id demo_login_config = ''fagan''" "lc_redirect demo_login_config = ''https://d/cb''"
  "le_rate_at (demo_login_env t) = t" "le_now (demo_login_env t) = t" "le_found_at (demo_login_env t) = t"
  "le_session_at (demo_login_env t) = t" "le_state (demo_login_env t) = ''st''" "le_nonce (demo_login_env t) = ''no''"
  "le_verifier (demo_login_env t) = ''ve''" "le_session_id (demo_login_env t) = ''sid''" "le_lib (demo_login_env t) = demo_jwt"
  "le_process (demo_login_env t) = []" "le_net (demo_login_env t) = demo_login_net"
  by (simp_all add: demo_login_config_def demo_login_env_def)

lemma demo_discovery_url: "server_side_url b demo_login_config u = Inr u"
  by (simp add: server_side_url_def demo_parts)

lemma demo_probe:
  "ls_discovery st = [] \<Longrightarrow> ls_failures st = [] \<Longrightarrow>
    discovery (demo_login_env t) demo_login_config st =
     (([Asked ''https://idp/.well-known/openid-configuration'' ''10.0.0.1''], Inr demo_endpoints),
      st\<lparr>ls_discovery := [(''https://idp'', t, demo_endpoints)]\<rparr>)"
  by (simp add: discovery_def demo_discovery_url cached_discovery_def cooling_down_def demo_parts probe_issuer_def Let_def
      demo_document DISCOVERY_SUFFIX_def dget_def bindW_def demo_read_endpoints dset_def dpop_def liftW_def)

lemma demo_location: "\<exists>loc. login_location (demo_login_env t) demo_login_config demo_endpoints = Inr loc"
proof -
  have "urlsplit b ''https://idp/auth'' =
      Some \<lparr>u_scheme = ''https'', u_netloc = ''idp'', u_path = ''/auth'', u_query = [], u_fragment = []\<rparr>" for b
    by (simp add: urlsplit_def cleaned_url_def scheme_split_def netloc_split_def bracket_ok_def starts_with_def scheme_char_def
        is_lower_def is_upper_def char_lower_def)
  then show ?thesis
    by (simp add: login_location_def demo_endpoints_def dget_def with_query_def with_some_def)
qed

lemma demo_next: "validate_next_path b (Some ''/plans'') = Inr ''/plans''"
  by (simp add: validate_next_path_def starts_with_def with_some_def urlsplit_def cleaned_url_def scheme_split_def netloc_split_def
      bracket_ok_def is_lower_def is_upper_def)

definition demo_private :: oidc_settings where
  "demo_private = demo_settings\<lparr>allow_private_jwks := True\<rparr>"

lemma demo_login_settings: "login_settings (demo_login_env t) demo_login_config demo_endpoints = Inr demo_private"
  by code_simp

definition demo_keys :: jwks_state where
  "demo_keys = \<lparr>jwks_cache = [(''https://idp/keys'', 1, [(''keys'', PList [PDict [(''kid'', PStr ''k1'')]])])], jwks_failures = []\<rparr>"

definition demo_login_visit :: visit where
  "demo_login_visit = \<lparr>entered = 1, locked = 1, seen = demo_login_net\<rparr>"

lemma demo_jwks:
  "jwks demo_login_visit demo_private False \<lparr>jwks_cache = [], jwks_failures = []\<rparr> =
    (([Requested ''https://idp/keys'' ''10.0.0.1''], Inr [(''keys'', PList [PDict [(''kid'', PStr ''k1'')]])]), demo_keys)"
proof -
  have "fetch_jwks demo_login_net demo_private =
      ([Requested ''https://idp/keys'' ''10.0.0.1''], Inr [(''keys'', PList [PDict [(''kid'', PStr ''k1'')]])])"
    by (simp add: fetch_jwks_def demo_login_net_def demo_private_def demo_settings_def resolve_url_def resolve_host_def
        JWKS_TOTAL_TIMEOUT_S_def JWKS_MAX_BYTES_def parse_jwks_def dgetN_def dget_def tellW_def liftW_def)
  then show ?thesis
    by (simp add: jwks_def cached_jwks_def jwks_locked_def recent_failure_def dget_def dset_def dpop_def demo_login_visit_def
        Let_def demo_keys_def) (simp add: demo_private_def demo_settings_def)
qed

lemma demo_found_key:
  "find_key demo_jwt v v' demo_private (Some ''k1'') ''RS256'' st = ((cs, Inr ''key''), st')"
  if "jwks v demo_private False st = ((cs, Inr [(''keys'', PList [PDict [(''kid'', PStr ''k1'')]])]), st')"
proof -
  have "select_key demo_jwt (Some ''k1'') ''RS256'' (the_list (dgetN [(''keys'', PList [PDict [(''kid'', PStr ''k1'')]])] ''keys'')) = Inr ''key''"
    by code_simp
  with that show ?thesis by (simp add: find_key_def signing_key_def bindW_def liftW_def)
qed

lemma demo_accepted:
  "accept_claims [] s kid (demo_claims ''fagan'' ''https://idp'') = retW bob"
proof -
  have "bindE (check_claims (demo_claims ''fagan'' ''https://idp'')) (principal_of [] (demo_claims ''fagan'' ''https://idp'')) = Inr bob"
    by code_simp
  then show ?thesis by (simp add: accept_claims_def)
qed

lemma demo_token:
  "verify_token demo_jwt [] demo_login_visit demo_login_visit demo_private (Some ''tok'') \<lparr>jwks_cache = [], jwks_failures = []\<rparr> =
    (([Requested ''https://idp/keys'' ''10.0.0.1''], Inr bob), demo_keys)"
proof -
  have h: "token_header demo_jwt (Some ''tok'') = Inr (''tok'', [(''alg'', PStr ''RS256''), (''kid'', PStr ''k1'')], ''RS256'')"
    by code_simp
  have k: "header_kid [(''alg'', PStr ''RS256''), (''kid'', PStr ''k1'')] = Some ''k1''" by code_simp
  have d: "decode demo_jwt ''tok'' ''key'' algs (audience demo_private) (issuer demo_private) l REQUIRED_CLAIMS =
      Some (demo_claims ''fagan'' ''https://idp'')" for algs l
    by (simp add: demo_jwt_def demo_private_def demo_settings_def REQUIRED_CLAIMS_def)
  show ?thesis
    by (simp add: verify_token_def h k demo_found_key [OF demo_jwks] d demo_accepted bindW_def)
qed

lemma demo_visits:
  "fst (le_visits (demo_login_env 1)) = demo_login_visit" "snd (le_visits (demo_login_env 1)) = demo_login_visit"
  by (simp_all add: demo_login_env_def demo_login_visit_def)

definition demo_attempt :: pending_login where
  "demo_attempt = \<lparr>pl_nonce = ''no'', pl_verifier = ''ve'', pl_expires = 600, pl_next = ''/plans''\<rparr>"

definition demo_found :: "string \<Rightarrow> login_state" where
  "demo_found p = reset_state\<lparr>ls_rate := [(p, [0])], ls_discovery := [(''https://idp'', 0, demo_endpoints)]\<rparr>"

lemma demo_begin:
  "\<exists>loc. begin_login (demo_login_env 0) demo_login_config (demo_browser [(''next'', ''/plans'')] []) reset_state =
    (([Asked ''https://idp/.well-known/openid-configuration'' ''10.0.0.1''],
      Inr \<lparr>rp_status = 302, rp_body = Location loc, rp_cookies = [set_login_state_cookie ''st'']\<rparr>),
     (demo_found ''p'')\<lparr>ls_pending := [(''st'', demo_attempt)]\<rparr>)"
proof -
  have r: "rate_limited ''p'' 0 reset_state = (False, reset_state\<lparr>ls_rate := [(''p'', [0])]\<rparr>)"
    by (simp add: rate_limited_def Let_def reset_state_def dget_def dset_def recent_def AUTH_RATE_WINDOW_S_def
        MAX_AUTH_REQUESTS_def MAX_TRACKED_CLIENTS_def)
  have d: "discovery (demo_login_env 0) demo_login_config (reset_state\<lparr>ls_rate := [(''p'', [0])]\<rparr>) =
     (([Asked ''https://idp/.well-known/openid-configuration'' ''10.0.0.1''], Inr demo_endpoints), demo_found ''p'')"
    by (subst demo_probe) (simp_all add: reset_state_def demo_found_def)
  obtain loc where loc: "login_location (demo_login_env 0) demo_login_config demo_endpoints = Inr loc" using demo_location by blast
  have "store_attempt (demo_login_env 0) demo_login_config (demo_browser [(''next'', ''/plans'')] []) demo_endpoints (demo_found ''p'') =
     (([], Inr \<lparr>rp_status = 302, rp_body = Location loc, rp_cookies = [set_login_state_cookie ''st'']\<rparr>),
      (demo_found ''p'')\<lparr>ls_pending := [(''st'', demo_attempt)]\<rparr>)"
    by (simp add: store_attempt_def Let_def demo_found_def reset_state_def prune_pending_def MAX_PENDING_LOGINS_def demo_browser_def
        dget_def demo_next loc demo_parts liftW_def dset_def demo_attempt_def STATE_TTL_S_def)
  then show ?thesis
    by (intro exI [of _ loc]) (simp add: begin_login_def client_key_def demo_parts demo_browser_def [of _ "[]"] r d tellW_def)
qed

lemma demo_redeem:
  "post_form (demo_login_env 1) ''https://idp/token'' form True = ([Posted ''https://idp/token'' ''10.0.0.1'' form], Inr [(''id_token'', PStr ''tok'')])"
  by (simp add: post_form_def demo_login_env_def demo_login_net_def resolve_url_def resolve_host_def read_response_def
      HTTP_TIMEOUT_S_def MAX_DOCUMENT_BYTES_def tellW_def liftW_def)

definition demo_spent :: login_state where
  "demo_spent = (demo_found ''p'')\<lparr>ls_rate := [(''p'', [0, 1])]\<rparr>"

definition demo_in :: "rat \<Rightarrow> login_state" where
  "demo_in t = demo_spent\<lparr>ls_jwks := demo_keys,
     ls_sessions := [(''sid'', \<lparr>ss_id = ''sid'', ss_principal = bob, ss_created = 1, ss_last = t\<rparr>)]\<rparr>"

lemma demo_start:
  "start_session (demo_login_env 1) demo_login_config demo_attempt demo_endpoints ''tok'' demo_spent =
    (([Keys (Requested ''https://idp/keys'' ''10.0.0.1'')], Inr (entry_reply (demo_login_env 1) ''/plans'')), demo_in 1)"
proof -
  have u: "le_unverified (demo_login_env 1) t = Some [(''nonce'', PStr ''no'')]" for t by (simp add: demo_login_env_def)
  have n: "nonce_matches (demo_login_env 1) ''no'' [(''nonce'', PStr ''no'')]" by code_simp
  have j: "ls_jwks demo_spent = \<lparr>jwks_cache = [], jwks_failures = []\<rparr>" by (simp add: demo_spent_def demo_found_def reset_state_def)
  have v: "verified_principal (demo_login_env 1) demo_login_config demo_endpoints ''tok'' demo_spent =
      (([Keys (Requested ''https://idp/keys'' ''10.0.0.1'')], Inr bob), demo_spent\<lparr>ls_jwks := demo_keys\<rparr>)"
    by (simp add: verified_principal_def demo_login_settings demo_parts demo_visits j demo_token)
  have a: "pl_nonce demo_attempt = ''no''" "pl_next demo_attempt = ''/plans''" by (simp_all add: demo_attempt_def)
  show ?thesis
    unfolding start_session_def v
    by (simp add: u n a tellW_def entry_reply_def create_session_def demo_parts demo_in_def dset_def
        demo_spent_def demo_found_def reset_state_def prune_sessions_def)
qed

lemma demo_finish:
  "finish_login (demo_login_env 1) demo_login_config demo_callback ((demo_found ''p'')\<lparr>ls_pending := [(''st'', demo_attempt)]\<rparr>) =
    (([Posted ''https://idp/token'' ''10.0.0.1'' (exchange_form demo_login_config ''co'' ''s'' demo_attempt),
       Keys (Requested ''https://idp/keys'' ''10.0.0.1'')], Inr (entry_reply (demo_login_env 1) ''/plans'')), demo_in 1)"
proof -
  have r: "rate_limited ''p'' 1 ((demo_found ''p'')\<lparr>ls_pending := [(''st'', demo_attempt)]\<rparr>) =
      (False, demo_spent\<lparr>ls_pending := [(''st'', demo_attempt)]\<rparr>)"
    by (simp add: rate_limited_def Let_def demo_found_def demo_spent_def reset_state_def dget_def dset_def recent_def
        AUTH_RATE_WINDOW_S_def MAX_AUTH_REQUESTS_def MAX_TRACKED_CLIENTS_def)
  have p: "ls_pending (demo_spent\<lparr>ls_pending := [(''st'', demo_attempt)]\<rparr>) = [(''st'', demo_attempt)]" by simp
  have g: "demo_spent\<lparr>ls_pending := [(''st'', demo_attempt)], ls_pending := dpop ''st'' [(''st'', demo_attempt)]\<rparr> = demo_spent"
    by (simp add: demo_spent_def demo_found_def reset_state_def dpop_def)
  have d: "discovery (demo_login_env 1) demo_login_config demo_spent = (retW demo_endpoints, demo_spent)"
    by (simp add: discovery_def demo_discovery_url cached_discovery_def demo_parts demo_spent_def demo_found_def reset_state_def
        dget_def DISCOVERY_TTL_S_def)
  have q: "env_get (br_query demo_callback) ''state'' = ''st''" "env_get (br_query demo_callback) ''code'' = ''co''"
    "env_get (br_query demo_callback) ''error'' = []" "client_key demo_callback = ''p''"
    "state_is_from_this_browser demo_callback ''st''"
    by code_simp+
  have x: "exchange_code (demo_login_env 1) demo_login_config demo_attempt ''co'' demo_endpoints demo_spent =
      (([Posted ''https://idp/token'' ''10.0.0.1'' (exchange_form demo_login_config ''co'' ''s'' demo_attempt),
         Keys (Requested ''https://idp/keys'' ''10.0.0.1'')], Inr (entry_reply (demo_login_env 1) ''/plans'')), demo_in 1)"
  proof -
    have "read_client_secret (demo_login_env 1) = Inr ''s''" by (simp add: read_client_secret_def demo_login_env_def) code_simp
    moreover have "dget demo_endpoints ''token_endpoint'' = Some ''https://idp/token''" by code_simp
    moreover have "dgetN [(''id_token'', PStr ''tok'')] ''id_token'' = PStr ''tok''" by code_simp
    ultimately show ?thesis
      by (simp add: exchange_code_def Let_def demo_parts demo_redeem demo_start tellW_def)
  qed
  have e: "pl_expires demo_attempt = 600" by (simp add: demo_attempt_def)
  show ?thesis
    unfolding finish_login_def q Let_def demo_parts r
    by (simp add: dget_def g redeem_def q e demo_parts d x Let_def tellW_def)
qed

lemma demo_api:
  "authenticate_api_request (demo_login_env 2) demo_settings demo_login_config (demo_browser [] [(SESSION_COOKIE, ''sid'')]) (demo_in 1) =
    (retW bob, demo_in 2)"
proof -
  have "bearer_credential (demo_browser [] [(SESSION_COOKIE, ''sid'')]) = []" by code_simp
  then show ?thesis
    by (simp add: authenticate_api_request_def demo_parts session_principal_def load_session_def demo_browser_def dget_def
        demo_in_def demo_spent_def demo_found_def reset_state_def expired_session_def SESSION_ABSOLUTE_TIMEOUT_S_def
        SESSION_IDLE_TIMEOUT_S_def Let_def dset_def allows_cookie_write_def SAFE_METHODS_def retW_def liftW_def)
qed

lemma demo_retry:
  "\<exists>st. finish_login (demo_login_env 3) demo_login_config demo_callback (demo_in 2) = (retW (refuse_login 400 INVALID_REQUEST True), st)"
proof -
  have q: "env_get (br_query demo_callback) ''state'' = ''st''" "client_key demo_callback = ''p''"
    "state_is_from_this_browser demo_callback ''st''"
    by code_simp+
  obtain st where r: "rate_limited ''p'' 3 (demo_in 2) = (False, st)" "ls_pending st = []"
    by (auto simp: rate_limited_def Let_def demo_in_def demo_found_def demo_spent_def reset_state_def dget_def dset_def recent_def
        AUTH_RATE_WINDOW_S_def MAX_AUTH_REQUESTS_def MAX_TRACKED_CLIENTS_def)
  then show ?thesis by (simp add: finish_login_def q demo_parts Let_def dget_def)
qed

lemma demo_session_run:
  "\<exists>loc. serve_all demo_login_config demo_logins reset_state =
    [\<lparr>we_env = demo_login_env 0, we_request = Login (demo_browser [(''next'', ''/plans'')] []),
      we_calls = [Asked ''https://idp/.well-known/openid-configuration'' ''10.0.0.1''],
      we_answer = Inr (Replied \<lparr>rp_status = 302, rp_body = Location loc, rp_cookies = [set_login_state_cookie ''st'']\<rparr>)\<rparr>,
     \<lparr>we_env = demo_login_env 1, we_request = Callback demo_callback,
      we_calls = [Posted ''https://idp/token'' ''10.0.0.1'' (exchange_form demo_login_config ''co'' ''s'' demo_attempt),
        Keys (Requested ''https://idp/keys'' ''10.0.0.1'')],
      we_answer = Inr (Replied (entry_reply (demo_login_env 1) ''/plans''))\<rparr>,
     \<lparr>we_env = demo_login_env 2, we_request = Api demo_settings (demo_browser [] [(SESSION_COOKIE, ''sid'')]), we_calls = [],
      we_answer = Inr (Admitted bob)\<rparr>,
     \<lparr>we_env = demo_login_env 3, we_request = Callback demo_callback, we_calls = [],
      we_answer = Inr (Replied (refuse_login 400 INVALID_REQUEST True))\<rparr>]"
proof -
  obtain loc where b: "begin_login (demo_login_env 0) demo_login_config (demo_browser [(''next'', ''/plans'')] []) reset_state =
    (([Asked ''https://idp/.well-known/openid-configuration'' ''10.0.0.1''],
      Inr \<lparr>rp_status = 302, rp_body = Location loc, rp_cookies = [set_login_state_cookie ''st'']\<rparr>),
     (demo_found ''p'')\<lparr>ls_pending := [(''st'', demo_attempt)]\<rparr>)"
    using demo_begin by blast
  obtain st where f: "finish_login (demo_login_env 3) demo_login_config demo_callback (demo_in 2) =
      (retW (refuse_login 400 INVALID_REQUEST True), st)"
    using demo_retry by blast
  show ?thesis
    by (intro exI [of _ loc])
      (simp add: demo_logins_def serve_web_def demo_parts replied_def b demo_finish demo_api f bindW_def)
qed

theorem sessions_were_logged_in_witness:
  "we_answer (serve_all demo_login_config demo_logins reset_state ! 2) = Inr (Admitted bob) \<and>
   (\<exists>l j k. l < j \<and> j < 2 \<and> logged_in demo_login_config demo_logins l j k bob)"
proof -
  have r: "2 < length demo_logins" "request_at demo_logins 2 = Api demo_settings (demo_browser [] [(SESSION_COOKIE, ''sid'')])"
    by (simp_all add: demo_logins_def)
  have c: "bearer_credential (demo_browser [] [(SESSION_COOKIE, ''sid'')]) = []" by code_simp
  have a: "we_answer (event_at demo_login_config demo_logins 2) = Inr (Admitted bob)"
    using demo_session_run by auto
  from sessions_were_logged_in [OF r c a] a show ?thesis by (meson le_less_trans)
qed

theorem attempts_are_spent_once_witness:
  "distinct (drawn_states demo_logins) \<and> posts (we_calls (serve_all demo_login_config demo_logins reset_state ! 1)) \<and>
   \<not> posts (we_calls (serve_all demo_login_config demo_logins reset_state ! 3))"
proof -
  have d: "distinct (drawn_states demo_logins)" by (simp add: drawn_states_def demo_logins_def map_filter_simps)
  have r: "request_at demo_logins 1 = Callback demo_callback" "request_at demo_logins 3 = Callback demo_callback"
    "3 < length demo_logins" by (simp_all add: demo_logins_def)
  have p: "posts (we_calls (event_at demo_login_config demo_logins 1))"
    using demo_session_run by (auto simp: posts_def)
  from attempts_are_spent_once [OF d _ r(3) r(1,2) refl disjI1 [OF p]] d p show ?thesis by simp
qed

lemma logins_end_on_this_site_witness:
  "we_answer (serve_all demo_login_config demo_logins reset_state ! 1) = Inr (Replied (entry_reply (demo_login_env 1) ''/plans'')) \<and>
   safe_path ''/plans''"
proof -
  have r: "1 < length demo_logins" "request_at demo_logins 1 = Callback demo_callback" by (simp_all add: demo_logins_def)
  have a: "we_answer (event_at demo_login_config demo_logins 1) = Inr (Replied (entry_reply (demo_login_env 1) ''/plans''))"
    using demo_session_run by auto
  have "rp_body (entry_reply (demo_login_env 1) ''/plans'') = Location ''/plans''" by (simp add: entry_reply_def)
  from logins_end_on_this_site [OF r a this] a show ?thesis by simp
qed

end
