(* ===== verification/LoginLimits.thy ===== *)
theory LoginLimits
  imports LoginFlow
begin

text \<open>
  The limits of the unauthenticated routes (model: theory LoginFlow): how many requests a client gets in a
  minute, and what the counting does at its edges.
\<close>

subsection \<open>Counting over time\<close>

text \<open>The times at which \<open>key\<close> was let through, for a sequence of clients and clock readings.\<close>

fun admitted_times :: "string \<Rightarrow> (string \<times> rat) list \<Rightarrow> login_state \<Rightarrow> rat list" where
  "admitted_times key [] st = []"
| "admitted_times key ((k, now) # rest) st =
     (case rate_limited k now st of
        (limited, st) \<Rightarrow> (if k = key \<and> \<not> limited then [now] else []) @ admitted_times key rest st)"

definition stamps_of :: "login_state \<Rightarrow> string \<Rightarrow> rat list" where
  "stamps_of st k = (case dget (ls_rate st) k of Some ts \<Rightarrow> ts | None \<Rightarrow> [])"

lemma recent_recent: "now \<le> now' \<Longrightarrow> recent now' (recent now ts) = recent now' ts"
  unfolding recent_def filter_filter by (rule filter_cong) (auto simp: AUTH_RATE_WINDOW_S_def)

lemma recent_snoc: "recent now (ts @ [now]) = recent now ts @ [now]"
  by (simp add: recent_def AUTH_RATE_WINDOW_S_def)

lemma dget_filter:
  "wf_dict d \<Longrightarrow> dget (filter (\<lambda>(k, v). ok v) d) k = (case dget d k of Some v \<Rightarrow> if ok v then Some v else None | None \<Rightarrow> None)"
proof (induction d)
  case (Cons x d)
  obtain k' v where x: "x = (k', v)" by (cases x)
  from Cons.prems have "wf_dict d" "dget d k' = None"
    by (simp_all add: x wf_dict_def dkeys_def dget_None_iff)
  with Cons.IH show ?case by (auto simp: x dget_def split: option.split)
qed (simp add: dget_def)

lemma live_stamps:
  assumes "wf_dict d"
  shows "recent now (case dget (filter (\<lambda>(k, ts). recent now ts \<noteq> []) d) k of Some ts \<Rightarrow> ts | None \<Rightarrow> []) =
    recent now (case dget d k of Some ts \<Rightarrow> ts | None \<Rightarrow> [])"
proof -
  have "recent now [] = []" by (simp add: recent_def)
  then show ?thesis
    unfolding dget_filter [OF assms, of "\<lambda>ts. recent now ts \<noteq> []" k] by (cases "dget d k") auto
qed

text \<open>The table knows, of what every client did, the part that still counts.\<close>

definition counts_ok :: "string set \<Rightarrow> rat \<Rightarrow> (string \<Rightarrow> rat list) \<Rightarrow> login_state \<Rightarrow> bool" where
  "counts_ok K now hist st \<longleftrightarrow>
     wf_dict (ls_rate st) \<and> set (dkeys (ls_rate st)) \<subseteq> K \<and> (\<forall>k. recent now (stamps_of st k) = recent now (hist k))"

lemma rate_limited_counts:
  assumes "counts_ok K now hist st" "now \<le> now'" "key \<in> K" "finite K" "card K \<le> MAX_TRACKED_CLIENTS"
    and "rate_limited key now' st = (limited, st')"
  shows "limited = (MAX_AUTH_REQUESTS \<le> length (recent now' (hist key))) \<and>
    counts_ok K now' (if limited then hist else hist(key := hist key @ [now'])) st'"
proof -
  have known: "recent now' (stamps_of st k) = recent now' (hist k)" for k
    using assms(1,2) recent_recent [OF assms(2)] unfolding counts_ok_def by metis
  let ?stamps = "recent now' (stamps_of st key)"
  let ?counted = "dset key (if limited then ?stamps else ?stamps @ [now']) (ls_rate st)"
  let ?live = "filter (\<lambda>(k, ts). recent now' ts \<noteq> []) ?counted"
  have lim: "limited = (MAX_AUTH_REQUESTS \<le> length ?stamps)"
    and st': "st' = st\<lparr>ls_rate := drop (length ?live - MAX_TRACKED_CLIENTS) ?live\<rparr>"
    using assms(6) by (auto simp: rate_limited_def Let_def stamps_of_def)
  have wf: "wf_dict ?counted" using assms(1) by (simp add: counts_ok_def)
  then have wfl: "wf_dict ?live"
    by (auto simp: wf_dict_def dkeys_def intro: distinct_map_filter)
  have "set (dkeys ?counted) \<subseteq> K" using assms(1,3) by (auto simp: counts_ok_def set_dkeys_dset)
  then have sub: "set (dkeys ?live) \<subseteq> K" unfolding dkeys_def set_map by (rule order_trans [rotated]) (intro image_mono, simp)
  have "length ?live = length (dkeys ?live)" unfolding dkeys_def by (rule length_map [symmetric])
  also have "\<dots> = card (set (dkeys ?live))"
    using wfl unfolding wf_dict_def by (rule distinct_card [symmetric])
  also have "\<dots> \<le> card K" using sub assms(4) by (rule card_mono [rotated])
  finally have "length ?live \<le> MAX_TRACKED_CLIENTS" using assms(5) by simp
  then have rate: "ls_rate st' = ?live" by (simp add: st')
  have "recent now' (stamps_of st' k) = recent now' (stamps_of (st\<lparr>ls_rate := ?counted\<rparr>) k)" for k
    unfolding stamps_of_def [of st'] stamps_of_def [of "st\<lparr>ls_rate := ?counted\<rparr>"] rate
    using live_stamps [OF wf, of now' k] by simp
  moreover have "recent now' (stamps_of (st\<lparr>ls_rate := ?counted\<rparr>) k) =
      recent now' ((if limited then hist else hist(key := hist key @ [now'])) k)" for k
  proof (cases "k = key")
    case True
    have "stamps_of (st\<lparr>ls_rate := ?counted\<rparr>) key = (if limited then ?stamps else ?stamps @ [now'])"
      by (simp add: stamps_of_def)
    with True known [of key] recent_recent [OF order_refl, of now' "stamps_of st key"] show ?thesis
      by (cases limited) (simp_all add: recent_snoc)
  next
    case False
    then have "stamps_of (st\<lparr>ls_rate := ?counted\<rparr>) k = stamps_of st k" by (simp add: stamps_of_def)
    with False known [of k] show ?thesis by simp
  qed
  ultimately have "recent now' (stamps_of st' k) = recent now' ((if limited then hist else hist(key := hist key @ [now'])) k)" for k
    by (rule trans)
  moreover have "wf_dict (ls_rate st') \<and> set (dkeys (ls_rate st')) \<subseteq> K" unfolding rate using wfl sub by blast
  moreover have "limited = (MAX_AUTH_REQUESTS \<le> length (recent now' (hist key)))" using lim unfolding known .
  ultimately show ?thesis unfolding counts_ok_def by (intro conjI allI) (assumption | erule conjunct1 conjunct2)+
qed

definition window :: "rat \<Rightarrow> rat list \<Rightarrow> rat list" where
  "window a ts = filter (\<lambda>t. a \<le> t \<and> t < a + 60) ts"

lemma window_append [simp]: "window a (xs @ ys) = window a xs @ window a ys" "window a [] = []"
  by (simp_all add: window_def)

lemma filter_length_le: "(\<And>x. x \<in> set xs \<Longrightarrow> p x \<Longrightarrow> q x) \<Longrightarrow> length (filter p xs) \<le> length (filter q xs)"
  by (induction xs) (auto simp: le_Suc_eq)

lemma window_snoc:
  assumes "length (window a ts) \<le> MAX_AUTH_REQUESTS" "length (recent now ts) < MAX_AUTH_REQUESTS"
  shows "length (window a (ts @ [now])) \<le> MAX_AUTH_REQUESTS"
proof (cases "a \<le> now \<and> now < a + 60")
  case True
  have "length (window a ts) \<le> length (recent now ts)"
    unfolding window_def recent_def by (rule filter_length_le) (use True in \<open>auto simp: AUTH_RATE_WINDOW_S_def\<close>)
  with assms(2) show ?thesis by (simp add: window_def)
next
  case False
  then have "window a (ts @ [now]) = window a ts" by (auto simp: window_def)
  with assms(1) show ?thesis by simp
qed

lemma admitted_in_window:
  assumes "counts_ok K now hist st" "sorted (now # map snd xs)" "fst ` set xs \<subseteq> K" "finite K" "card K \<le> MAX_TRACKED_CLIENTS"
    and "length (window a (hist key)) \<le> MAX_AUTH_REQUESTS"
  shows "length (window a (hist key @ admitted_times key xs st)) \<le> MAX_AUTH_REQUESTS"
  using assms(1,2,3,6)
proof (induction xs arbitrary: now hist st)
  case (Cons x xs)
  obtain k now' where x: "x = (k, now')" by (cases x)
  obtain limited st' where r: "rate_limited k now' st = (limited, st')" by (cases "rate_limited k now' st")
  let ?hist = "if limited then hist else hist(k := hist k @ [now'])"
  have "now \<le> now'" "k \<in> K" using Cons.prems x by auto
  from rate_limited_counts [OF Cons.prems(1) this assms(4,5) r]
  have c: "limited = (MAX_AUTH_REQUESTS \<le> length (recent now' (hist k)))" "counts_ok K now' ?hist st'" by auto
  have w: "length (window a (?hist key)) \<le> MAX_AUTH_REQUESTS"
    using Cons.prems(4) c(1) window_snoc [of a "hist key" now'] by auto
  have "sorted (now' # map snd xs)" "fst ` set xs \<subseteq> K" using Cons.prems x by auto
  from Cons.IH [OF c(2) this w] show ?case
    by (auto simp: x r split: if_splits)
qed simp

text \<open>
  A client gets at most sixty unauthenticated requests through in any sixty seconds, as long as the clock does not
  step back and no more than 1024 clients knock.
\<close>

lemma login_requests_are_limited:
  assumes "sorted (map snd xs)" "card (fst ` set xs) \<le> 1024"
  shows "length (filter (\<lambda>t. a \<le> t \<and> t < a + 60) (admitted_times key xs reset_state)) \<le> 60"
proof (cases xs)
  case (Cons x ys)
  have "counts_ok (fst ` set xs) (snd x) (\<lambda>_. []) reset_state"
    by (simp add: counts_ok_def reset_state_def stamps_of_def dget_def dkeys_def)
  moreover have "sorted (snd x # map snd xs)" using assms(1) Cons by auto
  ultimately have "length (window a ([] @ admitted_times key xs reset_state)) \<le> MAX_AUTH_REQUESTS"
    using assms(2) by (intro admitted_in_window [where K = "fst ` set xs" and hist = "\<lambda>_. []"])
      (auto simp: MAX_TRACKED_CLIENTS_def window_def)
  then show ?thesis by (simp add: window_def MAX_AUTH_REQUESTS_def)
qed simp

lemma login_requests_are_limited_witness:
  "sorted (map snd [(''10.0.0.1'', 0 :: rat), (''10.0.0.2'', 1), (''10.0.0.1'', 2)]) \<and>
   admitted_times ''10.0.0.1'' [(''10.0.0.1'', 0), (''10.0.0.2'', 1), (''10.0.0.1'', 2)] reset_state = [0, 2] \<and>
   length (filter (\<lambda>t. 0 \<le> t \<and> t < 0 + 60)
     (admitted_times ''10.0.0.1'' [(''10.0.0.1'', 0), (''10.0.0.2'', 1), (''10.0.0.1'', 2)] reset_state)) \<le> 60"
proof -
  let ?xs = "[(''10.0.0.1'', 0 :: rat), (''10.0.0.2'', 1), (''10.0.0.1'', 2)]"
  have s: "sorted (map snd ?xs)" "card (fst ` set ?xs) \<le> 1024" using card_length [of "map fst ?xs"] by simp_all
  have r: "admitted_times ''10.0.0.1'' ?xs reset_state = [0, 2]" by code_simp
  from login_requests_are_limited [OF s, of 0 "''10.0.0.1''"] s(1) r show ?thesis by simp
qed

subsection \<open>At the edges\<close>

text \<open>Past the bound the client longest in the table loses its count, live or not.\<close>

lemma newcomer_resets_count:
  assumes "ls_rate st = (k, ts) # rest" "wf_dict (ls_rate st)" "length (ls_rate st) = MAX_TRACKED_CLIENTS"
    and "dget (ls_rate st) new = None" "\<forall>(k, ts) \<in> set (ls_rate st). recent now ts \<noteq> []"
  shows "fst (rate_limited k now (snd (rate_limited new now st))) = False"
proof -
  have l: "filter (\<lambda>(k, ts). recent now ts \<noteq> []) (dset new [now] (ls_rate st)) = ls_rate st @ [(new, [now])]"
    using assms(4,5) by (auto simp: dset_new filter_id_conv recent_def AUTH_RATE_WINDOW_S_def)
  have "recent now [] = []" by (simp add: recent_def)
  then have "snd (rate_limited new now st) = st\<lparr>ls_rate := drop (length (ls_rate st @ [(new, [now])]) - MAX_TRACKED_CLIENTS)
      (ls_rate st @ [(new, [now])])\<rparr>"
    using l by (simp add: rate_limited_def Let_def assms(4) MAX_AUTH_REQUESTS_def)
  also have "\<dots> = st\<lparr>ls_rate := rest @ [(new, [now])]\<rparr>" using assms(1,3) by simp
  finally have "snd (rate_limited new now st) = st\<lparr>ls_rate := rest @ [(new, [now])]\<rparr>" .
  moreover have "dget (rest @ [(new, [now])]) k = None"
    using assms(1,2,4) by (auto simp: wf_dict_def dkeys_def dget_None_iff)
  ultimately show ?thesis
    by (simp add: rate_limited_def Let_def recent_def MAX_AUTH_REQUESTS_def)
qed

text \<open>An \<open>Origin\<close> that is no URL is not refused: the handler raises.\<close>

lemma odd_origin_raises:
  assumes "br_method rq \<notin> set SAFE_METHODS" "lc_enabled c"
    and "lower (strip (env_get (br_headers rq) ''sec-fetch-site'')) \<noteq> ''same-origin''"
    and "dget (br_headers rq) ''origin'' = Some ''https://[x''"
  shows "allows_cookie_write e rq c = Inl UrlErr"
proof -
  have "urlsplit (le_bracketed e) ''https://[x'' = None"
    by (simp add: urlsplit_def cleaned_url_def scheme_split_def netloc_split_def bracket_ok_def starts_with_def scheme_char_def
        is_lower_def)
  with assms show ?thesis by (auto simp: allows_cookie_write_def env_get_def with_some_def split: option.split)
qed

text \<open>A token endpoint that is no URL makes discovery raise, and leaves no failure behind.\<close>

lemma odd_endpoint_raises:
  assumes "lc_internal c \<noteq> []" "dgetN doc ''issuer'' = PStr (lc_issuer c)"
    and "dgetN doc ''authorization_endpoint'' = PStr ''https://a''" "dgetN doc ''token_endpoint'' = PStr ''https://[x''"
    and "dgetN doc ''jwks_uri'' = PStr ''https://k''" "snd (fetch_json e url (lc_private c)) = Inr doc"
  shows "snd (fst (probe_issuer e c url st)) = Inl UrlErr" "snd (probe_issuer e c url st) = st"
proof -
  have "urlsplit (le_bracketed e) ''https://[x'' = None"
    by (simp add: urlsplit_def cleaned_url_def scheme_split_def netloc_split_def bracket_ok_def starts_with_def scheme_char_def
        is_lower_def)
  then have "read_endpoints (le_bracketed e) c doc = Inl UrlErr"
    using assms by (simp add: read_endpoints_def https_field_def server_side_url_def with_some_def starts_with_def)
  with assms(6) show "snd (fst (probe_issuer e c url st)) = Inl UrlErr" "snd (probe_issuer e c url st) = st"
    by (simp_all add: probe_issuer_def Let_def)
qed

end
