(* ===== verification/AuthorityMatrix.thy ===== *)
theory AuthorityMatrix
  imports PyPrelude
begin

text \<open>
  The layered authority matrix of \<open>pipeline/authority_matrix.py\<close>: parsing and validation of
  an org or team layer, the sequential fold of team layers over the org layer, the tier
  lookup, and \<open>FileLayerSource.resolve\<close>.  Rules stay dictionaries, as in the code; the
  validator's postcondition is \<open>wf_rule\<close>.  The hash function and the JSON decoder are the
  arguments \<open>sha\<close> and \<open>loads\<close>.
\<close>

section \<open>Data\<close>

text \<open>Exceptions that can leave this module; a message keeps its fixed words only.\<close>

datatype mexn = MatrixError string | KeyErr string | TypeErr | ValueErr | OSErr

record layer =
  l_layer :: string
  l_version :: pyval
  l_rules :: "(string \<times> pydict) list"
  l_never :: "string list"
  l_raw :: string

record violation =
  v_layer :: string
  v_rule_id :: "string option"
  v_attempted :: "pyval option"
  v_reason :: string

record resolved =
  r_values :: "(string \<times> pyval) list"
  r_violations :: "violation list"
  r_layer_shas :: "string list"

definition DELEGATIONS :: "string list" where
  "DELEGATIONS = [''locked'', ''tighten_only'', ''adjustable'']"

definition RULE_TYPES :: "string list" where
  "RULE_TYPES = [''ordered_enum'', ''numeric'', ''set'', ''flag'']"

definition TIERS :: "string list" where
  "TIERS = [''human'', ''auto+notify'', ''auto'']"

definition ORG_RULE_REQUIRED_KEYS :: "string list" where
  "ORG_RULE_REQUIRED_KEYS = [''id'', ''class'', ''type'', ''value'', ''delegation'']"

text \<open>\<open>d[k]\<close>, and \<open>v in frozenset(ss)\<close>, which hashes \<open>v\<close> first.\<close>

definition ditem :: "pydict \<Rightarrow> string \<Rightarrow> mexn + pyval" where
  "ditem d k = (case dget d k of Some v \<Rightarrow> Inr v | None \<Rightarrow> Inl (KeyErr k))"

definition in_frozenset :: "pyval \<Rightarrow> string list \<Rightarrow> mexn + bool" where
  "in_frozenset v ss = (if hashable v then Inr (list_ex (\<lambda>s. v = PStr s) ss) else Inl TypeErr)"

definition is_number :: "pyval \<Rightarrow> bool" where
  "is_number v = (case v of PInt _ \<Rightarrow> True | PFloat _ \<Rightarrow> True | _ \<Rightarrow> False)"

definition py_le :: "pyval \<Rightarrow> pyval \<Rightarrow> mexn + bool" where
  "py_le a b = (case (num_of a, num_of b) of
     (Some x, Some y) \<Rightarrow> Inr (num_le x y) | _ \<Rightarrow> Inl TypeErr)"

text \<open>The same comparisons where both sides were checked to be numbers.\<close>

definition py_leq :: "pyval \<Rightarrow> pyval \<Rightarrow> bool" where
  "py_leq a b = (case (num_of a, num_of b) of (Some x, Some y) \<Rightarrow> num_le x y | _ \<Rightarrow> False)"

definition py_gt :: "pyval \<Rightarrow> pyval \<Rightarrow> bool" where
  "py_gt a b = (case (num_of a, num_of b) of (Some x, Some y) \<Rightarrow> num_lt y x | _ \<Rightarrow> False)"

definition as_set :: "pyval list \<Rightarrow> mexn + pyval list" where
  "as_set xs = (if list_all hashable xs then Inr xs
     else Inl (MatrixError ''set entries must be hashable''))"

definition py_set :: "pyval \<Rightarrow> mexn + pyval list" where
  "py_set v = (case v of
     PList xs \<Rightarrow> (if list_all hashable xs then Inr xs else Inl TypeErr) | _ \<Rightarrow> Inl TypeErr)"

definition py_list :: "pyval \<Rightarrow> mexn + pyval list" where
  "py_list v = (case v of PList xs \<Rightarrow> Inr xs | _ \<Rightarrow> Inl TypeErr)"

section \<open>Validation of an org rule\<close>

definition validate_enum :: "pydict \<Rightarrow> pyval \<Rightarrow> mexn + pydict" where
  "validate_enum rule val =
     with_list (dgetN rule ''values'') (MatrixError ''needs a non-empty values list'') (\<lambda>values.
     bindE (guardE (values \<noteq> []) (MatrixError ''needs a non-empty values list'')) (\<lambda>_.
     bindE (guardE (list_all is_pystr values) (MatrixError ''values must be strings'')) (\<lambda>_.
     bindE (guardE (distinct values) (MatrixError ''values must be unique'')) (\<lambda>_.
     with_dict (dgetN rule ''bounds'') (MatrixError ''needs bounds.loosest'') (\<lambda>bounds.
     with_some (dget bounds ''loosest'') (MatrixError ''needs bounds.loosest'') (\<lambda>loosest.
     bindE (guardE (py_in loosest values) (MatrixError ''loosest is not in values'')) (\<lambda>_.
     bindE (guardE (py_in val values) (MatrixError ''value is not in values'')) (\<lambda>_.
     Inr (dset ''bounds'' (PDict [(''loosest'', loosest)]) rule)))))))))"

definition validate_numeric :: "pydict \<Rightarrow> pyval \<Rightarrow> mexn + pydict" where
  "validate_numeric rule val =
     bindE (guardE (dgetN rule ''tighter'' \<in> {PStr ''lower'', PStr ''higher''})
       (MatrixError ''needs tighter lower or higher'')) (\<lambda>_.
     with_dict (dgetN rule ''bounds'') (MatrixError ''needs bounds.min and bounds.max'') (\<lambda>bounds.
     with_some (dget bounds ''min'') (MatrixError ''needs bounds.min and bounds.max'') (\<lambda>low.
     with_some (dget bounds ''max'') (MatrixError ''needs bounds.min and bounds.max'') (\<lambda>high.
     bindE (guardE (is_number low \<and> is_number high) (MatrixError ''bounds must be numbers'')) (\<lambda>_.
     bindE (guardE (\<not> py_gt low high) (MatrixError ''has min above max'')) (\<lambda>_.
     bindE (guardE (is_number val \<and> py_leq low val \<and> py_leq val high)
       (MatrixError ''value is outside bounds'')) (\<lambda>_.
     Inr (dset ''bounds'' (PDict [(''min'', low), (''max'', high)]) rule))))))))"

definition flavors :: "pydict \<Rightarrow> string list" where
  "flavors bounds = filter (\<lambda>k. dget bounds k \<noteq> None) [''must_include'', ''may_choose_from'']"

definition validate_set :: "pydict \<Rightarrow> pyval \<Rightarrow> mexn + pydict" where
  "validate_set rule val =
     with_dict (dgetN rule ''bounds'') (MatrixError ''needs bounds'') (\<lambda>bounds.
     bindE (guardE (length (flavors bounds) = 1 \<and> list_all (\<lambda>k. k = hd (flavors bounds)) (dkeys bounds))
       (MatrixError ''bounds need exactly one flavor'')) (\<lambda>_.
     (let flavor = hd (flavors bounds) in
     with_list (dgetN bounds flavor) (MatrixError ''bounds flavor must be a list'') (\<lambda>bound.
     bindE (as_set bound) (\<lambda>bound_set.
     with_list val (MatrixError ''value must be a list'') (\<lambda>vs.
     bindE (as_set vs) (\<lambda>value_set.
     bindE (guardE (\<not> (flavor = ''must_include'' \<and> \<not> set_le bound_set value_set))
       (MatrixError ''value is missing a must_include entry'')) (\<lambda>_.
     bindE (guardE (\<not> (flavor = ''may_choose_from'' \<and> \<not> set_le value_set bound_set))
       (MatrixError ''value is outside may_choose_from'')) (\<lambda>_.
     Inr (dset ''bounds'' (PDict [(flavor, PList bound)]) rule))))))))))"

definition validate_flag :: "pydict \<Rightarrow> pyval \<Rightarrow> mexn + pydict" where
  "validate_flag rule val =
     bindE (guardE (is_pybool (dgetN rule ''tighter'')) (MatrixError ''needs a boolean tighter'')) (\<lambda>_.
     bindE (guardE (is_pybool val) (MatrixError ''value must be a boolean'')) (\<lambda>_.
     Inr rule))"

definition validate_org_rule :: "pydict \<Rightarrow> mexn + pydict" where
  "validate_org_rule rule =
     bindE (ditem rule ''type'') (\<lambda>rule_type.
     bindE (in_frozenset rule_type RULE_TYPES) (\<lambda>known.
     bindE (guardE known (MatrixError ''unknown type'')) (\<lambda>_.
     bindE (ditem rule ''delegation'') (\<lambda>delegation.
     bindE (in_frozenset delegation DELEGATIONS) (\<lambda>known_del.
     bindE (guardE known_del (MatrixError ''unknown delegation'')) (\<lambda>_.
     bindE (ditem rule ''class'') (\<lambda>rule_class.
     bindE (guardE (is_pystr rule_class \<and> truthy rule_class) (MatrixError ''needs a non-empty class'')) (\<lambda>_.
     bindE (ditem rule ''value'') (\<lambda>val.
     if rule_type = PStr ''ordered_enum'' then validate_enum rule val
     else if rule_type = PStr ''numeric'' then validate_numeric rule val
     else if rule_type = PStr ''set'' then validate_set rule val
     else validate_flag rule val)))))))))"

definition parse_rule :: "pyval \<Rightarrow> string \<Rightarrow> mexn + string \<times> pydict" where
  "parse_rule entry kind =
     with_dict entry (MatrixError ''rule must be an object'') (\<lambda>e.
     with_str (dgetN e ''id'') (MatrixError ''needs a non-empty string id'') (\<lambda>rule_id.
     bindE (guardE (rule_id \<noteq> []) (MatrixError ''needs a non-empty string id'')) (\<lambda>_.
     if kind = ''team'' then
       bindE (guardE (set (dkeys e) = {''id'', ''value''})
         (MatrixError ''team rule must carry exactly id and value'')) (\<lambda>_.
       bindE (ditem e ''value'') (\<lambda>val.
       Inr (rule_id, [(''id'', PStr rule_id), (''value'', val)])))
     else
       bindE (guardE (list_all (\<lambda>k. dget e k \<noteq> None) ORG_RULE_REQUIRED_KEYS)
         (MatrixError ''rule is missing a key'')) (\<lambda>_.
       bindE (validate_org_rule e) (\<lambda>rule. Inr (rule_id, rule))))))"

definition add_rule :: "string \<Rightarrow> pyval \<Rightarrow> (string \<times> pydict) list \<Rightarrow> mexn + (string \<times> pydict) list" where
  "add_rule kind entry rules =
     bindE (parse_rule entry kind) (\<lambda>(rule_id, rule).
     bindE (guardE (dget rules rule_id = None) (MatrixError ''duplicate rule id'')) (\<lambda>_.
     Inr (dset rule_id rule rules)))"

definition parse_never :: "pydict \<Rightarrow> string \<Rightarrow> mexn + string list" where
  "parse_never payload kind =
     (case dget payload ''never'' of
        None \<Rightarrow> Inr []
      | Some never \<Rightarrow>
          bindE (guardE (kind = ''org'') (MatrixError ''only an org layer may declare a never-list'')) (\<lambda>_.
          with_list never (MatrixError ''never must be a list of rule ids'') (\<lambda>items.
          bindE (guardE (list_all is_pystr items) (MatrixError ''never must be a list of rule ids'')) (\<lambda>_.
          Inr (map the_str items)))))"

definition parse_layer :: "pydict \<Rightarrow> string \<Rightarrow> mexn + layer" where
  "parse_layer payload raw =
     bindE (guardE (py_eq (dgetN payload ''version'') (PInt 1)) (MatrixError ''unsupported version'')) (\<lambda>_.
     bindE (guardE (py_in (dgetN payload ''layer'') [PStr ''org'', PStr ''team'']) (MatrixError ''unknown layer'')) (\<lambda>_.
     with_list (dgetN payload ''rules'') (MatrixError ''rules must be a list'') (\<lambda>entries.
     (let kind = the_str (dgetN payload ''layer'') in
     bindE (foldE (add_rule kind) entries []) (\<lambda>rules.
     bindE (parse_never payload kind) (\<lambda>never.
     Inr \<lparr>l_layer = kind, l_version = dgetN payload ''version'', l_rules = rules,
          l_never = never, l_raw = raw\<rparr>))))))"

text \<open>
  \<open>load_layer\<close>: the file's bytes (or the \<open>OSError\<close> of reading it) and the JSON decoder, whose
  \<open>None\<close> is a decoding error.
\<close>

definition load_layer :: "(string \<Rightarrow> pyval option) \<Rightarrow> string option \<Rightarrow> mexn + layer" where
  "load_layer loads file =
     (case file of
        None \<Rightarrow> Inl (MatrixError ''unreadable'')
      | Some raw \<Rightarrow>
          (case loads raw of
             None \<Rightarrow> Inl (MatrixError ''invalid JSON'')
           | Some (PDict payload) \<Rightarrow> parse_layer payload raw
           | Some _ \<Rightarrow> Inl (MatrixError ''a layer must be a JSON object'')))"

section \<open>Judging one team value\<close>

text \<open>\<open>definition.get("bounds") or {}\<close>\<close>

definition bounds_of :: "pydict \<Rightarrow> pydict" where
  "bounds_of d = (case dgetN d ''bounds'' of PDict b \<Rightarrow> b | _ \<Rightarrow> [])"

definition envelope_enum :: "pydict \<Rightarrow> pydict \<Rightarrow> pyval \<Rightarrow> pyval \<Rightarrow> pyval \<Rightarrow> mexn + bool" where
  "envelope_enum d bounds attempted current delegation =
     bindE (bindE (ditem d ''values'') py_list) (\<lambda>values.
     (case index_of attempted values of
        None \<Rightarrow> Inr False
      | Some i \<Rightarrow>
          if delegation = PStr ''tighten_only'' then
            (case index_of current values of None \<Rightarrow> Inr False | Some j \<Rightarrow> Inr (i \<le> j))
          else bindE (ditem bounds ''loosest'') (\<lambda>loosest.
            (case index_of loosest values of None \<Rightarrow> Inl ValueErr | Some j \<Rightarrow> Inr (i \<le> j)))))"

definition envelope_numeric :: "pydict \<Rightarrow> pydict \<Rightarrow> pyval \<Rightarrow> pyval \<Rightarrow> pyval \<Rightarrow> mexn + bool" where
  "envelope_numeric d bounds attempted current delegation =
     (if \<not> is_number attempted then Inr False
      else if delegation = PStr ''tighten_only'' then
        (if \<not> is_number current then Inr False
         else bindE (ditem d ''tighter'') (\<lambda>t.
           if t = PStr ''lower'' then py_le attempted current else py_le current attempted))
      else bindE (ditem bounds ''min'') (\<lambda>low. bindE (py_le low attempted) (\<lambda>a.
        if \<not> a then Inr False
        else bindE (ditem bounds ''max'') (\<lambda>high. py_le attempted high))))"

definition envelope_set :: "pydict \<Rightarrow> pyval \<Rightarrow> pyval \<Rightarrow> pyval \<Rightarrow> mexn + bool" where
  "envelope_set bounds attempted current delegation =
     (if \<not> is_pylist attempted then Inr False
      else bindE (py_set attempted) (\<lambda>chosen.
        case dget bounds ''must_include'' of
          Some must \<Rightarrow>
            (if delegation = PStr ''adjustable'' then bindE (py_set must) (\<lambda>b. Inr (set_le b chosen))
             else if \<not> is_pylist current then Inr False
             else bindE (py_set current) (\<lambda>c. Inr (set_le c chosen)))
        | None \<Rightarrow>
            (if delegation = PStr ''adjustable''
             then bindE (bindE (ditem bounds ''may_choose_from'') py_set) (\<lambda>b. Inr (set_le chosen b))
             else if \<not> is_pylist current then Inr False
             else bindE (py_set current) (\<lambda>c. Inr (set_le chosen c)))))"

definition envelope_flag :: "pydict \<Rightarrow> pyval \<Rightarrow> pyval \<Rightarrow> pyval \<Rightarrow> mexn + bool" where
  "envelope_flag d attempted current delegation =
     (if \<not> is_pybool attempted then Inr False
      else if delegation = PStr ''tighten_only'' then
        (if \<not> is_pybool current then Inr False
         else if attempted = current then Inr True
         else bindE (ditem d ''tighter'') (\<lambda>t. Inr (attempted = t)))
      else Inr True)"

definition within_envelope :: "pydict \<Rightarrow> pyval \<Rightarrow> pyval \<Rightarrow> pyval \<Rightarrow> mexn + bool" where
  "within_envelope d attempted current delegation =
     bindE (ditem d ''type'') (\<lambda>rule_type.
     (let bounds = bounds_of d in
      if rule_type = PStr ''ordered_enum'' then envelope_enum d bounds attempted current delegation
      else if rule_type = PStr ''numeric'' then envelope_numeric d bounds attempted current delegation
      else if rule_type = PStr ''set'' then envelope_set bounds attempted current delegation
      else envelope_flag d attempted current delegation))"

definition rejection_reason ::
  "pydict option \<Rightarrow> pyval \<Rightarrow> pyval \<Rightarrow> bool \<Rightarrow> mexn + string option" where
  "rejection_reason def attempted current is_never =
     (case def of
        None \<Rightarrow> Inr (Some ''unknown_rule'')
      | Some d \<Rightarrow>
          if is_never then Inr (Some ''never_list'')
          else bindE (ditem d ''delegation'') (\<lambda>delegation.
            if delegation = PStr ''locked'' then Inr (Some ''locked'')
            else bindE (within_envelope d attempted current delegation) (\<lambda>ok.
              Inr (if ok then None else Some ''outside_envelope''))))"

section \<open>Folding the layers\<close>

type_synonym fold_state = "(string \<times> pyval) list \<times> violation list"

definition fold_rule :: "layer \<Rightarrow> string \<Rightarrow> string \<times> pydict \<Rightarrow> fold_state \<Rightarrow> mexn + fold_state" where
  "fold_rule org kind entry st =
     (case (entry, st) of ((rule_id, rule), (vals, viols)) \<Rightarrow>
        bindE (ditem rule ''value'') (\<lambda>attempted.
        bindE (rejection_reason (dget (l_rules org) rule_id) attempted (dgetN vals rule_id)
                 (rule_id \<in> set (l_never org))) (\<lambda>reason.
        case reason of
          Some why \<Rightarrow>
            Inr (vals, viols @ [\<lparr>v_layer = kind, v_rule_id = Some rule_id,
                                  v_attempted = Some attempted, v_reason = why\<rparr>])
        | None \<Rightarrow> Inr (dset rule_id attempted vals, viols))))"

definition fold_layer :: "layer \<Rightarrow> layer \<Rightarrow> fold_state \<Rightarrow> mexn + fold_state" where
  "fold_layer org lay = foldE (fold_rule org (l_layer lay)) (l_rules lay)"

text \<open>The first org layer, and the other layers in input order.\<close>

fun split_org :: "layer list \<Rightarrow> (layer \<times> layer list) option" where
  "split_org [] = None"
| "split_org (lay # ls) =
     (if l_layer lay = ''org'' then Some (lay, ls)
      else map_option (\<lambda>(org, rest). (org, lay # rest)) (split_org ls))"

definition seed_values :: "layer \<Rightarrow> mexn + (string \<times> pyval) list" where
  "seed_values org = mapE (\<lambda>(rid, rule). bindE (ditem rule ''value'') (\<lambda>v. Inr (rid, v))) (l_rules org)"

definition fold_matrix :: "(string \<Rightarrow> string) \<Rightarrow> layer list \<Rightarrow> mexn + resolved" where
  "fold_matrix sha layers =
     (if layers = [] then Inl (MatrixError ''at least one layer is required'')
      else case split_org layers of
        None \<Rightarrow> Inl (MatrixError ''the authority matrix needs an org layer'')
      | Some (org, rest) \<Rightarrow>
          bindE (seed_values org) (\<lambda>vals.
          bindE (foldE (fold_layer org) rest (vals, [])) (\<lambda>(vals', viols).
          Inr \<lparr>r_values = vals', r_violations = viols,
               r_layer_shas = sha (l_raw org) # map (\<lambda>lay. sha (l_raw lay)) rest\<rparr>)))"

definition tier_for :: "resolved option \<Rightarrow> pyval \<Rightarrow> string" where
  "tier_for res decision_class =
     (case (res, decision_class) of
        (Some r, PStr c) \<Rightarrow>
          (case dget (r_values r) (c @ ''.tier'') of
             Some (PStr t) \<Rightarrow> (if t \<in> set TIERS then t else ''human'')
           | _ \<Rightarrow> ''human'')
      | _ \<Rightarrow> ''human'')"

definition with_unreadable_team_violation :: "(string \<Rightarrow> string) \<Rightarrow> layer \<Rightarrow> mexn + resolved" where
  "with_unreadable_team_violation sha org =
     bindE (fold_matrix sha [org]) (\<lambda>r.
     Inr (r\<lparr>r_violations := r_violations r @ [\<lparr>v_layer = ''team'', v_rule_id = None,
       v_attempted = None, v_reason = ''unreadable''\<rparr>]\<rparr>))"

section \<open>Resolving the layers from files\<close>

text \<open>
  The constructor's arguments, the environment and the file system that \<open>resolve\<close> reads.
  \<open>fs_default\<close> is \<open>_default_org_path()\<close>, which may raise; \<open>fs_read\<close> is \<open>read_bytes\<close>,
  \<open>None\<close> for an \<open>OSError\<close>.
\<close>

datatype team_arg = Unset | NoTeam | TeamPath string

record source_env =
  se_org :: "string option"
  se_team :: team_arg
  se_env_org :: "string option"
  se_env_team :: "string option"
  se_default :: "mexn + string"
  se_read :: "string \<Rightarrow> string option"

definition org_path_for :: "source_env \<Rightarrow> mexn + string" where
  "org_path_for se =
     (case se_org se of
        Some p \<Rightarrow> Inr p
      | None \<Rightarrow>
          (case se_env_org se of
             Some p \<Rightarrow> (if p \<noteq> [] then Inr p else se_default se)
           | None \<Rightarrow> se_default se))"

definition team_path_for :: "source_env \<Rightarrow> string option" where
  "team_path_for se =
     (case se_team se of
        NoTeam \<Rightarrow> None
      | TeamPath p \<Rightarrow> Some p
      | Unset \<Rightarrow> (case se_env_team se of Some p \<Rightarrow> (if p \<noteq> [] then Some p else None) | None \<Rightarrow> None))"

definition load_kind :: "(string \<Rightarrow> pyval option) \<Rightarrow> (string \<Rightarrow> string option) \<Rightarrow> string \<Rightarrow> string \<Rightarrow> mexn + layer" where
  "load_kind loads read path kind =
     bindE (load_layer loads (read path)) (\<lambda>lay.
     bindE (guardE (l_layer lay = kind) (MatrixError ''not a layer of this kind'')) (\<lambda>_. Inr lay))"

definition caught :: "mexn \<Rightarrow> bool" where
  "caught e = (case e of MatrixError _ \<Rightarrow> True | OSErr \<Rightarrow> True | _ \<Rightarrow> False)"

definition caught_path :: "mexn \<Rightarrow> bool" where
  "caught_path e = (case e of KeyErr _ \<Rightarrow> False | _ \<Rightarrow> True)"

definition resolve :: "(string \<Rightarrow> string) \<Rightarrow> (string \<Rightarrow> pyval option) \<Rightarrow> source_env \<Rightarrow> mexn + resolved option" where
  "resolve sha loads se =
     (case org_path_for se of
        Inl e \<Rightarrow> (if caught_path e then Inr None else Inl e)
      | Inr org_path \<Rightarrow>
          (case load_kind loads (se_read se) org_path ''org'' of
             Inl e \<Rightarrow> (if caught e then Inr None else Inl e)
           | Inr org \<Rightarrow>
               (case team_path_for se of
                  Some team_path \<Rightarrow>
                    (case load_kind loads (se_read se) team_path ''team'' of
                       Inl e \<Rightarrow> (if caught e then bindE (with_unreadable_team_violation sha org) (\<lambda>r. Inr (Some r))
                                 else Inl e)
                     | Inr team \<Rightarrow> bindE (fold_matrix sha [org, team]) (\<lambda>r. Inr (Some r)))
                | None \<Rightarrow> bindE (fold_matrix sha [org]) (\<lambda>r. Inr (Some r)))))"

section \<open>What validation guarantees\<close>

definition wf_enum :: "pydict \<Rightarrow> bool" where
  "wf_enum d \<longleftrightarrow> (\<exists>vs l. dget d ''values'' = Some (PList vs) \<and> list_all is_pystr vs \<and> distinct vs \<and>
     dget d ''bounds'' = Some (PDict [(''loosest'', l)]) \<and> py_in l vs \<and> py_in (dgetN d ''value'') vs)"

definition wf_numeric :: "pydict \<Rightarrow> bool" where
  "wf_numeric d \<longleftrightarrow> dget d ''tighter'' \<in> {Some (PStr ''lower''), Some (PStr ''higher'')} \<and>
     (\<exists>lo hi. dget d ''bounds'' = Some (PDict [(''min'', lo), (''max'', hi)]) \<and> is_number lo \<and>
        is_number hi \<and> is_number (dgetN d ''value'') \<and> py_leq lo (dgetN d ''value'') \<and>
        py_leq (dgetN d ''value'') hi)"

definition wf_set :: "pydict \<Rightarrow> bool" where
  "wf_set d \<longleftrightarrow> (\<exists>fl bs vs. fl \<in> {''must_include'', ''may_choose_from''} \<and>
     dget d ''bounds'' = Some (PDict [(fl, PList bs)]) \<and> list_all hashable bs \<and>
     dget d ''value'' = Some (PList vs) \<and> list_all hashable vs \<and>
     (if fl = ''must_include'' then set_le bs vs else set_le vs bs))"

definition wf_flag :: "pydict \<Rightarrow> bool" where
  "wf_flag d \<longleftrightarrow> (\<exists>t v. dget d ''tighter'' = Some (PBool t) \<and> dget d ''value'' = Some (PBool v))"

definition wf_rule :: "pydict \<Rightarrow> bool" where
  "wf_rule d \<longleftrightarrow> (\<exists>ty del. dget d ''type'' = Some (PStr ty) \<and> ty \<in> set RULE_TYPES \<and>
     dget d ''delegation'' = Some (PStr del) \<and> del \<in> set DELEGATIONS \<and> dget d ''value'' \<noteq> None \<and>
     (if ty = ''ordered_enum'' then wf_enum d else if ty = ''numeric'' then wf_numeric d
      else if ty = ''set'' then wf_set d else wf_flag d))"

definition wf_org :: "layer \<Rightarrow> bool" where
  "wf_org org \<longleftrightarrow> wf_dict (l_rules org) \<and> (\<forall>(rid, d) \<in> set (l_rules org). wf_rule d)"

lemma ditem_Inr [simp]: "ditem d k = Inr v \<longleftrightarrow> dget d k = Some v"
  by (auto simp: ditem_def split: option.splits)

lemma ditem_Some [simp]: "dget d k = Some v \<Longrightarrow> ditem d k = Inr v"
  by simp

lemma in_frozenset_Inr: "in_frozenset v ss = Inr b \<longleftrightarrow> hashable v \<and> b = (\<exists>s \<in> set ss. v = PStr s)"
  by (auto simp: in_frozenset_def list_ex_iff)

lemma as_set_Inr [simp]: "as_set xs = Inr ys \<longleftrightarrow> ys = xs \<and> list_all hashable xs"
  by (auto simp: as_set_def)

lemma dgetN_Some: "dget d k = Some v \<Longrightarrow> dgetN d k = v"
  by (simp add: dgetN_def)

lemma dgetN_cases: "dgetN d k = v \<Longrightarrow> v \<noteq> PNone \<Longrightarrow> dget d k = Some v"
  by (auto simp: dgetN_def split: option.splits)

lemma validate_enum_wf:
  assumes "validate_enum rule val = Inr d" "dget rule ''value'' = Some val"
  shows "wf_enum d \<and> (\<forall>k. k \<noteq> ''bounds'' \<longrightarrow> dget d k = dget rule k)"
  using assms unfolding validate_enum_def
  by (auto simp: okE wf_enum_def dgetN_Some dest: dgetN_cases)

lemma validate_numeric_wf:
  assumes "validate_numeric rule val = Inr d" "dget rule ''value'' = Some val"
  shows "wf_numeric d \<and> (\<forall>k. k \<noteq> ''bounds'' \<longrightarrow> dget d k = dget rule k)"
  using assms unfolding validate_numeric_def
  by (auto simp: okE wf_numeric_def dgetN_Some dest!: dgetN_cases)

lemma flavors_cases: "length (flavors bounds) = 1 \<Longrightarrow> hd (flavors bounds) \<in> {''must_include'', ''may_choose_from''}"
  by (auto simp: flavors_def split: if_splits)

lemma validate_set_wf:
  assumes "validate_set rule val = Inr d" "dget rule ''value'' = Some val"
  shows "wf_set d \<and> (\<forall>k. k \<noteq> ''bounds'' \<longrightarrow> dget d k = dget rule k)"
proof -
  from assms(1) obtain bounds fl bs vs where
    fl: "length (flavors bounds) = 1" "fl = hd (flavors bounds)"
    and vs: "val = PList vs" "list_all hashable bs" "list_all hashable vs"
    and rel: "fl = ''must_include'' \<longrightarrow> set_le bs vs" "fl = ''may_choose_from'' \<longrightarrow> set_le vs bs"
    and d: "d = dset ''bounds'' (PDict [(fl, PList bs)]) rule"
    unfolding validate_set_def Let_def okE as_set_Inr by blast
  have "fl \<in> {''must_include'', ''may_choose_from''}" unfolding fl(2) using fl(1) by (rule flavors_cases)
  with vs rel d assms(2) show ?thesis unfolding wf_set_def by auto
qed

lemma validate_flag_wf:
  assumes "validate_flag rule val = Inr d" "dget rule ''value'' = Some val"
  shows "wf_flag d \<and> (\<forall>k. k \<noteq> ''bounds'' \<longrightarrow> dget d k = dget rule k)"
  using assms unfolding validate_flag_def
  by (auto simp: okE wf_flag_def is_pybool_iff dest: dgetN_cases)

lemma validate_org_rule_wf:
  assumes "validate_org_rule rule = Inr d"
  shows "wf_rule d"
proof -
  from assms obtain ty del val where
    ty: "dget rule ''type'' = Some (PStr ty)" "ty \<in> set RULE_TYPES"
    and del: "dget rule ''delegation'' = Some (PStr del)" "del \<in> set DELEGATIONS"
    and val: "dget rule ''value'' = Some val"
    and branch: "(if ty = ''ordered_enum'' then validate_enum rule val
       else if ty = ''numeric'' then validate_numeric rule val
       else if ty = ''set'' then validate_set rule val else validate_flag rule val) = Inr d"
    unfolding validate_org_rule_def
    by (auto simp: okE in_frozenset_Inr cong: if_cong)
  from branch val have "(if ty = ''ordered_enum'' then wf_enum d else if ty = ''numeric'' then wf_numeric d
      else if ty = ''set'' then wf_set d else wf_flag d) \<and> (\<forall>k. k \<noteq> ''bounds'' \<longrightarrow> dget d k = dget rule k)"
    using validate_enum_wf validate_numeric_wf validate_set_wf validate_flag_wf
    by (auto split: if_splits)
  with ty del val show ?thesis unfolding wf_rule_def by auto
qed

lemma add_rule_wf:
  assumes "add_rule ''org'' entry rules = Inr rules'" "wf_dict rules" "\<forall>(rid, d) \<in> set rules. wf_rule d"
  shows "wf_dict rules' \<and> (\<forall>(rid, d) \<in> set rules'. wf_rule d)"
  using assms
  by (auto simp: add_rule_def parse_rule_def okE dset_new
      dest: validate_org_rule_wf)

lemma foldE_add_rule_wf:
  assumes "foldE (add_rule ''org'') es rules = Inr rules'" "wf_dict rules" "\<forall>(rid, d) \<in> set rules. wf_rule d"
  shows "wf_dict rules' \<and> (\<forall>(rid, d) \<in> set rules'. wf_rule d)"
  using assms
proof (induction es arbitrary: rules)
  case (Cons e es)
  from Cons.prems(1) obtain r where r: "add_rule ''org'' e rules = Inr r" "foldE (add_rule ''org'') es r = Inr rules'"
    by auto
  from add_rule_wf [OF r(1) Cons.prems(2,3)] Cons.IH [OF r(2)] show ?case by blast
qed auto

lemma parse_layer_wf: "parse_layer payload raw = Inr org \<Longrightarrow> l_layer org = ''org'' \<Longrightarrow> wf_org org"
  unfolding parse_layer_def wf_org_def Let_def
  using foldE_add_rule_wf [of _ "[]"]
  by (fastforce simp: okE)

lemma parse_layer_keys: "parse_layer payload raw = Inr org \<Longrightarrow> l_layer org = ''org'' \<or> l_layer org = ''team''"
  unfolding parse_layer_def by (auto simp: okE Let_def)

section \<open>What a team layer can do\<close>

text \<open>
  The abstract contract: \<open>at_least_as_tight d v w\<close> orders the values of rule \<open>d\<close>, and
  \<open>authorized\<close> says which effective value \<open>v\<close> may replace the org value \<open>w\<close>.
\<close>

definition at_least_as_tight :: "pydict \<Rightarrow> pyval \<Rightarrow> pyval \<Rightarrow> bool" where
  "at_least_as_tight d v w \<longleftrightarrow> v = w \<or>
     (if dgetN d ''type'' = PStr ''ordered_enum'' then
        (case (index_of v (the_list (dgetN d ''values'')), index_of w (the_list (dgetN d ''values''))) of
           (Some i, Some j) \<Rightarrow> i \<le> j | _ \<Rightarrow> False)
      else if dgetN d ''type'' = PStr ''numeric'' then
        (if dgetN d ''tighter'' = PStr ''lower'' then py_leq v w else py_leq w v)
      else if dgetN d ''type'' = PStr ''set'' then
        is_pylist v \<and> is_pylist w \<and>
        list_all hashable (the_list v) \<and> list_all hashable (the_list w) \<and>
        (if dget (bounds_of d) ''must_include'' \<noteq> None then set_le (the_list w) (the_list v)
         else set_le (the_list v) (the_list w))
      else v = dgetN d ''tighter'')"

definition inside_bounds :: "pydict \<Rightarrow> pyval \<Rightarrow> bool" where
  "inside_bounds d v \<longleftrightarrow>
     (if dgetN d ''type'' = PStr ''ordered_enum'' then
        (case (index_of v (the_list (dgetN d ''values'')),
               index_of (dgetN (bounds_of d) ''loosest'') (the_list (dgetN d ''values''))) of
           (Some i, Some j) \<Rightarrow> i \<le> j | _ \<Rightarrow> False)
      else if dgetN d ''type'' = PStr ''numeric'' then
        is_number v \<and> py_leq (dgetN (bounds_of d) ''min'') v \<and> py_leq v (dgetN (bounds_of d) ''max'')
      else if dgetN d ''type'' = PStr ''set'' then
        is_pylist v \<and>
        (case dget (bounds_of d) ''must_include'' of
           Some must \<Rightarrow> set_le (the_list must) (the_list v)
         | None \<Rightarrow> set_le (the_list v) (the_list (dgetN (bounds_of d) ''may_choose_from'')))
      else is_pybool v)"

definition authorized :: "layer \<Rightarrow> string \<Rightarrow> pydict \<Rightarrow> pyval \<Rightarrow> pyval \<Rightarrow> bool" where
  "authorized org rid d w v \<longleftrightarrow>
     (if rid \<in> set (l_never org) \<or> dgetN d ''delegation'' = PStr ''locked'' then v = w
      else if dgetN d ''delegation'' = PStr ''tighten_only'' then at_least_as_tight d v w
      else v = w \<or> inside_bounds d v)"

lemma py_leq_trans: "py_leq a b \<Longrightarrow> py_leq b c \<Longrightarrow> py_leq a c"
  by (auto simp: py_leq_def split: option.splits dest: num_le_trans)

lemma py_le_Inr: "py_le a b = Inr True \<Longrightarrow> py_leq a b"
  by (auto simp: py_le_def py_leq_def split: option.splits)

lemma at_least_as_tight_refl [simp]: "at_least_as_tight d v v"
  by (simp add: at_least_as_tight_def)

lemma at_least_as_tight_trans:
  assumes "at_least_as_tight d u v" "at_least_as_tight d v w"
  shows "at_least_as_tight d u w"
proof (cases "u = v \<or> v = w")
  case True
  with assms show ?thesis by auto
next
  case False
  with assms show ?thesis
    by (auto simp: at_least_as_tight_def split: if_splits option.splits
        intro: py_leq_trans set_le_trans)
qed

lemma authorized_refl: "authorized org rid d w w"
  by (simp add: authorized_def)

lemma authorized_trans: "authorized org rid d w v \<Longrightarrow> authorized org rid d v u \<Longrightarrow> authorized org rid d w u"
  by (auto simp: authorized_def split: if_splits intro: at_least_as_tight_trans)

lemma py_set_Inr [simp]: "py_set v = Inr xs \<longleftrightarrow> v = PList xs \<and> list_all hashable xs"
  by (auto simp: py_set_def split: pyval.splits)

lemma py_list_Inr [simp]: "py_list v = Inr xs \<longleftrightarrow> v = PList xs"
  by (auto simp: py_list_def split: pyval.splits)

text \<open>An accepted value is inside the envelope its delegation sets, one rule type at a time.\<close>

lemma envelope_enum_ok:
  assumes "envelope_enum d (bounds_of d) v w del = Inr True" "dgetN d ''type'' = PStr ''ordered_enum''"
  shows "if del = PStr ''tighten_only'' then at_least_as_tight d v w else inside_bounds d v"
proof -
  from assms(1) obtain vs where vs: "dgetN d ''values'' = PList vs"
    and judged: "(case index_of v vs of None \<Rightarrow> Inr False
      | Some i \<Rightarrow> if del = PStr ''tighten_only'' then
            (case index_of w vs of None \<Rightarrow> Inr False | Some j \<Rightarrow> Inr (i \<le> j))
          else bindE (ditem (bounds_of d) ''loosest'') (\<lambda>loosest.
            (case index_of loosest vs of None \<Rightarrow> Inl ValueErr | Some j \<Rightarrow> Inr (i \<le> j)))) = Inr True"
    unfolding envelope_enum_def by (auto simp: okE dgetN_Some)
  show ?thesis
  proof (cases "index_of v vs")
    case None
    with judged show ?thesis by simp
  next
    case (Some i)
    with judged vs assms(2) show ?thesis
      by (auto simp: okE at_least_as_tight_def inside_bounds_def dgetN_Some split: option.splits if_splits)
  qed
qed

lemma envelope_numeric_ok:
  assumes "envelope_numeric d (bounds_of d) v w del = Inr True" "dgetN d ''type'' = PStr ''numeric''"
  shows "if del = PStr ''tighten_only'' then at_least_as_tight d v w else inside_bounds d v"
  using assms unfolding envelope_numeric_def
  by (auto simp: okE at_least_as_tight_def inside_bounds_def dgetN_Some dest: py_le_Inr split: if_splits)

lemma envelope_set_ok:
  assumes "envelope_set (bounds_of d) v w del = Inr True" "dgetN d ''type'' = PStr ''set''"
    and "del \<in> {PStr ''tighten_only'', PStr ''adjustable''}"
  shows "if del = PStr ''tighten_only'' then at_least_as_tight d v w else inside_bounds d v"
  using assms unfolding envelope_set_def
  by (auto simp: okE at_least_as_tight_def inside_bounds_def dgetN_Some is_pylist_iff
      split: option.splits if_splits)

lemma envelope_flag_ok:
  assumes "envelope_flag d v w del = Inr True"
    and "dgetN d ''type'' \<notin> {PStr ''ordered_enum'', PStr ''numeric'', PStr ''set''}"
  shows "if del = PStr ''tighten_only'' then at_least_as_tight d v w else inside_bounds d v"
  using assms unfolding envelope_flag_def
  by (auto simp: okE at_least_as_tight_def inside_bounds_def dgetN_Some split: if_splits)

lemma within_envelope_ok:
  assumes "within_envelope d v w del = Inr True" "del \<in> {PStr ''tighten_only'', PStr ''adjustable''}"
  shows "if del = PStr ''tighten_only'' then at_least_as_tight d v w else inside_bounds d v"
proof -
  from assms(1) obtain ty where ty: "dget d ''type'' = Some ty" "dgetN d ''type'' = ty"
    and env: "(if ty = PStr ''ordered_enum'' then envelope_enum d (bounds_of d) v w del
      else if ty = PStr ''numeric'' then envelope_numeric d (bounds_of d) v w del
      else if ty = PStr ''set'' then envelope_set (bounds_of d) v w del
      else envelope_flag d v w del) = Inr True"
    unfolding within_envelope_def Let_def by (auto simp: okE dgetN_Some)
  show ?thesis
    using env ty(2) assms(2) envelope_enum_ok [of d v w del] envelope_numeric_ok [of d v w del]
      envelope_set_ok [of d v w del] envelope_flag_ok [of d v w del]
    by (simp split: if_splits)
qed

lemma rejection_reason_authorized:
  assumes "rejection_reason (Some d) v w (rid \<in> set (l_never org)) = Inr None" "wf_rule d"
  shows "authorized org rid d w v"
proof -
  from assms(2) obtain del where del: "dget d ''delegation'' = Some (PStr del)" "del \<in> set DELEGATIONS"
    unfolding wf_rule_def by blast
  with assms(1) have nn: "rid \<notin> set (l_never org)" and nl: "del \<noteq> ''locked''"
    and env: "within_envelope d v w (PStr del) = Inr True"
    by (auto simp: rejection_reason_def bindE_Inr_iff ditem_def split: if_splits)
  have "del = ''tighten_only'' \<or> del = ''adjustable''" using del(2) nl by (auto simp: DELEGATIONS_def)
  with within_envelope_ok [OF env] show ?thesis
    using nn nl del(1) by (auto simp: authorized_def dgetN_Some)
qed

text \<open>
  The fold as a ratchet: a state keeps exactly the org layer's rule ids, and each step may only
  move a value to one the org layer authorizes from there.
\<close>

definition auth_ok :: "layer \<Rightarrow> fold_state \<Rightarrow> bool" where
  "auth_ok org st \<longleftrightarrow> wf_org org \<and> dkeys (fst st) = dkeys (l_rules org)"

definition auth_le :: "layer \<Rightarrow> fold_state \<Rightarrow> fold_state \<Rightarrow> bool" where
  "auth_le org s t \<longleftrightarrow> (\<forall>rid d. dget (l_rules org) rid = Some d \<longrightarrow>
     authorized org rid d (dgetN (fst s) rid) (dgetN (fst t) rid))"

lemma rejection_reason_None_known:
  "rejection_reason def v w nev = Inr None \<Longrightarrow> def \<noteq> None"
  by (auto simp: rejection_reason_def split: option.splits)

lemma fold_rule_cases:
  assumes "fold_rule org kind (rid, rule) (vals, viols) = Inr t"
  obtains (rejected) v why where "dget rule ''value'' = Some v"
      "t = (vals, viols @ [\<lparr>v_layer = kind, v_rule_id = Some rid, v_attempted = Some v, v_reason = why\<rparr>])"
      "rejection_reason (dget (l_rules org) rid) v (dgetN vals rid) (rid \<in> set (l_never org)) = Inr (Some why)"
  | (accepted) v where "dget rule ''value'' = Some v" "t = (dset rid v vals, viols)"
      "rejection_reason (dget (l_rules org) rid) v (dgetN vals rid) (rid \<in> set (l_never org)) = Inr None"
  using assms unfolding fold_rule_def by (auto simp: okE split: option.splits)

lemma fold_rule_step:
  assumes "auth_ok org s" "fold_rule org kind a s = Inr t"
  shows "auth_ok org t \<and> auth_le org s t"
proof -
  obtain rid rule vals viols where a: "a = (rid, rule)" "s = (vals, viols)"
    by (cases a, cases s) auto
  have wf: "wf_org org" and keys: "dkeys vals = dkeys (l_rules org)"
    using assms(1) a by (auto simp: auth_ok_def)
  from assms(2) [unfolded a] show ?thesis
  proof (cases rule: fold_rule_cases)
    case (rejected v why)
    with wf keys a show ?thesis by (auto simp: auth_ok_def auth_le_def authorized_refl)
  next
    case (accepted v)
    then obtain d where d: "dget (l_rules org) rid = Some d" using rejection_reason_None_known by fastforce
    then have "wf_rule d" using wf unfolding wf_org_def by (auto dest: dget_Some_in)
    with accepted(3) d have auth: "authorized org rid d (dgetN vals rid) v"
      by (auto intro: rejection_reason_authorized)
    have "dget vals rid \<noteq> None" using d keys dget_None_iff by (metis option.discI)
    with accepted wf keys have "auth_ok org t" by (simp add: auth_ok_def dkeys_dset_old)
    moreover have "auth_le org s t"
      using auth accepted(2) a d by (auto simp: auth_le_def dgetN_def authorized_refl)
    ultimately show ?thesis by blast
  qed
qed

lemma auth_le_refl: "auth_le org s s"
  by (simp add: auth_le_def authorized_refl)

lemma auth_le_trans: "auth_le org r s \<Longrightarrow> auth_le org s t \<Longrightarrow> auth_le org r t"
  unfolding auth_le_def by (blast intro: authorized_trans)

interpretation rules: ratchet "auth_le org" "auth_ok org" "fold_rule org kind" for org kind
  by unfold_locales (auto intro: auth_le_refl auth_le_trans dest: fold_rule_step)

interpretation layers: ratchet "auth_le org" "auth_ok org" "fold_layer org" for org
  by unfold_locales (auto simp: fold_layer_def intro: auth_le_refl auth_le_trans
      dest: rules.run_ok rules.run_le)

lemma seed_values_dget:
  assumes "seed_values org = Inr vals"
  shows "dkeys vals = dkeys (l_rules org) \<and>
    (\<forall>rid d. dget (l_rules org) rid = Some d \<longrightarrow> dget vals rid = dget d ''value'')"
proof -
  have "mapE (\<lambda>(rid, rule). bindE (ditem rule ''value'') (\<lambda>v. Inr (rid, v))) rs = Inr vals \<Longrightarrow>
      dkeys vals = dkeys rs \<and> (\<forall>rid d. dget rs rid = Some d \<longrightarrow> dget vals rid = dget d ''value'')"
    for rs vals
    by (induction rs arbitrary: vals) (auto simp: okE)
  with assms show ?thesis unfolding seed_values_def by blast
qed

lemma fold_matrix_cases:
  assumes "fold_matrix sha ls = Inr r" "split_org ls = Some (org, rest)"
  obtains vals where "seed_values org = Inr vals"
    and "foldE (fold_layer org) rest (vals, []) = Inr (r_values r, r_violations r)"
  using assms unfolding fold_matrix_def by (auto simp: okE split: if_splits)

lemma fold_matrix_ratchet:
  assumes "fold_matrix sha ls = Inr r" "split_org ls = Some (org, rest)" "wf_org org"
  shows "dkeys (r_values r) = dkeys (l_rules org) \<and>
    (\<forall>rid d. dget (l_rules org) rid = Some d \<longrightarrow>
       authorized org rid d (dgetN d ''value'') (dgetN (r_values r) rid))"
proof -
  from assms(1,2) obtain vals where vals: "seed_values org = Inr vals"
    and run: "foldE (fold_layer org) rest (vals, []) = Inr (r_values r, r_violations r)"
    by (rule fold_matrix_cases)
  have "auth_ok org (vals, [])" using vals assms(3) seed_values_dget by (auto simp: auth_ok_def)
  with layers.run_ok_le [OF _ run] have "auth_ok org (r_values r, r_violations r)"
    "auth_le org (vals, []) (r_values r, r_violations r)" by blast+
  with seed_values_dget [OF vals] show ?thesis
    by (auto simp: auth_ok_def auth_le_def dgetN_def)
qed

subsection \<open>The fold raises nothing when sets hold hashable entries\<close>

lemma is_number_num_of: "is_number v \<Longrightarrow> \<exists>x. num_of v = Some x"
  by (cases v) (auto simp: is_number_def)

lemma py_le_total: "is_number a \<Longrightarrow> is_number b \<Longrightarrow> \<exists>c. py_le a b = Inr c"
  by (auto simp: py_le_def dest!: is_number_num_of)

lemma wf_rule_typeD:
  assumes "wf_rule d"
  shows "dget d ''type'' = Some (PStr ''ordered_enum'') \<and> wf_enum d \<or>
    dget d ''type'' = Some (PStr ''numeric'') \<and> wf_numeric d \<or>
    dget d ''type'' = Some (PStr ''set'') \<and> wf_set d \<or>
    dget d ''type'' = Some (PStr ''flag'') \<and> wf_flag d"
  using assms unfolding wf_rule_def RULE_TYPES_def by (auto split: if_splits)

lemma wf_rule_value_hashable: "wf_rule d \<Longrightarrow> list_all hashable (the_list (dgetN d ''value''))"
proof (drule wf_rule_typeD, elim disjE conjE)
  assume "wf_enum d"
  then show ?thesis
    by (auto simp: wf_enum_def py_in_def list_ex_iff list_all_iff is_pystr_iff)
next
  assume "wf_numeric d"
  then show ?thesis by (cases "dgetN d ''value''") (auto simp: wf_numeric_def is_number_def)
next
  assume "wf_set d"
  then show ?thesis by (auto simp: wf_set_def dgetN_Some)
next
  assume "wf_flag d"
  then show ?thesis by (auto simp: wf_flag_def dgetN_Some)
qed

lemma envelope_enum_total:
  "wf_enum d \<Longrightarrow> \<exists>b. envelope_enum d (bounds_of d) v w del = Inr b"
  by (auto simp: wf_enum_def envelope_enum_def ditem_def py_list_def bounds_of_def dgetN_Some
      index_of_None split: option.splits)

lemma envelope_numeric_total:
  assumes "wf_numeric d"
  shows "\<exists>b. envelope_numeric d (bounds_of d) v w del = Inr b"
proof -
  from assms obtain lo hi where "bounds_of d = [(''min'', lo), (''max'', hi)]" "is_number lo" "is_number hi"
    "ditem d ''tighter'' = Inr (PStr ''lower'') \<or> ditem d ''tighter'' = Inr (PStr ''higher'')"
    by (auto simp: wf_numeric_def bounds_of_def dgetN_Some)
  then show ?thesis
    using py_le_total [of lo v] py_le_total [of v hi] py_le_total [of v w] py_le_total [of w v]
    unfolding envelope_numeric_def
    by (elim disjE; cases "is_number v"; cases "is_number w"; cases "py_le lo v") auto
qed

lemma envelope_set_total:
  assumes "wf_set d" "list_all hashable (the_list v)" "list_all hashable (the_list w)"
  shows "\<exists>b. envelope_set (bounds_of d) v w del = Inr b"
  using assms
  by (auto simp: wf_set_def envelope_set_def ditem_def py_set_def bounds_of_def dgetN_Some is_pylist_iff)

lemma envelope_flag_total: "wf_flag d \<Longrightarrow> \<exists>b. envelope_flag d v w del = Inr b"
  by (auto simp: wf_flag_def envelope_flag_def ditem_def)

lemma rejection_reason_total:
  assumes "wf_rule d" "list_all hashable (the_list v)" "list_all hashable (the_list w)"
  shows "\<exists>r. rejection_reason (Some d) v w nev = Inr r"
proof -
  obtain del where del: "ditem d ''delegation'' = Inr del"
    using assms(1) unfolding wf_rule_def by auto
  have "\<exists>b. within_envelope d v w del = Inr b"
    using wf_rule_typeD [OF assms(1)] assms(2,3)
    by (auto simp: within_envelope_def ditem_def
        intro: envelope_enum_total envelope_numeric_total envelope_set_total envelope_flag_total)
  with del show ?thesis by (auto simp: rejection_reason_def)
qed

definition hashable_values :: "(string \<times> pyval) list \<Rightarrow> bool" where
  "hashable_values vals \<longleftrightarrow> (\<forall>rid. list_all hashable (the_list (dgetN vals rid)))"

definition fold_ready :: "layer \<Rightarrow> bool" where
  "fold_ready lay \<longleftrightarrow> list_all (\<lambda>(rid, rule). dget rule ''value'' \<noteq> None \<and>
     list_all hashable (the_list (dgetN rule ''value''))) (l_rules lay)"

lemma fold_rule_total:
  assumes "wf_org org" "hashable_values (fst st)" "dget rule ''value'' \<noteq> None"
    "list_all hashable (the_list (dgetN rule ''value''))"
  shows "\<exists>t. fold_rule org kind (rid, rule) st = Inr t \<and> hashable_values (fst t)"
proof -
  obtain vals viols where st: "st = (vals, viols)" by (cases st)
  obtain v where v: "dget rule ''value'' = Some v" using assms(3) by auto
  have "\<exists>r. rejection_reason (dget (l_rules org) rid) v (dgetN vals rid) (rid \<in> set (l_never org)) = Inr r"
  proof (cases "dget (l_rules org) rid")
    case None
    then show ?thesis by (simp add: rejection_reason_def)
  next
    case (Some d)
    then have "wf_rule d" using assms(1) by (auto simp: wf_org_def dest: dget_Some_in)
    then show ?thesis unfolding Some
      using assms(2,4) v st by (intro rejection_reason_total) (auto simp: hashable_values_def dgetN_Some)
  qed
  then obtain r where r: "rejection_reason (dget (l_rules org) rid) v (dgetN vals rid)
      (rid \<in> set (l_never org)) = Inr r" ..
  show ?thesis
    using assms(2,4) v r st
    by (cases r) (auto simp: fold_rule_def ditem_def hashable_values_def dgetN_def)
qed

lemma fold_layer_total:
  assumes "wf_org org" "hashable_values (fst st)" "fold_ready lay"
  shows "\<exists>t. fold_layer org lay st = Inr t \<and> hashable_values (fst t)"
  unfolding fold_layer_def
proof (rule foldE_total)
  fix x and s :: fold_state
  assume "x \<in> set (l_rules lay)" "hashable_values (fst s)"
  with assms(1,3) show "\<exists>t. fold_rule org (l_layer lay) x s = Inr t \<and> hashable_values (fst t)"
    by (cases x) (auto simp: fold_ready_def list_all_iff simp del: split_paired_Ex intro!: fold_rule_total)
qed (rule assms(2))

lemma seed_values_total:
  assumes "wf_org org"
  shows "\<exists>vals. seed_values org = Inr vals \<and> hashable_values vals"
proof -
  have ex: "\<forall>(rid, d) \<in> set rs. wf_rule d \<Longrightarrow>
      \<exists>vals. mapE (\<lambda>(rid, rule). bindE (ditem rule ''value'') (\<lambda>v. Inr (rid, v))) rs = Inr vals" for rs
    by (induction rs) (auto simp: wf_rule_def simp del: ditem_Inr)
  from ex [of "l_rules org"] assms obtain vals where vals: "seed_values org = Inr vals"
    unfolding wf_org_def seed_values_def by blast
  have "list_all hashable (the_list (dgetN vals rid))" for rid
  proof (cases "dget (l_rules org) rid")
    case None
    with seed_values_dget [OF vals] have "dget vals rid = None" by (simp add: dget_None_iff)
    then show ?thesis by (simp add: dgetN_def)
  next
    case (Some d)
    then have "wf_rule d" using assms by (auto simp: wf_org_def dest: dget_Some_in)
    with seed_values_dget [OF vals] Some show ?thesis
      using wf_rule_value_hashable by (simp add: dgetN_def)
  qed
  with vals show ?thesis by (auto simp: hashable_values_def)
qed

lemma fold_matrix_total:
  assumes "wf_org org" "split_org ls = Some (org, rest)" "\<forall>lay \<in> set rest. fold_ready lay"
  shows "\<exists>r. fold_matrix sha ls = Inr r"
proof -
  obtain vals where vals: "seed_values org = Inr vals" "hashable_values vals"
    using seed_values_total [OF assms(1)] by blast
  have "\<exists>t. foldE (fold_layer org) rest (vals, []) = Inr t \<and> hashable_values (fst t)"
    by (rule foldE_total) (use assms(1,3) vals(2) fold_layer_total in \<open>simp_all del: split_paired_Ex\<close>)
  with vals(1) assms(2) show ?thesis by (auto simp: fold_matrix_def)
qed

subsection \<open>Every forbidden attempt is reported\<close>

interpretation rule_reports: ratchet "\<lambda>s t. set (snd s) \<subseteq> set (snd t)" "\<lambda>_. True" "fold_rule org kind"
  for org kind
  by unfold_locales (auto elim!: fold_rule_cases)

interpretation layer_reports: ratchet "\<lambda>s t. set (snd s) \<subseteq> set (snd t)" "\<lambda>_. True" "fold_layer org"
  for org
proof unfold_locales
  fix a s t assume "fold_layer org a s = Inr t"
  then show "set (snd s) \<subseteq> set (snd t)"
    unfolding fold_layer_def by (rule rule_reports.run_le [OF TrueI])
qed auto

definition forbidden :: "layer \<Rightarrow> string \<Rightarrow> string option" where
  "forbidden org rid =
     (case dget (l_rules org) rid of
        None \<Rightarrow> Some ''unknown_rule''
      | Some d \<Rightarrow> if rid \<in> set (l_never org) then Some ''never_list''
          else if dgetN d ''delegation'' = PStr ''locked'' then Some ''locked'' else None)"

lemma rejection_reason_forbidden:
  "rejection_reason (dget (l_rules org) rid) v w (rid \<in> set (l_never org)) = Inr r \<Longrightarrow>
    forbidden org rid = Some why \<Longrightarrow> r = Some why"
  by (auto simp: rejection_reason_def forbidden_def okE dgetN_Some split: option.splits if_splits)

lemma fold_matrix_reports:
  assumes "fold_matrix sha ls = Inr r" "split_org ls = Some (org, rest)"
    and "lay \<in> set rest" "(rid, rule) \<in> set (l_rules lay)" "forbidden org rid = Some why"
  shows "\<lparr>v_layer = l_layer lay, v_rule_id = Some rid, v_attempted = Some (dgetN rule ''value''),
           v_reason = why\<rparr> \<in> set (r_violations r)"
proof -
  from assms(1,2) obtain vals where
    run: "foldE (fold_layer org) rest (vals, []) = Inr (r_values r, r_violations r)"
    by (rule fold_matrix_cases)
  from layer_reports.run_visits [OF TrueI run assms(3)] obtain s1 t1 where
    l: "fold_layer org lay s1 = Inr t1" "set (snd t1) \<subseteq> set (r_violations r)" by auto
  from rule_reports.run_visits [OF TrueI l(1) [unfolded fold_layer_def] assms(4)]
  obtain s2 t2 where r: "fold_rule org (l_layer lay) (rid, rule) s2 = Inr t2" "set (snd t2) \<subseteq> set (snd t1)"
    by auto
  obtain vals2 viols2 where s2: "s2 = (vals2, viols2)" by (cases s2)
  from r(1) [unfolded s2] show ?thesis
  proof (cases rule: fold_rule_cases)
    case (rejected v why')
    then have "why' = why" using rejection_reason_forbidden assms(5) by fastforce
    with rejected r(2) l(2) show ?thesis by (auto simp: dgetN_Some)
  next
    case (accepted v)
    then show ?thesis using rejection_reason_forbidden assms(5) by fastforce
  qed
qed

section \<open>Properties\<close>

text \<open>The three autonomy tiers, ordered from no autonomy to full autonomy.\<close>

datatype tier = Human | AutoNotify | Auto

instantiation tier :: linorder
begin

fun tier_rank :: "tier \<Rightarrow> nat" where
  "tier_rank Human = 0"
| "tier_rank AutoNotify = 1"
| "tier_rank Auto = 2"

definition less_eq_tier :: "tier \<Rightarrow> tier \<Rightarrow> bool" where
  "less_eq_tier a b = (tier_rank a \<le> tier_rank b)"

definition less_tier :: "tier \<Rightarrow> tier \<Rightarrow> bool" where
  "less_tier a b = (tier_rank a < tier_rank b)"

instance
proof
  fix a b c :: tier
  show "(a < b) = (a \<le> b \<and> \<not> b \<le> a)" by (auto simp: less_eq_tier_def less_tier_def)
  show "a \<le> a" by (simp add: less_eq_tier_def)
  show "a \<le> b \<Longrightarrow> b \<le> c \<Longrightarrow> a \<le> c" by (simp add: less_eq_tier_def)
  show "a \<le> b \<Longrightarrow> b \<le> a \<Longrightarrow> a = b"
    by (cases a; cases b) (simp_all add: less_eq_tier_def)
  show "a \<le> b \<or> b \<le> a" by (auto simp: less_eq_tier_def)
qed

end

definition tier_of :: "string \<Rightarrow> tier" where
  "tier_of s = (if s = ''auto'' then Auto else if s = ''auto+notify'' then AutoNotify else Human)"

lemma index_of_tiers:
  "index_of v (map PStr TIERS) = Some i \<longleftrightarrow>
     (v = PStr ''human'' \<and> i = 0) \<or> (v = PStr ''auto+notify'' \<and> i = 1) \<or> (v = PStr ''auto'' \<and> i = 2)"
  by (auto simp: TIERS_def split: if_splits)

lemma tight_tiers:
  assumes "at_least_as_tight d v w" "dgetN d ''type'' = PStr ''ordered_enum''"
    "dgetN d ''values'' = PList (map PStr TIERS)"
  shows "tier_of (the_str v) \<le> tier_of (the_str w)"
  using assms by (auto simp: at_least_as_tight_def index_of_tiers tier_of_def less_eq_tier_def
      split: option.splits)

lemma tier_for_dget:
  "tier_for (Some r) (PStr c) =
     (case dgetN (r_values r) (c @ ''.tier'') of PStr t \<Rightarrow> (if t \<in> set TIERS then t else ''human'') | _ \<Rightarrow> ''human'')"
  by (auto simp: tier_for_def dgetN_def split: option.splits pyval.splits)

lemma tier_of_tier_for_le: "tier_of (tier_for (Some r) (PStr c)) \<le> tier_of (the_str (dgetN (r_values r) (c @ ''.tier'')))"
  by (auto simp: tier_for_dget tier_of_def less_eq_tier_def split: pyval.splits)

text \<open>An org layer with one rule of each delegation, and a team layer that tries all of them.\<close>

definition demo_rule :: "string \<Rightarrow> string \<Rightarrow> pyval \<Rightarrow> pydict" where
  "demo_rule rid del v =
     [(''id'', PStr rid), (''class'', PStr ''merge''), (''type'', PStr ''ordered_enum''), (''value'', v),
      (''delegation'', PStr del), (''values'', PList (map PStr TIERS)),
      (''bounds'', PDict [(''loosest'', PStr ''auto'')])]"

definition demo_org :: layer where
  "demo_org = \<lparr>l_layer = ''org'', l_version = PInt 1,
     l_rules = [(''merge.tier'', demo_rule ''merge.tier'' ''tighten_only'' (PStr ''auto+notify'')),
                (''ship.tier'', demo_rule ''ship.tier'' ''locked'' (PStr ''human''))],
     l_never = [], l_raw = ''o''\<rparr>"

definition demo_org_payload :: pydict where
  "demo_org_payload = [(''version'', PInt 1), (''layer'', PStr ''org''),
     (''rules'', PList [PDict (demo_rule ''merge.tier'' ''tighten_only'' (PStr ''auto+notify'')),
        PDict (demo_rule ''ship.tier'' ''locked'' (PStr ''human''))])]"

definition demo_team :: layer where
  "demo_team = \<lparr>l_layer = ''team'', l_version = PInt 1,
     l_rules = [(''merge.tier'', [(''id'', PStr ''merge.tier''), (''value'', PStr ''human'')]),
                (''ship.tier'', [(''id'', PStr ''ship.tier''), (''value'', PStr ''auto'')])],
     l_never = [], l_raw = ''t''\<rparr>"

definition demo_resolved :: resolved where
  "demo_resolved = \<lparr>r_values = [(''merge.tier'', PStr ''human''), (''ship.tier'', PStr ''human'')],
     r_violations = [\<lparr>v_layer = ''team'', v_rule_id = Some ''ship.tier'',
        v_attempted = Some (PStr ''auto''), v_reason = ''locked''\<rparr>],
     r_layer_shas = [''o'', ''t'']\<rparr>"

lemma demo_parse: "parse_layer demo_org_payload ''o'' = Inr demo_org"
  by code_simp

lemma demo_fold: "fold_matrix (\<lambda>s. s) [demo_org, demo_team] = Inr demo_resolved"
  by code_simp

lemma demo_split: "split_org [demo_org, demo_team] = Some (demo_org, [demo_team])"
  by (simp add: demo_org_def)

text \<open>A pair of layers whose team value is a list inside a list, which Python cannot hash.\<close>

definition unhashable_org_payload :: pydict where
  "unhashable_org_payload = [(''version'', PInt 1), (''layer'', PStr ''org''),
     (''rules'', PList [PDict [(''id'', PStr ''paths''), (''class'', PStr ''merge''), (''type'', PStr ''set''),
        (''value'', PList [PStr ''a'']), (''delegation'', PStr ''adjustable''),
        (''bounds'', PDict [(''may_choose_from'', PList [PStr ''a'', PStr ''b''])])]])]"

definition unhashable_team_payload :: pydict where
  "unhashable_team_payload = [(''version'', PInt 1), (''layer'', PStr ''team''),
     (''rules'', PList [PDict [(''id'', PStr ''paths''), (''value'', PList [PList [PStr ''a'']])]])]"

definition unhashable_loads :: "string \<Rightarrow> pyval option" where
  "unhashable_loads raw = (if raw = ''org'' then Some (PDict unhashable_org_payload)
     else if raw = ''team'' then Some (PDict unhashable_team_payload) else None)"

definition demo_env :: source_env where
  "demo_env = \<lparr>se_org = Some ''org'', se_team = TeamPath ''team'', se_env_org = None, se_env_team = None,
     se_default = Inl OSErr, se_read = (\<lambda>path. Some path)\<rparr>"

definition demo_loads :: "string \<Rightarrow> pyval option" where
  "demo_loads raw = (if raw = ''org'' then Some (PDict demo_org_payload) else None)"

text \<open>
  C15: whatever layers are folded over a parsed org layer, the matrix keeps exactly the org
  layer's rule ids, and every effective value is one the org layer authorizes: unchanged for a
  locked or never-listed rule, at least as tight as the org value for a \<open>tighten_only\<close> rule,
  unchanged or inside the bounds for an adjustable rule.
\<close>

theorem fold_stays_authorized:
  assumes "parse_layer payload raw = Inr org" and "l_layer org = ''org''"
    and "fold_matrix sha ls = Inr r" and "split_org ls = Some (org, rest)"
  shows "dkeys (r_values r) = dkeys (l_rules org) \<and>
    (\<forall>rid d. dget (l_rules org) rid = Some d \<longrightarrow>
       authorized org rid d (dgetN d ''value'') (dgetN (r_values r) rid))"
  using fold_matrix_ratchet [OF assms(3,4) parse_layer_wf [OF assms(1,2)]] .

theorem fold_stays_authorized_witness:
  "dkeys (r_values demo_resolved) = [''merge.tier'', ''ship.tier''] \<and>
   authorized demo_org ''merge.tier'' (demo_rule ''merge.tier'' ''tighten_only'' (PStr ''auto+notify''))
     (PStr ''auto+notify'') (PStr ''human'')"
proof -
  have "l_layer demo_org = ''org''" by (simp add: demo_org_def)
  note folded = fold_stays_authorized [OF demo_parse this demo_fold demo_split]
  have "dkeys (l_rules demo_org) = [''merge.tier'', ''ship.tier'']"
    and rule: "dget (l_rules demo_org) ''merge.tier'' =
      Some (demo_rule ''merge.tier'' ''tighten_only'' (PStr ''auto+notify''))"
    and vals: "dgetN (demo_rule ''merge.tier'' ''tighten_only'' (PStr ''auto+notify'')) ''value'' = PStr ''auto+notify''"
      "dgetN (r_values demo_resolved) ''merge.tier'' = PStr ''human''"
    by (simp_all add: demo_org_def demo_resolved_def demo_rule_def dgetN_def)
  with folded show ?thesis by metis
qed

text \<open>
  C25: a team layer never raises autonomy.  For a tier rule of type \<open>ordered_enum\<close> whose values are
  exactly the three tiers in their order, and whose delegation is other than \<open>adjustable\<close> (so it is
  \<open>locked\<close> or \<open>tighten_only\<close>), the tier the pipeline acts on after folding any layers is at most
  the tier the org layer set.
\<close>

theorem tier_never_raised:
  assumes "parse_layer payload raw = Inr org" and "l_layer org = ''org''"
    and "fold_matrix sha ls = Inr r" and "split_org ls = Some (org, rest)"
    and "dget (l_rules org) (c @ ''.tier'') = Some d"
    and "dgetN d ''type'' = PStr ''ordered_enum''" and "dgetN d ''values'' = PList (map PStr TIERS)"
    and "dgetN d ''delegation'' \<noteq> PStr ''adjustable''"
  shows "tier_of (tier_for (Some r) (PStr c)) \<le> tier_of (the_str (dgetN d ''value''))"
proof -
  have wf: "wf_org org" using assms(1,2) by (rule parse_layer_wf)
  have auth: "authorized org (c @ ''.tier'') d (dgetN d ''value'') (dgetN (r_values r) (c @ ''.tier''))"
    using fold_matrix_ratchet [OF assms(3,4) wf] assms(5) by blast
  have "wf_rule d" using wf assms(5) by (auto simp: wf_org_def dest: dget_Some_in)
  then have "dgetN d ''delegation'' \<in> {PStr ''locked'', PStr ''tighten_only'', PStr ''adjustable''}"
    by (auto simp: wf_rule_def DELEGATIONS_def dgetN_Some)
  with auth assms(8) have "at_least_as_tight d (dgetN (r_values r) (c @ ''.tier'')) (dgetN d ''value'')"
    by (auto simp: authorized_def split: if_splits)
  from tight_tiers [OF this assms(6,7)] show ?thesis using tier_of_tier_for_le order_trans by blast
qed

theorem tier_never_raised_witness:
  "tier_of (tier_for (Some demo_resolved) (PStr ''ship'')) \<le> Human"
proof -
  have "l_layer demo_org = ''org''" by (simp add: demo_org_def)
  moreover have "dget (l_rules demo_org) (''ship'' @ ''.tier'') =
      Some (demo_rule ''ship.tier'' ''locked'' (PStr ''human''))"
    by (simp add: demo_org_def)
  moreover have "tier_of (the_str (dgetN (demo_rule ''ship.tier'' ''locked'' (PStr ''human'')) ''value'')) = Human"
    by (simp add: demo_rule_def dgetN_def tier_of_def)
  ultimately show ?thesis
    using tier_never_raised [OF demo_parse _ demo_fold demo_split, where c = "''ship''"]
    by (auto simp: demo_rule_def dgetN_def)
qed

text \<open>
  no autonomy by omission.  A decision class with no \<open>.tier\<close> rule in the org layer stays at
  \<open>human\<close> whatever the team layers say.
\<close>

lemma tier_needs_org_rule:
  assumes "parse_layer payload raw = Inr org" and "l_layer org = ''org''"
    and "fold_matrix sha ls = Inr r" and "split_org ls = Some (org, rest)"
    and "dget (l_rules org) (c @ ''.tier'') = None"
  shows "tier_for (Some r) (PStr c) = ''human''"
proof -
  have "dkeys (r_values r) = dkeys (l_rules org)"
    using fold_matrix_ratchet [OF assms(3,4) parse_layer_wf [OF assms(1,2)]] by blast
  with assms(5) have "dget (r_values r) (c @ ''.tier'') = None" by (simp add: dget_None_iff)
  then show ?thesis by (simp add: tier_for_def)
qed

lemma tier_needs_org_rule_witness: "tier_for (Some demo_resolved) (PStr ''triage'') = ''human''"
proof -
  have "l_layer demo_org = ''org''" "dget (l_rules demo_org) (''triage'' @ ''.tier'') = None"
    by (simp_all add: demo_org_def)
  from tier_needs_org_rule [OF demo_parse this(1) demo_fold demo_split this(2)] show ?thesis .
qed

text \<open>
  nothing is dropped silently.  Every team rule that names an unknown, never-listed or locked
  rule id ends up among the violations with its layer, value and that reason.
\<close>

lemma forbidden_attempt_reported:
  assumes "fold_matrix sha ls = Inr r" and "split_org ls = Some (org, rest)"
    and "lay \<in> set rest" and "(rid, rule) \<in> set (l_rules lay)" and "forbidden org rid = Some why"
  shows "\<lparr>v_layer = l_layer lay, v_rule_id = Some rid, v_attempted = Some (dgetN rule ''value''),
           v_reason = why\<rparr> \<in> set (r_violations r)"
  using assms by (rule fold_matrix_reports)

lemma forbidden_attempt_reported_witness:
  "\<lparr>v_layer = ''team'', v_rule_id = Some ''ship.tier'', v_attempted = Some (PStr ''auto''),
     v_reason = ''locked''\<rparr> \<in> set (r_violations demo_resolved)"
proof -
  have "(''ship.tier'', [(''id'', PStr ''ship.tier''), (''value'', PStr ''auto'')]) \<in> set (l_rules demo_team)"
    by (simp add: demo_team_def)
  moreover have "forbidden demo_org ''ship.tier'' = Some ''locked''"
    by (simp add: forbidden_def demo_org_def demo_rule_def dgetN_def)
  ultimately show ?thesis
    using forbidden_attempt_reported [OF demo_fold demo_split, of demo_team]
    by (fastforce simp: dgetN_def demo_team_def)
qed

text \<open>
  the fold always returns.  Over a parsed org layer, layers whose list values hold only
  hashable entries fold without any exception.
\<close>

lemma fold_returns:
  assumes "parse_layer payload raw = Inr org" and "l_layer org = ''org''"
    and "split_org ls = Some (org, rest)" and "\<forall>lay \<in> set rest. fold_ready lay"
  shows "\<exists>r. fold_matrix sha ls = Inr r"
  using parse_layer_wf [OF assms(1,2)] assms(3,4) by (rule fold_matrix_total)

lemma fold_returns_witness: "\<exists>r. fold_matrix (\<lambda>s. s @ s) [demo_org, demo_team] = Inr r"
proof -
  have "l_layer demo_org = ''org''" by (simp add: demo_org_def)
  moreover have "\<forall>lay \<in> set [demo_team]. fold_ready lay"
    by (simp add: fold_ready_def demo_team_def dgetN_def)
  ultimately show ?thesis using fold_returns [OF demo_parse _ demo_split] by blast
qed

text \<open>
  the documented contract fails on one input.  A team layer that parses, whose value for a
  set rule holds a list, makes \<open>resolve\<close> raise \<open>TypeError\<close> instead of recording a violation.
\<close>

lemma resolve_raises_on_unhashable:
  "resolve sha unhashable_loads demo_env = Inl TypeErr"
  by code_simp

text \<open>
  a broken team file can only lose authority.  When the org layer loads and the team file is
  unreadable, not JSON or schema-invalid, \<open>resolve\<close> still returns a matrix with the org values
  alone and one violation that says the team layer was unreadable.
\<close>

lemma resolve_broken_team:
  assumes "org_path_for se = Inr op" and "load_kind loads (se_read se) op ''org'' = Inr org"
    and "team_path_for se = Some tp" and "load_kind loads (se_read se) tp ''team'' = Inl (MatrixError e)"
  shows "\<exists>r. resolve sha loads se = Inr (Some r) \<and> dkeys (r_values r) = dkeys (l_rules org) \<and>
    (\<forall>rid d. dget (l_rules org) rid = Some d \<longrightarrow> dgetN (r_values r) rid = dgetN d ''value'') \<and>
    map v_reason (r_violations r) = [''unreadable'']"
proof -
  from assms(2) obtain payload raw where p: "parse_layer payload raw = Inr org" "l_layer org = ''org''"
    unfolding load_kind_def load_layer_def by (auto simp: okE split: option.splits pyval.splits)
  then have "wf_org org" by (rule parse_layer_wf)
  then obtain vals where vals: "seed_values org = Inr vals" using seed_values_total by blast
  have res: "resolve sha loads se = Inr (Some \<lparr>r_values = vals,
      r_violations = [\<lparr>v_layer = ''team'', v_rule_id = None, v_attempted = None, v_reason = ''unreadable''\<rparr>],
      r_layer_shas = [sha (l_raw org)]\<rparr>)"
    using assms p(2) vals
    by (simp add: resolve_def caught_def with_unreadable_team_violation_def fold_matrix_def)
  show ?thesis unfolding res using seed_values_dget [OF vals] by (auto simp: dgetN_def)
qed

lemma resolve_broken_team_witness:
  "\<exists>r. resolve (\<lambda>s. s) demo_loads demo_env = Inr (Some r) \<and>
     map v_reason (r_violations r) = [''unreadable'']"
proof -
  have p: "org_path_for demo_env = Inr ''org''" "team_path_for demo_env = Some ''team''"
    by (simp_all add: org_path_for_def team_path_for_def demo_env_def)
  have k: "load_kind demo_loads (se_read demo_env) ''org'' ''org'' = Inr (demo_org\<lparr>l_raw := ''org''\<rparr>)"
    "load_kind demo_loads (se_read demo_env) ''team'' ''team'' = Inl (MatrixError ''invalid JSON'')"
    by code_simp+
  from resolve_broken_team [OF p(1) k(1) p(2) k(2), of "\<lambda>s. s"] show ?thesis by (elim exE conjE) (rule exI, rule conjI, assumption+)
qed

end
