(* ===== verification/DecisionRecords.thy ===== *)
theory DecisionRecords
  imports AuditChain
begin

text \<open>
  \<open>src/pipeline/decision_records.py\<close>: the decision stream of a plan, chained like the audit
  stream.  A record is validated completely before the stream is opened; who decided is taken
  from the request, never from the record.  Errors are \<open>DecisionRecordError\<close> with its message
  (the field path, never a value), a Python \<open>TypeError\<close>, or an \<open>OSError\<close> of the write.
\<close>

datatype dexn = DRE string | DTypeError | DOSError

definition MAX_STRING :: nat where "MAX_STRING = 500"
definition MAX_REFERENCE :: nat where "MAX_REFERENCE = 200"
definition SCHEMA_VERSION :: int where "SCHEMA_VERSION = 2"
definition DEFAULT_NAMESPACE :: string where "DEFAULT_NAMESPACE = ''default''"

definition DECISION_CLASSES :: "string list" where
  "DECISION_CLASSES = [''high_risk_merge'', ''override_false_positive_verdict'', ''scope_widen'',
     ''existing_test_edit'', ''triage'', ''other'']"

definition RECORD_TIERS :: "string list" where
  "RECORD_TIERS = [''human'', ''auto+notify'', ''auto'']"

definition FORBIDDEN_NAMES :: "string list" where
  "FORBIDDEN_NAMES = [''prompt'', ''payload'', ''secret'', ''token'', ''body'']"

definition SERVER_FIELDS :: "string list" where
  "SERVER_FIELDS = [''actor'', ''principal_type'', ''client_id'', ''seq'', ''ts'', ''hash'',
     ''schema_version'', ''prev_hash'', ''namespace'', ''correlation_id'']"

definition CALLER_FIELDS :: "string list" where
  "CALLER_FIELDS = [''decision_id'', ''class'', ''subject'', ''evidence'', ''rule'',
     ''alternatives'', ''ruling'', ''tier'', ''reversible'', ''outcome'']"

definition SUBJECT_FIELDS :: "string list" where
  "SUBJECT_FIELDS = [''plan'', ''story'', ''pr'', ''sha'']"

definition EVIDENCE_FIELDS :: "string list" where
  "EVIDENCE_FIELDS = [''kind'', ''ref'', ''sha256'']"

definition RULE_FIELDS :: "string list" where
  "RULE_FIELDS = [''layer_shas'', ''persona_sha'', ''policy_sha'', ''model'']"

subsection \<open>Names\<close>

text \<open>\<open>Path(s).name\<close> for a name without a slash.\<close>

definition path_name :: "string \<Rightarrow> string" where
  "path_name s = (if s = ''.'' then [] else s)"

definition is_control :: "char \<Rightarrow> bool" where
  "is_control c = (of_char c < (32 :: nat) \<or> of_char c = (127 :: nat))"

definition plan_key :: "pyval \<Rightarrow> dexn + string" where
  "plan_key v =
     with_str v (DRE ''plan: must be a non-empty string'') (\<lambda>s.
     bindE (guardE (s \<noteq> []) (DRE ''plan: must be a non-empty string'')) (\<lambda>_.
     bindE (guardE (s \<notin> {''.'', ''..'', ''*''} \<and> CHR ''/'' \<notin> set s \<and> CHR 0x5C \<notin> set s)
       (DRE ''plan: must be a bare name inside the plan directory'')) (\<lambda>_.
     bindE (guardE (CHR 0x00 \<notin> set s \<and> path_name s = s)
       (DRE ''plan: must be a bare name inside the plan directory'')) (\<lambda>_.
     bindE (guardE (\<not> list_ex is_control s) (DRE ''plan: must not contain control characters'')) (\<lambda>_.
     bindE (guardE (CHR '':'' \<notin> set s)
       (DRE ''plan: ':' is not allowed; it would alias another stream's anchor key'')) (\<lambda>_.
     Inr s))))))"

definition namespace_key :: "pyval \<Rightarrow> dexn + string" where
  "namespace_key v =
     with_str v (DRE ''namespace: must be a non-empty string'') (\<lambda>s.
     bindE (guardE (s \<noteq> []) (DRE ''namespace: must be a non-empty string'')) (\<lambda>_.
     bindE (guardE (length s \<le> MAX_REFERENCE) (DRE ''namespace: too long'')) (\<lambda>_.
     Inr s)))"

subsection \<open>Validation\<close>

definition bounded_string :: "pyval \<Rightarrow> string \<Rightarrow> nat \<Rightarrow> bool \<Rightarrow> dexn + string" where
  "bounded_string v field limit allow_empty =
     with_str v (DRE (field @ '': must be a string'')) (\<lambda>s.
     bindE (guardE (\<not> (s = [] \<and> \<not> allow_empty)) (DRE (field @ '': must not be empty''))) (\<lambda>_.
     bindE (guardE (length s \<le> limit)
       (DRE (field @ '': exceeds '' @ show_nat limit @ '' characters''))) (\<lambda>_.
     Inr s)))"

text \<open>\<open>sorted(set(value) - set(names))\<close> and the missing names in field order.\<close>

definition unknown_keys :: "pydict \<Rightarrow> string list \<Rightarrow> string list" where
  "unknown_keys d names = sort (filter (\<lambda>k. k \<notin> set names) (dkeys d))"

definition missing_keys :: "pydict \<Rightarrow> string list \<Rightarrow> string list" where
  "missing_keys d names = filter (\<lambda>k. dget d k = None) names"

definition exact_keys :: "pydict \<Rightarrow> string list \<Rightarrow> string \<Rightarrow> dexn + unit" where
  "exact_keys d names prefix =
     (case unknown_keys d names of
        u # _ \<Rightarrow> Inl (DRE (prefix @ u @ '': unknown field''))
      | [] \<Rightarrow>
          (case missing_keys d names of
             m # _ \<Rightarrow> Inl (DRE (prefix @ m @ '': required field''))
           | [] \<Rightarrow> Inr ()))"

fun reject_forbidden :: "pyval \<Rightarrow> string \<Rightarrow> dexn + unit"
  and reject_in_dict :: "pydict \<Rightarrow> string \<Rightarrow> dexn + unit"
  and reject_in_list :: "pyval list \<Rightarrow> string \<Rightarrow> nat \<Rightarrow> dexn + unit"
where
  "reject_forbidden (PDict d) path = reject_in_dict d path"
| "reject_forbidden (PList xs) path = reject_in_list xs path 0"
| "reject_forbidden _ path = Inr ()"
| "reject_in_dict [] path = Inr ()"
| "reject_in_dict ((k, v) # d) path =
     (let field = (if path = [] then k else path @ ''.'' @ k) in
      bindE (guardE (map char_lower k \<notin> set FORBIDDEN_NAMES)
        (DRE (field @ '': forbidden field name''))) (\<lambda>_.
      bindE (reject_forbidden v field) (\<lambda>_. reject_in_dict d path)))"
| "reject_in_list [] path i = Inr ()"
| "reject_in_list (v # vs) path i =
     bindE (reject_forbidden v (path @ ''['' @ show_nat i @ '']'')) (\<lambda>_.
     reject_in_list vs path (Suc i))"

definition validated_subject :: "pyval \<Rightarrow> dexn + pydict" where
  "validated_subject v =
     with_dict v (DRE ''subject: must be a mapping'') (\<lambda>d.
     bindE (exact_keys d SUBJECT_FIELDS ''subject.'') (\<lambda>_.
     bindE (mapE (\<lambda>n. bindE (bounded_string (dgetN d n) (''subject.'' @ n) MAX_STRING True)
                   (\<lambda>s. Inr (n, PStr s))) SUBJECT_FIELDS) (\<lambda>out.
     bindE (mapE (\<lambda>n. guardE (dgetN out n \<noteq> PStr [])
                   (DRE (''subject.'' @ n @ '': must not be empty''))) [''plan'', ''story'']) (\<lambda>_.
     Inr out))))"

definition validated_evidence_entry :: "pyval \<Rightarrow> string \<Rightarrow> dexn + pyval" where
  "validated_evidence_entry v field =
     with_dict v (DRE (field @ '': must be a mapping'')) (\<lambda>d.
     bindE (exact_keys d EVIDENCE_FIELDS (field @ ''.'')) (\<lambda>_.
     bindE (bounded_string (dgetN d ''kind'') (field @ ''.kind'') MAX_STRING False) (\<lambda>kind.
     bindE (bounded_string (dgetN d ''ref'') (field @ ''.ref'') MAX_REFERENCE True) (\<lambda>r.
     bindE (bounded_string (dgetN d ''sha256'') (field @ ''.sha256'') MAX_STRING True) (\<lambda>sha.
     bindE (guardE (\<not> (sha \<noteq> [] \<and> \<not> hex_string 64 sha))
       (DRE (field @ ''.sha256: must be empty or 64 hex characters''))) (\<lambda>_.
     Inr (PDict [(''kind'', PStr kind), (''ref'', PStr r), (''sha256'', PStr sha)])))))))"

text \<open>A loop over \<open>enumerate(xs)\<close> that names each entry by its index.\<close>

fun indexedE :: "(pyval \<Rightarrow> string \<Rightarrow> dexn + 'b) \<Rightarrow> string \<Rightarrow> nat \<Rightarrow> pyval list \<Rightarrow> dexn + 'b list" where
  "indexedE f name i [] = Inr []"
| "indexedE f name i (x # xs) =
     bindE (f x (name @ ''['' @ show_nat i @ '']'')) (\<lambda>y.
     bindE (indexedE f name (Suc i) xs) (\<lambda>ys. Inr (y # ys)))"

definition validated_evidence :: "pyval \<Rightarrow> dexn + pyval list" where
  "validated_evidence v =
     with_list v (DRE ''evidence: must be a list'')
       (indexedE validated_evidence_entry ''evidence'' 0)"

definition validated_sha :: "pyval \<Rightarrow> string \<Rightarrow> dexn + pyval" where
  "validated_sha v field =
     with_str v (DRE (field @ '': must be 64 hex characters'')) (\<lambda>s.
     bindE (guardE (hex_string 64 s) (DRE (field @ '': must be 64 hex characters''))) (\<lambda>_.
     Inr (PStr s)))"

definition validated_rule :: "pyval \<Rightarrow> dexn + pydict" where
  "validated_rule v =
     with_dict v (DRE ''rule: must be a mapping'') (\<lambda>d.
     bindE (exact_keys d RULE_FIELDS ''rule.'') (\<lambda>_.
     with_list (dgetN d ''layer_shas'') (DRE ''rule.layer_shas: must be a list'') (\<lambda>xs.
     bindE (indexedE validated_sha ''rule.layer_shas'' 0 xs) (\<lambda>shas.
     bindE (bounded_string (dgetN d ''persona_sha'') ''rule.persona_sha'' MAX_STRING True) (\<lambda>persona.
     bindE (bounded_string (dgetN d ''policy_sha'') ''rule.policy_sha'' MAX_STRING True) (\<lambda>policy.
     bindE (bounded_string (dgetN d ''model'') ''rule.model'' MAX_STRING False) (\<lambda>model.
     Inr [(''layer_shas'', PList shas), (''persona_sha'', PStr persona),
          (''policy_sha'', PStr policy), (''model'', PStr model)])))))))"

definition validated_alternatives :: "pyval \<Rightarrow> dexn + pyval list" where
  "validated_alternatives v =
     with_list v (DRE ''alternatives: must be a list'')
       (indexedE (\<lambda>x field. bindE (bounded_string x field MAX_REFERENCE True) (\<lambda>s. Inr (PStr s)))
          ''alternatives'' 0)"

text \<open>\<open>v in frozenset(names)\<close>: hashing an unhashable value raises \<open>TypeError\<close>.\<close>

definition member_of :: "pyval \<Rightarrow> string list \<Rightarrow> string \<Rightarrow> dexn + string" where
  "member_of v names msg =
     bindE (guardE (hashable v) DTypeError) (\<lambda>_.
     with_str v (DRE msg) (\<lambda>s. bindE (guardE (s \<in> set names) (DRE msg)) (\<lambda>_. Inr s)))"

definition checked_tier :: "bound_request \<Rightarrow> pyval \<Rightarrow> dexn + string" where
  "checked_tier rq v =
     bindE (member_of v RECORD_TIERS ''tier: not one of the recorded authority tiers'') (\<lambda>t.
     bindE (guardE (\<not> (t = ''human'' \<and> actor_type rq \<noteq> ''human''))
       (DRE ''tier: a human ruling cannot be recorded by a non-human principal'')) (\<lambda>_.
     bindE (guardE (\<not> (t = ''human'' \<and> current_principal rq = ANONYMOUS))
       (DRE ''tier: a human ruling cannot be recorded by an unauthenticated caller'')) (\<lambda>_.
     Inr t)))"

definition no_server_fields :: "pydict \<Rightarrow> dexn + unit" where
  "no_server_fields d =
     bindE (mapE (\<lambda>n. guardE (dget d n = None)
                   (DRE (n @ '': supplied by the recorder, not the caller''))) SERVER_FIELDS) (\<lambda>_.
     Inr ())"

definition validated_fields :: "bound_request \<Rightarrow> pydict \<Rightarrow> dexn + pydict" where
  "validated_fields rq d =
     with_str (dgetN d ''decision_id'') (DRE ''decision_id: must be 32 hex characters'') (\<lambda>did.
     bindE (guardE (hex_string 32 did) (DRE ''decision_id: must be 32 hex characters'')) (\<lambda>_.
     bindE (member_of (dgetN d ''class'') DECISION_CLASSES
       ''class: not one of the recorded decision classes'') (\<lambda>cls.
     bindE (checked_tier rq (dgetN d ''tier'')) (\<lambda>tier.
     bindE (guardE (is_pybool (dgetN d ''reversible'')) (DRE ''reversible: must be a boolean'')) (\<lambda>_.
     bindE (validated_subject (dgetN d ''subject'')) (\<lambda>sub.
     bindE (validated_evidence (dgetN d ''evidence'')) (\<lambda>evi.
     bindE (validated_rule (dgetN d ''rule'')) (\<lambda>rul.
     bindE (validated_alternatives (dgetN d ''alternatives'')) (\<lambda>alt.
     bindE (bounded_string (dgetN d ''ruling'') ''ruling'' MAX_STRING False) (\<lambda>ruling.
     bindE (bounded_string (dgetN d ''outcome'') ''outcome'' MAX_STRING True) (\<lambda>outc.
     Inr [(''decision_id'', PStr did), (''class'', PStr cls), (''subject'', PDict sub),
          (''evidence'', PList evi), (''rule'', PDict rul), (''alternatives'', PList alt),
          (''ruling'', PStr ruling), (''tier'', PStr tier),
          (''reversible'', dgetN d ''reversible''), (''outcome'', PStr outc)])))))))))))"

definition validated :: "bound_request \<Rightarrow> pyval \<Rightarrow> dexn + pydict" where
  "validated rq v =
     with_dict v (DRE ''record: must be a mapping'') (\<lambda>d.
     bindE (no_server_fields d) (\<lambda>_.
     bindE (reject_forbidden (PDict d) []) (\<lambda>_.
     bindE (exact_keys d CALLER_FIELDS []) (\<lambda>_.
     validated_fields rq d))))"

subsection \<open>The stream\<close>

text \<open>The stored position of a tail record: an \<open>int\<close> that is no \<open>bool\<close>, and a non-empty hash.\<close>

definition position :: "pydict \<Rightarrow> (int \<times> string) option" where
  "position r =
     (case (dgetN r ''seq'', dgetN r ''hash'') of
        (PInt i, PStr h) \<Rightarrow> if h = [] then None else Some (i, h)
      | _ \<Rightarrow> None)"

text \<open>\<open>_chain_head\<close>; only the position of the record is used.\<close>

definition chain_position :: "io \<Rightarrow> stream \<Rightarrow> dexn + (int \<times> string) option" where
  "chain_position io st =
     (if io = IoReadError then Inl (DRE ''stream: could not be read'')
      else case rev (content st) of
        [] \<Rightarrow> Inr None
      | Json (PDict r) # _ \<Rightarrow>
          with_some (position r)
            (DRE ''stream: the last record carries no chain position; refusing to append'')
            (\<lambda>p. Inr (Some p))
      | Json _ # _ \<Rightarrow> Inl (DRE ''stream: the last record is not a record; refusing to append'')
      | _ # _ \<Rightarrow> Inl (DRE ''stream: the last record is unreadable; refusing to append''))"

definition decision_body ::
  "bound_request \<Rightarrow> string \<Rightarrow> string \<Rightarrow> (int \<times> string) option \<Rightarrow> pydict \<Rightarrow> pydict" where
  "decision_body rq now ns pos payl =
     [(''schema_version'', PInt SCHEMA_VERSION),
      (''seq'', PInt (case pos of None \<Rightarrow> 0 | Some (i, _) \<Rightarrow> i + 1)),
      (''prev_hash'', PStr (case pos of None \<Rightarrow> [] | Some (_, h) \<Rightarrow> h)),
      (''ts'', PStr now), (''namespace'', PStr ns),
      (''actor'', PStr (actor_id rq)), (''principal_type'', PStr (actor_type rq)),
      (''client_id'', PStr (actor_client rq)),
      (''correlation_id'', PStr (current_correlation_id rq))] @ payl"

text \<open>The part of the append that runs on the open descriptor.\<close>

definition append_opened ::
  "(pydict \<Rightarrow> string) \<Rightarrow> io \<Rightarrow> bound_request \<Rightarrow> string \<Rightarrow> string \<Rightarrow> pydict \<Rightarrow> lines_file \<Rightarrow>
   (dexn + pydict) \<times> stream" where
  "append_opened digest io rq now ns payl f =
     (case chain_position io (Some f) of
        Inl e \<Rightarrow> (Inl e, Some f)
      | Inr pos \<Rightarrow>
          let r = canonical (sealed digest (decision_body rq now ns pos payl)) in
          if io = IoWriteError then (Inl DOSError, Some f)
          else (Inr r, Some (write_line (Json (PDict r)) f)))"

definition append_decision_record ::
  "(pydict \<Rightarrow> string) \<Rightarrow> io \<Rightarrow> bound_request \<Rightarrow> string \<Rightarrow> pyval \<Rightarrow> pyval \<Rightarrow> pyval \<Rightarrow> stream \<Rightarrow>
   (dexn + pydict) \<times> stream" where
  "append_decision_record digest io rq now plan v namespace st =
     (case bindE (validated rq v) (\<lambda>p. bindE (namespace_key namespace) (\<lambda>ns.
            bindE (plan_key plan) (\<lambda>_. Inr (p, ns)))) of
        Inl e \<Rightarrow> (Inl e, st)
      | Inr (p, ns) \<Rightarrow>
          if io = IoOpenError then (Inl (DRE ''stream: could not be opened''), st)
          else append_opened digest io rq now ns p (created st))"

definition read_decision_records :: "pyval \<Rightarrow> pyval \<Rightarrow> stream \<Rightarrow> dexn + pydict list" where
  "read_decision_records plan namespace st =
     bindE (namespace_key namespace) (\<lambda>ns.
     bindE (plan_key plan) (\<lambda>_.
     Inr (filter (\<lambda>r. py_eq (dgetN r ''namespace'') (PStr ns)) (stream_records st))))"

definition verify_decision_chain ::
  "(pydict \<Rightarrow> string) \<Rightarrow> pyval \<Rightarrow> stream \<Rightarrow> dexn + nat option" where
  "verify_decision_chain digest plan st =
     bindE (plan_key plan) (\<lambda>_. Inr (verify_chain_at digest st))"

subsection \<open>Lemmas\<close>

text \<open>An append either validates and writes one record, or leaves every line as it was.\<close>

lemma append_decision_cases:
  obtains (written) p ns pos where
      "io = IoOk" "validated rq v = Inr p" "namespace_key namespace = Inr ns"
      "chain_position io st = Inr pos"
      "append_decision_record digest io rq now plan v namespace st =
        (Inr (canonical (sealed digest (decision_body rq now ns pos p))),
         Some (write_line (Json (PDict (canonical (sealed digest (decision_body rq now ns pos p)))))
                 (created st)))"
  | (refused) e where
      "append_decision_record digest io rq now plan v namespace st = (Inl e, st)"
  | (failed) e where
      "append_decision_record digest io rq now plan v namespace st = (Inl e, Some (created st))"
proof -
  have t: "chain_position io (Some (created st)) = chain_position io st"
    by (simp add: chain_position_def)
  show thesis
  proof (cases "bindE (validated rq v) (\<lambda>p. bindE (namespace_key namespace) (\<lambda>ns.
            bindE (plan_key plan) (\<lambda>_. Inr (p, ns))))")
    case (Inl e)
    then show thesis by (intro refused [of e]) (simp add: append_decision_record_def)
  next
    case (Inr q)
    obtain p ns where q: "q = (p, ns)" by (cases q)
    with Inr have v: "validated rq v = Inr p" "namespace_key namespace = Inr ns"
      by (auto simp: okE)
    show thesis
    proof (cases "io = IoOpenError")
      case True
      with Inr q show thesis
        by (intro refused [of "DRE ''stream: could not be opened''"])
           (simp add: append_decision_record_def)
    next
      case no: False
      with Inr q have a: "append_decision_record digest io rq now plan v namespace st =
          append_opened digest io rq now ns p (created st)"
        by (simp add: append_decision_record_def)
      show thesis
      proof (cases "chain_position io st")
        case (Inl e)
        with a t show thesis by (intro failed [of e]) (simp add: append_opened_def)
      next
        case (Inr pos)
        show thesis
        proof (cases "io = IoWriteError")
          case True
          with a t Inr show thesis by (intro failed [of DOSError]) (simp add: append_opened_def Let_def)
        next
          case False
          moreover from Inr have "io \<noteq> IoReadError" by (auto simp: chain_position_def)
          ultimately have "io = IoOk" using no by (cases io) auto
          with a t Inr v show thesis
            by (intro written [of p ns pos]) (simp_all add: append_opened_def Let_def)
        qed
      qed
    qed
  qed
qed

lemma position_intact:
  assumes "content st = json_lines rs" "chained digest [] 0 rs" "chain_position io st = Inr pos"
  shows "(case pos of None \<Rightarrow> 0 | Some (i, _) \<Rightarrow> i + 1) = int (length rs) \<and>
    (case pos of None \<Rightarrow> [] | Some (_, h) \<Rightarrow> h) = chain_head digest [] rs"
proof (cases rs rule: rev_cases)
  case Nil
  with assms(1,3) show ?thesis
    by (auto simp: chain_position_def json_lines_def chain_head_def split: if_splits)
next
  case (snoc ss r)
  with assms(1) have "rev (content st) = Json (PDict r) # rev (json_lines ss)"
    by (simp add: json_lines_def)
  with assms(3) obtain i h where p: "pos = Some (i, h)" "position r = Some (i, h)"
    by (auto simp: chain_position_def okE split: if_splits)
  then have "dgetN r ''seq'' = PInt i" "dgetN r ''hash'' = PStr h"
    by (auto simp: position_def split: pyval.splits if_splits)
  with assms(2) snoc p(1) show ?thesis by (auto simp: chained_append chain_head_def)
qed

lemma body_fields [simp]:
  "dget (decision_body rq now ns pos p) ''seq'' =
     Some (PInt (case pos of None \<Rightarrow> 0 | Some (i, _) \<Rightarrow> i + 1))"
  "dget (decision_body rq now ns pos p) ''prev_hash'' =
     Some (PStr (case pos of None \<Rightarrow> [] | Some (_, h) \<Rightarrow> h))"
  "dget (decision_body rq now ns pos p) ''namespace'' = Some (PStr ns)"
  "dget (decision_body rq now ns pos p) ''actor'' = Some (PStr (actor_id rq))"
  "dget (decision_body rq now ns pos p) ''principal_type'' = Some (PStr (actor_type rq))"
  "dget (decision_body rq now ns pos p) ''client_id'' = Some (PStr (actor_client rq))"
  by (simp_all add: decision_body_def)

text \<open>One call, and the contract of a chained stream.\<close>

record decision_call =
  d_io :: io
  d_request :: bound_request
  d_now :: string
  d_plan :: pyval
  d_record :: pyval
  d_namespace :: pyval

definition do_decide :: "(pydict \<Rightarrow> string) \<Rightarrow> decision_call \<Rightarrow> stream \<Rightarrow> stream" where
  "do_decide digest c st =
     snd (append_decision_record digest (d_io c) (d_request c) (d_now c) (d_plan c) (d_record c)
            (d_namespace c) st)"

interpretation decision_stream: chained_stream "do_decide digest" digest for digest
proof unfold_locales
  fix st and q :: decision_call
  assume c: "clean st" and v: "verify_chain_at digest st = None"
  from v obtain rs where rs: "content st = json_lines rs" "chained digest [] 0 rs"
    by (auto simp: verify_chain_None_iff)
  show "\<exists>ls. content (do_decide digest q st) = content st @ ls \<and>
      clean (do_decide digest q st) \<and> verify_chain_at digest (do_decide digest q st) = None"
  proof (cases rule: append_decision_cases [of "d_io q" "d_request q" "d_record q" "d_namespace q"
        st digest "d_now q" "d_plan q"])
    case (written p ns pos)
    define r where
      "r = sealed digest (decision_body (d_request q) (d_now q) ns pos p)"
    have "chained digest (chain_head digest [] rs) (length rs) [canonical r]"
      unfolding r_def using position_intact [OF rs written(4)]
      by (intro sealed_chained) simp_all
    with rs(2) have "chained digest [] 0 (rs @ [canonical r])"
      by (simp only: chained_append) simp
    moreover have "content (do_decide digest q st) = json_lines (rs @ [canonical r])"
      using written(5) c rs(1)
      by (simp add: do_decide_def content_write r_def [symmetric] json_lines_snoc)
    moreover have "clean (do_decide digest q st)" using written(5) by (simp add: do_decide_def)
    ultimately show ?thesis using rs(1) intact_intro json_lines_append by metis
  next
    case (refused e)
    with c v show ?thesis by (intro exI [of _ "[]"]) (simp add: do_decide_def)
  next
    case (failed e)
    with c v show ?thesis
      by (intro exI [of _ "[]"]) (simp add: do_decide_def verify_chain_at_def)
  qed
qed

text \<open>What the validated part of a record looks like.\<close>

lemma bounded_string_Inr:
  "bounded_string v field limit e = Inr s \<longleftrightarrow>
     v = PStr s \<and> length s \<le> limit \<and> (s = [] \<longrightarrow> e)"
  by (auto simp: bounded_string_def okE)

lemma checked_tier_Inr:
  "checked_tier rq v = Inr t \<longleftrightarrow>
     v = PStr t \<and> t \<in> set RECORD_TIERS \<and>
     (t = ''human'' \<longrightarrow> actor_type rq = ''human'' \<and> current_principal rq \<noteq> ANONYMOUS)"
  by (auto simp: checked_tier_def member_of_def okE)

lemma validated_shape:
  assumes "validated rq v = Inr p"
  shows "dkeys p = CALLER_FIELDS \<and>
    (\<exists>t. dget p ''tier'' = Some (PStr t) \<and> checked_tier rq (PStr t) = Inr t)"
proof -
  from assms obtain d where f: "validated_fields rq d = Inr p"
    by (auto simp: validated_def okE)
  then obtain t where "dget p ''tier'' = Some (PStr t)" "checked_tier rq (dgetN d ''tier'') = Inr t"
    "dkeys p = CALLER_FIELDS"
    by (auto simp: validated_fields_def okE CALLER_FIELDS_def)
  then show ?thesis by (auto simp: checked_tier_Inr)
qed

text \<open>Data minimisation: no forbidden key at any depth, every string within the cap.\<close>

fun minimal :: "pyval \<Rightarrow> bool"
  and minimal_dict :: "pydict \<Rightarrow> bool"
  and minimal_list :: "pyval list \<Rightarrow> bool"
where
  "minimal (PDict d) = minimal_dict d"
| "minimal (PList xs) = minimal_list xs"
| "minimal (PStr s) = (length s \<le> MAX_STRING)"
| "minimal PNone = True"
| "minimal (PBool b) = True"
| "minimal (PInt i) = True"
| "minimal (PFloat x) = True"
| "minimal_dict [] = True"
| "minimal_dict ((k, v) # d) =
     (map char_lower k \<notin> set FORBIDDEN_NAMES \<and> minimal v \<and> minimal_dict d)"
| "minimal_list [] = True"
| "minimal_list (v # vs) = (minimal v \<and> minimal_list vs)"

definition allowed_name :: "string \<Rightarrow> bool" where
  "allowed_name k = (map char_lower k \<notin> set FORBIDDEN_NAMES)"

lemma allowed_names:
  "list_all allowed_name
     (CALLER_FIELDS @ SUBJECT_FIELDS @ EVIDENCE_FIELDS @ RULE_FIELDS)"
  by code_simp

lemma minimal_dict_cons [simp]:
  "minimal_dict ((k, v) # d) = (allowed_name k \<and> minimal v \<and> minimal_dict d)"
  by (simp add: allowed_name_def)

declare minimal_dict.simps(2) [simp del]

lemma limits [simp]: "n \<le> MAX_REFERENCE \<Longrightarrow> n \<le> MAX_STRING"
  by (simp add: MAX_REFERENCE_def MAX_STRING_def)

lemma hex_length: "hex_string n s \<Longrightarrow> length s = n"
  by (simp add: hex_string_def)

lemma indexedE_minimal:
  "indexedE f name i xs = Inr ys \<Longrightarrow> (\<And>x field y. f x field = Inr y \<Longrightarrow> minimal y) \<Longrightarrow>
   minimal_list ys"
  by (induction xs arbitrary: i ys) (auto simp: okE)

lemma subject_minimal: "validated_subject v = Inr out \<Longrightarrow> minimal_dict out"
  using allowed_names
  by (auto simp: validated_subject_def SUBJECT_FIELDS_def okE bounded_string_Inr)

lemma evidence_entry_minimal: "validated_evidence_entry v field = Inr y \<Longrightarrow> minimal y"
  using allowed_names
  by (auto simp: validated_evidence_entry_def EVIDENCE_FIELDS_def okE bounded_string_Inr)

lemma evidence_minimal: "validated_evidence v = Inr out \<Longrightarrow> minimal_list out"
  by (auto simp: validated_evidence_def okE intro: indexedE_minimal evidence_entry_minimal)

lemma sha_minimal: "validated_sha v field = Inr y \<Longrightarrow> minimal y"
  by (auto simp: validated_sha_def okE hex_string_def MAX_STRING_def)

lemma rule_minimal: "validated_rule v = Inr out \<Longrightarrow> minimal_dict out"
  using allowed_names
  by (auto simp: validated_rule_def RULE_FIELDS_def okE bounded_string_Inr
      elim!: indexedE_minimal sha_minimal)

lemma alternatives_minimal: "validated_alternatives v = Inr out \<Longrightarrow> minimal_list out"
  by (auto simp: validated_alternatives_def okE bounded_string_Inr elim!: indexedE_minimal)

lemma validated_minimal:
  assumes "validated rq v = Inr p"
  shows "minimal_dict p"
proof -
  from assms obtain d where f: "validated_fields rq d = Inr p"
    by (auto simp: validated_def okE)
  then obtain did cls tier sub evi rul alt ruling outc where
    "hex_string 32 did" "cls \<in> set DECISION_CLASSES" "tier \<in> set RECORD_TIERS"
    and s: "validated_subject (dgetN d ''subject'') = Inr sub"
      "validated_evidence (dgetN d ''evidence'') = Inr evi"
      "validated_rule (dgetN d ''rule'') = Inr rul"
      "validated_alternatives (dgetN d ''alternatives'') = Inr alt"
    and "length ruling \<le> MAX_STRING" "length outc \<le> MAX_STRING"
      "is_pybool (dgetN d ''reversible'')"
    and p: "p = [(''decision_id'', PStr did), (''class'', PStr cls), (''subject'', PDict sub),
          (''evidence'', PList evi), (''rule'', PDict rul), (''alternatives'', PList alt),
          (''ruling'', PStr ruling), (''tier'', PStr tier),
          (''reversible'', dgetN d ''reversible''), (''outcome'', PStr outc)]"
    unfolding validated_fields_def
    by (auto simp: okE bounded_string_Inr checked_tier_Inr member_of_def)
  moreover from this(1,2,3) have "length did \<le> MAX_STRING" "length cls \<le> MAX_STRING"
    "length tier \<le> MAX_STRING"
    by (auto simp: hex_string_def MAX_STRING_def DECISION_CLASSES_def RECORD_TIERS_def)
  ultimately show ?thesis
    using allowed_names subject_minimal [OF s(1)] evidence_minimal [OF s(2)]
      rule_minimal [OF s(3)] alternatives_minimal [OF s(4)]
    by (auto simp: CALLER_FIELDS_def is_pybool_iff)
qed

subsection \<open>Properties\<close>

text \<open>
  A stored decision record is attributed by the request, not by its caller: actor, principal
  type and client come from the bound principal; a human tier needs an authenticated human
  principal; and what the caller supplied holds no forbidden key at any depth and no string over
  the cap.
\<close>

lemma decision_attributed:
  assumes "fst (append_decision_record digest io rq now plan v namespace st) = Inr r"
  shows "dgetN r ''actor'' = PStr (actor_id rq) \<and>
    dgetN r ''principal_type'' = PStr (actor_type rq) \<and>
    dgetN r ''client_id'' = PStr (actor_client rq) \<and>
    (dgetN r ''tier'' \<noteq> PStr ''human'' \<or>
       (actor_type rq = ''human'' \<and> current_principal rq \<noteq> ANONYMOUS)) \<and>
    (\<exists>p. validated rq v = Inr p \<and> dkeys p = CALLER_FIELDS \<and> minimal_dict p \<and>
         list_all (\<lambda>k. dget r k = map_option canonv (dget p k)) CALLER_FIELDS)"
proof (cases rule: append_decision_cases [of io rq v namespace st digest now plan])
  case (written p ns pos)
  with assms have r: "r = canonical (sealed digest (decision_body rq now ns pos p))" by simp
  from validated_shape [OF written(2)] obtain t where
    t: "dget p ''tier'' = Some (PStr t)" "checked_tier rq (PStr t) = Inr t" "dkeys p = CALLER_FIELDS"
    by blast
  have k: "dget r k = map_option canonv (dget p k)" if "k \<in> set CALLER_FIELDS" for k
    using that by (auto simp: r CALLER_FIELDS_def decision_body_def)
  have "dget r ''tier'' = Some (PStr t)"
    using k [of "''tier''"] t(1) by (simp add: CALLER_FIELDS_def)
  with t(2) have "dgetN r ''tier'' \<noteq> PStr ''human'' \<or>
       (actor_type rq = ''human'' \<and> current_principal rq \<noteq> ANONYMOUS)"
    by (auto simp: checked_tier_Inr dgetN_def)
  moreover have "dgetN r ''actor'' = PStr (actor_id rq)"
    "dgetN r ''principal_type'' = PStr (actor_type rq)"
    "dgetN r ''client_id'' = PStr (actor_client rq)"
    by (simp_all add: dgetN_def r)
  ultimately show ?thesis
    using written(2) t(3) k validated_minimal [OF written(2)] by (auto simp: list_all_iff)
qed (use assms in simp_all)

definition demo_record :: pydict where
  "demo_record =
     [(''decision_id'', PStr (replicate 32 CHR ''0'')), (''class'', PStr ''triage''),
      (''subject'', PDict [(''plan'', PStr ''p''), (''story'', PStr ''s''), (''pr'', PStr []),
         (''sha'', PStr [])]),
      (''evidence'', PList []),
      (''rule'', PDict [(''layer_shas'', PList []), (''persona_sha'', PStr []),
         (''policy_sha'', PStr []), (''model'', PStr ''m'')]),
      (''alternatives'', PList []), (''ruling'', PStr ''keep''), (''tier'', PStr ''human''),
      (''reversible'', PBool True), (''outcome'', PStr [])]"

definition demo_stored :: pydict where
  "demo_stored =
     canonical (sealed demo_digest (decision_body no_request ''t'' ''default'' None demo_record))"

lemma demo_append:
  "append_decision_record demo_digest IoOk no_request ''t'' (PStr ''p'') (PDict demo_record)
     (PStr ''default'') None =
   (Inr demo_stored, Some \<lparr>rows = [Json (PDict demo_stored)], closed = True\<rparr>)"
  by code_simp

lemma decision_attributed_witness:
  "dgetN demo_stored ''actor'' = PStr ''local-operator''"
proof -
  have "fst (append_decision_record demo_digest IoOk no_request ''t'' (PStr ''p'')
      (PDict demo_record) (PStr ''default'') None) = Inr demo_stored"
    by (simp add: demo_append)
  from decision_attributed [OF this] show ?thesis
    by (simp add: actor_id_def current_principal_def no_request_def)
qed

text \<open>
  An append is all or nothing.  When it returns a record, that record is the one new last
  line of the stream; when it raises, every line is as before, and a record that validation
  refuses leaves the file itself untouched.
\<close>

lemma decision_append_atomic:
  assumes "clean st"
  shows "case append_decision_record digest io rq now plan v namespace st of
      (Inr r, st') \<Rightarrow> content st' = content st @ [Json (PDict r)]
    | (Inl e, st') \<Rightarrow> content st' = content st \<and> (validated rq v = Inl e \<longrightarrow> st' = st)"
proof (cases rule: append_decision_cases [of io rq v namespace st digest now plan])
  case (written p ns pos)
  with assms show ?thesis by (simp add: content_write)
next
  case (refused e)
  then show ?thesis by simp
next
  case (failed e)
  moreover have "append_decision_record digest io rq now plan v namespace st = (Inl e, st)"
    if "validated rq v = Inl e" using that by (simp add: append_decision_record_def)
  ultimately show ?thesis by auto
qed

lemma decision_append_atomic_witness:
  "content (snd (append_decision_record demo_digest IoOk no_request ''t'' (PStr ''p'')
     (PDict demo_record) (PStr ''default'') None)) = [Json (PDict demo_stored)]"
  using decision_append_atomic [where st = None and digest = demo_digest and io = IoOk
      and rq = no_request and now = "''t''" and plan = "PStr ''p''" and v = "PDict demo_record"
      and namespace = "PStr ''default''"]
  by (simp add: clean_def demo_append)

text \<open>
  C36: Reading back.  On a stream that ends in a complete line (\<open>clean\<close>: the file is absent, empty or
  ends in a newline), after an append that returned a record a reader of that namespace gets the
  earlier records followed by this one, and a reader of another namespace gets what it got before.
  Without the newline both records are lost: \<open>torn_tail_loses_decision\<close>.
\<close>

theorem decision_read_after_append:
  assumes "clean st" "read_decision_records plan namespace st = Inr rs"
    and "append_decision_record digest io rq now plan v (PStr ns) st = (Inr r, st')"
  shows "read_decision_records plan namespace st' =
    Inr (if namespace = PStr ns then rs @ [r] else rs)"
proof (cases rule: append_decision_cases [of io rq v "PStr ns" st digest now plan])
  case (written p ns' pos)
  with assms(3) have r: "r = canonical (sealed digest (decision_body rq now ns pos p))"
    and st': "st' = Some (write_line (Json (PDict r)) (created st))"
    by (auto simp: namespace_key_def okE)
  have "dgetN r ''namespace'' = PStr ns" by (simp add: r dgetN_def)
  moreover have "stream_records st' = stream_records st @ [r]"
    using assms(1) by (simp add: st' stream_records_def content_write)
  ultimately show ?thesis
    using assms(2) by (auto simp: read_decision_records_def namespace_key_def okE)
qed (use assms(3) in simp_all)

theorem decision_read_after_append_witness:
  "read_decision_records (PStr ''p'') (PStr ''default'')
     (Some \<lparr>rows = [Json (PDict demo_stored)], closed = True\<rparr>) = Inr [demo_stored]"
proof -
  have "clean None" "read_decision_records (PStr ''p'') (PStr ''default'') None = Inr []"
    by code_simp+
  from decision_read_after_append [OF this demo_append] show ?thesis by simp
qed

text \<open>
  An append to a stream whose last line is whole but lacks its newline returns its record all the
  same; its text joins that line, so that the last record and the new one are both unreadable.
\<close>

lemma torn_tail_loses_decision:
  assumes "\<not> clean st"
    and "append_decision_record digest io rq now plan v namespace st = (Inr r, st')"
  shows "content st' = butlast (content st) @ [Junk]"
proof (cases rule: append_decision_cases [of io rq v namespace st digest now plan])
  case (written p ns pos)
  with assms show ?thesis using content_write_torn [of "created st"] by simp
qed (use assms(2) in simp_all)

lemma torn_tail_loses_decision_witness:
  "\<exists>r st'. append_decision_record demo_digest IoOk no_request ''u'' (PStr ''p'') (PDict demo_record)
     (PStr ''default'') (Some \<lparr>rows = [Json (PDict demo_stored)], closed = False\<rparr>) = (Inr r, st') \<and>
   content st' = [Junk] \<and> read_decision_records (PStr ''p'') (PStr ''default'') st' = Inr []"
proof -
  let ?st = "Some \<lparr>rows = [Json (PDict demo_stored)], closed = False\<rparr>"
  let ?a = "append_decision_record demo_digest IoOk no_request ''u'' (PStr ''p'') (PDict demo_record)
     (PStr ''default'') ?st"
  have "\<not> clean ?st" "content ?st = [Json (PDict demo_stored)]" by code_simp+
  moreover have "case fst ?a of Inr _ \<Rightarrow> True | Inl _ \<Rightarrow> False" by code_simp
  then obtain r where "?a = (Inr r, snd ?a)" by (auto split: sum.splits simp: prod_eq_iff)
  moreover have "read_decision_records (PStr ''p'') (PStr ''default'') st' = Inr []"
    if "content st' = [Junk]" for st'
  proof -
    have "namespace_key (PStr ''default'') = Inr ''default''" "plan_key (PStr ''p'') = Inr ''p''"
      by code_simp+
    with that show ?thesis by (auto simp: read_decision_records_def stream_records_def)
  qed
  ultimately show ?thesis using torn_tail_loses_decision [of ?st] by fastforce
qed

text \<open>
  A stream whose last line is not JSON refuses every decision and keeps its lines, whereas
  the audit stream starts a second chain at sequence number 0 behind the same line.
\<close>

lemma damaged_tail_refused:
  assumes "clean st" "content st = ls @ [Junk]"
  shows "(\<exists>e. fst (append_decision_record digest io rq now plan v namespace st) = Inl e) \<and>
    content (snd (append_decision_record digest io rq now plan v namespace st)) = content st \<and>
    (\<exists>r. content (snd (append_at digest IoOk rq now e0 st)) = ls @ [Junk, Json (PDict r)] \<and>
         dgetN r ''seq'' = PInt 0 \<and> dgetN r ''prev_hash'' = PStr [])"
proof -
  have "chain_position io st \<noteq> Inr pos" for pos
    using assms(2) by (auto simp: chain_position_def)
  then have d: "(\<exists>e. fst (append_decision_record digest io rq now plan v namespace st) = Inl e) \<and>
    content (snd (append_decision_record digest io rq now plan v namespace st)) = content st"
    by (cases rule: append_decision_cases [of io rq v namespace st digest now plan]) auto
  have t: "tail_record st = None" using assms(2) by (simp add: tail_record_def)
  have c: "tail_record (Some (created st)) = None" using t by (simp add: tail_record_def)
  let ?r = "canonical (sealed digest (audit_body rq now e0 0 (PStr [])))"
  have "content (snd (append_at digest IoOk rq now e0 st)) = ls @ [Junk, Json (PDict ?r)]"
    using c assms
    by (simp add: append_at_def Let_def next_seq_def next_prev_hash_def content_write)
  moreover have "dgetN ?r ''seq'' = PInt 0" "dgetN ?r ''prev_hash'' = PStr []"
    by (simp_all add: dgetN_def audit_body_def)
  ultimately show ?thesis using d by blast
qed

lemma damaged_tail_refused_witness:
  "\<exists>e. fst (append_decision_record demo_digest IoOk no_request ''t'' (PStr ''p'')
     (PDict demo_record) (PStr ''default'') (Some \<lparr>rows = [Junk], closed = True\<rparr>)) = Inl e"
proof -
  have "clean (Some \<lparr>rows = [Junk], closed = True\<rparr>)"
    "content (Some \<lparr>rows = [Junk], closed = True\<rparr>) = [] @ [Junk]" by code_simp+
  from damaged_tail_refused [OF this] show ?thesis by blast
qed

text \<open>
  Every refusal is meant to be a \<open>DecisionRecordError\<close>, but a record whose class is a list
  makes the membership test raise \<open>TypeError\<close>.
\<close>

lemma unhashable_class_raises:
  "fst (append_decision_record digest io rq now plan
     (PDict (dset ''class'' (PList []) demo_record)) namespace st) = Inl DTypeError"
proof -
  have "no_server_fields (dset ''class'' (PList []) demo_record) = Inr ()"
    "reject_forbidden (PDict (dset ''class'' (PList []) demo_record)) [] = Inr ()"
    "exact_keys (dset ''class'' (PList []) demo_record) CALLER_FIELDS [] = Inr ()"
    "hex_string 32 (replicate 32 CHR ''0'')"
    by code_simp+
  then have "validated rq (PDict (dset ''class'' (PList []) demo_record)) = Inl DTypeError"
    by (simp add: validated_def validated_fields_def member_of_def dgetN_def)
       (simp add: demo_record_def)
  then show ?thesis by (simp add: append_decision_record_def)
qed

end
