(* ===== verification/AuditAnchor.thy ===== *)
theory AuditAnchor
  imports DecisionRecords
begin

text \<open>
  \<open>src/pipeline/audit_anchor.py\<close>: the append-only log of chain heads and the verdicts read off
  it.  The plan directory maps plan names to their audit and decision streams and holds the host
  stream; every file is readable or fails with the name of an \<open>OSError\<close>.  The log is a file of
  JSON lines like the streams.  A verdict is a value of its own, one constructor per message.
\<close>

datatype 'a access = Readable 'a | Unreadable string

type_synonym file_access = "lines_file access option"

record plan_dir =
  audit_files :: "(string \<times> lines_file access) list"
  decision_files :: "(string \<times> lines_file access) list"
  host_file :: file_access

definition HOST_CHAIN :: string where
  "HOST_CHAIN = ''host''"

definition SINK_VERDICT :: string where
  "SINK_VERDICT = ''*''"

definition DECISIONS_PREFIX :: string where
  "DECISIONS_PREFIX = ''decisions:''"

datatype anchor_exn = BadSink | AnchorUnreadable string | SinkOSError

datatype verdict = Truncated int | HashMismatch int | LogUnreadable string

subsection \<open>The sink\<close>

text \<open>
  \<open>_anchor_path\<close>.  \<open>expand\<close> is \<open>expanduser\<close> and \<open>parts\<close> the components of the resolved path,
  both questions for the file system.
\<close>

definition anchor_path ::
  "(string \<Rightarrow> string) \<Rightarrow> (string \<Rightarrow> string list) \<Rightarrow> string \<Rightarrow> env \<Rightarrow> anchor_exn + string option" where
  "anchor_path expand parts plan_dir env =
     (let raw = strip (env_get env ''PIPELINE_AUDIT_ANCHOR'') in
      if raw = [] then Inr None
      else case partition_at CHR '':'' raw of (scheme, found, target) \<Rightarrow>
        bindE (guardE (scheme = ''file'' \<and> found \<and> target \<noteq> []) BadSink) (\<lambda>_.
        let path = expand target in
        bindE (guardE (starts_with path ''/'') BadSink) (\<lambda>_.
        let base = parts (expand plan_dir) in
        bindE (guardE (take (length base) (parts path) \<noteq> base) BadSink) (\<lambda>_.
        Inr (Some path)))))"

text \<open>\<open>_usable_chain\<close>: the plan part of a chain name, and whether it names a stream.\<close>

definition chain_plan :: "string \<Rightarrow> string" where
  "chain_plan c =
     (if starts_with c DECISIONS_PREFIX then drop (length DECISIONS_PREFIX) c else c)"

definition usable_chain :: "pyval \<Rightarrow> string option" where
  "usable_chain v =
     (case v of
        PStr c \<Rightarrow>
          if c = [] then None
          else if c \<in> {''.'', ''..'', ''*''} \<or> CHR ''/'' \<in> set c \<or> CHR 0x5C \<in> set c \<or> CHR 0x00 \<in> set c
            then None
          else if path_name c \<noteq> c then None
          else if chain_plan c = [] \<or> CHR '':'' \<in> set (chain_plan c) then None
          else Some c
      | _ \<Rightarrow> None)"

subsection \<open>Reading\<close>

definition json_records :: "line list \<Rightarrow> pydict list" where
  "json_records ls = concat (map (\<lambda>l. case l of Json (PDict r) \<Rightarrow> [r] | _ \<Rightarrow> []) ls)"

text \<open>A chain stream is read fail-soft, the anchor log is not.\<close>

definition read_records :: "file_access \<Rightarrow> pydict list" where
  "read_records f =
     (case f of Some (Readable lf) \<Rightarrow> json_records (rows lf) | _ \<Rightarrow> [])"

definition anchor_records :: "file_access \<Rightarrow> anchor_exn + pydict list" where
  "anchor_records f =
     (case f of
        None \<Rightarrow> Inr []
      | Some (Readable lf) \<Rightarrow> Inr (json_records (rows lf))
      | Some (Unreadable e) \<Rightarrow> Inl (AnchorUnreadable e))"

type_synonym anchor_set = "(string \<times> (int \<times> string)) list"

definition anchor_of :: "pydict \<Rightarrow> (string \<times> int \<times> string) option" where
  "anchor_of r =
     (case (usable_chain (dgetN r ''chain''), dgetN r ''seq'', dgetN r ''hash'') of
        (Some c, PInt i, PStr h) \<Rightarrow> if h = [] then None else Some (c, i, h)
      | _ \<Rightarrow> None)"

definition add_anchor :: "pydict \<Rightarrow> anchor_set \<Rightarrow> anchor_set" where
  "add_anchor r s =
     (case anchor_of r of
        None \<Rightarrow> s
      | Some (c, i, h) \<Rightarrow>
          (case dget s c of
             None \<Rightarrow> dset c (i, h) s
           | Some (j, _) \<Rightarrow> if i > j then dset c (i, h) s else s))"

definition anchors :: "file_access \<Rightarrow> anchor_exn + anchor_set" where
  "anchors f = bindE (anchor_records f) (\<lambda>rs. Inr (fold add_anchor rs []))"

subsection \<open>Chains\<close>

text \<open>\<open>sorted(glob(...))\<close>: the files ordered by their names; aliasing names are skipped.\<close>

definition sorted_names :: "string \<Rightarrow> (string \<times> 'a) list \<Rightarrow> (string \<times> 'a) list" where
  "sorted_names suffix fs = sort_key (\<lambda>x. fst x @ suffix) fs"

definition chain_streams :: "plan_dir \<Rightarrow> (string \<times> file_access) list" where
  "chain_streams d =
     map (\<lambda>(n, f). (n, Some f))
       (filter (\<lambda>x. CHR '':'' \<notin> set (fst x)) (sorted_names ''.audit.jsonl'' (audit_files d))) @
     map (\<lambda>(n, f). (DECISIONS_PREFIX @ n, Some f))
       (filter (\<lambda>x. fst x \<noteq> [] \<and> CHR '':'' \<notin> set (fst x))
          (sorted_names ''.decisions.chain.jsonl'' (decision_files d))) @
     [(HOST_CHAIN, host_file d)]"

definition stream_for :: "plan_dir \<Rightarrow> string \<Rightarrow> file_access" where
  "stream_for d c =
     (if starts_with c DECISIONS_PREFIX then dget (decision_files d) (chain_plan c)
      else if c = HOST_CHAIN then host_file d
      else dget (audit_files d) c)"

definition head_of :: "file_access \<Rightarrow> (int \<times> string) option" where
  "head_of f =
     (case f of
        Some (Readable lf) \<Rightarrow>
          (case tail_record (Some lf) of Some r \<Rightarrow> position r | None \<Rightarrow> None)
      | _ \<Rightarrow> None)"

subsection \<open>A pass\<close>

text \<open>Whether the pass appends this head, given the anchors read at its start.\<close>

definition should_anchor :: "anchor_set \<Rightarrow> string \<Rightarrow> int \<Rightarrow> bool" where
  "should_anchor known c i =
     (case dget known c of None \<Rightarrow> True | Some (j, _) \<Rightarrow> i > j)"

definition anchor_line :: "string \<Rightarrow> string \<Rightarrow> int \<Rightarrow> string \<Rightarrow> line" where
  "anchor_line now c i h =
     Json (PDict (canonical [(''chain'', PStr c), (''seq'', PInt i), (''hash'', PStr h),
                             (''at'', PStr now)]))"

definition access_write :: "line \<Rightarrow> file_access \<Rightarrow> file_access" where
  "access_write l f =
     (case f of
        None \<Rightarrow> Some (Readable (write_line l empty_file))
      | Some (Readable lf) \<Rightarrow> Some (Readable (write_line l lf))
      | Some (Unreadable e) \<Rightarrow> Some (Unreadable e))"

definition anchor_one ::
  "bool \<Rightarrow> string \<Rightarrow> anchor_set \<Rightarrow> string \<times> file_access \<Rightarrow> nat \<times> file_access \<Rightarrow>
   (nat \<times> file_access) \<times> bool" where
  "anchor_one sink_ok now known cf s =
     (case head_of (snd cf) of
        None \<Rightarrow> (s, True)
      | Some (i, h) \<Rightarrow>
          if \<not> should_anchor known (fst cf) i then (s, True)
          else if \<not> sink_ok then (s, False)
          else ((Suc (fst s), access_write (anchor_line now (fst cf) i h) (snd s)), True))"

text \<open>The loop stops at the first append the sink refuses.\<close>

fun anchor_all ::
  "bool \<Rightarrow> string \<Rightarrow> anchor_set \<Rightarrow> (string \<times> file_access) list \<Rightarrow> nat \<times> file_access \<Rightarrow>
   (anchor_exn + nat) \<times> file_access" where
  "anchor_all sink_ok now known [] s = (Inr (fst s), snd s)"
| "anchor_all sink_ok now known (cf # cfs) s =
     (case anchor_one sink_ok now known cf s of
        (s', True) \<Rightarrow> anchor_all sink_ok now known cfs s'
      | (s', False) \<Rightarrow> (Inl SinkOSError, snd s'))"

definition anchor_heads ::
  "bool \<Rightarrow> string \<Rightarrow> anchor_exn + string option \<Rightarrow> plan_dir \<Rightarrow> file_access \<Rightarrow>
   (anchor_exn + nat) \<times> file_access" where
  "anchor_heads sink_ok now sink d slog =
     (case sink of
        Inl e \<Rightarrow> (Inl e, slog)
      | Inr None \<Rightarrow> (Inr 0, slog)
      | Inr (Some _) \<Rightarrow>
          (case anchors slog of
             Inl _ \<Rightarrow> (Inr 0, slog)
           | Inr known \<Rightarrow> anchor_all sink_ok now known (chain_streams d) (0, slog)))"

subsection \<open>Verdicts\<close>

fun verdict_in :: "pydict list \<Rightarrow> int \<Rightarrow> string \<Rightarrow> verdict option" where
  "verdict_in [] i h = Some (Truncated i)"
| "verdict_in (r # rs) i h =
     (if py_eq (dgetN r ''seq'') (PInt i)
      then (if py_eq (dgetN r ''hash'') (PStr h) then None else Some (HashMismatch i))
      else verdict_in rs i h)"

definition chain_verdict :: "plan_dir \<Rightarrow> string \<Rightarrow> int \<times> string \<Rightarrow> verdict option" where
  "chain_verdict d c a = verdict_in (read_records (stream_for d c)) (fst a) (snd a)"

definition verify_against_anchor ::
  "anchor_exn + string option \<Rightarrow> plan_dir \<Rightarrow> file_access \<Rightarrow> string \<Rightarrow> anchor_exn + verdict option" where
  "verify_against_anchor sink d slog c =
     (case sink of
        Inl e \<Rightarrow> Inl e
      | Inr None \<Rightarrow> Inr None
      | Inr (Some _) \<Rightarrow>
          (case anchors slog of
             Inl (AnchorUnreadable e) \<Rightarrow> Inr (Some (LogUnreadable e))
           | Inl e \<Rightarrow> Inl e
           | Inr s \<Rightarrow>
               (case dget s c of
                  None \<Rightarrow> Inr None
                | Some a \<Rightarrow> Inr (chain_verdict d c a))))"

definition anchor_report ::
  "anchor_exn + string option \<Rightarrow> plan_dir \<Rightarrow> file_access \<Rightarrow>
   anchor_exn + (string \<times> verdict option) list option" where
  "anchor_report sink d slog =
     (case sink of
        Inl e \<Rightarrow> Inl e
      | Inr None \<Rightarrow> Inr None
      | Inr (Some _) \<Rightarrow>
          (case anchors slog of
             Inl (AnchorUnreadable e) \<Rightarrow> Inr (Some [(SINK_VERDICT, Some (LogUnreadable e))])
           | Inl e \<Rightarrow> Inl e
           | Inr s \<Rightarrow> Inr (Some (map (\<lambda>(c, a). (c, chain_verdict d c a)) s))))"

subsection \<open>Anchors only rise\<close>

text \<open>Every anchor of the first set is kept or replaced by one of a higher sequence number.\<close>

definition anchor_le :: "anchor_set \<Rightarrow> anchor_set \<Rightarrow> bool" where
  "anchor_le s t =
     (\<forall>c i h. dget s c = Some (i, h) \<longrightarrow>
        (\<exists>j k. dget t c = Some (j, k) \<and> i \<le> j \<and> (i = j \<longrightarrow> h = k)))"

definition anchor_step :: "pydict \<Rightarrow> anchor_set \<Rightarrow> unit + anchor_set" where
  "anchor_step r s = Inr (add_anchor r s)"

lemma foldE_anchor_step: "foldE anchor_step rs s = Inr (fold add_anchor rs s)"
  by (induction rs arbitrary: s) (simp_all add: anchor_step_def)

lemma add_anchor_le: "anchor_le s (add_anchor r s)"
  by (auto simp: anchor_le_def add_anchor_def split: option.splits prod.splits)

interpretation anchor_ratchet: ratchet anchor_le "\<lambda>_. True" anchor_step
proof unfold_locales
  show "anchor_le s s" for s by (auto simp: anchor_le_def)
next
  fix r s t assume "anchor_le r s" "anchor_le s t"
  then show "anchor_le r t" unfolding anchor_le_def by fastforce
next
  fix s a t assume "anchor_step a s = Inr t"
  then show "anchor_le s t" using add_anchor_le by (auto simp: anchor_step_def)
qed simp_all

lemma more_records_le: "anchor_le (fold add_anchor rs []) (fold add_anchor (rs @ ss) [])"
proof -
  have "foldE anchor_step ss (fold add_anchor rs []) = Inr (fold add_anchor ss (fold add_anchor rs []))"
    by (rule foldE_anchor_step)
  from anchor_ratchet.run_le [OF _ this] show ?thesis by simp
qed

text \<open>What a pass does to the records of a log that ends in a complete line.\<close>

definition log_clean :: "file_access \<Rightarrow> bool" where
  "log_clean f = (case f of Some (Readable lf) \<Rightarrow> clean (Some lf) | _ \<Rightarrow> True)"

lemma json_records_content: "json_records (rows lf) = stream_records (Some lf)"
proof -
  have "json_records ls = json_records (filter (\<lambda>l. l \<noteq> Blank) ls)" for ls
    by (induction ls) (auto simp: json_records_def)
  then show ?thesis by (simp add: stream_records_def content_def json_records_def)
qed

lemma access_write_records:
  assumes "log_clean f" "anchor_records f = Inr rs"
  shows "log_clean (access_write (Json (PDict r)) f) \<and>
    anchor_records (access_write (Json (PDict r)) f) = Inr (rs @ [r])"
proof (cases f)
  case None
  with assms show ?thesis
    by (auto simp: access_write_def anchor_records_def log_clean_def json_records_def
        write_line_def empty_file_def clean_def)
next
  case (Some a)
  with assms(2) obtain lf where a: "a = Readable lf" "rs = json_records (rows lf)"
    by (cases a) (auto simp: anchor_records_def)
  with assms(1) Some have "clean (Some lf)" by (simp add: log_clean_def)
  then have "stream_records (Some (write_line (Json (PDict r)) lf)) = rs @ [r]"
    by (simp add: a(2) json_records_content stream_records_def content_write)
  with Some a show ?thesis
    by (simp add: access_write_def anchor_records_def log_clean_def json_records_content)
qed

lemma anchor_all_grows:
  assumes "log_clean f" "anchor_records f = Inr rs"
  shows "\<exists>ss. anchor_records (snd (anchor_all ok now known cfs (n, f))) = Inr (rs @ ss) \<and>
    log_clean (snd (anchor_all ok now known cfs (n, f)))"
  using assms
proof (induction cfs arbitrary: n f rs)
  case Nil
  then show ?case by simp
next
  case (Cons cf cfs)
  show ?case
  proof (cases "\<exists>i h. head_of (snd cf) = Some (i, h) \<and> should_anchor known (fst cf) i \<and> ok")
    case True
    then obtain i h where e: "head_of (snd cf) = Some (i, h)" "should_anchor known (fst cf) i" ok
      by blast
    define f' where "f' = access_write (anchor_line now (fst cf) i h) f"
    from access_write_records [OF Cons.prems] obtain r where
      "log_clean f'" "anchor_records f' = Inr (rs @ [r])"
      unfolding f'_def anchor_line_def by blast
    from Cons.IH [OF this, of "Suc n"] e show ?thesis
      by (auto simp: anchor_one_def f'_def)
  next
    case False
    then have "anchor_one ok now known cf (n, f) = ((n, f), True) \<or>
        anchor_one ok now known cf (n, f) = ((n, f), False)"
      by (auto simp: anchor_one_def split: option.split)
    with Cons.IH [OF Cons.prems, of n] Cons.prems show ?thesis
      by (auto intro: exI [of _ "[]"])
  qed
qed

lemma anchor_heads_grows:
  assumes "log_clean f" "anchor_records f = Inr rs"
  shows "\<exists>ss. anchor_records (snd (anchor_heads ok now sink d f)) = Inr (rs @ ss) \<and>
    log_clean (snd (anchor_heads ok now sink d f))"
  using assms anchor_all_grows [OF assms]
  by (auto simp: anchor_heads_def intro: exI [of _ "[]"] split: sum.split option.split)

text \<open>A pass under the configuration, the directory and the clock of its moment.\<close>

type_synonym anchor_pass = "bool \<times> string \<times> (anchor_exn + string option) \<times> plan_dir"

definition do_pass :: "anchor_pass \<Rightarrow> file_access \<Rightarrow> file_access" where
  "do_pass p f = (case p of (ok, now, sink, d) \<Rightarrow> snd (anchor_heads ok now sink d f))"

lemma passes_grow:
  "log_clean f \<Longrightarrow> anchor_records f = Inr rs \<Longrightarrow>
   \<exists>ss. anchor_records (fold do_pass ps f) = Inr (rs @ ss) \<and> log_clean (fold do_pass ps f)"
proof (induction ps arbitrary: f rs)
  case (Cons p ps)
  obtain ok now sink d where p: "p = (ok, now, sink, d)" by (cases p)
  from anchor_heads_grows [OF Cons.prems, of ok now sink d] obtain ss where
    "log_clean (do_pass p f)" "anchor_records (do_pass p f) = Inr (rs @ ss)"
    by (auto simp: do_pass_def p)
  from Cons.IH [OF this] show ?case by auto
qed simp

subsection \<open>What a clean verdict means\<close>

lemma verdict_None_split:
  "verdict_in rs i h = None \<Longrightarrow>
   \<exists>qs r ss. rs = qs @ r # ss \<and> py_eq (dgetN r ''seq'') (PInt i) \<and> dgetN r ''hash'' = PStr h"
proof (induction rs)
  case (Cons r rs)
  show ?case
  proof (cases "py_eq (dgetN r ''seq'') (PInt i)")
    case True
    with Cons.prems have "dgetN r ''hash'' = PStr h" by (simp split: if_splits)
    with True show ?thesis
      by (intro exI [of _ "[]"] exI [of _ r] exI [of _ rs] conjI) simp_all
  next
    case False
    with Cons obtain qs q ss where "rs = qs @ q # ss" "py_eq (dgetN q ''seq'') (PInt i)"
      "dgetN q ''hash'' = PStr h" by auto
    then show ?thesis by (intro exI [of _ "r # qs"]) auto
  qed
qed simp

lemma verdict_append: "verdict_in rs i h = None \<Longrightarrow> verdict_in (rs @ ss) i h = None"
  by (induction rs) auto

lemma chained_seq:
  "chained digest prev n rs \<Longrightarrow> k < length rs \<Longrightarrow> py_eq (dgetN (rs ! k) ''seq'') (PInt (int (n + k)))"
proof (induction rs arbitrary: prev n k)
  case (Cons r rs)
  show ?case
  proof (cases k)
    case 0
    with Cons.prems show ?thesis by simp
  next
    case (Suc m)
    with Cons.prems Cons.IH [of "record_hash digest r" "Suc n" m] show ?thesis by simp
  qed
qed simp

lemma verdict_chained:
  assumes "chained digest [] 0 ss" "verdict_in ss (int n) h = None"
  shows "n < length ss \<and> dgetN (ss ! n) ''hash'' = PStr h"
proof -
  obtain qs r rest where
    q: "ss = qs @ r # rest" "py_eq (dgetN r ''seq'') (PInt (int n))" "dgetN r ''hash'' = PStr h"
    using verdict_None_split [OF assms(2)] by blast
  from chained_seq [OF assms(1), of "length qs"] q(1) have
    "py_eq (dgetN r ''seq'') (PInt (int (length qs)))" by simp
  from py_eq_int_py_int [OF this] py_eq_int_py_int [OF q(2)] have "n = length qs" by simp
  with q show ?thesis by simp
qed

lemma head_of_intact:
  assumes "verify_chain_at digest (Some lf) = None" "head_of (Some (Readable lf)) = Some (i, h)"
  shows "\<exists>rs r. stream_records (Some lf) = rs @ [r] \<and> i = int (length rs) \<and>
    h = record_hash digest r \<and> chained digest [] 0 (rs @ [r])"
proof -
  from intact_records [OF assms(1)] have
    c: "content (Some lf) = json_lines (stream_records (Some lf))"
      "chained digest [] 0 (stream_records (Some lf))" by auto
  from tail_record_json [OF c(1)] assms(2) obtain rs r where
    r: "stream_records (Some lf) = rs @ [r]" "position r = Some (i, h)"
    by (cases "stream_records (Some lf)" rule: rev_cases) (auto simp: head_of_def)
  from r(2) have "dgetN r ''seq'' = PInt i" "dgetN r ''hash'' = PStr h"
    by (auto simp: position_def split: pyval.splits if_splits)
  with c(2) r(1) show ?thesis by (auto simp: chained_append)
qed

subsection \<open>Properties\<close>

text \<open>
  The anchor log ratchets: through any passes, under whatever configuration, directory
  contents and refused writes, the anchor of a chain never disappears, never falls, and at the
  same sequence number never changes its hash.
\<close>

lemma anchors_never_fall:
  assumes "log_clean f" "anchors f = Inr s"
  shows "\<exists>t. anchors (fold do_pass ps f) = Inr t \<and> anchor_le s t"
proof -
  from assms(2) obtain rs where rs: "anchor_records f = Inr rs" "s = fold add_anchor rs []"
    by (auto simp: anchors_def okE)
  from passes_grow [OF assms(1) rs(1), of ps] obtain ss where
    "anchor_records (fold do_pass ps f) = Inr (rs @ ss)" by blast
  then show ?thesis using rs(2) more_records_le [of rs ss] by (simp add: anchors_def)
qed

lemma anchors_never_fall_witness:
  "\<exists>t. anchors (fold do_pass
      [(True, ''t'', Inr (Some ''/worm''), \<lparr>audit_files = [], decision_files = [], host_file = None\<rparr>)]
      (Some (Readable \<lparr>rows = [anchor_line ''t'' ''p'' 3 ''aa''], closed = True\<rparr>))) = Inr t \<and>
    anchor_le [(''p'', 3, ''aa'')] t"
proof -
  have "log_clean (Some (Readable \<lparr>rows = [anchor_line ''t'' ''p'' 3 ''aa''], closed = True\<rparr>))"
    "anchors (Some (Readable \<lparr>rows = [anchor_line ''t'' ''p'' 3 ''aa''], closed = True\<rparr>)) =
      Inr [(''p'', 3, ''aa'')]"
    by code_simp+
  from anchors_never_fall [OF this] show ?thesis .
qed

text \<open>
  C27: What an anchor buys.  Take the head of an intact stream.  Any later intact stream that is
  clean against that anchor still holds every record up to the anchored one, field for field, or
  exhibits a collision of the hash function: a cut below the anchor or an edit at or below it is
  always reported by one of the two verifiers.
\<close>

theorem anchored_records_immutable:
  assumes "verify_chain_at digest (Some lf) = None" "head_of (Some (Readable lf)) = Some (i, h)"
    and "verify_chain_at digest (Some lf') = None"
    and "verdict_in (read_records (Some (Readable lf'))) i h = None"
  shows "map payload (stream_records (Some lf)) =
      map payload (take (length (stream_records (Some lf))) (stream_records (Some lf'))) \<or>
    collision digest (stream_records (Some lf)) (stream_records (Some lf'))"
proof -
  let ?ss = "stream_records (Some lf')"
  from head_of_intact [OF assms(1,2)] obtain rs r where
    r: "stream_records (Some lf) = rs @ [r]" "i = int (length rs)" "h = record_hash digest r"
      "chained digest [] 0 (rs @ [r])" by blast
  from intact_records [OF assms(3)] have ch: "chained digest [] 0 ?ss" ..
  have "read_records (Some (Readable lf')) = ?ss"
    by (simp add: read_records_def json_records_content)
  with assms(4) r(2) verdict_chained [OF ch] have
    n: "length rs < length ?ss" "dgetN (?ss ! length rs) ''hash'' = PStr h" by auto
  let ?n = "length rs"
  have t: "take (Suc ?n) ?ss = take ?n ?ss @ [?ss ! ?n]"
    using n(1) by (simp add: take_Suc_conv_app_nth)
  have c: "chained digest [] 0 (take ?n ?ss @ [?ss ! ?n])"
    using ch chained_append [of digest "[]" 0 "take (Suc ?n) ?ss" "drop (Suc ?n) ?ss"]
    by (simp only: append_take_drop_id t [symmetric]) blast
  then have "dgetN (?ss ! ?n) ''hash'' = PStr (record_hash digest (?ss ! ?n))"
    by (simp add: chained_append)
  with n(2) r(3) have e: "record_hash digest r = record_hash digest (?ss ! ?n)" by simp
  show ?thesis
  proof (cases "collision digest (rs @ [r]) (take ?n ?ss @ [?ss ! ?n])")
    case True
    moreover have "set (take ?n ?ss @ [?ss ! ?n]) \<subseteq> set ?ss"
      using n(1) by (auto dest: in_set_takeD)
    ultimately show ?thesis unfolding collision_def r(1) by blast
  next
    case False
    from chains_agree [OF r(4) c e False] show ?thesis using r(1) t by simp
  qed
qed

definition demo_file :: lines_file where
  "demo_file = created (do_append demo_digest (IoOk, no_request, ''t'', demo_entry) None)"

theorem anchored_records_immutable_witness:
  "map payload (stream_records (Some demo_file)) =
      map payload (take (length (stream_records (Some demo_file))) (stream_records (Some demo_file))) \<or>
    collision demo_digest (stream_records (Some demo_file)) (stream_records (Some demo_file))"
proof -
  have "verify_chain_at demo_digest (Some demo_file) = None"
    "head_of (Some (Readable demo_file)) = Some (0, ''aaaaaaaaaaa'')"
    "verdict_in (read_records (Some (Readable demo_file))) 0 ''aaaaaaaaaaa'' = None"
    by code_simp+
  from anchored_records_immutable [OF this(1,2,1,3)] show ?thesis .
qed

text \<open>
  No false alarm.  An anchor that an intact stream satisfies stays satisfied through any
  appends to it, audit records and decision records alike.
\<close>

lemma appends_keep_anchor:
  assumes "clean (Some lf)" "verify_chain_at digest (Some lf) = None"
    and "verdict_in (stream_records (Some lf)) i h = None"
  shows "verdict_in (stream_records (fold (do_append digest) calls (Some lf))) i h = None \<and>
    verdict_in (stream_records (fold (do_decide digest) decisions (Some lf))) i h = None"
proof -
  have s: "verdict_in (stream_records st) i h = None" if "content st = content (Some lf) @ ls" for st ls
    using that assms(3) verdict_append by (simp add: stream_records_def)
  show ?thesis
    using audit_stream.run_grows [OF assms(1,2), of calls]
      decision_stream.run_grows [OF assms(1,2), of decisions] s
    unfolding audit_stream.run_def decision_stream.run_def by blast
qed

lemma appends_keep_anchor_witness:
  "verdict_in (stream_records (fold (do_append demo_digest)
     [(IoOk, no_request, ''u'', demo_entry)] (Some demo_file))) 0 ''aaaaaaaaaaa'' = None"
proof -
  have "clean (Some demo_file)" "verify_chain_at demo_digest (Some demo_file) = None"
    "verdict_in (stream_records (Some demo_file)) 0 ''aaaaaaaaaaa'' = None"
    by code_simp+
  from appends_keep_anchor [OF this] show ?thesis by blast
qed

text \<open>
  Losing sight of the log fails closed: with an unreadable log every chain's verdict and the
  report name the log, and a pass records nothing.
\<close>

lemma unreadable_log_fails_closed:
  "verify_against_anchor (Inr (Some p)) d (Some (Unreadable e)) c = Inr (Some (LogUnreadable e)) \<and>
   anchor_report (Inr (Some p)) d (Some (Unreadable e)) =
     Inr (Some [(''*'', Some (LogUnreadable e))]) \<and>
   anchor_heads ok now (Inr (Some p)) d (Some (Unreadable e)) = (Inr 0, Some (Unreadable e))"
  by (simp add: verify_against_anchor_def anchor_report_def anchor_heads_def anchors_def
      anchor_records_def SINK_VERDICT_def)

text \<open>
  Two streams written by appends alone: the second is a rewritten history of the first, continued
  by one record.  Its head is above the anchor, so the next pass records it.
\<close>

definition chain_digest :: "pydict \<Rightarrow> string" where
  "chain_digest d = ''h'' @ the_str (dgetN d ''ts'') @ the_str (dgetN d ''prev_hash'')"

definition written :: "string list \<Rightarrow> lines_file" where
  "written stamps =
     created (fold (\<lambda>t. do_append chain_digest (IoOk, no_request, t, demo_entry)) stamps None)"

definition one_plan :: "lines_file \<Rightarrow> plan_dir" where
  "one_plan f =
     \<lparr>audit_files = [(''p'', Readable f)], decision_files = [], host_file = None\<rparr>"

definition a_log :: file_access where
  "a_log = snd (anchor_heads True ''t'' (Inr (Some ''/worm'')) (one_plan (written [''a'', ''b''])) None)"

text \<open>
  A tamper verdict is meant to stand until an operator intervenes.  It does not: a forger who
  rewrites an anchored record and the links after it, and lets the chain grow past the anchor, is
  reported once; the next pass anchors the forged head and the report is clean again.
\<close>

lemma forged_history_laundered:
  "verify_chain_at chain_digest (Some (written [''a'', ''b''])) = None \<and>
   verify_chain_at chain_digest (Some (written [''x'', ''y'', ''z''])) = None \<and>
   verify_against_anchor (Inr (Some ''/worm'')) (one_plan (written [''x'', ''y'', ''z''])) a_log ''p'' =
     Inr (Some (HashMismatch 1)) \<and>
   verify_against_anchor (Inr (Some ''/worm'')) (one_plan (written [''x'', ''y'', ''z'']))
     (do_pass (True, ''u'', Inr (Some ''/worm''), one_plan (written [''x'', ''y'', ''z''])) a_log) ''p'' =
     Inr None"
  by (intro conjI; code_simp)

definition host_dir :: plan_dir where
  "host_dir =
     \<lparr>audit_files = [(''host'', Readable (written [''a'', ''b'']))], decision_files = [],
      host_file = Some (Readable (written [''c'']))\<rparr>"

text \<open>
  The chain of a plan that is called "host" aliases the host stream: with both streams intact
  and nothing removed, the plan's head is anchored under the host chain's name and the report
  says the host stream was truncated.
\<close>

lemma plan_named_host_aliases:
  "verify_chain_at chain_digest (Some (written [''a'', ''b''])) = None \<and>
   verify_chain_at chain_digest (Some (written [''c''])) = None \<and>
   anchor_report (Inr (Some ''/worm'')) host_dir
     (do_pass (True, ''t'', Inr (Some ''/worm''), host_dir) None) =
   Inr (Some [(''host'', Some (Truncated 1))])"
  by (intro conjI; code_simp)

end
