(* ===== verification/RateLimit.thy ===== *)
theory RateLimit
  imports PyPrelude
begin

text \<open>
  \<open>src/pipeline/rate_limit.py\<close>: the token buckets of the remote gate, the bounded maps that hold
  them and the client address they are keyed on.  Times and tokens are rational numbers (the
  program's floats without their rounding); the clock is the argument \<open>now\<close>.  Parsing and
  printing addresses and the membership of an address in a network are the \<open>ipaddress\<close> library:
  arguments of \<open>client_ip\<close>.
\<close>

subsection \<open>Configuration\<close>

definition MAX_COUNT_DIGITS :: nat where
  "MAX_COUNT_DIGITS = 9"

definition WINDOW_SECONDS :: rat where
  "WINDOW_SECONDS = 60"

definition EVICT_SCAN_LIMIT :: nat where
  "EVICT_SCAN_LIMIT = 16"

definition decimal_value :: "string \<Rightarrow> nat" where
  "decimal_value s = foldl (\<lambda>n c. n * 10 + (of_char c - 48)) 0 s"

text \<open>\<open>None\<close> is the \<open>ValueError\<close> that names the variable.\<close>

definition parse_count :: "string \<Rightarrow> nat \<Rightarrow> env \<Rightarrow> bool \<Rightarrow> nat option" where
  "parse_count var dflt env allow_zero =
     (case dget env var of
        None \<Rightarrow> Some dflt
      | Some text \<Rightarrow>
          if text = [] \<or> \<not> list_all is_digit text \<or> length text > MAX_COUNT_DIGITS then None
          else if decimal_value text = 0 \<and> \<not> allow_zero then None
          else Some (decimal_value text))"

definition parse_trusted_proxies :: "(string \<Rightarrow> 'net option) \<Rightarrow> string option \<Rightarrow> 'net list option" where
  "parse_trusted_proxies network raw =
     (case raw of
        None \<Rightarrow> Some []
      | Some r \<Rightarrow>
          if strip r = [] then Some []
          else those (map (\<lambda>part. if strip part = [] then None else network (strip part))
                 (split_on CHR '','' (strip r))))"

subsection \<open>The client address\<close>

record scope =
  headers :: "(string \<times> string) list"
  client_host :: "string option"

definition header_values :: "scope \<Rightarrow> string \<Rightarrow> string list" where
  "header_values sc name =
     map snd (filter (\<lambda>h. map char_lower (fst h) = map char_lower name) (headers sc))"

definition peer_ip :: "scope \<Rightarrow> string" where
  "peer_ip sc = (case client_host sc of Some h \<Rightarrow> h | None \<Rightarrow> [])"

definition forwarded_hops :: "scope \<Rightarrow> string list" where
  "forwarded_hops sc =
     concat (map (\<lambda>v. filter (\<lambda>p. p \<noteq> []) (map strip (split_on CHR '','' v)))
       (header_values sc ''x-forwarded-for''))"

text \<open>The walk from the right: junk and trusted hops are skipped.\<close>

fun walk_hops ::
  "(string \<Rightarrow> 'ip option) \<Rightarrow> ('ip \<Rightarrow> bool) \<Rightarrow> ('ip \<Rightarrow> string) \<Rightarrow> string list \<Rightarrow> string option" where
  "walk_hops parse trusted show_ip [] = None"
| "walk_hops parse trusted show_ip (e # es) =
     (case parse e of
        None \<Rightarrow> walk_hops parse trusted show_ip es
      | Some a \<Rightarrow> if \<not> trusted a then Some (show_ip a) else walk_hops parse trusted show_ip es)"

definition client_ip ::
  "(string \<Rightarrow> 'ip option) \<Rightarrow> ('ip \<Rightarrow> 'net \<Rightarrow> bool) \<Rightarrow> ('ip \<Rightarrow> string) \<Rightarrow> scope \<Rightarrow> 'net list \<Rightarrow> string" where
  "client_ip parse in_net show_ip sc networks =
     (let peer = peer_ip sc; trusted = (\<lambda>a. list_ex (in_net a) networks) in
      if networks = [] then peer
      else case parse peer of
        None \<Rightarrow> peer
      | Some pa \<Rightarrow>
          if \<not> trusted pa then peer
          else case walk_hops parse trusted show_ip (rev (forwarded_hops sc)) of
            Some a \<Rightarrow> a
          | None \<Rightarrow> peer)"

subsection \<open>One bucket\<close>

record bucket =
  capacity :: rat
  window :: rat
  tokens :: rat
  last_at :: rat
  audited :: bool

definition rate :: "bucket \<Rightarrow> rat" where
  "rate b = (if window b \<noteq> 0 then capacity b / window b else 0)"

definition new_bucket :: "nat \<Rightarrow> rat \<Rightarrow> bucket" where
  "new_bucket cap now =
     \<lparr>capacity = of_nat cap, window = WINDOW_SECONDS, tokens = of_nat cap, last_at = now,
      audited = False\<rparr>"

definition credited :: "bucket \<Rightarrow> rat \<Rightarrow> rat" where
  "credited b now =
     (let elapsed = now - last_at b in
      if elapsed \<le> 0 then tokens b else min (capacity b) (tokens b + elapsed * rate b))"

definition refill :: "rat \<Rightarrow> bucket \<Rightarrow> bucket" where
  "refill now b =
     (let elapsed = now - last_at b in
      if elapsed \<le> 0 then b
      else
        let t = min (capacity b) (tokens b + elapsed * rate b) in
        b\<lparr>tokens := t, last_at := now, audited := (if t \<ge> capacity b then False else audited b)\<rparr>)"

text \<open>\<open>round(x, 9)\<close>: the nearest multiple of \<open>10^-9\<close>, ties to the even one.\<close>

definition round_half_even :: "rat \<Rightarrow> int" where
  "round_half_even x =
     (let n = \<lfloor>x\<rfloor>; d = x - of_int n in
      if d < 1 / 2 then n else if d > 1 / 2 then n + 1 else if even n then n else n + 1)"

definition round9 :: "rat \<Rightarrow> rat" where
  "round9 x = of_int (round_half_even (x * 1000000000)) / 1000000000"

definition retry_after :: "bucket \<Rightarrow> rat \<Rightarrow> int" where
  "retry_after b t =
     (let missing = 1 - t; seconds = (if rate b > 0 then missing / rate b else window b) in
      max 1 \<lceil>round9 seconds\<rceil>)"

definition decide :: "bucket \<Rightarrow> rat \<Rightarrow> bool \<times> int" where
  "decide b t = (if t \<ge> 1 then (True, 0) else (False, retry_after b t))"

definition peek :: "rat \<Rightarrow> bucket \<Rightarrow> bool \<times> int" where
  "peek now b = decide b (credited b now)"

definition consume :: "rat \<Rightarrow> bucket \<Rightarrow> (bool \<times> int) \<times> bucket" where
  "consume now b =
     (let b' = refill now b; r = decide b' (tokens b') in
      (r, if fst r then b'\<lparr>tokens := tokens b' - 1\<rparr> else b'))"

definition is_refilled :: "rat \<Rightarrow> bucket \<Rightarrow> bool" where
  "is_refilled now b = (credited b now \<ge> capacity b)"

definition mark_audited :: "bucket \<Rightarrow> bool \<times> bucket" where
  "mark_audited b = (if audited b then (False, b) else (True, b\<lparr>audited := True\<rparr>))"

subsection \<open>The bounded map\<close>

record bucket_set =
  bs_capacity :: nat
  max_entries :: nat
  buckets :: "(string \<times> bucket) list"
  saturated_audited :: bool

definition evict_refilled :: "rat \<Rightarrow> (string \<times> bucket) list \<Rightarrow> (string \<times> bucket) list" where
  "evict_refilled now bs =
     filter (\<lambda>kb. \<not> is_refilled now (snd kb)) (take EVICT_SCAN_LIMIT bs) @ drop EVICT_SCAN_LIMIT bs"

definition bucket_for :: "rat \<Rightarrow> string \<Rightarrow> bucket_set \<Rightarrow> bucket option \<times> bucket_set" where
  "bucket_for now key s =
     (case dget (buckets s) key of
        Some b \<Rightarrow> (Some b, s)
      | None \<Rightarrow>
          let bs = (if length (buckets s) \<ge> max_entries s then evict_refilled now (buckets s)
                    else buckets s) in
          if length bs \<ge> max_entries s then (None, s\<lparr>buckets := bs\<rparr>)
          else
            let b = new_bucket (bs_capacity s) now in
            (Some b, s\<lparr>buckets := bs @ [(key, b)], saturated_audited := False\<rparr>))"

definition put_bucket :: "string \<Rightarrow> bucket \<Rightarrow> bucket_set \<Rightarrow> bucket_set" where
  "put_bucket key b s = s\<lparr>buckets := dset key b (buckets s)\<rparr>"

definition note_saturated :: "bucket_set \<Rightarrow> bool \<times> bucket_set" where
  "note_saturated s =
     (if saturated_audited s then (False, s) else (True, s\<lparr>saturated_audited := True\<rparr>))"

subsection \<open>The limiter\<close>

record decision =
  allowed :: bool
  retry :: int
  audit_key :: "string option"

definition admit :: decision where
  "admit = \<lparr>allowed = True, retry = 0, audit_key = None\<rparr>"

record limiter =
  failed_auth :: bucket_set
  requests :: bucket_set

definition new_limiter :: "nat \<Rightarrow> nat \<Rightarrow> nat \<Rightarrow> limiter" where
  "new_limiter fails reqs bound =
     \<lparr>failed_auth = \<lparr>bs_capacity = fails, max_entries = bound, buckets = [], saturated_audited = False\<rparr>,
      requests = \<lparr>bs_capacity = reqs, max_entries = bound, buckets = [], saturated_audited = False\<rparr>\<rparr>"

definition peek_failed_auth :: "rat \<Rightarrow> string \<Rightarrow> limiter \<Rightarrow> decision" where
  "peek_failed_auth now client l =
     (if bs_capacity (failed_auth l) = 0 then admit
      else case dget (buckets (failed_auth l)) client of
        None \<Rightarrow> admit
      | Some b \<Rightarrow> \<lparr>allowed = fst (peek now b), retry = snd (peek now b), audit_key = None\<rparr>)"

definition record_failed_auth :: "rat \<Rightarrow> string \<Rightarrow> limiter \<Rightarrow> decision \<times> limiter" where
  "record_failed_auth now client l =
     (if bs_capacity (failed_auth l) = 0 then (admit, l)
      else case bucket_for now client (failed_auth l) of
        (None, s) \<Rightarrow> (admit, l\<lparr>failed_auth := s\<rparr>)
      | (Some b, s) \<Rightarrow>
          (case consume now b of
             ((ok, ra), b') \<Rightarrow>
               (\<lparr>allowed = ok, retry = ra, audit_key = None\<rparr>,
                l\<lparr>failed_auth := put_bucket client b' s\<rparr>)))"

definition note_rejection :: "string \<Rightarrow> limiter \<Rightarrow> bool \<times> limiter" where
  "note_rejection client l =
     (if bs_capacity (failed_auth l) = 0 then (False, l)
      else case dget (buckets (failed_auth l)) client of
        None \<Rightarrow> (False, l)
      | Some b \<Rightarrow>
          (case mark_audited b of
             (first, b') \<Rightarrow> (first, l\<lparr>failed_auth := put_bucket client b' (failed_auth l)\<rparr>)))"

definition check_request :: "rat \<Rightarrow> string \<Rightarrow> limiter \<Rightarrow> decision \<times> limiter" where
  "check_request now sub l =
     (if bs_capacity (requests l) = 0 then (admit, l)
      else case bucket_for now sub (requests l) of
        (None, s) \<Rightarrow> (admit, l\<lparr>requests := snd (note_saturated s)\<rparr>)
      | (Some b, s) \<Rightarrow>
          (case consume now b of
             ((ok, ra), b') \<Rightarrow>
               let (first, b'') = (if ok then (False, b') else mark_audited b') in
               (\<lparr>allowed = ok, retry = ra, audit_key = (if first then Some sub else None)\<rparr>,
                l\<lparr>requests := put_bucket sub b'' s\<rparr>)))"

subsection \<open>Lemmas on one bucket\<close>

text \<open>The bucket the limiter makes, and what it stays.\<close>

definition bucket_ok :: "bucket \<Rightarrow> bool" where
  "bucket_ok b =
     (0 \<le> capacity b \<and> window b = WINDOW_SECONDS \<and> 0 \<le> tokens b \<and> tokens b \<le> capacity b)"

lemma new_bucket_ok [simp]: "bucket_ok (new_bucket cap now)"
  by (simp add: bucket_ok_def new_bucket_def)

lemma rate_nonneg: "bucket_ok b \<Longrightarrow> 0 \<le> rate b"
  by (simp add: bucket_ok_def rate_def WINDOW_SECONDS_def)

lemma rate_60: "bucket_ok b \<Longrightarrow> rate b = capacity b / 60"
  by (simp add: bucket_ok_def rate_def WINDOW_SECONDS_def)

lemma refill_fields [simp]:
  "tokens (refill now b) = credited b now"
  "capacity (refill now b) = capacity b"
  "window (refill now b) = window b"
  "last_at (refill now b) = max (last_at b) now"
  "rate (refill now b) = rate b"
  by (simp_all add: refill_def credited_def rate_def Let_def)

lemma credited_ok:
  assumes "bucket_ok b"
  shows "0 \<le> credited b now \<and> credited b now \<le> capacity b \<and> tokens b \<le> credited b now"
proof (cases "now - last_at b \<le> 0")
  case True
  with assms show ?thesis by (simp add: credited_def bucket_ok_def)
next
  case False
  with rate_nonneg [OF assms] have "0 \<le> (now - last_at b) * rate b" by simp
  with False assms show ?thesis by (simp add: credited_def bucket_ok_def Let_def)
qed

lemma refill_ok: "bucket_ok b \<Longrightarrow> bucket_ok (refill now b)"
  using credited_ok [of b now] by (simp add: bucket_ok_def)

lemma consume_fields:
  "fst (consume now b) = decide (refill now b) (credited b now)"
  "capacity (snd (consume now b)) = capacity b"
  "window (snd (consume now b)) = window b"
  "last_at (snd (consume now b)) = max (last_at b) now"
  "tokens (snd (consume now b)) =
     (if fst (fst (consume now b)) then credited b now - 1 else credited b now)"
  by (simp_all add: consume_def Let_def)

lemma consume_ok: "bucket_ok b \<Longrightarrow> bucket_ok (snd (consume now b))"
  using credited_ok [of b now]
  by (auto simp: bucket_ok_def consume_fields decide_def split: if_splits)

lemma accepted_iff: "fst (fst (consume now b)) \<longleftrightarrow> 1 \<le> credited b now"
  by (simp add: consume_fields decide_def)

text \<open>How many of a run of attempts a bucket accepts, and what it answers.\<close>

fun answers :: "rat list \<Rightarrow> bucket \<Rightarrow> (bool \<times> int) list" where
  "answers [] b = []"
| "answers (t # ts) b = fst (consume t b) # answers ts (snd (consume t b))"

definition accepted :: "rat list \<Rightarrow> bucket \<Rightarrow> nat" where
  "accepted ts b = length (filter fst (answers ts b))"

lemma credited_bound:
  assumes "bucket_ok b"
  shows "credited b now \<le> tokens b + rate b * (max (last_at b) now - last_at b)"
proof (cases "now - last_at b \<le> 0")
  case True
  then show ?thesis by (simp add: credited_def max_def)
next
  case False
  then show ?thesis by (simp add: credited_def max_def mult.commute Let_def)
qed

lemma accepted_bound:
  assumes "bucket_ok b" "last_at b \<le> T" "list_all (\<lambda>t. t \<le> T) ts"
  shows "of_nat (accepted ts b) \<le> tokens b + rate b * (T - last_at b)"
  using assms
proof (induction ts arbitrary: b)
  case Nil
  then have "0 \<le> tokens b" "0 \<le> rate b * (T - last_at b)"
    using rate_nonneg [of b] by (auto simp: bucket_ok_def)
  then show ?case by (simp add: accepted_def)
next
  case (Cons t ts)
  let ?b = "snd (consume t b)"
  have r: "rate ?b = rate b" by (simp add: rate_def consume_fields)
  have "of_nat (accepted ts ?b) \<le> tokens ?b + rate ?b * (T - last_at ?b)"
    using Cons.prems by (intro Cons.IH consume_ok) (auto simp: consume_fields)
  moreover have "of_nat (accepted (t # ts) b) =
      (if fst (fst (consume t b)) then 1 else 0 :: rat) + of_nat (accepted ts ?b)"
    by (simp add: accepted_def)
  moreover have "tokens ?b = credited b t - (if fst (fst (consume t b)) then 1 else 0)"
    by (simp add: consume_fields(5))
  moreover have "rate b * (T - last_at ?b) =
      rate b * (T - last_at b) - rate b * (max (last_at b) t - last_at b)"
    by (simp add: consume_fields(4) algebra_simps)
  ultimately show ?case using credited_bound [OF Cons.prems(1), of t] r by simp
qed

lemma round_half_even_le: "x - 1 / 2 \<le> of_int (round_half_even x)"
proof -
  have "of_int \<lfloor>x\<rfloor> \<le> x" "x < of_int \<lfloor>x\<rfloor> + 1" by linarith+
  then show ?thesis by (auto simp: round_half_even_def Let_def)
qed

lemma round9_le: "x - 1 / 2000000000 \<le> round9 x"
  using round_half_even_le [of "x * 1000000000"] by (simp add: round9_def field_simps)

lemma retry_enough:
  assumes "0 < rate b"
  shows "(1 - t) / rate b \<le> of_int (retry_after b t) + 1 / 1000000000"
proof -
  have "(1 - t) / rate b - 1 / 2000000000 \<le> round9 ((1 - t) / rate b)" by (rule round9_le)
  also have "\<dots> \<le> of_int \<lceil>round9 ((1 - t) / rate b)\<rceil>" by (rule le_of_int_ceiling)
  also have "\<dots> \<le> of_int (retry_after b t)" using assms by (simp add: retry_after_def Let_def)
  finally show ?thesis by simp
qed

text \<open>Two buckets that have seen the same last attempt answer alike, whatever was audited.\<close>

lemma answers_same:
  assumes "capacity b = capacity c" "window b = window c" "tokens b = tokens c" "last_at b = last_at c"
  shows "answers ts b = answers ts c"
  using assms
proof (induction ts arbitrary: b c)
  case (Cons t ts)
  then have "credited b t = credited c t" "rate b = rate c" by (simp_all add: credited_def rate_def)
  with Cons.prems have f: "fst (consume t b) = fst (consume t c)"
    by (simp add: consume_fields(1) decide_def retry_after_def)
  with Cons.prems \<open>credited b t = credited c t\<close> have
    "answers ts (snd (consume t b)) = answers ts (snd (consume t c))"
    by (intro Cons.IH) (simp_all add: consume_fields(2-5))
  with f show ?case by simp
qed simp

subsection \<open>Lemmas on the map\<close>

definition set_ok :: "bucket_set \<Rightarrow> bool" where
  "set_ok s = (wf_dict (buckets s) \<and> length (buckets s) \<le> max_entries s)"

lemma wf_evict: "wf_dict bs \<Longrightarrow> wf_dict (evict_refilled now bs)"
proof -
  assume "wf_dict bs"
  then have "distinct (dkeys (take EVICT_SCAN_LIMIT bs) @ dkeys (drop EVICT_SCAN_LIMIT bs))"
    by (metis append_take_drop_id dkeys_def map_append wf_dict_def)
  then show ?thesis
    by (auto simp: wf_dict_def evict_refilled_def dkeys_def distinct_map_filter)
qed

lemma length_evict: "length (evict_refilled now bs) \<le> length bs"
proof -
  have "length (filter P xs) \<le> length xs" for P and xs :: "(string \<times> bucket) list"
    by (rule length_filter_le)
  from this [of _ "take EVICT_SCAN_LIMIT bs"] show ?thesis
    unfolding evict_refilled_def by (metis (no_types, lifting) add_le_mono1 append_take_drop_id length_append)
qed

lemma dget_evict:
  assumes "wf_dict bs" "dget (evict_refilled now bs) k = Some b"
  shows "dget bs k = Some b"
proof -
  from assms(2) have "(k, b) \<in> set (evict_refilled now bs)" by (rule dget_Some_in)
  then have "(k, b) \<in> set bs" by (auto simp: evict_refilled_def dest: in_set_takeD in_set_dropD)
  with assms(1) show ?thesis by (rule dget_in)
qed

lemma evict_dget:
  assumes "wf_dict bs" "dget bs k = Some b" "dget (evict_refilled now bs) k \<noteq> Some b"
  shows "dget (evict_refilled now bs) k = None \<and> is_refilled now b"
proof -
  from assms(2) have "(k, b) \<in> set bs" by (rule dget_Some_in)
  then have "(k, b) \<in> set (take EVICT_SCAN_LIMIT bs) \<or> (k, b) \<in> set (drop EVICT_SCAN_LIMIT bs)"
    by (metis Un_iff append_take_drop_id set_append)
  moreover have "(k, b) \<notin> set (evict_refilled now bs)"
    using assms(3) dget_in [OF wf_evict [OF assms(1)]] by blast
  moreover have "dget (evict_refilled now bs) k = None"
    using assms dget_evict by (cases "dget (evict_refilled now bs) k") fastforce+
  ultimately show ?thesis by (auto simp: evict_refilled_def)
qed

text \<open>Taking a bucket for one key: the bound stays, and other keys keep their bucket or lose it.\<close>

lemma bucket_for_spec:
  assumes "set_ok s" "bucket_for now key s = (r, s')"
  shows "set_ok s' \<and> bs_capacity s' = bs_capacity s \<and>
    (\<forall>k. k \<noteq> key \<longrightarrow> dget (buckets s') k \<in> {dget (buckets s) k, None}) \<and>
    (case r of
       Some b \<Rightarrow> dget (buckets s') key = Some b \<and>
         (dget (buckets s) key = Some b \<or>
          (dget (buckets s) key = None \<and> b = new_bucket (bs_capacity s) now))
     | None \<Rightarrow> dget (buckets s) key = None)"
proof (cases "dget (buckets s) key")
  case (Some b)
  with assms(2) have "r = Some b" "s' = s" by (auto simp: bucket_for_def)
  with assms(1) Some show ?thesis by simp
next
  case None
  define bs where "bs = (if length (buckets s) \<ge> max_entries s then evict_refilled now (buckets s)
      else buckets s)"
  from assms(1) have wf: "wf_dict bs" "length bs \<le> max_entries s"
    using wf_evict length_evict [of now "buckets s"]
    by (auto simp: bs_def set_ok_def intro: le_trans)
  have same: "dget bs k \<in> {dget (buckets s) k, None}" for k
    using assms(1) dget_evict evict_dget
    by (cases "dget bs k") (auto simp: bs_def set_ok_def split: if_splits)
  from same [of key] None have n: "dget bs key = None" by simp
  show ?thesis
  proof (cases "length bs \<ge> max_entries s")
    case True
    with assms(2) None have "r = None" "s' = s\<lparr>buckets := bs\<rparr>"
      by (auto simp: bucket_for_def bs_def [symmetric] Let_def)
    with wf same None show ?thesis by (simp add: set_ok_def)
  next
    case False
    with assms(2) None have r: "r = Some (new_bucket (bs_capacity s) now)"
      "s' = s\<lparr>buckets := bs @ [(key, new_bucket (bs_capacity s) now)], saturated_audited := False\<rparr>"
      by (auto simp: bucket_for_def bs_def [symmetric] Let_def)
    have "bs @ [(key, new_bucket (bs_capacity s) now)] = dset key (new_bucket (bs_capacity s) now) bs"
      using n by (simp add: dset_new)
    with r wf n False same None show ?thesis by (auto simp: set_ok_def length_dset_new)
  qed
qed

lemma put_bucket_spec:
  assumes "set_ok s" "dget (buckets s) key \<noteq> None"
  shows "set_ok (put_bucket key b s)"
  using assms by (auto simp: set_ok_def put_bucket_def length_dset_old)

lemma put_bucket_simps [simp]:
  "bs_capacity (put_bucket key b s) = bs_capacity s"
  "max_entries (put_bucket key b s) = max_entries s"
  "dget (buckets (put_bucket key b s)) k = (if k = key then Some b else dget (buckets s) k)"
  by (simp_all add: put_bucket_def)

text \<open>One call on the limiter.\<close>

datatype limiter_op =
    FailedAuth rat string
  | Rejected string
  | Request rat string

definition limiter_step :: "limiter_op \<Rightarrow> limiter \<Rightarrow> limiter" where
  "limiter_step op l =
     (case op of
        FailedAuth now c \<Rightarrow> snd (record_failed_auth now c l)
      | Rejected c \<Rightarrow> snd (note_rejection c l)
      | Request now sub \<Rightarrow> snd (check_request now sub l))"

fun fails_key :: "limiter_op \<Rightarrow> string option" where
  "fails_key (FailedAuth now c) = Some c"
| "fails_key (Rejected c) = Some c"
| "fails_key (Request now sub) = None"

fun request_key :: "limiter_op \<Rightarrow> string option" where
  "request_key (Request now sub) = Some sub"
| "request_key _ = None"

definition limiter_ok :: "limiter \<Rightarrow> bool" where
  "limiter_ok l = (set_ok (failed_auth l) \<and> set_ok (requests l))"

text \<open>A step keeps one map as it is up to the step's own key, and may drop keys.\<close>

definition tamed :: "string option \<Rightarrow> bucket_set \<Rightarrow> bucket_set \<Rightarrow> bool" where
  "tamed key s t =
     (set_ok t \<and> bs_capacity t = bs_capacity s \<and>
      (\<forall>k. Some k \<noteq> key \<longrightarrow> dget (buckets t) k \<in> {dget (buckets s) k, None}))"

lemma tamed_refl: "set_ok s \<Longrightarrow> tamed key s s"
  by (simp add: tamed_def)

lemma tamed_bucket_for:
  assumes "set_ok s" "bucket_for now key s = (r, t)"
  shows "tamed (Some key) s t"
  using bucket_for_spec [OF assms] by (auto simp: tamed_def)

lemma tamed_put:
  assumes "set_ok s" "bucket_for now key s = (Some b, t)"
  shows "tamed (Some key) s (put_bucket key b' t)"
proof -
  from bucket_for_spec [OF assms] have "set_ok (put_bucket key b' t)"
    by (intro put_bucket_spec) auto
  with bucket_for_spec [OF assms] show ?thesis by (auto simp: tamed_def)
qed

lemma record_failed_auth_tamed:
  assumes "limiter_ok l"
  shows "tamed (Some c) (failed_auth l) (failed_auth (snd (record_failed_auth now c l))) \<and>
    requests (snd (record_failed_auth now c l)) = requests l"
proof -
  from assms have s: "set_ok (failed_auth l)" by (simp add: limiter_ok_def)
  obtain r t where b: "bucket_for now c (failed_auth l) = (r, t)" by fastforce
  show ?thesis
    using tamed_bucket_for [OF s b] tamed_put [OF s] tamed_refl [OF s] b
    by (cases r) (auto simp: record_failed_auth_def split: prod.splits)
qed

lemma note_rejection_tamed:
  assumes "limiter_ok l"
  shows "tamed (Some c) (failed_auth l) (failed_auth (snd (note_rejection c l))) \<and>
    requests (snd (note_rejection c l)) = requests l"
proof -
  from assms have s: "set_ok (failed_auth l)" by (simp add: limiter_ok_def)
  have "tamed (Some c) (failed_auth l) (put_bucket c b (failed_auth l))"
    if "dget (buckets (failed_auth l)) c \<noteq> None" for b
    using put_bucket_spec [OF s that] by (simp add: tamed_def)
  then show ?thesis
    using tamed_refl [OF s] by (auto simp: note_rejection_def split: option.splits prod.splits)
qed

lemma check_request_tamed:
  assumes "limiter_ok l"
  shows "tamed (Some sub) (requests l) (requests (snd (check_request now sub l))) \<and>
    failed_auth (snd (check_request now sub l)) = failed_auth l"
proof -
  from assms have s: "set_ok (requests l)" by (simp add: limiter_ok_def)
  obtain r t where b: "bucket_for now sub (requests l) = (r, t)" by fastforce
  have "tamed (Some sub) (requests l) (snd (note_saturated t))"
    using tamed_bucket_for [OF s b] by (auto simp: tamed_def note_saturated_def set_ok_def)
  then show ?thesis
    using tamed_put [OF s] tamed_refl [OF s] b
    by (cases r) (auto simp: check_request_def Let_def split: prod.splits)
qed

lemma limiter_step_tamed:
  assumes "limiter_ok l"
  shows "limiter_ok (limiter_step op l) \<and>
    tamed (fails_key op) (failed_auth l) (failed_auth (limiter_step op l)) \<and>
    tamed (request_key op) (requests l) (requests (limiter_step op l))"
proof (cases op)
  case (FailedAuth now c)
  with assms record_failed_auth_tamed [OF assms, of c now] show ?thesis
    by (auto simp: limiter_step_def limiter_ok_def tamed_def)
next
  case (Rejected c)
  with assms note_rejection_tamed [OF assms, of c] show ?thesis
    by (auto simp: limiter_step_def limiter_ok_def tamed_def)
next
  case (Request now sub)
  with assms check_request_tamed [OF assms, of sub now] show ?thesis
    by (auto simp: limiter_step_def limiter_ok_def tamed_def)
qed

lemma peek_failed_auth_allowed:
  "allowed (peek_failed_auth now c l) \<longleftrightarrow>
     bs_capacity (failed_auth l) = 0 \<or>
     (case dget (buckets (failed_auth l)) c of None \<Rightarrow> True | Some b \<Rightarrow> 1 \<le> credited b now)"
  by (auto simp: peek_failed_auth_def admit_def peek_def decide_def split: option.split)

lemma check_request_allowed:
  assumes "limiter_ok l"
  shows "allowed (fst (check_request now sub l)) \<longleftrightarrow>
     bs_capacity (requests l) = 0 \<or>
     (case dget (buckets (requests l)) sub of None \<Rightarrow> True | Some b \<Rightarrow> 1 \<le> credited b now)"
proof (cases "bs_capacity (requests l) = 0")
  case True
  then show ?thesis by (simp add: check_request_def admit_def)
next
  case False
  obtain r t where b: "bucket_for now sub (requests l) = (r, t)" by fastforce
  from assms have s: "set_ok (requests l)" by (simp add: limiter_ok_def)
  have fresh: "1 \<le> credited (new_bucket (bs_capacity (requests l)) now) now"
    using False by (simp add: credited_def new_bucket_def)
  show ?thesis
  proof (cases r)
    case None
    with b False bucket_for_spec [OF s b] show ?thesis by (simp add: check_request_def admit_def)
  next
    case (Some bk)
    have "allowed (fst (check_request now sub l)) = fst (fst (consume now bk))"
      using Some b False by (simp add: check_request_def Let_def split: prod.split)
    with Some fresh bucket_for_spec [OF s b] False show ?thesis by (auto simp: accepted_iff)
  qed
qed

lemma isolated:
  assumes "limiter_ok l"
    and "list_all (\<lambda>op. fails_key op \<noteq> Some c \<and> request_key op \<noteq> Some sub) ops"
  shows "limiter_ok (fold limiter_step ops l) \<and>
    (allowed (peek_failed_auth now c l) \<longrightarrow> allowed (peek_failed_auth now c (fold limiter_step ops l))) \<and>
    (allowed (fst (check_request now sub l)) \<longrightarrow>
     allowed (fst (check_request now sub (fold limiter_step ops l))))"
  using assms
proof (induction ops arbitrary: l)
  case (Cons op ops)
  let ?l = "limiter_step op l"
  from limiter_step_tamed [OF Cons.prems(1), of op] have t: "limiter_ok ?l"
    "tamed (fails_key op) (failed_auth l) (failed_auth ?l)"
    "tamed (request_key op) (requests l) (requests ?l)" by auto
  from Cons.prems(2) have k: "Some c \<noteq> fails_key op" "Some sub \<noteq> request_key op" by auto
  from t(2) k(1) have "dget (buckets (failed_auth ?l)) c \<in> {dget (buckets (failed_auth l)) c, None}"
    "bs_capacity (failed_auth ?l) = bs_capacity (failed_auth l)" by (auto simp: tamed_def)
  then have "allowed (peek_failed_auth now c l) \<Longrightarrow> allowed (peek_failed_auth now c ?l)"
    by (auto simp: peek_failed_auth_allowed split: option.splits)
  moreover from t(3) k(2) have
    "dget (buckets (requests ?l)) sub \<in> {dget (buckets (requests l)) sub, None}"
    "bs_capacity (requests ?l) = bs_capacity (requests l)" by (auto simp: tamed_def)
  then have "allowed (fst (check_request now sub l)) \<Longrightarrow> allowed (fst (check_request now sub ?l))"
    using check_request_allowed [OF Cons.prems(1)] check_request_allowed [OF t(1)]
    by (auto split: option.splits)
  ultimately show ?case using Cons.IH [OF t(1)] Cons.prems(2) by auto
qed (simp add: assms(1))

subsection \<open>Properties\<close>

text \<open>
  C31: The rate limit holds: whatever the order of the clock readings, jumps backwards included,
  a bucket accepts between its creation and time \<open>T\<close> at most its capacity plus what a minute's
  rate credits in that time.
\<close>

theorem token_bucket_bound:
  assumes "t0 \<le> T" "list_all (\<lambda>t. t \<le> T) ts"
  shows "of_nat (accepted ts (new_bucket cap t0)) \<le> of_nat cap + of_nat cap / 60 * (T - t0)"
  using accepted_bound [of "new_bucket cap t0" T ts] assms
  by (simp add: rate_60) (simp add: new_bucket_def)

theorem token_bucket_bound_witness:
  "of_nat (accepted [0, 0, 0, 40, 0] (new_bucket 2 0)) \<le> (2 :: rat) + 2 / 60 * (40 - 0)"
  using token_bucket_bound [of 0 40 "[0, 0, 0, 40, 0]" 2] by simp

text \<open>
  A refused client is told the truth: coming back after the announced seconds (and the
  nanosecond the rounding may cost) it is accepted, if nobody used its bucket meanwhile.
\<close>

lemma retry_after_suffices:
  assumes "bucket_ok b" "1 \<le> capacity b" "consume now b = ((False, r), b')"
  shows "fst (fst (consume (last_at b' + of_int r + 1 / 1000000000) b'))"
proof -
  let ?t = "last_at b' + of_int r + 1 / 1000000000"
  have b': "b' = snd (consume now b)" using assms(3) by simp
  from assms(1) have ok: "bucket_ok b'" unfolding b' by (rule consume_ok)
  have rate: "rate b' = rate b" "capacity b' = capacity b"
    unfolding b' by (simp_all add: rate_def consume_fields)
  from rate_60 [OF assms(1)] assms(2) have pos: "0 < rate b" by simp
  have no: "\<not> fst (fst (consume now b))" by (simp only: assms(3) fst_conv not_False_eq_True)
  have tok: "tokens b' = credited b now" using no by (simp add: b' consume_fields(5))
  from assms(3) have r: "r = retry_after (refill now b) (credited b now)"
    by (metis consume_fields(1) decide_def fst_conv prod.inject)
  have "(1 - tokens b') / rate b \<le> of_int r + 1 / 1000000000"
    using retry_enough [of "refill now b" "credited b now"] pos by (simp add: r tok)
  then have "1 - tokens b' \<le> (of_int r + 1 / 1000000000) * rate b"
    using pos by (simp add: pos_divide_le_eq)
  moreover have "1 \<le> r" by (simp add: r retry_after_def Let_def)
  ultimately have "1 \<le> credited b' ?t"
    using assms(2) rate by (simp add: credited_def Let_def)
  then show ?thesis by (simp add: accepted_iff)
qed

definition demo_bucket :: bucket where
  "demo_bucket = \<lparr>capacity = 10, window = WINDOW_SECONDS, tokens = 0, last_at = 0, audited = False\<rparr>"

lemma retry_after_suffices_witness:
  "fst (fst (consume (1 + of_int 5 + 1 / 1000000000) (snd (consume 1 demo_bucket))))"
proof -
  have "bucket_ok demo_bucket" "1 \<le> capacity demo_bucket"
    by (simp_all add: demo_bucket_def bucket_ok_def WINDOW_SECONDS_def)
  moreover have "consume 1 demo_bucket = ((False, 5), snd (consume 1 demo_bucket))"
    "last_at (snd (consume 1 demo_bucket)) = 1"
    by code_simp+
  ultimately show ?thesis
    using retry_after_suffices [of demo_bucket 1 5 "snd (consume 1 demo_bucket)"] by simp
qed

text \<open>
  Evicting a refilled bucket costs nothing: from then on, at any later times, it would have
  answered exactly like the fresh bucket the key gets instead.
\<close>

lemma evicted_like_fresh:
  assumes "bucket_ok b" "capacity b = of_nat cap" "last_at b \<le> now" "is_refilled now b"
    and "list_all (\<lambda>t. now \<le> t) ts"
  shows "answers ts b = answers ts (new_bucket cap now)"
proof (cases ts)
  case (Cons t rest)
  let ?f = "new_bucket cap now"
  have f: "capacity ?f = capacity b" "window ?f = window b" "tokens ?f = capacity b" "last_at ?f = now"
    using assms(1,2) by (simp_all add: new_bucket_def bucket_ok_def)
  have rf: "rate b = rate ?f" by (simp add: rate_def f)
  have t: "now \<le> t" using assms(5) Cons by simp
  have "0 \<le> (t - now) * rate ?f" using t rate_nonneg [of ?f] by simp
  then have "credited ?f t = capacity b"
    by (simp add: credited_def f Let_def min_def)
  moreover have "credited b t = capacity b"
  proof (cases "last_at b = t")
    case True
    with t assms(3) have "now = t" by simp
    with assms(4) credited_ok [OF assms(1), of now] show ?thesis by (simp add: is_refilled_def)
  next
    case False
    have full: "capacity b \<le> credited b now" using assms(4) by (simp add: is_refilled_def)
    show ?thesis
    proof (cases "last_at b = now")
      case True
      with full have "capacity b \<le> tokens b" by (simp add: credited_def)
      moreover have "0 \<le> (t - last_at b) * rate b"
        using True t rate_nonneg [OF assms(1)] by simp
      ultimately have "capacity b \<le> tokens b + (t - last_at b) * rate b" by linarith
      with False t True show ?thesis by (simp add: credited_def Let_def min_def)
    next
      case lt: False
      with full assms(3) have "capacity b \<le> tokens b + (now - last_at b) * rate b"
        by (simp add: credited_def Let_def)
      also have "\<dots> \<le> tokens b + (t - last_at b) * rate b"
        using t rate_nonneg [OF assms(1)] by (simp add: mult_right_mono)
      finally show ?thesis using lt t assms(3) by (simp add: credited_def Let_def min_def)
    qed
  qed
  ultimately have c: "credited b t = credited ?f t" by simp
  then have a: "fst (consume t b) = fst (consume t ?f)"
    by (simp add: consume_fields(1) decide_def retry_after_def rf f)
  have "max (last_at b) t = max (last_at ?f) t" using t assms(3) f by simp
  with c a f have "answers rest (snd (consume t b)) = answers rest (snd (consume t ?f))"
    by (intro answers_same) (simp_all add: consume_fields(2-5))
  with a Cons show ?thesis by simp
qed simp

lemma evicted_like_fresh_witness:
  "answers [70, 75] demo_bucket = answers [70, 75] (new_bucket 10 60)"
proof -
  have "bucket_ok demo_bucket" "capacity demo_bucket = of_nat 10" "last_at demo_bucket \<le> 60"
    "is_refilled 60 demo_bucket" "list_all (\<lambda>t. 60 \<le> t) [70, 75 :: rat]"
    by (simp_all add: demo_bucket_def bucket_ok_def WINDOW_SECONDS_def is_refilled_def credited_def
        rate_def)
  from evicted_like_fresh [OF this] show ?thesis .
qed

text \<open>
  No neighbour can lock a client out, and the maps stay bounded: whatever failed
  authentications, rejections and requests of others hit the limiter, a client that would have
  been let in still is, and no map grows beyond its bound.
\<close>

lemma neighbours_never_throttled:
  assumes "limiter_ok l"
    and "list_all (\<lambda>op. fails_key op \<noteq> Some c \<and> request_key op \<noteq> Some sub) ops"
    and "allowed (peek_failed_auth now c l)" "allowed (fst (check_request now sub l))"
  shows "allowed (peek_failed_auth now c (fold limiter_step ops l)) \<and>
    allowed (fst (check_request now sub (fold limiter_step ops l))) \<and>
    length (buckets (failed_auth (fold limiter_step ops l))) \<le> max_entries (failed_auth (fold limiter_step ops l)) \<and>
    length (buckets (requests (fold limiter_step ops l))) \<le> max_entries (requests (fold limiter_step ops l))"
  using isolated [OF assms(1,2), of now] assms(3,4) by (auto simp: limiter_ok_def set_ok_def)

lemma neighbours_never_throttled_witness:
  "allowed (peek_failed_auth 0 ''1.2.3.4''
     (fold limiter_step [FailedAuth 0 ''6.6.6.6'', Rejected ''6.6.6.6'', Request 0 ''bob''] (new_limiter 1 1 1)))"
proof -
  have "limiter_ok (new_limiter 1 1 1)"
    "list_all (\<lambda>op. fails_key op \<noteq> Some ''1.2.3.4'' \<and> request_key op \<noteq> Some ''alice'')
       [FailedAuth 0 ''6.6.6.6'', Rejected ''6.6.6.6'', Request 0 ''bob'']"
    "allowed (peek_failed_auth 0 ''1.2.3.4'' (new_limiter 1 1 1))"
    "allowed (fst (check_request 0 ''alice'' (new_limiter 1 1 1)))"
    by code_simp+
  from neighbours_never_throttled [OF this] show ?thesis by blast
qed

lemma walk_hops_append:
  "walk_hops parse trusted show_ip es = Some a \<Longrightarrow> walk_hops parse trusted show_ip (es @ fs) = Some a"
  by (induction es) (auto split: option.splits if_splits)

text \<open>
  A client cannot choose its own bucket: entries a client puts in front of the forwarding
  header that its proxies wrote never change the address it is keyed on.
\<close>

lemma forged_hops_ignored:
  assumes "client_host sc' = client_host sc" "forwarded_hops sc' = forged @ forwarded_hops sc"
    and "walk_hops parse (\<lambda>a. list_ex (in_net a) networks) show_ip (rev (forwarded_hops sc)) = Some a"
  shows "client_ip parse in_net show_ip sc' networks = client_ip parse in_net show_ip sc networks"
  using assms walk_hops_append [OF assms(3), of "rev forged"]
  by (auto simp: client_ip_def peer_ip_def Let_def split: option.split)

lemma forged_hops_ignored_witness:
  "client_ip Some (=) id
     \<lparr>headers = [(''x-forwarded-for'', ''evil, alice'')], client_host = Some ''proxy''\<rparr> [''proxy''] =
   client_ip Some (=) id
     \<lparr>headers = [(''x-forwarded-for'', ''alice'')], client_host = Some ''proxy''\<rparr> [''proxy'']"
proof -
  let ?a = "\<lparr>headers = [(''x-forwarded-for'', ''evil, alice'')], client_host = Some ''proxy''\<rparr>"
  let ?b = "\<lparr>headers = [(''x-forwarded-for'', ''alice'')], client_host = Some ''proxy''\<rparr>"
  have "client_host ?a = client_host ?b" "forwarded_hops ?a = [''evil''] @ forwarded_hops ?b"
    "walk_hops Some (\<lambda>a. list_ex ((=) a) [''proxy'']) id (rev (forwarded_hops ?b)) = Some ''alice''"
    by code_simp+
  from forged_hops_ignored [OF this] show ?thesis .
qed

end
