(* ===== verification/RecordStore.thy ===== *)
theory RecordStore
  imports CrossPlan
begin

text \<open>
  The record stores of \<open>src/pipeline/store_records.py\<close> (the contract), \<open>store_memory.py\<close>,
  \<open>store.py\<close> (JSON files in the plans directory) and \<open>store_sqlite.py\<close> (a database beside those
  files).  A call is a \<open>rec_op\<close> whose arguments are arbitrary values; its outcome is a value or an
  exception.  What \<open>json.dumps\<close> writes, \<open>json.loads\<close> reads back, so a file holds the value written.
\<close>

subsection \<open>Keys\<close>

datatype store_exn =
    InvalidKey string | UnknownNamespace | StoreTypeError
  | FileMissing | ReadFailed | WriteFailed | BadJson | BadText | DatabaseLocked
  | StoreAttributeError | StoreKeyError

definition DEFAULT_NS :: string where "DEFAULT_NS = ''default''"

definition namespace_re :: "string \<Rightarrow> bool" where
  "namespace_re s =
     (case s of
        [] \<Rightarrow> False
      | c # cs \<Rightarrow> is_lower c \<and> length cs \<le> 63 \<and>
          list_all (\<lambda>x. is_lower x \<or> is_digit x \<or> x = CHR ''_'' \<or> x = CHR ''-'') cs)"

definition record_key_re :: "string \<Rightarrow> bool" where
  "record_key_re s =
     (case s of
        [] \<Rightarrow> False
      | c # cs \<Rightarrow> (is_upper c \<or> is_lower c \<or> is_digit c) \<and> length cs \<le> 127 \<and>
          list_all (\<lambda>x. is_upper x \<or> is_lower x \<or> is_digit x \<or> x \<in> {CHR ''.'', CHR ''_'', CHR ''-''}) cs)"

definition validate_namespace :: "pyval \<Rightarrow> store_exn + string" where
  "validate_namespace v =
     (case v of
        PStr s \<Rightarrow> if namespace_re s then Inr s else Inl (InvalidKey ''invalid namespace'')
      | _ \<Rightarrow> Inl (InvalidKey ''invalid namespace''))"

definition validate_plan_name :: "pyval \<Rightarrow> store_exn + string" where
  "validate_plan_name v =
     (case v of
        PStr s \<Rightarrow> if record_key_re s \<and> \<not> has_infix ''..'' s then Inr s
                  else Inl (InvalidKey ''invalid plan name'')
      | _ \<Rightarrow> Inl (InvalidKey ''invalid plan name''))"

definition validate_story_key :: "pyval \<Rightarrow> store_exn + string" where
  "validate_story_key v =
     (case v of
        PStr s \<Rightarrow> if record_key_re s \<and> \<not> has_infix ''..'' s then Inr s
                  else Inl (InvalidKey ''invalid story key'')
      | _ \<Rightarrow> Inl (InvalidKey ''invalid story key''))"

text \<open>\<open>isinstance(x, dict)\<close>, else \<open>TypeError\<close>.\<close>

definition need_dict :: "pyval \<Rightarrow> store_exn + pydict" where
  "need_dict v = (case v of PDict d \<Rightarrow> Inr d | _ \<Rightarrow> Inl StoreTypeError)"

lemma validate_simps:
  "validate_namespace v = Inr s \<longleftrightarrow> v = PStr s \<and> namespace_re s"
  "validate_plan_name v = Inr s \<longleftrightarrow> v = PStr s \<and> record_key_re s \<and> \<not> has_infix ''..'' s"
  "validate_story_key v = Inr s \<longleftrightarrow> v = PStr s \<and> record_key_re s \<and> \<not> has_infix ''..'' s"
  "need_dict v = Inr d \<longleftrightarrow> v = PDict d"
  by (auto simp: validate_namespace_def validate_plan_name_def validate_story_key_def need_dict_def
      split: pyval.splits)

subsection \<open>Calls\<close>

datatype rec_op =
    GetManifest pyval pyval
  | GetManifests pyval
  | PutManifest pyval pyval pyval
  | ListPlans pyval
  | GetDecisions pyval pyval
  | AppendDecision pyval pyval pyval
  | GetJournal pyval pyval pyval
  | AppendJournal pyval pyval pyval pyval

type_synonym 's op_result = "store_exn + pyval \<times> 's"

datatype rec_result = Value pyval | Raised store_exn

text \<open>A call that raises leaves the store as it was.\<close>

definition settle :: "'s op_result \<Rightarrow> 's \<Rightarrow> rec_result \<times> 's" where
  "settle x s = (case x of Inl e \<Rightarrow> (Raised e, s) | Inr (v, t) \<Rightarrow> (Value v, t))"

definition docs_value :: "(string \<times> pydict) list \<Rightarrow> pyval" where
  "docs_value ms = PDict (map (\<lambda>(k, d). (k, PDict d)) ms)"

definition records_value :: "pydict list \<Rightarrow> pyval" where
  "records_value rs = PList (map PDict rs)"

definition doc_value :: "pydict option \<Rightarrow> pyval" where
  "doc_value d = (case d of None \<Rightarrow> PNone | Some m \<Rightarrow> PDict m)"

subsection \<open>The store in memory\<close>

record mem_store =
  mem_manifests :: "((string \<times> string) \<times> pydict) list"
  mem_decisions :: "((string \<times> string) \<times> pydict list) list"
  mem_journals :: "((string \<times> string \<times> string) \<times> pydict list) list"

definition mem_new :: mem_store where
  "mem_new = \<lparr>mem_manifests = [], mem_decisions = [], mem_journals = []\<rparr>"

definition mem_get_manifest :: "pyval \<Rightarrow> pyval \<Rightarrow> mem_store \<Rightarrow> mem_store op_result" where
  "mem_get_manifest ns plan s =
     bindE (validate_namespace ns) (\<lambda>n. bindE (validate_plan_name plan) (\<lambda>p.
     Inr (doc_value (dget (mem_manifests s) (n, p)), s)))"

definition mem_in :: "string \<Rightarrow> mem_store \<Rightarrow> (string \<times> pydict) list" where
  "mem_in n s = map (\<lambda>((_, p), m). (p, m)) (filter (\<lambda>((k, _), _). k = n) (mem_manifests s))"

definition mem_get_manifests :: "pyval \<Rightarrow> mem_store \<Rightarrow> mem_store op_result" where
  "mem_get_manifests ns s =
     bindE (validate_namespace ns) (\<lambda>n. Inr (docs_value (sort_key fst (mem_in n s)), s))"

definition mem_put_manifest :: "pyval \<Rightarrow> pyval \<Rightarrow> pyval \<Rightarrow> mem_store \<Rightarrow> mem_store op_result" where
  "mem_put_manifest ns plan manifest s =
     bindE (validate_namespace ns) (\<lambda>n. bindE (validate_plan_name plan) (\<lambda>p.
     bindE (need_dict manifest) (\<lambda>m.
     Inr (PNone, s\<lparr>mem_manifests := dset (n, p) m (mem_manifests s)\<rparr>))))"

definition mem_list_plans :: "pyval \<Rightarrow> mem_store \<Rightarrow> mem_store op_result" where
  "mem_list_plans ns s =
     bindE (validate_namespace ns) (\<lambda>n.
     Inr (PList (map PStr (sort (remdups (map fst (mem_in n s))))), s))"

definition log_of :: "('k \<times> pydict list) list \<Rightarrow> 'k \<Rightarrow> pydict list" where
  "log_of d k = (case dget d k of None \<Rightarrow> [] | Some rs \<Rightarrow> rs)"

definition mem_get_decisions :: "pyval \<Rightarrow> pyval \<Rightarrow> mem_store \<Rightarrow> mem_store op_result" where
  "mem_get_decisions ns plan s =
     bindE (validate_namespace ns) (\<lambda>n. bindE (validate_plan_name plan) (\<lambda>p.
     Inr (records_value (log_of (mem_decisions s) (n, p)), s)))"

definition mem_append_decision :: "pyval \<Rightarrow> pyval \<Rightarrow> pyval \<Rightarrow> mem_store \<Rightarrow> mem_store op_result" where
  "mem_append_decision ns plan entry s =
     bindE (validate_namespace ns) (\<lambda>n. bindE (validate_plan_name plan) (\<lambda>p.
     bindE (need_dict entry) (\<lambda>r.
     Inr (PNone, s\<lparr>mem_decisions :=
       dset (n, p) (log_of (mem_decisions s) (n, p) @ [r]) (mem_decisions s)\<rparr>))))"

definition mem_get_journal :: "pyval \<Rightarrow> pyval \<Rightarrow> pyval \<Rightarrow> mem_store \<Rightarrow> mem_store op_result" where
  "mem_get_journal ns plan story s =
     bindE (validate_namespace ns) (\<lambda>n. bindE (validate_plan_name plan) (\<lambda>p.
     bindE (validate_story_key story) (\<lambda>k.
     Inr (records_value (log_of (mem_journals s) (n, p, k)), s))))"

definition mem_append_journal ::
  "pyval \<Rightarrow> pyval \<Rightarrow> pyval \<Rightarrow> pyval \<Rightarrow> mem_store \<Rightarrow> mem_store op_result" where
  "mem_append_journal ns plan story entry s =
     bindE (validate_namespace ns) (\<lambda>n. bindE (validate_plan_name plan) (\<lambda>p.
     bindE (validate_story_key story) (\<lambda>k. bindE (need_dict entry) (\<lambda>r.
     Inr (PNone, s\<lparr>mem_journals :=
       dset (n, p, k) (log_of (mem_journals s) (n, p, k) @ [r]) (mem_journals s)\<rparr>)))))"

fun mem_step :: "rec_op \<Rightarrow> mem_store \<Rightarrow> rec_result \<times> mem_store" where
  "mem_step (GetManifest ns plan) s = settle (mem_get_manifest ns plan s) s"
| "mem_step (GetManifests ns) s = settle (mem_get_manifests ns s) s"
| "mem_step (PutManifest ns plan m) s = settle (mem_put_manifest ns plan m s) s"
| "mem_step (ListPlans ns) s = settle (mem_list_plans ns s) s"
| "mem_step (GetDecisions ns plan) s = settle (mem_get_decisions ns plan s) s"
| "mem_step (AppendDecision ns plan r) s = settle (mem_append_decision ns plan r s) s"
| "mem_step (GetJournal ns plan k) s = settle (mem_get_journal ns plan k s) s"
| "mem_step (AppendJournal ns plan k r) s = settle (mem_append_journal ns plan k r s) s"

subsection \<open>The plans directory\<close>

text \<open>
  A file of the plans directory: JSON text, text that is no JSON, bytes that are no UTF-8 (with what
  they parse to after replacement, if anything), or a file whose reading fails.
\<close>

datatype file_content = Json pyval | NotJson | NotUtf8 "pyval option" | NoRead

type_synonym fs = "(string \<times> file_content) list"

definition read_strict :: "file_content option \<Rightarrow> store_exn + pyval" where
  "read_strict f =
     (case f of
        None \<Rightarrow> Inl FileMissing
      | Some (Json v) \<Rightarrow> Inr v
      | Some NotJson \<Rightarrow> Inl BadJson
      | Some (NotUtf8 _) \<Rightarrow> Inl BadText
      | Some NoRead \<Rightarrow> Inl ReadFailed)"

definition read_lenient :: "file_content option \<Rightarrow> store_exn + pyval" where
  "read_lenient f =
     (case f of
        Some (NotUtf8 (Some v)) \<Rightarrow> Inr v
      | Some (NotUtf8 None) \<Rightarrow> Inl BadJson
      | _ \<Rightarrow> read_strict f)"

definition manifest_file :: "string \<Rightarrow> string" where "manifest_file p = p @ ''.manifest.json''"
definition decisions_file :: "string \<Rightarrow> string" where "decisions_file p = p @ ''.decisions.json''"
definition journal_file :: "string \<Rightarrow> string \<Rightarrow> string" where
  "journal_file p k = p @ ''.'' @ k @ ''.journal.json''"

text \<open>A write replaces the file whole, or fails and leaves it.\<close>

definition write_json :: "bool \<Rightarrow> string \<Rightarrow> pyval \<Rightarrow> fs \<Rightarrow> store_exn + fs" where
  "write_json io name v d = (if io then Inr (dset name (Json v) d) else Inl WriteFailed)"

definition fs_get_manifest :: "string \<Rightarrow> fs \<Rightarrow> store_exn + pyval" where
  "fs_get_manifest p d = read_strict (dget d (manifest_file p))"

definition fs_get_manifest_or_none :: "string \<Rightarrow> fs \<Rightarrow> store_exn + pyval" where
  "fs_get_manifest_or_none p d =
     (case fs_get_manifest p d of
        Inl BadJson \<Rightarrow> Inr PNone
      | Inl FileMissing \<Rightarrow> Inr PNone
      | Inl ReadFailed \<Rightarrow> Inr PNone
      | x \<Rightarrow> x)"

definition fs_save_manifest :: "bool \<Rightarrow> string \<Rightarrow> pyval \<Rightarrow> fs \<Rightarrow> store_exn + fs" where
  "fs_save_manifest io p m d = write_json io (manifest_file p) m d"

definition fs_list_manifests :: "fs \<Rightarrow> string list" where
  "fs_list_manifests d =
     map (\<lambda>f. take (length f - length ''.manifest.json'') f)
       (sort (filter (\<lambda>f. ends_with f ''.manifest.json'') (dkeys d)))"

definition append_to :: "bool \<Rightarrow> string \<Rightarrow> pyval \<Rightarrow> fs \<Rightarrow> store_exn + fs" where
  "append_to io name r d =
     bindE (case dget d name of None \<Rightarrow> Inr (PList []) | f \<Rightarrow> read_strict f) (\<lambda>log.
     case log of
       PList rs \<Rightarrow> write_json io name (PList (rs @ [r])) d
     | _ \<Rightarrow> Inl StoreAttributeError)"

definition fs_append_decision :: "bool \<Rightarrow> string \<Rightarrow> pyval \<Rightarrow> fs \<Rightarrow> store_exn + fs" where
  "fs_append_decision io p r d = append_to io (decisions_file p) r d"

definition fs_append_journal :: "bool \<Rightarrow> string \<Rightarrow> string \<Rightarrow> pyval \<Rightarrow> fs \<Rightarrow> store_exn + fs" where
  "fs_append_journal io p k r d = append_to io (journal_file p k) r d"

definition fs_get_decisions :: "string \<Rightarrow> fs \<Rightarrow> pyval" where
  "fs_get_decisions p d =
     (case read_lenient (dget d (decisions_file p)) of Inl _ \<Rightarrow> PList [] | Inr v \<Rightarrow> v)"

definition DISPLAY_DEFAULTS :: "string list" where
  "DISPLAY_DEFAULTS = [''step'', ''summary'', ''next_hint'']"

definition normalized :: "pydict \<Rightarrow> pydict" where
  "normalized e = fold (\<lambda>k x. dset k (dgetN e k) x) DISPLAY_DEFAULTS e"

definition dicts_in :: "pyval list \<Rightarrow> pydict list" where
  "dicts_in vs = concat (map (\<lambda>v. case v of PDict e \<Rightarrow> [e] | _ \<Rightarrow> []) vs)"

definition fs_get_journal :: "string \<Rightarrow> string \<Rightarrow> fs \<Rightarrow> bool \<times> pydict list" where
  "fs_get_journal p k d =
     (case read_lenient (dget d (journal_file p k)) of
        Inr (PList vs) \<Rightarrow>
          if dicts_in vs = [] then (False, []) else (True, map normalized (dicts_in vs))
      | _ \<Rightarrow> (False, []))"

text \<open>\<open>update_story\<close> of either store, given how it reads and saves.\<close>

definition story_update :: "pyval \<Rightarrow> string \<Rightarrow> pydict \<Rightarrow> store_exn + (pydict \<times> pydict) option" where
  "story_update manifest key changes =
     (case manifest of
        PDict m \<Rightarrow>
          (case dget m ''stories'' of
             None \<Rightarrow> Inl StoreKeyError
           | Some (PDict stories) \<Rightarrow>
               (case dgetN stories key of
                  PNone \<Rightarrow> Inr None
                | PDict st \<Rightarrow>
                    let st' = fold (\<lambda>(f, v). dset f v) changes st in
                    Inr (Some (st', dset ''stories'' (PDict (dset key (PDict st') stories)) m))
                | _ \<Rightarrow> Inl StoreAttributeError)
           | Some _ \<Rightarrow> Inl StoreAttributeError)
      | _ \<Rightarrow> Inl StoreTypeError)"

definition fs_update_story ::
  "bool \<Rightarrow> string \<Rightarrow> string \<Rightarrow> pydict \<Rightarrow> fs \<Rightarrow> store_exn + (pyval \<times> fs)" where
  "fs_update_story io p key changes d =
     bindE (fs_get_manifest p d) (\<lambda>manifest.
     bindE (story_update manifest key changes) (\<lambda>r.
     case r of
       None \<Rightarrow> Inr (PNone, d)
     | Some (st, m) \<Rightarrow> bindE (fs_save_manifest io p (PDict m) d) (\<lambda>d'. Inr (PDict st, d'))))"

subsection \<open>The record view of the file store\<close>

definition refuse_other_namespace :: "string \<Rightarrow> store_exn + unit" where
  "refuse_other_namespace n = guardE (n = DEFAULT_NS) UnknownNamespace"

text \<open>
  What \<open>cross_plan\<close> finds on disk.  Its cache is invisible as long as a file's time stamp tells its
  content, so a bulk read starts from an empty one here.
\<close>

definition disk_of :: "fs \<Rightarrow> disk" where
  "disk_of d =
     \<lparr>stat_of = (\<lambda>(_, name). case dget d name of None \<Rightarrow> Inl ''FileNotFoundError'' | Some _ \<Rightarrow> Inr (0, 0)),
      json_of = (\<lambda>(_, name).
        case read_strict (dget d name) of
          Inl BadJson \<Rightarrow> Inl ''JSONDecodeError''
        | Inl BadText \<Rightarrow> Inl ''UnicodeDecodeError''
        | Inl _ \<Rightarrow> Inl ''OSError''
        | Inr v \<Rightarrow> Inr v)\<rparr>"

definition fs_load_manifests :: "fs \<Rightarrow> (string \<times> pydict) list" where
  "fs_load_manifests d =
     fst (load_manifests (\<lambda>x. x) (disk_of d) [] [] (fs_list_manifests d) None clear_manifest_cache)"

definition file_get_manifest :: "pyval \<Rightarrow> pyval \<Rightarrow> fs \<Rightarrow> fs op_result" where
  "file_get_manifest ns plan d =
     bindE (validate_namespace ns) (\<lambda>n. bindE (validate_plan_name plan) (\<lambda>p.
     bindE (refuse_other_namespace n) (\<lambda>_.
     bindE (fs_get_manifest_or_none p d) (\<lambda>v. Inr (v, d)))))"

definition file_get_manifests :: "pyval \<Rightarrow> fs \<Rightarrow> fs op_result" where
  "file_get_manifests ns d =
     bindE (validate_namespace ns) (\<lambda>n. bindE (refuse_other_namespace n) (\<lambda>_.
     Inr (docs_value (fs_load_manifests d), d)))"

definition file_put_manifest :: "bool \<Rightarrow> pyval \<Rightarrow> pyval \<Rightarrow> pyval \<Rightarrow> fs \<Rightarrow> fs op_result" where
  "file_put_manifest io ns plan manifest d =
     bindE (validate_namespace ns) (\<lambda>n. bindE (validate_plan_name plan) (\<lambda>p.
     bindE (refuse_other_namespace n) (\<lambda>_. bindE (need_dict manifest) (\<lambda>m.
     bindE (fs_save_manifest io p (PDict m) d) (\<lambda>d'. Inr (PNone, d'))))))"

definition file_list_plans :: "pyval \<Rightarrow> fs \<Rightarrow> fs op_result" where
  "file_list_plans ns d =
     bindE (validate_namespace ns) (\<lambda>n. bindE (refuse_other_namespace n) (\<lambda>_.
     Inr (PList (map PStr (sort (fs_list_manifests d))), d)))"

definition file_get_decisions :: "pyval \<Rightarrow> pyval \<Rightarrow> fs \<Rightarrow> fs op_result" where
  "file_get_decisions ns plan d =
     bindE (validate_namespace ns) (\<lambda>n. bindE (validate_plan_name plan) (\<lambda>p.
     bindE (refuse_other_namespace n) (\<lambda>_. Inr (fs_get_decisions p d, d))))"

definition file_append_decision :: "bool \<Rightarrow> pyval \<Rightarrow> pyval \<Rightarrow> pyval \<Rightarrow> fs \<Rightarrow> fs op_result" where
  "file_append_decision io ns plan entry d =
     bindE (validate_namespace ns) (\<lambda>n. bindE (validate_plan_name plan) (\<lambda>p.
     bindE (refuse_other_namespace n) (\<lambda>_. bindE (need_dict entry) (\<lambda>r.
     bindE (fs_append_decision io p (PDict r) d) (\<lambda>d'. Inr (PNone, d'))))))"

definition without_defaults :: "pydict \<Rightarrow> pydict" where
  "without_defaults e = filter (\<lambda>(k, v). \<not> (k \<in> set DISPLAY_DEFAULTS \<and> v = PNone)) e"

definition file_get_journal :: "pyval \<Rightarrow> pyval \<Rightarrow> pyval \<Rightarrow> fs \<Rightarrow> fs op_result" where
  "file_get_journal ns plan story d =
     bindE (validate_namespace ns) (\<lambda>n. bindE (validate_plan_name plan) (\<lambda>p.
     bindE (validate_story_key story) (\<lambda>k. bindE (refuse_other_namespace n) (\<lambda>_.
     Inr (records_value (map without_defaults (snd (fs_get_journal p k d))), d)))))"

definition file_append_journal ::
  "bool \<Rightarrow> pyval \<Rightarrow> pyval \<Rightarrow> pyval \<Rightarrow> pyval \<Rightarrow> fs \<Rightarrow> fs op_result" where
  "file_append_journal io ns plan story entry d =
     bindE (validate_namespace ns) (\<lambda>n. bindE (validate_plan_name plan) (\<lambda>p.
     bindE (validate_story_key story) (\<lambda>k. bindE (refuse_other_namespace n) (\<lambda>_.
     bindE (need_dict entry) (\<lambda>r.
     bindE (fs_append_journal io p k (PDict r) d) (\<lambda>d'. Inr (PNone, d')))))))"

fun file_step :: "bool \<Rightarrow> rec_op \<Rightarrow> fs \<Rightarrow> rec_result \<times> fs" where
  "file_step io (GetManifest ns plan) d = settle (file_get_manifest ns plan d) d"
| "file_step io (GetManifests ns) d = settle (file_get_manifests ns d) d"
| "file_step io (PutManifest ns plan m) d = settle (file_put_manifest io ns plan m d) d"
| "file_step io (ListPlans ns) d = settle (file_list_plans ns d) d"
| "file_step io (GetDecisions ns plan) d = settle (file_get_decisions ns plan d) d"
| "file_step io (AppendDecision ns plan r) d = settle (file_append_decision io ns plan r d) d"
| "file_step io (GetJournal ns plan k) d = settle (file_get_journal ns plan k d) d"
| "file_step io (AppendJournal ns plan k r) d = settle (file_append_journal io ns plan k r d) d"

subsection \<open>The contract\<close>

record contents =
  docs :: "string \<Rightarrow> string \<Rightarrow> pydict option"
  decs :: "string \<Rightarrow> string \<Rightarrow> pydict list"
  jnls :: "string \<Rightarrow> string \<Rightarrow> string \<Rightarrow> pydict list"

definition ns_ok :: "(string \<Rightarrow> bool) \<Rightarrow> pyval \<Rightarrow> bool" where
  "ns_ok serves v = (case validate_namespace v of Inr n \<Rightarrow> serves n | Inl _ \<Rightarrow> False)"

definition plan_ok :: "pyval \<Rightarrow> bool" where
  "plan_ok v = (case validate_plan_name v of Inr _ \<Rightarrow> True | Inl _ \<Rightarrow> False)"

definition key_ok :: "pyval \<Rightarrow> bool" where
  "key_ok v = (case validate_story_key v of Inr _ \<Rightarrow> True | Inl _ \<Rightarrow> False)"

definition dict_ok :: "pyval \<Rightarrow> bool" where
  "dict_ok v = (case v of PDict _ \<Rightarrow> True | _ \<Rightarrow> False)"

fun args_ok :: "(string \<Rightarrow> bool) \<Rightarrow> rec_op \<Rightarrow> bool" where
  "args_ok serves (GetManifest ns p) = (ns_ok serves ns \<and> plan_ok p)"
| "args_ok serves (GetManifests ns) = ns_ok serves ns"
| "args_ok serves (PutManifest ns p m) = (ns_ok serves ns \<and> plan_ok p \<and> dict_ok m)"
| "args_ok serves (ListPlans ns) = ns_ok serves ns"
| "args_ok serves (GetDecisions ns p) = (ns_ok serves ns \<and> plan_ok p)"
| "args_ok serves (AppendDecision ns p r) = (ns_ok serves ns \<and> plan_ok p \<and> dict_ok r)"
| "args_ok serves (GetJournal ns p k) = (ns_ok serves ns \<and> plan_ok p \<and> key_ok k)"
| "args_ok serves (AppendJournal ns p k r) = (ns_ok serves ns \<and> plan_ok p \<and> key_ok k \<and> dict_ok r)"

text \<open>What a call with good arguments answers, and what the store holds after it.\<close>

fun promised_answer :: "rec_op \<Rightarrow> contents \<Rightarrow> rec_result \<Rightarrow> contents \<Rightarrow> bool" where
  "promised_answer (GetManifest ns plan) c r c' \<longleftrightarrow>
     (\<exists>n p. ns = PStr n \<and> plan = PStr p \<and> r = Value (doc_value (docs c n p)) \<and> c' = c)"
| "promised_answer (GetManifests ns) c r c' \<longleftrightarrow>
     (\<exists>n ms. ns = PStr n \<and> r = Value (docs_value ms) \<and> wf_dict ms \<and> dget ms = docs c n \<and> c' = c)"
| "promised_answer (PutManifest ns plan doc) c r c' \<longleftrightarrow>
     (\<exists>n p m. ns = PStr n \<and> plan = PStr p \<and> doc = PDict m \<and> r = Value PNone \<and>
        c' = c\<lparr>docs := (docs c)(n := (docs c n)(p \<mapsto> m))\<rparr>)"
| "promised_answer (ListPlans ns) c r c' \<longleftrightarrow>
     (\<exists>n ps. ns = PStr n \<and> r = Value (PList (map PStr ps)) \<and> sorted ps \<and> distinct ps \<and>
        set ps = {p. docs c n p \<noteq> None} \<and> c' = c)"
| "promised_answer (GetDecisions ns plan) c r c' \<longleftrightarrow>
     (\<exists>n p. ns = PStr n \<and> plan = PStr p \<and> r = Value (records_value (decs c n p)) \<and> c' = c)"
| "promised_answer (AppendDecision ns plan rec) c r c' \<longleftrightarrow>
     (\<exists>n p d. ns = PStr n \<and> plan = PStr p \<and> rec = PDict d \<and> r = Value PNone \<and>
        c' = c\<lparr>decs := (decs c)(n := (decs c n)(p := decs c n p @ [d]))\<rparr>)"
| "promised_answer (GetJournal ns plan key) c r c' \<longleftrightarrow>
     (\<exists>n p k. ns = PStr n \<and> plan = PStr p \<and> key = PStr k \<and>
        r = Value (records_value (jnls c n p k)) \<and> c' = c)"
| "promised_answer (AppendJournal ns plan key rec) c r c' \<longleftrightarrow>
     (\<exists>n p k d. ns = PStr n \<and> plan = PStr p \<and> key = PStr k \<and> rec = PDict d \<and> r = Value PNone \<and>
        c' = c\<lparr>jnls := (jnls c)(n := (jnls c n)(p := (jnls c n p)(k := jnls c n p k @ [d])))\<rparr>)"

definition promises :: "(string \<Rightarrow> bool) \<Rightarrow> rec_op \<Rightarrow> contents \<Rightarrow> rec_result \<Rightarrow> contents \<Rightarrow> bool" where
  "promises serves x c r c' =
     (if args_ok serves x then promised_answer x c r c' else (\<exists>e. r = Raised e) \<and> c' = c)"

fun run_ops :: "(rec_op \<Rightarrow> 's \<Rightarrow> rec_result \<times> 's) \<Rightarrow> rec_op list \<Rightarrow> 's \<Rightarrow> rec_result list \<times> 's" where
  "run_ops step [] s = ([], s)"
| "run_ops step (x # xs) s =
     (case step x s of (r, t) \<Rightarrow> (case run_ops step xs t of (rs, u) \<Rightarrow> (r # rs, u)))"

text \<open>A history the contract allows.\<close>

fun promised_run ::
  "(string \<Rightarrow> bool) \<Rightarrow> rec_op list \<Rightarrow> contents \<Rightarrow> rec_result list \<Rightarrow> contents \<Rightarrow> bool" where
  "promised_run serves [] c rs c' \<longleftrightarrow> rs = [] \<and> c' = c"
| "promised_run serves (x # xs) c rs c' \<longleftrightarrow>
     (\<exists>r rs' d. rs = r # rs' \<and> promises serves x c r d \<and> promised_run serves xs d rs' c')"

locale record_store =
  fixes step :: "rec_op \<Rightarrow> 's \<Rightarrow> rec_result \<times> 's"
    and invar :: "'s \<Rightarrow> bool"
    and held :: "'s \<Rightarrow> contents"
    and serves :: "string \<Rightarrow> bool"
    and allowed :: "rec_op \<Rightarrow> bool"
  assumes keeps_promise:
    "invar s \<Longrightarrow> allowed x \<Longrightarrow> step x s = (r, t) \<Longrightarrow> invar t \<and> promises serves x (held s) r (held t)"
begin

lemma run_keeps_promise:
  "invar s \<Longrightarrow> \<forall>x \<in> set xs. allowed x \<Longrightarrow> run_ops step xs s = (rs, t) \<Longrightarrow>
     invar t \<and> promised_run serves xs (held s) rs (held t)"
proof (induction xs arbitrary: s rs)
  case (Cons x xs)
  obtain r u where x: "step x s = (r, u)" by (cases "step x s")
  obtain rs' t' where xs: "run_ops step xs u = (rs', t')" by (cases "run_ops step xs u")
  from Cons.prems x xs have r: "rs = r # rs'" "t' = t" by auto
  have "invar u \<and> promises serves x (held s) r (held u)"
    using keeps_promise [OF Cons.prems(1) _ x] Cons.prems(2) by simp
  with Cons.IH [of u rs'] Cons.prems(2) xs r show ?case by auto
qed simp

lemma refused_writes_nothing:
  "invar s \<Longrightarrow> allowed x \<Longrightarrow> step x s = (Raised e, t) \<Longrightarrow> held t = held s"
  using keeps_promise [of s x "Raised e" t]
  by (cases "(x, held s, Raised e, held t)" rule: promised_answer.cases)
    (auto simp: promises_def split: if_splits)

end

subsection \<open>Two stores that keep the contract cannot be told apart\<close>

text \<open>
  The answers agree: the same value (a bulk read the same manifests, in whatever order), or both
  refuse.
\<close>

definition same_answer :: "rec_result \<Rightarrow> rec_result \<Rightarrow> bool" where
  "same_answer r r' \<longleftrightarrow> r = r' \<or> (\<exists>e e'. r = Raised e \<and> r' = Raised e') \<or>
     (\<exists>ms ms'. r = Value (docs_value ms) \<and> r' = Value (docs_value ms') \<and>
        wf_dict ms \<and> wf_dict ms' \<and> dget ms = dget ms')"

fun op_namespace :: "rec_op \<Rightarrow> pyval" where
  "op_namespace (GetManifest ns p) = ns"
| "op_namespace (GetManifests ns) = ns"
| "op_namespace (PutManifest ns p m) = ns"
| "op_namespace (ListPlans ns) = ns"
| "op_namespace (GetDecisions ns p) = ns"
| "op_namespace (AppendDecision ns p r) = ns"
| "op_namespace (GetJournal ns p k) = ns"
| "op_namespace (AppendJournal ns p k r) = ns"

text \<open>A namespace both stores serve, or neither.\<close>

definition in_common :: "(string \<Rightarrow> bool) \<Rightarrow> (string \<Rightarrow> bool) \<Rightarrow> rec_op \<Rightarrow> bool" where
  "in_common f g x = (ns_ok f (op_namespace x) = ns_ok g (op_namespace x))"

definition agree_on :: "(string \<Rightarrow> bool) \<Rightarrow> contents \<Rightarrow> contents \<Rightarrow> bool" where
  "agree_on f c d \<longleftrightarrow> (\<forall>n. f n \<longrightarrow> docs c n = docs d n \<and> decs c n = decs d n \<and> jnls c n = jnls d n)"

lemma args_ok_cong: "in_common f g x \<Longrightarrow> args_ok f x = args_ok g x"
  by (cases x) (auto simp: in_common_def)

lemma ns_okD: "ns_ok f v \<Longrightarrow> \<exists>n. v = PStr n \<and> f n"
  by (auto simp: ns_ok_def validate_simps split: sum.splits)

lemma args_ok_ns: "args_ok f x \<Longrightarrow> ns_ok f (op_namespace x)"
  by (cases x) auto

lemma same_answer_refl [simp]: "same_answer r r"
  by (simp add: same_answer_def)

lemma answers_agree:
  assumes "promised_answer x c r c'" "promised_answer x d q d'" "agree_on f c d" "f n" "op_namespace x = PStr n"
  shows "same_answer r q \<and> agree_on f c' d'"
  using assms
proof (cases "(x, c, r, c')" rule: promised_answer.cases)
  case (4 n' _ _ _)
  with assms obtain ps qs where
    "r = Value (PList (map PStr ps))" "sorted ps" "distinct ps" "set ps = {p. docs c n p \<noteq> None}"
    "q = Value (PList (map PStr qs))" "sorted qs" "distinct qs" "set qs = {p. docs d n p \<noteq> None}"
    and c: "c' = c" "d' = d" by auto
  moreover have "docs c n = docs d n" using assms(3,4) by (simp add: agree_on_def)
  ultimately have "r = q" using sorted_distinct_set_unique [of ps qs] by simp
  with c assms(3) show ?thesis by simp
next
  case (2 n' _ _ _)
  with assms obtain ms ms' where "r = Value (docs_value ms)" "wf_dict ms" "dget ms = docs c n"
    "q = Value (docs_value ms')" "wf_dict ms'" "dget ms' = docs d n" and c: "c' = c" "d' = d" by auto
  moreover have "docs c n = docs d n" using assms(3,4) by (simp add: agree_on_def)
  ultimately have "same_answer r q" unfolding same_answer_def by metis
  with c assms(3) show ?thesis by simp
qed (auto simp: agree_on_def)

lemma promises_agree:
  assumes "promises f x c r c'" "promises g x d q d'" "agree_on f c d" "in_common f g x"
  shows "same_answer r q \<and> agree_on f c' d'"
proof (cases "args_ok f x")
  case True
  with assms(4) have "args_ok g x" by (simp add: args_ok_cong)
  moreover obtain n where "op_namespace x = PStr n" "f n"
    using ns_okD [OF args_ok_ns [OF True]] by blast
  ultimately show ?thesis using assms(1-3) True by (auto simp: promises_def dest: answers_agree)
next
  case False
  with assms args_ok_cong [OF assms(4)] show ?thesis by (auto simp: promises_def same_answer_def)
qed

lemma runs_agree:
  "promised_run f xs c rs c' \<Longrightarrow> promised_run g xs d qs d' \<Longrightarrow> agree_on f c d \<Longrightarrow>
     \<forall>x \<in> set xs. in_common f g x \<Longrightarrow> list_all2 same_answer rs qs"
proof (induction xs arbitrary: c d rs qs)
  case (Cons x xs)
  then obtain r rs' c1 q qs' d1 where
    "rs = r # rs'" "promises f x c r c1" "promised_run f xs c1 rs' c'"
    "qs = q # qs'" "promises g x d q d1" "promised_run g xs d1 qs' d'" by auto
  with Cons.IH [of c1 rs' d1 qs'] promises_agree [of f x c r c1 g d q d1] Cons.prems(3,4)
  show ?case by auto
qed simp

subsection \<open>The store in memory keeps the contract\<close>

definition mem_contents :: "mem_store \<Rightarrow> contents" where
  "mem_contents s =
     \<lparr>docs = (\<lambda>n p. dget (mem_manifests s) (n, p)), decs = (\<lambda>n p. log_of (mem_decisions s) (n, p)),
      jnls = (\<lambda>n p k. log_of (mem_journals s) (n, p, k))\<rparr>"

definition mem_ok :: "mem_store \<Rightarrow> bool" where "mem_ok s = wf_dict (mem_manifests s)"

lemma dget_sorted: "wf_dict d \<Longrightarrow> dget (sort_key f d) = dget d"
  unfolding dget_def wf_dict_def dkeys_def
  by (metis map_of_inject_set distinct_map distinct_sort set_sort)

lemma wf_dict_sorted: "wf_dict d \<Longrightarrow> wf_dict (sort_key f d)"
  unfolding wf_dict_def dkeys_def by (simp add: distinct_map)

lemma dget_fun: "dget d = (\<lambda>k. dget d k)"
  by simp

lemma dget_mem_in: "dget (map (\<lambda>((_, p), m). (p, m)) (filter (\<lambda>((k, _), _). k = n) d)) p = dget d (n, p)"
  by (induction d) auto

lemma wf_mem_in: "wf_dict d \<Longrightarrow> wf_dict (map (\<lambda>((_, p), m). (p, m)) (filter (\<lambda>((k, _), _). k = n) d))"
  by (induction d) (auto simp: wf_dict_def dkeys_def rev_image_eqI)

lemma mem_in_ok:
  assumes "mem_ok s"
  shows "wf_dict (mem_in n s)" "dget (mem_in n s) = docs (mem_contents s) n"
  using assms wf_mem_in [of "mem_manifests s" n]
  by (auto simp: mem_ok_def mem_in_def mem_contents_def dget_mem_in fun_eq_iff)

lemma names_of_docs: "dget d = f \<Longrightarrow> set (map fst d) = {p. f p \<noteq> None}"
  using dget_None_iff [of d] by (auto simp: dkeys_def)

lemma log_of_dset: "log_of (dset k v d) k' = (if k' = k then v else log_of d k')"
  by (simp add: log_of_def)

lemmas mem_defs = mem_get_manifest_def mem_get_manifests_def mem_put_manifest_def mem_list_plans_def
  mem_get_decisions_def mem_append_decision_def mem_get_journal_def mem_append_journal_def

lemma ok_simps [simp]:
  "ns_ok f (PStr n) = (namespace_re n \<and> f n)"
  "plan_ok (PStr p) = (record_key_re p \<and> \<not> has_infix ''..'' p)"
  "key_ok (PStr k) = (record_key_re k \<and> \<not> has_infix ''..'' k)"
  "dict_ok (PDict d)"
  by (simp_all add: ns_ok_def plan_ok_def key_ok_def dict_ok_def validate_namespace_def
      validate_plan_name_def validate_story_key_def)

lemma settle_simps [simp]:
  "settle (Inl e) s = (Raised e, s)" "settle (Inr (v, t)) s = (Value v, t)"
  by (simp_all add: settle_def)

lemma refused_args:
  "validate_namespace v = Inl e \<Longrightarrow> \<not> ns_ok f v" "validate_plan_name v = Inl e \<Longrightarrow> \<not> plan_ok v"
  "validate_story_key v = Inl e \<Longrightarrow> \<not> key_ok v"
  by (simp_all add: ns_ok_def plan_ok_def key_ok_def)

text \<open>A call is decided by its checks; what is left is the call with good arguments.\<close>

lemma checked_cases:
  assumes "settle (bindE (validate_namespace ns) f) s = (r, t)"
  shows "(\<exists>n. ns = PStr n \<and> namespace_re n \<and> settle (f n) s = (r, t)) \<or>
    (\<not> ns_ok g ns \<and> (\<exists>e. r = Raised e) \<and> t = s)"
  using assms by (cases "validate_namespace ns") (auto simp: validate_simps refused_args)

lemma plan_cases:
  assumes "settle (bindE (validate_plan_name plan) f) s = (r, t)"
  shows "(\<exists>p. plan = PStr p \<and> plan_ok plan \<and> settle (f p) s = (r, t)) \<or>
    (\<not> plan_ok plan \<and> (\<exists>e. r = Raised e) \<and> t = s)"
  using assms by (cases "validate_plan_name plan") (auto simp: validate_simps refused_args)

lemma key_cases:
  assumes "settle (bindE (validate_story_key story) f) s = (r, t)"
  shows "(\<exists>k. story = PStr k \<and> key_ok story \<and> settle (f k) s = (r, t)) \<or>
    (\<not> key_ok story \<and> (\<exists>e. r = Raised e) \<and> t = s)"
  using assms by (cases "validate_story_key story") (auto simp: validate_simps refused_args)

lemma dict_cases:
  assumes "settle (bindE (need_dict v) f) s = (r, t)"
  shows "(\<exists>d. v = PDict d \<and> dict_ok v \<and> settle (f d) s = (r, t)) \<or>
    (\<not> dict_ok v \<and> (\<exists>e. r = Raised e) \<and> t = s)"
  using assms by (cases "need_dict v") (auto simp: dict_ok_def need_dict_def split: pyval.splits)

lemma mem_keeps_contract:
  assumes "mem_ok s" "mem_step x s = (r, t)"
  shows "mem_ok t \<and> promises (\<lambda>_. True) x (mem_contents s) r (mem_contents t)"
proof (cases x)
  case (GetManifests ns)
  with assms mem_in_ok [OF assms(1)] show ?thesis
    by (auto simp: mem_defs promises_def wf_dict_sorted dget_sorted
        dest!: checked_cases [where g = "\<lambda>_. True"] intro!: exI [of _ "sort_key fst (mem_in _ s)"])
next
  case (ListPlans ns)
  with assms names_of_docs [OF mem_in_ok(2) [OF assms(1)]] show ?thesis
    by (auto simp: mem_defs promises_def
        dest!: checked_cases [where g = "\<lambda>_. True"]
        intro!: exI [of _ "sort (remdups (map fst (mem_in _ s)))"])
qed (use assms in \<open>auto simp: mem_defs promises_def mem_ok_def mem_contents_def
  log_of_dset fun_eq_iff dest!: checked_cases [where g = "\<lambda>_. True"] plan_cases key_cases dict_cases\<close>)

interpretation mem_records: record_store mem_step mem_ok mem_contents "\<lambda>_. True" "\<lambda>_. True"
  by unfold_locales (rule mem_keeps_contract)

subsection \<open>The files keep the contract\<close>

text \<open>
  A record with no explicit null among the display fields is read back as it was written; a plan name
  without a dot owns its journals.
\<close>

definition plain :: "pydict \<Rightarrow> bool" where
  "plain e = list_all (\<lambda>(k, v). k \<notin> set DISPLAY_DEFAULTS \<or> v \<noteq> PNone) e"

definition undotted :: "string \<Rightarrow> bool" where "undotted p = (CHR ''.'' \<notin> set p)"

definition file_ok :: "string \<Rightarrow> file_content \<Rightarrow> bool" where
  "file_ok name f \<longleftrightarrow>
     (\<exists>v. f = Json v \<and> (ends_with name ''.manifest.json'' \<longrightarrow> dict_ok v) \<and>
        (ends_with name ''.decisions.json'' \<longrightarrow> (\<exists>rs. v = records_value rs)) \<and>
        (ends_with name ''.journal.json'' \<longrightarrow> (\<exists>rs. v = records_value rs \<and> list_all plain rs)))"

definition fs_ok :: "fs \<Rightarrow> bool" where
  "fs_ok d \<longleftrightarrow> wf_dict d \<and> (\<forall>name f. dget d name = Some f \<longrightarrow> file_ok name f)"

definition doc_in :: "file_content option \<Rightarrow> pydict option" where
  "doc_in f = (case f of Some (Json (PDict m)) \<Rightarrow> Some m | _ \<Rightarrow> None)"

definition records_in :: "file_content option \<Rightarrow> pydict list" where
  "records_in f = (case f of Some (Json (PList vs)) \<Rightarrow> dicts_in vs | _ \<Rightarrow> [])"

definition file_contents :: "fs \<Rightarrow> contents" where
  "file_contents d =
     \<lparr>docs = (\<lambda>n p. if n = DEFAULT_NS then doc_in (dget d (manifest_file p)) else None),
      decs = (\<lambda>n p. if n = DEFAULT_NS then records_in (dget d (decisions_file p)) else []),
      jnls = (\<lambda>n p k. if n = DEFAULT_NS \<and> undotted p
        then records_in (dget d (journal_file p k)) else [])\<rparr>"

fun file_allowed :: "rec_op \<Rightarrow> bool" where
  "file_allowed (GetJournal ns p k) = (case p of PStr s \<Rightarrow> undotted s | _ \<Rightarrow> True)"
| "file_allowed (AppendJournal ns p k r) =
     ((case p of PStr s \<Rightarrow> undotted s | _ \<Rightarrow> True) \<and> (case r of PDict e \<Rightarrow> plain e | _ \<Rightarrow> True))"
| "file_allowed _ = True"

definition serves_default :: "string \<Rightarrow> bool" where "serves_default n = (n = DEFAULT_NS)"

lemma ends_with_take: "ends_with s p \<Longrightarrow> take (length s - length p) s @ p = s"
  unfolding ends_with_def by (metis append_take_drop_id)

lemma suffix_clash:
  "p @ ''.manifest.json'' \<noteq> q @ ''.decisions.json''" "p @ ''.manifest.json'' \<noteq> q @ ''.journal.json''"
  "p @ ''.decisions.json'' \<noteq> q @ ''.journal.json''"
  by (auto dest!: arg_cong [where f = rev])

lemma not_ends_with:
  "\<not> ends_with (p @ ''.manifest.json'') ''.decisions.json''"
  "\<not> ends_with (p @ ''.manifest.json'') ''.journal.json''"
  "\<not> ends_with (p @ ''.decisions.json'') ''.manifest.json''"
  "\<not> ends_with (p @ ''.decisions.json'') ''.journal.json''"
  "\<not> ends_with (p @ ''.journal.json'') ''.manifest.json''"
  "\<not> ends_with (p @ ''.journal.json'') ''.decisions.json''"
  using ends_with_take suffix_clash by metis+

lemma undotted_prefix:
  "undotted p \<Longrightarrow> undotted q \<Longrightarrow> p @ CHR ''.'' # r = q @ CHR ''.'' # s \<Longrightarrow> p = q \<and> r = s"
proof (induction p arbitrary: q)
  case Nil
  then show ?case by (cases q) (auto simp: undotted_def)
next
  case (Cons c p)
  then show ?case by (cases q) (auto simp: undotted_def)
qed

lemma journal_file_alt: "journal_file p k = (p @ ''.'' @ k) @ ''.journal.json''"
  by (simp add: journal_file_def)

lemma file_names [simp]:
  "manifest_file p = manifest_file q \<longleftrightarrow> p = q" "decisions_file p = decisions_file q \<longleftrightarrow> p = q"
  "manifest_file p \<noteq> decisions_file q" "decisions_file q \<noteq> manifest_file p"
  "manifest_file p \<noteq> journal_file q k" "journal_file q k \<noteq> manifest_file p"
  "decisions_file p \<noteq> journal_file q k" "journal_file q k \<noteq> decisions_file p"
  by (simp_all only: manifest_file_def decisions_file_def journal_file_alt append_same_eq suffix_clash
      suffix_clash [symmetric] not_False_eq_True)

lemma journal_file_eq:
  assumes "undotted p" "undotted q"
  shows "journal_file p k = journal_file q j \<longleftrightarrow> p = q \<and> k = j"
proof
  assume "journal_file p k = journal_file q j"
  then have "p @ CHR ''.'' # (k @ ''.journal.json'') = q @ CHR ''.'' # (j @ ''.journal.json'')"
    by (simp only: journal_file_def append.simps)
  from undotted_prefix [OF assms this] show "p = q \<and> k = j" by (simp only: append_same_eq)
qed simp

lemma file_ok_names:
  "file_ok (manifest_file p) (Json v) = dict_ok v"
  "file_ok (decisions_file p) (Json v) = (\<exists>rs. v = records_value rs)"
  "file_ok (journal_file q k) (Json v) = (\<exists>rs. v = records_value rs \<and> list_all plain rs)"
proof -
  have j: "journal_file q k = (q @ ''.'' @ k) @ ''.journal.json''" by (simp add: journal_file_def)
  show "file_ok (manifest_file p) (Json v) = dict_ok v"
    by (simp add: file_ok_def manifest_file_def not_ends_with)
  show "file_ok (decisions_file p) (Json v) = (\<exists>rs. v = records_value rs)"
    by (simp add: file_ok_def decisions_file_def not_ends_with)
  show "file_ok (journal_file q k) (Json v) = (\<exists>rs. v = records_value rs \<and> list_all plain rs)"
    unfolding j file_ok_def by (simp only: not_ends_with ends_with_append file_content.inject) auto
qed

lemma fs_ok_read:
  assumes "fs_ok d" "dget d name = Some f"
  shows "\<exists>v. f = Json v \<and> file_ok name (Json v)"
  using assms unfolding fs_ok_def file_ok_def by blast

lemma fs_ok_write: "fs_ok d \<Longrightarrow> file_ok name (Json v) \<Longrightarrow> fs_ok (dset name (Json v) d)"
  by (simp add: fs_ok_def)

lemma dicts_in_map [simp]: "dicts_in (map PDict rs) = rs"
  by (induction rs) (auto simp: dicts_in_def)

lemma records_in_value [simp]: "records_in (Some (Json (records_value rs))) = rs" "records_in None = []"
  by (simp_all add: records_in_def records_value_def)

lemma doc_in_simps [simp]: "doc_in (Some (Json (PDict m))) = Some m" "doc_in None = None"
  by (simp_all add: doc_in_def)

text \<open>Reading a journal gives back plain entries.\<close>

lemma dset_same: "dget d k = Some v \<Longrightarrow> dset k v d = d"
  by (induction d) (auto simp: dset_def split: if_splits)

lemma normalized_step:
  assumes "\<forall>(k, v) \<in> set zs. k \<in> set DISPLAY_DEFAULTS \<and> v = PNone" "k \<in> set DISPLAY_DEFAULTS"
  shows "\<exists>zs'. dset k (dgetN e k) (e @ zs) = e @ zs' \<and>
    (\<forall>(k, v) \<in> set zs'. k \<in> set DISPLAY_DEFAULTS \<and> v = PNone)"
proof (cases "dget (e @ zs) k")
  case None
  then have "dget e k = None" by (simp add: dget_def map_add_def split: option.splits)
  then show ?thesis using assms dset_new [OF None] by (auto simp: dgetN_def)
next
  case (Some v)
  then have "v = dgetN e k"
    using assms by (auto simp: dget_def dgetN_def map_add_def dest!: map_of_SomeD split: option.splits)
  then show ?thesis using dset_same [OF Some] assms(1) by auto
qed

lemma without_normalized:
  assumes "plain e"
  shows "without_defaults (normalized e) = e"
proof -
  have "\<exists>zs'. fold (\<lambda>k x. dset k (dgetN e k) x) ks (e @ zs) = e @ zs' \<and>
      (\<forall>(k, v) \<in> set zs'. k \<in> set DISPLAY_DEFAULTS \<and> v = PNone)"
    if "set ks \<subseteq> set DISPLAY_DEFAULTS" "\<forall>(k, v) \<in> set zs. k \<in> set DISPLAY_DEFAULTS \<and> v = PNone" for ks zs
    using that
  proof (induction ks arbitrary: zs)
    case (Cons k ks)
    from normalized_step [OF Cons.prems(2), of k e] Cons.prems(1) obtain zs'
      where "dset k (dgetN e k) (e @ zs) = e @ zs'"
        "\<forall>(k, v) \<in> set zs'. k \<in> set DISPLAY_DEFAULTS \<and> v = PNone" by auto
    with Cons.IH [of zs'] Cons.prems(1) show ?case by simp
  qed auto
  from this [of DISPLAY_DEFAULTS "[]"] obtain zs where
    "normalized e = e @ zs" "\<forall>(k, v) \<in> set zs. k \<in> set DISPLAY_DEFAULTS \<and> v = PNone"
    by (auto simp: normalized_def)
  moreover from this(2) have "without_defaults zs = []" by (auto simp: without_defaults_def filter_empty_conv)
  moreover have "without_defaults e = e"
    using assms by (auto simp: plain_def without_defaults_def list_all_iff filter_id_conv)
  ultimately show ?thesis by (simp add: without_defaults_def)
qed

lemma manifest_stem: "ends_with f ''.manifest.json'' \<Longrightarrow>
    manifest_file (take (length f - length ''.manifest.json'') f) = f"
  unfolding manifest_file_def by (rule ends_with_take)

lemma set_fs_list_manifests: "set (fs_list_manifests d) = {p. dget d (manifest_file p) \<noteq> None}"
proof -
  let ?stem = "\<lambda>f. take (length f - length ''.manifest.json'') f"
  have "p \<in> ?stem ` {f \<in> set (dkeys d). ends_with f ''.manifest.json''} \<longleftrightarrow> manifest_file p \<in> set (dkeys d)" for p
  proof
    assume "manifest_file p \<in> set (dkeys d)"
    moreover have "?stem (manifest_file p) = p" "ends_with (manifest_file p) ''.manifest.json''"
      by (simp_all add: manifest_file_def)
    ultimately show "p \<in> ?stem ` {f \<in> set (dkeys d). ends_with f ''.manifest.json''}"
      by (metis (no_types, lifting) image_eqI mem_Collect_eq)
  qed (auto simp: manifest_stem simp del: list.size)
  then show ?thesis unfolding fs_list_manifests_def by (auto simp: dget_None_iff)
qed

lemma dict_ok_iff: "dict_ok v \<longleftrightarrow> (\<exists>m. v = PDict m)"
  by (cases v) (simp_all add: dict_ok_def)

lemma distinct_fs_list_manifests:
  assumes "wf_dict d"
  shows "distinct (fs_list_manifests d)"
proof -
  let ?fs = "filter (\<lambda>f. ends_with f ''.manifest.json'') (dkeys d)"
  have "inj_on (\<lambda>f. take (length f - length ''.manifest.json'') f) (set ?fs)"
    by (rule inj_on_inverseI [where g = manifest_file]) (auto intro: manifest_stem simp del: list.size)
  with assms show ?thesis
    unfolding fs_list_manifests_def wf_dict_def by (simp add: distinct_map del: list.size)
qed

lemma direct_read_disk_of:
  "direct_read (\<lambda>x. x) (disk_of d) (manifest_path [] p) = doc_in (dget d (manifest_file p))"
  by (auto simp: direct_read_def disk_of_def manifest_path_def manifest_file_def doc_in_def
      read_strict_def split: option.split file_content.split pyval.split)

lemma wf_load_fold:
  "wf_dict ms \<Longrightarrow> wf_dict (fst (fold (load_one resolve dk dir exclude) names (ms, c, w)))"
proof (induction names arbitrary: ms c w)
  case (Cons plan names)
  obtain ms1 c1 w1 where
    l: "load_one resolve dk dir exclude plan (ms, c, w) = (ms1, c1, w1)"
    by (cases "load_one resolve dk dir exclude plan (ms, c, w)") auto
  then have "wf_dict ms1"
    using Cons.prems by (auto simp: load_one_def split: if_splits prod.splits option.splits)
  with l Cons.IH show ?case by simp
qed simp

lemma load_manifests_contents:
  shows "wf_dict (fs_load_manifests d)"
    "dget (fs_load_manifests d) = docs (file_contents d) DEFAULT_NS"
proof -
  let ?names = "sort_key (\<lambda>p. p @ ''.manifest.json'') (fs_list_manifests d)"
  let ?c = "prune_manifest_cache (\<lambda>x. x) [] (map (manifest_path []) ?names) clear_manifest_cache"
  let ?body = "\<lambda>p st. json_of (disk_of d) p"
  have e: "fs_load_manifests d = fst (fold (load_one (\<lambda>x. x) (disk_of d) [] None) ?names ([], ?c, []))"
    by (simp add: fs_load_manifests_def load_manifests_def Let_def)
  show "wf_dict (fs_load_manifests d)" unfolding e by (rule wf_load_fold) simp
  obtain ms c' w where l: "fold (load_one (\<lambda>x. x) (disk_of d) [] None) ?names ([], ?c, []) = (ms, c', w)"
    by (cases "fold (load_one (\<lambda>x. x) (disk_of d) [] None) ?names ([], ?c, [])") auto
  have "stamped ?body (disk_of d)" by (simp add: stamped_def)
  from load_fold_ok [OF prune_ok [OF clear_ok] this l] e l
  show "dget (fs_load_manifests d) = docs (file_contents d) DEFAULT_NS"
    by (auto simp: fun_eq_iff file_contents_def direct_read_disk_of set_fs_list_manifests)
qed

lemma manifest_names:
  assumes "fs_ok d"
  shows "{p. docs (file_contents d) DEFAULT_NS p \<noteq> None} = set (fs_list_manifests d)"
proof -
  have "doc_in (dget d (manifest_file p)) \<noteq> None" if "dget d (manifest_file p) = Some f" for p f
    using fs_ok_read [OF assms that] that
    by (auto simp: file_ok_names dict_ok_iff)
  then have "doc_in (dget d (manifest_file p)) \<noteq> None \<longleftrightarrow> dget d (manifest_file p) \<noteq> None" for p
    by (cases "dget d (manifest_file p)") auto
  then show ?thesis by (simp add: set_fs_list_manifests file_contents_def)
qed

lemma get_manifest_file:
  assumes "fs_ok d"
  shows "fs_get_manifest_or_none p d = Inr (doc_value (docs (file_contents d) DEFAULT_NS p))"
proof (cases "dget d (manifest_file p)")
  case (Some f)
  from fs_ok_read [OF assms Some] obtain m where "f = Json (PDict m)"
    by (auto simp: file_ok_names dict_ok_iff)
  with Some show ?thesis
    by (simp add: fs_get_manifest_or_none_def fs_get_manifest_def read_strict_def file_contents_def doc_value_def)
qed (simp add: fs_get_manifest_or_none_def fs_get_manifest_def read_strict_def file_contents_def doc_value_def)

lemma get_decisions_file:
  assumes "fs_ok d"
  shows "fs_get_decisions p d = records_value (decs (file_contents d) DEFAULT_NS p)"
proof (cases "dget d (decisions_file p)")
  case (Some f)
  from fs_ok_read [OF assms Some] obtain rs where "f = Json (records_value rs)"
    by (auto simp: file_ok_names)
  with Some show ?thesis
    by (simp add: fs_get_decisions_def read_lenient_def read_strict_def file_contents_def)
qed (simp add: fs_get_decisions_def read_lenient_def read_strict_def file_contents_def records_value_def)

lemma get_journal_file:
  assumes "fs_ok d" "undotted p"
  shows "map without_defaults (snd (fs_get_journal p k d)) = jnls (file_contents d) DEFAULT_NS p k"
proof (cases "dget d (journal_file p k)")
  case (Some f)
  from fs_ok_read [OF assms(1) Some] obtain rs where
    rs: "f = Json (records_value rs)" "list_all plain rs" by (auto simp: file_ok_names)
  from rs(2) have "map (without_defaults \<circ> normalized) rs = rs"
    by (induction rs) (auto simp: without_normalized)
  with Some rs assms(2) show ?thesis
    by (simp add: fs_get_journal_def read_lenient_def read_strict_def file_contents_def records_value_def
        records_in_def)
qed (simp add: fs_get_journal_def read_lenient_def read_strict_def file_contents_def)

lemma refuse_cases:
  assumes "settle (bindE (refuse_other_namespace n) f) s = (r, t)"
  shows "(n = DEFAULT_NS \<and> settle (f ()) s = (r, t)) \<or>
    (\<not> serves_default n \<and> (\<exists>e. r = Raised e) \<and> t = s)"
  using assms by (auto simp: refuse_other_namespace_def guardE_def serves_default_def split: if_splits)

lemmas file_defs = file_get_manifest_def file_get_manifests_def file_put_manifest_def
  file_list_plans_def file_get_decisions_def file_append_decision_def file_get_journal_def
  file_append_journal_def

lemma default_namespace_ok [simp]: "namespace_re DEFAULT_NS" "serves_default DEFAULT_NS"
  by (simp_all add: DEFAULT_NS_def namespace_re_def is_lower_def serves_default_def)

text \<open>What a write does to the contents.\<close>

lemma write_contents:
  "file_contents (dset (manifest_file p) (Json (PDict m)) d) =
     (file_contents d)\<lparr>docs := (docs (file_contents d))(DEFAULT_NS :=
      (docs (file_contents d) DEFAULT_NS)(p \<mapsto> m))\<rparr>"
  "file_contents (dset (decisions_file p) (Json (records_value rs)) d) =
     (file_contents d)\<lparr>decs := (decs (file_contents d))(DEFAULT_NS :=
      (decs (file_contents d) DEFAULT_NS)(p := rs))\<rparr>"
  "undotted p \<Longrightarrow> file_contents (dset (journal_file p k) (Json (records_value rs)) d) =
     (file_contents d)\<lparr>jnls := (jnls (file_contents d))(DEFAULT_NS :=
      (jnls (file_contents d) DEFAULT_NS)(p := (jnls (file_contents d) DEFAULT_NS p)(k := rs)))\<rparr>"
  by (auto simp: file_contents_def fun_eq_iff journal_file_eq)

lemma write_ok:
  assumes "fs_ok d"
  shows "fs_ok (dset (manifest_file p) (Json (PDict m)) d)"
    "fs_ok (dset (decisions_file p) (Json (records_value rs)) d)"
    "list_all plain rs \<Longrightarrow> fs_ok (dset (journal_file q k) (Json (records_value rs)) d)"
  by (rule fs_ok_write [OF assms], auto simp: file_ok_names)+

lemma append_file:
  assumes "\<And>f. dget d name = Some f \<Longrightarrow> \<exists>rs. f = Json (records_value rs)"
  shows "append_to True name (PDict r) d =
    Inr (dset name (Json (records_value (records_in (dget d name) @ [r]))) d)"
proof (cases "dget d name")
  case (Some f)
  with assms obtain rs where "f = Json (records_value rs)" by blast
  with Some show ?thesis
    by (auto simp: append_to_def read_strict_def records_value_def write_json_def records_in_def)
next
  case None
  then show ?thesis by (auto simp: append_to_def write_json_def records_value_def)
qed

lemma append_decision_file:
  assumes "fs_ok d"
  shows "fs_append_decision True p (PDict r) d = Inr (dset (decisions_file p)
    (Json (records_value (decs (file_contents d) DEFAULT_NS p @ [r]))) d)"
  using append_file [of d "decisions_file p" r] fs_ok_read [OF assms, of "decisions_file p"]
  by (auto simp: fs_append_decision_def file_ok_names file_contents_def)

lemma append_journal_file:
  assumes "fs_ok d" "undotted p"
  shows "fs_append_journal True p k (PDict r) d = Inr (dset (journal_file p k)
    (Json (records_value (jnls (file_contents d) DEFAULT_NS p k @ [r]))) d)"
  using append_file [of d "journal_file p k" r] fs_ok_read [OF assms(1), of "journal_file p k"] assms(2)
  by (auto simp: fs_append_journal_def file_ok_names file_contents_def)

lemma journals_plain:
  assumes "fs_ok d" "undotted p"
  shows "list_all plain (jnls (file_contents d) DEFAULT_NS p k)"
  using fs_ok_read [OF assms(1), of "journal_file p k"] assms(2)
  by (cases "dget d (journal_file p k)") (auto simp: file_ok_names file_contents_def)

lemma save_manifest_file:
  "fs_save_manifest True p (PDict m) d = Inr (dset (manifest_file p) (Json (PDict m)) d)"
  by (simp add: fs_save_manifest_def write_json_def)

lemma file_keeps_contract:
  assumes "fs_ok d" "file_allowed x" "file_step True x d = (r, t)"
  shows "fs_ok t \<and> promises serves_default x (file_contents d) r (file_contents t)"
proof (cases x)
  case (GetManifests ns)
  with assms load_manifests_contents [of d] show ?thesis
    by (auto simp: file_defs promises_def
        dest!: checked_cases [where g = serves_default] refuse_cases
        intro!: exI [of _ "fs_load_manifests d"])
next
  case (ListPlans ns)
  with assms distinct_fs_list_manifests [of d] manifest_names [OF assms(1)] show ?thesis
    by (auto simp: file_defs promises_def fs_ok_def
        dest!: checked_cases [where g = serves_default] refuse_cases
        intro!: exI [of _ "sort (fs_list_manifests d)"])
next
  case (GetManifest ns p)
  with assms get_manifest_file [OF assms(1)] show ?thesis
    by (auto simp: file_defs promises_def
        dest!: checked_cases [where g = serves_default] plan_cases refuse_cases)
next
  case (PutManifest ns p m)
  with assms show ?thesis
    by (auto simp: file_defs promises_def save_manifest_file write_contents write_ok
        dest!: checked_cases [where g = serves_default] plan_cases refuse_cases dict_cases)
next
  case (GetDecisions ns p)
  with assms get_decisions_file [OF assms(1)] show ?thesis
    by (auto simp: file_defs promises_def
        dest!: checked_cases [where g = serves_default] plan_cases refuse_cases)
next
  case (AppendDecision ns p e)
  with assms show ?thesis
    by (auto simp: file_defs promises_def append_decision_file write_contents write_ok
        dest!: checked_cases [where g = serves_default] plan_cases refuse_cases dict_cases)
next
  case (GetJournal ns p k)
  with assms get_journal_file [OF assms(1)] show ?thesis
    by (auto simp: file_defs promises_def
        dest!: checked_cases [where g = serves_default] plan_cases key_cases refuse_cases)
next
  case (AppendJournal ns p k e)
  with assms show ?thesis
    by (auto simp: file_defs promises_def append_journal_file write_contents write_ok journals_plain
        dest!: checked_cases [where g = serves_default] plan_cases key_cases refuse_cases dict_cases)
qed

interpretation file_records: record_store "file_step True" fs_ok file_contents serves_default file_allowed
  by unfold_locales (rule file_keeps_contract)

text \<open>A write that fails changes nothing; a call that raises changes nothing.\<close>

lemma raise_writes_nothing: "file_step io x d = (Raised e, t) \<Longrightarrow> t = d"
  by (cases x) (auto simp: settle_def split: sum.splits)

lemma failed_write: "append_to False name r d \<noteq> Inr d'"
proof
  assume "append_to False name r d = Inr d'"
  then obtain log where "(case log of PList rs \<Rightarrow> write_json False name (PList (rs @ [r])) d
      | _ \<Rightarrow> Inl StoreAttributeError) = Inr d'" by (auto simp: append_to_def)
  then show False by (cases log) (auto simp: write_json_def)
qed

lemma failing_disk_writes_nothing: "file_step False x d = (r, t) \<Longrightarrow> t = d"
  by (cases x) (auto simp: file_defs settle_def bindE_Inr_iff fs_save_manifest_def write_json_def
      fs_append_decision_def fs_append_journal_def failed_write split: sum.splits)

subsection \<open>Properties\<close>

text \<open>What each call may answer.\<close>

fun typed_answer :: "rec_op \<Rightarrow> rec_result \<Rightarrow> bool" where
  "typed_answer _ (Raised _) \<longleftrightarrow> True"
| "typed_answer (GetManifest _ _) (Value v) \<longleftrightarrow> v = PNone \<or> dict_ok v"
| "typed_answer (GetManifests _) (Value v) \<longleftrightarrow>
     (\<exists>d. v = PDict d \<and> wf_dict d \<and> list_all (\<lambda>(_, m). dict_ok m) d)"
| "typed_answer (ListPlans _) (Value v) \<longleftrightarrow> (\<exists>ps. v = PList (map PStr ps) \<and> sorted ps \<and> distinct ps)"
| "typed_answer (GetDecisions _ _) (Value v) \<longleftrightarrow> (\<exists>rs. v = PList rs \<and> list_all dict_ok rs)"
| "typed_answer (GetJournal _ _ _) (Value v) \<longleftrightarrow> (\<exists>rs. v = PList rs \<and> list_all dict_ok rs)"
| "typed_answer _ (Value v) \<longleftrightarrow> v = PNone"

lemma wf_docs_value: "wf_dict ms \<Longrightarrow> \<exists>d. docs_value ms = PDict d \<and> wf_dict d \<and> (\<forall>(_, m) \<in> set d. dict_ok m)"
  by (auto simp: docs_value_def wf_dict_def dkeys_def comp_def split_def)

lemma promises_typed: "promises f x c r c' \<Longrightarrow> typed_answer x r"
  by (cases "(x, c, r, c')" rule: promised_answer.cases)
    (auto simp: promises_def doc_value_def records_value_def list_all_iff dict_ok_iff
      split: if_splits option.splits dest: wf_docs_value)

lemma promised_run_typed: "promised_run f xs c rs c' \<Longrightarrow> list_all2 typed_answer xs rs"
  by (induction xs arbitrary: c rs) (auto dest: promises_typed)

text \<open>
  The directory a typed store needs: names are unique, and a manifest file or a decisions file that
  can be read holds an object or a list of objects.  Journals, and any other file, may hold anything.
\<close>

definition records_typed :: "fs \<Rightarrow> bool" where
  "records_typed d \<longleftrightarrow> wf_dict d \<and>
     (\<forall>p v. read_strict (dget d (manifest_file p)) = Inr v \<longrightarrow> dict_ok v) \<and>
     (\<forall>p v. read_lenient (dget d (decisions_file p)) = Inr v \<longrightarrow> (\<exists>rs. v = records_value rs))"

lemma read_json [simp]: "read_strict (Some (Json v)) = Inr v" "read_lenient (Some (Json v)) = Inr v"
  by (simp_all add: read_strict_def read_lenient_def)

lemma read_strict_lenient: "read_strict f = Inr v \<Longrightarrow> read_lenient f = Inr v"
  by (auto simp: read_strict_def read_lenient_def split: option.splits file_content.splits)

lemma records_typed_write:
  assumes "records_typed d"
  shows "records_typed (dset (manifest_file p) (Json (PDict m)) d)"
    "records_typed (dset (decisions_file p) (Json (records_value rs)) d)"
    "records_typed (dset (journal_file p k) (Json v) d)"
  using assms by (auto simp: records_typed_def dict_ok_iff)

lemma append_written:
  assumes "append_to io name r d = Inr t"
  shows "\<exists>rs. t = dset name (Json (PList (rs @ [r]))) d \<and>
    (dget d name = None \<and> rs = [] \<or> read_strict (dget d name) = Inr (PList rs))"
proof -
  from assms obtain v where v: "(case dget d name of None \<Rightarrow> Inr (PList []) | f \<Rightarrow> read_strict f) = Inr v"
    "(case v of PList rs \<Rightarrow> write_json io name (PList (rs @ [r])) d | _ \<Rightarrow> Inl StoreAttributeError) = Inr t"
    unfolding append_to_def bindE_Inr_iff by blast
  then obtain rs where "v = PList rs" by (auto split: pyval.splits)
  with v show ?thesis
    by (intro exI [of _ rs]) (auto simp: write_json_def split: option.splits if_splits)
qed

lemma records_value_list: "PList vs = records_value rs \<longleftrightarrow> vs = map PDict rs"
  by (auto simp: records_value_def)

lemma records_typed_append:
  assumes "records_typed d" "append_to io (decisions_file p) (PDict e) d = Inr t"
  shows "records_typed t"
proof -
  from append_written [OF assms(2)] obtain vs where vs:
    "t = dset (decisions_file p) (Json (PList (vs @ [PDict e]))) d"
    "dget d (decisions_file p) = None \<and> vs = [] \<or> read_strict (dget d (decisions_file p)) = Inr (PList vs)"
    by blast
  with assms(1) obtain rs where "vs = map PDict rs"
    unfolding records_typed_def records_value_list [symmetric] by (metis list.map(1) read_strict_lenient records_value_list)
  then have "PList (vs @ [PDict e]) = records_value (rs @ [e])" by (simp add: records_value_def)
  with vs(1) records_typed_write(2) [OF assms(1)] show ?thesis by metis
qed

lemma read_manifest_typed:
  "records_typed d \<Longrightarrow> fs_get_manifest_or_none p d = Inr v \<Longrightarrow> v = PNone \<or> dict_ok v"
  by (auto simp: fs_get_manifest_or_none_def fs_get_manifest_def records_typed_def
      split: sum.splits store_exn.splits)

lemma dicts_typed: "list_all dict_ok (map PDict rs)"
  by (simp add: list_all_iff dict_ok_iff)

lemma read_decisions_typed:
  assumes "records_typed d"
  shows "\<exists>vs. fs_get_decisions p d = PList vs \<and> list_all dict_ok vs"
proof (cases "read_lenient (dget d (decisions_file p))")
  case (Inr v)
  with assms obtain rs where "v = records_value rs" unfolding records_typed_def by blast
  with Inr show ?thesis by (simp add: fs_get_decisions_def records_value_def dicts_typed)
qed (simp add: fs_get_decisions_def)

lemma file_step_typed:
  assumes "records_typed d" "file_step io x d = (r, t)"
  shows "records_typed t \<and> typed_answer x r"
proof (cases x)
  case (GetManifests ns)
  with assms wf_docs_value [OF load_manifests_contents(1) [of d]] show ?thesis
    by (auto simp: file_defs bindE_Inr_iff settle_def list_all_iff split: sum.splits)
next
  case (ListPlans ns)
  with assms show ?thesis
    by (auto simp: file_defs bindE_Inr_iff settle_def records_typed_def distinct_fs_list_manifests
        intro!: exI [of _ "sort (fs_list_manifests d)"] split: sum.splits)
next
  case (GetManifest ns p)
  with assms show ?thesis
    by (auto simp: file_defs bindE_Inr_iff settle_def split: sum.splits dest: read_manifest_typed)
next
  case (PutManifest ns p m)
  with assms show ?thesis
    by (auto simp: file_defs bindE_Inr_iff settle_def fs_save_manifest_def write_json_def
        intro: records_typed_write split: sum.splits if_splits)
next
  case (GetDecisions ns p)
  with assms read_decisions_typed [OF assms(1)] show ?thesis
    by (auto simp: file_defs bindE_Inr_iff settle_def split: sum.splits)
next
  case (AppendDecision ns p e)
  with assms show ?thesis
    by (auto simp: file_defs bindE_Inr_iff settle_def fs_append_decision_def
        intro: records_typed_append split: sum.splits)
next
  case (GetJournal ns p k)
  with assms show ?thesis
    by (auto simp: file_defs bindE_Inr_iff settle_def records_value_def list_all_iff dict_ok_iff
        split: sum.splits)
next
  case (AppendJournal ns p k e)
  with assms show ?thesis
    by (auto simp: file_defs bindE_Inr_iff settle_def fs_append_journal_def
        intro: records_typed_write dest!: append_written split: sum.splits)
qed
lemma file_run_typed:
  "records_typed d \<Longrightarrow> run_ops (file_step io) xs d = (rs, t) \<Longrightarrow> list_all2 typed_answer xs rs"
proof (induction xs arbitrary: d rs)
  case (Cons x xs)
  obtain r u where x: "file_step io x d = (r, u)" by (cases "file_step io x d")
  obtain rs' where "run_ops (file_step io) xs u = (rs', t)" "rs = r # rs'"
    using Cons.prems(2) x by (auto split: prod.splits)
  with file_step_typed [OF Cons.prems(1) x] Cons.IH [of u rs'] show ?case by simp
qed simp

text \<open>
  C35: Type safety of the record stores: whatever values a client passes, in any sequence of calls,
  the store in memory, in any state its own calls leave (\<open>mem_ok\<close>), and the file store, on a
  directory whose readable manifest and decision files hold objects and lists of objects
  (\<open>records_typed\<close>) and with writes that all succeed or all fail, answer every call with an
  exception or with a value of the type the contract declares: a manifest that is an object, a
  sorted list of names, a list of records.
\<close>

theorem answers_are_typed:
  assumes "records_typed d" "mem_ok s"
  shows "list_all2 typed_answer xs (fst (run_ops (file_step io) xs d)) \<and>
    list_all2 typed_answer xs (fst (run_ops mem_step xs s))"
proof -
  obtain rs t where f: "run_ops (file_step io) xs d = (rs, t)"
    by (cases "run_ops (file_step io) xs d")
  obtain qs u where m: "run_ops mem_step xs s = (qs, u)" by (cases "run_ops mem_step xs s")
  from file_run_typed [OF assms(1) f] have "list_all2 typed_answer xs rs" .
  moreover from mem_records.run_keeps_promise [OF assms(2) _ m] have "list_all2 typed_answer xs qs"
    by (auto dest: promised_run_typed)
  ultimately show ?thesis using f m by simp
qed

definition demo_calls :: "rec_op list" where
  "demo_calls =
     [PutManifest (PStr ''default'') (PStr ''p'') (PDict [(''v'', PInt 1)]),
      PutManifest (PStr ''default'') (PStr ''../x'') (PDict []),
      AppendJournal (PStr ''default'') (PStr ''p'') (PStr ''S1'') (PDict [(''ts'', PStr ''t'')]),
      GetManifest (PStr ''default'') (PStr ''p''),
      GetJournal (PStr ''default'') (PStr ''p'') (PStr ''S1'')]"

lemma demo_calls_allowed: "\<forall>x \<in> set demo_calls. file_allowed x"
  by (simp add: demo_calls_def undotted_def plain_def DISPLAY_DEFAULTS_def)

lemma fs_ok_empty: "fs_ok []" and mem_ok_new: "mem_ok mem_new"
  by (simp_all add: fs_ok_def mem_ok_def mem_new_def)

theorem answers_are_typed_witness:
  "list_all2 typed_answer demo_calls (fst (run_ops (file_step True) demo_calls [])) \<and>
     list_all2 typed_answer demo_calls (fst (run_ops mem_step demo_calls mem_new))"
proof -
  have "records_typed []" by (simp add: records_typed_def read_strict_def read_lenient_def)
  from answers_are_typed [OF this mem_ok_new] show ?thesis by blast
qed

subsection \<open>Where the files differ\<close>

text \<open>
  The journals of story \<open>b.c\<close> of plan \<open>a\<close> and of story \<open>c\<close> of plan \<open>a.b\<close> are one file: an entry
  written for one is read for the other.
\<close>

lemma journals_collide:
  "fst (run_ops (file_step True)
     [AppendJournal (PStr ''default'') (PStr ''a.b'') (PStr ''c'') (PDict [(''ts'', PStr ''t'')]),
      GetJournal (PStr ''default'') (PStr ''a'') (PStr ''b.c'')] []) =
   [Value PNone, Value (PList [PDict [(''ts'', PStr ''t'')]])]"
  by code_simp

text \<open>An explicit null in a display field is not read back.\<close>

lemma explicit_null_dropped:
  "fst (run_ops (file_step True)
     [AppendJournal (PStr ''default'') (PStr ''p'') (PStr ''c'') (PDict [(''step'', PNone)]),
      GetJournal (PStr ''default'') (PStr ''p'') (PStr ''c'')] []) =
   [Value PNone, Value (PList [PDict []])]"
  by code_simp

text \<open>A bulk read lists the plans in the order of their file names, not of their names.\<close>

lemma bulk_read_unsorted:
  "fst (run_ops (file_step True)
     [PutManifest (PStr ''default'') (PStr ''a'') (PDict []),
      PutManifest (PStr ''default'') (PStr ''a-b'') (PDict []),
      GetManifests (PStr ''default''), ListPlans (PStr ''default'')] []) =
   [Value PNone, Value PNone, Value (PDict [(''a-b'', PDict []), (''a'', PDict [])]),
    Value (PList [PStr ''a'', PStr ''a-b''])]"
  by code_simp

text \<open>A manifest whose bytes are no UTF-8 is skipped by the bulk read and raises on its own.\<close>

lemma bad_bytes_raise:
  "file_step True (GetManifest (PStr ''default'') (PStr ''p'')) [(''p.manifest.json'', NotUtf8 None)] =
     (Raised BadText, [(''p.manifest.json'', NotUtf8 None)]) \<and>
   fst (file_step True (GetManifests (PStr ''default'')) [(''p.manifest.json'', NotUtf8 None)]) =
     Value (PDict [])"
  by code_simp

end
