(* ===== verification/DatabaseStore.thy ===== *)
theory DatabaseStore
  imports RecordStore
begin

text \<open>
  \<open>SqliteStore\<close> and \<open>SqliteRecords\<close> of \<open>src/pipeline/store_sqlite.py\<close>: a table of manifests beside
  the files of the plans directory, reconciled on read, with write transactions.  A row is what its
  text parses to, if anything.  The store has one connection under one guard, so its calls come one
  after another; another process shows in the flag that says whether the database's write lock could
  be had.
\<close>

subsection \<open>State\<close>

type_synonym rows = "(string \<times> pyval option) list"

record database =
  rows :: rows
  before :: rows
  pending :: "(string \<times> pyval) list"
  depth :: nat
  on_disk :: fs

definition db_open :: "rows \<Rightarrow> fs \<Rightarrow> database" where
  "db_open rs d = \<lparr>rows = rs, before = rs, pending = [], depth = 0, on_disk = d\<rparr>"

definition write_row :: "bool \<Rightarrow> string \<Rightarrow> pyval \<Rightarrow> database \<Rightarrow> store_exn + database" where
  "write_row lock p m s =
     (if lock \<or> depth s > 0 then Inr (s\<lparr>rows := dset p (Some m) (rows s)\<rparr>) else Inl DatabaseLocked)"

subsection \<open>Reading\<close>

definition stored_document :: "string \<Rightarrow> database \<Rightarrow> store_exn + pyval" where
  "stored_document p s =
     (case dget (rows s) p of
        None \<Rightarrow> Inr PNone
      | Some None \<Rightarrow> Inl BadJson
      | Some (Some v) \<Rightarrow> Inr v)"

definition projected_document :: "string \<Rightarrow> database \<Rightarrow> store_exn + pyval" where
  "projected_document p s =
     (case fs_get_manifest p (on_disk s) of Inl FileMissing \<Rightarrow> Inr PNone | x \<Rightarrow> x)"

text \<open>An import that loses the race for the write lock is skipped.\<close>

definition import_row :: "bool \<Rightarrow> string \<Rightarrow> pyval \<Rightarrow> database \<Rightarrow> database" where
  "import_row lock p m s = (case write_row lock p m s of Inl _ \<Rightarrow> s | Inr s' \<Rightarrow> s')"

definition resolved_document :: "bool \<Rightarrow> string \<Rightarrow> database \<Rightarrow> store_exn + (pyval \<times> database)" where
  "resolved_document lock p s =
     bindE (projected_document p s) (\<lambda>projected.
     bindE (case stored_document p s of
              Inl e \<Rightarrow> if projected = PNone then Inl e else Inr PNone
            | Inr v \<Rightarrow> Inr v) (\<lambda>stored.
     if dget (pending s) p \<noteq> None \<or> projected = PNone then Inr (stored, s)
     else if \<not> py_eq projected stored then Inr (projected, import_row lock p projected s)
     else Inr (projected, s)))"

definition db_get_manifest :: "bool \<Rightarrow> string \<Rightarrow> database \<Rightarrow> store_exn + (pyval \<times> database)" where
  "db_get_manifest lock p s =
     bindE (resolved_document lock p s) (\<lambda>(v, s').
     if v = PNone then Inl FileMissing else Inr (v, s'))"

definition db_get_manifest_or_none :: "bool \<Rightarrow> string \<Rightarrow> database \<Rightarrow> store_exn + (pyval \<times> database)" where
  "db_get_manifest_or_none lock p s =
     (case resolved_document lock p s of
        Inl BadJson \<Rightarrow> Inr (PNone, s)
      | Inl BadText \<Rightarrow> Inr (PNone, s)
      | x \<Rightarrow> x)"

definition db_list_manifests :: "database \<Rightarrow> string list" where
  "db_list_manifests s = sort (remdups (dkeys (rows s) @ fs_list_manifests (on_disk s)))"

subsection \<open>Writing\<close>

definition db_save_manifest :: "bool \<Rightarrow> bool \<Rightarrow> string \<Rightarrow> pyval \<Rightarrow> database \<Rightarrow> database \<times> store_exn option" where
  "db_save_manifest lock io p m s =
     (case write_row lock p m s of
        Inl e \<Rightarrow> (s, Some e)
      | Inr s1 \<Rightarrow>
          if depth s1 > 0 then (s1\<lparr>pending := dset p m (pending s1)\<rparr>, None)
          else case fs_save_manifest io p m (on_disk s1) of
            Inl e \<Rightarrow> (s1, Some e)
          | Inr d \<Rightarrow> (s1\<lparr>on_disk := d\<rparr>, None))"

definition db_update_story ::
  "bool \<Rightarrow> bool \<Rightarrow> string \<Rightarrow> string \<Rightarrow> pydict \<Rightarrow> database \<Rightarrow> (store_exn + pyval) \<times> database" where
  "db_update_story lock io p key changes s =
     (case db_get_manifest lock p s of
        Inl e \<Rightarrow> (Inl e, s)
      | Inr (manifest, s1) \<Rightarrow>
          (case story_update manifest key changes of
             Inl e \<Rightarrow> (Inl e, s1)
           | Inr None \<Rightarrow> (Inr PNone, s1)
           | Inr (Some (st, m)) \<Rightarrow>
               (case db_save_manifest lock io p (PDict m) s1 of
                  (s2, None) \<Rightarrow> (Inr (PDict st), s2)
                | (s2, Some e) \<Rightarrow> (Inl e, s2))))"

subsection \<open>Transactions\<close>

definition db_begin :: "bool \<Rightarrow> database \<Rightarrow> bool \<times> database" where
  "db_begin lock s =
     (if depth s > 0 then (True, s\<lparr>depth := depth s + 1\<rparr>)
      else if lock then (True, s\<lparr>depth := 1, before := rows s\<rparr>)
      else (False, s))"

definition db_rollback :: "database \<Rightarrow> database" where
  "db_rollback s =
     (if depth s > 1 then s\<lparr>depth := depth s - 1\<rparr>
      else s\<lparr>rows := before s, pending := [], depth := 0\<rparr>)"

text \<open>
  A commit writes the pending manifests to their files, in order; it stops at the first that fails.
  \<open>writes\<close> says which succeed.
\<close>

fun project :: "bool list \<Rightarrow> (string \<times> pyval) list \<Rightarrow> fs \<Rightarrow> fs \<times> store_exn option" where
  "project ws [] d = (d, None)"
| "project ws ((p, m) # ms) d =
     (case fs_save_manifest (case ws of [] \<Rightarrow> True | w # _ \<Rightarrow> w) p m d of
        Inl e \<Rightarrow> (d, Some e)
      | Inr d' \<Rightarrow> project (drop 1 ws) ms d')"

definition db_commit :: "bool list \<Rightarrow> database \<Rightarrow> database \<times> store_exn option" where
  "db_commit ws s =
     (if depth s > 1 then (s\<lparr>depth := depth s - 1\<rparr>, None)
      else case project ws (pending s) (on_disk s) of
        (d, e) \<Rightarrow> (s\<lparr>pending := [], depth := 0, on_disk := d\<rparr>, e))"

subsection \<open>The record view\<close>

text \<open>\<open>_namespace\<close> checks the name and refuses any other namespace, before the other arguments.\<close>

definition the_namespace :: "pyval \<Rightarrow> store_exn + string" where
  "the_namespace ns =
     bindE (validate_namespace ns) (\<lambda>n. bindE (guardE (n = DEFAULT_NS) UnknownNamespace) (\<lambda>_. Inr n))"

type_synonym db_result = "(store_exn + pyval) \<times> database"

definition with_disk :: "database \<Rightarrow> store_exn + fs \<Rightarrow> (store_exn + pyval) \<times> database" where
  "with_disk s x = (case x of Inl e \<Rightarrow> (Inl e, s) | Inr d \<Rightarrow> (Inr PNone, s\<lparr>on_disk := d\<rparr>))"

definition checkedR :: "store_exn + 'a \<Rightarrow> database \<Rightarrow> ('a \<Rightarrow> db_result) \<Rightarrow> db_result" where
  "checkedR x s f = (case x of Inl e \<Rightarrow> (Inl e, s) | Inr a \<Rightarrow> f a)"

definition sql_get_manifest :: "bool \<Rightarrow> pyval \<Rightarrow> pyval \<Rightarrow> database \<Rightarrow> db_result" where
  "sql_get_manifest lock ns plan s =
     checkedR (the_namespace ns) s (\<lambda>_. checkedR (validate_plan_name plan) s (\<lambda>p.
     case db_get_manifest_or_none lock p s of Inl e \<Rightarrow> (Inl e, s) | Inr (v, s') \<Rightarrow> (Inr v, s')))"

text \<open>The loop of \<open>get_manifests\<close> over the listed plans, whose names are checked again.\<close>

fun read_all :: "bool \<Rightarrow> string list \<Rightarrow> (string \<times> pyval) list \<Rightarrow> database \<Rightarrow> (store_exn + (string \<times> pyval) list) \<times> database" where
  "read_all lock [] ms s = (Inr ms, s)"
| "read_all lock (p # ps) ms s =
     (case sql_get_manifest lock (PStr DEFAULT_NS) (PStr p) s of
        (Inl e, s') \<Rightarrow> (Inl e, s')
      | (Inr v, s') \<Rightarrow> read_all lock ps (if v = PNone then ms else dset p v ms) s')"

definition sql_get_manifests :: "bool \<Rightarrow> pyval \<Rightarrow> database \<Rightarrow> db_result" where
  "sql_get_manifests lock ns s =
     checkedR (the_namespace ns) s (\<lambda>_.
     case read_all lock (db_list_manifests s) [] s of
       (Inl e, s') \<Rightarrow> (Inl e, s')
     | (Inr ms, s') \<Rightarrow> (Inr (PDict (sort_key fst ms)), s'))"

definition sql_put_manifest :: "bool \<Rightarrow> bool \<Rightarrow> pyval \<Rightarrow> pyval \<Rightarrow> pyval \<Rightarrow> database \<Rightarrow> db_result" where
  "sql_put_manifest lock io ns plan manifest s =
     checkedR (the_namespace ns) s (\<lambda>_. checkedR (validate_plan_name plan) s (\<lambda>p.
     checkedR (need_dict manifest) s (\<lambda>m.
     case db_save_manifest lock io p (PDict m) s of
       (s', None) \<Rightarrow> (Inr PNone, s')
     | (s', Some e) \<Rightarrow> (Inl e, s'))))"

definition sql_list_plans :: "pyval \<Rightarrow> database \<Rightarrow> db_result" where
  "sql_list_plans ns s =
     checkedR (the_namespace ns) s (\<lambda>_. (Inr (PList (map PStr (db_list_manifests s))), s))"

definition sql_get_decisions :: "pyval \<Rightarrow> pyval \<Rightarrow> database \<Rightarrow> db_result" where
  "sql_get_decisions ns plan s =
     checkedR (the_namespace ns) s (\<lambda>_. checkedR (validate_plan_name plan) s (\<lambda>p.
     (Inr (fs_get_decisions p (on_disk s)), s)))"

definition sql_append_decision :: "bool \<Rightarrow> pyval \<Rightarrow> pyval \<Rightarrow> pyval \<Rightarrow> database \<Rightarrow> db_result" where
  "sql_append_decision io ns plan entry s =
     checkedR (the_namespace ns) s (\<lambda>_. checkedR (validate_plan_name plan) s (\<lambda>p.
     checkedR (need_dict entry) s (\<lambda>r. with_disk s (fs_append_decision io p (PDict r) (on_disk s)))))"

definition sql_get_journal :: "pyval \<Rightarrow> pyval \<Rightarrow> pyval \<Rightarrow> database \<Rightarrow> db_result" where
  "sql_get_journal ns plan story s =
     checkedR (the_namespace ns) s (\<lambda>_. checkedR (validate_plan_name plan) s (\<lambda>p.
     checkedR (validate_story_key story) s (\<lambda>k.
     (Inr (records_value (map without_defaults (snd (fs_get_journal p k (on_disk s))))), s))))"

definition sql_append_journal :: "bool \<Rightarrow> pyval \<Rightarrow> pyval \<Rightarrow> pyval \<Rightarrow> pyval \<Rightarrow> database \<Rightarrow> db_result" where
  "sql_append_journal io ns plan story entry s =
     checkedR (the_namespace ns) s (\<lambda>_. checkedR (validate_plan_name plan) s (\<lambda>p.
     checkedR (validate_story_key story) s (\<lambda>k. checkedR (need_dict entry) s (\<lambda>r.
     with_disk s (fs_append_journal io p k (PDict r) (on_disk s))))))"

definition to_result :: "db_result \<Rightarrow> rec_result \<times> database" where
  "to_result x = (case x of (Inl e, s) \<Rightarrow> (Raised e, s) | (Inr v, s) \<Rightarrow> (Value v, s))"

fun sql_step :: "bool \<Rightarrow> bool \<Rightarrow> rec_op \<Rightarrow> database \<Rightarrow> rec_result \<times> database" where
  "sql_step lock io (GetManifest ns plan) s = to_result (sql_get_manifest lock ns plan s)"
| "sql_step lock io (GetManifests ns) s = to_result (sql_get_manifests lock ns s)"
| "sql_step lock io (PutManifest ns plan m) s = to_result (sql_put_manifest lock io ns plan m s)"
| "sql_step lock io (ListPlans ns) s = to_result (sql_list_plans ns s)"
| "sql_step lock io (GetDecisions ns plan) s = to_result (sql_get_decisions ns plan s)"
| "sql_step lock io (AppendDecision ns plan r) s = to_result (sql_append_decision io ns plan r s)"
| "sql_step lock io (GetJournal ns plan k) s = to_result (sql_get_journal ns plan k s)"
| "sql_step lock io (AppendJournal ns plan k r) s = to_result (sql_append_journal io ns plan k r s)"

subsection \<open>The database store keeps the contract\<close>

text \<open>
  Between transactions, on a directory the pipeline wrote: every row has its file, whatever the row
  says, and every manifest file has a plan name the record view accepts.
\<close>

definition db_ok :: "database \<Rightarrow> bool" where
  "db_ok s \<longleftrightarrow> fs_ok (on_disk s) \<and> depth s = 0 \<and> pending s = [] \<and>
     (\<forall>p. dget (rows s) p \<noteq> None \<longrightarrow> dget (on_disk s) (manifest_file p) \<noteq> None) \<and>
     (\<forall>p. dget (on_disk s) (manifest_file p) \<noteq> None \<longrightarrow> plan_ok (PStr p))"

definition db_contents :: "database \<Rightarrow> contents" where "db_contents s = file_contents (on_disk s)"

abbreviation doc_of :: "database \<Rightarrow> string \<Rightarrow> pydict option" where
  "doc_of s p \<equiv> docs (file_contents (on_disk s)) DEFAULT_NS p"

lemma manifest_on_disk:
  assumes "fs_ok d"
  shows "(dget d (manifest_file p) = None \<and> docs (file_contents d) DEFAULT_NS p = None) \<or>
    (\<exists>m. dget d (manifest_file p) = Some (Json (PDict m)) \<and>
       docs (file_contents d) DEFAULT_NS p = Some m)"
proof (cases "dget d (manifest_file p)")
  case (Some f)
  from fs_ok_read [OF assms Some] Some show ?thesis
    by (auto simp: file_ok_names dict_ok_iff file_contents_def)
qed (simp add: file_contents_def)

lemma import_row_ok:
  "db_ok s \<Longrightarrow> dget (on_disk s) (manifest_file p) \<noteq> None \<Longrightarrow>
     db_ok (import_row lock p m s) \<and> on_disk (import_row lock p m s) = on_disk s"
  by (auto simp: import_row_def write_row_def db_ok_def)

lemma resolved_ok:
  assumes "db_ok s"
  shows "\<exists>s'. resolved_document lock p s = Inr (doc_value (doc_of s p), s') \<and> db_ok s' \<and>
    on_disk s' = on_disk s"
proof -
  have f: "fs_ok (on_disk s)" "pending s = []" using assms by (simp_all add: db_ok_def)
  show ?thesis
  proof (cases "doc_of s p")
    case None
    with manifest_on_disk [OF f(1), of p] have no: "dget (on_disk s) (manifest_file p) = None" by auto
    with assms have "dget (rows s) p = None" unfolding db_ok_def by blast
    with no f None assms show ?thesis
      by (simp add: resolved_document_def projected_document_def stored_document_def
          fs_get_manifest_def read_strict_def doc_value_def)
  next
    case (Some m)
    with manifest_on_disk [OF f(1), of p] have m: "dget (on_disk s) (manifest_file p) = Some (Json (PDict m))"
      by auto
    have "\<exists>v. (case stored_document p s of Inl e \<Rightarrow> if PDict m = PNone then Inl e else Inr PNone
        | Inr v \<Rightarrow> Inr v) = Inr v" by (simp split: sum.split)
    then obtain v where v: "(case stored_document p s of Inl e \<Rightarrow> if PDict m = PNone then Inl e else Inr PNone
        | Inr v \<Rightarrow> Inr v) = Inr v" by blast
    from m have "projected_document p s = Inr (PDict m)"
      by (simp add: projected_document_def fs_get_manifest_def read_strict_def)
    with v f(2) have "resolved_document lock p s = Inr (PDict m,
        if \<not> py_eq (PDict m) v then import_row lock p (PDict m) s else s)"
      by (simp only: resolved_document_def bindE_simps dget_simps pyval.distinct simp_thms if_False)
        (simp del: py_eq.simps)
    with Some m import_row_ok [OF assms, of p lock "PDict m"] assms show ?thesis
      by (simp add: doc_value_def del: py_eq.simps)
  qed
qed

lemma get_manifest_db:
  assumes "db_ok s"
  shows "\<exists>s'. db_get_manifest_or_none lock p s = Inr (doc_value (doc_of s p), s') \<and> db_ok s' \<and>
    on_disk s' = on_disk s"
  using resolved_ok [OF assms, of lock p] by (auto simp: db_get_manifest_or_none_def)

lemma the_namespace_default [simp]: "the_namespace (PStr DEFAULT_NS) = Inr DEFAULT_NS"
  by (simp add: the_namespace_def validate_namespace_def)

lemma plan_name_ok: "plan_ok (PStr p) \<Longrightarrow> validate_plan_name (PStr p) = Inr p"
  by (simp add: validate_plan_name_def)

definition docs_list :: "(string \<times> pydict) list \<Rightarrow> (string \<times> pyval) list" where
  "docs_list ms = map (\<lambda>(k, d). (k, PDict d)) ms"

lemma dset_docs_list: "dset k (PDict d) (docs_list ms) = docs_list (dset k d ms)"
  by (induction ms) (auto simp: docs_list_def dset_def)

lemma insort_docs_list: "insort_key fst (k, PDict d) (docs_list ms) = docs_list (insort_key fst (k, d) ms)"
  by (induction ms) (auto simp: docs_list_def)

lemma sort_docs_list: "sort_key fst (docs_list ms) = docs_list (sort_key fst ms)"
proof (induction ms)
  case (Cons x ms)
  obtain k d where x: "x = (k, d)" by (cases x)
  have "sort_key fst (docs_list (x # ms)) = insort_key fst (k, PDict d) (sort_key fst (docs_list ms))"
    by (simp add: x docs_list_def)
  also have "\<dots> = docs_list (sort_key fst (x # ms))" by (simp add: Cons insort_docs_list x)
  finally show ?case .
qed (simp add: docs_list_def)

lemma read_all_ok:
  assumes "db_ok s" "\<forall>p \<in> set ps. plan_ok (PStr p)" "wf_dict ms"
  shows "\<exists>ms' s'. read_all lock ps (docs_list ms) s = (Inr (docs_list ms'), s') \<and> db_ok s' \<and>
    on_disk s' = on_disk s \<and> wf_dict ms' \<and>
    (\<forall>p. dget ms' p = (if p \<in> set ps \<and> doc_of s p \<noteq> None then doc_of s p else dget ms p))"
  using assms
proof (induction ps arbitrary: s ms)
  case (Cons p ps)
  from get_manifest_db [OF Cons.prems(1), of lock p] obtain s1 where
    s1: "db_get_manifest_or_none lock p s = Inr (doc_value (doc_of s p), s1)" "db_ok s1"
      "on_disk s1 = on_disk s" by blast
  have g: "sql_get_manifest lock (PStr DEFAULT_NS) (PStr p) s = (Inr (doc_value (doc_of s p)), s1)"
    using s1(1) Cons.prems(2) by (simp add: sql_get_manifest_def checkedR_def plan_name_ok del: ok_simps)
  define ms1 where "ms1 = (case doc_of s p of None \<Rightarrow> ms | Some m \<Rightarrow> dset p m ms)"
  have "wf_dict ms1" using Cons.prems(3) by (auto simp: ms1_def split: option.split)
  moreover have "read_all lock (p # ps) (docs_list ms) s = read_all lock ps (docs_list ms1) s1"
    using g by (auto simp: ms1_def doc_value_def dset_docs_list split: option.split)
  moreover have "dget ms1 q = (if q = p \<and> doc_of s p \<noteq> None then doc_of s p else dget ms q)" for q
    by (auto simp: ms1_def split: option.split)
  moreover have "\<exists>ms' s'. read_all lock ps (docs_list ms1) s1 = (Inr (docs_list ms'), s') \<and>
      db_ok s' \<and> on_disk s' = on_disk s1 \<and> wf_dict ms' \<and>
      (\<forall>q. dget ms' q = (if q \<in> set ps \<and> doc_of s1 q \<noteq> None then doc_of s1 q else dget ms1 q))"
    by (rule Cons.IH) (use s1(2) Cons.prems(2) calculation(1) in auto)
  then obtain ms' s' where "read_all lock ps (docs_list ms1) s1 = (Inr (docs_list ms'), s')"
    "db_ok s'" "on_disk s' = on_disk s1" "wf_dict ms'"
    "\<forall>q. dget ms' q = (if q \<in> set ps \<and> doc_of s1 q \<noteq> None then doc_of s1 q else dget ms1 q)" by blast
  ultimately show ?case using s1(3) by (intro exI [of _ ms'] exI [of _ s']) auto
qed auto

lemma to_result_simps [simp]:
  "to_result (Inl e, s) = (Raised e, s)" "to_result (Inr v, s) = (Value v, s)"
  by (simp_all add: to_result_def)

lemma db_ns_cases:
  assumes "to_result (checkedR (the_namespace ns) s f) = (r, t)"
  shows "(ns = PStr DEFAULT_NS \<and> to_result (f DEFAULT_NS) = (r, t)) \<or>
    (\<not> ns_ok serves_default ns \<and> (\<exists>e. r = Raised e) \<and> t = s)"
proof (cases "validate_namespace ns")
  case (Inr n)
  then have "ns = PStr n" "namespace_re n" by (auto simp: validate_simps)
  with assms Inr show ?thesis
    by (auto simp: the_namespace_def checkedR_def guardE_def serves_default_def split: if_splits)
next
  case (Inl e)
  then have "\<not> ns_ok serves_default ns" by (rule refused_args)
  with assms Inl show ?thesis by (auto simp: the_namespace_def checkedR_def)
qed

lemma db_plan_cases:
  assumes "to_result (checkedR (validate_plan_name plan) s f) = (r, t)"
  shows "(\<exists>p. plan = PStr p \<and> plan_ok plan \<and> to_result (f p) = (r, t)) \<or>
    (\<not> plan_ok plan \<and> (\<exists>e. r = Raised e) \<and> t = s)"
  using assms by (cases "validate_plan_name plan") (auto simp: checkedR_def validate_simps refused_args)

lemma db_key_cases:
  assumes "to_result (checkedR (validate_story_key story) s f) = (r, t)"
  shows "(\<exists>k. story = PStr k \<and> key_ok story \<and> to_result (f k) = (r, t)) \<or>
    (\<not> key_ok story \<and> (\<exists>e. r = Raised e) \<and> t = s)"
  using assms by (cases "validate_story_key story") (auto simp: checkedR_def validate_simps refused_args)

lemma db_dict_cases:
  assumes "to_result (checkedR (need_dict v) s f) = (r, t)"
  shows "(\<exists>d. v = PDict d \<and> dict_ok v \<and> to_result (f d) = (r, t)) \<or>
    (\<not> dict_ok v \<and> (\<exists>e. r = Raised e) \<and> t = s)"
  using assms by (cases v) (auto simp: checkedR_def need_dict_def dict_ok_def)

lemmas db_cases = db_ns_cases db_plan_cases db_key_cases db_dict_cases

lemmas sql_defs = sql_get_manifest_def sql_get_manifests_def sql_put_manifest_def sql_list_plans_def
  sql_get_decisions_def sql_append_decision_def sql_get_journal_def sql_append_journal_def

lemma db_save_ok:
  assumes "db_ok s" "plan_ok (PStr p)"
  shows "\<exists>s'. db_save_manifest True True p (PDict m) s = (s', None) \<and> db_ok s' \<and>
    on_disk s' = dset (manifest_file p) (Json (PDict m)) (on_disk s)"
  using assms write_ok(1) [of "on_disk s"]
  by (auto simp: db_save_manifest_def write_row_def db_ok_def save_manifest_file)

lemma db_disk_ok:
  "db_ok s \<Longrightarrow> fs_ok (dset f c (on_disk s)) \<Longrightarrow> (\<And>p. f \<noteq> manifest_file p) \<Longrightarrow>
     db_ok (s\<lparr>on_disk := dset f c (on_disk s)\<rparr>)"
  by (auto simp: db_ok_def)

lemma db_names:
  assumes "db_ok s"
  shows "set (db_list_manifests s) = {p. doc_of s p \<noteq> None}" "sorted (db_list_manifests s)"
    "distinct (db_list_manifests s)" "\<forall>p \<in> set (db_list_manifests s). plan_ok (PStr p)"
proof -
  have "set (dkeys (rows s)) \<subseteq> set (fs_list_manifests (on_disk s))"
    using assms by (auto simp: db_ok_def set_fs_list_manifests dget_None_iff)
  then have e: "set (db_list_manifests s) = set (fs_list_manifests (on_disk s))"
    by (auto simp: db_list_manifests_def)
  then show "set (db_list_manifests s) = {p. doc_of s p \<noteq> None}"
    using manifest_names [of "on_disk s"] assms by (simp add: db_ok_def)
  show "\<forall>p \<in> set (db_list_manifests s). plan_ok (PStr p)"
    unfolding e set_fs_list_manifests using assms unfolding db_ok_def by blast
qed (simp_all add: db_list_manifests_def)

lemma sql_get_manifests_ok:
  assumes "db_ok s"
  shows "\<exists>ms s'. sql_get_manifests lock (PStr DEFAULT_NS) s = (Inr (docs_value ms), s') \<and>
    db_ok s' \<and> on_disk s' = on_disk s \<and> wf_dict ms \<and> dget ms = docs (file_contents (on_disk s)) DEFAULT_NS"
proof -
  from read_all_ok [OF assms db_names(4) [OF assms], of "[]" lock] obtain ms s' where
    ms: "read_all lock (db_list_manifests s) [] s = (Inr (docs_list ms), s')" "db_ok s'"
      "on_disk s' = on_disk s" "wf_dict ms"
      "\<And>p. dget ms p = (if p \<in> set (db_list_manifests s) \<and> doc_of s p \<noteq> None then doc_of s p else None)"
    by (auto simp: docs_list_def)
  have "dget ms = docs (file_contents (on_disk s)) DEFAULT_NS"
    using ms(5) db_names(1) [OF assms] by (auto simp: fun_eq_iff)
  with ms show ?thesis
    by (intro exI [of _ "sort_key fst ms"] exI [of _ s'])
      (simp add: sql_get_manifests_def checkedR_def sort_docs_list docs_value_def docs_list_def [symmetric]
        wf_dict_sorted dget_sorted)
qed

lemma sql_keeps_contract:
  assumes "db_ok s" "file_allowed x" "sql_step True True x s = (r, t)"
  shows "db_ok t \<and> promises serves_default x (db_contents s) r (db_contents t)"
proof -
  have f: "fs_ok (on_disk s)" using assms(1) by (simp add: db_ok_def)
  show ?thesis
  proof (cases x)
    case (GetManifest ns p)
    show ?thesis
    proof (cases "ns = PStr DEFAULT_NS \<and> plan_ok p")
      case True
      then obtain q where q: "p = PStr q" "plan_ok (PStr q)"
        by (cases p) (auto simp: plan_ok_def validate_plan_name_def)
      from get_manifest_db [OF assms(1), of True q] obtain s' where
        "db_get_manifest_or_none True q s = Inr (doc_value (doc_of s q), s')" "db_ok s'"
        "on_disk s' = on_disk s" by blast
      with True q GetManifest assms(3) show ?thesis
        by (auto simp: sql_defs promises_def db_contents_def checkedR_def plan_name_ok)
    next
      case False
      with GetManifest assms show ?thesis
        by (auto simp: sql_defs promises_def dest!: db_ns_cases db_plan_cases)
    qed
  next
    case (GetManifests ns)
    show ?thesis
    proof (cases "ns = PStr DEFAULT_NS")
      case True
      with sql_get_manifests_ok [OF assms(1), of True] GetManifests assms(3) show ?thesis
        by (auto simp: promises_def db_contents_def)
    next
      case False
      with GetManifests assms show ?thesis by (auto simp: sql_defs promises_def dest!: db_ns_cases)
    qed
  next
    case (PutManifest ns p m)
    then have "to_result (sql_put_manifest True True ns p m s) = (r, t)" using assms(3) by simp
    then consider (bad) "\<not> args_ok serves_default x" "\<exists>e. r = Raised e" "t = s"
      | (good) q d where "ns = PStr DEFAULT_NS" "p = PStr q" "plan_ok (PStr q)" "m = PDict d"
          "to_result (case db_save_manifest True True q (PDict d) s of
             (s', None) \<Rightarrow> (Inr PNone, s') | (s', Some e) \<Rightarrow> (Inl e, s')) = (r, t)"
      unfolding sql_defs PutManifest
      by (auto simp del: ok_simps dest!: db_ns_cases db_plan_cases db_dict_cases)
    then show ?thesis
    proof cases
      case good
      from db_save_ok [OF assms(1) good(3), of d] obtain s' where
        "db_save_manifest True True q (PDict d) s = (s', None)" "db_ok s'"
        "on_disk s' = dset (manifest_file q) (Json (PDict d)) (on_disk s)" by blast
      with good PutManifest show ?thesis
        by (auto simp: promises_def db_contents_def write_contents)
    qed (use assms in \<open>simp add: promises_def\<close>)
  next
    case (ListPlans ns)
    with assms db_names(1-3) [OF assms(1)] show ?thesis
      by (auto simp: sql_defs promises_def db_contents_def dest!: db_ns_cases
          intro!: exI [of _ "db_list_manifests s"])
  next
    case (GetDecisions ns p)
    with assms get_decisions_file [OF f] show ?thesis
      by (auto simp: sql_defs promises_def db_contents_def dest!: db_ns_cases db_plan_cases)
  next
    case (AppendDecision ns p e)
    with assms f show ?thesis
      by (auto simp: sql_defs promises_def db_contents_def with_disk_def append_decision_file
          write_contents write_ok db_disk_ok dest!: db_ns_cases db_plan_cases db_dict_cases)
  next
    case (GetJournal ns p k)
    with assms get_journal_file [OF f] show ?thesis
      by (auto simp: sql_defs promises_def db_contents_def dest!: db_ns_cases db_plan_cases db_key_cases)
  next
    case (AppendJournal ns p k e)
    with assms f show ?thesis
      by (auto simp: sql_defs promises_def db_contents_def with_disk_def append_journal_file journals_plain
          write_contents write_ok db_disk_ok
          dest!: db_ns_cases db_plan_cases db_key_cases db_dict_cases)
  qed
qed

interpretation database_records:
  record_store "sql_step True True" db_ok db_contents serves_default file_allowed
  by unfold_locales (rule sql_keeps_contract)

subsection \<open>The three stores are interchangeable\<close>

lemma db_ok_open: "db_ok (db_open [] [])"
  by (simp add: db_ok_def db_open_def fs_ok_empty)

text \<open>
  C17: The three record stores are interchangeable: started empty and given the same calls on the
  default namespace (or on none), with plan names without dots for journals and no explicit nulls in
  their display fields, the store in memory, the file store and the database store answer every call
  alike, refusals included; a bulk read may differ in the order of its keys.
\<close>

theorem stores_are_interchangeable:
  assumes "\<forall>x \<in> set xs. file_allowed x \<and> in_common (\<lambda>_. True) serves_default x"
  shows "list_all2 same_answer (fst (run_ops mem_step xs mem_new)) (fst (run_ops (file_step True) xs [])) \<and>
    list_all2 same_answer (fst (run_ops mem_step xs mem_new))
      (fst (run_ops (sql_step True True) xs (db_open [] [])))"
proof -
  obtain qs u where m: "run_ops mem_step xs mem_new = (qs, u)" by (cases "run_ops mem_step xs mem_new")
  obtain rs t where f: "run_ops (file_step True) xs [] = (rs, t)"
    by (cases "run_ops (file_step True) xs []")
  obtain ps v where d: "run_ops (sql_step True True) xs (db_open [] []) = (ps, v)"
    by (cases "run_ops (sql_step True True) xs (db_open [] [])")
  have "promised_run (\<lambda>_. True) xs (mem_contents mem_new) qs (mem_contents u)"
    using mem_records.run_keeps_promise [OF mem_ok_new _ m] by blast
  moreover have "promised_run serves_default xs (file_contents []) rs (file_contents t)"
    using file_records.run_keeps_promise [OF fs_ok_empty _ f] assms by blast
  moreover have "promised_run serves_default xs (file_contents []) ps (db_contents v)"
    using database_records.run_keeps_promise [OF db_ok_open _ d] assms
    by (simp add: db_contents_def db_open_def)
  moreover have "agree_on (\<lambda>_. True) (mem_contents mem_new) (file_contents [])"
    by (auto simp: agree_on_def mem_contents_def mem_new_def file_contents_def log_of_def fun_eq_iff)
  ultimately show ?thesis using runs_agree assms m f d by auto
qed

theorem stores_are_interchangeable_witness:
  "list_all2 same_answer (fst (run_ops mem_step demo_calls mem_new))
     (fst (run_ops (sql_step True True) demo_calls (db_open [] []))) \<and> length demo_calls = 5"
proof -
  have "\<forall>x \<in> set demo_calls. file_allowed x \<and> in_common (\<lambda>_. True) serves_default x"
    using demo_calls_allowed default_namespace_ok
    by (simp add: demo_calls_def in_common_def DEFAULT_NS_def)
  from stores_are_interchangeable [OF this] show ?thesis by (simp add: demo_calls_def)
qed

subsection \<open>Transactions are atomic\<close>

datatype txn_op = TRead bool string | TSave string pyval | TUpdate bool string string pydict

fun txn_step :: "txn_op \<Rightarrow> database \<Rightarrow> database" where
  "txn_step (TRead lock p) s = (case db_get_manifest lock p s of Inl _ \<Rightarrow> s | Inr (_, s') \<Rightarrow> s')"
| "txn_step (TSave p m) s = fst (db_save_manifest True True p m s)"
| "txn_step (TUpdate lock p k changes) s = snd (db_update_story lock True p k changes s)"

text \<open>Inside a transaction that began on the rows \<open>rs\<close> and the files \<open>d\<close>.\<close>

definition in_txn :: "rows \<Rightarrow> fs \<Rightarrow> database \<Rightarrow> bool" where
  "in_txn rs d s \<longleftrightarrow> depth s = 1 \<and> before s = rs \<and> on_disk s = d \<and> wf_dict (pending s) \<and>
     (\<forall>p m. dget (pending s) p = Some m \<longrightarrow> dget (rows s) p = Some (Some m))"

lemma in_txn_import:
  "in_txn rs d s \<Longrightarrow> dget (pending s) p = None \<Longrightarrow> in_txn rs d (import_row lock p m s)"
  by (auto simp: in_txn_def import_row_def write_row_def)

lemma in_txn_read: "in_txn rs d s \<Longrightarrow> db_get_manifest lock p s = Inr (v, s') \<Longrightarrow> in_txn rs d s'"
  by (auto simp: db_get_manifest_def resolved_document_def in_txn_import bindE_Inr_iff
      split: if_splits)

lemma in_txn_save: "in_txn rs d s \<Longrightarrow> in_txn rs d (fst (db_save_manifest lock io p m s))"
  by (auto simp: db_save_manifest_def write_row_def in_txn_def)

lemma in_txn_update:
  assumes "in_txn rs d s"
  shows "in_txn rs d (snd (db_update_story lock io p k changes s))"
proof (cases "db_get_manifest lock p s")
  case (Inr r)
  obtain v s1 where r: "r = (v, s1)" by (cases r)
  with Inr assms have t: "in_txn rs d s1" by (auto dest: in_txn_read)
  have save: "in_txn rs d x" if "db_save_manifest lock io p m s1 = (x, e)" for m x e
    using in_txn_save [OF t, of lock io p m] that by simp
  from Inr r t show ?thesis
    by (auto simp: db_update_story_def dest: save split: sum.split option.split prod.split)
qed (use assms in \<open>simp add: db_update_story_def\<close>)

lemma in_txn_step: "in_txn rs d s \<Longrightarrow> in_txn rs d (txn_step x s)"
  by (cases x) (auto simp: in_txn_save in_txn_update split: sum.splits dest: in_txn_read)

lemma in_txn_run: "in_txn rs d s \<Longrightarrow> in_txn rs d (fold txn_step xs s)"
  by (induction xs arbitrary: s) (auto simp: in_txn_step)

lemma fs_get_saved [simp]:
  "fs_get_manifest p (dset (manifest_file q) (Json m) d) = (if p = q then Inr m else fs_get_manifest p d)"
  by (simp add: fs_get_manifest_def read_strict_def)

lemma project_all:
  assumes "wf_dict ms"
  shows "snd (project [] ms d) = None \<and>
    (\<forall>p. fs_get_manifest p (fst (project [] ms d)) =
      (case dget ms p of Some m \<Rightarrow> Inr m | None \<Rightarrow> fs_get_manifest p d))"
  using assms
proof (induction ms arbitrary: d)
  case (Cons x ms)
  obtain q m where x: "x = (q, m)" by (cases x)
  with Cons.prems have "wf_dict ms" "dget ms q = None"
    by (auto simp: wf_dict_def dget_None_iff)
  with Cons.IH [of "dset (manifest_file q) (Json m) d"] x show ?case
    by (auto simp: fs_save_manifest_def write_json_def split: option.split)
qed simp


definition demo_txn :: "txn_op list" where
  "demo_txn = [TSave ''p'' (PDict [(''v'', PInt 1)]), TRead True ''p'', TSave ''p'' (PDict [(''v'', PInt 2)])]"


subsection \<open>Where the database store differs\<close>

text \<open>
  When writing the file fails after the commit, the next read serves the old file and writes it back
  over the committed row; with two plans, one may keep its write and the other lose it.
\<close>

lemma commit_reverted:
  "(let s = db_open [(''p'', Some (PDict [])), (''q'', Some (PDict []))]
       [(''p.manifest.json'', Json (PDict [])), (''q.manifest.json'', Json (PDict []))];
     w = fold txn_step [TSave ''p'' (PDict [(''v'', PInt 1)]), TSave ''q'' (PDict [(''v'', PInt 1)])]
       (snd (db_begin True s));
     (c, e) = db_commit [True, False] w
    in e = Some WriteFailed \<and> dget (rows c) ''q'' = Some (Some (PDict [(''v'', PInt 1)])) \<and>
       (case db_get_manifest True ''p'' c of Inr (v, _) \<Rightarrow> v = PDict [(''v'', PInt 1)] | _ \<Rightarrow> False) \<and>
       (case db_get_manifest True ''q'' c of
          Inr (v, c') \<Rightarrow> v = PDict [] \<and> dget (rows c') ''q'' = Some (Some (PDict []))
        | _ \<Rightarrow> False))"
  by code_simp

text \<open>
  One file whose name is no plan name, or that cannot be read, ends a bulk read; the file store
  skips it or serves it.
\<close>

lemma odd_name_blinds_database:
  "fst (sql_step True True (GetManifests (PStr ''default''))
     (db_open [] [(''_x.manifest.json'', Json (PDict [])), (''p.manifest.json'', Json (PDict []))])) =
     Raised (InvalidKey ''invalid plan name'') \<and>
   fst (file_step True (GetManifests (PStr ''default''))
     [(''_x.manifest.json'', Json (PDict [])), (''p.manifest.json'', Json (PDict []))]) =
     Value (PDict [(''_x'', PDict []), (''p'', PDict [])]) \<and>
   fst (sql_step True True (GetManifests (PStr ''default''))
     (db_open [] [(''a.manifest.json'', NoRead), (''p.manifest.json'', Json (PDict []))])) =
     Raised ReadFailed \<and>
   fst (file_step True (GetManifests (PStr ''default''))
     [(''a.manifest.json'', NoRead), (''p.manifest.json'', Json (PDict []))]) =
     Value (PDict [(''p'', PDict [])])"
  by code_simp

end
