(* ===== verification/PlanLock.thy ===== *)
theory PlanLock
  imports PyPrelude
begin

text \<open>
  The per-plan lock of \<open>src/pipeline/concurrency.py\<close>: an exclusive \<open>flock\<close> on an open file, made
  reentrant by a per-thread set of held plans, with windows in which the holder gives it up
  (\<open>_released_plan_lock\<close>).  The kernel knows, per plan, which open file holds the lock; a thread
  is a process with a thread number; its \<open>with\<close> blocks are a stack of frames.  A retry loop is a
  sequence of attempts, so waiting needs no state of its own.
\<close>

subsection \<open>State\<close>

datatype thread = Thread (process: nat) (number: nat)

datatype frame =
    Reentrant string
  | Locked string nat
  | Refused string
  | Window string nat
  | NoWindow string
  | Lost string nat

record thread_locks =
  held :: "string set"
  fds :: "string \<rightharpoonup> nat"
  frames :: "frame list"

record lock_world =
  flock_owner :: "string \<rightharpoonup> nat"
  next_fd :: nat
  threads :: "thread \<Rightarrow> thread_locks"
  holders :: "nat \<Rightarrow> string set"

definition no_locks :: thread_locks where
  "no_locks = \<lparr>held = {}, fds = Map.empty, frames = []\<rparr>"

definition lock_init :: lock_world where
  "lock_init =
     \<lparr>flock_owner = Map.empty, next_fd = 0, threads = (\<lambda>_. no_locks), holders = (\<lambda>_. {})\<rparr>"

text \<open>\<open>flock(fd, LOCK_UN)\<close> gives the lock up only where this open file holds it.\<close>

definition unflock :: "string \<Rightarrow> nat \<Rightarrow> lock_world \<Rightarrow> lock_world" where
  "unflock p fd w =
     (if flock_owner w p = Some fd then w\<lparr>flock_owner := (flock_owner w)(p := None)\<rparr> else w)"

definition flock_taken :: "string \<Rightarrow> nat \<Rightarrow> lock_world \<Rightarrow> lock_world" where
  "flock_taken p fd w = w\<lparr>flock_owner := (flock_owner w)(p \<mapsto> fd)\<rparr>"

definition on_thread :: "thread \<Rightarrow> (thread_locks \<Rightarrow> thread_locks) \<Rightarrow> lock_world \<Rightarrow> lock_world" where
  "on_thread t f w = w\<lparr>threads := (threads w)(t := f (threads w t))\<rparr>"

definition register :: "nat \<Rightarrow> (string set \<Rightarrow> string set) \<Rightarrow> lock_world \<Rightarrow> lock_world" where
  "register pid f w = w\<lparr>holders := (holders w)(pid := f (holders w pid))\<rparr>"

subsection \<open>Entering and leaving \<open>_plan_lock_once\<close>\<close>

definition push :: "frame \<Rightarrow> thread_locks \<Rightarrow> thread_locks" where
  "push f l = l\<lparr>frames := f # frames l\<rparr>"

definition gain :: "string \<Rightarrow> nat \<Rightarrow> thread_locks \<Rightarrow> thread_locks" where
  "gain p fd l = l\<lparr>held := insert p (held l), fds := (fds l)(p \<mapsto> fd)\<rparr>"

definition drop_hold :: "string \<Rightarrow> thread_locks \<Rightarrow> thread_locks" where
  "drop_hold p l = l\<lparr>held := held l - {p}, fds := (fds l)(p := None)\<rparr>"

definition pop :: "thread_locks \<Rightarrow> thread_locks" where
  "pop l = l\<lparr>frames := tl (frames l)\<rparr>"

text \<open>The yielded flag and the state; the open file is the next descriptor.\<close>

definition enter :: "thread \<Rightarrow> string \<Rightarrow> lock_world \<Rightarrow> bool \<times> lock_world" where
  "enter t p w =
     (if p \<in> held (threads w t) then (True, on_thread t (push (Reentrant p)) w)
      else
        let fd = next_fd w; w = w\<lparr>next_fd := fd + 1\<rparr> in
        if flock_owner w p = None
        then (True, on_thread t (push (Locked p fd) \<circ> gain p fd)
                (register (process t) (insert p) (flock_taken p fd w)))
        else (False, on_thread t (push (Refused p)) w))"

definition leave_locked :: "thread \<Rightarrow> string \<Rightarrow> nat \<Rightarrow> lock_world \<Rightarrow> lock_world" where
  "leave_locked t p fd w =
     on_thread t (pop \<circ> drop_hold p) (unflock p fd (register (process t) (\<lambda>hs. hs - {p}) w))"

definition leave :: "thread \<Rightarrow> lock_world \<Rightarrow> lock_world option" where
  "leave t w =
     (case frames (threads w t) of
        Locked p fd # _ \<Rightarrow> Some (leave_locked t p fd w)
      | Lost p fd # _ \<Rightarrow> Some (leave_locked t p fd w)
      | Reentrant p # _ \<Rightarrow> Some (on_thread t pop w)
      | Refused p # _ \<Rightarrow> Some (on_thread t pop w)
      | _ \<Rightarrow> None)"

subsection \<open>The released window\<close>

definition open_window :: "thread \<Rightarrow> string \<Rightarrow> lock_world \<Rightarrow> lock_world" where
  "open_window t p w =
     (if p \<notin> held (threads w t) then on_thread t (push (NoWindow p)) w
      else case fds (threads w t) p of
        None \<Rightarrow> on_thread t (push (NoWindow p)) w
      | Some fd \<Rightarrow> on_thread t (push (Window p fd) \<circ> drop_hold p) (unflock p fd w))"

text \<open>
  Leaving a window takes the lock again on the same open file as soon as it is free; when that
  takes too long it raises, and the thread goes on without the lock.  \<open>forget\<close> marks the frame
  whose lock is gone.
\<close>

definition forget :: "nat \<Rightarrow> frame \<Rightarrow> frame" where
  "forget fd f = (case f of Locked p fd' \<Rightarrow> if fd' = fd then Lost p fd else f | _ \<Rightarrow> f)"

definition close_window :: "thread \<Rightarrow> bool \<Rightarrow> lock_world \<Rightarrow> lock_world option" where
  "close_window t timed_out w =
     (case frames (threads w t) of
        NoWindow p # _ \<Rightarrow> Some (on_thread t pop w)
      | Window p fd # _ \<Rightarrow>
          if flock_owner w p = None
          then Some (on_thread t (gain p fd \<circ> pop) (flock_taken p fd w))
          else if timed_out
          then Some (on_thread t (\<lambda>l. l\<lparr>frames := map (forget fd) (tl (frames l))\<rparr>) w)
          else None
      | _ \<Rightarrow> None)"

subsection \<open>Steps\<close>

datatype lock_event = Enter string | Leave | OpenWindow string | CloseWindow bool

inductive lstep :: "lock_world \<Rightarrow> thread \<Rightarrow> lock_event \<Rightarrow> lock_world \<Rightarrow> bool" where
  Enter: "enter t p w = (b, w') \<Longrightarrow> lstep w t (Enter p) w'"
| Leave: "leave t w = Some w' \<Longrightarrow> lstep w t Leave w'"
| Open: "lstep w t (OpenWindow p) (open_window t p w)"
| CloseW: "close_window t b w = Some w' \<Longrightarrow> lstep w t (CloseWindow b) w'"

inductive lrun :: "lock_world \<Rightarrow> (thread \<times> lock_event) list \<Rightarrow> lock_world \<Rightarrow> bool" where
  Done: "lrun w [] w"
| More: "lstep w t e v \<Longrightarrow> lrun v es u \<Longrightarrow> lrun w ((t, e) # es) u"

inductive_simps lrun_simps [simp]: "lrun w [] v" "lrun w ((t, e) # es) v"

subsection \<open>Invariant\<close>

text \<open>The open file a thread holds a plan's lock on, read off its frames.\<close>

fun active :: "string \<Rightarrow> frame list \<Rightarrow> nat option" where
  "active p [] = None"
| "active p (Locked q fd # fs) = (if q = p then Some fd else active p fs)"
| "active p (Window q fd # fs) = (if q = p then None else active p fs)"
| "active p (Lost q fd # fs) = (if q = p then None else active p fs)"
| "active p (_ # fs) = active p fs"

fun frame_fds :: "frame list \<Rightarrow> nat list" where
  "frame_fds [] = []"
| "frame_fds (Locked _ fd # fs) = fd # frame_fds fs"
| "frame_fds (Lost _ fd # fs) = fd # frame_fds fs"
| "frame_fds (_ # fs) = frame_fds fs"

text \<open>
  A window gives up the lock of the frame that was active when it opened; a lock is taken only where
  none is held.
\<close>

fun frames_ok :: "frame list \<Rightarrow> bool" where
  "frames_ok [] = True"
| "frames_ok (Window p fd # fs) = (active p fs = Some fd \<and> frames_ok fs)"
| "frames_ok (Locked p fd # fs) = (active p fs = None \<and> frames_ok fs)"
| "frames_ok (Lost p fd # fs) = (active p fs = None \<and> frames_ok fs)"
| "frames_ok (_ # fs) = frames_ok fs"

definition locks_ok :: "nat \<Rightarrow> thread_locks \<Rightarrow> bool" where
  "locks_ok n l \<longleftrightarrow>
     held l = {p. active p (frames l) \<noteq> None} \<and> (\<forall>p. fds l p = active p (frames l)) \<and>
     frames_ok (frames l) \<and> distinct (frame_fds (frames l)) \<and> (\<forall>fd \<in> set (frame_fds (frames l)). fd < n)"

definition lock_ok :: "lock_world \<Rightarrow> bool" where
  "lock_ok w \<longleftrightarrow>
     (\<forall>t. locks_ok (next_fd w) (threads w t)) \<and>
     (\<forall>t t'. t \<noteq> t' \<longrightarrow> set (frame_fds (frames (threads w t))) \<inter> set (frame_fds (frames (threads w t'))) = {}) \<and>
     (\<forall>p fd. flock_owner w p = Some fd \<longleftrightarrow> (\<exists>t. active p (frames (threads w t)) = Some fd))"

lemma active_fd: "active p fs = Some fd \<Longrightarrow> fd \<in> set (frame_fds fs)"
  by (induction p fs rule: active.induct) (auto split: if_splits)

lemma lock_init_ok: "lock_ok lock_init"
  by (simp add: lock_ok_def locks_ok_def lock_init_def no_locks_def)

lemma forget_simps [simp]:
  "forget fd (Locked p d) = (if d = fd then Lost p fd else Locked p d)"
  "forget fd (Lost p d) = Lost p d" "forget fd (Window p d) = Window p d"
  "forget fd (Reentrant p) = Reentrant p" "forget fd (Refused p) = Refused p"
  "forget fd (NoWindow p) = NoWindow p"
  by (simp_all add: forget_def)

lemma forget_other: "fd \<notin> set (frame_fds fs) \<Longrightarrow> map (forget fd) fs = fs"
  by (induction fs rule: frame_fds.induct) auto

lemma forget_fds: "frame_fds (map (forget fd) fs) = frame_fds fs"
  by (induction fs rule: frame_fds.induct) auto

lemma active_forget:
  "active p fs = Some fd \<Longrightarrow> distinct (frame_fds fs) \<Longrightarrow>
     active q (map (forget fd) fs) = (if q = p then None else active q fs)"
proof (induction fs rule: frame_fds.induct)
  case (2 r d fs)
  show ?case
  proof (cases "r = p")
    case True
    with 2 have "fd = d" "fd \<notin> set (frame_fds fs)" by auto
    with True show ?thesis by (auto simp: forget_other)
  next
    case False
    with 2 have "active p fs = Some fd" by simp
    with active_fd [OF this] 2 False show ?thesis by auto
  qed
qed (auto split: if_splits)

lemma frames_ok_forget:
  "active p fs = Some fd \<Longrightarrow> distinct (frame_fds fs) \<Longrightarrow> frames_ok fs \<Longrightarrow>
     frames_ok (map (forget fd) fs)"
proof (induction fs rule: frame_fds.induct)
  case (2 r d fs)
  show ?case
  proof (cases "r = p")
    case True
    with 2 show ?thesis by (auto simp: forget_other)
  next
    case False
    with 2 have "active p fs = Some fd" by simp
    with active_fd [OF this] 2 False show ?thesis by (auto simp: active_forget [of p _ fd])
  qed
next
  case (3 r d fs)
  then show ?case by (auto simp: active_forget [of p _ fd] split: if_splits)
qed (auto simp: active_forget [of p _ fd] split: if_splits)

lemma lock_ok_unique:
  assumes "lock_ok w" "active p (frames (threads w t)) = Some fd"
    "active p (frames (threads w t')) = Some fd'"
  shows "t = t' \<and> fd = fd'"
proof -
  from assms have "flock_owner w p = Some fd" "flock_owner w p = Some fd'"
    unfolding lock_ok_def by blast+
  then have "fd = fd'" by simp
  with assms active_fd [OF assms(2)] active_fd [OF assms(3)] show ?thesis
    unfolding lock_ok_def by blast
qed

text \<open>A step changes one thread; the rest of the invariant is about its new frames.\<close>

lemma lock_ok_step:
  assumes "lock_ok w" "next_fd w \<le> next_fd w'"
    and "\<And>t'. t' \<noteq> t \<Longrightarrow> threads w' t' = threads w t'"
    and "locks_ok (next_fd w') (threads w' t)"
    and "set (frame_fds (frames (threads w' t))) \<subseteq>
      set (frame_fds (frames (threads w t))) \<union> {fd. next_fd w \<le> fd}"
    and "\<And>p fd. flock_owner w' p = Some fd \<longleftrightarrow> active p (frames (threads w' t)) = Some fd \<or>
      (\<exists>t'. t' \<noteq> t \<and> active p (frames (threads w t')) = Some fd)"
  shows "lock_ok w'"
proof -
  have l: "locks_ok (next_fd w') (threads w' t')" for t'
  proof (cases "t' = t")
    case False
    with assms(1) have "locks_ok (next_fd w) (threads w' t')"
      unfolding lock_ok_def assms(3) [OF False] by blast
    with assms(2) show ?thesis unfolding locks_ok_def by (blast intro: less_le_trans)
  qed (use assms(4) in simp)
  have old: "fd < next_fd w" if "fd \<in> set (frame_fds (frames (threads w t')))" for fd t'
    using assms(1) that unfolding lock_ok_def locks_ok_def by blast
  have d: "set (frame_fds (frames (threads w' t1))) \<inter> set (frame_fds (frames (threads w' t2))) = {}"
    if "t1 \<noteq> t2" for t1 t2
  proof -
    have other: "set (frame_fds (frames (threads w' t))) \<inter> set (frame_fds (frames (threads w u))) = {}"
      if "u \<noteq> t" for u
    proof -
      have "set (frame_fds (frames (threads w t))) \<inter> set (frame_fds (frames (threads w u))) = {}"
        using assms(1) that unfolding lock_ok_def by blast
      moreover have "x \<notin> {fd. next_fd w \<le> fd}" if "x \<in> set (frame_fds (frames (threads w u)))" for x
        using old [OF that] by simp
      ultimately show ?thesis using assms(5) by blast
    qed
    show ?thesis
    proof (cases "t1 = t \<or> t2 = t")
      case True
      with that other [of t1] other [of t2] assms(3) show ?thesis by auto
    next
      case False
      with that assms(1,3) show ?thesis unfolding lock_ok_def by metis
    qed
  qed
  have "flock_owner w' p = Some fd \<longleftrightarrow> (\<exists>t. active p (frames (threads w' t)) = Some fd)" for p fd
    unfolding assms(6) using assms(3) by metis
  with l d show ?thesis unfolding lock_ok_def by blast
qed

lemma on_thread_simps [simp]:
  "threads (on_thread t f w) t' = (if t' = t then f (threads w t) else threads w t')"
  "next_fd (on_thread t f w) = next_fd w" "flock_owner (on_thread t f w) = flock_owner w"
  "holders (on_thread t f w) = holders w"
  by (simp_all add: on_thread_def)

lemma register_simps [simp]:
  "threads (register pid g w) = threads w" "next_fd (register pid g w) = next_fd w"
  "flock_owner (register pid g w) = flock_owner w"
  by (simp_all add: register_def)

lemma flock_simps [simp]:
  "threads (unflock p fd w) = threads w" "next_fd (unflock p fd w) = next_fd w"
  "threads (flock_taken p fd w) = threads w" "next_fd (flock_taken p fd w) = next_fd w"
  "flock_owner (flock_taken p fd w) = (flock_owner w)(p \<mapsto> fd)"
  "flock_owner (unflock p fd w) q =
     (if q = p \<and> flock_owner w p = Some fd then None else flock_owner w q)"
  by (auto simp: unflock_def flock_taken_def)

lemma lock_okD:
  assumes "lock_ok w"
  shows "locks_ok (next_fd w) (threads w t)"
    "flock_owner w p = Some fd \<longleftrightarrow> (\<exists>t. active p (frames (threads w t)) = Some fd)"
  using assms unfolding lock_ok_def by blast+

lemma owner_split:
  assumes "lock_ok w"
  shows "flock_owner w p = Some fd \<longleftrightarrow> active p (frames (threads w t)) = Some fd \<or>
    (\<exists>t'. t' \<noteq> t \<and> active p (frames (threads w t')) = Some fd)"
  using lock_okD(2) [OF assms, of p fd] by metis

lemma active_push_silent:
  "f \<in> {Reentrant q, Refused q, NoWindow q} \<Longrightarrow> active p (f # fs) = active p fs"
  "f \<in> {Reentrant q, Refused q, NoWindow q} \<Longrightarrow> frame_fds (f # fs) = frame_fds fs"
  "f \<in> {Reentrant q, Refused q, NoWindow q} \<Longrightarrow> frames_ok (f # fs) = frames_ok fs"
  by auto

text \<open>Pushing or popping a frame that stands for no lock changes nothing.\<close>

lemma silent_push_ok:
  assumes "lock_ok w" "f \<in> {Reentrant q, Refused q, NoWindow q}"
  shows "lock_ok (on_thread t (push f) w)"
proof (rule lock_ok_step [OF assms(1), of _ t])
  show "locks_ok (next_fd (on_thread t (push f) w)) (threads (on_thread t (push f) w) t)"
    using lock_okD(1) [OF assms(1), of t] assms(2)
    by (simp add: locks_ok_def push_def active_push_silent(1) [OF assms(2)]
        active_push_silent(2,3) [OF assms(2)])
  show "flock_owner (on_thread t (push f) w) p = Some fd \<longleftrightarrow>
      active p (frames (threads (on_thread t (push f) w) t)) = Some fd \<or>
      (\<exists>t'. t' \<noteq> t \<and> active p (frames (threads w t')) = Some fd)" for p fd
    using owner_split [OF assms(1), of p fd t]
    by (simp add: push_def active_push_silent(1) [OF assms(2)])
qed (use assms(2) in \<open>auto simp: push_def\<close>)

lemma silent_pop_ok:
  assumes "lock_ok w" "frames (threads w t) = f # fs" "f \<in> {Reentrant q, Refused q, NoWindow q}"
  shows "lock_ok (on_thread t pop w)"
proof (rule lock_ok_step [OF assms(1), of _ t])
  have a: "active p (frames (threads w t)) = active p fs" "frame_fds (frames (threads w t)) = frame_fds fs"
    "frames_ok (frames (threads w t)) = frames_ok fs" for p
    using assms(2,3) by auto
  then show "locks_ok (next_fd (on_thread t pop w)) (threads (on_thread t pop w) t)"
    using lock_okD(1) [OF assms(1), of t] by (simp add: locks_ok_def pop_def assms(2))
  show "flock_owner (on_thread t pop w) p = Some fd \<longleftrightarrow>
      active p (frames (threads (on_thread t pop w) t)) = Some fd \<or>
      (\<exists>t'. t' \<noteq> t \<and> active p (frames (threads w t')) = Some fd)" for p fd
    using owner_split [OF assms(1), of p fd t] a(1) [of p] by (simp add: pop_def assms(2))
qed (use assms(2,3) in \<open>auto simp: pop_def\<close>)

lemma enter_ok:
  assumes "lock_ok w" "enter t p w = (b, w')"
  shows "lock_ok w'"
proof (cases "p \<in> held (threads w t)")
  case True
  with assms silent_push_ok [OF assms(1), of "Reentrant p" p t] show ?thesis by (auto simp: enter_def)
next
  case False
  let ?fd = "next_fd w"
  have l: "locks_ok ?fd (threads w t)" by (rule lock_okD(1) [OF assms(1)])
  with False have na: "active p (frames (threads w t)) = None" by (auto simp: locks_ok_def)
  have w1: "lock_ok (w\<lparr>next_fd := ?fd + 1\<rparr>)"
    by (rule lock_ok_step [OF assms(1), of _ t])
      (use l owner_split [OF assms(1)] in \<open>auto simp: locks_ok_def\<close>)
  show ?thesis
  proof (cases "flock_owner w p = None")
    case free: False
    with False assms silent_push_ok [OF w1, of "Refused p" p t] show ?thesis
      by (auto simp: enter_def Let_def)
  next
    case True
    then have none: "active p (frames (threads w u)) \<noteq> Some fd" for u fd
      using lock_okD(2) [OF assms(1), of p] by auto
    from True False assms(2) have w': "w' = on_thread t (push (Locked p ?fd) \<circ> gain p ?fd)
        (register (process t) (insert p) (flock_taken p ?fd (w\<lparr>next_fd := ?fd + 1\<rparr>)))"
      by (simp add: enter_def Let_def)
    have "?fd \<notin> set (frame_fds (frames (threads w t)))" using l by (auto simp: locks_ok_def)
    with l na have "locks_ok (?fd + 1) (push (Locked p ?fd) (gain p ?fd (threads w t)))"
      by (auto simp: locks_ok_def push_def gain_def)
    then show ?thesis
      unfolding w' using none owner_split [OF assms(1), of _ _ t]
      by (intro lock_ok_step [OF assms(1), of _ t]) (auto simp: push_def gain_def)
  qed
qed

lemma leave_locked_ok:
  assumes "lock_ok w" "frames (threads w t) = f # fs" "f = Locked p fd \<or> f = Lost p fd"
  shows "lock_ok (leave_locked t p fd w)"
proof -
  have l: "locks_ok (next_fd w) (threads w t)" by (rule lock_okD(1) [OF assms(1)])
  then have f: "active p fs = None" "frame_fds (frames (threads w t)) = fd # frame_fds fs"
    "q \<noteq> p \<Longrightarrow> active q (frames (threads w t)) = active q fs" for q
    using assms(2,3) by (auto simp: locks_ok_def)
  have l': "locks_ok (next_fd w) (pop (drop_hold p (threads w t)))"
    using l f assms(2,3) by (auto simp: locks_ok_def pop_def drop_hold_def)
  have mine: "active p (frames (threads w u)) \<noteq> Some fd" if "u \<noteq> t" for u
  proof
    assume "active p (frames (threads w u)) = Some fd"
    then have "fd \<in> set (frame_fds (frames (threads w u)))" by (rule active_fd)
    moreover have "fd \<in> set (frame_fds (frames (threads w t)))" using f(2) by simp
    ultimately show False using assms(1) that unfolding lock_ok_def by blast
  qed
  have own: "flock_owner w p = Some d \<Longrightarrow> d \<noteq> fd \<Longrightarrow> \<exists>t'. t' \<noteq> t \<and> active p (frames (threads w t')) = Some d"
    for d using owner_split [OF assms(1), of p d t] assms(2,3) f(1) by auto
  show ?thesis
    unfolding leave_locked_def
  proof (rule lock_ok_step [OF assms(1), of _ t])
    show "flock_owner (on_thread t (pop \<circ> drop_hold p) (unflock p fd (register (process t) (\<lambda>hs. hs - {p}) w))) q = Some d \<longleftrightarrow>
      active q (frames (threads (on_thread t (pop \<circ> drop_hold p) (unflock p fd (register (process t) (\<lambda>hs. hs - {p}) w))) t)) = Some d \<or>
      (\<exists>t'. t' \<noteq> t \<and> active q (frames (threads w t')) = Some d)" for q d
      using owner_split [OF assms(1), of q d t] f(1) f(3) [of q] mine own [of d] assms(2)
      by (cases "q = p") (auto simp: pop_def drop_hold_def)
  qed (use l' f(2) assms(2) in \<open>auto simp: pop_def drop_hold_def\<close>)
qed

lemma leave_ok: "lock_ok w \<Longrightarrow> leave t w = Some w' \<Longrightarrow> lock_ok w'"
  by (auto simp: leave_def leave_locked_ok intro: silent_pop_ok split: list.splits frame.splits)

lemma open_window_ok:
  assumes "lock_ok w"
  shows "lock_ok (open_window t p w)"
proof -
  have l: "locks_ok (next_fd w) (threads w t)" by (rule lock_okD(1) [OF assms])
  show ?thesis
  proof (cases "active p (frames (threads w t))")
    case None
    then have "p \<notin> held (threads w t)" using l by (auto simp: locks_ok_def)
    then show ?thesis using silent_push_ok [OF assms, of "NoWindow p" p t] by (simp add: open_window_def)
  next
    case (Some fd)
    then have h: "p \<in> held (threads w t)" "fds (threads w t) p = Some fd" using l by (auto simp: locks_ok_def)
    have o: "flock_owner w p = Some fd" using lock_okD(2) [OF assms] Some by blast
    have one: "active p (frames (threads w u)) \<noteq> Some d" if "u \<noteq> t" for u d
      using lock_ok_unique [OF assms Some, of u d] that by blast
    have l': "locks_ok (next_fd w) (push (Window p fd) (drop_hold p (threads w t)))"
      using l Some by (auto simp: locks_ok_def push_def drop_hold_def)
    have "lock_ok (on_thread t (push (Window p fd) \<circ> drop_hold p) (unflock p fd w))"
    proof (rule lock_ok_step [OF assms, of _ t])
      show "flock_owner (on_thread t (push (Window p fd) \<circ> drop_hold p) (unflock p fd w)) q = Some d \<longleftrightarrow>
        active q (frames (threads (on_thread t (push (Window p fd) \<circ> drop_hold p) (unflock p fd w)) t)) = Some d \<or>
        (\<exists>t'. t' \<noteq> t \<and> active q (frames (threads w t')) = Some d)" for q d
        using owner_split [OF assms, of q d t] o one by (auto simp: push_def drop_hold_def)
    qed (use l' in \<open>auto simp: push_def drop_hold_def\<close>)
    with h show ?thesis by (simp add: open_window_def)
  qed
qed

lemma close_window_ok:
  assumes "lock_ok w" "close_window t b w = Some w'"
  shows "lock_ok w'"
proof (cases "frames (threads w t)")
  case Nil
  with assms(2) show ?thesis by (simp add: close_window_def)
next
  case (Cons f fs)
  have l: "locks_ok (next_fd w) (threads w t)" by (rule lock_okD(1) [OF assms(1)])
  show ?thesis
  proof (cases "\<exists>p fd. f = Window p fd")
    case False
    with assms Cons show ?thesis
      by (auto simp: close_window_def intro: silent_pop_ok split: frame.splits)
  next
    case True
    then obtain p fd where f: "f = Window p fd" by blast
    then have a: "active p fs = Some fd" "frames_ok fs" "distinct (frame_fds fs)"
      using l Cons by (auto simp: locks_ok_def)
    have q: "active q (frames (threads w t)) = (if q = p then None else active q fs)" for q
      using Cons f by simp
    show ?thesis
    proof (cases "flock_owner w p = None")
      case free: True
      then have none: "active p (frames (threads w u)) \<noteq> Some d" for u d
        using lock_okD(2) [OF assms(1), of p] by auto
      from assms(2) Cons f free have w': "w' = on_thread t (gain p fd \<circ> pop) (flock_taken p fd w)"
        by (simp add: close_window_def)
      have "locks_ok (next_fd w) (gain p fd (pop (threads w t)))"
        using l Cons f a q by (auto simp: locks_ok_def gain_def pop_def)
      then show ?thesis
        unfolding w' using none owner_split [OF assms(1), of _ _ t] Cons f a(1) q
        by (intro lock_ok_step [OF assms(1), of _ t]) (auto simp: gain_def pop_def)
    next
      case taken: False
      from assms(2) Cons f taken have
        w': "w' = on_thread t (\<lambda>l. l\<lparr>frames := map (forget fd) (tl (frames l))\<rparr>) w"
        by (auto simp: close_window_def split: if_splits)
      have "locks_ok (next_fd w) ((threads w t)\<lparr>frames := map (forget fd) fs\<rparr>)"
        using l Cons f a q active_forget [OF a(1,3)] frames_ok_forget [OF a(1,3,2)]
        by (auto simp: locks_ok_def forget_fds split: if_splits)
      then show ?thesis
        unfolding w' using owner_split [OF assms(1), of _ _ t] Cons f q active_forget [OF a(1,3)]
        by (intro lock_ok_step [OF assms(1), of _ t]) (auto simp: forget_fds split: if_splits)
    qed
  qed
qed

lemma lstep_ok: "lstep w t e w' \<Longrightarrow> lock_ok w \<Longrightarrow> lock_ok w'"
  by (induction rule: lstep.induct) (auto intro: enter_ok leave_ok open_window_ok close_window_ok)

lemma lrun_ok: "lrun w es w' \<Longrightarrow> lock_ok w \<Longrightarrow> lock_ok w'"
  by (induction rule: lrun.induct) (auto intro: lstep_ok)

text \<open>A thread counts a plan as held exactly where its open file owns the lock.\<close>

lemma held_owner:
  assumes "lock_ok w"
  shows "p \<in> held (threads w t) \<longleftrightarrow> active p (frames (threads w t)) \<noteq> None"
    "fds (threads w t) p = active p (frames (threads w t))"
  using lock_okD(1) [OF assms, of t] by (auto simp: locks_ok_def)

lemma held_unique:
  "lock_ok w \<Longrightarrow> p \<in> held (threads w t) \<Longrightarrow> p \<in> held (threads w u) \<Longrightarrow> t = u"
  unfolding held_owner by (auto dest: lock_ok_unique)

lemma free_iff: "lock_ok w \<Longrightarrow> flock_owner w p = None \<longleftrightarrow> (\<forall>t. p \<notin> held (threads w t))"
  by (metis held_owner(1) lock_okD(2) option.exhaust)

text \<open>
  C12: whatever locks, nested locks and released windows the threads of any number of processes
  go through, a plan is held by at most one thread; the thread that counts it as held owns the
  kernel's lock, on the open file it has on record; and once a thread has left every block, it
  holds nothing.\<close>

theorem plan_lock_excludes:
  assumes "lrun lock_init es w"
  shows "(p \<in> held (threads w t) \<longrightarrow>
      (\<exists>fd. fds (threads w t) p = Some fd \<and> flock_owner w p = Some fd \<and>
        (\<forall>t'. p \<in> held (threads w t') \<or> fds (threads w t') p \<noteq> None \<longrightarrow> t' = t))) \<and>
    (frames (threads w t) = [] \<longrightarrow> held (threads w t) = {})"
proof (intro conjI impI)
  have ok: "lock_ok w" by (rule lrun_ok [OF assms lock_init_ok])
  show "\<exists>fd. fds (threads w t) p = Some fd \<and> flock_owner w p = Some fd \<and>
      (\<forall>t'. p \<in> held (threads w t') \<or> fds (threads w t') p \<noteq> None \<longrightarrow> t' = t)"
    if h: "p \<in> held (threads w t)"
  proof -
    from h obtain fd where a: "active p (frames (threads w t)) = Some fd"
      unfolding held_owner(1) [OF ok] by blast
    then have "flock_owner w p = Some fd" using lock_okD(2) [OF ok] by blast
    moreover have "t' = t" if "p \<in> held (threads w t') \<or> fds (threads w t') p \<noteq> None" for t'
      using that h held_unique [OF ok] by (auto simp: held_owner [OF ok])
    ultimately show ?thesis using a by (auto simp: held_owner(2) [OF ok])
  qed
  show "held (threads w t) = {}" if "frames (threads w t) = []"
    using that lock_okD(1) [OF ok, of t] by (simp add: locks_ok_def)
qed

subsection \<open>The lock implements a mutex per plan\<close>

text \<open>
  The promise, without files, descriptors and registries: \<open>owner\<close> says which thread holds each plan, and every
  thread has its open blocks.  Entering takes a free plan (\<open>Outer\<close>), nests in one's own (\<open>Inner\<close>) or is denied
  by somebody else's; a window gives up a plan of one's own (\<open>Gap\<close>).  Leaving an outer block must free the plan
  and leaving any other one changes nobody's; leaving a gap must take the plan back, and when it cannot and
  gives up waiting, the outer block it belongs to is \<open>Dead\<close> and frees nothing later.
\<close>

datatype nesting = Outer string | Inner string | Shut string | Gap string | NoGap string | Dead string

record mutex =
  owner :: "string \<rightharpoonup> thread"
  nests :: "thread \<Rightarrow> nesting list"

definition mutex_init :: mutex where
  "mutex_init = \<lparr>owner = Map.empty, nests = (\<lambda>t. [])\<rparr>"

definition set_blocks :: "thread \<Rightarrow> nesting list \<Rightarrow> mutex \<Rightarrow> mutex" where
  "set_blocks t bs M = M\<lparr>nests := (nests M)(t := bs)\<rparr>"

definition set_owner :: "string \<Rightarrow> thread option \<Rightarrow> mutex \<Rightarrow> mutex" where
  "set_owner p x M = M\<lparr>owner := (owner M)(p := x)\<rparr>"

definition mutex_enter :: "thread \<Rightarrow> string \<Rightarrow> mutex \<Rightarrow> bool \<times> mutex" where
  "mutex_enter t p M =
     (case owner M p of
        None \<Rightarrow> (True, set_blocks t (Outer p # nests M t) (set_owner p (Some t) M))
      | Some u \<Rightarrow> if u = t then (True, set_blocks t (Inner p # nests M t) M)
                  else (False, set_blocks t (Shut p # nests M t) M))"

definition mutex_leave :: "thread \<Rightarrow> mutex \<Rightarrow> mutex option" where
  "mutex_leave t M =
     (case nests M t of
        Outer p # bs \<Rightarrow> Some (set_blocks t bs (set_owner p None M))
      | Inner p # bs \<Rightarrow> Some (set_blocks t bs M)
      | Shut p # bs \<Rightarrow> Some (set_blocks t bs M)
      | Dead p # bs \<Rightarrow> Some (set_blocks t bs M)
      | _ \<Rightarrow> None)"

definition mutex_open :: "thread \<Rightarrow> string \<Rightarrow> mutex \<Rightarrow> mutex" where
  "mutex_open t p M =
     (if owner M p = Some t then set_blocks t (Gap p # nests M t) (set_owner p None M)
      else set_blocks t (NoGap p # nests M t) M)"

fun kill_outer :: "string \<Rightarrow> nesting list \<Rightarrow> nesting list" where
  "kill_outer p [] = []"
| "kill_outer p (Outer q # bs) = (if q = p then Dead p # bs else Outer q # kill_outer p bs)"
| "kill_outer p (b # bs) = b # kill_outer p bs"

definition mutex_close :: "thread \<Rightarrow> bool \<Rightarrow> mutex \<Rightarrow> mutex option" where
  "mutex_close t gives_up M =
     (case nests M t of
        NoGap p # bs \<Rightarrow> Some (set_blocks t bs M)
      | Gap p # bs \<Rightarrow>
          if owner M p = None then Some (set_blocks t bs (set_owner p (Some t) M))
          else if gives_up then Some (set_blocks t (kill_outer p bs) M)
          else None
      | _ \<Rightarrow> None)"

text \<open>The step of an event, with what entering reported; none where the event cannot happen now.\<close>

definition mutex_step :: "thread \<Rightarrow> lock_event \<Rightarrow> mutex \<Rightarrow> (bool option \<times> mutex) option" where
  "mutex_step t e M =
     (case e of
        Enter p \<Rightarrow> Some (map_prod Some id (mutex_enter t p M))
      | Leave \<Rightarrow> map_option (Pair None) (mutex_leave t M)
      | OpenWindow p \<Rightarrow> Some (None, mutex_open t p M)
      | CloseWindow b \<Rightarrow> map_option (Pair None) (mutex_close t b M))"

fun mutex_run :: "(thread \<times> lock_event) list \<Rightarrow> mutex \<Rightarrow> (bool option list \<times> mutex) option" where
  "mutex_run [] M = Some ([], M)"
| "mutex_run ((t, e) # es) M =
     (case mutex_step t e M of
        None \<Rightarrow> None
      | Some (r, N) \<Rightarrow> map_option (map_prod (Cons r) id) (mutex_run es N))"

text \<open>The same of the lock of the code: its steps are functions, and \<open>lrun\<close> follows them.\<close>

definition lock_step :: "thread \<Rightarrow> lock_event \<Rightarrow> lock_world \<Rightarrow> (bool option \<times> lock_world) option" where
  "lock_step t e w =
     (case e of
        Enter p \<Rightarrow> Some (map_prod Some id (enter t p w))
      | Leave \<Rightarrow> map_option (Pair None) (leave t w)
      | OpenWindow p \<Rightarrow> Some (None, open_window t p w)
      | CloseWindow b \<Rightarrow> map_option (Pair None) (close_window t b w))"

fun lock_run :: "(thread \<times> lock_event) list \<Rightarrow> lock_world \<Rightarrow> (bool option list \<times> lock_world) option" where
  "lock_run [] w = Some ([], w)"
| "lock_run ((t, e) # es) w =
     (case lock_step t e w of
        None \<Rightarrow> None
      | Some (r, v) \<Rightarrow> map_option (map_prod (Cons r) id) (lock_run es v))"

lemma lock_step_lstep: "lock_step t e w = Some (r, w') \<Longrightarrow> lstep w t e w'"
  by (cases e) (auto simp: lock_step_def intro: lstep.intros,
      metis (no_types, lifting) eq_snd_iff lstep.Enter snd_map_prod id_apply snd_conv)

fun block_of :: "frame \<Rightarrow> nesting" where
  "block_of (Reentrant p) = Inner p"
| "block_of (Locked p fd) = Outer p"
| "block_of (Refused p) = Shut p"
| "block_of (Window p fd) = Gap p"
| "block_of (NoWindow p) = NoGap p"
| "block_of (Lost p fd) = Dead p"

definition implements :: "lock_world \<Rightarrow> mutex \<Rightarrow> bool" where
  "implements w M \<longleftrightarrow>
     (\<forall>t p. p \<in> held (threads w t) \<longleftrightarrow> owner M p = Some t) \<and>
     (\<forall>t. nests M t = map block_of (frames (threads w t)))"

lemma implementsD:
  assumes "implements w M"
  shows "p \<in> held (threads w t) \<longleftrightarrow> owner M p = Some t" "nests M t = map block_of (frames (threads w t))"
  using assms by (auto simp: implements_def)

lemma implements_free: "lock_ok w \<Longrightarrow> implements w M \<Longrightarrow> flock_owner w p = None \<longleftrightarrow> owner M p = None"
  by (auto simp: free_iff implements_def)

lemma mutex_simps [simp]:
  "owner (set_blocks t bs M) = owner M" "nests (set_owner p x M) = nests M"
  "owner (set_owner p x M) = (owner M)(p := x)" "nests (set_blocks t bs M) = (nests M)(t := bs)"
  by (simp_all add: set_blocks_def set_owner_def)

lemma held_simps [simp]:
  "held (push f l) = held l" "held (pop l) = held l" "held (gain p fd l) = insert p (held l)"
  "held (drop_hold p l) = held l - {p}" "frames (push f l) = f # frames l" "frames (pop l) = tl (frames l)"
  "frames (gain p fd l) = frames l" "frames (drop_hold p l) = frames l"
  by (simp_all add: push_def pop_def gain_def drop_hold_def)

lemma kill_forget:
  "active p fs = Some fd \<Longrightarrow> distinct (frame_fds fs) \<Longrightarrow>
     map block_of (map (forget fd) fs) = kill_outer p (map block_of fs)"
proof (induction p fs rule: active.induct)
  case (2 p q d fs)
  show ?case
  proof (cases "q = p")
    case True
    with 2 have "d = fd" "fd \<notin> set (frame_fds fs)" by auto
    with True show ?thesis by (simp add: forget_other)
  next
    case False
    with 2 have a: "active p fs = Some fd" by simp
    with active_fd [OF this] 2 False show ?thesis by auto
  qed
qed (auto split: if_splits)

lemma implements_step:
  assumes "implements w M" "threads w' = (threads w)(t := l)" "nests M' = (nests M)(t := map block_of (frames l))"
    and "\<And>p u. u \<noteq> t \<Longrightarrow> (owner M' p = Some u) = (owner M p = Some u)"
    and "\<And>p. p \<in> held l \<longleftrightarrow> owner M' p = Some t"
  shows "implements w' M'"
  using assms by (simp add: implements_def)

lemma threads_simps [simp]:
  "threads (on_thread t f w) = (threads w)(t := f (threads w t))" "threads (register pid g w) = threads w"
  "threads (unflock p fd w) = threads w" "threads (flock_taken p fd w) = threads w"
  by (simp_all add: on_thread_def register_def unflock_def flock_taken_def)

lemma enter_simulates:
  assumes "lock_ok w" "implements w M" "enter t p w = (b, w')"
  shows "\<exists>N. mutex_enter t p M = (b, N) \<and> implements w' N"
proof -
  note im = implementsD [OF assms(2)]
  show ?thesis
  proof (cases "p \<in> held (threads w t)")
    case True
    then have "mutex_enter t p M = (True, set_blocks t (Inner p # nests M t) M)"
      using im(1) by (simp add: mutex_enter_def)
    moreover have "implements (on_thread t (push (Reentrant p)) w) (set_blocks t (Inner p # nests M t) M)"
      by (rule implements_step [OF assms(2), where t = t and l = "push (Reentrant p) (threads w t)"]) (simp_all add: im)
    ultimately show ?thesis using assms(3) True by (auto simp: enter_def)
  next
    case False
    show ?thesis
    proof (cases "flock_owner w p")
      case None
      let ?fd = "next_fd w"
      from None implements_free [OF assms(1,2)] have free: "owner M p = None" by simp
      then have "mutex_enter t p M = (True, set_blocks t (Outer p # nests M t) (set_owner p (Some t) M))"
        by (simp add: mutex_enter_def)
      moreover have "implements w' (set_blocks t (Outer p # nests M t) (set_owner p (Some t) M))"
        by (rule implements_step [OF assms(2), where t = t and l = "push (Locked p ?fd) (gain p ?fd (threads w t))"])
          (use assms(3) None False free im in \<open>auto simp: enter_def Let_def\<close>)
      ultimately show ?thesis using assms(3) None False by (auto simp: enter_def Let_def)
    next
      case (Some fd)
      with implements_free [OF assms(1,2), of p] obtain u where u: "owner M p = Some u" "u \<noteq> t"
        using False im(1) by fastforce
      then have "mutex_enter t p M = (False, set_blocks t (Shut p # nests M t) M)"
        by (simp add: mutex_enter_def)
      moreover have "implements w' (set_blocks t (Shut p # nests M t) M)"
        by (rule implements_step [OF assms(2), where t = t and l = "push (Refused p) (threads w t)"])
          (use assms(3) Some False im in \<open>auto simp: enter_def Let_def\<close>)
      ultimately show ?thesis using assms(3) Some False by (auto simp: enter_def Let_def)
    qed
  qed
qed

lemma leave_simulates:
  assumes "lock_ok w" "implements w M" "leave t w = Some w'"
  shows "\<exists>N. mutex_leave t M = Some N \<and> implements w' N"
proof -
  note im = implementsD [OF assms(2)]
  have l: "locks_ok (next_fd w) (threads w t)" by (rule lock_okD(1) [OF assms(1)])
  obtain f fs where fs: "frames (threads w t) = f # fs" using assms(3) by (auto simp: leave_def split: list.splits)
  then have bs: "nests M t = block_of f # map block_of fs" by (simp add: im)
  have popped: "implements (on_thread t pop w) (set_blocks t (map block_of fs) M)"
    by (rule implements_step [OF assms(2), where t = t and l = "pop (threads w t)"]) (simp_all add: im fs)
  show ?thesis
  proof (cases f)
    case (Locked p fd)
    then have "p \<in> held (threads w t)" using l fs by (simp add: locks_ok_def)
    then have own: "owner M p = Some t" using im(1) by simp
    have "implements w' (set_blocks t (map block_of fs) (set_owner p None M))"
      by (rule implements_step [OF assms(2), where t = t and l = "pop (drop_hold p (threads w t))"])
        (use assms(3) Locked fs own im in \<open>auto simp: leave_def leave_locked_def\<close>)
    with Locked bs show ?thesis by (simp add: mutex_leave_def)
  next
    case (Lost p fd)
    then have "p \<notin> held (threads w t)" using l fs by (simp add: locks_ok_def)
    then have "implements w' (set_blocks t (map block_of fs) M)"
      by (intro implements_step [OF assms(2), where t = t and l = "pop (drop_hold p (threads w t))"])
        (use assms(3) Lost fs im in \<open>auto simp: leave_def leave_locked_def\<close>)
    with Lost bs show ?thesis by (simp add: mutex_leave_def)
  qed (use fs bs assms(3) popped in \<open>auto simp: leave_def mutex_leave_def\<close>)
qed

lemma open_window_simulates:
  assumes "lock_ok w" "implements w M"
  shows "implements (open_window t p w) (mutex_open t p M)"
proof -
  note im = implementsD [OF assms(2)]
  show ?thesis
  proof (cases "p \<in> held (threads w t)")
    case True
    then obtain fd where "fds (threads w t) p = Some fd" using held_owner [OF assms(1)] by auto
    moreover have own: "owner M p = Some t" using True im(1) by simp
    ultimately show ?thesis
      by (intro implements_step [OF assms(2), where t = t and l = "push (Window p fd) (drop_hold p (threads w t))"])
        (use True im in \<open>auto simp: open_window_def mutex_open_def\<close>)
  next
    case False
    then have "owner M p \<noteq> Some t" using im(1) by simp
    with False show ?thesis
      by (intro implements_step [OF assms(2), where t = t and l = "push (NoWindow p) (threads w t)"])
        (use im in \<open>auto simp: open_window_def mutex_open_def\<close>)
  qed
qed

lemma close_window_simulates:
  assumes "lock_ok w" "implements w M" "close_window t b w = Some w'"
  shows "\<exists>N. mutex_close t b M = Some N \<and> implements w' N"
proof -
  note im = implementsD [OF assms(2)]
  have l: "locks_ok (next_fd w) (threads w t)" by (rule lock_okD(1) [OF assms(1)])
  obtain f fs where fs: "frames (threads w t) = f # fs" using assms(3) by (auto simp: close_window_def split: list.splits)
  then have bs: "nests M t = block_of f # map block_of fs" by (simp add: im)
  show ?thesis
  proof (cases f)
    case (Window p fd)
    have free: "flock_owner w p = None \<longleftrightarrow> owner M p = None" by (rule implements_free [OF assms(1,2)])
    have "active p fs = Some fd" "distinct (frame_fds fs)" using l fs Window by (auto simp: locks_ok_def)
    then have killed: "map block_of (map (forget fd) fs) = kill_outer p (map block_of fs)" by (rule kill_forget)
    show ?thesis
    proof (cases "flock_owner w p")
      case None
      then have "implements w' (set_blocks t (map block_of fs) (set_owner p (Some t) M))"
        by (intro implements_step [OF assms(2), where t = t and l = "gain p fd (pop (threads w t))"])
          (use assms(3) Window fs free im in \<open>auto simp: close_window_def\<close>)
      with None Window bs free show ?thesis by (simp add: mutex_close_def)
    next
      case (Some d)
      with assms(3) Window fs have b: b
        and w': "w' = on_thread t (\<lambda>l. l\<lparr>frames := map (forget fd) (tl (frames l))\<rparr>) w"
        by (auto simp: close_window_def split: if_splits)
      have "implements w' (set_blocks t (kill_outer p (map block_of fs)) M)"
        by (rule implements_step [OF assms(2), where t = t and l = "(threads w t)\<lparr>frames := map (forget fd) fs\<rparr>"])
          (use fs w' im in \<open>simp_all add: killed [symmetric]\<close>)
      with Some Window bs free b show ?thesis by (auto simp: mutex_close_def)
    qed
  next
    case (NoWindow p)
    have "implements (on_thread t pop w) (set_blocks t (map block_of fs) M)"
      by (rule implements_step [OF assms(2), where t = t and l = "pop (threads w t)"]) (simp_all add: im fs)
    with NoWindow fs bs assms(3) show ?thesis by (simp add: close_window_def mutex_close_def)
  qed (use fs assms(3) in \<open>simp_all add: close_window_def\<close>)
qed

lemma step_simulates:
  assumes "lock_ok w" "implements w M" "lock_step t e w = Some (r, w')"
  shows "\<exists>N. mutex_step t e M = Some (r, N) \<and> implements w' N"
proof (cases e)
  case (Enter p)
  obtain b v where "enter t p w = (b, v)" by fastforce
  with enter_simulates [OF assms(1,2) this] assms(3) Enter show ?thesis
    by (auto simp: lock_step_def mutex_step_def)
next
  case Leave
  with leave_simulates [OF assms(1,2)] assms(3) show ?thesis
    by (fastforce simp: lock_step_def mutex_step_def)
next
  case (OpenWindow p)
  with open_window_simulates [OF assms(1,2)] assms(3) show ?thesis
    by (auto simp: lock_step_def mutex_step_def)
next
  case (CloseWindow b)
  with close_window_simulates [OF assms(1,2)] assms(3) show ?thesis
    by (fastforce simp: lock_step_def mutex_step_def)
qed

lemma run_simulates:
  "lock_ok w \<Longrightarrow> implements w M \<Longrightarrow> lock_run es w = Some (rs, w') \<Longrightarrow>
     \<exists>N. mutex_run es M = Some (rs, N) \<and> implements w' N"
proof (induction es arbitrary: w M rs)
  case (Cons x es)
  obtain t e where x: "x = (t, e)" by fastforce
  with Cons.prems(3) obtain r v qs where s: "lock_step t e w = Some (r, v)" "lock_run es v = Some (qs, w')" "rs = r # qs"
    by (auto split: option.splits)
  from step_simulates [OF Cons.prems(1,2) s(1)] obtain N where N: "mutex_step t e M = Some (r, N)" "implements v N"
    by blast
  from lstep_ok [OF lock_step_lstep [OF s(1)] Cons.prems(1)] have "lock_ok v" .
  from Cons.IH [OF this N(2) s(2)] N(1) s(3) x show ?case by auto
qed simp

text \<open>
  C22: The plan lock implements one reentrant mutex per plan.  Whatever any threads do, every history of the
  lock is one of the mutex with the same answers: the mutex is a function, so an outermost leave must free the
  plan, an inner one, a refused one and one whose lock was lost must free nothing, and a window must give its
  own plan up and take it back as soon as it is free.
\<close>

theorem plan_lock_refines_mutex:
  assumes "lock_run es lock_init = Some (answers, w)"
  shows "\<exists>M. mutex_run es mutex_init = Some (answers, M) \<and>
    (\<forall>p t. owner M p = Some t \<longleftrightarrow> p \<in> held (threads w t)) \<and>
    (\<forall>p. owner M p = None \<longleftrightarrow> flock_owner w p = None)"
proof -
  have start: "implements lock_init mutex_init"
    by (simp add: implements_def lock_init_def mutex_init_def no_locks_def)
  have ok: "lock_run es v = Some (answers, u) \<Longrightarrow> lock_ok v \<Longrightarrow> lock_ok u" for es v u answers
  proof (induction es arbitrary: v answers)
    case (Cons x es)
    then show ?case
      by (cases x) (auto dest!: lock_step_lstep lstep_ok split: option.splits)
  qed simp
  from run_simulates [OF lock_init_ok start assms] obtain M where
    "mutex_run es mutex_init = Some (answers, M)" "implements w M" by blast
  with implementsD(1) [of w M] implements_free [OF ok [OF assms lock_init_ok], of M] show ?thesis by blast
qed

subsection \<open>Concrete histories\<close>

inductive_simps lstep_simps:
  "lstep w t (Enter p) v" "lstep w t Leave v" "lstep w t (OpenWindow p) v" "lstep w t (CloseWindow b) v"

lemmas lock_eval = lstep_simps enter_def leave_def leave_locked_def open_window_def close_window_def
  lock_init_def no_locks_def on_thread_def register_def unflock_def flock_taken_def push_def pop_def
  gain_def drop_hold_def Let_def

text \<open>
  A thread of process 1 opens a window, in which process 2 takes and returns the plan, and then has
  it back.
\<close>

definition demo_history :: "(thread \<times> lock_event) list" where
  "demo_history =
     [(Thread 1 0, Enter ''p''), (Thread 2 0, Enter ''p''), (Thread 2 0, Leave),
      (Thread 1 0, OpenWindow ''p''), (Thread 2 0, Enter ''p''), (Thread 2 0, Leave),
      (Thread 1 0, CloseWindow False)]"

lemma demo_history_runs:
  "\<exists>w. lrun lock_init demo_history w \<and> ''p'' \<in> held (threads w (Thread 1 0))"
  unfolding demo_history_def by (simp add: lock_eval ex_bool_eq)

lemma plan_lock_excludes_witness:
  "\<exists>w. lrun lock_init demo_history w \<and>
     (\<exists>fd. flock_owner w ''p'' = Some fd \<and> ''p'' \<notin> held (threads w (Thread 2 0)))"
proof -
  obtain w where w: "lrun lock_init demo_history w" "''p'' \<in> held (threads w (Thread 1 0))"
    using demo_history_runs by blast
  from plan_lock_excludes [OF w(1), of "''p''" "Thread 1 0"] w(2) obtain fd where
    fd: "flock_owner w ''p'' = Some fd" "\<forall>t'. ''p'' \<in> held (threads w t') \<longrightarrow> t' = Thread 1 0"
    by blast
  from fd(2) have "''p'' \<notin> held (threads w (Thread 2 0))" by (metis thread.inject numeral_eq_one_iff semiring_norm(85))
  with w(1) fd(1) show ?thesis by blast
qed

lemma demo_history_answers:
  "\<exists>w. lock_run demo_history lock_init =
     Some ([Some True, Some False, None, None, Some True, None, None], w) \<and> ''p'' \<in> held (threads w (Thread 1 0))"
  unfolding demo_history_def by (simp add: lock_step_def lock_eval)

lemma plan_lock_refines_mutex_witness:
  "\<exists>M. mutex_run demo_history mutex_init =
       Some ([Some True, Some False, None, None, Some True, None, None], M) \<and>
     owner M ''p'' = Some (Thread 1 0)"
proof -
  from demo_history_answers obtain w where
    w: "lock_run demo_history lock_init = Some ([Some True, Some False, None, None, Some True, None, None], w)"
      "''p'' \<in> held (threads w (Thread 1 0))" by blast
  from plan_lock_refines_mutex [OF w(1)] w(2) show ?thesis by blast
qed

text \<open>
  A nested lock inside a window takes the plan out of the process-wide registry when it is left, and
  taking the lock back on leaving the window does not put it there again: the outer block holds the
  lock, and the registry does not know.  A thread of the same process that is refused meanwhile is
  counted as refused by another process.
\<close>

lemma registry_forgets_holder:
  "\<exists>w. lrun lock_init
      [(Thread 1 0, Enter ''p''), (Thread 1 0, OpenWindow ''p''), (Thread 1 0, Enter ''p''),
       (Thread 1 0, Leave), (Thread 1 0, CloseWindow False)] w \<and>
     ''p'' \<in> held (threads w (Thread 1 0)) \<and> ''p'' \<notin> holders w 1"
  by (simp add: lock_eval ex_bool_eq)

subsection \<open>Waiting for the lock\<close>

definition RETRY_INTERVAL :: rat where "RETRY_INTERVAL = 1 / 20"

text \<open>What a caller's \<open>wait_seconds\<close> counts as.\<close>

definition wait_budget :: "pyfloat \<Rightarrow> rat" where
  "wait_budget v = (case v of Fin x \<Rightarrow> if x < 0 then 0 else x | _ \<Rightarrow> 0)"

text \<open>
  The retry loop of \<open>_plan_lock\<close>: each attempt has an outcome and, when it failed, is followed by a
  reading of the clock.  The value is the flag the block gets, None while the attempts given do not
  settle it.
\<close>

fun plan_lock_wait :: "rat \<Rightarrow> (bool \<times> rat) list \<Rightarrow> bool option" where
  "plan_lock_wait deadline [] = None"
| "plan_lock_wait deadline ((acquired, now) # rest) =
     (if acquired then Some True
      else if deadline - now \<le> 0 then Some False
      else plan_lock_wait deadline rest)"

definition plan_lock :: "pyfloat \<Rightarrow> rat \<Rightarrow> (bool \<times> rat) list \<Rightarrow> bool option" where
  "plan_lock wait_seconds start = plan_lock_wait (start + wait_budget wait_seconds)"

text \<open>The environment's settings; \<open>parse\<close> is Python's \<open>float\<close> on a string.\<close>

definition command_lock_wait_seconds :: "(string \<Rightarrow> pyfloat option) \<Rightarrow> env \<Rightarrow> pyfloat" where
  "command_lock_wait_seconds parse env =
     (case dget env ''PIPELINE_COMMAND_LOCK_WAIT_SECONDS'' of
        None \<Rightarrow> Fin 30
      | Some raw \<Rightarrow>
          (case parse (strip raw) of
             Some (Fin x) \<Rightarrow> if x < 0 then Fin 30 else if x = 0 then Fin 0 else Fin (min x 120)
           | _ \<Rightarrow> Fin 30))"

definition plan_lock_slow_seconds :: "(string \<Rightarrow> pyfloat option) \<Rightarrow> env \<Rightarrow> pyfloat" where
  "plan_lock_slow_seconds parse env =
     (case dget env ''PIPELINE_PLAN_LOCK_SLOW_SECONDS'' of
        None \<Rightarrow> Fin 5
      | Some raw \<Rightarrow>
          (case parse raw of
             Some (Fin x) \<Rightarrow> if x \<le> 0 then Fin 5 else Fin x
           | _ \<Rightarrow> Fin 5))"

definition plan_reacquire_timeout :: "(string \<Rightarrow> pyfloat option) \<Rightarrow> env \<Rightarrow> pyfloat" where
  "plan_reacquire_timeout parse env =
     (case dget env ''PIPELINE_PLAN_LOCK_REACQUIRE_TIMEOUT_SECONDS'' of
        None \<Rightarrow> Fin 300
      | Some raw \<Rightarrow> (case parse raw of Some v \<Rightarrow> v | None \<Rightarrow> Fin 300))"

lemma command_wait_range:
  "\<exists>x. command_lock_wait_seconds parse env = Fin x \<and> 0 \<le> x \<and> x \<le> 120"
  by (auto simp: command_lock_wait_seconds_def split: option.split pyfloat.split)

text \<open>
  What \<open>time.sleep\<close> promises: after a failed attempt that leaves time, the next one comes at least
  the retry interval later, or when the time is over.
\<close>

fun sleeps_between :: "rat \<Rightarrow> (bool \<times> rat) list \<Rightarrow> bool" where
  "sleeps_between deadline ((a, now) # (b, later) # rest) \<longleftrightarrow>
     now + min RETRY_INTERVAL (deadline - now) \<le> later \<and> sleeps_between deadline ((b, later) # rest)"
| "sleeps_between deadline _ \<longleftrightarrow> True"

lemma wait_settles:
  "sleeps_between deadline rs \<Longrightarrow> n < length rs \<Longrightarrow>
     deadline - snd (hd rs) \<le> of_nat n * RETRY_INTERVAL \<Longrightarrow> plan_lock_wait deadline rs \<noteq> None"
proof (induction deadline rs arbitrary: n rule: sleeps_between.induct)
  case (1 deadline a now b later rest)
  show ?case
  proof (cases n)
    case 0
    with 1 show ?thesis by (auto simp: RETRY_INTERVAL_def)
  next
    case (Suc m)
    have "deadline - later \<le> of_nat m * RETRY_INTERVAL"
    proof (cases "RETRY_INTERVAL \<le> deadline - now")
      case True
      with 1 Suc show ?thesis by (simp add: algebra_simps)
    next
      case False
      then have "deadline - later \<le> 0" using 1(2) by simp
      then show ?thesis by (rule order_trans) (simp add: RETRY_INTERVAL_def)
    qed
    with 1 Suc show ?thesis by (simp add: ex_bool_eq)
  qed
qed (auto simp: RETRY_INTERVAL_def)

text \<open>
  C34: an operator's command never waits for ever: whatever the environment says, it has its
  answer after at most 2401 attempts at the lock.\<close>

theorem commands_stop_waiting:
  assumes "sleeps_between (start + wait_budget (command_lock_wait_seconds parse env)) rs"
    "start \<le> snd (hd rs)" "2401 \<le> length rs"
  shows "plan_lock (command_lock_wait_seconds parse env) start rs \<noteq> None"
proof -
  obtain x where x: "command_lock_wait_seconds parse env = Fin x" "0 \<le> x" "x \<le> 120"
    using command_wait_range by blast
  have "start + x - snd (hd rs) \<le> of_nat 2400 * RETRY_INTERVAL"
    using x assms(2) by (simp add: RETRY_INTERVAL_def)
  with wait_settles [of "start + x" rs 2400] assms(1,3) x show ?thesis
    by (simp add: plan_lock_def wait_budget_def)
qed

definition demo_attempts :: "(bool \<times> rat) list" where
  "demo_attempts = replicate 2401 (False, 200)"

lemma sleeps_replicate: "deadline \<le> now \<Longrightarrow> sleeps_between deadline (replicate n (a, now))"
proof (induction n)
  case (Suc n)
  then show ?case by (cases n) (auto simp: min_def RETRY_INTERVAL_def)
qed simp

lemma commands_stop_waiting_witness:
  "plan_lock (command_lock_wait_seconds (\<lambda>_. None) []) 0 demo_attempts \<noteq> None"
proof (rule commands_stop_waiting)
  show "sleeps_between (0 + wait_budget (command_lock_wait_seconds (\<lambda>_. None) [])) demo_attempts"
    unfolding demo_attempts_def
    by (rule sleeps_replicate) (simp add: command_lock_wait_seconds_def wait_budget_def)
qed (simp_all add: demo_attempts_def)

text \<open>
  The time-out for taking the lock back has no such check: a setting of \<open>inf\<close> or \<open>nan\<close> is taken as
  it is, and the deadline \<open>monotonic() + inf\<close> never comes.
\<close>

lemma reacquire_timeout_unbounded:
  "plan_reacquire_timeout (\<lambda>s. if s = ''inf'' then Some PInf else None)
     [(''PIPELINE_PLAN_LOCK_REACQUIRE_TIMEOUT_SECONDS'', ''inf'')] = PInf"
  by (simp add: plan_reacquire_timeout_def dget_def)

end
