(* ===== verification/StoryCommit.thy ===== *)
theory StoryCommit
  imports RecordStore PlanLock
begin

text \<open>
  \<open>src/pipeline/story_commit.py\<close>: writing one story's record into a manifest that others change
  meanwhile, next to \<open>update_story\<close> of the file store, which merges fields into one story.  Both read
  the manifest again and run under the plan lock, so they come one after another.
\<close>

datatype commit_exn = CommitFailed store_exn | CommitTimeout

text \<open>A story that is gone is not written back.\<close>

definition write_story :: "bool \<Rightarrow> string \<Rightarrow> string \<Rightarrow> pyval \<Rightarrow> fs \<Rightarrow> store_exn + fs" where
  "write_story io name key story d =
     bindE (read_strict (dget d name)) (\<lambda>manifest.
     case manifest of
       PDict m \<Rightarrow>
         (case dgetN m ''stories'' of
            PDict stories \<Rightarrow>
              if dget stories key = None then Inr d
              else write_json io name (PDict (dset ''stories'' (PDict (dset key story stories)) m)) d
          | _ \<Rightarrow> Inr d)
     | _ \<Rightarrow> Inl StoreAttributeError)"

text \<open>
  \<open>commit_story\<close>: under a hold of its own thread it writes at once; otherwise it tries for the lock,
  reading the clock after each failure.  None while the attempts given settle nothing.
\<close>

fun commit_attempts :: "pyfloat \<Rightarrow> (bool \<times> rat) list \<Rightarrow> (store_exn + fs) \<Rightarrow> (commit_exn + fs) option" where
  "commit_attempts deadline [] written = None"
| "commit_attempts deadline ((acquired, now) # rest) written =
     (if acquired then Some (case written of Inl e \<Rightarrow> Inl (CommitFailed e) | Inr d \<Rightarrow> Inr d)
      else if num_le deadline (Fin now) then Some (Inl CommitTimeout)
      else commit_attempts deadline rest written)"

definition plus_float :: "rat \<Rightarrow> pyfloat \<Rightarrow> pyfloat" where
  "plus_float x v = (case v of Fin y \<Rightarrow> Fin (x + y) | _ \<Rightarrow> v)"

definition commit_story ::
  "bool \<Rightarrow> string \<Rightarrow> string \<Rightarrow> pyval \<Rightarrow> bool \<Rightarrow> rat \<Rightarrow> pyfloat \<Rightarrow> (bool \<times> rat) list \<Rightarrow> fs \<Rightarrow>
   (commit_exn + fs) option" where
  "commit_story io name key story mine start timeout attempts d =
     (if mine
      then Some (case write_story io name key story d of Inl e \<Rightarrow> Inl (CommitFailed e) | Inr d' \<Rightarrow> Inr d')
      else commit_attempts (plus_float start timeout) attempts (write_story io name key story d))"

subsection \<open>Writers of one manifest\<close>

text \<open>The writes of several actors to one plan, in the order in which they got the lock.\<close>

datatype story_write = Commit string pyval | Update string pydict

fun written_key :: "story_write \<Rightarrow> string" where
  "written_key (Commit k _) = k"
| "written_key (Update k _) = k"

fun write_step :: "string \<Rightarrow> story_write \<Rightarrow> fs \<Rightarrow> fs" where
  "write_step p (Commit k story) d =
     (case commit_story True (manifest_file p) k story True 0 (Fin 0) [] d of Some (Inr d') \<Rightarrow> d' | _ \<Rightarrow> d)"
| "write_step p (Update k changes) d =
     (case fs_update_story True p k changes d of Inr (_, d') \<Rightarrow> d' | Inl _ \<Rightarrow> d)"

text \<open>What one story's own writes make of its record.\<close>

fun own_write :: "story_write \<Rightarrow> pyval \<Rightarrow> pyval" where
  "own_write (Commit _ story) v = story"
| "own_write (Update _ changes) v =
     (case v of PDict st \<Rightarrow> PDict (fold (\<lambda>(f, x). dset f x) changes st) | _ \<Rightarrow> v)"

definition plan_state :: "string \<Rightarrow> pydict \<Rightarrow> pydict \<Rightarrow> fs \<Rightarrow> bool" where
  "plan_state p m ss d \<longleftrightarrow> dget d (manifest_file p) = Some (Json (PDict m)) \<and> dget m ''stories'' = Some (PDict ss)"

lemma write_step_state:
  assumes "plan_state p m ss d" "written_key w = k"
  shows "\<exists>m' ss'. plan_state p m' ss' (write_step p w d) \<and> dkeys ss' = dkeys ss \<and>
    (\<forall>f. f \<noteq> ''stories'' \<longrightarrow> dget m' f = dget m f) \<and>
    (\<forall>q. dget ss' q = (if q = k then map_option (own_write w) (dget ss q) else dget ss q)) \<and>
    (\<forall>name. name \<noteq> manifest_file p \<longrightarrow> dget (write_step p w d) name = dget d name)"
proof (cases "dget ss k")
  case None
  then have "write_step p w d = d"
    using assms by (cases w) (auto simp: plan_state_def commit_story_def write_story_def read_strict_def
        fs_update_story_def fs_get_manifest_def story_update_def dgetN_def)
  with assms(1) None show ?thesis by (intro exI [of _ m] exI [of _ ss]) auto
next
  case (Some v)
  let ?ss = "dset k (own_write w v) ss"
  consider (same) "write_step p w d = d" "own_write w v = v"
    | (put) "write_step p w d = dset (manifest_file p) (Json (PDict (dset ''stories'' (PDict ?ss) m))) d"
    using assms Some by (cases w; cases v)
      (auto simp: plan_state_def commit_story_def write_story_def read_strict_def write_json_def
        fs_update_story_def fs_get_manifest_def story_update_def dgetN_def fs_save_manifest_def Let_def)
  then show ?thesis
  proof cases
    case same
    with assms(1) Some show ?thesis by (intro exI [of _ m] exI [of _ ss]) auto
  next
    case put
    with assms(1) Some show ?thesis
      by (intro exI [of _ "dset ''stories'' (PDict ?ss) m"] exI [of _ ?ss])
        (auto simp: plan_state_def dkeys_dset_old)
  qed
qed

lemma write_steps_state:
  "plan_state p m ss d \<Longrightarrow>
     \<exists>m' ss'. plan_state p m' ss' (fold (write_step p) ws d) \<and> dkeys ss' = dkeys ss \<and>
       (\<forall>f. f \<noteq> ''stories'' \<longrightarrow> dget m' f = dget m f) \<and>
       (\<forall>q. dget ss' q = map_option (fold own_write (filter (\<lambda>w. written_key w = q) ws)) (dget ss q)) \<and>
       (\<forall>name. name \<noteq> manifest_file p \<longrightarrow> dget (fold (write_step p) ws d) name = dget d name)"
proof (induction ws arbitrary: m ss d)
  case Nil
  then show ?case by (intro exI [of _ m] exI [of _ ss]) (auto simp: option.map_ident)
next
  case (Cons w ws)
  from write_step_state [OF Cons.prems refl, of w] obtain m1 ss1 where
    one: "plan_state p m1 ss1 (write_step p w d)" "dkeys ss1 = dkeys ss"
      "\<And>f. f \<noteq> ''stories'' \<Longrightarrow> dget m1 f = dget m f"
      "\<And>q. dget ss1 q = (if q = written_key w then map_option (own_write w) (dget ss q) else dget ss q)"
      "\<And>name. name \<noteq> manifest_file p \<Longrightarrow> dget (write_step p w d) name = dget d name" by blast
  from Cons.IH [OF one(1)] obtain m2 ss2 where
    "plan_state p m2 ss2 (fold (write_step p) ws (write_step p w d))" "dkeys ss2 = dkeys ss1"
      "\<And>f. f \<noteq> ''stories'' \<Longrightarrow> dget m2 f = dget m1 f"
      "\<And>q. dget ss2 q = map_option (fold own_write (filter (\<lambda>w. written_key w = q) ws)) (dget ss1 q)"
      "\<And>name. name \<noteq> manifest_file p \<Longrightarrow>
         dget (fold (write_step p) ws (write_step p w d)) name = dget (write_step p w d) name" by blast
  with one show ?case
    by (intro exI [of _ m2] exI [of _ ss2]) (auto simp: option.map_comp comp_def)
qed

text \<open>
  Writers of one plan do not overwrite each other's stories: whatever commits and updates of
  whatever stories run, in whatever order they get the lock, each story ends as its own writes leave
  it, in their order; no story is added or lost, and plan-level fields and other files stay.
\<close>

lemma story_writes_do_not_interfere:
  assumes "plan_state p m ss d"
  shows "\<exists>m' ss'. plan_state p m' ss' (fold (write_step p) ws d) \<and> dkeys ss' = dkeys ss \<and>
    (\<forall>f. f \<noteq> ''stories'' \<longrightarrow> dget m' f = dget m f) \<and>
    (\<forall>q. dget ss' q = map_option (fold own_write (filter (\<lambda>w. written_key w = q) ws)) (dget ss q)) \<and>
    (\<forall>name. name \<noteq> manifest_file p \<longrightarrow> dget (fold (write_step p) ws d) name = dget d name)"
  by (rule write_steps_state [OF assms])

definition demo_stories :: pydict where
  "demo_stories = [(''A'', PDict [(''status'', PStr ''ready'')]), (''B'', PDict [(''status'', PStr ''ready'')])]"

lemma story_writes_do_not_interfere_witness:
  "\<exists>m' ss'. plan_state ''p'' m' ss' (fold (write_step ''p'')
       [Commit ''A'' (PDict []), Update ''B'' [(''status'', PStr ''done'')]]
       [(manifest_file ''p'', Json (PDict [(''stories'', PDict demo_stories)]))]) \<and>
     dget ss' ''A'' = Some (PDict []) \<and> dget ss' ''B'' = Some (PDict [(''status'', PStr ''done'')])"
proof -
  have "plan_state ''p'' [(''stories'', PDict demo_stories)] demo_stories
      [(manifest_file ''p'', Json (PDict [(''stories'', PDict demo_stories)]))]"
    by (simp add: plan_state_def)
  from story_writes_do_not_interfere [OF this, of "[Commit ''A'' (PDict []), Update ''B'' [(''status'', PStr ''done'')]]"]
  obtain m' ss' where s: "plan_state ''p'' m' ss' (fold (write_step ''p'')
       [Commit ''A'' (PDict []), Update ''B'' [(''status'', PStr ''done'')]]
       [(manifest_file ''p'', Json (PDict [(''stories'', PDict demo_stories)]))])"
    "\<And>q. dget ss' q = map_option (fold own_write (filter (\<lambda>w. written_key w = q)
       [Commit ''A'' (PDict []), Update ''B'' [(''status'', PStr ''done'')]])) (dget demo_stories q)" by blast
  have "dset ''status'' (PStr ''done'') [(''status'', PStr ''ready'')] = [(''status'', PStr ''done'')]"
    by (simp add: dset_def)
  with s(2) [of "''A''"] s(2) [of "''B''"]
  have "dget ss' ''A'' = Some (PDict [])" "dget ss' ''B'' = Some (PDict [(''status'', PStr ''done'')])"
    by (simp_all add: demo_stories_def)
  with s(1) show ?thesis by blast
qed

end
