(* ===== verification/Spec2Isabelle.thy ===== *)
theory Spec2Isabelle
  imports MergeRounds ApproveMerge RemotePolicy PatchGate LoginSafety LoginLimits AuthorityMatrix AuditAnchor RateLimit AdvanceTick DatabaseStore StoryCommit
begin

text \<open>
  \<^bold>\<open>A verification library for the story pipeline\<close>

  The program takes plans of stories, has agents implement the stories in git worktrees, reviews the
  branches and merges them.  A scheduler advances every plan in ticks under a plan lock; a tick
  interrupts, dispatches, grades and merges.  A plan is one JSON manifest kept by a record store.
  Principals (people, agents, the system) reach the program through a server whose every action is
  decided by a policy, and what they decide is kept in hash-chained streams with an external anchor.
  This library models the parts of that program whose mistakes cost most, translated from the Python
  sources under \<open>src/\<close>, and proves what they promise.

  \<^bold>\<open>How the Python is read\<close> (\<open>PyPrelude\<close>).  A JSON value is a \<open>pyval\<close>, a dictionary an association list in
  insertion order (\<open>pydict\<close>, with \<open>dget\<close>, \<open>dset\<close>, \<open>dpop\<close>), a string a list of characters below 256.
  Fallible code answers a sum with the exception on the left, sequenced by \<open>bindE\<close>.  Code that also
  calls the outside world is a pair of the calls it made and its answer (\<open>logged\<close>, with \<open>bindW\<close> and
  \<open>tellW\<close> in \<open>CallLog\<close>); loops over state are folds; threads are interleavings of steps.  Clocks,
  processes, files, git, the code host, hash functions and regular expressions the program does not
  define are arguments of the model.

  \<^bold>\<open>Theories and sources\<close>

  \<^item> Who asks and what they may do.  \<open>Identity\<close> (\<open>app/identity.py\<close>, \<open>pipeline/actor.py\<close>): principals and the
    request context.  \<open>Policy\<close> (\<open>app/policy.py\<close>): grants and the local policy.  \<open>PluginLoader\<close>
    (\<open>app/plugin_loader.py\<close>): an operator's own policy.  \<open>AuthorityMatrix\<close> (\<open>authority_matrix.py\<close>): the fold of
    organisation and team rules.  \<open>Ownership\<close>, \<open>Authorization\<close>, \<open>PlanApproval\<close>: the owner of a plan after an
    ingest, the one place that asks the policy, and approvals bound to a digest.  \<open>RateLimit\<close>: token buckets
    and quotas of the remote gate.  \<open>RemotePolicy\<close> (\<open>remote_tool_policy.py\<close>): the tools a remote caller may call
    and what their replies show.
  \<^item> How a caller is known.  \<open>Jwks\<close> and \<open>Oidc\<close> (\<open>app/oidc.py\<close>): the download and the cache of an identity
    provider's keys, and the principal of a bearer token.  \<open>LoginFlow\<close> (\<open>app/oidc_login.py\<close>,
    \<open>app/oidc_login_routes.py\<close>): the authorization-code login of a browser and its sessions; \<open>LoginSafety\<close> and
    \<open>LoginLimits\<close> hold what they promise over any sequence of requests.
  \<^item> How a person edits a worktree.  \<open>PatchParse\<close> (\<open>worktree_patch_parse.py\<close>): the reader of unified diffs, with a
    grammar it is equal to; \<open>PatchText\<close>: a writer it reads back.  \<open>WorktreePatch\<close> (\<open>worktree_patch.py\<close>,
    \<open>workspace_fs.py\<close> and the routes of \<open>app/dashboard.py\<close>): proposing and applying a patch; \<open>PatchGate\<close>: its
    guarantees.
  \<^item> What is kept.  \<open>AuditChain\<close> (\<open>audit.py\<close>), \<open>DecisionRecords\<close>, \<open>AuditAnchor\<close>: two chained streams and the
    log of their heads.  \<open>RecordStore\<close> (\<open>store_records.py\<close>, \<open>store_memory.py\<close>, \<open>store.py\<close>, \<open>persistence.py\<close>) and
    \<open>DatabaseStore\<close> (\<open>store_sqlite.py\<close>): the contract of a store and its three implementations.
    \<open>StoryCommit\<close>: concurrent writers of one manifest.
  \<^item> Who runs when.  \<open>PlanLock\<close> (\<open>concurrency.py\<close>), \<open>DispatchLease\<close>, \<open>AdvanceQueue\<close> (with the workers),
    \<open>ReconcilePass\<close>, \<open>CrossPlan\<close>: the lock, the lease of one story, the queue, the sweep that finds work, and
    the cached view of other plans.
  \<^item> What a tick does.  \<open>AdvanceTick\<close> (\<open>advance.py\<close>): gates, interruption and dispatch.  \<open>CiGate\<close> (\<open>ci.py\<close>),
    \<open>ReworkBrief\<close>, \<open>ReviewBinding\<close>, \<open>MergeReverify\<close> and \<open>MergeGate\<close> (\<open>advance_merge.py\<close>, \<open>merge.py\<close>): the merge
    phase with the state of CI, the briefs handed back, the commit an approval covers and the detached
    re-run.  \<open>MergeSafety\<close> and \<open>MergeRounds\<close> hold what the merge phase guarantees.
    \<open>ApproveMerge\<close> (\<open>merge.py\<close>): the merge a person asks for.

  A definition has the name of the function it translates, without a leading underscore, or names the
  step of a handler it stands for; a record has the fields of the state it stands for.

  \<^bold>\<open>Interfaces.\<close>  \<open>ratchet\<close> (a quantity that only grows along steps) is interpreted on the anchor log;
  \<open>chained_stream\<close> (append and verify of a chained file) on the audit and on the decision stream;
  \<open>record_store\<close> (what a reader sees after each write) on the memory, the file and the database store.
  The lemmas of a locale are proved once and used through these interpretations.

  \<^bold>\<open>What the lemmas show\<close>

  \<^item> Safety of the merge: a story is merged only with an approval of the probed tip, a poll of CI that does
    not block, green checks of this very story (or a passing result of its own job for this commit), and
    the switches and the overlord in favour; and the gate cannot turn a story away more often than its two
    budgets allow, each time they are opened.
  \<^item> Safety of dispatch: a dispatch is guarded by the gates of the tick and by a lease claimed on the manifest
    that is on disk at that moment; a tick stays within its budgets; retries end.
  \<^item> Mutual exclusion: the plan lock answers as one reentrant mutex per plan, given as a function, does; one
    worker per plan; leases exclude and expire.
  \<^item> Authority: no layer widens another, strangers and agents stay refused, ownership is not taken over,
    an approval is of the content it names; a remote caller's view does not depend on plans hidden from it.
  \<^item> Identity: a token is accepted only when the claims decoded from it pass every check, subjects name one
    account, keys are asked of outside addresses only; a session was logged in to by its own browser, and an
    attempt to log in is spent once.
  \<^item> Patches: a diff is read as its grammar says, and git applies it only when it was proposed, confirmed and
    every file it names may be written.
  \<^item> Evidence: an edited, dropped or reordered record is detected; an anchored prefix cannot change;
    every decision is attributed.
  \<^item> Storage: the three stores answer alike, transactions are atomic, writers of different stories do not
    interfere, appended records are read back, answers have the types the contract declares.
  \<^item> Bounds and liveness: token buckets, the advice of \<open>retry_after\<close>, the length of briefs, waits on the lock,
    and requests that are never lost.

  Lemmas that show a run of the code away from its comments or its purpose stand at the end of their
  theories (for example \<open>stale_pending_sha_merges\<close>, \<open>merged_and_not_saved\<close>, \<open>commit_reverted\<close>,
  \<open>registry_forgets_holder\<close>, \<open>running_plan_cannot_be_rejected\<close>, \<open>torn_tail_loses_decision\<close>).

  \<^bold>\<open>Bounds and fuel.\<close>  The loops of the code are structural in the model, or run over a number of attempts
  the code itself computes: the wait for the plan lock takes a list of at most 2401 attempts
  (\<open>wait_settles\<close>), the wait for CI a list of rounds, the fold over layers their number.  Where fuel appears
  a lemma shows that what is chosen is enough.

  \<^bold>\<open>Simplifications.\<close>  The login and the patch routes serve one request at a time.  The append to the decision
  log that follows the save of an approved manifest succeeds (\<open>PlanApproval\<close>), and what its authorization
  reads before the lock is an argument of its own.  Floating-point numbers of the rate limit and of clocks are
  rationals.  \<open>ApproveMerge\<close> takes the poll of CI, the merge of the pull request and the notice of a change to the
  program itself as arguments; \<open>CiGate\<close> models the poll.

  \<^bold>\<open>Not modelled.\<close>  Characters from 256 on; signals and crashes between two file operations, except in
  \<open>DatabaseStore\<close>; the text of notifications.  The review and triage orchestration, the graders and the
  agents are prompts, processes and transcripts around the state modelled here, and the other routes of the
  dashboard, the chat, the notification channels, telemetry and the installer are transport and display: what
  they would need is the behaviour of third-party services.
\<close>

end
